(* ===== verification/GoPrelude.thy ===== *)
theory GoPrelude
  imports
    Main
    "HOL-Library.Char_ord"
    "HOL-Library.List_Lexorder"
    "HOL-Library.Multiset"
    "HOL-Library.Sublist"
begin

text \<open>
  The part of the Go language and of its standard library that the Peerphonic backend relies
  on, shared by every component theory:

  \<^item> errors as values (\<open>errors.New\<close>, \<open>fmt.Errorf\<close> with \<open>%w\<close>, \<open>errors.Is\<close>, \<open>errors.Join\<close>) and the
    result of a call that may fail;
  \<^item> actions: calls through an interface, which thread the state of the world and may fail;
  \<^item> 64-bit integers with their wrap-around, time values and durations;
  \<^item> strings as byte lists, with UTF-8 decoding and the functions of package \<open>strings\<close>;
  \<^item> \<open>sort.SliceStable\<close>.

  The collection \<open>go_eval\<close> holds the equations with which \<open>simp\<close> evaluates these functions on
  literals, in the witnesses of the component theories.
\<close>

named_theorems go_eval \<open>equations that evaluate the string and integer functions on literals\<close>

section \<open>Errors\<close>

text \<open>
  One constructor for each sentinel error of the program; \<open>Errorf m\<close> is an error made from the
  format string \<open>m\<close> that wraps nothing, \<open>Wrap m e\<close> one whose format ends in \<open>%w\<close>; \<open>ErrIO\<close> is
  whatever a database driver, the operating system or a peer reports. Message arguments are
  not kept: no branch of the program looks at them.
\<close>

datatype go_error =
    ErrNotFound | ErrSourceUnavailable | ErrSourceBusy
  | ErrAuthenticationFailed | ErrAlreadyExists | ErrForbidden | ErrLastAdministrator
  | ErrInvalidUser | ErrInvalidPlaylist | ErrInvalidPlayQueue | ErrInvalidAnnotation
  | ErrInvalidSettings | ErrCacheCapacity
  | ErrDiscoveryResultNotFound | ErrCollectionBrowsingUnsupported | ErrScanInProgress
  | ErrCanceled | ErrEOF
  | ErrIO string
  | Errorf string
  | Wrap string go_error
  | Join "go_error list"

fun errors_Is :: "go_error \<Rightarrow> go_error \<Rightarrow> bool" where
  "errors_Is (Wrap m e) target = (Wrap m e = target \<or> errors_Is e target)"
| "errors_Is (Join es) target = (Join es = target \<or> list_ex (\<lambda>e. errors_Is e target) es)"
| "errors_Is e target = (e = target)"

lemma errors_Is_refl [simp]: "errors_Is e e"
  by (cases e) auto

type_synonym 'a result = "go_error + 'a"

text \<open>A call that reads and changes the world \<open>'s\<close> and may fail: the world after a failed call
  is kept, since the program goes on after it.\<close>

type_synonym ('s, 'a) action = "'s \<Rightarrow> 'a result \<times> 's"

definition is_ok :: "'a result \<Rightarrow> bool" where
  "is_ok r = (case r of Inl _ \<Rightarrow> False | Inr _ \<Rightarrow> True)"

lemma is_ok_simps [simp]: "\<not> is_ok (Inl e)" "is_ok (Inr x)"
  by (simp_all add: is_ok_def)

subsection \<open>Sequencing\<close>

text \<open>
  \<open>bindE m k\<close> is \<open>x, err := m(); if err != nil { return err }; k(x)\<close>; \<open>wrapE msg m\<close> returns
  \<open>fmt.Errorf("msg: %w", err)\<close> instead of the error of \<open>m\<close>; \<open>tryE m k\<close> hands the result of \<open>m\<close>,
  error or not, to \<open>k\<close>; \<open>readE\<close> reads a clock.
\<close>

definition ret :: "'a \<Rightarrow> ('s, 'a) action" where
  "ret x s = (Inr x, s)"

definition fail :: "go_error \<Rightarrow> ('s, 'a) action" where
  "fail e s = (Inl e, s)"

definition liftR :: "'a result \<Rightarrow> ('s, 'a) action" where
  "liftR r s = (r, s)"

definition bindE :: "('s, 'a) action \<Rightarrow> ('a \<Rightarrow> ('s, 'b) action) \<Rightarrow> ('s, 'b) action" where
  "bindE m k s = (case m s of (Inl e, s') \<Rightarrow> (Inl e, s') | (Inr x, s') \<Rightarrow> k x s')"

definition wrapE :: "string \<Rightarrow> ('s, 'a) action \<Rightarrow> ('s, 'a) action" where
  "wrapE msg m s = (case m s of (Inl e, s') \<Rightarrow> (Inl (Wrap msg e), s') | (Inr x, s') \<Rightarrow> (Inr x, s'))"

definition tryE :: "('s, 'a) action \<Rightarrow> ('a result \<Rightarrow> ('s, 'b) action) \<Rightarrow> ('s, 'b) action" where
  "tryE m k s = (case m s of (r, s') \<Rightarrow> k r s')"

definition readE :: "('s \<Rightarrow> 'x \<times> 's) \<Rightarrow> ('x \<Rightarrow> ('s, 'b) action) \<Rightarrow> ('s, 'b) action" where
  "readE now k s = (case now s of (t, s') \<Rightarrow> k t s')"

definition modify :: "('s \<Rightarrow> 's) \<Rightarrow> ('s, unit) action" where
  "modify f s = (Inr (), f s)"

definition with_state :: "('s \<Rightarrow> ('s, 'a) action) \<Rightarrow> ('s, 'a) action" where
  "with_state f s = f s s"

lemmas action_defs = ret_def fail_def liftR_def bindE_def wrapE_def tryE_def readE_def

text \<open>Inversion of a successful run.\<close>

lemma ret_Inr_iff [simp]: "ret x s = (Inr y, s') \<longleftrightarrow> y = x \<and> s' = s"
  by (auto simp: ret_def)

lemma ret_Inl_iff [simp]: "ret x s \<noteq> (Inl e, s')"
  by (simp add: ret_def)

lemma fail_Inr_iff [simp]: "fail e s \<noteq> (Inr y, s')"
  by (simp add: fail_def)

lemma fail_Inl_iff [simp]: "fail e s = (Inl e', s') \<longleftrightarrow> e' = e \<and> s' = s"
  by (auto simp: fail_def)

lemma liftR_iff [simp]: "liftR r s = (r', s') \<longleftrightarrow> r = r' \<and> s' = s"
  by (auto simp: liftR_def)

lemma bindE_Inr_iff [simp]:
  "bindE m k s = (Inr y, s') \<longleftrightarrow> (\<exists>x s1. m s = (Inr x, s1) \<and> k x s1 = (Inr y, s'))"
  by (auto simp: bindE_def split: prod.splits sum.splits)

lemma bindE_Inl_iff:
  "bindE m k s = (Inl e, s') \<longleftrightarrow> m s = (Inl e, s') \<or> (\<exists>x s1. m s = (Inr x, s1) \<and> k x s1 = (Inl e, s'))"
  by (auto simp: bindE_def split: prod.splits sum.splits)

lemma wrapE_Inr_iff [simp]: "wrapE msg m s = (Inr y, s') \<longleftrightarrow> m s = (Inr y, s')"
  by (auto simp: wrapE_def split: prod.splits sum.splits)

lemma wrapE_Inl_iff: "wrapE msg m s = (Inl e, s') \<longleftrightarrow> (\<exists>e'. m s = (Inl e', s') \<and> e = Wrap msg e')"
  by (auto simp: wrapE_def split: prod.splits sum.splits)

text \<open>An action keeps a property of the world, whatever its result.\<close>

definition preserves :: "('s \<Rightarrow> bool) \<Rightarrow> ('s, 'a) action \<Rightarrow> bool" where
  "preserves P m = (\<forall>s. P s \<longrightarrow> P (snd (m s)))"

lemma preservesI: "(\<And>s r s'. P s \<Longrightarrow> m s = (r, s') \<Longrightarrow> P s') \<Longrightarrow> preserves P m"
  by (simp add: preserves_def prod_eq_iff)

lemma preservesD: "preserves P m \<Longrightarrow> P s \<Longrightarrow> m s = (r, s') \<Longrightarrow> P s'"
  by (metis preserves_def snd_conv)

named_theorems preserving \<open>introduction rules for preserves\<close>

lemma preserves_ret [preserving]: "preserves P (ret x)"
  by (simp add: preserves_def ret_def)

lemma preserves_fail [preserving]: "preserves P (fail e)"
  by (simp add: preserves_def fail_def)

lemma preserves_liftR [preserving]: "preserves P (liftR r)"
  by (simp add: preserves_def liftR_def)

lemma preserves_bindE [preserving]:
  "preserves P m \<Longrightarrow> (\<And>x. preserves P (k x)) \<Longrightarrow> preserves P (bindE m k)"
  by (fastforce simp: preserves_def bindE_def split: prod.splits sum.splits)

lemma preserves_wrapE [preserving]: "preserves P m \<Longrightarrow> preserves P (wrapE msg m)"
  by (fastforce simp: preserves_def wrapE_def split: prod.splits sum.splits)

lemma preserves_tryE [preserving]:
  "preserves P m \<Longrightarrow> (\<And>r. preserves P (k r)) \<Longrightarrow> preserves P (tryE m k)"
  by (fastforce simp: preserves_def tryE_def split: prod.splits)

lemma preserves_if [preserving]:
  "(c \<Longrightarrow> preserves P m) \<Longrightarrow> (\<not> c \<Longrightarrow> preserves P m') \<Longrightarrow> preserves P (if c then m else m')"
  by simp

lemma preserves_with_state [preserving]: "(\<And>s0. P s0 \<Longrightarrow> preserves P (f s0)) \<Longrightarrow> preserves P (with_state f)"
  by (simp add: preserves_def with_state_def)

lemma preserves_modify: "(\<And>s. P s \<Longrightarrow> P (f s)) \<Longrightarrow> preserves P (modify f)"
  by (simp add: preserves_def modify_def)

lemma preserves_readE [preserving]:
  "(\<And>s. P s \<Longrightarrow> P (snd (now s))) \<Longrightarrow> (\<And>t. preserves P (k t)) \<Longrightarrow> preserves P (readE now k)"
  by (fastforce simp: preserves_def readE_def split: prod.splits)

lemma preserves_case_prod [preserving]:
  "(\<And>a b. preserves P (k a b)) \<Longrightarrow> preserves P (case x of (a, b) \<Rightarrow> k a b)"
  by (cases x) simp

lemma preserves_case_option [preserving]:
  "preserves P m \<Longrightarrow> (\<And>a. preserves P (k a)) \<Longrightarrow> preserves P (case x of None \<Rightarrow> m | Some a \<Rightarrow> k a)"
  by (cases x) simp_all

lemma preserves_case_sum [preserving]:
  "(\<And>a. preserves P (m a)) \<Longrightarrow> (\<And>a. preserves P (k a)) \<Longrightarrow>
    preserves P (case x of Inl a \<Rightarrow> m a | Inr a \<Rightarrow> k a)"
  by (cases x) simp_all

lemma preserves_Let [preserving]: "preserves P (k v) \<Longrightarrow> preserves P (let x = v in k x)"
  by simp

text \<open>An action keeps a property of the world whenever it fails.\<close>

definition preservesE :: "('s \<Rightarrow> bool) \<Rightarrow> ('s, 'a) action \<Rightarrow> bool" where
  "preservesE P m = (\<forall>s e s'. P s \<longrightarrow> m s = (Inl e, s') \<longrightarrow> P s')"

lemma preservesEI: "(\<And>s e s'. P s \<Longrightarrow> m s = (Inl e, s') \<Longrightarrow> P s') \<Longrightarrow> preservesE P m"
  by (simp add: preservesE_def)

lemma preservesED: "preservesE P m \<Longrightarrow> P s \<Longrightarrow> m s = (Inl e, s') \<Longrightarrow> P s'"
  by (auto simp: preservesE_def)

named_theorems preservingE \<open>introduction rules for preservesE\<close>

lemma preservesE_bindE [preservingE]:
  "preserves P m \<Longrightarrow> (\<And>x. preservesE P (k x)) \<Longrightarrow> preservesE P (bindE m k)"
  by (fastforce simp: preserves_def preservesE_def bindE_Inl_iff)

lemma preservesE_readE [preservingE]:
  "(\<And>s. P s \<Longrightarrow> P (snd (now s))) \<Longrightarrow> (\<And>t. preservesE P (k t)) \<Longrightarrow> preservesE P (readE now k)"
  by (fastforce simp: preservesE_def readE_def split: prod.splits)

lemma preservesE_ret [preservingE]: "preservesE P (ret x)"
  by (simp add: preservesE_def)

lemma preservesE_fail [preservingE]: "preservesE P (fail e)"
  by (simp add: preservesE_def)

lemma preservesE_wrapE [preservingE]: "preservesE P m \<Longrightarrow> preservesE P (wrapE msg m)"
  by (fastforce simp: preservesE_def wrapE_Inl_iff)

lemma preservesE_if [preservingE]:
  "(c \<Longrightarrow> preservesE P m) \<Longrightarrow> (\<not> c \<Longrightarrow> preservesE P m') \<Longrightarrow> preservesE P (if c then m else m')"
  by simp

lemma preservesE_case_prod [preservingE]:
  "(\<And>a b. preservesE P (k a b)) \<Longrightarrow> preservesE P (case x of (a, b) \<Rightarrow> k a b)"
  by (cases x) simp

lemma preservesE_case_option [preservingE]:
  "preservesE P m \<Longrightarrow> (\<And>a. preservesE P (k a)) \<Longrightarrow> preservesE P (case x of None \<Rightarrow> m | Some a \<Rightarrow> k a)"
  by (cases x) simp_all

lemma preservesE_Let [preservingE]: "preservesE P (k v) \<Longrightarrow> preservesE P (let x = v in k x)"
  by simp

text \<open>Inversion of the remaining forms.\<close>

lemma readE_iff [simp]: "readE now k s = (r, s') \<longleftrightarrow> k (fst (now s)) (snd (now s)) = (r, s')"
  by (auto simp: readE_def split: prod.splits)

lemma if_action_iff [simp]:
  "(if c then m else m') s = (r, s') \<longleftrightarrow> (c \<and> m s = (r, s') \<or> \<not> c \<and> m' s = (r, s'))"
  by simp

lemma case_prod_action_iff:
  "(case x of (a, b) \<Rightarrow> k a b) s = (r, s') \<longleftrightarrow> (\<exists>a b. x = (a, b) \<and> k a b s = (r, s'))"
  by (cases x) auto

lemma case_option_action_iff:
  "(case x of None \<Rightarrow> m | Some a \<Rightarrow> k a) s = (r, s') \<longleftrightarrow>
    (x = None \<and> m s = (r, s') \<or> (\<exists>a. x = Some a \<and> k a s = (r, s')))"
  by (cases x) auto

text \<open>Where only a value is returned after the last call, that call decides.\<close>

lemma preservesE_last:
  "preservesE P m \<Longrightarrow> preservesE P (bindE m (\<lambda>x. ret (f x)))"
  "preservesE P m \<Longrightarrow> preservesE P (bindE m (\<lambda>x. readE now (\<lambda>t. ret (g x t))))"
  by (auto simp: preservesE_def bindE_Inl_iff)

lemmas action_inversion = case_prod_action_iff case_option_action_iff

subsection \<open>Postconditions\<close>

text \<open>
  \<open>wp m Q s\<close>: the run of \<open>m\<close> from \<open>s\<close>, failed or not, ends in a result and a world that satisfy
  \<open>Q\<close>. The equations compute the postcondition of a composed call; \<open>wp_bindI\<close> and \<open>wp_tryI\<close> use a known
  postcondition of its first part.
\<close>

definition wp :: "('s, 'a) action \<Rightarrow> ('a result \<Rightarrow> 's \<Rightarrow> bool) \<Rightarrow> 's \<Rightarrow> bool" where
  "wp m Q s = (case m s of (r, s') \<Rightarrow> Q r s')"

named_theorems wp_simps \<open>equations for postconditions\<close>

lemma wpD: "wp m Q s \<Longrightarrow> m s = (r, s') \<Longrightarrow> Q r s'"
  by (simp add: wp_def)

lemma wpI: "(\<And>r s'. m s = (r, s') \<Longrightarrow> Q r s') \<Longrightarrow> wp m Q s"
  by (simp add: wp_def split: prod.split)

lemma wp_mono: "wp m R s \<Longrightarrow> (\<And>r s'. R r s' \<Longrightarrow> Q r s') \<Longrightarrow> wp m Q s"
  by (auto simp: wp_def split: prod.splits)

lemma wp_ret [wp_simps]: "wp (ret x) Q s = Q (Inr x) s"
  by (simp add: wp_def ret_def)

lemma wp_fail [wp_simps]: "wp (fail e) Q s = Q (Inl e) s"
  by (simp add: wp_def fail_def)

lemma wp_liftR [wp_simps]: "wp (liftR r) Q s = Q r s"
  by (simp add: wp_def liftR_def)

lemma wp_bindE [wp_simps]:
  "wp (bindE m k) Q s = wp m (\<lambda>r s'. case r of Inl e \<Rightarrow> Q (Inl e) s' | Inr x \<Rightarrow> wp (k x) Q s') s"
  by (simp add: wp_def bindE_def split: prod.split sum.split)

lemma wp_wrapE [wp_simps]:
  "wp (wrapE msg m) Q s = wp m (\<lambda>r s'. case r of Inl e \<Rightarrow> Q (Inl (Wrap msg e)) s' | Inr x \<Rightarrow> Q (Inr x) s') s"
  by (simp add: wp_def wrapE_def split: prod.split sum.split)

lemma wp_tryE [wp_simps]: "wp (tryE m k) Q s = wp m (\<lambda>r s'. wp (k r) Q s') s"
  by (simp add: wp_def tryE_def split: prod.split)

lemma wp_readE [wp_simps]: "wp (readE now k) Q s = wp (k (fst (now s))) Q (snd (now s))"
  by (simp add: wp_def readE_def split: prod.split)

lemma wp_modify [wp_simps]: "wp (modify f) Q s = Q (Inr ()) (f s)"
  by (simp add: wp_def modify_def)

lemma wp_with_state [wp_simps]: "wp (with_state f) Q s = wp (f s) Q s"
  by (simp add: wp_def with_state_def)

lemma wp_if [wp_simps]: "wp (if c then m else m') Q s = (if c then wp m Q s else wp m' Q s)"
  by simp

lemma wp_case_option [wp_simps]:
  "wp (case x of None \<Rightarrow> m | Some y \<Rightarrow> k y) Q s = (case x of None \<Rightarrow> wp m Q s | Some y \<Rightarrow> wp (k y) Q s)"
  by (cases x) simp_all

lemma wp_case_sum [wp_simps]:
  "wp (case x of Inl y \<Rightarrow> m y | Inr y \<Rightarrow> k y) Q s = (case x of Inl y \<Rightarrow> wp (m y) Q s | Inr y \<Rightarrow> wp (k y) Q s)"
  by (cases x) simp_all

lemma wp_case_prod [wp_simps]: "wp (case x of (a, b) \<Rightarrow> k a b) Q s = (case x of (a, b) \<Rightarrow> wp (k a b) Q s)"
  by (cases x) simp

lemma wp_Let [wp_simps]: "wp (let x = v in k x) Q s = (let x = v in wp (k x) Q s)"
  by simp

lemma wp_pair [wp_simps]: "wp (\<lambda>s. (f s, g s)) Q s = Q (f s) (g s)"
  by (simp add: wp_def)

lemma wp_if_fun [wp_simps]: "wp (\<lambda>s. if c s then f s else g s) Q s = (if c s then wp f Q s else wp g Q s)"
  by (simp add: wp_def)

lemma wp_bindI:
  "wp m R s \<Longrightarrow> (\<And>e s'. R (Inl e) s' \<Longrightarrow> Q (Inl e) s') \<Longrightarrow> (\<And>x s'. R (Inr x) s' \<Longrightarrow> wp (k x) Q s') \<Longrightarrow>
    wp (bindE m k) Q s"
  by (auto simp: wp_simps split: sum.split intro: wp_mono)

lemma wp_wrapI:
  "wp m R s \<Longrightarrow> (\<And>e s'. R (Inl e) s' \<Longrightarrow> Q (Inl (Wrap msg e)) s') \<Longrightarrow> (\<And>x s'. R (Inr x) s' \<Longrightarrow> Q (Inr x) s') \<Longrightarrow>
    wp (wrapE msg m) Q s"
  by (auto simp: wp_simps split: sum.split intro: wp_mono)

lemma wp_bind_wrapI:
  "wp m R s \<Longrightarrow> (\<And>e s'. R (Inl e) s' \<Longrightarrow> Q (Inl (Wrap msg e)) s') \<Longrightarrow> (\<And>x s'. R (Inr x) s' \<Longrightarrow> wp (k x) Q s') \<Longrightarrow>
    wp (bindE (wrapE msg m) k) Q s"
  by (auto simp: wp_bindE wp_wrapE split: sum.split intro: wp_mono)

lemma wp_tryI: "wp m R s \<Longrightarrow> (\<And>r s'. R r s' \<Longrightarrow> wp (k r) Q s') \<Longrightarrow> wp (tryE m k) Q s"
  by (auto simp: wp_simps intro: wp_mono)

lemma wp_readI: "(\<And>t s'. now s = (t, s') \<Longrightarrow> wp (k t) Q s') \<Longrightarrow> wp (readE now k) Q s"
  by (simp add: wp_simps)

section \<open>64-bit integers\<close>

text \<open>Go's \<open>int64\<close> (and \<open>int\<close> on the platforms the program is built for) wraps around.\<close>

definition i64 :: "int \<Rightarrow> int" where
  "i64 x = (x + 2 ^ 63) mod 2 ^ 64 - 2 ^ 63"

definition in_i64 :: "int \<Rightarrow> bool" where
  "in_i64 x = (- (2 ^ 63) \<le> x \<and> x < 2 ^ 63)"

lemma i64_id: "in_i64 x \<Longrightarrow> i64 x = x"
  by (simp add: i64_def in_i64_def)

lemma i64_in_range [simp]: "in_i64 (i64 x)"
proof -
  have "0 \<le> (x + 2 ^ 63) mod 2 ^ 64" "(x + 2 ^ 63) mod 2 ^ 64 < 2 ^ 64"
    by simp_all
  then show ?thesis by (simp add: i64_def in_i64_def)
qed

lemma i64_idem [simp]: "i64 (i64 x) = i64 x"
  by (rule i64_id) (rule i64_in_range)

lemma i64_mod_cong: "x mod 2 ^ 64 = y mod 2 ^ 64 \<Longrightarrow> i64 x = i64 y"
  unfolding i64_def by (metis mod_add_left_eq)

lemma i64_mod: "i64 x mod 2 ^ 64 = x mod 2 ^ 64"
  unfolding i64_def by (simp add: mod_diff_left_eq)

lemma i64_add_left: "i64 (i64 x + y) = i64 (x + y)"
proof (rule i64_mod_cong)
  have "(i64 x + y) mod 2 ^ 64 = (i64 x mod 2 ^ 64 + y) mod 2 ^ 64"
    by (simp add: mod_add_left_eq)
  also have "\<dots> = (x + y) mod 2 ^ 64"
    by (simp only: i64_mod mod_add_left_eq)
  finally show "(i64 x + y) mod 2 ^ 64 = (x + y) mod 2 ^ 64" .
qed

text \<open>A sum accumulated with \<open>+=\<close> over a slice is the wrapped sum of its elements.\<close>

lemma foldl_i64_sum:
  "foldl (\<lambda>a x. i64 (a + f x)) (i64 b) xs = i64 (b + sum_list (map f xs))"
proof (induction xs arbitrary: b)
  case Nil
  then show ?case by simp
next
  case (Cons x xs)
  have "foldl (\<lambda>a x. i64 (a + f x)) (i64 b) (x # xs)
      = foldl (\<lambda>a x. i64 (a + f x)) (i64 (b + f x)) xs"
    by (simp add: i64_add_left)
  also have "\<dots> = i64 (b + f x + sum_list (map f xs))"
    by (rule Cons.IH)
  finally show ?case by (simp add: add.assoc)
qed

lemma i64_0 [simp]: "i64 0 = 0"
  by (simp add: i64_def)

section \<open>Time\<close>

text \<open>
  A \<open>time.Time\<close> in UTC is its distance in nanoseconds from the zero \<open>Time\<close> (January 1, year 1);
  a \<open>time.Duration\<close> is an \<open>int64\<close> count of nanoseconds. \<open>Sub\<close> saturates, as in Go.
\<close>

type_synonym time = int
type_synonym duration = int

abbreviation time_zero :: time where "time_zero \<equiv> 0"

definition IsZero :: "time \<Rightarrow> bool" where
  "IsZero t = (t = 0)"

definition second :: duration where "second = 1000000000"
definition millisecond :: duration where "millisecond = 1000000"
definition minute :: duration where "minute = 60000000000"

definition unix_epoch :: time where
  "unix_epoch = 62135596800 * 1000000000"

definition time_Sub :: "time \<Rightarrow> time \<Rightarrow> duration" where
  "time_Sub t u = max (- (2 ^ 63)) (min (2 ^ 63 - 1) (t - u))"

lemma time_Sub_pos [simp]: "0 < time_Sub t u \<longleftrightarrow> u < t"
  by (auto simp: time_Sub_def)

lemma time_Sub_nonpos [simp]: "time_Sub t u \<le> 0 \<longleftrightarrow> t \<le> u"
  using time_Sub_pos [of t u] by (simp only: not_less [symmetric])

lemma time_Sub_le: "0 \<le> d \<Longrightarrow> d < 2 ^ 63 - 1 \<Longrightarrow> time_Sub t u \<le> d \<longleftrightarrow> t - u \<le> d"
  by (auto simp: time_Sub_def)

lemma time_Sub_ge: "0 \<le> d \<Longrightarrow> d \<le> 2 ^ 63 - 1 \<Longrightarrow> d \<le> time_Sub t u \<longleftrightarrow> d \<le> t - u"
  by (auto simp: time_Sub_def)

section \<open>Strings\<close>

text \<open>
  A Go string is a sequence of bytes; \<open>char\<close> is a byte. Iterating over a string decodes UTF-8,
  an invalid byte giving the rune \<open>U+FFFD\<close> of width 1.
\<close>

definition byte :: "char \<Rightarrow> nat" where
  "byte c = of_char c"

definition runeError :: nat where
  "runeError = 65533"

definition cont_byte :: "nat \<Rightarrow> bool" where
  "cont_byte b = (128 \<le> b \<and> b \<le> 191)"

text \<open>\<open>utf8.DecodeRuneInString\<close>: the first rune and its width.\<close>

fun DecodeRune :: "string \<Rightarrow> nat \<times> nat" where
  "DecodeRune [] = (runeError, 0)"
| "DecodeRune (c0 # cs) =
    (let b0 = byte c0 in
     if b0 < 128 then (b0, 1)
     else case map byte (take 3 cs) of
       b1 # bs \<Rightarrow>
         if 194 \<le> b0 \<and> b0 \<le> 223 then
           (if cont_byte b1 then ((b0 - 192) * 64 + (b1 - 128), 2) else (runeError, 1))
         else if 224 \<le> b0 \<and> b0 \<le> 239 then
           (case bs of
              b2 # _ \<Rightarrow>
                if (if b0 = 224 then 160 else 128) \<le> b1 \<and> b1 \<le> (if b0 = 237 then 159 else 191)
                   \<and> cont_byte b2
                then (((b0 - 224) * 64 + (b1 - 128)) * 64 + (b2 - 128), 3)
                else (runeError, 1)
            | [] \<Rightarrow> (runeError, 1))
         else if 240 \<le> b0 \<and> b0 \<le> 244 then
           (case bs of
              b2 # b3 # _ \<Rightarrow>
                if (if b0 = 240 then 144 else 128) \<le> b1 \<and> b1 \<le> (if b0 = 244 then 143 else 191)
                   \<and> cont_byte b2 \<and> cont_byte b3
                then ((((b0 - 240) * 64 + (b1 - 128)) * 64 + (b2 - 128)) * 64 + (b3 - 128), 4)
                else (runeError, 1)
            | _ \<Rightarrow> (runeError, 1))
         else (runeError, 1)
     | [] \<Rightarrow> (runeError, 1))"

text \<open>The runes of a string in order, each with the bytes it was decoded from.\<close>

fun decode_runes :: "string \<Rightarrow> (nat \<times> string) list" where
  "decode_runes [] = []"
| "decode_runes (c # cs) =
    (let (r, w) = DecodeRune (c # cs)
     in (r, c # take (w - 1) cs) # decode_runes (drop (w - 1) cs))"

definition runes_of :: "string \<Rightarrow> nat list" where
  "runes_of s = map fst (decode_runes s)"

lemma decode_runes_concat [simp]: "concat (map snd (decode_runes s)) = s"
  by (induction s rule: decode_runes.induct) (auto simp: Let_def split: prod.splits)

text \<open>\<open>utf8.AppendRune\<close>: the bytes of a rune, those of \<open>U+FFFD\<close> for an invalid one.\<close>

definition EncodeRune :: "nat \<Rightarrow> string" where
  "EncodeRune r =
    (if r < 128 then [char_of r]
     else if r < 2048 then [char_of (192 + r div 64), char_of (128 + r mod 64)]
     else if 55296 \<le> r \<and> r \<le> 57343 \<or> 1114111 < r
       then [char_of (239::nat), char_of (191::nat), char_of (189::nat)]
     else if r < 65536 then
       [char_of (224 + r div 4096), char_of (128 + r div 64 mod 64), char_of (128 + r mod 64)]
     else [char_of (240 + r div 262144), char_of (128 + r div 4096 mod 64),
           char_of (128 + r div 64 mod 64), char_of (128 + r mod 64)])"

text \<open>\<open>unicode.IsSpace\<close> (the whole White Space table is this small).\<close>

definition IsSpace :: "nat \<Rightarrow> bool" where
  "IsSpace r = (r \<in> {9, 10, 11, 12, 13, 32, 133, 160, 5760, 8232, 8233, 8239, 8287, 12288}
     \<or> 8192 \<le> r \<and> r \<le> 8202)"

text \<open>
  The remaining Unicode tables are data of the Go distribution: they are a parameter of the
  definitions that consult them. \<open>ascii_tables\<close> is their restriction to ASCII.
\<close>

record unicode_tables =
  IsLetter :: "nat \<Rightarrow> bool"
  IsDigit :: "nat \<Rightarrow> bool"
  IsNumber :: "nat \<Rightarrow> bool"
  rune_ToLower :: "nat \<Rightarrow> nat"
  rune_Fold :: "nat \<Rightarrow> nat"

definition ascii_tables :: unicode_tables where
  "ascii_tables = \<lparr>
     IsLetter = (\<lambda>r. 65 \<le> r \<and> r \<le> 90 \<or> 97 \<le> r \<and> r \<le> 122),
     IsDigit = (\<lambda>r. 48 \<le> r \<and> r \<le> 57),
     IsNumber = (\<lambda>r. 48 \<le> r \<and> r \<le> 57),
     rune_ToLower = (\<lambda>r. if 65 \<le> r \<and> r \<le> 90 then r + 32 else r),
     rune_Fold = (\<lambda>r. if 65 \<le> r \<and> r \<le> 90 then r + 32 else r)\<rparr>"

subsection \<open>Package strings\<close>

definition TrimSpace :: "string \<Rightarrow> string" where
  "TrimSpace s =
    (let keep = dropWhile (\<lambda>p. IsSpace (fst p));
         left = keep (decode_runes s)
     in concat (map snd (rev (keep (rev left)))))"

definition ToLower :: "unicode_tables \<Rightarrow> string \<Rightarrow> string" where
  "ToLower uc s = concat (map (\<lambda>r. EncodeRune (rune_ToLower uc r)) (runes_of s))"

text \<open>\<open>EqualFold\<close> compares rune by rune under simple case folding; \<open>rune_Fold\<close> picks one member of
  each folding orbit.\<close>

definition EqualFold :: "unicode_tables \<Rightarrow> string \<Rightarrow> string \<Rightarrow> bool" where
  "EqualFold uc s t = (map (rune_Fold uc) (runes_of s) = map (rune_Fold uc) (runes_of t))"

definition HasPrefix :: "string \<Rightarrow> string \<Rightarrow> bool" where
  "HasPrefix s p = (take (length p) s = p)"

definition HasSuffix :: "string \<Rightarrow> string \<Rightarrow> bool" where
  "HasSuffix s p = HasPrefix (rev s) (rev p)"

definition ContainsAny :: "string \<Rightarrow> string \<Rightarrow> bool" where
  "ContainsAny s cs = list_ex (\<lambda>c. c \<in> set cs) s"

definition TrimSuffix :: "string \<Rightarrow> string \<Rightarrow> string" where
  "TrimSuffix s p = (if HasSuffix s p then take (length s - length p) s else s)"

definition TrimPrefix :: "string \<Rightarrow> string \<Rightarrow> string" where
  "TrimPrefix s p = (if HasPrefix s p then drop (length p) s else s)"

text \<open>\<open>strings.Cut\<close> at a one-byte separator.\<close>

definition Cut :: "string \<Rightarrow> char \<Rightarrow> string \<times> string \<times> bool" where
  "Cut s c = (if c \<in> set s
     then (takeWhile (\<lambda>x. x \<noteq> c) s, tl (dropWhile (\<lambda>x. x \<noteq> c) s), True)
     else (s, [], False))"

fun strings_Join :: "string list \<Rightarrow> string \<Rightarrow> string" where
  "strings_Join [] sep = []"
| "strings_Join [x] sep = x"
| "strings_Join (x # y # zs) sep = x @ sep @ strings_Join (y # zs) sep"

text \<open>\<open>strings.FieldsFunc\<close>: the maximal runs of runes that are not separators.\<close>

fun fields_go :: "(nat \<Rightarrow> bool) \<Rightarrow> string \<Rightarrow> (nat \<times> string) list \<Rightarrow> string list" where
  "fields_go sep cur [] = (if cur = [] then [] else [cur])"
| "fields_go sep cur ((r, bs) # ps) =
    (if sep r then (if cur = [] then [] else [cur]) @ fields_go sep [] ps
     else fields_go sep (cur @ bs) ps)"

definition FieldsFunc :: "string \<Rightarrow> (nat \<Rightarrow> bool) \<Rightarrow> string list" where
  "FieldsFunc s sep = fields_go sep [] (decode_runes s)"

definition Fields :: "string \<Rightarrow> string list" where
  "Fields s = FieldsFunc s IsSpace"

lemma HasPrefix_iff: "HasPrefix s p \<longleftrightarrow> prefix p s"
  unfolding HasPrefix_def by (metis append_eq_conv_conj prefixE prefixI append_take_drop_id)

lemma HasPrefix_append [simp]: "HasPrefix (p @ s) p"
  by (simp add: HasPrefix_def)

subsection \<open>Trimming\<close>

lemma decode_runes_nonempty: "p \<in> set (decode_runes s) \<Longrightarrow> snd p \<noteq> []"
  by (induction s rule: decode_runes.induct) (auto simp: Let_def split: prod.splits)

lemma decode_runes_Nil_iff [simp]: "decode_runes s = [] \<longleftrightarrow> s = []"
  by (cases s) (auto simp: Let_def split: prod.splits)

text \<open>A string trims to the empty string exactly when all its runes are spaces.\<close>

lemma concat_snd_Nil_iff:
  "set ps \<subseteq> set (decode_runes s) \<Longrightarrow> concat (map snd ps) = [] \<longleftrightarrow> ps = []"
  by (cases ps) (auto dest!: decode_runes_nonempty)

lemma dropWhile_rev_dropWhile_Nil_iff:
  "dropWhile P (rev (dropWhile P xs)) = [] \<longleftrightarrow> (\<forall>x \<in> set xs. P x)"
proof -
  have "(\<forall>x \<in> set (dropWhile P xs). P x) \<longleftrightarrow> (\<forall>x \<in> set xs. P x)"
    by (induction xs) auto
  then show ?thesis by simp
qed

lemma TrimSpace_Nil_iff: "TrimSpace s = [] \<longleftrightarrow> (\<forall>r \<in> set (runes_of s). IsSpace r)"
proof -
  let ?k = "dropWhile (\<lambda>p. IsSpace (fst p)) :: (nat \<times> string) list \<Rightarrow> _"
  have sub: "set (rev (?k (rev (?k (decode_runes s))))) \<subseteq> set (decode_runes s)"
    by (auto dest!: set_dropWhileD)
  have "TrimSpace s = [] \<longleftrightarrow> ?k (rev (?k (decode_runes s))) = []"
    unfolding TrimSpace_def Let_def concat_snd_Nil_iff [OF sub] by simp
  also have "\<dots> \<longleftrightarrow> (\<forall>p \<in> set (decode_runes s). IsSpace (fst p))"
    by (rule dropWhile_rev_dropWhile_Nil_iff)
  finally show ?thesis by (simp add: runes_of_def)
qed

lemma TrimSpace_empty [simp]: "TrimSpace [] = []"
  by (simp add: TrimSpace_def)

subsection \<open>Trimming twice\<close>

lemma DecodeRune_width: "0 < snd (DecodeRune (c # cs))"
  by (simp add: Let_def split: list.splits)

text \<open>The three kinds of sequences, by their first byte.\<close>

definition decode2 :: "nat \<Rightarrow> nat list \<Rightarrow> nat \<times> nat" where
  "decode2 b0 bs = (case bs of b1 # _ \<Rightarrow> if cont_byte b1 then ((b0 - 192) * 64 + (b1 - 128), 2) else (runeError, 1)
     | [] \<Rightarrow> (runeError, 1))"

definition decode3 :: "nat \<Rightarrow> nat list \<Rightarrow> nat \<times> nat" where
  "decode3 b0 bs = (case bs of b1 # b2 # _ \<Rightarrow>
       if (if b0 = 224 then 160 else 128) \<le> b1 \<and> b1 \<le> (if b0 = 237 then 159 else 191) \<and> cont_byte b2
       then (((b0 - 224) * 64 + (b1 - 128)) * 64 + (b2 - 128), 3) else (runeError, 1)
     | _ \<Rightarrow> (runeError, 1))"

definition decode4 :: "nat \<Rightarrow> nat list \<Rightarrow> nat \<times> nat" where
  "decode4 b0 bs = (case bs of b1 # b2 # b3 # _ \<Rightarrow>
       if (if b0 = 240 then 144 else 128) \<le> b1 \<and> b1 \<le> (if b0 = 244 then 143 else 191) \<and> cont_byte b2 \<and> cont_byte b3
       then ((((b0 - 240) * 64 + (b1 - 128)) * 64 + (b2 - 128)) * 64 + (b3 - 128), 4) else (runeError, 1)
     | _ \<Rightarrow> (runeError, 1))"

lemma DecodeRune_eq:
  "DecodeRune (c # cs) =
    (let b0 = byte c; bs = map byte (take 3 cs) in
     if b0 < 128 then (b0, 1) else if 194 \<le> b0 \<and> b0 \<le> 223 then decode2 b0 bs
     else if 224 \<le> b0 \<and> b0 \<le> 239 then decode3 b0 bs
     else if 240 \<le> b0 \<and> b0 \<le> 244 then decode4 b0 bs else (runeError, 1))"
proof -
  define xs where "xs = map byte (take 3 cs)"
  show ?thesis
    unfolding DecodeRune.simps Let_def decode2_def decode3_def decode4_def xs_def [symmetric]
    by (cases xs; cases "tl xs"; cases "tl (tl xs)") (simp_all cong: if_cong split del: if_split)
qed

lemma decode_take:
  "decode2 b0 bs = (r, w) \<Longrightarrow> w \<le> Suc n \<Longrightarrow> decode2 b0 (take n bs) = (r, w)"
  "decode3 b0 bs = (r, w) \<Longrightarrow> w \<le> Suc n \<Longrightarrow> decode3 b0 (take n bs) = (r, w)"
  "decode4 b0 bs = (r, w) \<Longrightarrow> w \<le> Suc n \<Longrightarrow> decode4 b0 (take n bs) = (r, w)"
proof -
  show "decode2 b0 bs = (r, w) \<Longrightarrow> w \<le> Suc n \<Longrightarrow> decode2 b0 (take n bs) = (r, w)"
    by (cases bs; cases n) (auto simp: decode2_def split: if_split_asm)
  show "decode3 b0 bs = (r, w) \<Longrightarrow> w \<le> Suc n \<Longrightarrow> decode3 b0 (take n bs) = (r, w)"
    by (cases bs; cases "tl bs"; cases n; cases "n - 1") (simp_all add: decode3_def split: if_split_asm split del: if_split)
  show "decode4 b0 bs = (r, w) \<Longrightarrow> w \<le> Suc n \<Longrightarrow> decode4 b0 (take n bs) = (r, w)"
  proof (cases "3 \<le> n")
    case True
    then obtain m where "n = Suc (Suc (Suc m))" by (metis le_Suc_ex numeral_3_eq_3 add_Suc plus_nat.add_0)
    then show "decode4 b0 bs = (r, w) \<Longrightarrow> decode4 b0 (take n bs) = (r, w)"
      by (cases bs; cases "tl bs"; cases "tl (tl bs)") (simp_all add: decode4_def split del: if_split)
  next
    case False
    define xs where "xs = take n bs"
    have "length xs < 3" using False by (simp add: xs_def)
    then have "decode4 b0 xs = (runeError, 1)"
      by (cases xs; cases "tl xs"; cases "tl (tl xs)") (simp_all add: decode4_def)
    moreover assume "decode4 b0 bs = (r, w)" "w \<le> Suc n"
    then have "(r, w) = (runeError, 1)" using False
      by (cases bs; cases "tl bs"; cases "tl (tl bs)") (simp_all add: decode4_def split: if_split_asm)
    ultimately show "decode4 b0 (take n bs) = (r, w)" by (simp add: xs_def)
  qed
qed

lemma DecodeRune_take:
  assumes "DecodeRune (c # cs) = (r, w)" "w \<le> Suc n"
  shows "DecodeRune (c # take n cs) = (r, w)"
proof -
  have "map byte (take 3 (take n cs)) = take n (map byte (take 3 cs))" by (simp add: take_map min.commute)
  then show ?thesis using assms(1) decode_take [OF _ assms(2)] unfolding DecodeRune_eq Let_def
    by (auto split: if_split_asm)
qed

text \<open>A run of decoded runes, written out, decodes to itself.\<close>

lemma decode_runes_suffix: "decode_runes s = ps @ qs \<Longrightarrow> decode_runes (concat (map snd qs)) = qs"
proof (induction s arbitrary: ps rule: decode_runes.induct)
  case (2 c cs)
  obtain r w where rw: "DecodeRune (c # cs) = (r, w)" by fastforce
  show ?case
  proof (cases ps)
    case Nil
    then have "decode_runes (c # cs) = qs" using "2.prems" by simp
    then show ?thesis by (metis decode_runes_concat)
  next
    case (Cons p ps')
    then have "decode_runes (drop (w - 1) cs) = ps' @ qs" using "2.prems" rw by (simp del: DecodeRune.simps)
    then show ?thesis using "2.IH" [OF rw [symmetric] refl] by blast
  qed
qed simp

lemma decode_runes_prefix: "decode_runes s = ps @ qs \<Longrightarrow> decode_runes (concat (map snd ps)) = ps"
proof (induction s arbitrary: ps rule: decode_runes.induct)
  case (2 c cs)
  obtain r w where rw: "DecodeRune (c # cs) = (r, w)" by fastforce
  show ?case
  proof (cases ps)
    case (Cons p ps')
    have p: "p = (r, c # take (w - 1) cs)" and tl: "decode_runes (drop (w - 1) cs) = ps' @ qs"
      using "2.prems" rw Cons by (simp_all del: DecodeRune.simps)
    let ?rest = "concat (map snd ps')"
    have "drop (w - 1) cs = concat (map snd (ps' @ qs))" using tl by (metis decode_runes_concat)
    then have rest: "?rest = take (length ?rest) (drop (w - 1) cs)" by simp
    let ?n = "w - 1 + length ?rest"
    have bytes: "take (w - 1) cs @ ?rest = take ?n cs" by (subst rest) (simp add: take_add)
    have "w \<le> Suc ?n" by simp
    note dec = DecodeRune_take [OF rw this]
    have "drop (w - 1) (take ?n cs) = ?rest" using rest by (simp add: drop_take)
    moreover have "take (w - 1) (take ?n cs) = take (w - 1) cs" by (simp add: min_def)
    ultimately have "decode_runes (c # take ?n cs) = p # decode_runes ?rest" using dec p by (simp del: DecodeRune.simps)
    also have "decode_runes ?rest = ps'" by (rule "2.IH" [OF rw [symmetric] refl tl])
    finally show ?thesis using Cons p bytes by simp
  qed simp
qed simp

lemma TrimSpace_decode:
  "decode_runes (TrimSpace s) = rev (dropWhile (\<lambda>p. IsSpace (fst p)) (rev (dropWhile (\<lambda>p. IsSpace (fst p)) (decode_runes s))))"
proof -
  let ?keep = "dropWhile (\<lambda>p. IsSpace (fst p)) :: (nat \<times> string) list \<Rightarrow> (nat \<times> string) list"
  let ?l = "?keep (decode_runes s)" and ?m = "rev (?keep (rev (?keep (decode_runes s))))"
  have "decode_runes s = takeWhile (\<lambda>p. IsSpace (fst p)) (decode_runes s) @ ?l" by simp
  then have l: "decode_runes (concat (map snd ?l)) = ?l" by (rule decode_runes_suffix)
  have "rev ?l = takeWhile (\<lambda>p. IsSpace (fst p)) (rev ?l) @ ?keep (rev ?l)" by simp
  then have "?l = ?m @ rev (takeWhile (\<lambda>p. IsSpace (fst p)) (rev ?l))" by (metis rev_append rev_rev_ident)
  with l have "decode_runes (concat (map snd ?l)) = ?m @ rev (takeWhile (\<lambda>p. IsSpace (fst p)) (rev ?l))" by simp
  then have "decode_runes (concat (map snd ?m)) = ?m" by (rule decode_runes_prefix)
  then show ?thesis by (simp add: TrimSpace_def Let_def)
qed

lemma dropWhile_rev_idem:
  "dropWhile P (rev (dropWhile P (rev (dropWhile P xs)))) = rev (dropWhile P (rev (dropWhile P xs)))"
proof (cases "dropWhile P (rev (dropWhile P xs)) = []")
  case False
  have "\<not> P (hd (dropWhile P xs))" using False by (metis dropWhile.simps(1) hd_dropWhile rev.simps(1))
  obtain ys where ys: "dropWhile P xs = rev (dropWhile P (rev (dropWhile P xs))) @ ys"
    by (metis rev_append rev_rev_ident takeWhile_dropWhile_id)
  then have "hd (dropWhile P xs) = hd (rev (dropWhile P (rev (dropWhile P xs))))"
    using False by (metis hd_append2 rev_is_Nil_conv)
  with \<open>\<not> P _\<close> show ?thesis using False by (cases "rev (dropWhile P (rev (dropWhile P xs)))") simp_all
next
  case True
  show ?thesis unfolding True by simp
qed

lemma TrimSpace_idem [simp]: "TrimSpace (TrimSpace s) = TrimSpace s"
proof -
  have "TrimSpace (TrimSpace s) = concat (map snd (decode_runes (TrimSpace s)))"
    unfolding TrimSpace_def [of "TrimSpace s"] Let_def TrimSpace_decode dropWhile_rev_idem by simp
  then show ?thesis by simp
qed

section \<open>Sorting\<close>

text \<open>
  \<open>sort.SliceStable\<close>: elements that the comparison does not separate keep their order. The
  same function stands for \<open>sort.Slice\<close>, whose order of such elements is not specified: what is
  proved about a slice sorted so does not depend on it.
\<close>

fun insert_by :: "('a \<Rightarrow> 'a \<Rightarrow> bool) \<Rightarrow> 'a \<Rightarrow> 'a list \<Rightarrow> 'a list" where
  "insert_by lt x [] = [x]"
| "insert_by lt x (y # ys) = (if lt y x then y # insert_by lt x ys else x # y # ys)"

definition SliceStable :: "('a \<Rightarrow> 'a \<Rightarrow> bool) \<Rightarrow> 'a list \<Rightarrow> 'a list" where
  "SliceStable lt xs = foldr (insert_by lt) xs []"

lemma mset_insert_by [simp]: "mset (insert_by lt x xs) = add_mset x (mset xs)"
  by (induction xs) auto

lemma mset_SliceStable [simp]: "mset (SliceStable lt xs) = mset xs"
  by (induction xs) (auto simp: SliceStable_def)

lemma set_SliceStable [simp]: "set (SliceStable lt xs) = set xs"
  by (metis mset_SliceStable set_mset_mset)

lemma length_SliceStable [simp]: "length (SliceStable lt xs) = length xs"
  by (metis mset_SliceStable size_mset)

lemma distinct_SliceStable [simp]: "distinct (SliceStable lt xs) = distinct xs"
  by (metis mset_SliceStable mset_eq_imp_distinct_iff)

text \<open>The comparison of a \<open>sort\<close> call must be a strict weak order.\<close>

definition weak_order :: "('a \<Rightarrow> 'a \<Rightarrow> bool) \<Rightarrow> bool" where
  "weak_order lt = ((\<forall>x y. lt x y \<longrightarrow> \<not> lt y x)
     \<and> (\<forall>x y z. lt x z \<longrightarrow> lt x y \<or> lt y z))"

lemma weak_orderI:
  assumes "\<And>x y. lt x y \<Longrightarrow> \<not> lt y x" "\<And>x y z. lt x z \<Longrightarrow> lt x y \<or> lt y z"
  shows "weak_order lt"
  using assms by (auto simp: weak_order_def)

lemma sorted_insert_by:
  assumes "weak_order lt" "sorted_wrt (\<lambda>x y. \<not> lt y x) xs"
  shows "sorted_wrt (\<lambda>x y. \<not> lt y x) (insert_by lt a xs)"
  using assms(2)
proof (induction xs)
  case Nil
  then show ?case by simp
next
  case (Cons y ys)
  have s: "set (insert_by lt a ys) = insert a (set ys)"
    by (metis mset_insert_by set_mset_add_mset_insert set_mset_mset)
  show ?case
    using Cons assms(1) by (auto simp: weak_order_def s) blast
qed

lemma sorted_SliceStable:
  "weak_order lt \<Longrightarrow> sorted_wrt (\<lambda>x y. \<not> lt y x) (SliceStable lt xs)"
  unfolding SliceStable_def by (induction xs) (auto intro: sorted_insert_by)

lemma filter_insert_by:
  "(\<And>y. y \<in> set ys \<Longrightarrow> P y \<Longrightarrow> P x \<Longrightarrow> \<not> lt y x) \<Longrightarrow>
   sorted_wrt (\<lambda>x y. \<not> lt y x) ys \<Longrightarrow> weak_order lt \<Longrightarrow>
   filter P (insert_by lt x ys) = (if P x then x # filter P ys else filter P ys)"
  by (induction ys) auto

text \<open>Stability: elements that are pairwise not separated keep their relative order.\<close>

lemma filter_SliceStable:
  assumes "weak_order lt" "\<And>x y. P x \<Longrightarrow> P y \<Longrightarrow> \<not> lt x y"
  shows "filter P (SliceStable lt xs) = filter P xs"
proof (induction xs)
  case Nil
  then show ?case by (simp add: SliceStable_def)
next
  case (Cons x xs)
  have "SliceStable lt (x # xs) = insert_by lt x (SliceStable lt xs)"
    by (simp add: SliceStable_def)
  then show ?case
    using Cons assms by (simp add: filter_insert_by sorted_SliceStable)
qed

section \<open>Association lists and lists\<close>

lemma sum_list_filter_split:
  fixes f :: "'a \<Rightarrow> int"
  shows "sum_list (map f xs) = sum_list (map f (filter P xs)) + sum_list (map f (filter (\<lambda>x. \<not> P x) xs))"
  by (induction xs) auto

lemma sum_list_filter_le:
  fixes f :: "'a \<Rightarrow> int"
  shows "(\<And>x. x \<in> set xs \<Longrightarrow> 0 \<le> f x) \<Longrightarrow> sum_list (map f (filter P xs)) \<le> sum_list (map f xs)"
  by (induction xs) (force simp: add_increasing)+

lemma sum_list_map_nonneg:
  fixes f :: "'a \<Rightarrow> int"
  shows "(\<And>x. x \<in> set xs \<Longrightarrow> 0 \<le> f x) \<Longrightarrow> 0 \<le> sum_list (map f xs)"
  by (induction xs) auto

lemma distinct_second_element:
  assumes "distinct xs" "x \<in> set xs" "length xs \<noteq> 1"
  obtains v where "v \<in> set xs" "v \<noteq> x"
proof -
  from assms(2,3) obtain a b ys where "xs = a # b # ys"
    by (cases xs; cases "tl xs") auto
  with assms(1) that show thesis by (cases "a = x") auto
qed

lemmas go_eval_defs [go_eval] =
  TrimSpace_def byte_def IsSpace_def cont_byte_def runes_of_def ascii_tables_def EncodeRune_def
  FieldsFunc_def Fields_def ToLower_def char_of_eq_iff Let_def HasPrefix_def HasSuffix_def

section \<open>Counting\<close>

text \<open>How many elements of a list, such as the goroutines of a transition system, satisfy a predicate.\<close>

definition tally :: "('a \<Rightarrow> bool) \<Rightarrow> 'a list \<Rightarrow> nat" where
  "tally P xs = length (filter P xs)"

lemma tally_simps [simp]: "tally P [] = 0" "tally P (x # xs) = (if P x then 1 else 0) + tally P xs"
  "tally P (xs @ ys) = tally P xs + tally P ys"
  by (simp_all add: tally_def)

lemma tally_cong: "(\<And>x. x \<in> set xs \<Longrightarrow> P x = Q x) \<Longrightarrow> tally P xs = tally Q xs"
  by (simp add: tally_def cong: filter_cong)

lemma tally_zero: "tally P xs = 0 \<longleftrightarrow> (\<forall>x \<in> set xs. \<not> P x)"
  by (induction xs) auto

lemma tally_pos: "x \<in> set xs \<Longrightarrow> P x \<Longrightarrow> 0 < tally P xs"
  by (induction xs) auto

end
