(* ===== verification/Domain.thy ===== *)
theory Domain
  imports GoPrelude
begin

text \<open>
  The domain model, \<open>src/backend/internal/core/domain\<close>: tracks, albums, playlists, queues,
  annotations, cache entries, download jobs, users and permissions as records, and the
  functions of \<open>music.go\<close> (opaque identifiers and the provider-independent identity of artists,
  albums and tracks) and of \<open>user.go\<close> (roles and permissions).

  The hash function and the Unicode normalisation of \<open>golang.org/x/text\<close> are parameters
  (\<open>text_env\<close>).
\<close>

section \<open>Records\<close>

record SourceRef =
  ref_Provider :: string
  ref_Key :: string

record Track =
  track_ID :: string
  track_Title :: string
  track_Artist :: string
  track_ArtistID :: string
  track_Album :: string
  track_AlbumID :: string
  track_AlbumArtist :: string
  track_AlbumArtistID :: string
  track_TrackNumber :: int
  track_DiscNumber :: int
  track_Year :: int
  track_Genre :: string
  track_Duration :: duration
  track_Size :: int
  track_BitRate :: int
  track_Suffix :: string
  track_ContentType :: string
  track_CoverArtID :: string

record Artist =
  artist_ID :: string
  artist_Name :: string
  artist_AlbumCount :: int

record ArtistAlias =
  aa_AliasID :: string
  aa_AliasName :: string
  aa_TargetID :: string
  aa_TargetName :: string
  aa_CreatedAt :: time

record TrackMetadataPatch =
  patch_Title :: "string option"
  patch_Artist :: "string option"
  patch_Album :: "string option"
  patch_AlbumArtist :: "string option"
  patch_Genre :: "string option"
  patch_Year :: "int option"
  patch_TrackNumber :: "int option"
  patch_DiscNumber :: "int option"

record Album =
  album_ID :: string
  album_Name :: string
  album_Artist :: string
  album_ArtistID :: string
  album_Year :: int
  album_Genre :: string
  album_SongCount :: int
  album_Duration :: duration
  album_CoverArtID :: string

record Playlist =
  pl_ID :: string
  pl_Name :: string
  pl_Comment :: string
  pl_Owner :: string
  pl_Public :: bool
  pl_Created :: time
  pl_Changed :: time
  pl_SongCount :: int
  pl_Duration :: duration
  pl_Tracks :: "Track list"

type_synonym MediaType = string

definition MediaSong :: MediaType where "MediaSong = ''song''"
definition MediaAlbum :: MediaType where "MediaAlbum = ''album''"
definition MediaArtist :: MediaType where "MediaArtist = ''artist''"

record MediaRef =
  media_Type :: MediaType
  media_ID :: string

record MediaAnnotation =
  ann_Owner :: string
  ann_Media :: MediaRef
  ann_StarredAt :: time
  ann_Rating :: int
  ann_PlayCount :: int
  ann_LastPlayed :: time

record StarredLibrary =
  starred_Artists :: "Artist list"
  starred_Albums :: "Album list"
  starred_Tracks :: "Track list"
  starred_Annotations :: "MediaRef \<rightharpoonup> MediaAnnotation"

record PlayQueue =
  pq_Owner :: string
  pq_CurrentID :: string
  pq_PositionMS :: int
  pq_Changed :: time
  pq_ChangedBy :: string
  pq_Tracks :: "Track list"

record SourceAvailability =
  av_Peer :: string
  av_UploadSpeed :: int
  av_QueueLength :: int
  av_FreeUploadSlot :: bool
  av_RequiresApproval :: bool

record TrackSource =
  ts_Track :: Track
  ts_Ref :: SourceRef
  ts_DisplayPath :: string
  ts_Availability :: SourceAvailability
  ts_DiscoveredAt :: time

record SourceCollection =
  sc_Name :: string
  sc_Artist :: string
  sc_CoverArtID :: string
  sc_Tracks :: "TrackSource list"

record CacheEntry =
  ce_Key :: string
  ce_Size :: int
  ce_LastAccessed :: time
  ce_Pinned :: bool

record CacheUsage =
  cu_Name :: string
  cu_Entries :: int
  cu_PartialEntries :: int
  cu_Size :: int

record CacheStats =
  cs_Capacity :: int
  cs_Entries :: int
  cs_Size :: int
  cs_PinnedEntries :: int
  cs_PinnedSize :: int
  cs_Components :: "CacheUsage list"

datatype DownloadState =
    DownloadStateWaiting | DownloadStateQueued | DownloadStateDownloading
  | DownloadStateTranscoding | DownloadStateCached | DownloadStateFailed
  | DownloadStateCancelled | DownloadStateEvicted

record TrackDownload =
  td_ID :: string
  td_Provider :: string
  td_SourceID :: string
  td_TrackID :: string
  td_Name :: string
  td_State :: DownloadState
  td_CompletedBytes :: int
  td_TotalBytes :: int
  td_Error :: "go_error option"
  td_StartedAt :: time
  td_UpdatedAt :: time

record TransferLimits =
  tl_UploadBytesPerSecond :: int
  tl_DownloadBytesPerSecond :: int

record AuditEntry =
  audit_ID :: int
  audit_OccurredAt :: time
  audit_RequestID :: string
  audit_Actor :: string
  audit_RemoteAddress :: string
  audit_Method :: string
  audit_Path :: string
  audit_Status :: int

section \<open>Users and permissions\<close>

type_synonym UserRole = string
type_synonym Permission = string

definition UserRoleAdmin :: UserRole where "UserRoleAdmin = ''admin''"
definition UserRoleUser :: UserRole where "UserRoleUser = ''user''"

definition PermissionDashboardAccess :: Permission where
  "PermissionDashboardAccess = ''dashboard.access''"
definition PermissionMonitoringView :: Permission where
  "PermissionMonitoringView = ''monitoring.view''"
definition PermissionSourcesManage :: Permission where
  "PermissionSourcesManage = ''sources.manage''"
definition PermissionSoulseekSearch :: Permission where
  "PermissionSoulseekSearch = ''soulseek.search''"
definition PermissionSoulseekAdd :: Permission where
  "PermissionSoulseekAdd = ''soulseek.add''"
definition PermissionSoulseekClient :: Permission where
  "PermissionSoulseekClient = ''soulseek.client-search''"
definition PermissionUsersManage :: Permission where
  "PermissionUsersManage = ''users.manage''"
definition PermissionCatalogManage :: Permission where
  "PermissionCatalogManage = ''catalog.manage''"

lemmas permission_defs =
  PermissionDashboardAccess_def PermissionMonitoringView_def PermissionSourcesManage_def
  PermissionSoulseekSearch_def PermissionSoulseekAdd_def PermissionSoulseekClient_def
  PermissionUsersManage_def PermissionCatalogManage_def

definition availablePermissions :: "Permission list" where
  "availablePermissions =
    [PermissionDashboardAccess, PermissionMonitoringView, PermissionSourcesManage,
     PermissionSoulseekSearch, PermissionSoulseekAdd, PermissionSoulseekClient,
     PermissionUsersManage, PermissionCatalogManage]"

record User =
  user_Username :: string
  user_Role :: UserRole
  user_Permissions :: "Permission list"
  user_CreatedAt :: time
  user_UpdatedAt :: time

definition IsAdmin :: "User \<Rightarrow> bool" where
  "IsAdmin u = (user_Role u = UserRoleAdmin)"

text \<open>The loop of \<open>HasPermission\<close>, with its flag \<open>hasSourceManagement\<close>.\<close>

fun HasPermission_loop :: "Permission \<Rightarrow> bool \<Rightarrow> Permission list \<Rightarrow> bool" where
  "HasPermission_loop permission hasSourceManagement [] =
    (hasSourceManagement \<and>
     (permission = PermissionSoulseekSearch \<or> permission = PermissionSoulseekAdd))"
| "HasPermission_loop permission hasSourceManagement (candidate # rest) =
    (if candidate = permission then True
     else HasPermission_loop permission
       (if candidate = PermissionSourcesManage then True else hasSourceManagement) rest)"

definition HasPermission :: "User \<Rightarrow> Permission \<Rightarrow> bool" where
  "HasPermission u permission =
    (if IsAdmin u then True else HasPermission_loop permission False (user_Permissions u))"

definition EffectivePermissions :: "User \<Rightarrow> Permission list" where
  "EffectivePermissions u = filter (HasPermission u) availablePermissions"

fun ValidPermission_loop :: "Permission \<Rightarrow> Permission list \<Rightarrow> bool" where
  "ValidPermission_loop permission [] = False"
| "ValidPermission_loop permission (candidate # rest) =
    (if candidate = permission then True else ValidPermission_loop permission rest)"

definition ValidPermission :: "Permission \<Rightarrow> bool" where
  "ValidPermission permission = ValidPermission_loop permission availablePermissions"

lemma HasPermission_loop_iff:
  "HasPermission_loop p flag ps \<longleftrightarrow> p \<in> set ps \<or>
     ((flag \<or> PermissionSourcesManage \<in> set ps) \<and>
      (p = PermissionSoulseekSearch \<or> p = PermissionSoulseekAdd))"
  by (induction ps arbitrary: flag) auto

lemma HasPermission_iff:
  "HasPermission u p \<longleftrightarrow> IsAdmin u \<or> p \<in> set (user_Permissions u) \<or>
     (PermissionSourcesManage \<in> set (user_Permissions u) \<and>
      p \<in> {PermissionSoulseekSearch, PermissionSoulseekAdd})"
  by (auto simp: HasPermission_def HasPermission_loop_iff)

lemma ValidPermission_loop_iff: "ValidPermission_loop p ps \<longleftrightarrow> p \<in> set ps"
  by (induction ps) auto

lemma ValidPermission_iff: "ValidPermission p \<longleftrightarrow> p \<in> set availablePermissions"
  by (simp add: ValidPermission_def ValidPermission_loop_iff)

lemma distinct_availablePermissions [simp]: "distinct availablePermissions"
  by (simp add: availablePermissions_def permission_defs)

lemma role_distinct [simp]: "UserRoleAdmin \<noteq> UserRoleUser" "UserRoleUser \<noteq> UserRoleAdmin"
  by (simp_all add: UserRoleAdmin_def UserRoleUser_def)

section \<open>Opaque identifiers\<close>

subsection \<open>Package encoding/base64, strconv\<close>

definition base64url_char :: "nat \<Rightarrow> char" where
  "base64url_char n =
    (if n < 26 then char_of (65 + n)
     else if n < 52 then char_of (71 + n)
     else if n < 62 then char_of (n - 4)
     else if n = 62 then CHR ''-'' else CHR ''_'')"

text \<open>\<open>base64.RawURLEncoding.EncodeToString\<close>: no padding.\<close>

fun RawURLEncoding :: "string \<Rightarrow> string" where
  "RawURLEncoding [] = []"
| "RawURLEncoding [a] =
    [base64url_char (byte a div 4), base64url_char (byte a mod 4 * 16)]"
| "RawURLEncoding [a, b] =
    [base64url_char (byte a div 4), base64url_char (byte a mod 4 * 16 + byte b div 16),
     base64url_char (byte b mod 16 * 4)]"
| "RawURLEncoding (a # b # c # rest) =
    [base64url_char (byte a div 4), base64url_char (byte a mod 4 * 16 + byte b div 16),
     base64url_char (byte b mod 16 * 4 + byte c div 64), base64url_char (byte c mod 64)]
    @ RawURLEncoding rest"

fun nat_Itoa :: "nat \<Rightarrow> string" where
  "nat_Itoa n = (if n < 10 then [char_of (48 + n)] else nat_Itoa (n div 10) @ [char_of (48 + n mod 10)])"

declare nat_Itoa.simps [simp del]

definition Itoa :: "int \<Rightarrow> string" where
  "Itoa n = (if n < 0 then CHR ''-'' # nat_Itoa (nat (- n)) else nat_Itoa (nat n))"

fun Atoi_digits :: "nat \<Rightarrow> string \<Rightarrow> nat option" where
  "Atoi_digits acc [] = Some acc"
| "Atoi_digits acc (c # cs) =
    (if 48 \<le> byte c \<and> byte c \<le> 57 then Atoi_digits (acc * 10 + (byte c - 48)) cs else None)"

text \<open>\<open>strconv.Atoi\<close>: an optional sign, then at least one digit; out of range is an error.\<close>

definition Atoi :: "string \<Rightarrow> int option" where
  "Atoi s =
    (let (neg, digits) =
       (case s of [] \<Rightarrow> (False, [])
        | c # cs \<Rightarrow> if c = CHR ''-'' then (True, cs) else if c = CHR ''+'' then (False, cs) else (False, s))
     in if digits = [] then None
        else case Atoi_digits 0 digits of
          None \<Rightarrow> None
        | Some n \<Rightarrow> let v = (if neg then - int n else int n) in if in_i64 v then Some v else None)"

subsection \<open>music.go\<close>

record text_env =
  unicode :: unicode_tables
  sha256 :: "string \<Rightarrow> string"
  NFKC :: "string \<Rightarrow> string"
  CaseFold :: "string \<Rightarrow> string"

definition StableID :: "text_env \<Rightarrow> string \<Rightarrow> string list \<Rightarrow> string" where
  "StableID env kind parts =
    (let values = kind # parts;
         sum = sha256 env (strings_Join values [CHR 0x00])
     in kind @ ''_'' @ RawURLEncoding (take 12 sum))"

definition CatalogNameKey :: "text_env \<Rightarrow> string \<Rightarrow> string" where
  "CatalogNameKey env name = CaseFold env (NFKC env (strings_Join (Fields name) '' ''))"

definition CanonicalArtistID :: "text_env \<Rightarrow> string \<Rightarrow> string" where
  "CanonicalArtistID env name = StableID env ''artist'' [CatalogNameKey env name]"

definition CanonicalAlbumID :: "text_env \<Rightarrow> string \<Rightarrow> string \<Rightarrow> string" where
  "CanonicalAlbumID env albumArtist album =
    StableID env ''album'' [CanonicalArtistID env albumArtist, CatalogNameKey env album]"

text \<open>\<open>string(runes)\<close>.\<close>

definition runes_string :: "nat list \<Rightarrow> string" where
  "runes_string rs = concat (map EncodeRune rs)"

text \<open>The two index loops of \<open>canonicalTrackTitle\<close>.\<close>

definition leading_digits :: "text_env \<Rightarrow> nat list \<Rightarrow> nat" where
  "leading_digits env rs = length (takeWhile (IsDigit (unicode env)) (take 3 rs))"

definition skip_separators :: "text_env \<Rightarrow> nat list \<Rightarrow> nat list" where
  "skip_separators env rs =
    dropWhile (\<lambda>r. \<not> IsLetter (unicode env) r \<and> \<not> IsDigit (unicode env) r) rs"

definition canonicalTrackTitle :: "text_env \<Rightarrow> string \<Rightarrow> string \<times> int" where
  "canonicalTrackTitle env value =
    (let key = CatalogNameKey env value;
         runes = runes_of key;
         index = leading_digits env runes
     in if index = 0 \<or> index = length runes
           \<or> IsLetter (unicode env) (runes ! index) \<or> IsDigit (unicode env) (runes ! index)
        then (key, 0)
        else case Atoi (runes_string (take index runes)) of
          None \<Rightarrow> (key, 0)
        | Some number \<Rightarrow>
            (let rest = skip_separators env (drop index runes)
             in if rest = [] then (key, 0) else (TrimSpace (runes_string rest), number)))"

definition CanonicalTrackID :: "text_env \<Rightarrow> Track \<Rightarrow> string" where
  "CanonicalTrackID env track =
    (let albumArtist = (if TrimSpace (track_AlbumArtist track) = ''''
                        then track_Artist track else TrimSpace (track_AlbumArtist track));
         (title, inferredNumber) = canonicalTrackTitle env (track_Title track);
         trackNumber = (if track_TrackNumber track = 0 then inferredNumber
                        else track_TrackNumber track)
     in StableID env ''track''
          [CanonicalAlbumID env albumArtist (track_Album track),
           CanonicalArtistID env (track_Artist track),
           Itoa (track_DiscNumber track), Itoa trackNumber, title])"

definition HasCanonicalTrackIdentity :: "Track \<Rightarrow> bool" where
  "HasCanonicalTrackIdentity track =
    (TrimSpace (track_Title track) \<noteq> '''' \<and> TrimSpace (track_Artist track) \<noteq> ''''
     \<and> TrimSpace (track_Album track) \<noteq> '''')"

section \<open>Identifiers are injective codes of their preimages\<close>

lemma byte_less [simp]: "byte c < 256"
  by (simp add: byte_def)

lemma byte_eq_iff [simp]: "byte c = byte d \<longleftrightarrow> c = d"
  by (simp add: byte_def of_char_eq_iff)

lemma byte_char_of: "n < 256 \<Longrightarrow> byte (char_of n) = n"
  by (simp add: byte_def)

lemma byte_base64url_char:
  "n < 64 \<Longrightarrow> byte (base64url_char n) =
     (if n < 26 then 65 + n else if n < 52 then 71 + n else if n < 62 then n - 4
      else if n = 62 then 45 else 95)"
  by (auto simp: base64url_char_def byte_def)

lemma base64url_char_inj: "m < 64 \<Longrightarrow> n < 64 \<Longrightarrow> base64url_char m = base64url_char n \<longleftrightarrow> m = n"
  by (subst byte_eq_iff [symmetric], simp only: byte_base64url_char) (auto split: if_splits)

lemma base64url_char_nonzero [simp]: "base64url_char n \<noteq> CHR 0x00"
proof -
  have "byte (base64url_char n) \<noteq> byte (CHR 0x00)"
    by (auto simp: base64url_char_def byte_def)
  then show ?thesis by simp
qed

lemma base64_digits_less [simp]:
  "byte a div 4 < 64" "byte a mod 4 * 16 < 64" "byte a mod 4 * 16 + byte b div 16 < 64"
  "byte b mod 16 * 4 < 64" "byte b mod 16 * 4 + byte c div 64 < 64"
proof -
  have "byte x < 256" for x by simp
  note b = this [of a] this [of b] this [of c]
  then have "byte b div 16 < 16" "byte c div 64 < 4" by (simp_all add: less_mult_imp_div_less)
  moreover have "byte a mod 4 < 4" "byte b mod 16 < 16" by simp_all
  ultimately show "byte a mod 4 * 16 < 64" "byte a mod 4 * 16 + byte b div 16 < 64"
    "byte b mod 16 * 4 < 64" "byte b mod 16 * 4 + byte c div 64 < 64" by linarith+
  show "byte a div 4 < 64" using b by (simp add: less_mult_imp_div_less)
qed

lemma digit_pair_inj:
  fixes x y n :: nat
  assumes "x * n + y = x' * n + y'" "y < n" "y' < n"
  shows "x = x' \<and> y = y'"
proof -
  have "x = (x * n + y) div n" "x' = (x' * n + y') div n" using assms(2,3) by simp_all
  with assms(1) show ?thesis by simp
qed

lemma base64_group_inj:
  assumes "byte a div 4 = byte a' div 4"
    and "byte a mod 4 * 16 + byte b div 16 = byte a' mod 4 * 16 + byte b' div 16"
    and "byte b mod 16 * 4 + c div 64 = byte b' mod 16 * 4 + c' div 64" "c mod 64 = c' mod 64"
    and "c < 256" "c' < 256"
  shows "a = a' \<and> b = b' \<and> c = c'"
proof -
  have "byte b div 16 < 16" "byte b' div 16 < 16" "c div 64 < 4" "c' div 64 < 4"
    using assms(5,6) by (simp_all add: less_mult_imp_div_less)
  with assms(2,3) have "byte a mod 4 = byte a' mod 4" "byte b div 16 = byte b' div 16"
    "byte b mod 16 = byte b' mod 16" "c div 64 = c' div 64"
    by (metis digit_pair_inj)+
  with assms(1,4) show ?thesis by (metis div_mult_mod_eq byte_eq_iff)
qed

lemma length_RawURLEncoding: "length (RawURLEncoding xs) = (length xs * 4 + 2) div 3"
  by (induction xs rule: RawURLEncoding.induct) auto

lemma RawURLEncoding_inj:
  "length xs = length ys \<Longrightarrow> RawURLEncoding xs = RawURLEncoding ys \<Longrightarrow> xs = ys"
proof (induction xs arbitrary: ys rule: RawURLEncoding.induct)
  case 1
  then show ?case by simp
next
  case (2 a)
  from "2.prems"(1) obtain a' where ys: "ys = [a']"
    by (cases ys rule: RawURLEncoding.cases) auto
  with 2 have "byte a div 4 = byte a' div 4" "byte a mod 4 = byte a' mod 4"
    by (simp_all add: base64url_char_inj)
  then have "byte a = byte a'" by (metis div_mult_mod_eq)
  with ys show ?case by simp
next
  case (3 a b)
  from "3.prems"(1) obtain a' b' where ys: "ys = [a', b']"
    by (cases ys rule: RawURLEncoding.cases) auto
  with 3 have "a = a' \<and> b = b' \<and> (0::nat) = 0"
    by (intro base64_group_inj) (simp_all add: base64url_char_inj)
  with ys show ?case by simp
next
  case (4 a b c rest)
  from "4.prems"(1) obtain a' b' c' rest' where ys: "ys = a' # b' # c' # rest'"
    by (cases ys rule: RawURLEncoding.cases) auto
  with 4 have "a = a' \<and> b = b' \<and> byte c = byte c'"
    by (intro base64_group_inj) (simp_all add: base64url_char_inj)
  with 4 ys show ?case by simp
qed

lemma RawURLEncoding_nonzero [simp]: "CHR 0x00 \<notin> set (RawURLEncoding xs)"
  by (induction xs rule: RawURLEncoding.induct)
    (simp_all add: base64url_char_nonzero [symmetric])

lemma nat_Itoa_digits: "c \<in> set (nat_Itoa n) \<Longrightarrow> 48 \<le> byte c \<and> byte c \<le> 57"
proof (induction n rule: nat_Itoa.induct)
  case (1 n)
  show ?case
  proof (cases "n < 10")
    case True
    with 1 show ?thesis by (simp add: nat_Itoa.simps [of n] byte_char_of)
  next
    case False
    with 1 show ?thesis by (auto simp: nat_Itoa.simps [of n] byte_char_of)
  qed
qed

lemma nat_Itoa_nonempty [simp]: "nat_Itoa n \<noteq> []"
  by (subst nat_Itoa.simps) simp

lemma Atoi_digits_append:
  "Atoi_digits acc (xs @ ys) = Option.bind (Atoi_digits acc xs) (\<lambda>a. Atoi_digits a ys)"
  by (induction xs arbitrary: acc) auto

lemma Atoi_digits_nat_Itoa: "Atoi_digits 0 (nat_Itoa n) = Some n"
proof (induction n rule: nat_Itoa.induct)
  case (1 n)
  show ?case
    by (cases "n < 10")
      (simp_all add: nat_Itoa.simps [of n] byte_char_of Atoi_digits_append 1)
qed

text \<open>\<open>strconv.Atoi\<close> inverts \<open>strconv.Itoa\<close>.\<close>

lemma Atoi_Itoa: "in_i64 n \<Longrightarrow> Atoi (Itoa n) = Some n"
proof -
  assume n: "in_i64 n"
  obtain c cs where cs: "nat_Itoa (nat n) = c # cs" by (cases "nat_Itoa (nat n)") simp_all
  then have "48 \<le> byte c" using nat_Itoa_digits [of c "nat n"] by simp
  then have "c \<noteq> CHR ''-''" "c \<noteq> CHR ''+''" by (auto simp: byte_def)
  with cs n show ?thesis
    using Atoi_digits_nat_Itoa [of "nat n"]
    by (auto simp: Atoi_def Itoa_def Atoi_digits_nat_Itoa)
qed

lemma nat_Itoa_inj [simp]: "nat_Itoa m = nat_Itoa n \<longleftrightarrow> m = n"
  by (metis Atoi_digits_nat_Itoa option.inject)

lemma nat_Itoa_no_sign [simp]: "nat_Itoa n \<noteq> CHR ''-'' # cs" "CHR ''-'' # cs \<noteq> nat_Itoa n"
  using nat_Itoa_digits [of "CHR ''-''" n] by (auto simp: byte_def dest: sym)

lemma Itoa_inj [simp]: "Itoa m = Itoa n \<longleftrightarrow> m = n"
  by (auto simp: Itoa_def)

lemma Itoa_nonzero [simp]: "CHR 0x00 \<notin> set (Itoa n)"
proof -
  have "CHR 0x00 \<notin> set (nat_Itoa k)" for k
    using nat_Itoa_digits [of "CHR 0x00" k] by (auto simp: byte_def)
  then show ?thesis by (simp add: Itoa_def)
qed

section \<open>Provider-independent identity\<close>

text \<open>
  What \<open>CanonicalTrackID\<close> promises: two tracks share an identifier exactly when they agree on
  the normalised names of album artist, album and artist, on the disc, on the (given or
  inferred) track number and on the title without its number.
\<close>

definition effective_album_artist :: "Track \<Rightarrow> string" where
  "effective_album_artist t =
    (if TrimSpace (track_AlbumArtist t) = '''' then track_Artist t else TrimSpace (track_AlbumArtist t))"

definition effective_number :: "text_env \<Rightarrow> Track \<Rightarrow> int" where
  "effective_number env t =
    (if track_TrackNumber t = 0 then snd (canonicalTrackTitle env (track_Title t))
     else track_TrackNumber t)"

definition track_identity :: "text_env \<Rightarrow> Track \<Rightarrow> string \<times> string \<times> string \<times> int \<times> int \<times> string" where
  "track_identity env t =
    (CatalogNameKey env (effective_album_artist t), CatalogNameKey env (track_Album t),
     CatalogNameKey env (track_Artist t), track_DiscNumber t, effective_number env t,
     fst (canonicalTrackTitle env (track_Title t)))"

definition id_preimage :: "string \<Rightarrow> string list \<Rightarrow> string" where
  "id_preimage kind parts = strings_Join (kind # parts) [CHR 0x00]"

text \<open>The four strings hashed for the identifier of a track.\<close>

definition canonical_preimages :: "text_env \<Rightarrow> Track \<Rightarrow> string set" where
  "canonical_preimages env t =
    {id_preimage ''artist'' [CatalogNameKey env (effective_album_artist t)],
     id_preimage ''artist'' [CatalogNameKey env (track_Artist t)],
     id_preimage ''album'' [CanonicalArtistID env (effective_album_artist t),
       CatalogNameKey env (track_Album t)],
     id_preimage ''track''
       [CanonicalAlbumID env (effective_album_artist t) (track_Album t),
        CanonicalArtistID env (track_Artist t),
        Itoa (track_DiscNumber t), Itoa (effective_number env t),
        fst (canonicalTrackTitle env (track_Title t))]}"

definition collision_free :: "text_env \<Rightarrow> string set \<Rightarrow> bool" where
  "collision_free env A = inj_on (\<lambda>x. take 12 (sha256 env x)) A"

definition hash_length :: "text_env \<Rightarrow> bool" where
  "hash_length env = (\<forall>x. length (sha256 env x) = 32)"

lemma CanonicalTrackID_alt:
  "CanonicalTrackID env t = StableID env ''track''
     [CanonicalAlbumID env (effective_album_artist t) (track_Album t),
      CanonicalArtistID env (track_Artist t),
      Itoa (track_DiscNumber t), Itoa (effective_number env t),
      fst (canonicalTrackTitle env (track_Title t))]"
  by (simp add: CanonicalTrackID_def effective_album_artist_def effective_number_def Let_def
      split: prod.splits)

lemma StableID_eq:
  assumes "hash_length env"
  shows "StableID env kind ps = StableID env kind qs \<longleftrightarrow>
    take 12 (sha256 env (id_preimage kind ps)) = take 12 (sha256 env (id_preimage kind qs))"
  using assms
  by (auto simp: StableID_def Let_def id_preimage_def hash_length_def dest: RawURLEncoding_inj [rotated])

lemma StableID_nonzero:
  "CHR 0x00 \<notin> set kind \<Longrightarrow> CHR 0x00 \<notin> set (StableID env kind ps)"
  by (simp add: StableID_def Let_def)

lemma CanonicalID_nonzero [simp]:
  "CHR 0x00 \<notin> set (CanonicalArtistID env a)"
  "CHR 0x00 \<notin> set (CanonicalAlbumID env a b)"
  unfolding CanonicalArtistID_def CanonicalAlbumID_def
  by (rule StableID_nonzero, simp)+

text \<open>A separator that does not occur in the part before it can be cut off again.\<close>

lemma sep_inj:
  assumes "x @ [z] @ r = x' @ [z] @ r'" "z \<notin> set x" "z \<notin> set x'"
  shows "x = x' \<and> r = r'"
  using assms
proof (induction x arbitrary: x')
  case Nil
  then show ?case by (cases x') auto
next
  case (Cons a x)
  then show ?case by (cases x') auto
qed

lemma strings_Join_Cons: "ys \<noteq> [] \<Longrightarrow> strings_Join (x # ys) sep = x @ sep @ strings_Join ys sep"
  by (cases ys) auto

text \<open>Parts without a NUL byte, but for the last, can be read back from the joined string.\<close>

lemma Join_NUL_inj:
  assumes "length ps = length qs" "ps \<noteq> []"
    and "\<forall>p \<in> set (butlast ps). z \<notin> set p" "\<forall>q \<in> set (butlast qs). z \<notin> set q"
    and "strings_Join ps [z] = strings_Join qs [z]"
  shows "ps = qs"
  using assms
proof (induction ps arbitrary: qs)
  case Nil
  then show ?case by simp
next
  case (Cons p ps)
  then obtain q qs' where qs: "qs = q # qs'" by (cases qs) auto
  show ?case
  proof (cases "ps = []")
    case True
    with Cons.prems qs show ?thesis by auto
  next
    case False
    with Cons.prems qs have ne: "qs' \<noteq> []" by auto
    have "p = q \<and> strings_Join ps [z] = strings_Join qs' [z]"
      using Cons.prems qs False ne by (intro sep_inj) (auto simp add: strings_Join_Cons)
    moreover have "ps = qs'"
      using Cons.prems qs False ne calculation by (intro Cons.IH) auto
    ultimately show ?thesis using qs by simp
  qed
qed

lemma id_preimage_inj:
  assumes "id_preimage kind ps = id_preimage kind qs" "length ps = length qs"
    and "CHR 0x00 \<notin> set kind"
    and "\<forall>p \<in> set (butlast ps). CHR 0x00 \<notin> set p"
    and "\<forall>q \<in> set (butlast qs). CHR 0x00 \<notin> set q"
  shows "ps = qs"
proof -
  have "kind # ps = kind # qs"
    using assms by (intro Join_NUL_inj [where z = "CHR 0x00"]) (auto simp: id_preimage_def)
  then show ?thesis by simp
qed


text \<open>An identifier determines its parts, when the hash separates the two preimages.\<close>

lemma StableID_parts:
  assumes "hash_length env" "collision_free env A"
    and "id_preimage kind ps \<in> A" "id_preimage kind qs \<in> A"
    and "StableID env kind ps = StableID env kind qs" "length ps = length qs"
    and "CHR 0x00 \<notin> set kind"
    and "\<forall>p \<in> set (butlast ps). CHR 0x00 \<notin> set p"
    and "\<forall>q \<in> set (butlast qs). CHR 0x00 \<notin> set q"
  shows "ps = qs"
proof -
  have "take 12 (sha256 env (id_preimage kind ps)) = take 12 (sha256 env (id_preimage kind qs))"
    using assms(5) StableID_eq [OF assms(1)] by simp
  then have "id_preimage kind ps = id_preimage kind qs"
    using assms(2-4) by (auto simp: collision_free_def dest: inj_onD)
  then show ?thesis using assms(6-9) by (rule id_preimage_inj)
qed

text \<open>
  C1: the canonical track identifier is provider independent and exact. For two tracks whose
  hashed preimages SHA-256 does not confuse (truncated to the 12 bytes the code keeps), the
  identifiers are equal if and only if the normalised album artist, album and artist names, the
  disc number, the effective track number and the title without its number prefix are equal.
\<close>

theorem CanonicalTrackID_identity:
  assumes "hash_length env"
    and "collision_free env (canonical_preimages env a \<union> canonical_preimages env b)"
  shows "CanonicalTrackID env a = CanonicalTrackID env b \<longleftrightarrow>
    track_identity env a = track_identity env b"
proof
  let ?A = "canonical_preimages env a \<union> canonical_preimages env b"
  note parts = StableID_parts [OF assms]
  assume "CanonicalTrackID env a = CanonicalTrackID env b"
  then have tr: "[CanonicalAlbumID env (effective_album_artist a) (track_Album a),
      CanonicalArtistID env (track_Artist a), Itoa (track_DiscNumber a), Itoa (effective_number env a),
      fst (canonicalTrackTitle env (track_Title a))] =
    [CanonicalAlbumID env (effective_album_artist b) (track_Album b),
      CanonicalArtistID env (track_Artist b), Itoa (track_DiscNumber b), Itoa (effective_number env b),
      fst (canonicalTrackTitle env (track_Title b))]"
    unfolding CanonicalTrackID_alt by (intro parts [where kind = "''track''"]) (auto simp: canonical_preimages_def)
  then have "[CanonicalArtistID env (effective_album_artist a), CatalogNameKey env (track_Album a)] =
      [CanonicalArtistID env (effective_album_artist b), CatalogNameKey env (track_Album b)]"
    by (intro parts [where kind = "''album''"]) (auto simp: canonical_preimages_def CanonicalAlbumID_def)
  moreover from this have "[CatalogNameKey env (effective_album_artist a)] = [CatalogNameKey env (effective_album_artist b)]"
    by (intro parts [where kind = "''artist''"]) (auto simp: canonical_preimages_def CanonicalArtistID_def)
  moreover from tr have "[CatalogNameKey env (track_Artist a)] = [CatalogNameKey env (track_Artist b)]"
    by (intro parts [where kind = "''artist''"]) (auto simp: canonical_preimages_def CanonicalArtistID_def)
  ultimately show "track_identity env a = track_identity env b"
    using tr by (simp add: track_identity_def)
next
  assume "track_identity env a = track_identity env b"
  then show "CanonicalTrackID env a = CanonicalTrackID env b"
    by (simp add: CanonicalTrackID_alt track_identity_def CanonicalAlbumID_def CanonicalArtistID_def)
qed

text \<open>A small environment for concrete instances: ASCII text and a fixed-length toy digest.\<close>

definition demo_env :: text_env where
  "demo_env = \<lparr>unicode = ascii_tables, sha256 = (\<lambda>x. take 32 (rev x @ replicate 32 (CHR 0x00))),
     NFKC = (\<lambda>s. s), CaseFold = ToLower ascii_tables\<rparr>"

definition demo_track :: "string \<Rightarrow> string \<Rightarrow> Track" where
  "demo_track tid title = \<lparr>track_ID = tid, track_Title = title, track_Artist = ''A'', track_ArtistID = '''',
     track_Album = ''B'', track_AlbumID = '''', track_AlbumArtist = '''', track_AlbumArtistID = '''',
     track_TrackNumber = 0, track_DiscNumber = 1, track_Year = 1999, track_Genre = '''',
     track_Duration = 1000000000, track_Size = 10, track_BitRate = 192, track_Suffix = ''mp3'',
     track_ContentType = ''audio/mpeg'', track_CoverArtID = ''''\<rparr>"

lemma hash_length_demo_env: "hash_length demo_env"
  by (auto simp: hash_length_def demo_env_def)

lemma demo_collision_free:
  assumes "\<And>x y. x \<in> A \<Longrightarrow> y \<in> A \<Longrightarrow> last x = last y \<Longrightarrow> x = y" "[] \<notin> A"
  shows "collision_free demo_env A"
  unfolding collision_free_def
proof (rule inj_onI)
  fix x y assume xy: "x \<in> A" "y \<in> A"
    and eq: "take 12 (sha256 demo_env x) = take 12 (sha256 demo_env y)"
  have "hd (take 12 (sha256 demo_env z)) = last z" if "z \<in> A" for z
    using that assms(2) by (cases z rule: rev_cases) (auto simp: demo_env_def)
  with xy eq have "last x = last y" by metis
  with xy show "x = y" by (rule assms(1))
qed

lemma demo_keys:
  "CatalogNameKey demo_env ''A'' = ''a''" "CatalogNameKey demo_env ''B'' = ''b''"
  "canonicalTrackTitle demo_env ''07. X'' = (''x'', 7)" "canonicalTrackTitle demo_env ''x'' = (''x'', 0)"
  by (simp_all add: go_eval CatalogNameKey_def demo_env_def canonicalTrackTitle_def leading_digits_def
      skip_separators_def runes_string_def Atoi_def in_i64_def)

lemma CanonicalTrackID_identity_witness:
  "CanonicalTrackID demo_env (demo_track ''t1'' ''07. X'') =
   CanonicalTrackID demo_env ((demo_track ''t2'' ''x'')\<lparr>track_TrackNumber := 7\<rparr>)"
proof -
  let ?a = "demo_track ''t1'' ''07. X''"
  let ?b = "(demo_track ''t2'' ''x'')\<lparr>track_TrackNumber := 7\<rparr>"
  have cf: "collision_free demo_env (canonical_preimages demo_env ?a \<union> canonical_preimages demo_env ?b)"
    by (rule demo_collision_free)
      (auto simp: canonical_preimages_def id_preimage_def demo_track_def effective_album_artist_def
        effective_number_def demo_keys)
  have "track_identity demo_env ?a = track_identity demo_env ?b"
    by (simp add: track_identity_def demo_track_def effective_album_artist_def effective_number_def demo_keys)
  with CanonicalTrackID_identity [OF hash_length_demo_env cf] show ?thesis by simp
qed
end
