(* ===== verification/World.thy ===== *)
theory World
  imports Domain
begin

text \<open>
  The world the adapters act on: the tables of the database (one list of rows per table of
  \<open>src/backend/migrations\<close>, in insertion order), the files of the blob store, the readings of the
  clock and the schedule of faults. Every SQL statement first consults the schedule: a
  \<open>True\<close> makes it fail with a driver error and leaves the tables unchanged, so that a theorem
  for every world covers every pattern of database failures. A transaction restores the
  tables when its body or its commit fails.

  Times are kept as values; the column text is \<open>time.RFC3339Nano\<close>, whose order differs from
  the order of times (\<open>format_RFC3339Nano\<close> below), and \<open>ORDER BY\<close> on such a column compares texts.
\<close>

section \<open>Rows\<close>

record UserCredential =
  cred_User :: User
  cred_PasswordHash :: string
  cred_EncryptedToken :: string

text \<open>A row of \<open>users\<close>: the permissions of the embedded user live in \<open>user_permissions\<close>.\<close>

record user_row =
  ur_username :: string
  ur_role :: UserRole
  ur_password_hash :: string
  ur_encrypted_token :: string
  ur_created_at :: time
  ur_updated_at :: time

record playlist_row =
  plr_id :: string
  plr_owner :: string
  plr_name :: string
  plr_comment :: string
  plr_public :: bool
  plr_created_at :: time
  plr_changed_at :: time

record queue_row =
  qr_owner :: string
  qr_current_track_id :: string
  qr_position_ms :: int
  qr_changed_at :: time
  qr_changed_by :: string

record source_row =
  sr_track_id :: string
  sr_provider :: string
  sr_source_key :: string
  sr_discovered_at :: time

record world =
  w_tracks :: "Track list"
  w_track_sources :: "source_row list"
  w_track_aliases :: "(string \<times> string) list"
  w_album_alias_tracks :: "(string \<times> string \<times> string) list"
  w_artist_aliases :: "ArtistAlias list"
  w_cache_entries :: "CacheEntry list"
  w_playlists :: "playlist_row list"
  w_playlist_tracks :: "(string \<times> nat \<times> string) list"
  w_annotations :: "MediaAnnotation list"
  w_play_queues :: "queue_row list"
  w_play_queue_tracks :: "(string \<times> nat \<times> string) list"
  w_users :: "user_row list"
  w_user_permissions :: "(string \<times> Permission) list"
  w_transfer_settings :: "TransferLimits option"
  w_pinned_tracks :: "(string \<times> time) list"
  w_audit_log :: "AuditEntry list"
  w_blobs :: "(string \<times> string \<times> time) list"
  w_clock :: "nat \<Rightarrow> time"
  w_ticks :: nat
  w_faults :: "bool list"

definition empty_world :: world where
  "empty_world = \<lparr>w_tracks = [], w_track_sources = [], w_track_aliases = [],
     w_album_alias_tracks = [], w_artist_aliases = [], w_cache_entries = [], w_playlists = [],
     w_playlist_tracks = [], w_annotations = [], w_play_queues = [], w_play_queue_tracks = [],
     w_users = [], w_user_permissions = [], w_transfer_settings = None, w_pinned_tracks = [],
     w_audit_log = [], w_blobs = [], w_clock = (\<lambda>n. unix_epoch + int n * second),
     w_ticks = 0, w_faults = []\<rparr>"

section \<open>Clock, faults, statements and transactions\<close>

definition time_Now :: "world \<Rightarrow> time \<times> world" where
  "time_Now w = (w_clock w (w_ticks w), w\<lparr>w_ticks := Suc (w_ticks w)\<rparr>)"

text \<open>A value that depends on the environment's randomness: a function of the number of readings
  of the environment so far.\<close>

definition env_read :: "(nat \<Rightarrow> 'a result) \<Rightarrow> (world, 'a) action" where
  "env_read f w = (f (w_ticks w), w\<lparr>w_ticks := Suc (w_ticks w)\<rparr>)"

definition driver_error :: go_error where
  "driver_error = ErrIO ''database''"

definition next_fault :: "world \<Rightarrow> bool" where
  "next_fault w = (case w_faults w of [] \<Rightarrow> False | b # _ \<Rightarrow> b)"

definition spend_fault :: "world \<Rightarrow> world" where
  "spend_fault w = w\<lparr>w_faults := tl (w_faults w)\<rparr>"

text \<open>One SQL statement; \<open>f\<close> may itself reject (a constraint of the schema).\<close>

definition db_stmt :: "(world \<Rightarrow> 'a result \<times> world) \<Rightarrow> (world, 'a) action" where
  "db_stmt f w = (if next_fault w then (Inl driver_error, spend_fault w) else f (spend_fault w))"

definition db_query :: "(world \<Rightarrow> 'a) \<Rightarrow> (world, 'a) action" where
  "db_query f = db_stmt (\<lambda>w. (Inr (f w), w))"

definition db_exec :: "(world \<Rightarrow> world) \<Rightarrow> (world, unit) action" where
  "db_exec f = db_stmt (\<lambda>w. (Inr (), f w))"

definition rollback :: "world \<Rightarrow> world \<Rightarrow> world" where
  "rollback w0 w = w0\<lparr>w_faults := w_faults w, w_ticks := w_ticks w\<rparr>"

definition db_tx :: "string \<Rightarrow> string \<Rightarrow> (world, 'a) action \<Rightarrow> (world, 'a) action" where
  "db_tx begin_msg commit_msg body w =
    (case db_exec (\<lambda>w. w) w of
       (Inl e, w1) \<Rightarrow> (Inl (Wrap begin_msg e), w1)
     | (Inr _, w1) \<Rightarrow>
         (case body w1 of
            (Inl e, w2) \<Rightarrow> (Inl e, rollback w1 w2)
          | (Inr x, w2) \<Rightarrow>
              (case db_exec (\<lambda>w. w) w2 of
                 (Inl e, w3) \<Rightarrow> (Inl (Wrap commit_msg e), rollback w1 w3)
               | (Inr _, w3) \<Rightarrow> (Inr x, w3))))"

text \<open>The tables and files of a world, without the environment's schedules.\<close>

definition store_of :: "world \<Rightarrow> world" where
  "store_of w = w\<lparr>w_faults := [], w_ticks := 0, w_clock := (\<lambda>_. 0)\<rparr>"

lemma store_of_spend_fault [simp]: "store_of (spend_fault w) = store_of w"
  by (simp add: store_of_def spend_fault_def)

lemma store_of_time_Now [simp]: "store_of (snd (time_Now w)) = store_of w"
  by (simp add: store_of_def time_Now_def)

lemma env_read_store: "env_read f w = (r, w') \<Longrightarrow> store_of w' = store_of w"
  by (auto simp: store_of_def env_read_def)

lemma db_query_cases:
  assumes "db_query f w = (r, w')"
  obtains (fault) "r = Inl driver_error" "w' = spend_fault w"
    | (ok) "r = Inr (f (spend_fault w))" "w' = spend_fault w"
proof (cases "next_fault w")
  case True
  with assms show ?thesis by (intro fault) (simp_all add: db_query_def db_stmt_def)
next
  case False
  with assms show ?thesis by (intro ok) (auto simp: db_query_def db_stmt_def)
qed

lemma db_exec_cases:
  assumes "db_exec f w = (r, w')"
  obtains (fault) "r = Inl driver_error" "w' = spend_fault w"
    | (ok) "r = Inr ()" "w' = f (spend_fault w)"
proof (cases "next_fault w")
  case True
  with assms show ?thesis by (intro fault) (simp_all add: db_exec_def db_stmt_def)
next
  case False
  with assms show ?thesis by (intro ok) (simp_all add: db_exec_def db_stmt_def)
qed

lemma store_of_rollback [simp]: "store_of (rollback w1 w2) = store_of w1"
  by (simp add: store_of_def rollback_def)

text \<open>A failed transaction changes no table and no file.\<close>

lemma db_tx_failed:
  assumes "db_tx b c body w = (Inl e, w')"
  shows "store_of w' = store_of w"
  using assms
  by (auto simp: db_tx_def db_exec_def db_stmt_def split: prod.splits sum.splits if_splits)

text \<open>A committed transaction is its body, run after one statement (\<open>BEGIN\<close>).\<close>

lemma db_tx_committed:
  assumes "db_tx b c body w = (Inr x, w')"
  obtains w2 where "body (spend_fault w) = (Inr x, w2)" "w' = spend_fault w2"
  using assms
  by (auto simp: db_tx_def db_exec_def db_stmt_def split: prod.splits sum.splits if_splits)

text \<open>Accessors see through a spent fault.\<close>

lemma spend_fault_sel [simp]:
  "w_tracks (spend_fault w) = w_tracks w" "w_track_sources (spend_fault w) = w_track_sources w"
  "w_track_aliases (spend_fault w) = w_track_aliases w"
  "w_album_alias_tracks (spend_fault w) = w_album_alias_tracks w"
  "w_artist_aliases (spend_fault w) = w_artist_aliases w"
  "w_cache_entries (spend_fault w) = w_cache_entries w" "w_playlists (spend_fault w) = w_playlists w"
  "w_playlist_tracks (spend_fault w) = w_playlist_tracks w"
  "w_annotations (spend_fault w) = w_annotations w" "w_play_queues (spend_fault w) = w_play_queues w"
  "w_play_queue_tracks (spend_fault w) = w_play_queue_tracks w" "w_users (spend_fault w) = w_users w"
  "w_user_permissions (spend_fault w) = w_user_permissions w"
  "w_transfer_settings (spend_fault w) = w_transfer_settings w"
  "w_pinned_tracks (spend_fault w) = w_pinned_tracks w" "w_audit_log (spend_fault w) = w_audit_log w"
  "w_blobs (spend_fault w) = w_blobs w" "w_clock (spend_fault w) = w_clock w"
  "w_ticks (spend_fault w) = w_ticks w"
  by (simp_all add: spend_fault_def)

lemma store_of_sel [simp]:
  "w_tracks (store_of w) = w_tracks w" "w_track_sources (store_of w) = w_track_sources w"
  "w_track_aliases (store_of w) = w_track_aliases w"
  "w_album_alias_tracks (store_of w) = w_album_alias_tracks w"
  "w_artist_aliases (store_of w) = w_artist_aliases w"
  "w_cache_entries (store_of w) = w_cache_entries w" "w_playlists (store_of w) = w_playlists w"
  "w_playlist_tracks (store_of w) = w_playlist_tracks w"
  "w_annotations (store_of w) = w_annotations w" "w_play_queues (store_of w) = w_play_queues w"
  "w_play_queue_tracks (store_of w) = w_play_queue_tracks w" "w_users (store_of w) = w_users w"
  "w_user_permissions (store_of w) = w_user_permissions w"
  "w_transfer_settings (store_of w) = w_transfer_settings w"
  "w_pinned_tracks (store_of w) = w_pinned_tracks w" "w_audit_log (store_of w) = w_audit_log w"
  "w_blobs (store_of w) = w_blobs w"
  by (simp_all add: store_of_def)

text \<open>\<open>store_of w' = store_of w\<close> gives the equality of every table.\<close>

lemma store_of_eq_tables:
  assumes "store_of w' = store_of w"
  shows
    "w_tracks w' = w_tracks w" "w_track_sources w' = w_track_sources w"
    "w_track_aliases w' = w_track_aliases w" "w_album_alias_tracks w' = w_album_alias_tracks w"
    "w_artist_aliases w' = w_artist_aliases w" "w_cache_entries w' = w_cache_entries w"
    "w_playlists w' = w_playlists w" "w_playlist_tracks w' = w_playlist_tracks w"
    "w_annotations w' = w_annotations w" "w_play_queues w' = w_play_queues w"
    "w_play_queue_tracks w' = w_play_queue_tracks w" "w_users w' = w_users w"
    "w_user_permissions w' = w_user_permissions w"
    "w_transfer_settings w' = w_transfer_settings w" "w_pinned_tracks w' = w_pinned_tracks w"
    "w_audit_log w' = w_audit_log w" "w_blobs w' = w_blobs w"
  using assms [THEN arg_cong, of w_tracks] assms [THEN arg_cong, of w_track_sources] assms [THEN arg_cong, of w_track_aliases]
    assms [THEN arg_cong, of w_album_alias_tracks] assms [THEN arg_cong, of w_artist_aliases]
    assms [THEN arg_cong, of w_cache_entries] assms [THEN arg_cong, of w_playlists]
    assms [THEN arg_cong, of w_playlist_tracks] assms [THEN arg_cong, of w_annotations]
    assms [THEN arg_cong, of w_play_queues] assms [THEN arg_cong, of w_play_queue_tracks]
    assms [THEN arg_cong, of w_users] assms [THEN arg_cong, of w_user_permissions]
    assms [THEN arg_cong, of w_transfer_settings] assms [THEN arg_cong, of w_pinned_tracks]
    assms [THEN arg_cong, of w_audit_log] assms [THEN arg_cong, of w_blobs]
  by simp_all

section \<open>Invariants of the store\<close>

text \<open>A property that depends on the tables and files only, and how statements and transactions
  keep it.\<close>

definition store_inv :: "(world \<Rightarrow> bool) \<Rightarrow> bool" where
  "store_inv P = (\<forall>w w'. store_of w' = store_of w \<longrightarrow> P w' = P w)"

lemma store_inv_spend [simp]: "store_inv P \<Longrightarrow> P (spend_fault w) = P w"
  unfolding store_inv_def using store_of_spend_fault by blast

lemma preserves_db_query [preserving]: "store_inv P \<Longrightarrow> preserves P (db_query f)"
  by (rule preservesI) (auto simp: db_query_def db_stmt_def split: if_splits)

lemma preserves_db_exec [preserving]:
  "store_inv P \<Longrightarrow> (\<And>w. P w \<Longrightarrow> P (f w)) \<Longrightarrow> preserves P (db_exec f)"
  by (rule preservesI) (auto simp: db_exec_def db_stmt_def split: if_splits)

lemma preserves_db_stmt:
  assumes "store_inv P" "\<And>w r w'. P w \<Longrightarrow> f w = (r, w') \<Longrightarrow> P w'"
  shows "preserves P (db_stmt f)"
proof (rule preservesI)
  fix w r w' assume "P w" "db_stmt f w = (r, w')"
  then show "P w'"
    using assms(1) assms(2) [of "spend_fault w" r w'] by (cases "next_fault w") (auto simp: db_stmt_def)
qed

lemma preserves_db_tx [preserving]:
  assumes "store_inv P" "preserves P body"
  shows "preserves P (db_tx b c body)"
proof (rule preservesI)
  fix w r w' assume P: "P w" and run: "db_tx b c body w = (r, w')"
  show "P w'"
  proof (cases r)
    case (Inl e)
    with run have "store_of w' = store_of w" by (auto dest: db_tx_failed)
    with assms(1) P show ?thesis unfolding store_inv_def by blast
  next
    case (Inr x)
    then obtain w2 where b: "body (spend_fault w) = (Inr x, w2)" and w': "w' = spend_fault w2"
      using run by (auto elim: db_tx_committed)
    have "P w2" using preservesD [OF assms(2) _ b] assms(1) P by simp
    with w' assms(1) show ?thesis by simp
  qed
qed

lemma store_inv_now: "store_inv P \<Longrightarrow> P w \<Longrightarrow> P (snd (time_Now w))"
  unfolding store_inv_def using store_of_time_Now by blast

section \<open>Postconditions of statements\<close>

lemma wp_db_stmt [wp_simps]:
  "wp (db_stmt f) Q w = (if next_fault w then Q (Inl driver_error) (spend_fault w) else wp f Q (spend_fault w))"
  by (simp add: wp_def db_stmt_def)

lemma wp_db_query [wp_simps]:
  "wp (db_query f) Q w = (if next_fault w then Q (Inl driver_error) (spend_fault w) else Q (Inr (f (spend_fault w))) (spend_fault w))"
  by (simp add: wp_def db_query_def db_stmt_def)

lemma wp_db_exec [wp_simps]:
  "wp (db_exec f) Q w = (if next_fault w then Q (Inl driver_error) (spend_fault w) else Q (Inr ()) (f (spend_fault w)))"
  by (simp add: wp_def db_exec_def db_stmt_def)

text \<open>A failed transaction leaves the tables, a committed one is its body.\<close>

lemma wp_db_txI:
  assumes "\<And>e w'. store_of w' = store_of w \<Longrightarrow> Q (Inl e) w'"
    and "wp body (\<lambda>r w2. \<forall>x. r = Inr x \<longrightarrow> Q (Inr x) (spend_fault w2)) (spend_fault w)"
  shows "wp (db_tx b c body) Q w"
proof (rule wpI)
  fix r w' assume run: "db_tx b c body w = (r, w')"
  show "Q r w'"
  proof (cases r)
    case (Inl e)
    with run assms(1) db_tx_failed show ?thesis by blast
  next
    case (Inr x)
    with run obtain w2 where "body (spend_fault w) = (Inr x, w2)" "w' = spend_fault w2"
      by (blast elim: db_tx_committed)
    with assms(2) Inr show ?thesis by (auto dest: wpD)
  qed
qed

section \<open>Fault-free runs\<close>

lemma no_faults: "w_faults w = [] \<Longrightarrow> spend_fault w = w \<and> \<not> next_fault w"
  by (simp add: spend_fault_def next_fault_def)

lemma db_query_run: "w_faults w = [] \<Longrightarrow> db_query f w = (Inr (f w), w)"
  by (simp add: db_query_def db_stmt_def no_faults)

lemma db_exec_run: "w_faults w = [] \<Longrightarrow> db_exec f w = (Inr (), f w)"
  by (simp add: db_exec_def db_stmt_def no_faults)

lemma db_stmt_run: "w_faults w = [] \<Longrightarrow> db_stmt f w = f w"
  by (simp add: db_stmt_def no_faults)

lemmas run_simps = bindE_def wrapE_def ret_def fail_def liftR_def tryE_def readE_def

section \<open>Column text of times\<close>

text \<open>
  \<open>t.UTC().Format(time.RFC3339Nano)\<close>: the date and the time of day, then the fraction of the second
  without its trailing zeros, omitted when it is zero, then \<open>Z\<close>. The date follows Go's proleptic
  Gregorian calendar, by 400-year eras.
\<close>

definition pad :: "nat \<Rightarrow> nat \<Rightarrow> string" where
  "pad width n = (let s = nat_Itoa n in replicate (width - length s) (CHR ''0'') @ s)"

definition civil_from_days :: "nat \<Rightarrow> nat \<times> nat \<times> nat" where
  "civil_from_days days =
    (let z = days + 306;
         era = z div 146097;
         doe = z mod 146097;
         yoe = (doe - doe div 1460 + doe div 36524 - doe div 146096) div 365;
         doy = doe - (365 * yoe + yoe div 4 - yoe div 100);
         mp = (5 * doy + 2) div 153;
         d = doy - (153 * mp + 2) div 5 + 1;
         m = (if mp < 10 then mp + 3 else mp - 9);
         y = yoe + era * 400
     in (if m \<le> 2 then y + 1 else y, m, d))"

definition format_seconds :: "nat \<Rightarrow> string" where
  "format_seconds secs =
    (let (y, m, d) = civil_from_days (secs div 86400);
         tod = secs mod 86400
     in pad 4 y @ ''-'' @ pad 2 m @ ''-'' @ pad 2 d @ ''T'' @ pad 2 (tod div 3600) @ '':''
        @ pad 2 (tod div 60 mod 60) @ '':'' @ pad 2 (tod mod 60))"

definition format_fraction :: "nat \<Rightarrow> string" where
  "format_fraction nanos =
    (if nanos = 0 then [] else CHR ''.'' # rev (dropWhile (\<lambda>c. c = CHR ''0'') (rev (pad 9 nanos))))"

definition format_RFC3339Nano :: "time \<Rightarrow> string" where
  "format_RFC3339Nano t =
    format_seconds (nat (t div second)) @ format_fraction (nat (t mod second)) @ ''Z''"

text \<open>Nullable time columns: \<open>formatOptionalTime\<close> writes the zero time as the empty text.\<close>

definition formatOptionalTime :: "time \<Rightarrow> string" where
  "formatOptionalTime t = (if IsZero t then [] else format_RFC3339Nano t)"

text \<open>\<open>LOWER\<close> of SQLite folds the ASCII letters only.\<close>

definition sql_LOWER :: "string \<Rightarrow> string" where
  "sql_LOWER s = map (\<lambda>c. if 65 \<le> byte c \<and> byte c \<le> 90 then char_of (byte c + 32) else c) s"

section \<open>Keyed rows\<close>

text \<open>\<open>INSERT ... ON CONFLICT(key) DO UPDATE\<close>: the row of the key is replaced, or appended.\<close>

fun upsert :: "('r \<Rightarrow> 'k) \<Rightarrow> 'r \<Rightarrow> 'r list \<Rightarrow> 'r list" where
  "upsert key r [] = [r]"
| "upsert key r (x # xs) = (if key x = key r then r # xs else x # upsert key r xs)"

definition find_key :: "('r \<Rightarrow> 'k) \<Rightarrow> 'k \<Rightarrow> 'r list \<Rightarrow> 'r option" where
  "find_key key k rows = find (\<lambda>r. key r = k) rows"

lemma find_key_Nil [simp]: "find_key key k [] = None"
  by (simp add: find_key_def)

lemma find_key_Cons [simp]:
  "find_key key k (x # xs) = (if key x = k then Some x else find_key key k xs)"
  by (simp add: find_key_def)

lemma find_key_SomeD: "find_key key k rows = Some r \<Longrightarrow> r \<in> set rows \<and> key r = k"
  by (induction rows) (auto split: if_splits)

lemma find_key_None_iff: "find_key key k rows = None \<longleftrightarrow> (\<forall>r \<in> set rows. key r \<noteq> k)"
  by (induction rows) auto

lemma find_key_upsert [simp]:
  "find_key key k (upsert key r rows) = (if k = key r then Some r else find_key key k rows)"
  by (induction rows) auto

lemma map_key_upsert:
  "map key (upsert key r rows) =
    (if key r \<in> key ` set rows then map key rows else map key rows @ [key r])"
  by (induction rows) auto

lemma set_key_upsert [simp]: "key ` set (upsert key r rows) = insert (key r) (key ` set rows)"
  by (induction rows) auto

lemma set_upsert: "set (upsert key r rows) \<subseteq> insert r (set rows)"
  by (induction rows) auto

lemma upsert_ball: "P r \<Longrightarrow> \<forall>x \<in> set rows. P x \<Longrightarrow> \<forall>x \<in> set (upsert key r rows). P x"
  by (induction rows) auto

lemma distinct_upsert [simp]:
  "distinct (map key rows) \<Longrightarrow> distinct (map key (upsert key r rows))"
  by (simp add: map_key_upsert)

lemma find_key_filter_neq [simp]:
  "find_key key k (filter (\<lambda>r. key r \<noteq> k') rows) = (if k = k' then None else find_key key k rows)"
  by (induction rows) auto

lemma distinct_map_filter_key [simp]:
  "distinct (map key rows) \<Longrightarrow> distinct (map key (filter P rows))"
  by (induction rows) auto

lemma find_key_member:
  "distinct (map key rows) \<Longrightarrow> r \<in> set rows \<Longrightarrow> find_key key (key r) rows = Some r"
  by (induction rows) (auto simp: rev_image_eqI)

end
