(* ===== verification/Catalog.thy ===== *)
theory Catalog
  imports World
begin

text \<open>
  The catalog on SQL (\<open>adapters/storage/sqlite/catalog.go\<close>, \<open>catalog_management.go\<close>,
  \<open>source_writer.go\<close> and \<open>bindQuery\<close> of \<open>database.go\<close>): tracks, their sources, the identifiers under
  which a track or an album was known before, artist aliases, listings and search.

  A query is a function of the tables; \<open>ORDER BY\<close> is a stable sort, and rows that it does not
  separate come in table order. Foreign keys are enforced as the schema declares them, with
  \<open>ON DELETE CASCADE\<close> from \<open>tracks\<close>. \<open>ORDER BY RANDOM()\<close> sorts by a key per row that depends on the
  number of readings of the environment.
\<close>

section \<open>Ports\<close>

record AlbumAlias =
  alias_AliasID :: string
  alias_TrackID :: string

record Genre =
  genre_Name :: string
  genre_SongCount :: int
  genre_AlbumCount :: int

definition AlbumOrderName :: string where "AlbumOrderName = ''name''"
definition AlbumOrderArtist :: string where "AlbumOrderArtist = ''artist''"
definition AlbumOrderNewest :: string where "AlbumOrderNewest = ''newest''"
definition AlbumOrderRandom :: string where "AlbumOrderRandom = ''random''"
definition AlbumOrderYearAsc :: string where "AlbumOrderYearAsc = ''year-asc''"
definition AlbumOrderYearDesc :: string where "AlbumOrderYearDesc = ''year-desc''"

record AlbumListQuery =
  alq_Offset :: int
  alq_Limit :: int
  alq_Order :: string
  alq_FromYear :: int
  alq_ToYear :: int
  alq_Genre :: string

record RandomTracksQuery =
  rtq_Limit :: int
  rtq_Genre :: string
  rtq_FromYear :: int
  rtq_ToYear :: int

record CatalogSearch =
  cq_Text :: string
  cq_ArtistOffset :: int
  cq_ArtistCount :: int
  cq_AlbumOffset :: int
  cq_AlbumCount :: int
  cq_SongOffset :: int
  cq_SongCount :: int

record CatalogSearchResult =
  csr_Artists :: "Artist list"
  csr_Albums :: "Album list"
  csr_Songs :: "Track list"

section \<open>Placeholders\<close>

text \<open>\<open>bindQuery\<close> numbers the placeholders \<open>?\<close> outside quoted literals for PostgreSQL; the flag is
  \<open>inSingleQuote\<close>. A doubled quote inside a literal does not end it.\<close>

datatype sqlDialect = sqliteDialect | postgresDialect

abbreviation quote :: char where "quote \<equiv> CHR 0x27"

fun bind_loop :: "nat \<Rightarrow> bool \<Rightarrow> string \<Rightarrow> string" where
  "bind_loop parameter inSingleQuote [] = []"
| "bind_loop parameter inSingleQuote (character # rest) =
    (if character = quote then
       (if inSingleQuote \<and> rest \<noteq> [] \<and> hd rest = quote
        then quote # quote # bind_loop parameter inSingleQuote (tl rest)
        else quote # bind_loop parameter (\<not> inSingleQuote) rest)
     else if character = CHR ''?'' \<and> \<not> inSingleQuote
     then ''$'' @ nat_Itoa parameter @ bind_loop (Suc parameter) inSingleQuote rest
     else character # bind_loop parameter inSingleQuote rest)"

definition bindQuery :: "sqlDialect \<Rightarrow> string \<Rightarrow> string" where
  "bindQuery dialect query = (if dialect \<noteq> postgresDialect then query else bind_loop 1 False query)"

section \<open>Rows\<close>

text \<open>The row written for a track: the duration in whole milliseconds (\<open>Duration.Milliseconds\<close>
  truncates towards zero), the artist for a missing album artist.\<close>

definition milliseconds :: "duration \<Rightarrow> int" where
  "milliseconds d = sgn d * (\<bar>d\<bar> div millisecond)"

definition track_row :: "Track \<Rightarrow> Track" where
  "track_row t = t\<lparr>track_AlbumArtistID :=
       (if track_AlbumArtistID t = '''' then track_ArtistID t else track_AlbumArtistID t),
     track_Duration := milliseconds (track_Duration t) * millisecond\<rparr>"

definition upsert_track :: "Track \<Rightarrow> world \<Rightarrow> world" where
  "upsert_track t w = w\<lparr>w_tracks := upsert track_ID (track_row t) (w_tracks w)\<rparr>"

definition source_row_of :: "TrackSource \<Rightarrow> source_row" where
  "source_row_of s = \<lparr>sr_track_id = track_ID (ts_Track s), sr_provider = ref_Provider (ts_Ref s),
     sr_source_key = ref_Key (ts_Ref s), sr_discovered_at = ts_DiscoveredAt s\<rparr>"

definition source_key_of :: "source_row \<Rightarrow> string \<times> string" where
  "source_key_of r = (sr_provider r, sr_source_key r)"

text \<open>\<open>INSERT ... ON CONFLICT DO NOTHING\<close>.\<close>

definition insert_new :: "'r \<Rightarrow> 'r list \<Rightarrow> 'r list" where
  "insert_new r rows = (if r \<in> set rows then rows else rows @ [r])"

section \<open>Tracks and sources\<close>

definition resolve_track :: "world \<Rightarrow> string \<Rightarrow> string option" where
  "resolve_track w tid =
    (if tid \<in> track_ID ` set (w_tracks w) then Some tid
     else map_option snd (find_key fst tid (w_track_aliases w)))"

definition sqlite_resolveTrackID :: "string \<Rightarrow> (world, string) action" where
  "sqlite_resolveTrackID tid =
    bindE (wrapE ''resolve track ID'' (db_query (\<lambda>w. resolve_track w tid)))
      (\<lambda>row. case row of None \<Rightarrow> fail ErrNotFound | Some resolved \<Rightarrow> ret resolved)"

definition sqlite_Track :: "string \<Rightarrow> (world, Track) action" where
  "sqlite_Track tid =
    bindE (sqlite_resolveTrackID tid) (\<lambda>resolvedID.
      bindE (wrapE ''query track'' (db_query (\<lambda>w. find_key track_ID resolvedID (w_tracks w))))
        (\<lambda>row. case row of None \<Rightarrow> fail ErrNotFound | Some track \<Rightarrow> ret track))"

definition provider_rank :: "string \<Rightarrow> nat" where
  "provider_rank p = (if p = ''local'' then 0 else if p = ''torrent'' then 1
     else if p = ''soulseek'' then 2 else 3)"

definition source_row_lt :: "source_row \<Rightarrow> source_row \<Rightarrow> bool" where
  "source_row_lt a b =
    (let pa = provider_rank (sr_provider a); pb = provider_rank (sr_provider b);
         da = formatOptionalTime (sr_discovered_at a); db = formatOptionalTime (sr_discovered_at b)
     in pa < pb \<or> pa = pb \<and> (db < da \<or> da = db \<and> sr_source_key a < sr_source_key b))"

definition sqlite_Sources :: "string \<Rightarrow> (world, SourceRef list) action" where
  "sqlite_Sources trackID =
    bindE (sqlite_resolveTrackID trackID) (\<lambda>resolvedID.
      bindE (wrapE ''query track sources'' (db_query (\<lambda>w.
               SliceStable source_row_lt (filter (\<lambda>r. sr_track_id r = resolvedID) (w_track_sources w)))))
        (\<lambda>rows. if rows = [] then fail ErrNotFound
                else ret (map (\<lambda>r. \<lparr>ref_Provider = sr_provider r, ref_Key = sr_source_key r\<rparr>) rows)))"

subsection \<open>Replacing the tracks of a provider\<close>

text \<open>The first loop of \<open>ReplaceProviderTracks\<close>: \<open>previousAlbums\<close> and \<open>previousAliases\<close>.\<close>

type_synonym previous = "(string \<rightharpoonup> string) \<times> (string \<Rightarrow> string list)"

fun lookup_previous :: "string \<Rightarrow> TrackSource list \<Rightarrow> previous \<Rightarrow> (world, previous) action" where
  "lookup_previous provider [] prev = ret prev"
| "lookup_previous provider (source # rest) prev =
    (let tid = track_ID (ts_Track source) in
     bindE (wrapE ''query previous album for track'' (db_query (\<lambda>w.
              map_option track_AlbumID (find_key track_ID tid (w_tracks w)))))
       (\<lambda>album. bindE (wrapE ''query previous aliases for track'' (db_query (\<lambda>w.
              map (fst \<circ> snd) (filter (\<lambda>x. fst x = provider \<and> snd (snd x) = tid) (w_album_alias_tracks w)))))
         (\<lambda>aliases. lookup_previous provider rest
           ((case album of None \<Rightarrow> fst prev | Some a \<Rightarrow> (fst prev)(tid \<mapsto> a)),
            (snd prev)(tid := snd prev tid @ aliases)))))"

text \<open>\<open>DELETE FROM tracks WHERE NOT EXISTS\<close> a source, with the cascades of the schema.\<close>

definition orphaned :: "world \<Rightarrow> Track \<Rightarrow> bool" where
  "orphaned w t = (track_ID t \<notin> sr_track_id ` set (w_track_sources w))"

definition delete_tracks :: "string set \<Rightarrow> world \<Rightarrow> world" where
  "delete_tracks ids w = w\<lparr>w_tracks := filter (\<lambda>t. track_ID t \<notin> ids) (w_tracks w),
     w_track_sources := filter (\<lambda>s. sr_track_id s \<notin> ids) (w_track_sources w),
     w_album_alias_tracks := filter (\<lambda>x. snd (snd x) \<notin> ids) (w_album_alias_tracks w),
     w_track_aliases := filter (\<lambda>x. snd x \<notin> ids) (w_track_aliases w)\<rparr>"

definition delete_orphans :: "world \<Rightarrow> world" where
  "delete_orphans w = delete_tracks (set (map track_ID (filter (orphaned w) (w_tracks w)))) w"

text \<open>\<open>INSERT INTO track_sources\<close>: \<open>(provider, source_key)\<close> is unique, the track must exist.\<close>

definition insert_source :: "TrackSource \<Rightarrow> (world, unit) action" where
  "insert_source source = db_stmt (\<lambda>w.
     if source_key_of (source_row_of source) \<in> source_key_of ` set (w_track_sources w)
        \<or> track_ID (ts_Track source) \<notin> track_ID ` set (w_tracks w)
     then (Inl (ErrIO ''constraint''), w)
     else (Inr (), w\<lparr>w_track_sources := w_track_sources w @ [source_row_of source]\<rparr>))"

fun insert_provider_tracks ::
  "string \<Rightarrow> previous \<Rightarrow> TrackSource list \<Rightarrow> AlbumAlias list \<Rightarrow> (world, AlbumAlias list) action" where
  "insert_provider_tracks provider prev [] albumAliases = ret albumAliases"
| "insert_provider_tracks provider prev (source # rest) albumAliases =
    (let track = ts_Track source in
     if ref_Provider (ts_Ref source) \<noteq> provider then fail (Errorf ''track belongs to provider'')
     else bindE (wrapE ''insert track'' (db_exec (upsert_track track))) (\<lambda>_.
       bindE (wrapE ''insert source for track'' (insert_source source)) (\<lambda>_.
         let albumAliases1 = (case fst prev (track_ID track) of
               Some previousAlbumID \<Rightarrow>
                 if previousAlbumID \<noteq> '''' \<and> previousAlbumID \<noteq> track_AlbumID track
                 then albumAliases @ [\<lparr>alias_AliasID = previousAlbumID, alias_TrackID = track_ID track\<rparr>]
                 else albumAliases
             | None \<Rightarrow> albumAliases);
             albumAliases2 = albumAliases1 @ map (\<lambda>aliasID.
               \<lparr>alias_AliasID = aliasID, alias_TrackID = track_ID track\<rparr>) (snd prev (track_ID track))
         in insert_provider_tracks provider prev rest albumAliases2)))"

text \<open>\<open>INSERT INTO album_alias_tracks ... ON CONFLICT DO NOTHING\<close>; the track must exist.\<close>

definition insert_album_alias :: "string \<Rightarrow> string \<Rightarrow> string \<Rightarrow> (world, unit) action" where
  "insert_album_alias provider aliasID trackID = db_stmt (\<lambda>w.
     if trackID \<notin> track_ID ` set (w_tracks w) then (Inl (ErrIO ''constraint''), w)
     else (Inr (), w\<lparr>w_album_alias_tracks :=
             insert_new (provider, aliasID, trackID) (w_album_alias_tracks w)\<rparr>))"

fun insert_album_aliases :: "string \<Rightarrow> string set \<Rightarrow> AlbumAlias list \<Rightarrow> (world, unit) action" where
  "insert_album_aliases provider incoming [] = ret ()"
| "insert_album_aliases provider incoming (alias # rest) =
    (if alias_AliasID alias = '''' \<or> alias_TrackID alias = ''''
     then insert_album_aliases provider incoming rest
     else if alias_TrackID alias \<notin> incoming
     then fail (Errorf ''album alias refers to unknown provider track'')
     else bindE (wrapE ''insert album alias'' (insert_album_alias provider (alias_AliasID alias) (alias_TrackID alias)))
       (\<lambda>_. insert_album_aliases provider incoming rest))"

definition prepare :: "string \<Rightarrow> (world, unit) action" where
  "prepare msg = wrapE msg (db_exec (\<lambda>w. w))"

definition sqlite_ReplaceProviderTracks ::
  "string \<Rightarrow> TrackSource list \<Rightarrow> AlbumAlias list \<Rightarrow> (world, unit) action" where
  "sqlite_ReplaceProviderTracks provider sources albumAliases =
    db_tx ''begin catalog replacement'' ''commit catalog replacement''
      (bindE (lookup_previous provider sources (Map.empty, \<lambda>_. [])) (\<lambda>prev.
       bindE (wrapE ''clear provider album aliases'' (db_exec (\<lambda>w.
         w\<lparr>w_album_alias_tracks := filter (\<lambda>x. fst x \<noteq> provider) (w_album_alias_tracks w)\<rparr>))) (\<lambda>_.
       bindE (wrapE ''clear provider sources'' (db_exec (\<lambda>w.
         w\<lparr>w_track_sources := filter (\<lambda>s. sr_provider s \<noteq> provider) (w_track_sources w)\<rparr>))) (\<lambda>_.
       bindE (wrapE ''clear orphaned tracks'' (db_exec delete_orphans)) (\<lambda>_.
       bindE (prepare ''prepare track insert'') (\<lambda>_.
       bindE (prepare ''prepare source insert'') (\<lambda>_.
       bindE (prepare ''prepare album alias insert'') (\<lambda>_.
       bindE (insert_provider_tracks provider prev sources albumAliases) (\<lambda>aliases.
         insert_album_aliases provider (set (map (\<lambda>s. track_ID (ts_Track s)) sources)) aliases)))))))))"

subsection \<open>Updating and saving single tracks\<close>

definition sqlite_UpdateTrack :: "Track \<Rightarrow> (world, unit) action" where
  "sqlite_UpdateTrack track =
    db_tx ''begin track update'' ''commit track update''
      (bindE (wrapE ''query track before update'' (db_query (\<lambda>w. find_key track_ID (track_ID track) (w_tracks w))))
        (\<lambda>row. case row of
           None \<Rightarrow> fail ErrNotFound
         | Some previous \<Rightarrow>
             let previousAlbumID = track_AlbumID previous in
             bindE (wrapE ''update track'' (db_exec (upsert_track track))) (\<lambda>_.
               if previousAlbumID \<noteq> '''' \<and> previousAlbumID \<noteq> track_AlbumID track
               then wrapE ''preserve previous album for track'' (db_exec (\<lambda>w.
                 w\<lparr>w_album_alias_tracks := foldl (\<lambda>rows s. insert_new (sr_provider s, previousAlbumID, track_ID track) rows)
                    (w_album_alias_tracks w)
                    (filter (\<lambda>s. sr_track_id s = track_ID track) (w_track_sources w))\<rparr>))
               else ret ())))"

text \<open>\<open>INSERT INTO track_sources ... ON CONFLICT(provider, source_key) DO UPDATE\<close>.\<close>

definition saveTrackSource :: "TrackSource \<Rightarrow> (world, unit) action" where
  "saveTrackSource source =
    (if track_ID (ts_Track source) = '''' \<or> ref_Provider (ts_Ref source) = '''' \<or> ref_Key (ts_Ref source) = ''''
     then fail (Errorf ''track tid, provider, and source key are required'')
     else bindE (wrapE ''save track'' (db_exec (upsert_track (ts_Track source)))) (\<lambda>_.
       wrapE ''save source for track'' (db_stmt (\<lambda>w.
         if track_ID (ts_Track source) \<notin> track_ID ` set (w_tracks w) then (Inl (ErrIO ''constraint''), w)
         else (Inr (), w\<lparr>w_track_sources :=
                 upsert source_key_of (source_row_of source) (w_track_sources w)\<rparr>)))))"

fun save_sources :: "TrackSource list \<Rightarrow> (world, unit) action" where
  "save_sources [] = ret ()"
| "save_sources (source # rest) = bindE (saveTrackSource source) (\<lambda>_. save_sources rest)"

definition sqlite_SaveTrackSources :: "TrackSource list \<Rightarrow> (world, unit) action" where
  "sqlite_SaveTrackSources sources =
    (if sources = [] then ret ()
     else db_tx ''begin track sources save'' ''commit track sources save'' (save_sources sources))"

definition sqlite_SaveTrackSource :: "TrackSource \<Rightarrow> (world, unit) action" where
  "sqlite_SaveTrackSource source = sqlite_SaveTrackSources [source]"

definition sqlite_SaveTrackAlias :: "string \<Rightarrow> string \<Rightarrow> (world, unit) action" where
  "sqlite_SaveTrackAlias aliasID trackID =
    (if aliasID = '''' \<or> trackID = '''' \<or> aliasID = trackID then ret ()
     else wrapE ''save track alias'' (db_stmt (\<lambda>w.
       if trackID \<notin> track_ID ` set (w_tracks w) then (Inl (ErrIO ''constraint''), w)
       else (Inr (), w\<lparr>w_track_aliases := upsert fst (aliasID, trackID) (w_track_aliases w)\<rparr>))))"

section \<open>Artists\<close>

text \<open>The common table expressions \<open>artist_roles\<close> and \<open>resolved_roles\<close>: rows (id, name, album).\<close>

definition artist_roles :: "world \<Rightarrow> (string \<times> string \<times> string) list" where
  "artist_roles w =
    map (\<lambda>t. (track_AlbumArtistID t, track_AlbumArtist t, track_AlbumID t)) (w_tracks w)
    @ map (\<lambda>t. (track_ArtistID t, track_Artist t, track_AlbumID t)) (w_tracks w)"

definition resolve_role :: "world \<Rightarrow> string \<times> string \<times> string \<Rightarrow> string \<times> string \<times> string" where
  "resolve_role w = (\<lambda>(i, name, album).
     case find_key aa_AliasID i (w_artist_aliases w) of
       None \<Rightarrow> (i, name, album)
     | Some a \<Rightarrow> (aa_TargetID a, aa_TargetName a, album))"

definition resolved_roles :: "world \<Rightarrow> (string \<times> string \<times> string) list" where
  "resolved_roles w = map (resolve_role w) (artist_roles w)"

definition minimum :: "'a::linorder list \<Rightarrow> 'a" where
  "minimum xs = foldr min (tl xs) (hd xs)"

text \<open>\<open>SELECT id, MIN(name), COUNT(DISTINCT album_id) ... GROUP BY id\<close>, one group.\<close>

definition artist_group :: "(string \<times> string \<times> string) list \<Rightarrow> string \<Rightarrow> Artist" where
  "artist_group roles i =
    (let rows = filter (\<lambda>(j, _, _). j = i) roles
     in \<lparr>artist_ID = i, artist_Name = minimum (map (\<lambda>(_, n, _). n) rows),
         artist_AlbumCount = int (length (remdups (map (\<lambda>(_, _, a). a) rows)))\<rparr>)"

definition artist_list :: "world \<Rightarrow> Artist list" where
  "artist_list w =
    SliceStable (\<lambda>a b. sql_LOWER (artist_Name a) < sql_LOWER (artist_Name b))
      (map (artist_group (resolved_roles w)) (remdups (map fst (resolved_roles w))))"

definition sqlite_Artists :: "(world, Artist list) action" where
  "sqlite_Artists = wrapE ''query artists'' (db_query artist_list)"

definition resolve_artist :: "world \<Rightarrow> string \<Rightarrow> string option" where
  "resolve_artist w i =
    (if i \<in> set (map track_ArtistID (w_tracks w)) \<union> set (map track_AlbumArtistID (w_tracks w))
        \<or> list_ex (\<lambda>a. aa_AliasID a = i \<or> aa_TargetID a = i) (w_artist_aliases w)
     then Some (case find_key aa_AliasID i (w_artist_aliases w) of None \<Rightarrow> i | Some a \<Rightarrow> aa_TargetID a)
     else None)"

definition sqlite_resolveArtistID :: "string \<Rightarrow> (world, string) action" where
  "sqlite_resolveArtistID i =
    bindE (wrapE ''resolve artist ID'' (db_query (\<lambda>w. resolve_artist w i)))
      (\<lambda>row. case row of None \<Rightarrow> fail ErrNotFound | Some resolved \<Rightarrow> ret resolved)"

definition sqlite_Artist :: "string \<Rightarrow> (world, Artist) action" where
  "sqlite_Artist i =
    bindE (sqlite_resolveArtistID i) (\<lambda>resolvedID.
      bindE (wrapE ''query artist'' (db_query (\<lambda>w.
          if list_ex (\<lambda>(j, _, _). j = resolvedID) (resolved_roles w)
          then Some (artist_group (resolved_roles w) resolvedID) else None)))
        (\<lambda>row. case row of None \<Rightarrow> fail ErrNotFound | Some artist \<Rightarrow> ret artist))"

definition sqlite_ArtistAliases :: "(world, ArtistAlias list) action" where
  "sqlite_ArtistAliases = wrapE ''query artist aliases'' (db_query (\<lambda>w.
     SliceStable (\<lambda>a b. sql_LOWER (aa_AliasName a) < sql_LOWER (aa_AliasName b)) (w_artist_aliases w)))"

text \<open>\<open>ON CONFLICT(alias_id) DO UPDATE\<close> changes the target only; the schema checks
  \<open>alias_id <> target_id\<close>.\<close>

definition upsert_artist_alias :: "ArtistAlias \<Rightarrow> (world, unit) action" where
  "upsert_artist_alias a = db_stmt (\<lambda>w.
     if aa_AliasID a = aa_TargetID a then (Inl (ErrIO ''constraint''), w)
     else (Inr (), w\<lparr>w_artist_aliases :=
       upsert aa_AliasID
         (case find_key aa_AliasID (aa_AliasID a) (w_artist_aliases w) of
            None \<Rightarrow> a
          | Some old \<Rightarrow> old\<lparr>aa_TargetID := aa_TargetID a, aa_TargetName := aa_TargetName a\<rparr>)
         (w_artist_aliases w)\<rparr>))"

definition sqlite_SetArtistAlias :: "string \<Rightarrow> string \<Rightarrow> (world, ArtistAlias) action" where
  "sqlite_SetArtistAlias alias0 target0 =
    (let aliasID = TrimSpace alias0; targetID = TrimSpace target0 in
     if aliasID = '''' \<or> targetID = '''' \<or> aliasID = targetID
     then fail (Errorf ''artist alias and target must be different'')
     else bindE (sqlite_Artist aliasID) (\<lambda>alias.
       bindE (sqlite_resolveArtistID targetID) (\<lambda>targetID.
         if artist_ID alias = targetID then fail (Errorf ''artist alias cycle'')
         else bindE (sqlite_Artist targetID) (\<lambda>target.
           readE time_Now (\<lambda>createdAt.
             let a = \<lparr>aa_AliasID = aliasID, aa_AliasName = artist_Name alias, aa_TargetID = artist_ID target,
                      aa_TargetName = artist_Name target, aa_CreatedAt = createdAt\<rparr>
             in bindE (wrapE ''save artist alias'' (upsert_artist_alias a)) (\<lambda>_. ret a))))))"

definition sqlite_DeleteArtistAlias :: "string \<Rightarrow> (world, unit) action" where
  "sqlite_DeleteArtistAlias aliasID =
    bindE (wrapE ''delete artist alias'' (db_stmt (\<lambda>w.
        (Inr (length (filter (\<lambda>a. aa_AliasID a = aliasID) (w_artist_aliases w))),
         w\<lparr>w_artist_aliases := filter (\<lambda>a. aa_AliasID a \<noteq> aliasID) (w_artist_aliases w)\<rparr>))))
      (\<lambda>deleted. if deleted = 0 then fail ErrNotFound else ret ())"

section \<open>Genres, albums and tracks\<close>

definition sqlite_Genres :: "(world, Genre list) action" where
  "sqlite_Genres = wrapE ''query genres'' (db_query (\<lambda>w.
     let rows = filter (\<lambda>t. track_Genre t \<noteq> '''') (w_tracks w);
         group = (\<lambda>g. let ts = filter (\<lambda>t. sql_LOWER (track_Genre t) = g) rows
                      in \<lparr>genre_Name = minimum (map track_Genre ts), genre_SongCount = int (length ts),
                          genre_AlbumCount = int (length (remdups (map track_AlbumID ts)))\<rparr>)
     in SliceStable (\<lambda>a b. sql_LOWER (genre_Name a) < sql_LOWER (genre_Name b))
          (map group (remdups (map (\<lambda>t. sql_LOWER (track_Genre t)) rows)))))"

text \<open>\<open>MIN(NULLIF(column, empty))\<close>: the least value that is not empty, or \<open>NULL\<close> (scanned as empty).\<close>

definition min_present :: "'a::linorder \<Rightarrow> 'a list \<Rightarrow> 'a" where
  "min_present absent xs = (let ys = filter (\<lambda>x. x \<noteq> absent) xs in if ys = [] then absent else minimum ys)"

definition album_of_rows :: "string \<Rightarrow> (string \<times> string) list \<Rightarrow> Track list \<Rightarrow> Album" where
  "album_of_rows i artists ts = \<lparr>album_ID = i, album_Name = minimum (map track_Album ts),
     album_Artist = minimum (map fst artists), album_ArtistID = minimum (map snd artists),
     album_Year = min_present 0 (map track_Year ts), album_Genre = min_present '''' (map track_Genre ts),
     album_SongCount = int (length ts), album_Duration = sum_list (map track_Duration ts),
     album_CoverArtID = min_present '''' (map track_CoverArtID ts)\<rparr>"

definition album_group :: "world \<Rightarrow> string \<Rightarrow> Album" where
  "album_group w i = (let ts = filter (\<lambda>t. track_AlbumID t = i) (w_tracks w)
     in album_of_rows i (map (\<lambda>t. (track_AlbumArtist t, track_AlbumArtistID t)) ts) ts)"

definition album_discovered :: "world \<Rightarrow> string \<Rightarrow> string" where
  "album_discovered w i = (let ids = map track_ID (filter (\<lambda>t. track_AlbumID t = i) (w_tracks w))
     in foldr max (map (\<lambda>s. formatOptionalTime (sr_discovered_at s))
          (filter (\<lambda>s. sr_track_id s \<in> set ids) (w_track_sources w))) '''')"

text \<open>SQL paging: a negative \<open>LIMIT\<close> is no limit, a negative \<open>OFFSET\<close> is zero.\<close>

definition sql_page :: "int \<Rightarrow> int \<Rightarrow> 'a list \<Rightarrow> 'a list" where
  "sql_page limit offset xs =
    (let ys = drop (nat offset) xs in if limit < 0 then ys else take (nat limit) ys)"

definition lower_lt :: "string \<Rightarrow> string \<Rightarrow> bool" where
  "lower_lt a b = (sql_LOWER a < sql_LOWER b)"

definition lower_eq :: "string \<Rightarrow> string \<Rightarrow> bool" where
  "lower_eq a b = (sql_LOWER a = sql_LOWER b)"

definition album_lt :: "world \<Rightarrow> string \<Rightarrow> Album \<Rightarrow> Album \<Rightarrow> bool" where
  "album_lt w order a b =
    (let by_name = lower_lt (album_Name a) (album_Name b);
         da = album_discovered w (album_ID a); db = album_discovered w (album_ID b)
     in if order = AlbumOrderArtist then
          lower_lt (album_Artist a) (album_Artist b) \<or> lower_eq (album_Artist a) (album_Artist b) \<and> by_name
        else if order = AlbumOrderNewest then db < da \<or> da = db \<and> by_name
        else if order = AlbumOrderYearAsc then album_Year a < album_Year b \<or> album_Year a = album_Year b \<and> by_name
        else if order = AlbumOrderYearDesc then album_Year b < album_Year a \<or> album_Year a = album_Year b \<and> by_name
        else by_name \<or> lower_eq (album_Name a) (album_Name b) \<and> lower_lt (album_Artist a) (album_Artist b))"

text \<open>\<open>ORDER BY RANDOM()\<close>: \<open>rnd n i\<close> is the key of row \<open>i\<close> in the query after \<open>n\<close> readings.\<close>

definition random_order :: "(nat \<Rightarrow> nat \<Rightarrow> int) \<Rightarrow> world \<Rightarrow> 'a list \<Rightarrow> 'a list" where
  "random_order rnd w xs = map snd (SliceStable (\<lambda>a b. fst a < fst b)
     (map (\<lambda>i. (rnd (w_ticks w) i, xs ! i)) [0..<length xs]))"

definition known_album_order :: "string \<Rightarrow> bool" where
  "known_album_order order = (order \<in> {'''', AlbumOrderName, AlbumOrderArtist, AlbumOrderNewest,
     AlbumOrderRandom, AlbumOrderYearAsc, AlbumOrderYearDesc})"

definition sqlite_Albums :: "(nat \<Rightarrow> nat \<Rightarrow> int) \<Rightarrow> AlbumListQuery \<Rightarrow> (world, Album list) action" where
  "sqlite_Albums rnd query =
    (if \<not> known_album_order (alq_Order query) then fail (Errorf ''unsupported album order'')
     else wrapE ''query all albums'' (db_query (\<lambda>w.
       let albums = map (album_group w) (remdups (map track_AlbumID (w_tracks w)));
           lower = min (alq_FromYear query) (alq_ToYear query);
           upper = max (alq_FromYear query) (alq_ToYear query);
           year_ok = (\<lambda>a. alq_FromYear query = 0 \<and> alq_ToYear query = 0
             \<or> album_Year a \<noteq> 0 \<and> lower \<le> album_Year a \<and> album_Year a \<le> upper);
           genre_ok = (\<lambda>a. alq_Genre query = '''' \<or> list_ex (\<lambda>t. track_AlbumID t = album_ID a
             \<and> lower_eq (track_Genre t) (alq_Genre query)) (w_tracks w));
           rows = filter (\<lambda>a. year_ok a \<and> genre_ok a) albums;
           ordered = (if alq_Order query = AlbumOrderRandom then random_order rnd w rows
                      else SliceStable (album_lt w (alq_Order query)) rows)
       in sql_page (alq_Limit query) (alq_Offset query) ordered)))"

text \<open>\<open>COALESCE(artist_aliases.target_id, ...)\<close> after a left join on the aliases.\<close>

definition alias_or :: "world \<Rightarrow> (ArtistAlias \<Rightarrow> string) \<Rightarrow> string \<Rightarrow> string \<Rightarrow> string" where
  "alias_or w sel i own =
    (case find_key aa_AliasID i (w_artist_aliases w) of None \<Rightarrow> own | Some a \<Rightarrow> sel a)"

definition sqlite_AlbumsByArtist :: "string \<Rightarrow> (world, Album list) action" where
  "sqlite_AlbumsByArtist artist0 =
    bindE (sqlite_resolveArtistID artist0) (\<lambda>artistID.
      wrapE ''query albums'' (db_query (\<lambda>w.
        let matches = (\<lambda>t. alias_or w aa_TargetID (track_AlbumArtistID t) (track_AlbumArtistID t) = artistID
              \<or> alias_or w aa_TargetID (track_ArtistID t) (track_ArtistID t) = artistID);
            ids = remdups (map track_AlbumID (filter matches (w_tracks w)));
            group = (\<lambda>i. let ts = filter (\<lambda>t. track_AlbumID t = i) (w_tracks w) in
              album_of_rows i (map (\<lambda>t. (alias_or w aa_TargetName (track_AlbumArtistID t) (track_AlbumArtist t),
                alias_or w aa_TargetID (track_AlbumArtistID t) (track_AlbumArtistID t))) ts) ts)
        in SliceStable (\<lambda>a b. lower_lt (album_Name a) (album_Name b)) (map group ids))))"

definition album_track_lt :: "Track \<Rightarrow> Track \<Rightarrow> bool" where
  "album_track_lt a b =
    (track_DiscNumber a < track_DiscNumber b \<or> track_DiscNumber a = track_DiscNumber b
      \<and> (track_TrackNumber a < track_TrackNumber b \<or> track_TrackNumber a = track_TrackNumber b
         \<and> lower_lt (track_Title a) (track_Title b)))"

definition tracksByCanonicalAlbum :: "string \<Rightarrow> (world, Track list) action" where
  "tracksByCanonicalAlbum albumID = wrapE ''query album tracks'' (db_query (\<lambda>w.
     SliceStable album_track_lt (filter (\<lambda>t. track_AlbumID t = albumID) (w_tracks w))))"

definition sqlite_TracksByAlbum :: "string \<Rightarrow> (world, Track list) action" where
  "sqlite_TracksByAlbum albumID =
    bindE (tracksByCanonicalAlbum albumID) (\<lambda>tracks.
      if tracks \<noteq> [] then ret tracks
      else wrapE ''query album alias tracks'' (db_query (\<lambda>w.
        SliceStable album_track_lt (filter (\<lambda>t.
          list_ex (\<lambda>(p, a, i). a = albumID \<and> i = track_ID t) (w_album_alias_tracks w)) (w_tracks w)))))"

definition genre_track_lt :: "Track \<Rightarrow> Track \<Rightarrow> bool" where
  "genre_track_lt a b = (lower_lt (track_Album a) (track_Album b)
     \<or> lower_eq (track_Album a) (track_Album b) \<and> album_track_lt a b)"

definition sqlite_TracksByGenre :: "string \<Rightarrow> int \<Rightarrow> int \<Rightarrow> (world, Track list) action" where
  "sqlite_TracksByGenre genre offset limit = wrapE ''query genre tracks'' (db_query (\<lambda>w.
     sql_page limit offset (SliceStable genre_track_lt
       (filter (\<lambda>t. lower_eq (track_Genre t) genre) (w_tracks w)))))"

definition sqlite_RandomTracks :: "(nat \<Rightarrow> nat \<Rightarrow> int) \<Rightarrow> RandomTracksQuery \<Rightarrow> (world, Track list) action" where
  "sqlite_RandomTracks rnd query = wrapE ''query random tracks'' (db_query (\<lambda>w.
     sql_page (rtq_Limit query) 0 (random_order rnd w (filter (\<lambda>t.
        (rtq_Genre query = '''' \<or> lower_eq (track_Genre t) (rtq_Genre query))
        \<and> (rtq_FromYear query = 0 \<or> rtq_FromYear query \<le> track_Year t)
        \<and> (rtq_ToYear query = 0 \<or> track_Year t \<le> rtq_ToYear query)) (w_tracks w)))))"

section \<open>Search\<close>

definition allTracks :: "(world, Track list) action" where
  "allTracks = wrapE ''query all tracks'' (db_query (\<lambda>w.
     SliceStable (\<lambda>a b. lower_lt (track_Title a) (track_Title b)
       \<or> lower_eq (track_Title a) (track_Title b) \<and> lower_lt (track_Artist a) (track_Artist b)) (w_tracks w)))"

definition strings_Contains :: "string \<Rightarrow> string \<Rightarrow> bool" where
  "strings_Contains s sub = list_ex (\<lambda>n. HasPrefix (drop n s) sub) [0..<Suc (length s)]"

definition containsFolded :: "unicode_tables \<Rightarrow> string \<Rightarrow> string \<Rightarrow> bool" where
  "containsFolded uc v foldedNeedle =
    (foldedNeedle = '''' \<or> strings_Contains (ToLower uc v) foldedNeedle)"

text \<open>\<open>filter[T]\<close> is \<open>filter\<close>; \<open>page[T]\<close> adds its bounds as \<open>int\<close> (64 bits), which may wrap around.\<close>

definition page :: "'a list \<Rightarrow> int \<Rightarrow> int \<Rightarrow> 'a list" where
  "page items offset cnt =
    (if offset < 0 \<or> cnt \<le> 0 \<or> int (length items) \<le> offset then []
     else let end0 = i64 (offset + cnt);
              end1 = (if end0 < offset \<or> int (length items) < end0 then int (length items) else end0)
          in drop (nat offset) (take (nat end1) items))"

definition sqlite_Search ::
  "unicode_tables \<Rightarrow> (nat \<Rightarrow> nat \<Rightarrow> int) \<Rightarrow> CatalogSearch \<Rightarrow> (world, CatalogSearchResult) action" where
  "sqlite_Search uc rnd query =
    bindE sqlite_Artists (\<lambda>artists.
      bindE (sqlite_Albums rnd \<lparr>alq_Offset = 0, alq_Limit = 2 ^ 63 - 1, alq_Order = '''',
               alq_FromYear = 0, alq_ToYear = 0, alq_Genre = ''''\<rparr>) (\<lambda>albums.
        bindE allTracks (\<lambda>songs.
          let needle = ToLower uc (TrimSpace (cq_Text query));
              matchingArtists = filter (\<lambda>a. containsFolded uc (artist_Name a) needle) artists;
              matchingAlbums = filter (\<lambda>a. containsFolded uc (album_Name a) needle
                \<or> containsFolded uc (album_Artist a) needle) albums;
              matchingSongs = filter (\<lambda>s. containsFolded uc (track_Title s) needle
                \<or> containsFolded uc (track_Artist s) needle \<or> containsFolded uc (track_Album s) needle) songs
          in ret \<lparr>csr_Artists = page matchingArtists (cq_ArtistOffset query) (cq_ArtistCount query),
                  csr_Albums = page matchingAlbums (cq_AlbumOffset query) (cq_AlbumCount query),
                  csr_Songs = page matchingSongs (cq_SongOffset query) (cq_SongCount query)\<rparr>)))"

section \<open>Editing metadata\<close>

text \<open>\<open>applyText\<close> on one field.\<close>

definition applyText :: "string \<Rightarrow> string option \<Rightarrow> string result" where
  "applyText target v = (case v of
     None \<Rightarrow> Inr target
   | Some s \<Rightarrow> let clean = TrimSpace s in
       if clean = '''' then Inl (Errorf ''metadata values cannot be empty'') else Inr clean)"

definition applyNumber :: "int \<Rightarrow> int option \<Rightarrow> int result" where
  "applyNumber target v = (case v of
     None \<Rightarrow> Inr target
   | Some n \<Rightarrow> if n < 0 then Inl (Errorf ''metadata numbers cannot be negative'') else Inr n)"

text \<open>The two loops of \<open>UpdateTrackMetadata\<close> run over Go maps, in no fixed order; the fields are
  independent and all errors of a loop are the same.\<close>

definition apply_patch :: "text_env \<Rightarrow> Track \<Rightarrow> TrackMetadataPatch \<Rightarrow> (world, Track) action" where
  "apply_patch env track patch =
    bindE (liftR (applyText (track_Title track) (patch_Title patch))) (\<lambda>title.
     bindE (liftR (applyText (track_Artist track) (patch_Artist patch))) (\<lambda>artist.
      bindE (liftR (applyText (track_Album track) (patch_Album patch))) (\<lambda>album.
       bindE (liftR (applyText (track_AlbumArtist track) (patch_AlbumArtist patch))) (\<lambda>albumArtist.
        let genre = (case patch_Genre patch of None \<Rightarrow> track_Genre track | Some g \<Rightarrow> TrimSpace g) in
        bindE (liftR (applyNumber (track_Year track) (patch_Year patch))) (\<lambda>year.
         bindE (liftR (applyNumber (track_TrackNumber track) (patch_TrackNumber patch))) (\<lambda>trackNumber.
          bindE (liftR (applyNumber (track_DiscNumber track) (patch_DiscNumber patch))) (\<lambda>discNumber.
           let albumArtist = (if albumArtist = '''' then artist else albumArtist) in
           ret (track\<lparr>track_Title := title, track_Artist := artist, track_Album := album,
             track_AlbumArtist := albumArtist, track_Genre := genre, track_Year := year,
             track_TrackNumber := trackNumber, track_DiscNumber := discNumber,
             track_ArtistID := CanonicalArtistID env artist,
             track_AlbumArtistID := CanonicalArtistID env albumArtist,
             track_AlbumID := CanonicalAlbumID env albumArtist album\<rparr>))))))))"

definition sqlite_UpdateTrackMetadata ::
  "text_env \<Rightarrow> string \<Rightarrow> TrackMetadataPatch \<Rightarrow> (world, Track) action" where
  "sqlite_UpdateTrackMetadata env i patch =
    bindE (sqlite_Track i) (\<lambda>track.
      bindE (apply_patch env track patch) (\<lambda>track'.
        bindE (sqlite_UpdateTrack track') (\<lambda>_. ret track')))"

section \<open>The invariant of the catalog tables\<close>

text \<open>Primary keys, unique keys, foreign keys and the check of \<open>artist_aliases\<close>.\<close>

definition wf_catalog :: "world \<Rightarrow> bool" where
  "wf_catalog w =
    (distinct (map track_ID (w_tracks w))
     \<and> distinct (map source_key_of (w_track_sources w))
     \<and> (\<forall>s \<in> set (w_track_sources w). sr_track_id s \<in> track_ID ` set (w_tracks w))
     \<and> distinct (map fst (w_track_aliases w))
     \<and> (\<forall>x \<in> set (w_track_aliases w). snd x \<in> track_ID ` set (w_tracks w))
     \<and> (\<forall>x \<in> set (w_album_alias_tracks w). snd (snd x) \<in> track_ID ` set (w_tracks w))
     \<and> distinct (map aa_AliasID (w_artist_aliases w))
     \<and> (\<forall>a \<in> set (w_artist_aliases w). aa_AliasID a \<noteq> aa_TargetID a))"

lemma wf_catalog_store [intro!, simp]: "store_inv wf_catalog"
  unfolding store_inv_def
proof (intro allI impI)
  fix w w' assume s: "store_of w' = store_of w"
  show "wf_catalog w' = wf_catalog w" unfolding wf_catalog_def store_of_eq_tables [OF s] by (rule refl)
qed

lemma track_row_ID [simp]: "track_ID (track_row t) = track_ID t"
  by (simp add: track_row_def)

lemma upsert_track_wf: "wf_catalog w \<Longrightarrow> wf_catalog (upsert_track t w)"
  by (auto simp: wf_catalog_def upsert_track_def)

lemma set_insert_new [simp]: "set (insert_new r rows) = insert r (set rows)"
  by (auto simp: insert_new_def)

lemma wf_filter_tables:
  assumes "wf_catalog w"
  shows "wf_catalog (w\<lparr>w_album_alias_tracks := filter P (w_album_alias_tracks w)\<rparr>)"
    "wf_catalog (w\<lparr>w_track_sources := filter Q (w_track_sources w)\<rparr>)"
    "wf_catalog (w\<lparr>w_artist_aliases := filter R (w_artist_aliases w)\<rparr>)"
  using assms by (auto simp: wf_catalog_def)

lemma delete_tracks_wf:
  assumes "wf_catalog w"
  shows "wf_catalog (delete_tracks ids w)"
proof -
  have "i \<in> track_ID ` set (filter (\<lambda>t. track_ID t \<notin> ids) (w_tracks w)) \<longleftrightarrow> i \<in> track_ID ` set (w_tracks w) \<and> i \<notin> ids" for i
    by auto
  with assms show ?thesis by (simp add: wf_catalog_def delete_tracks_def)
qed

lemma delete_orphans_wf: "wf_catalog w \<Longrightarrow> wf_catalog (delete_orphans w)"
  unfolding delete_orphans_def by (rule delete_tracks_wf)

lemma insert_source_wf [preserving]: "preserves wf_catalog (insert_source s)"
  unfolding insert_source_def
  by (rule preserves_db_stmt)
    (auto simp: wf_catalog_def source_row_of_def split: if_splits)

lemma insert_album_alias_wf [preserving]: "preserves wf_catalog (insert_album_alias p a t)"
  unfolding insert_album_alias_def
  by (rule preserves_db_stmt) (auto simp: wf_catalog_def split: if_splits)

lemma lookup_previous_wf [preserving]:
  "store_inv P \<Longrightarrow> preserves P (lookup_previous provider sources prev)"
  by (induction provider sources prev rule: lookup_previous.induct)
    (simp_all add: Let_def preserves_ret preserves_bindE preserves_wrapE preserves_db_query)

lemma insert_provider_tracks_wf [preserving]:
  "preserves wf_catalog (insert_provider_tracks provider prev sources aliases)"
  by (induction provider prev sources aliases rule: insert_provider_tracks.induct)
    (auto simp: Let_def intro!: preserving upsert_track_wf)

lemma insert_album_aliases_wf [preserving]:
  "preserves wf_catalog (insert_album_aliases provider incoming aliases)"
  by (induction provider incoming aliases rule: insert_album_aliases.induct) (auto intro!: preserving)

lemma prepare_wf [preserving]: "store_inv P \<Longrightarrow> preserves P (prepare msg)"
  unfolding prepare_def by (intro preserving)

lemma save_sources_wf [preserving]: "preserves wf_catalog (save_sources sources)"
proof (induction sources rule: save_sources.induct)
  case (2 source rest)
  have up: "wf_catalog (w\<lparr>w_track_sources := upsert source_key_of (source_row_of source) (w_track_sources w)\<rparr>)"
    if "wf_catalog w" "track_ID (ts_Track source) \<in> track_ID ` set (w_tracks w)" for w
  proof -
    have "\<forall>s \<in> set (upsert source_key_of (source_row_of source) (w_track_sources w)). sr_track_id s \<in> track_ID ` set (w_tracks w)"
      using that by (intro upsert_ball) (simp_all add: wf_catalog_def source_row_of_def)
    with that show ?thesis by (simp add: wf_catalog_def)
  qed
  have "preserves wf_catalog (saveTrackSource source)"
    unfolding saveTrackSource_def
    by (intro preserving upsert_track_wf preserves_db_stmt wf_catalog_store) (auto split: if_splits intro: up)
  with 2 show ?case by (simp add: preserves_bindE)
qed (simp add: preserves_ret)

lemma upsert_artist_alias_wf [preserving]: "preserves wf_catalog (upsert_artist_alias a)"
  unfolding upsert_artist_alias_def
proof (intro preserves_db_stmt wf_catalog_store)
  fix w :: world and r w'
  let ?new = "case find_key aa_AliasID (aa_AliasID a) (w_artist_aliases w) of
      None \<Rightarrow> a | Some old \<Rightarrow> old\<lparr>aa_TargetID := aa_TargetID a, aa_TargetName := aa_TargetName a\<rparr>"
  assume wf: "wf_catalog w" and run: "(if aa_AliasID a = aa_TargetID a then (Inl (ErrIO ''constraint''), w)
     else (Inr (), w\<lparr>w_artist_aliases := upsert aa_AliasID ?new (w_artist_aliases w)\<rparr>)) = (r, w')"
  have new: "aa_AliasID ?new = aa_AliasID a" "aa_TargetID ?new = aa_TargetID a"
    by (auto split: option.splits dest: find_key_SomeD)
  show "wf_catalog w'"
  proof (cases "aa_AliasID a = aa_TargetID a")
    case True
    then show ?thesis using run wf by auto
  next
    case False
    then have "w' = w\<lparr>w_artist_aliases := upsert aa_AliasID ?new (w_artist_aliases w)\<rparr>" using run by simp
    moreover have "\<forall>x \<in> set (upsert aa_AliasID ?new (w_artist_aliases w)). aa_AliasID x \<noteq> aa_TargetID x"
      using wf False new by (intro upsert_ball) (simp_all add: wf_catalog_def)
    ultimately show ?thesis using wf by (simp add: wf_catalog_def)
  qed
qed

lemma set_foldl_insert_new [simp]:
  "set (foldl (\<lambda>rows s. insert_new (g s) rows) rows ss) = set rows \<union> g ` set ss"
  by (induction ss arbitrary: rows) auto

lemma update_track_alias_wf:
  assumes "wf_catalog w"
  shows "wf_catalog (w\<lparr>w_album_alias_tracks :=
    foldl (\<lambda>rows s. insert_new (sr_provider s, a, i) rows) (w_album_alias_tracks w)
      (filter (\<lambda>s. sr_track_id s = i) (w_track_sources w))\<rparr>)"
proof -
  have "\<forall>x \<in> (\<lambda>s. (sr_provider s, a, i)) ` set (filter (\<lambda>s. sr_track_id s = i) (w_track_sources w)).
      snd (snd x) \<in> track_ID ` set (w_tracks w)"
    using assms by (auto simp: wf_catalog_def)
  with assms show ?thesis unfolding wf_catalog_def by (simp add: ball_Un)
qed

lemma sqlite_UpdateTrack_wf [preserving]: "preserves wf_catalog (sqlite_UpdateTrack t)"
  unfolding sqlite_UpdateTrack_def
  by (intro preserving wf_catalog_store upsert_track_wf update_track_alias_wf)

lemma reads_keep [preserving]:
  "store_inv P \<Longrightarrow> preserves P (sqlite_resolveTrackID i)"
  "store_inv P \<Longrightarrow> preserves P (sqlite_Track i)"
  "store_inv P \<Longrightarrow> preserves P (sqlite_resolveArtistID i)"
  "store_inv P \<Longrightarrow> preserves P (sqlite_Artist i)"
  unfolding sqlite_resolveTrackID_def sqlite_Track_def sqlite_resolveArtistID_def sqlite_Artist_def
  by (intro preserving; assumption)+

lemma track_alias_wf:
  assumes "wf_catalog w" "t \<in> track_ID ` set (w_tracks w)"
  shows "wf_catalog (w\<lparr>w_track_aliases := upsert fst (a, t) (w_track_aliases w)\<rparr>)"
proof -
  have "\<forall>x \<in> set (upsert fst (a, t) (w_track_aliases w)). snd x \<in> track_ID ` set (w_tracks w)"
    using assms by (intro upsert_ball) (simp_all add: wf_catalog_def)
  with assms show ?thesis by (simp add: wf_catalog_def)
qed

lemma catalog_operations_wf:
  "preserves wf_catalog (sqlite_ReplaceProviderTracks provider sources aliases)"
  "preserves wf_catalog (sqlite_SaveTrackSources sources)"
  "preserves wf_catalog (sqlite_SaveTrackAlias a t)"
  "preserves wf_catalog (sqlite_SetArtistAlias i j)"
  "preserves wf_catalog (sqlite_DeleteArtistAlias i)"
  "preserves wf_catalog (sqlite_UpdateTrackMetadata env i patch)"
proof -
  show "preserves wf_catalog (sqlite_ReplaceProviderTracks provider sources aliases)"
    unfolding sqlite_ReplaceProviderTracks_def
    by (intro preserving wf_catalog_store wf_filter_tables delete_orphans_wf)
  show "preserves wf_catalog (sqlite_SaveTrackSources sources)"
    unfolding sqlite_SaveTrackSources_def by (intro preserving wf_catalog_store)
  show "preserves wf_catalog (sqlite_SaveTrackAlias a t)"
    unfolding sqlite_SaveTrackAlias_def
  proof (intro preserving preserves_db_stmt wf_catalog_store)
    fix w :: world and r w'
    assume wf: "wf_catalog w" and run: "(if t \<notin> track_ID ` set (w_tracks w) then (Inl (ErrIO ''constraint''), w)
       else (Inr (), w\<lparr>w_track_aliases := upsert fst (a, t) (w_track_aliases w)\<rparr>)) = (r, w')"
    show "wf_catalog w'"
    proof (cases "t \<in> track_ID ` set (w_tracks w)")
      case True
      with run have "w' = w\<lparr>w_track_aliases := upsert fst (a, t) (w_track_aliases w)\<rparr>" by simp
      then show ?thesis by (simp only: track_alias_wf [OF wf True])
    next
      case False
      with run wf show ?thesis by simp
    qed
  qed
  show "preserves wf_catalog (sqlite_SetArtistAlias i j)"
    unfolding sqlite_SetArtistAlias_def Let_def by (intro preserving wf_catalog_store store_inv_now [of wf_catalog])
  show "preserves wf_catalog (sqlite_DeleteArtistAlias i)"
    unfolding sqlite_DeleteArtistAlias_def
    by (intro preserving preserves_db_stmt wf_catalog_store) (auto simp: wf_filter_tables)
  show "preserves wf_catalog (sqlite_UpdateTrackMetadata env i patch)"
    unfolding sqlite_UpdateTrackMetadata_def apply_patch_def Let_def by (intro preserving wf_catalog_store)
qed

section \<open>Replacing the tracks of a provider\<close>

lemma db_exec_ok: "db_exec f w = (Inr u, w') \<Longrightarrow> w' = f (spend_fault w)"
  by (auto simp: db_exec_def db_stmt_def split: if_splits)

lemma db_query_ok: "db_query f w = (Inr x, w') \<Longrightarrow> w' = spend_fault w \<and> x = f (spend_fault w)"
  by (auto simp: db_query_def db_stmt_def split: if_splits)

text \<open>The tables the replacement works on.\<close>

definition catalog_tables where
  "catalog_tables w = (w_tracks w, w_track_sources w, w_track_aliases w)"

lemma catalog_tables_spend [simp]: "catalog_tables (spend_fault w) = catalog_tables w"
  by (simp add: catalog_tables_def)

lemma store_inv_tables: "store_inv (\<lambda>v. catalog_tables v = T)"
  unfolding store_inv_def
proof (intro allI impI)
  fix w w' assume s: "store_of w' = store_of w"
  show "(catalog_tables w' = T) = (catalog_tables w = T)"
    unfolding catalog_tables_def store_of_eq_tables [OF s] by (rule refl)
qed

lemma lookup_previous_tables:
  "lookup_previous provider sources prev w = (Inr prev', w') \<Longrightarrow> catalog_tables w' = catalog_tables w"
proof -
  have "store_inv (\<lambda>v. catalog_tables v = catalog_tables w)"
    by (rule store_inv_tables)
  from preservesD [OF lookup_previous_wf [OF this] refl]
  show "lookup_previous provider sources prev w = (Inr prev', w') \<Longrightarrow> catalog_tables w' = catalog_tables w" .
qed

lemma insert_source_ok:
  "insert_source s w = (Inr u, w') \<Longrightarrow> w_tracks w' = w_tracks w \<and> w_track_aliases w' = w_track_aliases w
    \<and> w_track_sources w' = w_track_sources w @ [source_row_of s]"
  by (auto simp: insert_source_def db_stmt_def split: if_splits)

lemma insert_provider_tracks_ok:
  "insert_provider_tracks p prev ss al w = (Inr al', w') \<Longrightarrow>
    (\<forall>s \<in> set ss. ref_Provider (ts_Ref s) = p)
    \<and> w_track_sources w' = w_track_sources w @ map source_row_of ss
    \<and> w_tracks w' = foldl (\<lambda>ts s. upsert track_ID (track_row (ts_Track s)) ts) (w_tracks w) ss
    \<and> w_track_aliases w' = w_track_aliases w"
proof (induction p prev ss al arbitrary: w rule: insert_provider_tracks.induct)
  case (2 p prev s ss al)
  from "2.prems" obtain w1 w2 al1 where p: "ref_Provider (ts_Ref s) = p"
    and e: "db_exec (upsert_track (ts_Track s)) w = (Inr (), w1)"
    and i: "insert_source s w1 = (Inr (), w2)"
    and rest: "insert_provider_tracks p prev ss al1 w2 = (Inr al', w')"
    and al1: "al1 = (case fst prev (track_ID (ts_Track s)) of
               Some previousAlbumID \<Rightarrow>
                 if previousAlbumID \<noteq> '''' \<and> previousAlbumID \<noteq> track_AlbumID (ts_Track s)
                 then al @ [\<lparr>alias_AliasID = previousAlbumID, alias_TrackID = track_ID (ts_Track s)\<rparr>]
                 else al
             | None \<Rightarrow> al) @ map (\<lambda>aliasID.
               \<lparr>alias_AliasID = aliasID, alias_TrackID = track_ID (ts_Track s)\<rparr>) (snd prev (track_ID (ts_Track s)))"
    by (auto simp: Let_def)
  have w1: "w_tracks w1 = upsert track_ID (track_row (ts_Track s)) (w_tracks w)"
    "w_track_sources w1 = w_track_sources w" "w_track_aliases w1 = w_track_aliases w"
    using db_exec_ok [OF e] by (simp_all add: upsert_track_def)
  note IH = "2.IH" [OF refl _ refl refl, of w2]
  have "(\<forall>s \<in> set ss. ref_Provider (ts_Ref s) = p)
    \<and> w_track_sources w' = w_track_sources w2 @ map source_row_of ss
    \<and> w_tracks w' = foldl (\<lambda>ts s. upsert track_ID (track_row (ts_Track s)) ts) (w_tracks w2) ss
    \<and> w_track_aliases w' = w_track_aliases w2"
    using IH p rest al1 by simp
  then show ?case using insert_source_ok [OF i] w1 p by simp
qed simp

lemma insert_album_aliases_ok:
  "insert_album_aliases p inc al w = (Inr u, w') \<Longrightarrow> catalog_tables w' = catalog_tables w"
proof (induction p inc al arbitrary: w rule: insert_album_aliases.induct)
  case (2 p inc a al)
  show ?case
  proof (cases "alias_AliasID a = '''' \<or> alias_TrackID a = ''''")
    case True
    then show ?thesis using 2 by auto
  next
    case False
    with "2.prems" obtain w1 where inc: "alias_TrackID a \<in> inc"
      and i: "insert_album_alias p (alias_AliasID a) (alias_TrackID a) w = (Inr (), w1)"
      and rest: "insert_album_aliases p inc al w1 = (Inr u, w')"
      by (auto split: if_splits)
    from i have "catalog_tables w1 = catalog_tables w"
      by (auto simp: insert_album_alias_def db_stmt_def catalog_tables_def split: if_splits)
    then show ?thesis using "2.IH"(2) [OF False] inc rest by auto
  qed
qed simp

lemma delete_orphans_tables:
  "w_track_sources (delete_orphans w) = w_track_sources w"
  "w_tracks (delete_orphans w) = filter (\<lambda>t. track_ID t \<in> sr_track_id ` set (w_track_sources w)) (w_tracks w)"
  "\<forall>x \<in> set (w_track_aliases w). snd x \<in> track_ID ` set (w_tracks w) \<Longrightarrow>
    w_track_aliases (delete_orphans w) = filter (\<lambda>x. snd x \<in> sr_track_id ` set (w_track_sources w)) (w_track_aliases w)"
  by (auto simp: delete_orphans_def delete_tracks_def orphaned_def intro!: filter_cong filter_True) (force+)?

lemma prepare_ok: "prepare msg w = (Inr u, w') \<Longrightarrow> w' = spend_fault w"
  by (auto simp: prepare_def dest: db_exec_ok)

lemma ReplaceProviderTracks_ok:
  assumes "sqlite_ReplaceProviderTracks provider sources aliases w = (Inr u, w')" "wf_catalog w"
    and others: "others = filter (\<lambda>s. sr_provider s \<noteq> provider) (w_track_sources w)"
  shows "(\<forall>s \<in> set sources. ref_Provider (ts_Ref s) = provider)
    \<and> w_track_sources w' = others @ map source_row_of sources
    \<and> w_tracks w' = foldl (\<lambda>ts s. upsert track_ID (track_row (ts_Track s)) ts)
        (filter (\<lambda>t. track_ID t \<in> sr_track_id ` set others) (w_tracks w)) sources
    \<and> w_track_aliases w' = filter (\<lambda>x. snd x \<in> sr_track_id ` set others) (w_track_aliases w)"
proof -
  from assms(1) obtain w2 where w': "w' = spend_fault w2" and body:
    "(bindE (lookup_previous provider sources (Map.empty, \<lambda>_. [])) (\<lambda>prev.
       bindE (wrapE ''clear provider album aliases'' (db_exec (\<lambda>w.
         w\<lparr>w_album_alias_tracks := filter (\<lambda>x. fst x \<noteq> provider) (w_album_alias_tracks w)\<rparr>))) (\<lambda>_.
       bindE (wrapE ''clear provider sources'' (db_exec (\<lambda>w.
         w\<lparr>w_track_sources := filter (\<lambda>s. sr_provider s \<noteq> provider) (w_track_sources w)\<rparr>))) (\<lambda>_.
       bindE (wrapE ''clear orphaned tracks'' (db_exec delete_orphans)) (\<lambda>_.
       bindE (prepare ''prepare track insert'') (\<lambda>_.
       bindE (prepare ''prepare source insert'') (\<lambda>_.
       bindE (prepare ''prepare album alias insert'') (\<lambda>_.
       bindE (insert_provider_tracks provider prev sources aliases) (\<lambda>aliases.
         insert_album_aliases provider (set (map (\<lambda>s. track_ID (ts_Track s)) sources)) aliases)))))))))
       (spend_fault w) = (Inr u, w2)"
    unfolding sqlite_ReplaceProviderTracks_def by (rule db_tx_committed)
  then obtain prev v1 v2 v3 v4 v5 v6 v7 v8 al where
    l: "lookup_previous provider sources (Map.empty, \<lambda>_. []) (spend_fault w) = (Inr prev, v1)"
    and c1: "db_exec (\<lambda>w. w\<lparr>w_album_alias_tracks := filter (\<lambda>x. fst x \<noteq> provider) (w_album_alias_tracks w)\<rparr>) v1 = (Inr (), v2)"
    and c2: "db_exec (\<lambda>w. w\<lparr>w_track_sources := filter (\<lambda>s. sr_provider s \<noteq> provider) (w_track_sources w)\<rparr>) v2 = (Inr (), v3)"
    and c3: "db_exec delete_orphans v3 = (Inr (), v4)"
    and p: "prepare ''prepare track insert'' v4 = (Inr (), v5)" "prepare ''prepare source insert'' v5 = (Inr (), v6)"
      "prepare ''prepare album alias insert'' v6 = (Inr (), v7)"
    and ins: "insert_provider_tracks provider prev sources aliases v7 = (Inr al, v8)"
    and fin: "insert_album_aliases provider (set (map (\<lambda>s. track_ID (ts_Track s)) sources)) al v8 = (Inr u, w2)"
    by (auto simp only: bindE_Inr_iff wrapE_Inr_iff) 
  have v1: "catalog_tables v1 = catalog_tables w" using lookup_previous_tables [OF l] by simp
  have v3: "w_tracks v3 = w_tracks w" "w_track_aliases v3 = w_track_aliases w" "w_track_sources v3 = others"
    using v1 db_exec_ok [OF c1] db_exec_ok [OF c2] by (simp_all add: catalog_tables_def others)
  have al3: "\<forall>x \<in> set (w_track_aliases (spend_fault v3)). snd x \<in> track_ID ` set (w_tracks (spend_fault v3))"
    using assms(2) v3 by (simp add: wf_catalog_def)
  have v7: "catalog_tables v7 = (filter (\<lambda>t. track_ID t \<in> sr_track_id ` set others) (w_tracks w), others,
      filter (\<lambda>x. snd x \<in> sr_track_id ` set others) (w_track_aliases w))"
    using prepare_ok [OF p(1)] prepare_ok [OF p(2)] prepare_ok [OF p(3)] db_exec_ok [OF c3]
      delete_orphans_tables(1,2) [of "spend_fault v3"] delete_orphans_tables(3) [OF al3] v3
    by (simp add: catalog_tables_def)
  have "catalog_tables w' = catalog_tables v8" using insert_album_aliases_ok [OF fin] w' by simp
  with insert_provider_tracks_ok [OF ins] v7 show ?thesis by (simp add: catalog_tables_def)
qed

section \<open>Properties\<close>


text \<open>
  C12: replacing the tracks of a provider is atomic and exact: a failure changes nothing; after a
  success the sources are those of the other providers and the given ones, and the tracks are
  those with a source of another provider, overwritten by the given ones. The identifiers under
  which tracks were known before survive only for tracks that another provider has.
\<close>

theorem ReplaceProviderTracks_spec:
  assumes "sqlite_ReplaceProviderTracks provider sources aliases w = (r, w')" "wf_catalog w"
  shows "let others = filter (\<lambda>s. sr_provider s \<noteq> provider) (w_track_sources w);
             kept = (\<lambda>i. i \<in> sr_track_id ` set others) in
    (case r of
       Inl _ \<Rightarrow> store_of w' = store_of w
     | Inr _ \<Rightarrow>
         w_track_sources w' = others @ map source_row_of sources
         \<and> w_tracks w' = foldl (\<lambda>ts s. upsert track_ID (track_row (ts_Track s)) ts)
             (filter (\<lambda>t. kept (track_ID t)) (w_tracks w)) sources
         \<and> w_track_aliases w' = filter (\<lambda>x. kept (snd x)) (w_track_aliases w)
         \<and> (\<forall>s \<in> set sources. ref_Provider (ts_Ref s) = provider))"
proof (cases r)
  case (Inl e)
  then show ?thesis using assms(1) by (simp add: sqlite_ReplaceProviderTracks_def db_tx_failed)
next
  case (Inr u)
  with ReplaceProviderTracks_ok [OF assms(1) [unfolded Inr] assms(2) refl] show ?thesis by (simp add: Let_def)
qed

lemma foldl_upsert_ids:
  "track_ID ` set (foldl (\<lambda>ts s. upsert track_ID (track_row (ts_Track s)) ts) ts ss)
    = track_ID ` set ts \<union> (\<lambda>s. track_ID (ts_Track s)) ` set ss"
  by (induction ss arbitrary: ts) auto

text \<open>
  a rescan forgets the former identifiers of the tracks of its provider: the orphan sweep deletes
  a track before it is inserted again, and the cascade takes its aliases. An identifier that led to
  a track before a successful rescan that reports the same track leads nowhere after it.
\<close>

theorem rescan_drops_track_aliases:
  assumes "sqlite_ReplaceProviderTracks provider sources aliases w = (Inr u, w')" "wf_catalog w"
    "(a, i) \<in> set (w_track_aliases w)" "a \<notin> track_ID ` set (w_tracks w)"
    "\<forall>s \<in> set (w_track_sources w). sr_track_id s = i \<longrightarrow> sr_provider s = provider"
    "i \<in> (\<lambda>s. track_ID (ts_Track s)) ` set sources" "a \<notin> (\<lambda>s. track_ID (ts_Track s)) ` set sources"
  shows "resolve_track w a = Some i \<and> i \<in> track_ID ` set (w_tracks w') \<and> resolve_track w' a = None"
proof -
  let ?o = "filter (\<lambda>s. sr_provider s \<noteq> provider) (w_track_sources w)"
  note ok = ReplaceProviderTracks_ok [OF assms(1,2) refl]
  have d: "distinct (map fst (w_track_aliases w))" using assms(2) by (simp add: wf_catalog_def)
  have find: "find_key fst a (w_track_aliases w) = Some (a, i)"
    using find_key_member [OF d assms(3)] by simp
  have ids: "track_ID ` set (w_tracks w') \<subseteq> track_ID ` set (w_tracks w) \<union> (\<lambda>s. track_ID (ts_Track s)) ` set sources"
    "i \<in> track_ID ` set (w_tracks w')"
    using ok foldl_upsert_ids [of "filter (\<lambda>t. track_ID t \<in> sr_track_id ` set ?o) (w_tracks w)" sources] assms(6)
    by auto
  have "i \<notin> sr_track_id ` set ?o" using assms(5) by auto
  have "fst x \<noteq> a" if "x \<in> set (w_track_aliases w')" for x
  proof
    assume "fst x = a"
    moreover have x: "x \<in> set (w_track_aliases w)" "snd x \<in> sr_track_id ` set ?o" using that ok by auto
    ultimately have "x = (a, i)" using find_key_member [OF d x(1)] find by simp
    with x(2) \<open>i \<notin> sr_track_id ` set ?o\<close> show False by simp
  qed
  then have "find_key fst a (w_track_aliases w') = None" by (simp add: find_key_None_iff)
  with find ids assms(4,7) show ?thesis by (auto simp: resolve_track_def)
qed

text \<open>
  \<open>page\<close> returns the requested window even where \<open>offset + count\<close> overflows, and the empty page for
  a negative offset or a count that is not positive.
\<close>

theorem page_spec:
  assumes "in_i64 offset" "in_i64 cnt" "int (length items) < 2 ^ 63"
  shows "page items offset cnt =
    (if offset < 0 \<or> cnt \<le> 0 then [] else take (nat cnt) (drop (nat offset) items))"
proof (cases "offset < 0 \<or> cnt \<le> 0 \<or> int (length items) \<le> offset")
  case True
  then show ?thesis by (auto simp: page_def)
next
  case False
  then have o: "0 \<le> offset" "0 < cnt" "offset < int (length items)" by auto
  show ?thesis
  proof (cases "offset + cnt < 2 ^ 63")
    case True
    then have "i64 (offset + cnt) = offset + cnt" using o by (intro i64_id) (simp add: in_i64_def)
    then show ?thesis using o
      by (auto simp: page_def Let_def drop_take nat_add_distrib nat_diff_distrib nat_le_iff intro!: take_all [symmetric])
  next
    case False
    have "i64 (offset + cnt - 2 ^ 64) = i64 (offset + cnt)"
      by (rule i64_mod_cong) (simp add: mod_diff_right_eq [symmetric])
    moreover have "i64 (offset + cnt - 2 ^ 64) = offset + cnt - 2 ^ 64"
      using assms o False by (intro i64_id) (simp add: in_i64_def)
    ultimately have "i64 (offset + cnt) = offset + cnt - 2 ^ 64" by simp
    then show ?thesis using o assms False
      by (auto simp: page_def Let_def in_i64_def nat_le_iff intro!: take_all [symmetric])
  qed
qed

theorem page_spec_witness:
  "page [1::nat, 2, 3] 1 (2 ^ 63 - 1) = [2, 3]"
  using page_spec [of 1 "2 ^ 63 - 1" "[1::nat, 2, 3]"] by (simp add: in_i64_def)

lemma sqlite_Track_run:
  "w_faults w = [] \<Longrightarrow> sqlite_Track i w =
    (case resolve_track w i of None \<Rightarrow> Inl ErrNotFound
     | Some j \<Rightarrow> (case find_key track_ID j (w_tracks w) of None \<Rightarrow> Inl ErrNotFound | Some t \<Rightarrow> Inr t), w)"
  by (simp add: sqlite_Track_def sqlite_resolveTrackID_def db_query_run run_simps split: option.split)

text \<open>
  After an identifier was saved as an alias of a track, looking it up gives that track, unless a
  track of its own has the identifier.
\<close>

lemma SaveTrackAlias_resolves:
  assumes "sqlite_SaveTrackAlias a i w = (Inr u, w')" "w_faults w' = []"
    "a \<noteq> ''''" "i \<noteq> ''''" "a \<noteq> i" "a \<notin> track_ID ` set (w_tracks w)"
  shows "sqlite_Track a w' = sqlite_Track i w' \<and> is_ok (fst (sqlite_Track a w'))"
proof -
  from assms(1,3,4,5) have "i \<in> track_ID ` set (w_tracks w)" "w_tracks w' = w_tracks w"
    "w_track_aliases w' = upsert fst (a, i) (w_track_aliases w)"
    by (auto simp: sqlite_SaveTrackAlias_def db_stmt_def split: if_splits)
  moreover from this obtain t where "find_key track_ID i (w_tracks w) = Some t"
    by (cases "find_key track_ID i (w_tracks w)") (auto simp: find_key_None_iff)
  ultimately show ?thesis using assms(2,6) by (simp add: sqlite_Track_run resolve_track_def)
qed

text \<open>
  a track that moves to another album stays reachable under the identifier of its previous album:
  unless other tracks still carry that identifier, the album lists it.
\<close>

theorem UpdateTrack_keeps_album_reachable:
  assumes "sqlite_UpdateTrack t w = (Inr u, w')" "wf_catalog w" "w_faults w' = []"
    "find_key track_ID (track_ID t) (w_tracks w) = Some old"
    "track_AlbumID old \<noteq> ''''" "track_AlbumID old \<noteq> track_AlbumID t"
    "track_ID t \<in> sr_track_id ` set (w_track_sources w)"
    "\<forall>x \<in> set (w_tracks w). track_AlbumID x = track_AlbumID old \<longrightarrow> x = old"
  shows "\<exists>ts. sqlite_TracksByAlbum (track_AlbumID old) w' = (Inr ts, w') \<and> track_row t \<in> set ts"
proof -
  let ?a = "track_AlbumID old"
  from assms(1) obtain w2 where w': "w' = spend_fault w2" and body:
    "(bindE (wrapE ''query track before update'' (db_query (\<lambda>w. find_key track_ID (track_ID t) (w_tracks w))))
        (\<lambda>row. case row of
           None \<Rightarrow> fail ErrNotFound
         | Some previous \<Rightarrow>
             let previousAlbumID = track_AlbumID previous in
             bindE (wrapE ''update track'' (db_exec (upsert_track t))) (\<lambda>_.
               if previousAlbumID \<noteq> '''' \<and> previousAlbumID \<noteq> track_AlbumID t
               then wrapE ''preserve previous album for track'' (db_exec (\<lambda>w.
                 w\<lparr>w_album_alias_tracks := foldl (\<lambda>rows s. insert_new (sr_provider s, previousAlbumID, track_ID t) rows)
                    (w_album_alias_tracks w)
                    (filter (\<lambda>s. sr_track_id s = track_ID t) (w_track_sources w))\<rparr>))
               else ret ()))) (spend_fault w) = (Inr u, w2)"
    unfolding sqlite_UpdateTrack_def by (rule db_tx_committed)
  then obtain v1 where v1: "db_exec (upsert_track t) (spend_fault (spend_fault w)) = (Inr (), v1)"
    and v2: "db_exec (\<lambda>w. w\<lparr>w_album_alias_tracks := foldl (\<lambda>rows s. insert_new (sr_provider s, ?a, track_ID t) rows)
                    (w_album_alias_tracks w) (filter (\<lambda>s. sr_track_id s = track_ID t) (w_track_sources w))\<rparr>) v1 = (Inr u, w2)"
    using assms(4-6) by (auto simp: Let_def dest!: db_query_ok)
  have tr: "w_tracks w' = upsert track_ID (track_row t) (w_tracks w)" "w_track_sources v1 = w_track_sources w"
    using db_exec_ok [OF v1] db_exec_ok [OF v2] w' by (simp_all add: upsert_track_def)
  from assms(7) obtain s where s: "s \<in> set (w_track_sources w)" "sr_track_id s = track_ID t" by auto
  have al: "(sr_provider s, ?a, track_ID t) \<in> set (w_album_alias_tracks w')"
    using db_exec_ok [OF v2] w' tr s by auto
  have d: "distinct (map track_ID (w_tracks w'))"
    using assms(2) by (simp add: tr wf_catalog_def)
  have "find_key track_ID (track_ID t) (w_tracks w') = Some (track_row t)" by (simp add: tr)
  then have mem: "track_row t \<in> set (w_tracks w')" by (auto dest: find_key_SomeD)
  have "track_AlbumID x \<noteq> ?a" if "x \<in> set (w_tracks w')" for x
  proof
    assume eq: "track_AlbumID x = ?a"
    have "find_key track_ID (track_ID x) (w_tracks w') = Some x" using d that by (rule find_key_member)
    then have "track_ID x \<noteq> track_ID t \<and> find_key track_ID (track_ID x) (w_tracks w) = Some x"
      using eq assms(6) by (auto simp: tr track_row_def split: if_splits)
    then have "x \<in> set (w_tracks w)" "x \<noteq> old"
      using find_key_SomeD [OF assms(4)] by (auto dest: find_key_SomeD)
    with assms(8) eq show False by blast
  qed
  then have "filter (\<lambda>x. track_AlbumID x = ?a) (w_tracks w') = []" by (simp add: filter_empty_conv)
  then have run: "sqlite_TracksByAlbum ?a w' = (Inr (SliceStable album_track_lt (filter (\<lambda>x.
      list_ex (\<lambda>(p, a, i). a = ?a \<and> i = track_ID x) (w_album_alias_tracks w')) (w_tracks w'))), w')"
    using assms(3) by (simp add: sqlite_TracksByAlbum_def tracksByCanonicalAlbum_def db_query_run run_simps SliceStable_def)
  have "list_ex (\<lambda>(p, a, i). a = ?a \<and> i = track_ID (track_row t)) (w_album_alias_tracks w')"
    using al by (auto simp: list_ex_iff)
  with mem have "track_row t \<in> set (filter (\<lambda>x.
      list_ex (\<lambda>(p, a, i). a = ?a \<and> i = track_ID x) (w_album_alias_tracks w')) (w_tracks w'))" by simp
  with run show ?thesis by simp
qed

subsection \<open>Artist aliases\<close>

text \<open>The alias table as a map, and how a call of \<open>SetArtistAlias\<close> that succeeds changes it.\<close>

definition alias_map :: "world \<Rightarrow> string \<Rightarrow> string option" where
  "alias_map w i = map_option aa_TargetID (find_key aa_AliasID i (w_artist_aliases w))"

definition role_ids :: "world \<Rightarrow> string set" where
  "role_ids w = track_AlbumArtistID ` set (w_tracks w) \<union> track_ArtistID ` set (w_tracks w)"

definition hop :: "world \<Rightarrow> string \<Rightarrow> string" where
  "hop w i = (case alias_map w i of None \<Rightarrow> i | Some t \<Rightarrow> t)"

lemma resolve_artist_hop: "i \<in> role_ids w \<Longrightarrow> resolve_artist w i = Some (hop w i)"
  by (auto simp: resolve_artist_def role_ids_def hop_def alias_map_def split: option.splits)

lemma resolved_role_hop:
  assumes "i \<in> role_ids w"
  shows "list_ex (\<lambda>(j, _, _). j = hop w i) (resolved_roles w)"
proof -
  from assms obtain n a where role: "(i, n, a) \<in> set (artist_roles w)"
    by (auto simp: role_ids_def artist_roles_def)
  have "fst (resolve_role w (i, n, a)) = hop w i"
    by (simp add: resolve_role_def hop_def alias_map_def split: option.split)
  with role have "hop w i \<in> fst ` set (resolved_roles w)"
    by (metis image_eqI list.set_map resolved_roles_def)
  then show ?thesis by (auto simp: list_ex_iff)
qed

lemma sqlite_Artist_run:
  assumes "w_faults w = []" "i \<in> role_ids w"
  shows "sqlite_Artist i w = (Inr (artist_group (resolved_roles w) (hop w i)), w)"
  using assms resolved_role_hop [OF assms(2)]
  by (simp add: sqlite_Artist_def sqlite_resolveArtistID_def db_query_run run_simps resolve_artist_hop)

lemma artist_group_ID [simp]: "artist_ID (artist_group roles i) = i"
  by (simp add: artist_group_def Let_def)

lemma SetArtistAlias_run:
  assumes "w_faults w = []" "{a, b, hop w b} \<subseteq> role_ids w" "TrimSpace a = a" "TrimSpace b = b"
    "a \<noteq> ''''" "b \<noteq> ''''" "a \<noteq> b" "hop w a \<noteq> hop w b" "a \<noteq> hop w (hop w b)"
  obtains r w' where "sqlite_SetArtistAlias a b w = (Inr r, w')" "w_faults w' = []"
    "w_tracks w' = w_tracks w" "alias_map w' = (alias_map w)(a \<mapsto> hop w (hop w b))"
proof -
  have "\<exists>r w'. sqlite_SetArtistAlias a b w = (Inr r, w') \<and> w_faults w' = [] \<and> w_tracks w' = w_tracks w
      \<and> alias_map w' = (alias_map w)(a \<mapsto> hop w (hop w b))"
    using assms find_key_SomeD [of aa_AliasID a "w_artist_aliases w"]
    by (simp add: sqlite_SetArtistAlias_def Let_def sqlite_Artist_run sqlite_resolveArtistID_def db_query_run
      run_simps resolve_artist_hop time_Now_def upsert_artist_alias_def db_stmt_run fun_eq_iff alias_map_def
      split: option.splits)
  with that show thesis by blast
qed

definition artist_track :: "string \<Rightarrow> Track" where
  "artist_track a = (demo_track a a)\<lparr>track_Artist := a, track_ArtistID := a, track_AlbumArtist := a,
     track_AlbumArtistID := a, track_AlbumID := a\<rparr>"

definition artist_world :: world where
  "artist_world = empty_world\<lparr>w_tracks := map artist_track [''A'', ''B'', ''C'', ''D'']\<rparr>"

text \<open>
  the check against alias cycles looks one step ahead only. Four calls that each succeed, on a
  library with the artists A, B, C and D, leave C an alias of D and D an alias of C: each resolves
  to the other.
\<close>

theorem artist_alias_cycle:
  "\<exists>r1 w1 r2 w2 r3 w3 r4 w4.
     sqlite_SetArtistAlias ''A'' ''B'' artist_world = (Inr r1, w1)
     \<and> sqlite_SetArtistAlias ''B'' ''C'' w1 = (Inr r2, w2)
     \<and> sqlite_SetArtistAlias ''C'' ''D'' w2 = (Inr r3, w3)
     \<and> sqlite_SetArtistAlias ''D'' ''A'' w3 = (Inr r4, w4)
     \<and> sqlite_resolveArtistID ''C'' w4 = (Inr ''D'', w4)
     \<and> sqlite_resolveArtistID ''D'' w4 = (Inr ''C'', w4)"
proof -
  have trim: "TrimSpace ''A'' = ''A''" "TrimSpace ''B'' = ''B''" "TrimSpace ''C'' = ''C''" "TrimSpace ''D'' = ''D''"
    by (simp_all add: go_eval)
  have ids: "role_ids artist_world = {''A'', ''B'', ''C'', ''D''}"
    by (auto simp: role_ids_def artist_world_def artist_track_def)
  then have ids: "w_tracks w = w_tracks artist_world \<Longrightarrow> role_ids w = {''A'', ''B'', ''C'', ''D''}" for w
    by (simp add: role_ids_def)
  have m0: "alias_map artist_world = Map.empty" "w_faults artist_world = []"
    by (simp_all add: alias_map_def fun_eq_iff artist_world_def empty_world_def)
  obtain r1 w1 where s1: "sqlite_SetArtistAlias ''A'' ''B'' artist_world = (Inr r1, w1)" "w_faults w1 = []"
    "w_tracks w1 = w_tracks artist_world" "alias_map w1 = [''A'' \<mapsto> ''B'']"
    by (rule SetArtistAlias_run [of artist_world "''A''" "''B''"]) (simp_all add: ids m0 trim hop_def)
  obtain r2 w2 where s2: "sqlite_SetArtistAlias ''B'' ''C'' w1 = (Inr r2, w2)" "w_faults w2 = []"
    "w_tracks w2 = w_tracks artist_world" "alias_map w2 = [''A'' \<mapsto> ''B'', ''B'' \<mapsto> ''C'']"
    by (rule SetArtistAlias_run [of w1 "''B''" "''C''"]) (simp_all add: ids s1 trim hop_def)
  obtain r3 w3 where s3: "sqlite_SetArtistAlias ''C'' ''D'' w2 = (Inr r3, w3)" "w_faults w3 = []"
    "w_tracks w3 = w_tracks artist_world" "alias_map w3 = [''A'' \<mapsto> ''B'', ''B'' \<mapsto> ''C'', ''C'' \<mapsto> ''D'']"
    by (rule SetArtistAlias_run [of w2 "''C''" "''D''"]) (simp_all add: ids s2 trim hop_def)
  obtain r4 w4 where s4: "sqlite_SetArtistAlias ''D'' ''A'' w3 = (Inr r4, w4)" "w_faults w4 = []"
    "w_tracks w4 = w_tracks artist_world" "alias_map w4 = (alias_map w3)(''D'' \<mapsto> ''C'')"
    by (rule SetArtistAlias_run [of w3 "''D''" "''A''"]) (simp_all add: ids s3 trim hop_def)
  have "resolve_artist w4 ''C'' = Some ''D''" "resolve_artist w4 ''D'' = Some ''C''"
    by (simp_all add: resolve_artist_hop ids s3 s4 hop_def)
  then have "sqlite_resolveArtistID ''C'' w4 = (Inr ''D'', w4)" "sqlite_resolveArtistID ''D'' w4 = (Inr ''C'', w4)"
    by (simp_all add: sqlite_resolveArtistID_def db_query_run run_simps s4)
  with s1 s2 s3 s4 show ?thesis by blast
qed

subsection \<open>A small library\<close>

definition demo_source :: "string \<Rightarrow> string \<Rightarrow> TrackSource" where
  "demo_source tid provider = \<lparr>ts_Track = demo_track tid tid, ts_Ref = \<lparr>ref_Provider = provider, ref_Key = tid\<rparr>, ts_DisplayPath = tid,
     ts_Availability = \<lparr>av_Peer = '''', av_UploadSpeed = 0, av_QueueLength = 0, av_FreeUploadSlot = False,
       av_RequiresApproval = False\<rparr>,
     ts_DiscoveredAt = unix_epoch\<rparr>"

definition demo_library :: world where
  "demo_library = empty_world\<lparr>w_tracks := [track_row ((demo_track ''t'' ''t'')\<lparr>track_AlbumID := ''b''\<rparr>)],
     w_track_sources := [source_row_of (demo_source ''t'' ''local'')],
     w_track_aliases := [(''old'', ''t'')]\<rparr>"

lemma demo_library_sel [simp]:
  "w_faults demo_library = []" "w_track_aliases demo_library = [(''old'', ''t'')]"
  "map track_ID (w_tracks demo_library) = [''t'']" "track_ID ` set (w_tracks demo_library) = {''t''}"
  by (simp_all add: demo_library_def empty_world_def demo_track_def)

lemma demo_library_wf: "wf_catalog demo_library"
  by (simp add: wf_catalog_def demo_library_def empty_world_def demo_track_def source_row_of_def demo_source_def)

lemma demo_rescan:
  "\<exists>w'. sqlite_ReplaceProviderTracks ''local'' [demo_source ''t'' ''local''] [] demo_library = (Inr (), w')"
  by (simp add: sqlite_ReplaceProviderTracks_def db_tx_def db_exec_run db_query_run db_stmt_run run_simps
    demo_library_def empty_world_def demo_track_def source_row_of_def demo_source_def prepare_def insert_source_def
    delete_orphans_def delete_tracks_def orphaned_def upsert_track_def insert_album_alias_def Let_def)

theorem ReplaceProviderTracks_spec_witness:
  "\<exists>w'. sqlite_ReplaceProviderTracks ''local'' [demo_source ''t'' ''local''] [] demo_library = (Inr (), w')
    \<and> w_tracks w' = [track_row (demo_track ''t'' ''t'')] \<and> w_track_aliases w' = []"
proof -
  obtain w' where w': "sqlite_ReplaceProviderTracks ''local'' [demo_source ''t'' ''local''] [] demo_library = (Inr (), w')"
    using demo_rescan by blast
  with ReplaceProviderTracks_spec [OF w' demo_library_wf] show ?thesis
    by (simp add: Let_def demo_library_def demo_source_def source_row_of_def)
qed

theorem rescan_drops_track_aliases_witness:
  "\<exists>w'. sqlite_ReplaceProviderTracks ''local'' [demo_source ''t'' ''local''] [] demo_library = (Inr (), w')
    \<and> resolve_track demo_library ''old'' = Some ''t'' \<and> resolve_track w' ''old'' = None"
proof -
  obtain w' where w': "sqlite_ReplaceProviderTracks ''local'' [demo_source ''t'' ''local''] [] demo_library = (Inr (), w')"
    using demo_rescan by blast
  moreover have "resolve_track demo_library ''old'' = Some ''t'' \<and> ''t'' \<in> track_ID ` set (w_tracks w') \<and> resolve_track w' ''old'' = None"
    by (rule rescan_drops_track_aliases [OF w' demo_library_wf])
      (simp_all add: demo_source_def demo_track_def demo_library_def source_row_of_def)
  ultimately show ?thesis by blast
qed

theorem UpdateTrack_keeps_album_reachable_witness:
  "\<exists>w' ts. sqlite_UpdateTrack (demo_track ''t'' ''u'') demo_library = (Inr (), w')
    \<and> sqlite_TracksByAlbum ''b'' w' = (Inr ts, w') \<and> track_row (demo_track ''t'' ''u'') \<in> set ts"
proof -
  let ?t = "demo_track ''t'' ''u''" and ?old = "track_row ((demo_track ''t'' ''t'')\<lparr>track_AlbumID := ''b''\<rparr>)"
  have id: "track_ID ?t = ''t''" "track_AlbumID ?t = ''''" "track_AlbumID ?old = ''b''" "track_ID ?old = ''t''"
    "track_ID (demo_track ''t'' ''t'') = ''t''"
    by (simp_all add: demo_track_def track_row_def)
  have tr: "w_tracks demo_library = [?old]" "w_track_sources demo_library = [source_row_of (demo_source ''t'' ''local'')]"
    by (simp_all add: demo_library_def)
  have src: "sr_track_id (source_row_of (demo_source ''t'' ''local'')) = ''t''"
    by (simp add: source_row_of_def demo_source_def demo_track_def)
  have "\<exists>w'. sqlite_UpdateTrack ?t demo_library = (Inr (), w') \<and> w_faults w' = []"
    by (simp add: sqlite_UpdateTrack_def db_tx_def db_exec_run db_query_run run_simps id tr upsert_track_def Let_def src)
  then obtain w' where w': "sqlite_UpdateTrack ?t demo_library = (Inr (), w')" "w_faults w' = []" by blast
  have "\<exists>ts. sqlite_TracksByAlbum (track_AlbumID ?old) w' = (Inr ts, w') \<and> track_row ?t \<in> set ts"
    by (rule UpdateTrack_keeps_album_reachable [OF w'(1) demo_library_wf w'(2)]) (simp_all add: id tr src)
  with w' id show ?thesis by auto
qed

end
