(* ===== verification/TrackLists.thy ===== *)
theory TrackLists
  imports Catalog
begin

text \<open>
  Tables that hold an ordered list of tracks under a key: \<open>playlist_tracks\<close> and
  \<open>play_queue_tracks\<close>, with primary key (key, position). \<open>join_tracks\<close> is the query
  \<open>SELECT ... FROM tracks JOIN ... ORDER BY position\<close> of \<open>Playlist\<close> and \<open>PlayQueue\<close>, \<open>replace_tracks\<close>
  the \<open>DELETE\<close> and the loop of \<open>INSERT\<close> statements of \<open>SavePlaylist\<close> and \<open>SavePlayQueue\<close>. The
  positions inserted are new after the \<open>DELETE\<close>, so the primary key is never violated.
\<close>

type_synonym position_row = "string \<times> nat \<times> string"

definition join_tracks :: "Track list \<Rightarrow> position_row list \<Rightarrow> string \<Rightarrow> Track list" where
  "join_tracks tracks rows key =
    concat (map (\<lambda>(_, _, i). filter (\<lambda>t. track_ID t = i) tracks)
      (SliceStable (\<lambda>(_, p, _) (_, q, _). p < q) (filter (\<lambda>(k, _, _). k = key) rows)))"

fun insert_positions ::
  "((position_row list \<Rightarrow> position_row list) \<Rightarrow> world \<Rightarrow> world) \<Rightarrow> string \<Rightarrow> string \<Rightarrow> nat \<Rightarrow> Track list
    \<Rightarrow> (world, unit) action" where
  "insert_positions upd msg key position [] = ret ()"
| "insert_positions upd msg key position (track # tracks) =
    bindE (wrapE msg (db_exec (upd (\<lambda>rows. rows @ [(key, position, track_ID track)]))))
      (\<lambda>_. insert_positions upd msg key (Suc position) tracks)"

definition replace_tracks ::
  "((position_row list \<Rightarrow> position_row list) \<Rightarrow> world \<Rightarrow> world) \<Rightarrow> string \<Rightarrow> string \<Rightarrow> string \<Rightarrow> string \<Rightarrow> Track list
    \<Rightarrow> (world, unit) action" where
  "replace_tracks upd clear_msg prepare_msg insert_msg key tracks =
    bindE (wrapE clear_msg (db_exec (upd (filter (\<lambda>(k, _, _). k \<noteq> key))))) (\<lambda>_.
      bindE (prepare prepare_msg) (\<lambda>_. insert_positions upd insert_msg key 0 tracks))"

definition positions :: "string \<Rightarrow> nat \<Rightarrow> Track list \<Rightarrow> position_row list" where
  "positions key n tracks = map (\<lambda>(p, t). (key, p, track_ID t)) (enumerate n tracks)"

lemma positions_simps [simp]:
  "positions key n [] = []"
  "positions key n (t # ts) = (key, n, track_ID t) # positions key (Suc n) ts"
  by (simp_all add: positions_def)

section \<open>A table with its update function\<close>

locale position_table =
  fixes rows :: "world \<Rightarrow> position_row list"
    and upd :: "(position_row list \<Rightarrow> position_row list) \<Rightarrow> world \<Rightarrow> world"
  assumes rows_upd [simp]: "rows (upd f w) = f (rows w)"
    and upd_spend: "upd f (spend_fault w) = spend_fault (upd f w)"
    and upd_upd: "upd f (upd g w) = upd (f \<circ> g) w"
    and rows_spend [simp]: "rows (spend_fault w) = rows w"
    and upd_id: "upd (\<lambda>x. x) w = w"
begin

lemma insert_positions_ok:
  "insert_positions upd msg key n ts w = (Inr u, w') \<Longrightarrow>
    store_of w' = store_of (upd (\<lambda>rs. rs @ positions key n ts) w)"
proof (induction ts arbitrary: n w)
  case Nil
  then show ?case by (simp add: upd_id)
next
  case (Cons t ts)
  from Cons.prems obtain v where v: "db_exec (upd (\<lambda>rs. rs @ [(key, n, track_ID t)])) w = (Inr (), v)"
    and run: "insert_positions upd msg key (Suc n) ts v = (Inr u, w')" by auto
  from v have v': "v = spend_fault (upd (\<lambda>rs. rs @ [(key, n, track_ID t)]) w)"
    by (auto elim!: db_exec_cases simp: upd_spend)
  show ?case using Cons.IH [OF run] unfolding v'
    by (simp add: upd_spend upd_upd comp_def)
qed

lemma replace_tracks_ok:
  assumes "replace_tracks upd m1 m2 m3 key ts w = (Inr u, w')"
  shows "store_of w' = store_of (upd (\<lambda>rs. filter (\<lambda>(k, _, _). k \<noteq> key) rs @ positions key 0 ts) w)"
proof -
  from assms obtain v1 v2 where v: "db_exec (upd (filter (\<lambda>(k, _, _). k \<noteq> key))) w = (Inr (), v1)"
    "db_exec (\<lambda>w. w) v1 = (Inr (), v2)" and run: "insert_positions upd m3 key 0 ts v2 = (Inr u, w')"
    by (auto simp: replace_tracks_def prepare_def)
  from v have "v2 = spend_fault (spend_fault (upd (filter (\<lambda>(k, _, _). k \<noteq> key)) w))"
    by (auto elim!: db_exec_cases simp: upd_spend)
  with insert_positions_ok [OF run] show ?thesis by (simp add: upd_spend upd_upd comp_def)
qed

end

interpretation playlist_rows: position_table w_playlist_tracks w_playlist_tracks_update
  by unfold_locales (simp_all add: spend_fault_def comp_def)

interpretation queue_rows: position_table w_play_queue_tracks w_play_queue_tracks_update
  by unfold_locales (simp_all add: spend_fault_def comp_def)

section \<open>Reading a list back\<close>

lemma filter_positions [simp]:
  "filter (\<lambda>(k, _, _). k = key) (positions key' n ts) = (if key' = key then positions key n ts else [])"
  by (induction ts arbitrary: n) auto

lemma insert_by_positions:
  "\<forall>r \<in> set rs. (p::nat) \<le> fst (snd r) \<Longrightarrow> insert_by (\<lambda>(_, p, _) (_, q, _). p < q) (k, p, i) rs = (k, p, i) # rs"
  by (cases rs) (auto simp: not_less)

lemma positions_ge: "r \<in> set (positions key n ts) \<Longrightarrow> n \<le> fst (snd r)"
  by (induction ts arbitrary: n) (auto dest: Suc_leD)

lemma sort_positions:
  "SliceStable (\<lambda>(_, p, _) (_, q, _). p < q) (positions key n ts) = positions key n ts"
proof (induction ts arbitrary: n)
  case Nil
  then show ?case by (simp add: SliceStable_def)
next
  case (Cons t ts)
  then show ?case
    using insert_by_positions [of "positions key (Suc n) ts" n] positions_ge [of _ key "Suc n" ts]
    by (fastforce simp: SliceStable_def dest: Suc_leD)
qed

lemma join_replaced_other:
  "key' \<noteq> key \<Longrightarrow> join_tracks tracks (filter (\<lambda>(k, _, _). k \<noteq> key) rs @ positions key 0 ts) key' = join_tracks tracks rs key'"
proof -
  assume "key' \<noteq> key"
  then have "filter (\<lambda>(k, _, _). k = key') (filter (\<lambda>(k, _, _). k \<noteq> key) rs) = filter (\<lambda>(k, _, _). k = key') rs"
    by (induction rs) auto
  with \<open>key' \<noteq> key\<close> show ?thesis by (simp add: join_tracks_def)
qed

lemma find_filter_key:
  "distinct (map track_ID tracks) \<Longrightarrow> t \<in> set tracks \<Longrightarrow> filter (\<lambda>x. track_ID x = track_ID t) tracks = [t]"
  by (induction tracks) (auto simp: filter_empty_conv rev_image_eqI)

lemma concat_positions:
  assumes "distinct (map track_ID tracks)" "set ts \<subseteq> set tracks"
  shows "concat (map (\<lambda>(_, _, i). filter (\<lambda>t. track_ID t = i) tracks) (positions key n ts)) = ts"
  using assms(2) by (induction ts arbitrary: n) (auto simp: find_filter_key [OF assms(1)])

text \<open>A list saved under a key is read back, as long as its tracks are in the catalog.\<close>

lemma join_replaced:
  assumes "distinct (map track_ID tracks)" "set ts \<subseteq> set tracks"
  shows "join_tracks tracks (filter (\<lambda>(k, _, _). k \<noteq> key) rs @ positions key 0 ts) key = ts"
proof -
  have "filter (\<lambda>(k, _, _). k = key) (filter (\<lambda>(k, _, _). k \<noteq> key) rs) = []"
    by (induction rs) auto
  then show ?thesis
    using concat_positions [OF assms] by (simp add: join_tracks_def sort_positions)
qed

lemma join_tracks_subset: "set (join_tracks tracks rows key) \<subseteq> set tracks"
  by (auto simp: join_tracks_def)

end
