(* ===== verification/Playlists.thy ===== *)
theory Playlists
  imports TrackLists
begin

text \<open>
  Playlists: \<open>core/services/playlists.go\<close> over \<open>adapters/storage/sqlite/playlists.go\<close>. The service sees
  its store through the interface \<open>playlistCatalog\<close>, here a record of actions; the locale
  \<open>playlist_store\<close> states what the service relies on, and its interpretation shows it of the SQL store.
\<close>

section \<open>Service\<close>

record 's playlistCatalog =
  pc_Track :: "string \<Rightarrow> ('s, Track) action"
  pc_Playlists :: "string \<Rightarrow> ('s, Playlist list) action"
  pc_Playlist :: "string \<Rightarrow> ('s, Playlist) action"
  pc_SavePlaylist :: "Playlist \<Rightarrow> ('s, unit) action"
  pc_DeletePlaylist :: "string \<Rightarrow> ('s, unit) action"

record PlaylistUpdate =
  pu_Name :: "string option"
  pu_Comment :: "string option"
  pu_Public :: "bool option"
  pu_SongIDsToAdd :: "string list"
  pu_SongIndexesToRemove :: "int list"

record 's PlaylistService =
  ps_catalog :: "'s playlistCatalog"
  ps_now :: "'s \<Rightarrow> time \<times> 's"
  ps_newID :: "('s, string) action"

definition PlaylistService_List :: "'s PlaylistService \<Rightarrow> string \<Rightarrow> ('s, Playlist list) action" where
  "PlaylistService_List svc owner = pc_Playlists (ps_catalog svc) owner"

definition PlaylistService_Get :: "'s PlaylistService \<Rightarrow> string \<Rightarrow> string \<Rightarrow> ('s, Playlist) action" where
  "PlaylistService_Get svc owner i =
    bindE (pc_Playlist (ps_catalog svc) i) (\<lambda>playlist.
      if pl_Owner playlist \<noteq> owner \<and> \<not> pl_Public playlist then fail ErrNotFound else ret playlist)"

definition owned :: "'s PlaylistService \<Rightarrow> string \<Rightarrow> string \<Rightarrow> ('s, Playlist) action" where
  "owned svc owner i =
    bindE (pc_Playlist (ps_catalog svc) i) (\<lambda>playlist.
      if pl_Owner playlist \<noteq> owner then fail ErrNotFound else ret playlist)"

fun resolveTracks :: "'s PlaylistService \<Rightarrow> string list \<Rightarrow> ('s, Track list) action" where
  "resolveTracks svc [] = ret []"
| "resolveTracks svc (i # ids) =
    bindE (wrapE ''resolve playlist song'' (pc_Track (ps_catalog svc) i)) (\<lambda>track.
      bindE (resolveTracks svc ids) (\<lambda>tracks. ret (track # tracks)))"

definition add_durations :: "Track list \<Rightarrow> duration" where
  "add_durations tracks = foldl (\<lambda>d t. i64 (d + track_Duration t)) 0 tracks"

definition summarizePlaylist :: "Playlist \<Rightarrow> Playlist" where
  "summarizePlaylist playlist = playlist\<lparr>pl_SongCount := int (length (pl_Tracks playlist)),
     pl_Duration := add_durations (pl_Tracks playlist)\<rparr>"

text \<open>The last steps of \<open>CreateOrReplace\<close> and of \<open>Update\<close>.\<close>

definition save_playlist :: "'s PlaylistService \<Rightarrow> Playlist \<Rightarrow> ('s, Playlist) action" where
  "save_playlist svc playlist =
    bindE (pc_SavePlaylist (ps_catalog svc) playlist) (\<lambda>_. ret (summarizePlaylist playlist))"

text \<open>The playlist \<open>CreateOrReplace\<close> starts from: a new one, or one of the owner.\<close>

definition playlist_to_fill :: "'s PlaylistService \<Rightarrow> string \<Rightarrow> string \<Rightarrow> string \<Rightarrow> time \<Rightarrow> ('s, Playlist) action" where
  "playlist_to_fill svc owner i name now =
    (if i = '''' then
       (if name = '''' then fail (Wrap ''playlist name is required'' ErrInvalidPlaylist)
        else bindE (wrapE ''create playlist id'' (ps_newID svc)) (\<lambda>j.
          ret \<lparr>pl_ID = j, pl_Name = name, pl_Comment = '''', pl_Owner = owner, pl_Public = False,
               pl_Created = now, pl_Changed = 0, pl_SongCount = 0, pl_Duration = 0, pl_Tracks = []\<rparr>))
     else bindE (owned svc owner i) (\<lambda>playlist.
       ret (if name \<noteq> '''' then playlist\<lparr>pl_Name := name\<rparr> else playlist)))"

definition PlaylistService_CreateOrReplace ::
  "'s PlaylistService \<Rightarrow> string \<Rightarrow> string \<Rightarrow> string \<Rightarrow> string list \<Rightarrow> ('s, Playlist) action" where
  "PlaylistService_CreateOrReplace svc owner i name songIDs =
    readE (ps_now svc) (\<lambda>now.
      bindE (playlist_to_fill svc owner i (TrimSpace name) now) (\<lambda>playlist.
        bindE (resolveTracks svc songIDs) (\<lambda>tracks.
          save_playlist svc (playlist\<lparr>pl_Tracks := tracks, pl_Changed := now\<rparr>))))"

text \<open>The indexes to remove are checked against the length, the others kept in order.\<close>

definition remaining_tracks :: "int list \<Rightarrow> Track list \<Rightarrow> Track list" where
  "remaining_tracks remove tracks = map snd (filter (\<lambda>(k, _). int k \<notin> set remove) (enumerate 0 tracks))"

text \<open>The name, the comment and the visibility of an update.\<close>

definition update_fields :: "PlaylistUpdate \<Rightarrow> Playlist \<Rightarrow> Playlist result" where
  "update_fields update p =
    (let p1 = (case pu_Name update of None \<Rightarrow> p | Some n \<Rightarrow> p\<lparr>pl_Name := TrimSpace n\<rparr>);
         p2 = (case pu_Comment update of None \<Rightarrow> p1 | Some c \<Rightarrow> p1\<lparr>pl_Comment := c\<rparr>);
         p3 = (case pu_Public update of None \<Rightarrow> p2 | Some b \<Rightarrow> p2\<lparr>pl_Public := b\<rparr>)
     in if map_option TrimSpace (pu_Name update) = Some ''''
        then Inl (Wrap ''playlist name cannot be empty'' ErrInvalidPlaylist) else Inr p3)"

definition PlaylistService_Update ::
  "'s PlaylistService \<Rightarrow> string \<Rightarrow> string \<Rightarrow> PlaylistUpdate \<Rightarrow> ('s, Playlist) action" where
  "PlaylistService_Update svc owner i update =
    bindE (owned svc owner i) (\<lambda>playlist.
      bindE (liftR (update_fields update playlist)) (\<lambda>playlist.
        if \<not> list_all (\<lambda>k. 0 \<le> k \<and> k < int (length (pl_Tracks playlist))) (pu_SongIndexesToRemove update)
        then fail (Wrap ''song index is out of range'' ErrInvalidPlaylist)
        else bindE (resolveTracks svc (pu_SongIDsToAdd update)) (\<lambda>added.
          readE (ps_now svc) (\<lambda>now.
            save_playlist svc (playlist\<lparr>
              pl_Tracks := remaining_tracks (pu_SongIndexesToRemove update) (pl_Tracks playlist) @ added,
              pl_Changed := now\<rparr>)))))"

definition PlaylistService_Delete :: "'s PlaylistService \<Rightarrow> string \<Rightarrow> string \<Rightarrow> ('s, unit) action" where
  "PlaylistService_Delete svc owner i =
    bindE (owned svc owner i) (\<lambda>_. pc_DeletePlaylist (ps_catalog svc) i)"

text \<open>\<open>base64.RawURLEncoding\<close>: six bits per character, no padding.\<close>

definition base64_char :: "nat \<Rightarrow> char" where
  "base64_char n = char_of (if n < 26 then 65 + n else if n < 52 then 71 + n else if n < 62 then n - 4
     else if n = 62 then 45 else 95)"

fun RawURLEncoding :: "string \<Rightarrow> string" where
  "RawURLEncoding [] = []"
| "RawURLEncoding [a] = [base64_char (byte a div 4), base64_char (byte a mod 4 * 16)]"
| "RawURLEncoding [a, b] =
    [base64_char (byte a div 4), base64_char (byte a mod 4 * 16 + byte b div 16), base64_char (byte b mod 16 * 4)]"
| "RawURLEncoding (a # b # c # cs) =
    base64_char (byte a div 4) # base64_char (byte a mod 4 * 16 + byte b div 16)
    # base64_char (byte b mod 16 * 4 + byte c div 64) # base64_char (byte c mod 64) # RawURLEncoding cs"

definition newPlaylistID :: "(nat \<Rightarrow> string result) \<Rightarrow> (world, string) action" where
  "newPlaylistID rand_Read = bindE (env_read rand_Read) (\<lambda>random. ret (''playlist_'' @ RawURLEncoding random))"

section \<open>SQL store\<close>

definition playlist_of :: "playlist_row \<Rightarrow> Track list \<Rightarrow> Playlist" where
  "playlist_of r tracks = \<lparr>pl_ID = plr_id r, pl_Name = plr_name r, pl_Comment = plr_comment r, pl_Owner = plr_owner r,
     pl_Public = plr_public r, pl_Created = plr_created_at r, pl_Changed = plr_changed_at r,
     pl_SongCount = int (length tracks), pl_Duration = add_durations tracks, pl_Tracks = tracks\<rparr>"

definition playlist_summary :: "world \<Rightarrow> playlist_row \<Rightarrow> Playlist" where
  "playlist_summary w r =
    (let tracks = join_tracks (w_tracks w) (w_playlist_tracks w) (plr_id r) in
     (playlist_of r [])\<lparr>pl_SongCount := int (length tracks),
       pl_Duration := i64 (sum_list (map (\<lambda>t. milliseconds (track_Duration t)) tracks) * millisecond)\<rparr>)"

definition sqlite_Playlists :: "string \<Rightarrow> (world, Playlist list) action" where
  "sqlite_Playlists owner = wrapE ''query playlists'' (db_query (\<lambda>w.
     SliceStable (\<lambda>a b. sql_LOWER (pl_Name a) < sql_LOWER (pl_Name b))
       (map (playlist_summary w) (filter (\<lambda>r. plr_owner r = owner \<or> plr_public r) (w_playlists w)))))"

definition sqlite_Playlist :: "string \<Rightarrow> (world, Playlist) action" where
  "sqlite_Playlist i =
    bindE (wrapE ''query playlist'' (db_query (\<lambda>w. find_key plr_id i (w_playlists w)))) (\<lambda>row.
      case row of None \<Rightarrow> fail ErrNotFound
      | Some r \<Rightarrow> bindE (wrapE ''query playlist tracks'' (db_query (\<lambda>w.
            join_tracks (w_tracks w) (w_playlist_tracks w) i))) (\<lambda>tracks. ret (playlist_of r tracks)))"

text \<open>\<open>ON CONFLICT(id) DO UPDATE\<close> sets everything but \<open>created_at\<close>.\<close>

definition upsert_playlist :: "Playlist \<Rightarrow> world \<Rightarrow> world" where
  "upsert_playlist p w = w\<lparr>w_playlists := upsert plr_id
     \<lparr>plr_id = pl_ID p, plr_owner = pl_Owner p, plr_name = pl_Name p, plr_comment = pl_Comment p,
      plr_public = pl_Public p,
      plr_created_at = (case find_key plr_id (pl_ID p) (w_playlists w) of
        None \<Rightarrow> pl_Created p | Some old \<Rightarrow> plr_created_at old),
      plr_changed_at = pl_Changed p\<rparr> (w_playlists w)\<rparr>"

definition sqlite_SavePlaylist :: "Playlist \<Rightarrow> (world, unit) action" where
  "sqlite_SavePlaylist p =
    db_tx ''begin playlist save'' ''commit playlist save''
      (bindE (wrapE ''save playlist'' (db_exec (upsert_playlist p))) (\<lambda>_.
        replace_tracks w_playlist_tracks_update ''clear playlist tracks'' ''prepare playlist track insert''
          ''insert playlist track'' (pl_ID p) (pl_Tracks p)))"

text \<open>The rows of \<open>playlist_tracks\<close> go with their playlist (\<open>ON DELETE CASCADE\<close>).\<close>

definition sqlite_DeletePlaylist :: "string \<Rightarrow> (world, unit) action" where
  "sqlite_DeletePlaylist i =
    bindE (wrapE ''delete playlist'' (db_stmt (\<lambda>w.
        (Inr (length (filter (\<lambda>r. plr_id r = i) (w_playlists w))),
         w\<lparr>w_playlists := filter (\<lambda>r. plr_id r \<noteq> i) (w_playlists w),
           w_playlist_tracks := filter (\<lambda>(k, _, _). k \<noteq> i) (w_playlist_tracks w)\<rparr>))))
      (\<lambda>deleted. if deleted = 0 then fail ErrNotFound else ret ())"

definition sqlite_playlistCatalog :: "world playlistCatalog" where
  "sqlite_playlistCatalog = \<lparr>pc_Track = sqlite_Track, pc_Playlists = sqlite_Playlists, pc_Playlist = sqlite_Playlist,
     pc_SavePlaylist = sqlite_SavePlaylist, pc_DeletePlaylist = sqlite_DeletePlaylist\<rparr>"

definition NewPlaylistService :: "(nat \<Rightarrow> string result) \<Rightarrow> world PlaylistService" where
  "NewPlaylistService rand_Read =
    \<lparr>ps_catalog = sqlite_playlistCatalog, ps_now = time_Now, ps_newID = newPlaylistID rand_Read\<rparr>"

section \<open>What the service relies on\<close>

text \<open>
  \<open>view\<close> is the playlists of a state by identifier, \<open>known\<close> the tracks of the catalog. A saved playlist
  is read back, with the creation time it first had.
\<close>

definition stored_playlist :: "Playlist option \<Rightarrow> Playlist \<Rightarrow> Playlist" where
  "stored_playlist old p = summarizePlaylist (p\<lparr>pl_Created := (case old of None \<Rightarrow> pl_Created p | Some q \<Rightarrow> pl_Created q)\<rparr>)"

lemma summarizePlaylist_sel [simp]:
  "pl_ID (summarizePlaylist p) = pl_ID p" "pl_Owner (summarizePlaylist p) = pl_Owner p"
  "pl_Created (summarizePlaylist p) = pl_Created p" "pl_Tracks (summarizePlaylist p) = pl_Tracks p"
  "stored_playlist x (summarizePlaylist p) = stored_playlist x p"
  by (simp_all add: summarizePlaylist_def stored_playlist_def split: option.split)

lemma stored_playlist_same [simp]:
  "pl_Created p = pl_Created q \<Longrightarrow> stored_playlist (Some q) p = summarizePlaylist p"
  by (cases p) (simp add: stored_playlist_def)

locale playlist_store =
  fixes cat :: "'s playlistCatalog"
    and view :: "'s \<Rightarrow> string \<rightharpoonup> Playlist"
    and known :: "'s \<Rightarrow> Track set"
    and wf :: "'s \<Rightarrow> bool"
  assumes view_wf: "view s i = Some p \<Longrightarrow> pl_ID p = i \<and> set (pl_Tracks p) \<subseteq> known s"
    and Track_frame: "pc_Track cat i s = (rt, s') \<Longrightarrow> wf s \<Longrightarrow> wf s' \<and> view s' = view s \<and> known s' = known s"
    and Track_ok: "pc_Track cat i s = (Inr t, s') \<Longrightarrow> wf s \<Longrightarrow> t \<in> known s"
    and Playlist_frame: "pc_Playlist cat i s = (rp, s') \<Longrightarrow> wf s \<Longrightarrow> wf s' \<and> view s' = view s \<and> known s' = known s"
    and Playlist_ok: "pc_Playlist cat i s = (Inr p, s') \<Longrightarrow> wf s \<Longrightarrow> view s i = Some p"
    and Playlists_frame: "pc_Playlists cat i s = (rl, s') \<Longrightarrow> wf s \<Longrightarrow> wf s' \<and> view s' = view s \<and> known s' = known s"
    and Save_err: "pc_SavePlaylist cat p s = (Inl e, s') \<Longrightarrow> wf s \<Longrightarrow> wf s' \<and> view s' = view s \<and> known s' = known s"
    and Save_ok: "pc_SavePlaylist cat p s = (Inr u, s') \<Longrightarrow> wf s \<Longrightarrow> set (pl_Tracks p) \<subseteq> known s \<Longrightarrow>
      wf s' \<and> known s' = known s \<and> view s' = (view s)(pl_ID p \<mapsto> stored_playlist (view s (pl_ID p)) p)"
    and Delete_err: "pc_DeletePlaylist cat i s = (Inl e, s') \<Longrightarrow> wf s \<Longrightarrow> wf s' \<and> view s' = view s \<and> known s' = known s"
    and Delete_ok: "pc_DeletePlaylist cat i s = (Inr u, s') \<Longrightarrow> wf s \<Longrightarrow>
      wf s' \<and> known s' = known s \<and> view s i \<noteq> None \<and> view s' = (view s)(i := None)"

locale playlist_service = playlist_store "ps_catalog svc" view known wf
  for svc :: "'s PlaylistService" and view :: "'s \<Rightarrow> string \<rightharpoonup> Playlist" and known :: "'s \<Rightarrow> Track set"
    and wf :: "'s \<Rightarrow> bool" +
  assumes now_frame: "ps_now svc s = (t, s') \<Longrightarrow> wf s \<Longrightarrow> wf s' \<and> view s' = view s \<and> known s' = known s"
    and newID_frame: "ps_newID svc s = (ri, s') \<Longrightarrow> wf s \<Longrightarrow> wf s' \<and> view s' = view s \<and> known s' = known s"
begin

definition same :: "'s \<Rightarrow> 's \<Rightarrow> bool" where
  "same s s' = (wf s' \<and> view s' = view s \<and> known s' = known s)"

lemma same_trans: "same s s1 \<Longrightarrow> same s1 s2 \<Longrightarrow> same s s2"
  by (simp add: same_def)

lemma same_wf: "same s s1 \<Longrightarrow> wf s1"
  by (simp add: same_def)

lemma now_same: "wf s \<Longrightarrow> ps_now svc s = (t, s') \<Longrightarrow> same s s'"
  using now_frame by (simp add: same_def)

lemma owned_wp:
  "wf s \<Longrightarrow> wp (owned svc owner i) (\<lambda>r s'. same s s' \<and> (\<forall>p. r = Inr p \<longrightarrow>
     view s i = Some p \<and> pl_Owner p = owner \<and> pl_ID p = i \<and> set (pl_Tracks p) \<subseteq> known s)) s"
  unfolding owned_def
proof (rule wp_bindI [where R = "\<lambda>r s'. same s s' \<and> (\<forall>p. r = Inr p \<longrightarrow> view s i = Some p)"])
  assume "wf s"
  then show "wp (pc_Playlist (ps_catalog svc) i) (\<lambda>r s'. same s s' \<and> (\<forall>p. r = Inr p \<longrightarrow> view s i = Some p)) s"
    using Playlist_frame Playlist_ok by (intro wpI) (auto simp: same_def)
next
  fix p s' assume "same s s' \<and> (\<forall>x. Inr p = (Inr x :: Playlist result) \<longrightarrow> view s i = Some x)"
  then have "same s s'" "view s i = Some p" by auto
  with view_wf [OF this(2)] show "wp (if pl_Owner p \<noteq> owner then fail ErrNotFound else ret p) (\<lambda>r s'. same s s' \<and>
      (\<forall>p. r = Inr p \<longrightarrow> view s i = Some p \<and> pl_Owner p = owner \<and> pl_ID p = i \<and> set (pl_Tracks p) \<subseteq> known s)) s'"
    by (simp add: wp_simps)
qed simp

lemma resolveTracks_wp:
  "wf s \<Longrightarrow> wp (resolveTracks svc ids) (\<lambda>r s'. same s s' \<and> (\<forall>ts. r = Inr ts \<longrightarrow>
     set ts \<subseteq> known s \<and> length ts = length ids)) s"
proof (induction ids arbitrary: s)
  case Nil
  then show ?case by (simp add: wp_simps same_def)
next
  case (Cons i ids)
  have "wp (pc_Track (ps_catalog svc) i) (\<lambda>r s'. same s s' \<and> (\<forall>t. r = Inr t \<longrightarrow> t \<in> known s)) s"
    using Cons.prems by (auto intro!: wpI simp: same_def Track_frame Track_ok)
  then have t: "wp (wrapE ''resolve playlist song'' (pc_Track (ps_catalog svc) i))
      (\<lambda>r s'. same s s' \<and> (\<forall>t. r = Inr t \<longrightarrow> t \<in> known s)) s"
    by (rule wp_wrapI) auto
  show ?case
    unfolding resolveTracks.simps
  proof (rule wp_bindI [OF t])
    fix t s1 assume "same s s1 \<and> (\<forall>x. Inr t = (Inr x :: Track result) \<longrightarrow> x \<in> known s)"
    then have s1: "same s s1" "t \<in> known s" by auto
    show "wp (bindE (resolveTracks svc ids) (\<lambda>tracks. ret (t # tracks))) (\<lambda>r s'. same s s' \<and>
        (\<forall>ts. r = Inr ts \<longrightarrow> set ts \<subseteq> known s \<and> length ts = length (i # ids))) s1"
      by (rule wp_bindI [OF Cons.IH [OF same_wf [OF s1(1)]]]) (use s1 in \<open>auto simp: wp_simps same_def\<close>)
  qed auto
qed

lemma save_playlist_wp:
  "wf s \<Longrightarrow> set (pl_Tracks p) \<subseteq> known s \<Longrightarrow> wp (save_playlist svc p) (\<lambda>r s'. wf s' \<and> (case r of
     Inl _ \<Rightarrow> view s' = view s
   | Inr q \<Rightarrow> q = summarizePlaylist p \<and> view s' = (view s)(pl_ID p \<mapsto> stored_playlist (view s (pl_ID p)) p))) s"
  unfolding save_playlist_def
  by (rule wp_bindI [where R = "\<lambda>r s'. wf s' \<and> (case r of Inl _ \<Rightarrow> view s' = view s
        | Inr _ \<Rightarrow> view s' = (view s)(pl_ID p \<mapsto> stored_playlist (view s (pl_ID p)) p))"])
    (auto intro!: wpI simp: Save_err Save_ok split: sum.split)

lemma update_fields_ok:
  "update_fields upd p = Inr q \<Longrightarrow> pl_ID q = pl_ID p \<and> pl_Owner q = pl_Owner p \<and> pl_Tracks q = pl_Tracks p
    \<and> pl_Created q = pl_Created p"
  by (auto simp: update_fields_def Let_def split: if_splits option.splits)

lemma set_remaining_tracks: "set (remaining_tracks ks ts) \<subseteq> set ts"
  by (fastforce simp: remaining_tracks_def in_set_enumerate_eq)

lemma Update_wp:
  assumes "wf s"
  shows "wp (PlaylistService_Update svc owner i upd) (\<lambda>r s'. wf s' \<and> (case r of
      Inl _ \<Rightarrow> view s' = view s
    | Inr q \<Rightarrow> view s' = (view s)(i \<mapsto> q) \<and> (\<exists>p added. view s i = Some p \<and> pl_Owner p = owner
        \<and> pl_ID q = i \<and> pl_Owner q = owner \<and> pl_Created q = pl_Created p
        \<and> (\<forall>k \<in> set (pu_SongIndexesToRemove upd). 0 \<le> k \<and> k < int (length (pl_Tracks p)))
        \<and> length added = length (pu_SongIDsToAdd upd)
        \<and> pl_Tracks q = remaining_tracks (pu_SongIndexesToRemove upd) (pl_Tracks p) @ added))) s"
    (is "wp _ ?Q s")
  unfolding PlaylistService_Update_def
proof (rule wp_bindI [OF owned_wp [OF assms]])
  fix p s1 assume "same s s1 \<and> (\<forall>x. Inr p = (Inr x :: Playlist result) \<longrightarrow>
     view s i = Some x \<and> pl_Owner x = owner \<and> pl_ID x = i \<and> set (pl_Tracks x) \<subseteq> known s)"
  then have p: "same s s1" "view s i = Some p" "pl_Owner p = owner" "pl_ID p = i" "set (pl_Tracks p) \<subseteq> known s"
    by auto
  let ?tail = "\<lambda>q. if \<not> list_all (\<lambda>k. 0 \<le> k \<and> k < int (length (pl_Tracks q))) (pu_SongIndexesToRemove upd)
    then fail (Wrap ''song index is out of range'' ErrInvalidPlaylist)
    else bindE (resolveTracks svc (pu_SongIDsToAdd upd)) (\<lambda>added. readE (ps_now svc) (\<lambda>now.
      save_playlist svc (q\<lparr>pl_Tracks := remaining_tracks (pu_SongIndexesToRemove upd) (pl_Tracks q) @ added,
        pl_Changed := now\<rparr>)))"
  have "wp (?tail q) ?Q s1" if q: "update_fields upd p = Inr q" for q
  proof (cases "list_all (\<lambda>k. 0 \<le> k \<and> k < int (length (pl_Tracks q))) (pu_SongIndexesToRemove upd)")
    case False
    with p show ?thesis by (simp add: wp_simps same_def)
  next
    case True
    have "wp (bindE (resolveTracks svc (pu_SongIDsToAdd upd)) (\<lambda>added. readE (ps_now svc) (\<lambda>now.
        save_playlist svc (q\<lparr>pl_Tracks := remaining_tracks (pu_SongIndexesToRemove upd) (pl_Tracks q) @ added,
          pl_Changed := now\<rparr>)))) ?Q s1"
    proof (rule wp_bindI [OF resolveTracks_wp [OF same_wf [OF p(1)]]])
      fix added s2 assume "same s1 s2 \<and> (\<forall>ts. Inr added = (Inr ts :: Track list result) \<longrightarrow>
        set ts \<subseteq> known s1 \<and> length ts = length (pu_SongIDsToAdd upd))"
      then have a: "same s1 s2" "set added \<subseteq> known s1" "length added = length (pu_SongIDsToAdd upd)" by auto
      show "wp (readE (ps_now svc) (\<lambda>now. save_playlist svc (q\<lparr>pl_Tracks := remaining_tracks
          (pu_SongIndexesToRemove upd) (pl_Tracks q) @ added, pl_Changed := now\<rparr>))) ?Q s2"
      proof (rule wp_readI)
        fix now s3 assume "ps_now svc s2 = (now, s3)"
        then have s: "same s s3" using now_same a p same_trans same_wf by metis
        note f = update_fields_ok [OF q]
        show "wp (save_playlist svc (q\<lparr>pl_Tracks := remaining_tracks (pu_SongIndexesToRemove upd) (pl_Tracks q) @ added,
            pl_Changed := now\<rparr>)) ?Q s3"
          by (rule wp_mono [OF save_playlist_wp])
            (use s a p f True set_remaining_tracks [of "pu_SongIndexesToRemove upd" "pl_Tracks p"] in
              \<open>auto simp: same_def list_all_iff split: sum.splits\<close>)
      qed
    qed (use p in \<open>auto simp: same_def\<close>)
    with True show ?thesis by simp
  qed
  then show "wp (bindE (liftR (update_fields upd p)) ?tail) ?Q s1"
    using p by (intro wp_bindI [where R = "\<lambda>r s'. s' = s1 \<and> r = update_fields upd p"])
      (auto simp: wp_liftR same_def dest: sym)
qed (auto simp: same_def)

lemma playlist_to_fill_wp:
  assumes "wf s"
  shows "wp (playlist_to_fill svc owner i name now) (\<lambda>r s'. same s s' \<and> (\<forall>p. r = Inr p \<longrightarrow> pl_Owner p = owner
    \<and> (if i = '''' then \<exists>s1. fst (ps_newID svc s1) = Inr (pl_ID p)
       else pl_ID p = i \<and> (\<exists>p'. view s i = Some p' \<and> pl_Owner p' = owner \<and> pl_Created p = pl_Created p')))) s"
    (is "wp _ ?Q s")
proof (cases "i = ''''")
  case True
  have "wp (bindE (wrapE ''create playlist id'' (ps_newID svc)) (\<lambda>j.
          ret \<lparr>pl_ID = j, pl_Name = name, pl_Comment = '''', pl_Owner = owner, pl_Public = False,
               pl_Created = now, pl_Changed = 0, pl_SongCount = 0, pl_Duration = 0, pl_Tracks = []\<rparr>)) ?Q s"
    using assms True newID_frame [of s]
    by (auto simp: wp_simps same_def split: sum.split intro!: wpI exI [of _ s])
  with assms True show ?thesis by (auto simp: playlist_to_fill_def wp_simps same_def)
next
  case False
  have "wp (bindE (owned svc owner i) (\<lambda>p. ret (if name \<noteq> '''' then p\<lparr>pl_Name := name\<rparr> else p))) ?Q s"
    by (rule wp_bindI [OF owned_wp [OF assms]]) (use False in \<open>auto simp: wp_simps\<close>)
  with False show ?thesis by (simp add: playlist_to_fill_def)
qed

lemma Create_wp:
  assumes "wf s"
  shows "wp (PlaylistService_CreateOrReplace svc owner i name ids) (\<lambda>r s'. wf s' \<and> (case r of
      Inl _ \<Rightarrow> view s' = view s
    | Inr q \<Rightarrow> view s' = (view s)(pl_ID q \<mapsto> stored_playlist (view s (pl_ID q)) q) \<and> pl_Owner q = owner
        \<and> length (pl_Tracks q) = length ids
        \<and> (if i = '''' then \<exists>s1. fst (ps_newID svc s1) = Inr (pl_ID q) else
            pl_ID q = i \<and> (\<exists>p. view s i = Some p \<and> pl_Owner p = owner \<and> pl_Created q = pl_Created p)))) s"
    (is "wp _ ?Q s")
  unfolding PlaylistService_CreateOrReplace_def
proof (rule wp_readI)
  fix now s1 assume "ps_now svc s = (now, s1)"
  then have s1: "same s s1" using now_same assms by blast
  show "wp (bindE (playlist_to_fill svc owner i (TrimSpace name) now) (\<lambda>p. bindE (resolveTracks svc ids) (\<lambda>tracks.
          save_playlist svc (p\<lparr>pl_Tracks := tracks, pl_Changed := now\<rparr>)))) ?Q s1"
  proof (rule wp_bindI [OF playlist_to_fill_wp [OF same_wf [OF s1]]])
    fix p s2 assume "same s1 s2 \<and> (\<forall>x. Inr p = (Inr x :: Playlist result) \<longrightarrow> pl_Owner x = owner
      \<and> (if i = '''' then \<exists>s1. fst (ps_newID svc s1) = Inr (pl_ID x)
         else pl_ID x = i \<and> (\<exists>p'. view s1 i = Some p' \<and> pl_Owner p' = owner \<and> pl_Created x = pl_Created p')))"
    then have p: "same s s2" "pl_Owner p = owner" "if i = '''' then \<exists>s1. fst (ps_newID svc s1) = Inr (pl_ID p)
         else pl_ID p = i \<and> (\<exists>p'. view s i = Some p' \<and> pl_Owner p' = owner \<and> pl_Created p = pl_Created p')"
      using s1 by (auto simp: same_def)
    show "wp (bindE (resolveTracks svc ids) (\<lambda>tracks. save_playlist svc (p\<lparr>pl_Tracks := tracks, pl_Changed := now\<rparr>))) ?Q s2"
    proof (rule wp_bindI [OF resolveTracks_wp [OF same_wf [OF p(1)]]])
      fix ts s3 assume "same s2 s3 \<and> (\<forall>x. Inr ts = (Inr x :: Track list result) \<longrightarrow> set x \<subseteq> known s2 \<and> length x = length ids)"
      then have t: "same s s3" "set ts \<subseteq> known s3" "length ts = length ids" using p by (auto simp: same_def)
      show "wp (save_playlist svc (p\<lparr>pl_Tracks := ts, pl_Changed := now\<rparr>)) ?Q s3"
        by (rule wp_mono [OF save_playlist_wp])
          (use t p in \<open>auto simp: same_def split: sum.splits if_splits\<close>)
    qed (use p in \<open>auto simp: same_def\<close>)
  qed (use s1 in \<open>auto simp: same_def\<close>)
qed

lemma Delete_wp:
  assumes "wf s"
  shows "wp (PlaylistService_Delete svc owner i) (\<lambda>r s'. wf s' \<and> (case r of Inl _ \<Rightarrow> view s' = view s
    | Inr _ \<Rightarrow> view s' = (view s)(i := None) \<and> (\<exists>p. view s i = Some p \<and> pl_Owner p = owner))) s"
  unfolding PlaylistService_Delete_def
proof (rule wp_bindI [OF owned_wp [OF assms]])
  fix p s1 assume "same s s1 \<and> (\<forall>x. Inr p = (Inr x :: Playlist result) \<longrightarrow>
     view s i = Some x \<and> pl_Owner x = owner \<and> pl_ID x = i \<and> set (pl_Tracks x) \<subseteq> known s)"
  then show "wp (pc_DeletePlaylist (ps_catalog svc) i) (\<lambda>r s'. wf s' \<and> (case r of Inl _ \<Rightarrow> view s' = view s
    | Inr _ \<Rightarrow> view s' = (view s)(i := None) \<and> (\<exists>p. view s i = Some p \<and> pl_Owner p = owner))) s1"
    using Delete_err [of i s1] Delete_ok [of i s1] by (auto intro!: wpI simp: same_def split: sum.split)
qed (auto simp: same_def)

end

section \<open>Sequences of calls\<close>

datatype playlist_call =
    GetCall string
  | ListCall
  | CreateCall string string "string list"
  | UpdateCall string PlaylistUpdate
  | DeleteCall string

fun run_playlist_call :: "'s PlaylistService \<Rightarrow> string \<Rightarrow> playlist_call \<Rightarrow> ('s, unit) action" where
  "run_playlist_call svc owner (GetCall i) = bindE (PlaylistService_Get svc owner i) (\<lambda>_. ret ())"
| "run_playlist_call svc owner ListCall = bindE (PlaylistService_List svc owner) (\<lambda>_. ret ())"
| "run_playlist_call svc owner (CreateCall i name ids) =
    bindE (PlaylistService_CreateOrReplace svc owner i name ids) (\<lambda>_. ret ())"
| "run_playlist_call svc owner (UpdateCall i update) = bindE (PlaylistService_Update svc owner i update) (\<lambda>_. ret ())"
| "run_playlist_call svc owner (DeleteCall i) = PlaylistService_Delete svc owner i"

fun run_playlist_calls :: "'s PlaylistService \<Rightarrow> (string \<times> playlist_call) list \<Rightarrow> 's \<Rightarrow> 's" where
  "run_playlist_calls svc [] s = s"
| "run_playlist_calls svc ((owner, c) # cs) s = run_playlist_calls svc cs (snd (run_playlist_call svc owner c s))"

context playlist_service
begin

lemma Get_wp: "wf s \<Longrightarrow> wp (PlaylistService_Get svc owner i) (\<lambda>r s'. same s s' \<and> (\<forall>p. r = Inr p \<longrightarrow>
    view s i = Some p \<and> (pl_Owner p = owner \<or> pl_Public p))) s"
  unfolding PlaylistService_Get_def
proof (rule wp_bindI [where R = "\<lambda>r s'. same s s' \<and> (\<forall>p. r = Inr p \<longrightarrow> view s i = Some p)"])
  assume "wf s"
  then show "wp (pc_Playlist (ps_catalog svc) i) (\<lambda>r s'. same s s' \<and> (\<forall>p. r = Inr p \<longrightarrow> view s i = Some p)) s"
    using Playlist_frame Playlist_ok by (intro wpI) (auto simp: same_def)
qed (auto simp: wp_simps)

text \<open>A call keeps every playlist of another owner whose identifier is not drawn for a new one, and a
  failed call keeps all of them.\<close>

lemma call_wp:
  assumes "wf s"
  shows "wp (run_playlist_call svc owner c) (\<lambda>r s'. wf s' \<and> (\<not> is_ok r \<longrightarrow> view s' = view s)
    \<and> (\<forall>k q. view s k = Some q \<longrightarrow> pl_Owner q \<noteq> owner \<longrightarrow> (\<forall>s. fst (ps_newID svc s) \<noteq> Inr k) \<longrightarrow> view s' k = Some q)) s"
    (is "wp _ ?Q s")
proof (cases c)
  case (GetCall i)
  show ?thesis unfolding GetCall run_playlist_call.simps
    by (rule wp_bindI [OF Get_wp [OF assms]]) (auto simp: same_def wp_simps)
next
  case ListCall
  have "wp (PlaylistService_List svc owner) (\<lambda>r s'. same s s') s"
    unfolding PlaylistService_List_def using Playlists_frame assms by (intro wpI) (auto simp: same_def)
  then show ?thesis unfolding ListCall run_playlist_call.simps
    by (rule wp_bindI) (auto simp: same_def wp_simps)
next
  case (CreateCall i name ids)
  show ?thesis unfolding CreateCall run_playlist_call.simps
    by (rule wp_bindI [OF Create_wp [OF assms]]) (auto simp: wp_simps split: if_splits)
next
  case (UpdateCall i update)
  show ?thesis unfolding UpdateCall run_playlist_call.simps
    by (rule wp_bindI [OF Update_wp [OF assms]]) (auto simp: wp_simps)
next
  case (DeleteCall i)
  show ?thesis unfolding DeleteCall run_playlist_call.simps
    by (rule wp_mono [OF Delete_wp [OF assms]]) (auto split: sum.splits)
qed

lemma calls_isolated:
  assumes "wf s" "view s k = Some q" "\<forall>(owner, c) \<in> set cs. owner \<noteq> pl_Owner q" "\<forall>s. fst (ps_newID svc s) \<noteq> Inr k"
  shows "view (run_playlist_calls svc cs s) k = Some q"
  using assms
proof (induction cs arbitrary: s)
  case (Cons oc cs)
  obtain owner c where oc: "oc = (owner, c)" by fastforce
  have "wf (snd (run_playlist_call svc owner c s)) \<and> view (snd (run_playlist_call svc owner c s)) k = Some q"
    using wpD [OF call_wp [OF Cons.prems(1)] prod.collapse [symmetric]] Cons.prems oc by fastforce
  with Cons show ?case by (simp add: oc)
qed simp

end

section \<open>The SQL store provides it\<close>

definition playlist_view :: "world \<Rightarrow> string \<rightharpoonup> Playlist" where
  "playlist_view w i = map_option (\<lambda>r. playlist_of r (join_tracks (w_tracks w) (w_playlist_tracks w) i))
     (find_key plr_id i (w_playlists w))"

definition wf_tracks :: "world \<Rightarrow> bool" where
  "wf_tracks w = distinct (map track_ID (w_tracks w))"

definition playlist_tables where
  "playlist_tables w = (w_tracks w, w_playlists w, w_playlist_tracks w)"

lemma playlist_tables_eq:
  "playlist_tables w' = playlist_tables w \<Longrightarrow> wf_tracks w \<Longrightarrow>
    wf_tracks w' \<and> playlist_view w' = playlist_view w \<and> set (w_tracks w') = set (w_tracks w)"
  by (simp add: playlist_tables_def wf_tracks_def playlist_view_def fun_eq_iff)

lemma playlist_tables_store: "store_of w' = store_of w \<Longrightarrow> playlist_tables w' = playlist_tables w"
  unfolding playlist_tables_def by (simp add: store_of_eq_tables [of w' w])

lemma playlist_tables_spend [simp]: "playlist_tables (spend_fault w) = playlist_tables w"
  by (simp add: playlist_tables_def)

lemma sqlite_Track_wp:
  "wp (sqlite_Track i) (\<lambda>r w'. store_of w' = store_of w \<and> (\<forall>t. r = Inr t \<longrightarrow> t \<in> set (w_tracks w))) w"
  by (auto simp: sqlite_Track_def sqlite_resolveTrackID_def wp_simps split: option.split dest: find_key_SomeD)

lemma sqlite_Playlist_wp:
  "wp (sqlite_Playlist i) (\<lambda>r w'. playlist_tables w' = playlist_tables w \<and> (\<forall>p. r = Inr p \<longrightarrow> playlist_view w i = Some p)) w"
  by (auto simp: sqlite_Playlist_def wp_simps playlist_view_def split: option.split)

lemma sqlite_Playlists_wp: "wp (sqlite_Playlists i) (\<lambda>r w'. playlist_tables w' = playlist_tables w) w"
  by (auto simp: sqlite_Playlists_def wp_simps)

lemma playlist_of_stored:
  "playlist_of \<lparr>plr_id = pl_ID p, plr_owner = pl_Owner p, plr_name = pl_Name p, plr_comment = pl_Comment p,
      plr_public = pl_Public p, plr_created_at = c, plr_changed_at = pl_Changed p\<rparr> (pl_Tracks p)
   = summarizePlaylist (p\<lparr>pl_Created := c\<rparr>)"
  by (cases p) (simp add: playlist_of_def summarizePlaylist_def)

lemma playlist_of_Created [simp]: "pl_Created (playlist_of r ts) = plr_created_at r"
  by (simp add: playlist_of_def)

lemma sqlite_SavePlaylist_wp:
  assumes "wf_tracks w" "set (pl_Tracks p) \<subseteq> set (w_tracks w)"
  shows "wp (sqlite_SavePlaylist p) (\<lambda>r w'. case r of Inl _ \<Rightarrow> playlist_tables w' = playlist_tables w
    | Inr _ \<Rightarrow> wf_tracks w' \<and> set (w_tracks w') = set (w_tracks w)
        \<and> playlist_view w' = (playlist_view w)(pl_ID p \<mapsto> stored_playlist (playlist_view w (pl_ID p)) p)) w"
  unfolding sqlite_SavePlaylist_def
proof (rule wp_db_txI)
  let ?w1 = "upsert_playlist p w"
  let ?w2 = "w_playlist_tracks_update (\<lambda>rs. filter (\<lambda>(k, _, _). k \<noteq> pl_ID p) rs @ positions (pl_ID p) 0 (pl_Tracks p)) ?w1"
  have "playlist_view ?w2 (pl_ID p) = Some (stored_playlist (playlist_view w (pl_ID p)) p)"
    using join_replaced [of "w_tracks w" "pl_Tracks p" "pl_ID p" "w_playlist_tracks w"] assms
    by (simp add: playlist_view_def upsert_playlist_def wf_tracks_def playlist_of_stored stored_playlist_def split: option.split)
  moreover have "playlist_view ?w2 k = playlist_view w k" if "k \<noteq> pl_ID p" for k
    using that by (simp add: playlist_view_def upsert_playlist_def join_replaced_other)
  ultimately have view: "playlist_view ?w2 = (playlist_view w)(pl_ID p \<mapsto> stored_playlist (playlist_view w (pl_ID p)) p)"
    by (auto simp: fun_eq_iff)
  have body: "playlist_tables (spend_fault w2) = playlist_tables ?w2"
    if v: "db_exec (upsert_playlist p) (spend_fault w) = (Inr (), v)" and r: "replace_tracks w_playlist_tracks_update
      ''clear playlist tracks'' ''prepare playlist track insert'' ''insert playlist track'' (pl_ID p) (pl_Tracks p) v = (Inr x, w2)"
    for v x w2
  proof -
    have "v = spend_fault (spend_fault (upsert_playlist p w))"
      using v by (auto elim!: db_exec_cases simp: upsert_playlist_def spend_fault_def)
    with playlist_rows.replace_tracks_ok [OF r] have "playlist_tables w2 = playlist_tables ?w2"
      by (auto dest!: playlist_tables_store simp: playlist_tables_def)
    then show ?thesis by simp
  qed
  show "wp (bindE (wrapE ''save playlist'' (db_exec (upsert_playlist p))) (\<lambda>_.
      replace_tracks w_playlist_tracks_update ''clear playlist tracks'' ''prepare playlist track insert''
        ''insert playlist track'' (pl_ID p) (pl_Tracks p)))
    (\<lambda>r w2. \<forall>x. r = Inr x \<longrightarrow> (case Inr x of Inl _ \<Rightarrow> playlist_tables (spend_fault w2) = playlist_tables w
      | Inr _ \<Rightarrow> wf_tracks (spend_fault w2) \<and> set (w_tracks (spend_fault w2)) = set (w_tracks w)
        \<and> playlist_view (spend_fault w2) = (playlist_view w)(pl_ID p \<mapsto> stored_playlist (playlist_view w (pl_ID p)) p)))
    (spend_fault w)"
  proof (rule wpI, intro allI impI)
    fix r w2 x assume run: "bindE (wrapE ''save playlist'' (db_exec (upsert_playlist p))) (\<lambda>_.
      replace_tracks w_playlist_tracks_update ''clear playlist tracks'' ''prepare playlist track insert''
        ''insert playlist track'' (pl_ID p) (pl_Tracks p)) (spend_fault w) = (r, w2)" "r = Inr x"
    then have eq: "playlist_tables (spend_fault w2) = playlist_tables ?w2" using body by auto
    moreover have "wf_tracks ?w2" "set (w_tracks ?w2) = set (w_tracks w)"
      using assms by (simp_all add: wf_tracks_def upsert_playlist_def)
    ultimately show "case Inr x of Inl _ \<Rightarrow> playlist_tables (spend_fault w2) = playlist_tables w
      | Inr _ \<Rightarrow> wf_tracks (spend_fault w2) \<and> set (w_tracks (spend_fault w2)) = set (w_tracks w)
        \<and> playlist_view (spend_fault w2) = (playlist_view w)(pl_ID p \<mapsto> stored_playlist (playlist_view w (pl_ID p)) p)"
      using playlist_tables_eq [OF eq] view by simp
  qed
qed (auto dest: playlist_tables_store)

lemma sqlite_DeletePlaylist_wp:
  "wp (sqlite_DeletePlaylist i) (\<lambda>r w'. case r of Inl _ \<Rightarrow> w_tracks w' = w_tracks w \<and> playlist_view w' = playlist_view w
    | Inr _ \<Rightarrow> w_tracks w' = w_tracks w \<and> playlist_view w i \<noteq> None \<and> playlist_view w' = (playlist_view w)(i := None)) w"
proof -
  have join: "k \<noteq> i \<Longrightarrow> join_tracks ts (filter (\<lambda>(k, _, _). k \<noteq> i) rs) k = join_tracks ts rs k" for k ts rs
    using join_replaced_other [of k i ts rs "[]"] by simp
  have none: "filter (\<lambda>r. plr_id r = i) rows = [] \<Longrightarrow> find_key plr_id i rows = None" for rows
    by (auto simp: filter_empty_conv find_key_None_iff)
  have some: "filter (\<lambda>r. plr_id r = i) rows \<noteq> [] \<Longrightarrow> find_key plr_id i rows \<noteq> None" for rows
    by (auto simp: filter_empty_conv find_key_None_iff)
  show ?thesis
    using none [of "w_playlists w"] some [of "w_playlists w"]
    by (auto simp: sqlite_DeletePlaylist_def wp_simps playlist_view_def fun_eq_iff join)
qed

lemma playlist_frame:
  "store_of w' = store_of w \<Longrightarrow> wf_tracks w \<Longrightarrow>
    wf_tracks w' \<and> playlist_view w' = playlist_view w \<and> set (w_tracks w') = set (w_tracks w)"
  by (blast dest: playlist_tables_store playlist_tables_eq)

lemma playlist_view_wf:
  "playlist_view w i = Some p \<Longrightarrow> pl_ID p = i \<and> set (pl_Tracks p) \<subseteq> set (w_tracks w)"
  using join_tracks_subset by (fastforce simp: playlist_view_def playlist_of_def dest: find_key_SomeD)

lemma newPlaylistID_store: "newPlaylistID rnd w = (r, w') \<Longrightarrow> store_of w' = store_of w"
  by (cases "rnd (w_ticks w)") (auto simp: newPlaylistID_def env_read_def bindE_def ret_def store_of_def)

lemma NewPlaylistService_sel [simp]:
  "pc_Track (ps_catalog (NewPlaylistService rnd)) = sqlite_Track"
  "pc_Playlist (ps_catalog (NewPlaylistService rnd)) = sqlite_Playlist"
  "pc_Playlists (ps_catalog (NewPlaylistService rnd)) = sqlite_Playlists"
  "pc_SavePlaylist (ps_catalog (NewPlaylistService rnd)) = sqlite_SavePlaylist"
  "pc_DeletePlaylist (ps_catalog (NewPlaylistService rnd)) = sqlite_DeletePlaylist"
  "ps_now (NewPlaylistService rnd) = time_Now" "ps_newID (NewPlaylistService rnd) = newPlaylistID rnd"
  by (simp_all add: NewPlaylistService_def sqlite_playlistCatalog_def)

interpretation playlists: playlist_service "NewPlaylistService rnd" playlist_view "\<lambda>w. set (w_tracks w)" wf_tracks for rnd
proof (unfold_locales, unfold NewPlaylistService_sel)
  fix w w' :: world and i p
  let ?same = "wf_tracks w' \<and> playlist_view w' = playlist_view w \<and> set (w_tracks w') = set (w_tracks w)"
  show "playlist_view w i = Some p \<Longrightarrow> pl_ID p = i \<and> set (pl_Tracks p) \<subseteq> set (w_tracks w)" by (rule playlist_view_wf)
  show ?same if "sqlite_Track i w = (r, w')" "wf_tracks w" for r
    using wpD [OF sqlite_Track_wp that(1)] that(2) by (intro playlist_frame) auto
  show "t \<in> set (w_tracks w)" if "sqlite_Track i w = (Inr t, w')" for t
    using wpD [OF sqlite_Track_wp that] by blast
  show ?same if "sqlite_Playlist i w = (r, w')" "wf_tracks w" for r
    using wpD [OF sqlite_Playlist_wp that(1)] that(2) by (intro playlist_tables_eq) auto
  show "playlist_view w i = Some p" if "sqlite_Playlist i w = (Inr p, w')"
    using wpD [OF sqlite_Playlist_wp that] by blast
  show ?same if "sqlite_Playlists i w = (r, w')" "wf_tracks w" for r
    using wpD [OF sqlite_Playlists_wp that(1)] that(2) by (intro playlist_tables_eq) auto
  show ?same if "sqlite_SavePlaylist p w = (Inl e, w')" "wf_tracks w" for e
    using that unfolding sqlite_SavePlaylist_def by (intro playlist_frame db_tx_failed)
  show "wf_tracks w' \<and> set (w_tracks w') = set (w_tracks w)
      \<and> playlist_view w' = (playlist_view w)(pl_ID p \<mapsto> stored_playlist (playlist_view w (pl_ID p)) p)"
    if "sqlite_SavePlaylist p w = (Inr u, w')" "wf_tracks w" "set (pl_Tracks p) \<subseteq> set (w_tracks w)" for u
    using wpD [OF sqlite_SavePlaylist_wp [OF that(2,3)] that(1)] by simp
  show ?same if "sqlite_DeletePlaylist i w = (Inl e, w')" "wf_tracks w" for e
    using wpD [OF sqlite_DeletePlaylist_wp that(1)] that(2) by (simp add: wf_tracks_def)
  show "wf_tracks w' \<and> set (w_tracks w') = set (w_tracks w) \<and> playlist_view w i \<noteq> None
      \<and> playlist_view w' = (playlist_view w)(i := None)"
    if "sqlite_DeletePlaylist i w = (Inr u, w')" "wf_tracks w" for u
    using wpD [OF sqlite_DeletePlaylist_wp that(1)] that(2) by (simp add: wf_tracks_def)
  show ?same if "time_Now w = (t, w')" "wf_tracks w" for t
    using store_of_time_Now [of w] that by (intro playlist_frame) auto
  show ?same if "newPlaylistID rnd w = (r, w')" "wf_tracks w" for r
    using that by (intro playlist_frame newPlaylistID_store)
qed

section \<open>Properties\<close>

text \<open>
  C13: a user's playlist is out of reach of the others: whatever sequence of calls other users make,
  with whatever results and database failures, the playlist keeps its name, comment, visibility
  and tracks, provided its identifier is never drawn again for a new playlist.
\<close>

theorem playlists_isolated:
  assumes "wf_tracks w" "playlist_view w i = Some p"
    "\<forall>(owner, c) \<in> set calls. owner \<noteq> pl_Owner p"
    "\<forall>n random. rnd n = Inr random \<longrightarrow> ''playlist_'' @ RawURLEncoding random \<noteq> i"
  shows "playlist_view (run_playlist_calls (NewPlaylistService rnd) calls w) i = Some p"
proof (rule playlists.calls_isolated [OF assms(1-3)])
  show "\<forall>w. fst (ps_newID (NewPlaylistService rnd) w) \<noteq> Inr i"
    using assms(4) by (auto simp: NewPlaylistService_def newPlaylistID_def env_read_def bindE_def ret_def
      split: sum.splits prod.splits)
qed

lemma Get_run:
  "w_faults w = [] \<Longrightarrow> PlaylistService_Get (NewPlaylistService rnd) owner i w =
    (case playlist_view w i of None \<Rightarrow> Inl ErrNotFound
     | Some p \<Rightarrow> if pl_Owner p = owner \<or> pl_Public p then Inr p else Inl ErrNotFound, w)"
  by (simp add: PlaylistService_Get_def NewPlaylistService_def sqlite_playlistCatalog_def sqlite_Playlist_def
    db_query_run run_simps playlist_view_def playlist_of_def split: option.split)


text \<open>
  Only the owner of a playlist, or anyone if it is public, can read it; to the others it does
  not exist.
\<close>

lemma PlaylistService_Get_spec:
  assumes "PlaylistService_Get (NewPlaylistService rnd) owner i w = (r, w')" "w_faults w = []"
  shows "r = (case playlist_view w i of
     Some p \<Rightarrow> if pl_Owner p = owner \<or> pl_Public p then Inr p else Inl ErrNotFound
   | None \<Rightarrow> Inl ErrNotFound)"
proof -
  from assms(1) have "r = fst (PlaylistService_Get (NewPlaylistService rnd) owner i w)" by simp
  then show ?thesis unfolding Get_run [OF assms(2)] by simp
qed

section \<open>A playlist of the small library\<close>

definition demo_rand :: "nat \<Rightarrow> string result" where
  "demo_rand n = Inr (replicate 12 (CHR 0x00))"

definition demo_playlist_row :: playlist_row where
  "demo_playlist_row = \<lparr>plr_id = ''p'', plr_owner = ''ann'', plr_name = ''mix'', plr_comment = '''', plr_public = False,
     plr_created_at = unix_epoch, plr_changed_at = unix_epoch\<rparr>"

definition demo_playlists :: world where
  "demo_playlists = demo_library\<lparr>w_playlists := [demo_playlist_row],
     w_playlist_tracks := [(''p'', 0, ''t''), (''p'', 1, ''t'')]\<rparr>"

lemma demo_playlists_view:
  "wf_tracks demo_playlists"
  "\<exists>t. playlist_view demo_playlists ''p'' = Some (playlist_of demo_playlist_row [t, t])"
proof -
  show "wf_tracks demo_playlists" by (simp add: wf_tracks_def demo_playlists_def)
  obtain t where t: "w_tracks demo_library = [t]" "track_ID t = ''t''"
    by (simp add: demo_library_def demo_track_def)
  then have "playlist_view demo_playlists ''p'' = Some (playlist_of demo_playlist_row [t, t])"
    by (simp add: playlist_view_def demo_playlists_def demo_playlist_row_def join_tracks_def SliceStable_def)
  then show "\<exists>t. playlist_view demo_playlists ''p'' = Some (playlist_of demo_playlist_row [t, t])" by blast
qed

theorem playlists_isolated_witness:
  "\<exists>p. playlist_view (run_playlist_calls (NewPlaylistService demo_rand)
      [(''bob'', DeleteCall ''p''), (''eve'', CreateCall ''p'' ''mine'' [])] demo_playlists) ''p'' = Some p
    \<and> pl_Owner p = ''ann''"
proof -
  obtain t where v: "playlist_view demo_playlists ''p'' = Some (playlist_of demo_playlist_row [t, t])"
    using demo_playlists_view by blast
  have "playlist_view (run_playlist_calls (NewPlaylistService demo_rand)
      [(''bob'', DeleteCall ''p''), (''eve'', CreateCall ''p'' ''mine'' [])] demo_playlists) ''p''
    = Some (playlist_of demo_playlist_row [t, t])"
    by (rule playlists_isolated [OF demo_playlists_view(1) v])
      (auto simp: playlist_of_def demo_playlist_row_def demo_rand_def)
  then show ?thesis by (simp add: playlist_of_def demo_playlist_row_def)
qed

definition demo_update :: PlaylistUpdate where
  "demo_update = \<lparr>pu_Name = None, pu_Comment = None, pu_Public = None, pu_SongIDsToAdd = [], pu_SongIndexesToRemove = [0]\<rparr>"

lemma demo_update_run:
  "\<exists>q w'. PlaylistService_Update (NewPlaylistService rnd) ''ann'' ''p'' demo_update demo_playlists = (Inr q, w') \<and> w_faults w' = []"
  by (simp add: PlaylistService_Update_def NewPlaylistService_def sqlite_playlistCatalog_def sqlite_Playlist_def owned_def
    db_query_run db_exec_run run_simps demo_playlists_def demo_playlist_row_def demo_update_def playlist_of_def update_fields_def
    demo_library_def empty_world_def demo_track_def join_tracks_def SliceStable_def save_playlist_def sqlite_SavePlaylist_def
    db_tx_def upsert_playlist_def replace_tracks_def prepare_def remaining_tracks_def time_Now_def Let_def)


end
