(* ===== verification/PlayQueues.thy ===== *)
theory PlayQueues
  imports Playlists
begin

text \<open>
  The saved play queue of a user: \<open>core/services/playqueue.go\<close> over
  \<open>adapters/storage/sqlite/playqueue.go\<close>.
\<close>

section \<open>Service\<close>

definition maxPlayQueueTracks :: nat where
  "maxPlayQueueTracks = 10000"

record 's PlayQueueStore =
  qs_PlayQueue :: "string \<Rightarrow> ('s, PlayQueue) action"
  qs_SavePlayQueue :: "PlayQueue \<Rightarrow> ('s, unit) action"

record 's PlayQueueService =
  pqs_Track :: "string \<Rightarrow> ('s, Track) action"
  pqs_store :: "'s PlayQueueStore"
  pqs_now :: "'s \<Rightarrow> time \<times> 's"

text \<open>A queue whose current track is gone starts over at its first track.\<close>

definition normalize_queue :: "PlayQueue \<Rightarrow> PlayQueue" where
  "normalize_queue queue =
    (case pq_Tracks queue of
       [] \<Rightarrow> queue\<lparr>pq_CurrentID := '''', pq_PositionMS := 0\<rparr>
     | first # _ \<Rightarrow>
         if list_ex (\<lambda>track. track_ID track = pq_CurrentID queue) (pq_Tracks queue) then queue
         else queue\<lparr>pq_CurrentID := track_ID first, pq_PositionMS := 0\<rparr>)"

definition PlayQueueService_Get :: "'s PlayQueueService \<Rightarrow> string \<Rightarrow> ('s, PlayQueue) action" where
  "PlayQueueService_Get svc owner =
    tryE (qs_PlayQueue (pqs_store svc) owner) (\<lambda>r. case r of
        Inl err \<Rightarrow>
          if errors_Is err ErrNotFound
          then ret \<lparr>pq_Owner = owner, pq_CurrentID = '''', pq_PositionMS = 0, pq_Changed = unix_epoch,
                    pq_ChangedBy = '''', pq_Tracks = []\<rparr>
          else fail err
      | Inr queue \<Rightarrow> ret (normalize_queue queue))"

text \<open>The loop over the requested identifiers; the flag is \<open>currentFound\<close>.\<close>

fun resolve_queue ::
  "'s PlayQueueService \<Rightarrow> string \<Rightarrow> string list \<Rightarrow> Track list \<Rightarrow> bool \<Rightarrow> ('s, Track list \<times> bool) action" where
  "resolve_queue svc currentID [] tracks currentFound = ret (tracks, currentFound)"
| "resolve_queue svc currentID (i # ids) tracks currentFound =
    (let i = TrimSpace i in
     if i = '''' then fail (Wrap ''song id is empty'' ErrInvalidPlayQueue)
     else bindE (wrapE ''resolve play queue song'' (pqs_Track svc i)) (\<lambda>track.
       resolve_queue svc currentID ids (tracks @ [track]) (currentFound \<or> i = currentID)))"

definition PlayQueueService_Save ::
  "'s PlayQueueService \<Rightarrow> string \<Rightarrow> string list \<Rightarrow> string \<Rightarrow> int \<Rightarrow> string \<Rightarrow> ('s, PlayQueue) action" where
  "PlayQueueService_Save svc owner trackIDs currentID0 positionMS changedBy0 =
    (if positionMS < 0 then fail (Wrap ''position must be non-negative'' ErrInvalidPlayQueue)
     else if length trackIDs > maxPlayQueueTracks
     then fail (Wrap ''play queue cannot contain more tracks'' ErrInvalidPlayQueue)
     else let currentID = TrimSpace currentID0 in
     if trackIDs \<noteq> [] \<and> currentID = ''''
     then fail (Wrap ''current song is required for a non-empty queue'' ErrInvalidPlayQueue)
     else if trackIDs = [] \<and> currentID \<noteq> ''''
     then fail (Wrap ''current song must be empty when clearing the queue'' ErrInvalidPlayQueue)
     else bindE (resolve_queue svc currentID trackIDs [] (trackIDs = [])) (\<lambda>(tracks, currentFound).
       if \<not> currentFound then fail (Wrap ''current song is not in the queue'' ErrInvalidPlayQueue)
       else let changedBy = (if TrimSpace changedBy0 = '''' then ''unknown'' else TrimSpace changedBy0) in
       readE (pqs_now svc) (\<lambda>now.
         let queue = \<lparr>pq_Owner = owner, pq_CurrentID = currentID,
               pq_PositionMS = (if tracks = [] then 0 else positionMS), pq_Changed = now,
               pq_ChangedBy = changedBy, pq_Tracks = tracks\<rparr> in
         bindE (qs_SavePlayQueue (pqs_store svc) queue) (\<lambda>_. ret queue))))"

section \<open>SQL store\<close>

definition queue_of :: "queue_row \<Rightarrow> Track list \<Rightarrow> PlayQueue" where
  "queue_of r tracks = \<lparr>pq_Owner = qr_owner r, pq_CurrentID = qr_current_track_id r, pq_PositionMS = qr_position_ms r,
     pq_Changed = qr_changed_at r, pq_ChangedBy = qr_changed_by r, pq_Tracks = tracks\<rparr>"

definition sqlite_PlayQueue :: "string \<Rightarrow> (world, PlayQueue) action" where
  "sqlite_PlayQueue owner =
    bindE (wrapE ''query play queue'' (db_query (\<lambda>w. find_key qr_owner owner (w_play_queues w)))) (\<lambda>row.
      case row of None \<Rightarrow> fail ErrNotFound
      | Some r \<Rightarrow> bindE (wrapE ''query play queue tracks'' (db_query (\<lambda>w.
            join_tracks (w_tracks w) (w_play_queue_tracks w) owner))) (\<lambda>tracks. ret (queue_of r tracks)))"

text \<open>The schema checks \<open>position_ms >= 0\<close>.\<close>

definition upsert_queue :: "PlayQueue \<Rightarrow> (world, unit) action" where
  "upsert_queue q = db_stmt (\<lambda>w.
     if pq_PositionMS q < 0 then (Inl (ErrIO ''constraint''), w)
     else (Inr (), w\<lparr>w_play_queues := upsert qr_owner
       \<lparr>qr_owner = pq_Owner q, qr_current_track_id = pq_CurrentID q, qr_position_ms = pq_PositionMS q,
        qr_changed_at = pq_Changed q, qr_changed_by = pq_ChangedBy q\<rparr> (w_play_queues w)\<rparr>))"

definition sqlite_SavePlayQueue :: "PlayQueue \<Rightarrow> (world, unit) action" where
  "sqlite_SavePlayQueue q =
    db_tx ''begin play queue save'' ''commit play queue save''
      (bindE (wrapE ''save play queue'' (upsert_queue q)) (\<lambda>_.
        replace_tracks w_play_queue_tracks_update ''clear play queue tracks'' ''prepare play queue track insert''
          ''insert play queue track'' (pq_Owner q) (pq_Tracks q)))"

definition sqlite_PlayQueueStore :: "world PlayQueueStore" where
  "sqlite_PlayQueueStore = \<lparr>qs_PlayQueue = sqlite_PlayQueue, qs_SavePlayQueue = sqlite_SavePlayQueue\<rparr>"

definition NewPlayQueueService :: "world PlayQueueService" where
  "NewPlayQueueService = \<lparr>pqs_Track = sqlite_Track, pqs_store = sqlite_PlayQueueStore, pqs_now = time_Now\<rparr>"

section \<open>What the service relies on\<close>

locale play_queue_store =
  fixes svc :: "'s PlayQueueService"
    and view :: "'s \<Rightarrow> string \<rightharpoonup> PlayQueue"
    and known :: "'s \<Rightarrow> Track set"
    and wf :: "'s \<Rightarrow> bool"
  assumes Track_frame: "pqs_Track svc i s = (rt, s') \<Longrightarrow> wf s \<Longrightarrow> wf s' \<and> view s' = view s \<and> known s' = known s"
    and Track_ok: "pqs_Track svc i s = (Inr t, s') \<Longrightarrow> wf s \<Longrightarrow> t \<in> known s"
    and now_frame: "pqs_now svc s = (now, s') \<Longrightarrow> wf s \<Longrightarrow> wf s' \<and> view s' = view s \<and> known s' = known s"
    and Save_err: "qs_SavePlayQueue (pqs_store svc) q s = (Inl e, s') \<Longrightarrow> wf s \<Longrightarrow> wf s' \<and> view s' = view s \<and> known s' = known s"
    and Save_ok: "qs_SavePlayQueue (pqs_store svc) q s = (Inr u, s') \<Longrightarrow> wf s \<Longrightarrow> set (pq_Tracks q) \<subseteq> known s \<Longrightarrow>
      wf s' \<and> known s' = known s \<and> view s' = (view s)(pq_Owner q \<mapsto> q)"
begin

definition same :: "'s \<Rightarrow> 's \<Rightarrow> bool" where
  "same s s' = (wf s' \<and> view s' = view s \<and> known s' = known s)"

lemma Track_wp: "wf s \<Longrightarrow> wp (pqs_Track svc i) (\<lambda>r s'. same s s' \<and> (\<forall>t. r = Inr t \<longrightarrow> t \<in> known s)) s"
  using Track_frame Track_ok by (intro wpI) (auto simp: same_def)

lemma resolve_queue_wp:
  "wf s \<Longrightarrow> set tracks \<subseteq> known s \<Longrightarrow> wp (resolve_queue svc cur ids tracks found) (\<lambda>r s'. same s s' \<and> (\<forall>ts f. r = Inr (ts, f) \<longrightarrow>
     set ts \<subseteq> known s \<and> length ts = length tracks + length ids \<and> (f \<longleftrightarrow> found \<or> cur \<in> TrimSpace ` set ids))) s"
proof (induction ids arbitrary: s tracks found)
  case Nil
  then show ?case by (auto simp: wp_simps same_def)
next
  case (Cons i ids)
  have t: "wp (wrapE ''resolve play queue song'' (pqs_Track svc (TrimSpace i))) (\<lambda>r s'. same s s' \<and> (\<forall>t. r = Inr t \<longrightarrow> t \<in> known s)) s"
    by (rule wp_wrapI [OF Track_wp [OF Cons.prems(1)]]) auto
  have "wp (bindE (wrapE ''resolve play queue song'' (pqs_Track svc (TrimSpace i))) (\<lambda>track.
       resolve_queue svc cur ids (tracks @ [track]) (found \<or> TrimSpace i = cur)))
     (\<lambda>r s'. same s s' \<and> (\<forall>ts f. r = Inr (ts, f) \<longrightarrow>
     set ts \<subseteq> known s \<and> length ts = length tracks + length (i # ids) \<and> (f \<longleftrightarrow> found \<or> cur \<in> TrimSpace ` set (i # ids)))) s"
  proof (rule wp_bindI [OF t])
    fix x s1 assume "same s s1 \<and> (\<forall>t. Inr x = (Inr t :: Track result) \<longrightarrow> t \<in> known s)"
    then have x: "same s s1" "x \<in> known s" by auto
    with Cons.prems have "wf s1" "set (tracks @ [x]) \<subseteq> known s1" by (auto simp: same_def)
    then show "wp (resolve_queue svc cur ids (tracks @ [x]) (found \<or> TrimSpace i = cur))
     (\<lambda>r s'. same s s' \<and> (\<forall>ts f. r = Inr (ts, f) \<longrightarrow>
     set ts \<subseteq> known s \<and> length ts = length tracks + length (i # ids) \<and> (f \<longleftrightarrow> found \<or> cur \<in> TrimSpace ` set (i # ids)))) s1"
      by (rule wp_mono [OF Cons.IH]) (use x in \<open>auto simp: same_def\<close>)
  qed auto
  with Cons.prems show ?case by (simp add: wp_simps same_def Let_def)
qed

lemma Save_wp:
  assumes "wf s"
  shows "wp (PlayQueueService_Save svc owner ids cur pos changedBy) (\<lambda>r s'. wf s' \<and> known s' = known s \<and> (case r of
      Inl _ \<Rightarrow> view s' = view s
    | Inr q \<Rightarrow> view s' = (view s)(owner \<mapsto> q) \<and> pq_Owner q = owner \<and> pq_CurrentID q = TrimSpace cur
        \<and> length (pq_Tracks q) = length ids \<and> length ids \<le> maxPlayQueueTracks
        \<and> (ids = [] \<longleftrightarrow> TrimSpace cur = '''') \<and> (ids \<noteq> [] \<longrightarrow> TrimSpace cur \<in> TrimSpace ` set ids)
        \<and> pq_PositionMS q = (if ids = [] then 0 else pos) \<and> 0 \<le> pos)) s"
    (is "wp _ ?Q s")
proof (cases "pos < 0 \<or> length ids > maxPlayQueueTracks \<or> ids \<noteq> [] \<and> TrimSpace cur = '''' \<or> ids = [] \<and> TrimSpace cur \<noteq> ''''")
  case True
  with assms show ?thesis by (auto simp: PlayQueueService_Save_def wp_simps Let_def)
next
  case ok: False
  let ?queue = "\<lambda>tracks now. \<lparr>pq_Owner = owner, pq_CurrentID = TrimSpace cur,
     pq_PositionMS = (if tracks = [] then 0 else pos), pq_Changed = now,
     pq_ChangedBy = (if TrimSpace changedBy = '''' then ''unknown'' else TrimSpace changedBy), pq_Tracks = tracks\<rparr>"
  have save: "wp (bindE (qs_SavePlayQueue (pqs_store svc) (?queue ts now)) (\<lambda>_. ret (?queue ts now))) ?Q s3"
    if "same s s3" "set ts \<subseteq> known s" "length ts = length ids" "ids \<noteq> [] \<longrightarrow> TrimSpace cur \<in> TrimSpace ` set ids" for ts now s3
  proof (rule wp_bindI [where R = "\<lambda>r s'. wf s' \<and> known s' = known s \<and> (case r of Inl _ \<Rightarrow> view s' = view s
      | Inr _ \<Rightarrow> view s' = (view s)(owner \<mapsto> ?queue ts now))"])
    show "wp (qs_SavePlayQueue (pqs_store svc) (?queue ts now)) (\<lambda>r s'. wf s' \<and> known s' = known s \<and> (case r of Inl _ \<Rightarrow> view s' = view s
      | Inr _ \<Rightarrow> view s' = (view s)(owner \<mapsto> ?queue ts now))) s3"
      using that Save_err [of "?queue ts now" s3] Save_ok [of "?queue ts now" s3]
      by (intro wpI) (auto simp: same_def split: sum.split)
  qed (use that ok in \<open>auto simp: wp_simps\<close>)
  have "wp (bindE (resolve_queue svc (TrimSpace cur) ids [] (ids = [])) (\<lambda>(tracks, currentFound).
       if \<not> currentFound then fail (Wrap ''current song is not in the queue'' ErrInvalidPlayQueue)
       else readE (pqs_now svc) (\<lambda>now. bindE (qs_SavePlayQueue (pqs_store svc) (?queue tracks now)) (\<lambda>_. ret (?queue tracks now)))))
     ?Q s"
  proof (rule wp_bindI [OF resolve_queue_wp [OF assms]])
    fix tf s1 assume "same s s1 \<and> (\<forall>ts f. Inr tf = (Inr (ts, f) :: (Track list \<times> bool) result) \<longrightarrow>
      set ts \<subseteq> known s \<and> length ts = length [] + length ids \<and> (f \<longleftrightarrow> ids = [] \<or> TrimSpace cur \<in> TrimSpace ` set ids))"
    then obtain ts f where tf: "tf = (ts, f)" "same s s1" "set ts \<subseteq> known s" "length ts = length ids"
      "f \<longleftrightarrow> ids = [] \<or> TrimSpace cur \<in> TrimSpace ` set ids" by (cases tf) auto
    show "wp (case tf of (tracks, currentFound) \<Rightarrow>
       if \<not> currentFound then fail (Wrap ''current song is not in the queue'' ErrInvalidPlayQueue)
       else readE (pqs_now svc) (\<lambda>now. bindE (qs_SavePlayQueue (pqs_store svc) (?queue tracks now)) (\<lambda>_. ret (?queue tracks now))))
       ?Q s1"
    proof (cases f)
      case False
      with tf show ?thesis by (simp add: wp_simps same_def)
    next
      case True
      have "wp (readE (pqs_now svc) (\<lambda>now. bindE (qs_SavePlayQueue (pqs_store svc) (?queue ts now)) (\<lambda>_. ret (?queue ts now)))) ?Q s1"
        by (rule wp_readI, rule save) (use tf True now_frame [of s1] in \<open>auto simp: same_def\<close>)
      with True tf show ?thesis by simp
    qed
  qed (auto simp: same_def)
  note run = this
  have c: "(pos < 0) = False" "(maxPlayQueueTracks < length ids) = False"
    "(ids \<noteq> [] \<and> TrimSpace cur = '''') = False" "(ids = [] \<and> TrimSpace cur \<noteq> '''') = False" using ok by auto
  show ?thesis unfolding PlayQueueService_Save_def Let_def c if_False by (rule run)
qed

end

section \<open>The SQL store provides it\<close>

definition queue_view :: "world \<Rightarrow> string \<rightharpoonup> PlayQueue" where
  "queue_view w owner = map_option (\<lambda>r. queue_of r (join_tracks (w_tracks w) (w_play_queue_tracks w) owner))
     (find_key qr_owner owner (w_play_queues w))"

definition queue_tables where
  "queue_tables w = (w_tracks w, w_play_queues w, w_play_queue_tracks w)"

lemma queue_tables_eq:
  "queue_tables w' = queue_tables w \<Longrightarrow> wf_tracks w \<Longrightarrow>
    wf_tracks w' \<and> queue_view w' = queue_view w \<and> set (w_tracks w') = set (w_tracks w)"
  by (simp add: queue_tables_def wf_tracks_def queue_view_def fun_eq_iff)

lemma queue_tables_store: "store_of w' = store_of w \<Longrightarrow> queue_tables w' = queue_tables w"
  unfolding queue_tables_def by (simp add: store_of_eq_tables [of w' w])

lemmas queue_frame = queue_tables_eq [OF queue_tables_store]

lemma upsert_queue_ok:
  "upsert_queue q w = (Inr u, w') \<Longrightarrow> w' = w_play_queues_update (upsert qr_owner
       \<lparr>qr_owner = pq_Owner q, qr_current_track_id = pq_CurrentID q, qr_position_ms = pq_PositionMS q,
        qr_changed_at = pq_Changed q, qr_changed_by = pq_ChangedBy q\<rparr>) (spend_fault w)"
  by (auto simp: upsert_queue_def db_stmt_def split: if_splits)

lemma sqlite_SavePlayQueue_ok:
  assumes "sqlite_SavePlayQueue q w = (Inr u, w')" "wf_tracks w" "set (pq_Tracks q) \<subseteq> set (w_tracks w)"
  shows "wf_tracks w' \<and> set (w_tracks w') = set (w_tracks w) \<and> queue_view w' = (queue_view w)(pq_Owner q \<mapsto> q)"
proof -
  let ?row = "\<lparr>qr_owner = pq_Owner q, qr_current_track_id = pq_CurrentID q, qr_position_ms = pq_PositionMS q,
        qr_changed_at = pq_Changed q, qr_changed_by = pq_ChangedBy q\<rparr>"
  let ?w1 = "w_play_queues_update (upsert qr_owner ?row) w"
  let ?w2 = "w_play_queue_tracks_update (\<lambda>rs. filter (\<lambda>(k, _, _). k \<noteq> pq_Owner q) rs @ positions (pq_Owner q) 0 (pq_Tracks q)) ?w1"
  from assms(1) obtain w2 where w': "w' = spend_fault w2" and run: "bindE (wrapE ''save play queue'' (upsert_queue q)) (\<lambda>_.
        replace_tracks w_play_queue_tracks_update ''clear play queue tracks'' ''prepare play queue track insert''
          ''insert play queue track'' (pq_Owner q) (pq_Tracks q)) (spend_fault w) = (Inr u, w2)"
    unfolding sqlite_SavePlayQueue_def by (rule db_tx_committed)
  from run obtain v where v: "upsert_queue q (spend_fault w) = (Inr (), v)" and r: "replace_tracks w_play_queue_tracks_update
      ''clear play queue tracks'' ''prepare play queue track insert'' ''insert play queue track'' (pq_Owner q) (pq_Tracks q) v = (Inr u, w2)"
    by auto
  have tables: "queue_tables w' = queue_tables ?w2"
    using queue_tables_store [OF queue_rows.replace_tracks_ok [OF r]] upsert_queue_ok [OF v] w'
    by (simp add: queue_tables_def)
  have "queue_view ?w2 (pq_Owner q) = Some q"
    using join_replaced [of "w_tracks w" "pq_Tracks q" "pq_Owner q" "w_play_queue_tracks w"] assms
    by (simp add: queue_view_def wf_tracks_def queue_of_def)
  moreover have "queue_view ?w2 k = queue_view w k" if "k \<noteq> pq_Owner q" for k
    using that by (simp add: queue_view_def join_replaced_other)
  ultimately have "queue_view ?w2 = (queue_view w)(pq_Owner q \<mapsto> q)" by (auto simp: fun_eq_iff)
  moreover have "wf_tracks ?w2" "set (w_tracks ?w2) = set (w_tracks w)" using assms(2) by (simp_all add: wf_tracks_def)
  ultimately show ?thesis using queue_tables_eq [OF tables] by simp
qed

lemma NewPlayQueueService_sel [simp]:
  "pqs_Track NewPlayQueueService = sqlite_Track" "pqs_now NewPlayQueueService = time_Now"
  "qs_PlayQueue (pqs_store NewPlayQueueService) = sqlite_PlayQueue"
  "qs_SavePlayQueue (pqs_store NewPlayQueueService) = sqlite_SavePlayQueue"
  by (simp_all add: NewPlayQueueService_def sqlite_PlayQueueStore_def)

interpretation queues: play_queue_store NewPlayQueueService queue_view "\<lambda>w. set (w_tracks w)" wf_tracks
proof (unfold_locales, unfold NewPlayQueueService_sel)
  fix w w' :: world and i q
  let ?same = "wf_tracks w' \<and> queue_view w' = queue_view w \<and> set (w_tracks w') = set (w_tracks w)"
  show ?same if "sqlite_Track i w = (r, w')" "wf_tracks w" for r
    using wpD [OF sqlite_Track_wp that(1)] that(2) by (intro queue_frame) auto
  show "t \<in> set (w_tracks w)" if "sqlite_Track i w = (Inr t, w')" for t
    using wpD [OF sqlite_Track_wp that] by blast
  show ?same if "time_Now w = (t, w')" "wf_tracks w" for t
    using store_of_time_Now [of w] that by (intro queue_frame) auto
  show ?same if "sqlite_SavePlayQueue q w = (Inl e, w')" "wf_tracks w" for e
    using that unfolding sqlite_SavePlayQueue_def by (intro queue_frame db_tx_failed)
  show "wf_tracks w' \<and> set (w_tracks w') = set (w_tracks w) \<and> queue_view w' = (queue_view w)(pq_Owner q \<mapsto> q)"
    if "sqlite_SavePlayQueue q w = (Inr u, w')" "wf_tracks w" "set (pq_Tracks q) \<subseteq> set (w_tracks w)" for u
    using that by (rule sqlite_SavePlayQueue_ok)
qed

section \<open>Properties\<close>

lemma PlayQueueService_Get_run:
  "w_faults w = [] \<Longrightarrow> PlayQueueService_Get NewPlayQueueService owner w =
    (Inr (case queue_view w owner of
       None \<Rightarrow> \<lparr>pq_Owner = owner, pq_CurrentID = '''', pq_PositionMS = 0, pq_Changed = unix_epoch,
                pq_ChangedBy = '''', pq_Tracks = []\<rparr>
     | Some q \<Rightarrow> normalize_queue q), w)"
  by (simp add: PlayQueueService_Get_def sqlite_PlayQueue_def db_query_run run_simps queue_view_def split: option.split)

lemma normalize_queue_id:
  "pq_Tracks q = [] \<and> pq_CurrentID q = '''' \<and> pq_PositionMS q = 0 \<or> pq_CurrentID q \<in> track_ID ` set (pq_Tracks q) \<Longrightarrow>
    normalize_queue q = q"
  by (cases q; cases "pq_Tracks q") (auto simp: normalize_queue_def list_ex_iff)

text \<open>
  C15: a play queue that was saved is what the next \<open>Get\<close> returns, for every request whose current
  song is given by the identifier of a track of the queue; the queues of the other users are
  unchanged. A failed save leaves all queues as they were.
\<close>

theorem PlayQueueService_Save_roundtrip:
  assumes "PlayQueueService_Save NewPlayQueueService owner ids cur pos client w = (r, w')" "wf_tracks w" "w_faults w' = []"
  shows "case r of
      Inl _ \<Rightarrow> queue_view w' = queue_view w
    | Inr q \<Rightarrow> (\<forall>other. other \<noteq> owner \<longrightarrow> queue_view w' other = queue_view w other)
        \<and> length (pq_Tracks q) = length ids \<and> 0 \<le> pq_PositionMS q
        \<and> (ids = [] \<or> TrimSpace cur \<in> track_ID ` set (pq_Tracks q) \<longrightarrow>
            PlayQueueService_Get NewPlayQueueService owner w' = (Inr q, w'))"
proof (cases r)
  case (Inl e)
  with wpD [OF queues.Save_wp [OF assms(2)] assms(1)] show ?thesis by simp
next
  case (Inr q)
  note f = wpD [OF queues.Save_wp [OF assms(2)] assms(1), unfolded Inr sum.case]
  have "normalize_queue q = q" if "ids = [] \<or> TrimSpace cur \<in> track_ID ` set (pq_Tracks q)"
    using that f by (intro normalize_queue_id) auto
  with f Inr show ?thesis by (auto simp: PlayQueueService_Get_run [OF assms(3)])
qed

text \<open>
  \<open>Save\<close> looks for the current song among the requested identifiers but stores the tracks they
  lead to. If the current song is given by a former identifier (an alias) of its track, the save
  succeeds with the requested position, and the next \<open>Get\<close> is back at the beginning of the first track.
\<close>

theorem PlayQueueService_alias_restarts:
  assumes "PlayQueueService_Save NewPlayQueueService owner ids cur pos client w = (Inr q, w')" "wf_tracks w" "w_faults w' = []"
    "ids \<noteq> []" "TrimSpace cur \<notin> track_ID ` set (pq_Tracks q)"
  shows "pq_PositionMS q = pos
    \<and> PlayQueueService_Get NewPlayQueueService owner w' =
        (Inr (q\<lparr>pq_CurrentID := track_ID (hd (pq_Tracks q)), pq_PositionMS := 0\<rparr>), w')"
proof -
  note f = wpD [OF queues.Save_wp [OF assms(2)] assms(1), unfolded sum.case]
  have "normalize_queue q = q\<lparr>pq_CurrentID := track_ID (hd (pq_Tracks q)), pq_PositionMS := 0\<rparr>"
    using f assms(4,5) by (cases "pq_Tracks q") (auto simp: normalize_queue_def list_ex_iff rev_image_eqI)
  with f assms(4) show ?thesis by (simp add: PlayQueueService_Get_run [OF assms(3)])
qed

section \<open>Queues of the small library\<close>

lemma demo_trim: "TrimSpace ''t'' = ''t''" "TrimSpace ''old'' = ''old''" "TrimSpace ''tv'' = ''tv''"
  by (simp_all add: go_eval)

lemma demo_library_wf_tracks: "wf_tracks demo_library"
  by (simp add: wf_tracks_def)

lemma demo_save_run:
  assumes "i = ''t'' \<or> i = ''old''"
  shows "\<exists>q w'. PlayQueueService_Save NewPlayQueueService ''ann'' [i] i 5000 ''tv'' demo_library = (Inr q, w')
    \<and> w_faults w' = [] \<and> map track_ID (pq_Tracks q) = [''t'']"
proof -
  obtain t where t: "w_tracks demo_library = [t]" "track_ID t = ''t''"
    by (simp add: demo_library_def demo_track_def)
  have "sqlite_Track i demo_library = (Inr t, demo_library)"
    using assms t by (auto simp: sqlite_Track_run resolve_track_def)
  with assms show ?thesis
    by (auto simp: PlayQueueService_Save_def demo_trim maxPlayQueueTracks_def run_simps t sqlite_SavePlayQueue_def db_tx_def
      db_exec_run db_stmt_run upsert_queue_def replace_tracks_def prepare_def time_Now_def Let_def)
qed

theorem PlayQueueService_Save_roundtrip_witness:
  "\<exists>q w'. PlayQueueService_Save NewPlayQueueService ''ann'' [''t''] ''t'' 5000 ''tv'' demo_library = (Inr q, w')
    \<and> PlayQueueService_Get NewPlayQueueService ''ann'' w' = (Inr q, w')"
proof -
  obtain q w' where run: "PlayQueueService_Save NewPlayQueueService ''ann'' [''t''] ''t'' 5000 ''tv'' demo_library = (Inr q, w')"
    "w_faults w' = []" "map track_ID (pq_Tracks q) = [''t'']" using demo_save_run [of "''t''"] by auto
  with PlayQueueService_Save_roundtrip [OF run(1) demo_library_wf_tracks run(2)] show ?thesis
    by (auto simp: demo_trim map_eq_Cons_conv)
qed

theorem PlayQueueService_alias_restarts_witness:
  "\<exists>q w' q'. PlayQueueService_Save NewPlayQueueService ''ann'' [''old''] ''old'' 5000 ''tv'' demo_library = (Inr q, w')
    \<and> pq_PositionMS q = 5000
    \<and> PlayQueueService_Get NewPlayQueueService ''ann'' w' = (Inr q', w') \<and> pq_PositionMS q' = 0"
proof -
  obtain q w' where run: "PlayQueueService_Save NewPlayQueueService ''ann'' [''old''] ''old'' 5000 ''tv'' demo_library = (Inr q, w')"
    "w_faults w' = []" "map track_ID (pq_Tracks q) = [''t'']" using demo_save_run [of "''old''"] by auto
  have "pq_PositionMS q = 5000 \<and> PlayQueueService_Get NewPlayQueueService ''ann'' w' =
        (Inr (q\<lparr>pq_CurrentID := track_ID (hd (pq_Tracks q)), pq_PositionMS := 0\<rparr>), w')"
    by (rule PlayQueueService_alias_restarts [OF run(1) demo_library_wf_tracks run(2)])
      (use run(3) in \<open>auto simp: demo_trim map_eq_Cons_conv\<close>)
  with run show ?thesis by auto
qed

end
