(* ===== verification/Annotations.thy ===== *)
theory Annotations
  imports Playlists
begin

text \<open>
  Stars, ratings and play counts: \<open>core/services/annotations.go\<close> over
  \<open>adapters/storage/sqlite/annotations.go\<close>. The table holds only the media a user has annotated; the
  abstract state is a function that gives every medium an annotation, the empty one by default.
\<close>

section \<open>Service\<close>

record 's annotationCatalog =
  ac_Track :: "string \<Rightarrow> ('s, Track) action"
  ac_TracksByAlbum :: "string \<Rightarrow> ('s, Track list) action"
  ac_Artist :: "string \<Rightarrow> ('s, Artist) action"

record MediaAnnotationUpdate =
  mau_Owner :: string
  mau_Media :: MediaRef
  mau_StarredAt :: "time option"
  mau_Rating :: "int option"
  mau_PlayCountDelta :: int
  mau_LastPlayed :: "time option"

record 's MediaAnnotationStore =
  mas_MediaAnnotations :: "string \<Rightarrow> ('s, MediaAnnotation list) action"
  mas_UpdateMediaAnnotations :: "MediaAnnotationUpdate list \<Rightarrow> ('s, unit) action"

record 's AnnotationService =
  ans_catalog :: "'s annotationCatalog"
  ans_store :: "'s MediaAnnotationStore"
  ans_now :: "'s \<Rightarrow> time \<times> 's"

definition annotationMap :: "MediaAnnotation list \<Rightarrow> MediaRef \<rightharpoonup> MediaAnnotation" where
  "annotationMap items = foldl (\<lambda>m item. m(ann_Media item \<mapsto> item)) Map.empty items"

definition AnnotationService_All ::
  "'s AnnotationService \<Rightarrow> string \<Rightarrow> ('s, MediaRef \<rightharpoonup> MediaAnnotation) action" where
  "AnnotationService_All svc owner =
    bindE (mas_MediaAnnotations (ans_store svc) owner) (\<lambda>items. ret (annotationMap items))"

text \<open>A reference without a type is a song, an album or an artist, in this order.\<close>

definition resolve_untyped :: "'s annotationCatalog \<Rightarrow> string \<Rightarrow> ('s, MediaRef) action" where
  "resolve_untyped cat i =
    tryE (ac_Track cat i) (\<lambda>r. case r of
        Inr _ \<Rightarrow> ret \<lparr>media_Type = MediaSong, media_ID = i\<rparr>
      | Inl err \<Rightarrow>
          if \<not> errors_Is err ErrNotFound then fail err
          else bindE (ac_TracksByAlbum cat i) (\<lambda>tracks.
            if tracks \<noteq> [] then ret \<lparr>media_Type = MediaAlbum, media_ID = i\<rparr>
            else bindE (ac_Artist cat i) (\<lambda>_. ret \<lparr>media_Type = MediaArtist, media_ID = i\<rparr>)))"

definition resolveRef :: "'s AnnotationService \<Rightarrow> MediaRef \<Rightarrow> ('s, MediaRef) action" where
  "resolveRef svc ref0 =
    (let ref = ref0\<lparr>media_ID := TrimSpace (media_ID ref0)\<rparr>; cat = ans_catalog svc; i = media_ID ref in
     if i = '''' then fail (Wrap ''media id is empty'' ErrInvalidAnnotation)
     else if media_Type ref = MediaSong then bindE (ac_Track cat i) (\<lambda>_. ret ref)
     else if media_Type ref = MediaAlbum
     then bindE (ac_TracksByAlbum cat i) (\<lambda>tracks. if tracks = [] then fail ErrNotFound else ret ref)
     else if media_Type ref = MediaArtist then bindE (ac_Artist cat i) (\<lambda>_. ret ref)
     else if media_Type ref = '''' then resolve_untyped cat i
     else fail (Wrap ''unsupported media type'' ErrInvalidAnnotation))"

fun resolve_all :: "'s AnnotationService \<Rightarrow> MediaRef list \<Rightarrow> ('s, MediaRef list) action" where
  "resolve_all svc [] = ret []"
| "resolve_all svc (ref # refs) =
    bindE (resolveRef svc ref) (\<lambda>r. bindE (resolve_all svc refs) (\<lambda>rs. ret (r # rs)))"

definition resolveRefs :: "'s AnnotationService \<Rightarrow> MediaRef list \<Rightarrow> ('s, MediaRef list) action" where
  "resolveRefs svc refs =
    (if refs = [] then fail (Wrap ''at least one media id is required'' ErrInvalidAnnotation)
     else resolve_all svc refs)"

fun star_updates ::
  "'s AnnotationService \<Rightarrow> string \<Rightarrow> bool \<Rightarrow> MediaRef list \<Rightarrow> ('s, MediaAnnotationUpdate list) action" where
  "star_updates svc owner starred [] = ret []"
| "star_updates svc owner starred (ref # refs) =
    readE (if starred then ans_now svc else Pair time_zero) (\<lambda>starredAt.
      bindE (star_updates svc owner starred refs) (\<lambda>us.
        ret (\<lparr>mau_Owner = owner, mau_Media = ref, mau_StarredAt = Some starredAt, mau_Rating = None,
              mau_PlayCountDelta = 0, mau_LastPlayed = None\<rparr> # us)))"

definition AnnotationService_SetStarred ::
  "'s AnnotationService \<Rightarrow> string \<Rightarrow> MediaRef list \<Rightarrow> bool \<Rightarrow> ('s, unit) action" where
  "AnnotationService_SetStarred svc owner refs starred =
    bindE (resolveRefs svc refs) (\<lambda>resolved.
      bindE (star_updates svc owner starred resolved) (mas_UpdateMediaAnnotations (ans_store svc)))"

definition AnnotationService_SetRating ::
  "'s AnnotationService \<Rightarrow> string \<Rightarrow> MediaRef \<Rightarrow> int \<Rightarrow> ('s, unit) action" where
  "AnnotationService_SetRating svc owner ref rating =
    (if rating < 0 \<or> rating > 5 then fail (Wrap ''rating must be between 0 and 5'' ErrInvalidAnnotation)
     else bindE (resolveRef svc ref) (\<lambda>resolved.
       mas_UpdateMediaAnnotations (ans_store svc)
         [\<lparr>mau_Owner = owner, mau_Media = resolved, mau_StarredAt = None, mau_Rating = Some rating,
           mau_PlayCountDelta = 0, mau_LastPlayed = None\<rparr>]))"

text \<open>The clock is read for every song; the times of the request, when given, take its place.\<close>

fun scrobble_updates ::
  "'s AnnotationService \<Rightarrow> string \<Rightarrow> time list \<Rightarrow> MediaRef list \<Rightarrow> ('s, MediaAnnotationUpdate list) action" where
  "scrobble_updates svc owner playedAt [] = ret []"
| "scrobble_updates svc owner playedAt (ref # refs) =
    readE (ans_now svc) (\<lambda>now.
      let lastPlayed = (case playedAt of [] \<Rightarrow> now | t # _ \<Rightarrow> t) in
      bindE (scrobble_updates svc owner (tl playedAt) refs) (\<lambda>us.
        ret (\<lparr>mau_Owner = owner, mau_Media = ref, mau_StarredAt = None, mau_Rating = None,
              mau_PlayCountDelta = 1, mau_LastPlayed = Some lastPlayed\<rparr> # us)))"

definition AnnotationService_Scrobble ::
  "'s AnnotationService \<Rightarrow> string \<Rightarrow> string list \<Rightarrow> time list \<Rightarrow> bool \<Rightarrow> ('s, unit) action" where
  "AnnotationService_Scrobble svc owner ids playedAt submission =
    (if ids = [] then fail (Wrap ''at least one song id is required'' ErrInvalidAnnotation)
     else if playedAt \<noteq> [] \<and> length playedAt \<noteq> length ids
     then fail (Wrap ''time parameter count must match id parameter count'' ErrInvalidAnnotation)
     else bindE (resolveRefs svc (map (\<lambda>i. \<lparr>media_Type = MediaSong, media_ID = i\<rparr>) ids)) (\<lambda>resolved.
       if \<not> submission then ret ()
       else bindE (scrobble_updates svc owner playedAt resolved) (mas_UpdateMediaAnnotations (ans_store svc))))"

definition annotationAlbum :: "string \<Rightarrow> Track list \<Rightarrow> Album" where
  "annotationAlbum i tracks =
    (let first = hd tracks in
     \<lparr>album_ID = i, album_Name = track_Album first,
      album_Artist = (if track_AlbumArtist first = '''' then track_Artist first else track_AlbumArtist first),
      album_ArtistID = (if track_AlbumArtistID first = '''' then track_ArtistID first else track_AlbumArtistID first),
      album_Year = track_Year first, album_Genre = track_Genre first, album_SongCount = int (length tracks),
      album_Duration = add_durations tracks, album_CoverArtID = track_CoverArtID first\<rparr>)"

text \<open>The loop of \<open>Starred\<close>; media that are gone are skipped.\<close>

fun starred_loop :: "'s annotationCatalog \<Rightarrow> MediaAnnotation list \<Rightarrow> StarredLibrary \<Rightarrow> ('s, StarredLibrary) action" where
  "starred_loop cat [] result = ret result"
| "starred_loop cat (a # items) result =
    (let i = media_ID (ann_Media a); ty = media_Type (ann_Media a) in
     if IsZero (ann_StarredAt a) then starred_loop cat items result
     else if ty = MediaSong then
       tryE (ac_Track cat i) (\<lambda>r. case r of
           Inl err \<Rightarrow> if errors_Is err ErrNotFound then starred_loop cat items result else fail err
         | Inr track \<Rightarrow> starred_loop cat items (result\<lparr>starred_Tracks := starred_Tracks result @ [track]\<rparr>))
     else if ty = MediaAlbum then
       bindE (ac_TracksByAlbum cat i) (\<lambda>tracks.
         starred_loop cat items (if tracks \<noteq> []
           then result\<lparr>starred_Albums := starred_Albums result @ [annotationAlbum i tracks]\<rparr> else result))
     else if ty = MediaArtist then
       tryE (ac_Artist cat i) (\<lambda>r. case r of
           Inl err \<Rightarrow> if errors_Is err ErrNotFound then starred_loop cat items result else fail err
         | Inr artist \<Rightarrow> starred_loop cat items (result\<lparr>starred_Artists := starred_Artists result @ [artist]\<rparr>))
     else starred_loop cat items result)"

definition AnnotationService_Starred :: "'s AnnotationService \<Rightarrow> string \<Rightarrow> ('s, StarredLibrary) action" where
  "AnnotationService_Starred svc owner =
    bindE (mas_MediaAnnotations (ans_store svc) owner) (\<lambda>items.
      starred_loop (ans_catalog svc) items
        \<lparr>starred_Artists = [], starred_Albums = [], starred_Tracks = [], starred_Annotations = annotationMap items\<rparr>)"

section \<open>SQL store\<close>

definition ann_key :: "MediaAnnotation \<Rightarrow> string \<times> MediaRef" where
  "ann_key a = (ann_Owner a, ann_Media a)"

definition ann_lt :: "MediaAnnotation \<Rightarrow> MediaAnnotation \<Rightarrow> bool" where
  "ann_lt a b =
    (let sa = formatOptionalTime (ann_StarredAt a); sb = formatOptionalTime (ann_StarredAt b);
         ta = media_Type (ann_Media a); tb = media_Type (ann_Media b) in
     sb < sa \<or> sa = sb \<and> (ta < tb \<or> ta = tb \<and> media_ID (ann_Media a) < media_ID (ann_Media b)))"

definition sqlite_MediaAnnotations :: "string \<Rightarrow> (world, MediaAnnotation list) action" where
  "sqlite_MediaAnnotations owner = wrapE ''query media annotations'' (db_query (\<lambda>w.
     SliceStable ann_lt (filter (\<lambda>a. ann_Owner a = owner) (w_annotations w))))"

definition empty_annotation :: "string \<times> MediaRef \<Rightarrow> MediaAnnotation" where
  "empty_annotation k = \<lparr>ann_Owner = fst k, ann_Media = snd k, ann_StarredAt = time_zero, ann_Rating = 0,
     ann_PlayCount = 0, ann_LastPlayed = time_zero\<rparr>"

text \<open>The \<open>CHECK\<close> constraints of the table.\<close>

definition annotation_ok :: "MediaAnnotation \<Rightarrow> bool" where
  "annotation_ok a = (media_Type (ann_Media a) \<in> {MediaSong, MediaAlbum, MediaArtist}
     \<and> 0 \<le> ann_Rating a \<and> ann_Rating a \<le> 5 \<and> 0 \<le> ann_PlayCount a)"

definition mau_key :: "MediaAnnotationUpdate \<Rightarrow> string \<times> MediaRef" where
  "mau_key u = (mau_Owner u, mau_Media u)"

definition insert_annotation :: "MediaAnnotationUpdate \<Rightarrow> (world, unit) action" where
  "insert_annotation u = db_stmt (\<lambda>w.
     if \<not> annotation_ok (empty_annotation (mau_key u)) then (Inl (ErrIO ''constraint''), w)
     else if find_key ann_key (mau_key u) (w_annotations w) \<noteq> None then (Inr (), w)
     else (Inr (), w\<lparr>w_annotations := w_annotations w @ [empty_annotation (mau_key u)]\<rparr>))"

definition apply_annotation :: "MediaAnnotationUpdate \<Rightarrow> MediaAnnotation \<Rightarrow> MediaAnnotation" where
  "apply_annotation u a = a\<lparr>
     ann_StarredAt := (case mau_StarredAt u of None \<Rightarrow> ann_StarredAt a | Some t \<Rightarrow> t),
     ann_Rating := (case mau_Rating u of None \<Rightarrow> ann_Rating a | Some n \<Rightarrow> n),
     ann_PlayCount := ann_PlayCount a + mau_PlayCountDelta u,
     ann_LastPlayed := (case mau_LastPlayed u of None \<Rightarrow> ann_LastPlayed a | Some t \<Rightarrow> t)\<rparr>"

definition update_annotation :: "MediaAnnotationUpdate \<Rightarrow> (world, unit) action" where
  "update_annotation u = db_stmt (\<lambda>w.
     let rows = map (\<lambda>a. if ann_key a = mau_key u then apply_annotation u a else a) (w_annotations w) in
     if \<not> list_all (\<lambda>a. ann_key a = mau_key u \<longrightarrow> annotation_ok a) rows then (Inl (ErrIO ''constraint''), w)
     else (Inr (), w\<lparr>w_annotations := rows\<rparr>))"

definition delete_empty_annotation :: "MediaAnnotationUpdate \<Rightarrow> (world, unit) action" where
  "delete_empty_annotation u = db_exec (\<lambda>w. w\<lparr>w_annotations :=
     filter (\<lambda>a. \<not> (ann_key a = mau_key u \<and> IsZero (ann_StarredAt a) \<and> ann_Rating a = 0
       \<and> ann_PlayCount a = 0 \<and> IsZero (ann_LastPlayed a))) (w_annotations w)\<rparr>)"

fun save_annotations :: "MediaAnnotationUpdate list \<Rightarrow> (world, unit) action" where
  "save_annotations [] = ret ()"
| "save_annotations (u # us) =
    bindE (wrapE ''create media annotation'' (insert_annotation u)) (\<lambda>_.
      bindE (wrapE ''update media annotation'' (update_annotation u)) (\<lambda>_.
        bindE (wrapE ''remove empty media annotation'' (delete_empty_annotation u)) (\<lambda>_. save_annotations us)))"

definition sqlite_UpdateMediaAnnotations :: "MediaAnnotationUpdate list \<Rightarrow> (world, unit) action" where
  "sqlite_UpdateMediaAnnotations updates =
    db_tx ''begin media annotation save'' ''commit media annotations'' (save_annotations updates)"

definition sqlite_annotationCatalog :: "world annotationCatalog" where
  "sqlite_annotationCatalog = \<lparr>ac_Track = sqlite_Track, ac_TracksByAlbum = sqlite_TracksByAlbum, ac_Artist = sqlite_Artist\<rparr>"

definition sqlite_MediaAnnotationStore :: "world MediaAnnotationStore" where
  "sqlite_MediaAnnotationStore = \<lparr>mas_MediaAnnotations = sqlite_MediaAnnotations,
     mas_UpdateMediaAnnotations = sqlite_UpdateMediaAnnotations\<rparr>"

definition NewAnnotationService :: "world AnnotationService" where
  "NewAnnotationService = \<lparr>ans_catalog = sqlite_annotationCatalog, ans_store = sqlite_MediaAnnotationStore, ans_now = time_Now\<rparr>"

section \<open>Abstract state\<close>

definition annotation_view :: "world \<Rightarrow> string \<times> MediaRef \<Rightarrow> MediaAnnotation" where
  "annotation_view w k = (case find_key ann_key k (w_annotations w) of None \<Rightarrow> empty_annotation k | Some a \<Rightarrow> a)"

definition apply_updates ::
  "MediaAnnotationUpdate list \<Rightarrow> (string \<times> MediaRef \<Rightarrow> MediaAnnotation) \<Rightarrow> string \<times> MediaRef \<Rightarrow> MediaAnnotation" where
  "apply_updates us v = foldl (\<lambda>v u. v(mau_key u := apply_annotation u (v (mau_key u)))) v us"

text \<open>The table has unique keys, satisfies its checks and holds no empty annotation.\<close>

definition wf_annotations :: "world \<Rightarrow> bool" where
  "wf_annotations w = (distinct (map ann_key (w_annotations w))
     \<and> (\<forall>a \<in> set (w_annotations w). annotation_ok a \<and> a \<noteq> empty_annotation (ann_key a)))"

section \<open>The store implements the abstract state\<close>

lemma apply_annotation_sel [simp]: "ann_key (apply_annotation u a) = ann_key a"
  by (simp add: apply_annotation_def ann_key_def)

lemma empty_annotation_key [simp]: "ann_key (empty_annotation k) = k"
  by (simp add: ann_key_def empty_annotation_def)

lemma find_key_update:
  "(\<And>a. key (f a) = key a) \<Longrightarrow>
    find_key key k' (map (\<lambda>a. if key a = k then f a else a) rows) = map_option (\<lambda>a. if k' = k then f a else a) (find_key key k' rows)"
  by (induction rows) auto

lemma find_key_delete:
  "distinct (map key rows) \<Longrightarrow> find_key key k' (filter (\<lambda>a. \<not> (key a = k \<and> P a)) rows) =
    (if k' = k then Option.bind (find_key key k rows) (\<lambda>a. if P a then None else Some a) else find_key key k' rows)"
  by (induction rows) (auto simp: find_key_None_iff image_iff split: if_splits)

lemma find_annotation_append:
  "find_key key k (xs @ ys) = (case find_key key k xs of None \<Rightarrow> find_key key k ys | Some a \<Rightarrow> Some a)"
  by (induction xs) auto

definition empty_row :: "MediaAnnotation \<Rightarrow> bool" where
  "empty_row a = (IsZero (ann_StarredAt a) \<and> ann_Rating a = 0 \<and> ann_PlayCount a = 0 \<and> IsZero (ann_LastPlayed a))"

lemma empty_row_iff: "empty_row a \<longleftrightarrow> a = empty_annotation (ann_key a)"
  by (cases a) (auto simp: empty_row_def empty_annotation_def ann_key_def IsZero_def)

text \<open>The three statements for one update, on the rows.\<close>

definition rows_after :: "MediaAnnotationUpdate \<Rightarrow> MediaAnnotation list \<Rightarrow> MediaAnnotation list" where
  "rows_after u rows =
    filter (\<lambda>a. \<not> (ann_key a = mau_key u \<and> empty_row a))
      (map (\<lambda>a. if ann_key a = mau_key u then apply_annotation u a else a)
        (if find_key ann_key (mau_key u) rows = None then rows @ [empty_annotation (mau_key u)] else rows))"

definition rows_view :: "MediaAnnotation list \<Rightarrow> string \<times> MediaRef \<Rightarrow> MediaAnnotation" where
  "rows_view rows k = (case find_key ann_key k rows of None \<Rightarrow> empty_annotation k | Some a \<Rightarrow> a)"

lemma map_key_update: "map ann_key (map (\<lambda>a. if ann_key a = k then apply_annotation u a else a) rows) = map ann_key rows"
  by simp

lemma rows_after_distinct:
  assumes "distinct (map ann_key rows)"
  shows "distinct (map ann_key (map (\<lambda>a. if ann_key a = mau_key u then apply_annotation u a else a)
        (if find_key ann_key (mau_key u) rows = None then rows @ [empty_annotation (mau_key u)] else rows)))"
  using assms unfolding map_key_update by (auto simp: find_key_None_iff)

lemma rows_after_view:
  assumes "distinct (map ann_key rows)"
  shows "rows_view (rows_after u rows) = (rows_view rows)(mau_key u := apply_annotation u (rows_view rows (mau_key u)))"
proof (rule ext)
  fix k
  let ?rows1 = "if find_key ann_key (mau_key u) rows = None then rows @ [empty_annotation (mau_key u)] else rows"
  have one: "find_key ann_key k' ?rows1 =
      (if k' = mau_key u then Some (rows_view rows k') else find_key ann_key k' rows)" for k'
    by (auto simp: rows_view_def find_annotation_append split: option.split)
  have "find_key ann_key k (rows_after u rows) = (if k = mau_key u
      then (if empty_row (apply_annotation u (rows_view rows k)) then None else Some (apply_annotation u (rows_view rows k)))
      else find_key ann_key k rows)"
    unfolding rows_after_def find_key_delete [OF rows_after_distinct [OF assms]]
    by (simp add: find_key_update one option.map_ident)
  moreover have "ann_key (rows_view rows k) = k" for k
    by (auto simp: rows_view_def dest: find_key_SomeD split: option.split)
  ultimately show "rows_view (rows_after u rows) k = ((rows_view rows)(mau_key u := apply_annotation u (rows_view rows (mau_key u)))) k"
    by (simp add: rows_view_def [of "rows_after u rows"] empty_row_iff) (simp add: rows_view_def)
qed

lemma save_annotations_step:
  assumes "bindE (wrapE m1 (insert_annotation u)) (\<lambda>_. bindE (wrapE m2 (update_annotation u)) (\<lambda>_.
      wrapE m3 (delete_empty_annotation u))) w = (Inr x, w')" "wf_annotations w"
  shows "wf_annotations w' \<and> annotation_view w' = (annotation_view w)(mau_key u := apply_annotation u (annotation_view w (mau_key u)))"
proof -
  let ?rows1 = "if find_key ann_key (mau_key u) (w_annotations w) = None
    then w_annotations w @ [empty_annotation (mau_key u)] else w_annotations w"
  from assms(1) obtain w1 w2 where s: "insert_annotation u w = (Inr (), w1)" "update_annotation u w1 = (Inr (), w2)"
    "delete_empty_annotation u w2 = (Inr x, w')" by auto
  have w1: "w_annotations w1 = ?rows1" and ok1: "annotation_ok (empty_annotation (mau_key u))"
    using s(1) by (auto simp: insert_annotation_def db_stmt_def split: if_splits)
  have w2: "w_annotations w2 = map (\<lambda>a. if ann_key a = mau_key u then apply_annotation u a else a) (w_annotations w1)"
    and ok2: "list_all (\<lambda>a. ann_key a = mau_key u \<longrightarrow> annotation_ok a) (w_annotations w2)"
    using s(2) by (auto simp: update_annotation_def db_stmt_def Let_def split: if_splits)
  have w': "w_annotations w' = filter (\<lambda>a. \<not> (ann_key a = mau_key u \<and> empty_row a)) (w_annotations w2)"
    using s(3) by (auto simp: delete_empty_annotation_def empty_row_def elim!: db_exec_cases)
  have rows: "w_annotations w' = rows_after u (w_annotations w)"
    unfolding w' w2 w1 rows_after_def by simp
  have d: "distinct (map ann_key (w_annotations w))" using assms(2) by (simp add: wf_annotations_def)
  have "annotation_view w' = (annotation_view w)(mau_key u := apply_annotation u (annotation_view w (mau_key u)))"
    using rows_after_view [OF d, of u] unfolding rows [symmetric]
    by (simp add: annotation_view_def rows_view_def fun_eq_iff)
  moreover have "annotation_ok a \<and> a \<noteq> empty_annotation (ann_key a)" if "a \<in> set (w_annotations w')" for a
  proof (cases "ann_key a = mau_key u")
    case True
    with that ok2 show ?thesis unfolding w' by (auto simp: list_all_iff empty_row_iff)
  next
    case False
    with that have "a \<in> set (w_annotations w)" unfolding w' w2 w1 by (auto split: if_splits)
    with assms(2) show ?thesis by (simp add: wf_annotations_def)
  qed
  moreover have "distinct (map ann_key (w_annotations w'))"
    unfolding rows rows_after_def by (rule distinct_map_filter_key [OF rows_after_distinct [OF d]])
  ultimately show ?thesis by (auto simp: wf_annotations_def)
qed

lemma apply_updates_simps [simp]:
  "apply_updates [] v = v"
  "apply_updates (u # us) v = apply_updates us (v(mau_key u := apply_annotation u (v (mau_key u))))"
  by (simp_all add: apply_updates_def)

lemma save_annotations_ok:
  "save_annotations us w = (Inr x, w') \<Longrightarrow> wf_annotations w \<Longrightarrow>
    wf_annotations w' \<and> annotation_view w' = apply_updates us (annotation_view w)"
proof (induction us arbitrary: w)
  case Nil
  then show ?case by simp
next
  case (Cons u us)
  from Cons.prems(1) obtain v where v: "bindE (wrapE ''create media annotation'' (insert_annotation u)) (\<lambda>_.
      bindE (wrapE ''update media annotation'' (update_annotation u)) (\<lambda>_.
      wrapE ''remove empty media annotation'' (delete_empty_annotation u))) w = (Inr (), v)"
    and r: "save_annotations us v = (Inr x, w')" by auto
  from save_annotations_step [OF v Cons.prems(2)] Cons.IH [OF r] show ?case by (simp only: apply_updates_simps simp_thms)
qed

lemma wf_annotations_store [simp]: "store_inv wf_annotations"
  unfolding store_inv_def wf_annotations_def by (auto dest: store_of_eq_tables(9))

lemma annotation_view_store: "store_of w' = store_of w \<Longrightarrow> annotation_view w' = annotation_view w"
  by (simp add: annotation_view_def fun_eq_iff store_of_eq_tables(9) [of w' w])

lemma annotation_frame:
  "store_of w' = store_of w \<Longrightarrow> wf_annotations w \<Longrightarrow> wf_annotations w' \<and> annotation_view w' = annotation_view w"
  using annotation_view_store wf_annotations_store unfolding store_inv_def by blast

lemma UpdateMediaAnnotations_wp:
  assumes "wf_annotations w"
  shows "wp (sqlite_UpdateMediaAnnotations us) (\<lambda>r w'. wf_annotations w' \<and> annotation_view w' =
    (case r of Inl _ \<Rightarrow> annotation_view w | Inr _ \<Rightarrow> apply_updates us (annotation_view w))) w"
  unfolding sqlite_UpdateMediaAnnotations_def
proof (rule wp_db_txI)
  show "wf_annotations w' \<and> annotation_view w' = (case Inl e of Inl _ \<Rightarrow> annotation_view w | Inr _ \<Rightarrow> apply_updates us (annotation_view w))"
    if "store_of w' = store_of w" for e w' using annotation_frame [OF that assms] by simp
  show "wp (save_annotations us) (\<lambda>r w2. \<forall>x. r = Inr x \<longrightarrow> wf_annotations (spend_fault w2) \<and> annotation_view (spend_fault w2) =
      (case Inr x of Inl _ \<Rightarrow> annotation_view w | Inr _ \<Rightarrow> apply_updates us (annotation_view w))) (spend_fault w)"
  proof (rule wpI, intro allI impI)
    fix r w2 x assume "save_annotations us (spend_fault w) = (r, w2)" "r = Inr x"
    then have "wf_annotations w2 \<and> annotation_view w2 = apply_updates us (annotation_view (spend_fault w))"
      using assms by (intro save_annotations_ok) auto
    moreover have "annotation_view (spend_fault v) = annotation_view v" for v
      by (rule annotation_view_store) simp
    ultimately have "wf_annotations w2 \<and> annotation_view (spend_fault w2) = apply_updates us (annotation_view w)" by simp
    then show "wf_annotations (spend_fault w2) \<and> annotation_view (spend_fault w2) =
      (case Inr x of Inl _ \<Rightarrow> annotation_view w | Inr _ \<Rightarrow> apply_updates us (annotation_view w))"
      by simp
  qed
qed

section \<open>What updates do to one medium\<close>

lemma mau_key_mk [simp]:
  "mau_key \<lparr>mau_Owner = o', mau_Media = m, mau_StarredAt = st, mau_Rating = n, mau_PlayCountDelta = d, mau_LastPlayed = t\<rparr> = (o', m)"
  by (simp add: mau_key_def)

lemma apply_updates_other: "k \<notin> mau_key ` set us \<Longrightarrow> apply_updates us v k = v k"
  by (induction us arbitrary: v) auto

lemma apply_updates_count:
  "ann_PlayCount (apply_updates us v k) = ann_PlayCount (v k) + sum_list (map mau_PlayCountDelta (filter (\<lambda>u. mau_key u = k) us))"
  by (induction us arbitrary: v) (auto simp: apply_annotation_def)

lemma apply_updates_kept:
  "\<forall>u \<in> set us. mau_StarredAt u = None \<and> mau_Rating u = None \<Longrightarrow>
    ann_StarredAt (apply_updates us v k) = ann_StarredAt (v k) \<and> ann_Rating (apply_updates us v k) = ann_Rating (v k)"
  by (induction us arbitrary: v) (auto simp: apply_annotation_def)

section \<open>What the service guarantees over any store\<close>

locale annotation_service =
  fixes svc :: "'s AnnotationService"
    and view :: "'s \<Rightarrow> string \<times> MediaRef \<Rightarrow> MediaAnnotation"
    and wf :: "'s \<Rightarrow> bool"
  assumes Track_frame: "ac_Track (ans_catalog svc) i s = (rt, s') \<Longrightarrow> wf s \<Longrightarrow> wf s' \<and> view s' = view s"
    and TracksByAlbum_frame: "ac_TracksByAlbum (ans_catalog svc) i s = (ra, s') \<Longrightarrow> wf s \<Longrightarrow> wf s' \<and> view s' = view s"
    and Artist_frame: "ac_Artist (ans_catalog svc) i s = (rs, s') \<Longrightarrow> wf s \<Longrightarrow> wf s' \<and> view s' = view s"
    and now_frame: "ans_now svc s = (t, s') \<Longrightarrow> wf s \<Longrightarrow> wf s' \<and> view s' = view s"
    and Update_law: "mas_UpdateMediaAnnotations (ans_store svc) us s = (ru, s') \<Longrightarrow> wf s \<Longrightarrow>
      wf s' \<and> view s' = (case ru of Inl _ \<Rightarrow> view s | Inr _ \<Rightarrow> apply_updates us (view s))"
begin

definition same :: "'s \<Rightarrow> 's \<Rightarrow> bool" where
  "same s s' = (wf s' \<and> view s' = view s)"

lemma catalog_wp:
  assumes "wf s"
  shows "wp (ac_Track (ans_catalog svc) i) (\<lambda>r s'. same s s') s"
    "wp (ac_TracksByAlbum (ans_catalog svc) i) (\<lambda>r s'. same s s') s"
    "wp (ac_Artist (ans_catalog svc) i) (\<lambda>r s'. same s s') s"
  using assms Track_frame TracksByAlbum_frame Artist_frame by (auto intro!: wpI simp: same_def)

text \<open>A resolved reference keeps the requested identifier.\<close>

lemma resolve_untyped_wp:
  assumes "wf s"
  shows "wp (resolve_untyped (ans_catalog svc) i) (\<lambda>r s'. same s s' \<and> (\<forall>m. r = Inr m \<longrightarrow> media_ID m = i)) s"
  unfolding resolve_untyped_def
proof (rule wp_tryI [OF catalog_wp(1) [OF assms]])
  fix r s1 assume s1: "same s s1"
  have album: "wp (bindE (ac_TracksByAlbum (ans_catalog svc) i) (\<lambda>tracks.
      if tracks \<noteq> [] then ret \<lparr>media_Type = MediaAlbum, media_ID = i\<rparr>
      else bindE (ac_Artist (ans_catalog svc) i) (\<lambda>_. ret \<lparr>media_Type = MediaArtist, media_ID = i\<rparr>)))
      (\<lambda>r s'. same s s' \<and> (\<forall>m. r = Inr m \<longrightarrow> media_ID m = i)) s1"
  proof (rule wp_bindI [OF catalog_wp(2)])
    fix tracks s2 assume s2: "same s1 s2"
    have "wp (bindE (ac_Artist (ans_catalog svc) i) (\<lambda>_. ret \<lparr>media_Type = MediaArtist, media_ID = i\<rparr>))
      (\<lambda>r s'. same s s' \<and> (\<forall>m. r = Inr m \<longrightarrow> media_ID m = i)) s2"
      by (rule wp_bindI [OF catalog_wp(3)]) (use s1 s2 in \<open>auto simp: same_def wp_simps\<close>)
    with s1 s2 show "wp (if tracks \<noteq> [] then ret \<lparr>media_Type = MediaAlbum, media_ID = i\<rparr>
      else bindE (ac_Artist (ans_catalog svc) i) (\<lambda>_. ret \<lparr>media_Type = MediaArtist, media_ID = i\<rparr>))
      (\<lambda>r s'. same s s' \<and> (\<forall>m. r = Inr m \<longrightarrow> media_ID m = i)) s2"
      by (simp add: wp_ret same_def)
  qed (use s1 in \<open>auto simp: same_def\<close>)
  with s1 show "wp (case r of Inr _ \<Rightarrow> ret \<lparr>media_Type = MediaSong, media_ID = i\<rparr>
      | Inl err \<Rightarrow> if \<not> errors_Is err ErrNotFound then fail err
          else bindE (ac_TracksByAlbum (ans_catalog svc) i) (\<lambda>tracks.
            if tracks \<noteq> [] then ret \<lparr>media_Type = MediaAlbum, media_ID = i\<rparr>
            else bindE (ac_Artist (ans_catalog svc) i) (\<lambda>_. ret \<lparr>media_Type = MediaArtist, media_ID = i\<rparr>)))
      (\<lambda>r s'. same s s' \<and> (\<forall>m. r = Inr m \<longrightarrow> media_ID m = i)) s1"
    by (cases r) (simp_all add: wp_ret wp_fail)
qed

lemma resolveRef_wp:
  assumes "wf s"
  shows "wp (resolveRef svc ref) (\<lambda>r s'. same s s' \<and> (\<forall>m. r = Inr m \<longrightarrow> media_ID m = TrimSpace (media_ID ref)
    \<and> (media_Type ref \<noteq> '''' \<longrightarrow> m = ref\<lparr>media_ID := TrimSpace (media_ID ref)\<rparr>))) s" (is "wp _ ?Q s")
proof -
  let ?i = "TrimSpace (media_ID ref)" and ?cat = "ans_catalog svc"
  have "wp (bindE (ac_Track ?cat ?i) (\<lambda>_. ret (ref\<lparr>media_ID := ?i\<rparr>))) ?Q s"
    by (rule wp_bindI [OF catalog_wp(1) [OF assms]]) (auto simp: wp_simps)
  moreover have "wp (bindE (ac_TracksByAlbum ?cat ?i) (\<lambda>ts. if ts = [] then fail ErrNotFound else ret (ref\<lparr>media_ID := ?i\<rparr>))) ?Q s"
    by (rule wp_bindI [OF catalog_wp(2) [OF assms]]) (auto simp: wp_simps)
  moreover have "wp (bindE (ac_Artist ?cat ?i) (\<lambda>_. ret (ref\<lparr>media_ID := ?i\<rparr>))) ?Q s"
    by (rule wp_bindI [OF catalog_wp(3) [OF assms]]) (auto simp: wp_simps)
  moreover have "media_Type ref = '''' \<Longrightarrow> wp (resolve_untyped ?cat ?i) ?Q s"
    by (rule wp_mono [OF resolve_untyped_wp [OF assms]]) auto
  ultimately show ?thesis using assms by (auto simp: resolveRef_def Let_def wp_fail same_def MediaSong_def MediaAlbum_def MediaArtist_def)
qed

lemma resolve_all_wp:
  "wf s \<Longrightarrow> wp (resolve_all svc refs) (\<lambda>r s'. same s s' \<and> (\<forall>ms. r = Inr ms \<longrightarrow> list_all2 (\<lambda>ref m. media_ID m = TrimSpace (media_ID ref)
    \<and> (media_Type ref \<noteq> '''' \<longrightarrow> m = ref\<lparr>media_ID := TrimSpace (media_ID ref)\<rparr>)) refs ms)) s"
proof (induction refs arbitrary: s)
  case Nil
  then show ?case by (simp add: wp_simps same_def)
next
  case (Cons ref refs)
  show ?case unfolding resolve_all.simps
  proof (rule wp_bindI [OF resolveRef_wp [OF Cons.prems]])
    fix m s1 assume "same s s1 \<and> (\<forall>x. Inr m = (Inr x :: MediaRef result) \<longrightarrow> media_ID x = TrimSpace (media_ID ref)
      \<and> (media_Type ref \<noteq> '''' \<longrightarrow> x = ref\<lparr>media_ID := TrimSpace (media_ID ref)\<rparr>))"
    then show "wp (bindE (resolve_all svc refs) (\<lambda>rs. ret (m # rs))) (\<lambda>r s'. same s s' \<and> (\<forall>ms. r = Inr ms \<longrightarrow>
      list_all2 (\<lambda>ref m. media_ID m = TrimSpace (media_ID ref)
    \<and> (media_Type ref \<noteq> '''' \<longrightarrow> m = ref\<lparr>media_ID := TrimSpace (media_ID ref)\<rparr>)) (ref # refs) ms)) s1"
      by (intro wp_bindI [OF Cons.IH]) (auto simp: same_def wp_simps)
  qed auto
qed

text \<open>The updates that \<open>Scrobble\<close> and \<open>SetStarred\<close> build.\<close>

lemma scrobble_updates_wp:
  "wf s \<Longrightarrow> wp (scrobble_updates svc owner playedAt refs) (\<lambda>r s'. same s s' \<and> (\<exists>us. r = Inr us \<and> map mau_key us = map (Pair owner) refs
    \<and> (\<forall>u \<in> set us. mau_StarredAt u = None \<and> mau_Rating u = None \<and> mau_PlayCountDelta u = 1))) s"
proof (induction refs arbitrary: s playedAt)
  case Nil
  then show ?case by (simp add: wp_simps same_def)
next
  case (Cons ref refs)
  show ?case unfolding scrobble_updates.simps
  proof (rule wp_readI)
    fix now s1 assume "ans_now svc s = (now, s1)"
    with now_frame Cons.prems have s1: "same s s1" by (simp add: same_def)
    let ?u = "\<lparr>mau_Owner = owner, mau_Media = ref, mau_StarredAt = None, mau_Rating = None, mau_PlayCountDelta = 1,
      mau_LastPlayed = Some (case playedAt of [] \<Rightarrow> now | t # _ \<Rightarrow> t)\<rparr>"
    have "wp (bindE (scrobble_updates svc owner (tl playedAt) refs) (\<lambda>us. ret (?u # us))) (\<lambda>r s'. same s s' \<and> (\<exists>us. r = Inr us
      \<and> map mau_key us = map (Pair owner) (ref # refs)
      \<and> (\<forall>u \<in> set us. mau_StarredAt u = None \<and> mau_Rating u = None \<and> mau_PlayCountDelta u = 1))) s1"
      by (rule wp_bindI [OF Cons.IH]) (use s1 in \<open>auto simp: same_def wp_simps\<close>)
    then show "wp (let lastPlayed = (case playedAt of [] \<Rightarrow> now | t # _ \<Rightarrow> t) in
      bindE (scrobble_updates svc owner (tl playedAt) refs) (\<lambda>us.
        ret (\<lparr>mau_Owner = owner, mau_Media = ref, mau_StarredAt = None, mau_Rating = None,
              mau_PlayCountDelta = 1, mau_LastPlayed = Some lastPlayed\<rparr> # us))) (\<lambda>r s'. same s s' \<and> (\<exists>us. r = Inr us
      \<and> map mau_key us = map (Pair owner) (ref # refs)
      \<and> (\<forall>u \<in> set us. mau_StarredAt u = None \<and> mau_Rating u = None \<and> mau_PlayCountDelta u = 1))) s1"
      by (simp add: Let_def)
  qed
qed

lemma star_updates_wp:
  "wf s \<Longrightarrow> wp (star_updates svc owner starred refs) (\<lambda>r s'. same s s' \<and> (\<exists>us. r = Inr us \<and> map mau_key us = map (Pair owner) refs)) s"
proof (induction refs arbitrary: s)
  case Nil
  then show ?case by (simp add: wp_simps same_def)
next
  case (Cons ref refs)
  show ?case unfolding star_updates.simps
  proof (rule wp_readI)
    fix t s1 assume "(if starred then ans_now svc else Pair time_zero) s = (t, s1)"
    with now_frame Cons.prems have s1: "same s s1" by (auto simp: same_def split: if_splits)
    show "wp (bindE (star_updates svc owner starred refs) (\<lambda>us.
        ret (\<lparr>mau_Owner = owner, mau_Media = ref, mau_StarredAt = Some t, mau_Rating = None,
              mau_PlayCountDelta = 0, mau_LastPlayed = None\<rparr> # us)))
      (\<lambda>r s'. same s s' \<and> (\<exists>us. r = Inr us \<and> map mau_key us = map (Pair owner) (ref # refs))) s1"
      by (rule wp_bindI [OF Cons.IH]) (use s1 in \<open>auto simp: same_def wp_simps\<close>)
  qed
qed

lemma Update_wp: "same s s1 \<Longrightarrow> wp (mas_UpdateMediaAnnotations (ans_store svc) us)
    (\<lambda>r s'. wf s' \<and> view s' = (case r of Inl _ \<Rightarrow> view s | Inr _ \<Rightarrow> apply_updates us (view s))) s1"
  using Update_law by (intro wpI) (auto simp: same_def split: sum.split)

lemma Scrobble_wp:
  assumes "wf s"
  shows "wp (AnnotationService_Scrobble svc owner ids playedAt submission) (\<lambda>r s'. wf s' \<and> (if is_ok r \<and> submission
    then \<exists>us. view s' = apply_updates us (view s)
      \<and> map mau_key us = map (\<lambda>i. (owner, \<lparr>media_Type = MediaSong, media_ID = TrimSpace i\<rparr>)) ids
      \<and> (\<forall>u \<in> set us. mau_StarredAt u = None \<and> mau_Rating u = None \<and> mau_PlayCountDelta u = 1)
    else view s' = view s)) s" (is "wp _ ?Q s")
proof (cases "ids = [] \<or> playedAt \<noteq> [] \<and> length playedAt \<noteq> length ids")
  case True
  with assms show ?thesis by (auto simp: AnnotationService_Scrobble_def wp_simps)
next
  case False
  let ?refs = "map (\<lambda>i. \<lparr>media_Type = MediaSong, media_ID = i\<rparr>) ids"
  have "wp (bindE (resolve_all svc ?refs) (\<lambda>resolved. if \<not> submission then ret ()
       else bindE (scrobble_updates svc owner playedAt resolved) (mas_UpdateMediaAnnotations (ans_store svc)))) ?Q s"
  proof (rule wp_bindI [OF resolve_all_wp [OF assms]])
    fix ms s1 assume "same s s1 \<and> (\<forall>x. Inr ms = (Inr x :: MediaRef list result) \<longrightarrow> list_all2 (\<lambda>ref m. media_ID m = TrimSpace (media_ID ref)
      \<and> (media_Type ref \<noteq> '''' \<longrightarrow> m = ref\<lparr>media_ID := TrimSpace (media_ID ref)\<rparr>)) ?refs x)"
    then have s1: "same s s1" and "list_all2 (\<lambda>i m. m = \<lparr>media_Type = MediaSong, media_ID = TrimSpace i\<rparr>) ids ms"
      by (auto simp: list_all2_map1 MediaSong_def list_all2_conv_all_nth)
    then have ms: "ms = map (\<lambda>i. \<lparr>media_Type = MediaSong, media_ID = TrimSpace i\<rparr>) ids"
      by (auto simp: list_all2_conv_all_nth intro: nth_equalityI)
    have "wp (bindE (scrobble_updates svc owner playedAt ms) (mas_UpdateMediaAnnotations (ans_store svc))) ?Q s1" if submission
    proof (rule wp_bindI [OF scrobble_updates_wp])
      fix us s2 assume u: "same s1 s2 \<and> (\<exists>x. Inr us = (Inr x :: MediaAnnotationUpdate list result) \<and> map mau_key x = map (Pair owner) ms
        \<and> (\<forall>u \<in> set x. mau_StarredAt u = None \<and> mau_Rating u = None \<and> mau_PlayCountDelta u = 1))"
      then have "same s s2" using s1 by (auto simp: same_def)
      from Update_wp [OF this, of us]
      show "wp (mas_UpdateMediaAnnotations (ans_store svc) us) ?Q s2"
        by (rule wp_mono) (use u ms that in \<open>auto simp: is_ok_def split: sum.splits intro!: exI [of _ us]\<close>)
    qed (use s1 in \<open>auto simp: same_def\<close>)
    with s1 show "wp (if \<not> submission then ret () else bindE (scrobble_updates svc owner playedAt ms) (mas_UpdateMediaAnnotations (ans_store svc))) ?Q s1"
      by (simp add: wp_ret same_def)
  qed (auto simp: same_def)
  with False show ?thesis by (auto simp: AnnotationService_Scrobble_def resolveRefs_def)
qed

lemma SetStarred_wp:
  assumes "wf s"
  shows "wp (AnnotationService_SetStarred svc owner refs starred) (\<lambda>r s'. wf s' \<and> (\<forall>o' m.
    (o', media_ID m) \<notin> (\<lambda>ref. (owner, TrimSpace (media_ID ref))) ` set refs \<longrightarrow> view s' (o', m) = view s (o', m))) s" (is "wp _ ?Q s")
proof (cases "refs = []")
  case True
  with assms show ?thesis by (simp add: AnnotationService_SetStarred_def resolveRefs_def wp_simps)
next
  case False
  have "wp (bindE (resolve_all svc refs) (\<lambda>resolved.
      bindE (star_updates svc owner starred resolved) (mas_UpdateMediaAnnotations (ans_store svc)))) ?Q s"
  proof (rule wp_bindI [OF resolve_all_wp [OF assms]])
    fix ms s1 assume "same s s1 \<and> (\<forall>x. Inr ms = (Inr x :: MediaRef list result) \<longrightarrow> list_all2 (\<lambda>ref m. media_ID m = TrimSpace (media_ID ref)
      \<and> (media_Type ref \<noteq> '''' \<longrightarrow> m = ref\<lparr>media_ID := TrimSpace (media_ID ref)\<rparr>)) refs x)"
    then have s1: "same s s1" and "list_all2 (\<lambda>ref m. media_ID m = TrimSpace (media_ID ref)) refs ms"
      by (auto elim: list_all2_mono)
    then have ms: "map media_ID ms = map (\<lambda>ref. TrimSpace (media_ID ref)) refs"
      by (auto simp: list_all2_conv_all_nth intro: nth_equalityI)
    show "wp (bindE (star_updates svc owner starred ms) (mas_UpdateMediaAnnotations (ans_store svc))) ?Q s1"
    proof (rule wp_bindI [OF star_updates_wp])
      fix us s2 assume u: "same s1 s2 \<and> (\<exists>x. Inr us = (Inr x :: MediaAnnotationUpdate list result) \<and> map mau_key x = map (Pair owner) ms)"
      then have keys: "mau_key ` set us = Pair owner ` set ms" by (metis Inr_inject list.set_map)
      have ids: "media_ID ` set ms = (\<lambda>ref. TrimSpace (media_ID ref)) ` set refs" using ms by (metis list.set_map)
      have "same s s2" using u s1 by (auto simp: same_def)
      from Update_wp [OF this, of us]
      show "wp (mas_UpdateMediaAnnotations (ans_store svc) us) ?Q s2"
      proof (rule wp_mono)
        fix r :: "unit result" and s' assume "wf s' \<and> view s' = (case r of Inl _ \<Rightarrow> view s | Inr _ \<Rightarrow> apply_updates us (view s))"
        moreover have "apply_updates us (view s) (o', m) = view s (o', m)"
          if "(o', media_ID m) \<notin> (\<lambda>ref. (owner, TrimSpace (media_ID ref))) ` set refs" for o' m
        proof (rule apply_updates_other)
          show "(o', m) \<notin> mau_key ` set us" unfolding keys using that ids by force
        qed
        ultimately show "?Q r s'" by (auto split: sum.splits)
      qed
    qed (use s1 in \<open>auto simp: same_def\<close>)
  qed (auto simp: same_def)
  with False show ?thesis by (simp add: AnnotationService_SetStarred_def resolveRefs_def)
qed

end

lemma sqlite_TracksByAlbum_store: "wp (sqlite_TracksByAlbum i) (\<lambda>r w'. store_of w' = store_of w) w"
  by (simp add: sqlite_TracksByAlbum_def tracksByCanonicalAlbum_def wp_simps)

lemma sqlite_Artist_store: "wp (sqlite_Artist i) (\<lambda>r w'. store_of w' = store_of w) w"
  by (auto simp: sqlite_Artist_def sqlite_resolveArtistID_def wp_simps split: option.split)

lemma NewAnnotationService_sel [simp]:
  "ac_Track (ans_catalog NewAnnotationService) = sqlite_Track"
  "ac_TracksByAlbum (ans_catalog NewAnnotationService) = sqlite_TracksByAlbum"
  "ac_Artist (ans_catalog NewAnnotationService) = sqlite_Artist" "ans_now NewAnnotationService = time_Now"
  "mas_UpdateMediaAnnotations (ans_store NewAnnotationService) = sqlite_UpdateMediaAnnotations"
  "mas_MediaAnnotations (ans_store NewAnnotationService) = sqlite_MediaAnnotations"
  by (simp_all add: NewAnnotationService_def sqlite_annotationCatalog_def sqlite_MediaAnnotationStore_def)

interpretation annotations: annotation_service NewAnnotationService annotation_view wf_annotations
proof (unfold_locales, unfold NewAnnotationService_sel)
  fix w w' :: world and i us
  let ?same = "wf_annotations w' \<and> annotation_view w' = annotation_view w"
  show ?same if "sqlite_Track i w = (r, w')" "wf_annotations w" for r
    using wpD [OF sqlite_Track_wp that(1)] that(2) by (intro annotation_frame) auto
  show ?same if "sqlite_TracksByAlbum i w = (r, w')" "wf_annotations w" for r
    using wpD [OF sqlite_TracksByAlbum_store that(1)] that(2) by (intro annotation_frame)
  show ?same if "sqlite_Artist i w = (r, w')" "wf_annotations w" for r
    using wpD [OF sqlite_Artist_store that(1)] that(2) by (intro annotation_frame)
  show ?same if "time_Now w = (t, w')" "wf_annotations w" for t
    using store_of_time_Now [of w] that by (intro annotation_frame) auto
  show "wf_annotations w' \<and> annotation_view w' = (case r of Inl _ \<Rightarrow> annotation_view w | Inr _ \<Rightarrow> apply_updates us (annotation_view w))"
    if "sqlite_UpdateMediaAnnotations us w = (r, w')" "wf_annotations w" for r
    using wpD [OF UpdateMediaAnnotations_wp [OF that(2)] that(1)] .
qed

section \<open>Properties\<close>

text \<open>
  C16: the table of annotations implements a function from media to annotations. A batch of updates is
  applied to it as a whole or not at all; the table keeps unique keys, ratings between 0 and 5, play
  counts that are not negative, and never a row for a medium without annotation.
\<close>

theorem UpdateMediaAnnotations_refines:
  assumes "sqlite_UpdateMediaAnnotations updates w = (r, w')" "wf_annotations w"
  shows "wf_annotations w' \<and> annotation_view w' = (if is_ok r then apply_updates updates (annotation_view w) else annotation_view w)"
  using wpD [OF UpdateMediaAnnotations_wp [OF assms(2)] assms(1)] by (cases r) auto


text \<open>
  an annotation is filed under the identifier of the request, even when that is a former
  identifier of a track: starring a track through an alias succeeds and leaves the track's own
  annotation as it was, although the library shows the track under its own identifier.
\<close>

theorem SetStarred_alias_missed:
  assumes "AnnotationService_SetStarred NewAnnotationService owner [\<lparr>media_Type = MediaSong, media_ID = a\<rparr>] starred w = (Inr u, w')"
    "wf_annotations w" "resolve_track w (TrimSpace a) = Some i" "i \<noteq> TrimSpace a"
  shows "annotation_view w' (owner, \<lparr>media_Type = MediaSong, media_ID = i\<rparr>)
    = annotation_view w (owner, \<lparr>media_Type = MediaSong, media_ID = i\<rparr>)"
proof -
  have "(owner, media_ID \<lparr>media_Type = MediaSong, media_ID = i\<rparr>) \<notin> (\<lambda>ref. (owner, TrimSpace (media_ID ref)))
    ` set [\<lparr>media_Type = MediaSong, media_ID = a\<rparr>]" using assms(4) by simp
  with wpD [OF annotations.SetStarred_wp [OF assms(2)] assms(1)] show ?thesis by blast
qed

section \<open>Annotations of the small library\<close>

lemma demo_library_annotations: "wf_annotations demo_library" "w_annotations demo_library = []"
  by (simp_all add: wf_annotations_def demo_library_def empty_world_def)

lemma demo_library_track: "\<exists>t. w_tracks demo_library = [t] \<and> track_ID t = ''t''"
  by (simp add: demo_library_def demo_track_def)

lemma demo_library_Track:
  assumes "i = ''t'' \<or> i = ''old''"
  shows "\<exists>t. sqlite_Track i demo_library = (Inr t, demo_library)"
  using assms demo_library_track by (auto simp: sqlite_Track_run resolve_track_def)

lemma demo_trim_ids: "TrimSpace ''t'' = ''t''" "TrimSpace ''old'' = ''old''"
  by (simp_all add: go_eval)

lemmas annotation_run = resolveRefs_def resolveRef_def Let_def demo_trim_ids MediaSong_def MediaAlbum_def MediaArtist_def
  run_simps time_Now_def sqlite_UpdateMediaAnnotations_def db_tx_def db_exec_run db_stmt_run insert_annotation_def
  update_annotation_def delete_empty_annotation_def annotation_ok_def empty_annotation_def demo_library_annotations
  ann_key_def apply_annotation_def mau_key_def IsZero_def

lemma demo_scrobble_run:
  "\<exists>w'. AnnotationService_Scrobble NewAnnotationService ''ann'' [''t'', ''t''] [] True demo_library = (Inr (), w')"
proof -
  obtain t where t: "sqlite_Track ''t'' demo_library = (Inr t, demo_library)" using demo_library_Track by blast
  then show ?thesis by (simp add: AnnotationService_Scrobble_def annotation_run)
qed


lemma demo_star_run:
  "\<exists>w'. AnnotationService_SetStarred NewAnnotationService ''ann'' [\<lparr>media_Type = MediaSong, media_ID = ''old''\<rparr>] True demo_library = (Inr (), w')"
proof -
  obtain t where t: "sqlite_Track ''old'' demo_library = (Inr t, demo_library)" using demo_library_Track by blast
  then show ?thesis by (simp add: AnnotationService_SetStarred_def annotation_run)
qed

theorem SetStarred_alias_missed_witness:
  "\<exists>w'. AnnotationService_SetStarred NewAnnotationService ''ann'' [\<lparr>media_Type = MediaSong, media_ID = ''old''\<rparr>] True demo_library = (Inr (), w')
    \<and> resolve_track demo_library ''old'' = Some ''t''
    \<and> IsZero (ann_StarredAt (annotation_view w' (''ann'', \<lparr>media_Type = MediaSong, media_ID = ''t''\<rparr>)))"
proof -
  obtain w' where run: "AnnotationService_SetStarred NewAnnotationService ''ann'' [\<lparr>media_Type = MediaSong, media_ID = ''old''\<rparr>] True demo_library = (Inr (), w')"
    using demo_star_run by blast
  have res: "resolve_track demo_library ''old'' = Some ''t''" by (simp add: resolve_track_def)
  have "annotation_view w' (''ann'', \<lparr>media_Type = MediaSong, media_ID = ''t''\<rparr>)
      = annotation_view demo_library (''ann'', \<lparr>media_Type = MediaSong, media_ID = ''t''\<rparr>)"
    by (rule SetStarred_alias_missed [OF run demo_library_annotations(1)]) (simp_all add: demo_trim_ids res)
  with run res show ?thesis by (simp add: annotation_view_def demo_library_annotations empty_annotation_def IsZero_def)
qed

theorem UpdateMediaAnnotations_refines_witness:
  "\<exists>w'. sqlite_UpdateMediaAnnotations [\<lparr>mau_Owner = ''ann'', mau_Media = \<lparr>media_Type = MediaSong, media_ID = ''t''\<rparr>,
      mau_StarredAt = None, mau_Rating = Some 4, mau_PlayCountDelta = 0, mau_LastPlayed = None\<rparr>] demo_library = (Inr (), w')
    \<and> ann_Rating (annotation_view w' (''ann'', \<lparr>media_Type = MediaSong, media_ID = ''t''\<rparr>)) = 4"
proof -
  let ?us = "[\<lparr>mau_Owner = ''ann'', mau_Media = \<lparr>media_Type = MediaSong, media_ID = ''t''\<rparr>,
      mau_StarredAt = None, mau_Rating = Some 4, mau_PlayCountDelta = 0, mau_LastPlayed = None\<rparr>]"
  have "\<exists>w'. sqlite_UpdateMediaAnnotations ?us demo_library = (Inr (), w')" by (simp add: annotation_run)
  then obtain w' where run: "sqlite_UpdateMediaAnnotations ?us demo_library = (Inr (), w')" by blast
  with UpdateMediaAnnotations_refines [OF run demo_library_annotations(1)] show ?thesis
    by (auto simp: apply_annotation_def)
qed

end
