(* ===== verification/AuthLimiter.thy ===== *)
theory AuthLimiter
  imports GoPrelude
begin

text \<open>
  The limiter of failed sign-ins, \<open>observability/auth_limit.go\<close>. Its operations are functions of the
  time they read; requests run concurrently, so the whole is a transition system whose steps are the
  critical sections: the check of a request on arrival and the bookkeeping after its response.
\<close>

section \<open>Operations\<close>

record authFailureState =
  afs_firstFailure :: time
  afs_failures :: int
  afs_blockedUntil :: time

record AuthFailureLimiter =
  lim_limit :: int
  lim_window :: duration
  lim_blockFor :: duration
  lim_states :: "string \<rightharpoonup> authFailureState"
  lim_attempts :: nat

definition NewAuthFailureLimiter :: "int \<Rightarrow> duration \<Rightarrow> duration \<Rightarrow> AuthFailureLimiter" where
  "NewAuthFailureLimiter limit window blockFor =
    \<lparr>lim_limit = (if limit \<le> 0 then 10 else limit), lim_window = (if window \<le> 0 then minute else window),
     lim_blockFor = (if blockFor \<le> 0 then minute else blockFor), lim_states = Map.empty, lim_attempts = 0\<rparr>"

definition zero_state :: authFailureState where
  "zero_state = \<lparr>afs_firstFailure = time_zero, afs_failures = 0, afs_blockedUntil = time_zero\<rparr>"

definition state_of :: "AuthFailureLimiter \<Rightarrow> string \<Rightarrow> authFailureState" where
  "state_of l key = (case lim_states l key of None \<Rightarrow> zero_state | Some st \<Rightarrow> st)"

definition blockedFor :: "AuthFailureLimiter \<Rightarrow> string \<Rightarrow> time \<Rightarrow> duration \<times> AuthFailureLimiter" where
  "blockedFor l key now =
    (let st = state_of l key; remaining = time_Sub (afs_blockedUntil st) now in
     if remaining \<le> 0 \<and> \<not> IsZero (afs_blockedUntil st)
     then (0, l\<lparr>lim_states := (lim_states l)(key := None)\<rparr>)
     else (remaining, l))"

text \<open>Every 256 failures the states whose block and window are over are removed.\<close>

definition sweep :: "duration \<Rightarrow> time \<Rightarrow> (string \<rightharpoonup> authFailureState) \<Rightarrow> string \<rightharpoonup> authFailureState" where
  "sweep window now states = (\<lambda>key. case states key of
     None \<Rightarrow> None
   | Some st \<Rightarrow> if now > afs_blockedUntil st \<and> time_Sub now (afs_firstFailure st) \<ge> window then None else Some st)"

definition recordFailure :: "AuthFailureLimiter \<Rightarrow> string \<Rightarrow> time \<Rightarrow> AuthFailureLimiter" where
  "recordFailure l key now =
    (let st0 = state_of l key;
         st1 = (if IsZero (afs_firstFailure st0) \<or> time_Sub now (afs_firstFailure st0) \<ge> lim_window l
                then zero_state\<lparr>afs_firstFailure := now\<rparr> else st0);
         st2 = st1\<lparr>afs_failures := afs_failures st1 + 1\<rparr>;
         st3 = (if afs_failures st2 \<ge> lim_limit l then st2\<lparr>afs_blockedUntil := now + lim_blockFor l\<rparr> else st2);
         states = (lim_states l)(key \<mapsto> st3);
         attempts = (lim_attempts l + 1) mod 2 ^ 64
     in l\<lparr>lim_states := (if attempts mod 256 = 0 then sweep (lim_window l) now states else states),
          lim_attempts := attempts\<rparr>)"

text \<open>The seconds of the \<open>Retry-After\<close> header; \<open>Round\<close> rounds half up here, the duration being positive.\<close>

definition duration_Round :: "duration \<Rightarrow> duration" where
  "duration_Round d = (let r = (d + second div 2) div second * second in if r < 2 ^ 63 then r else 2 ^ 63 - 1)"

definition retryAfter_header :: "duration \<Rightarrow> int" where
  "retryAfter_header d = max 1 (duration_Round d div second)"

text \<open>The client of a request: its host (\<open>net.SplitHostPort\<close> of the remote address, or the address) and
  the name it signs in with, from the \<open>Authorization\<close> header or the query.\<close>

definition authFailureKey :: "unicode_tables \<Rightarrow> string \<Rightarrow> string \<Rightarrow> string \<Rightarrow> string" where
  "authFailureKey uc remote basicUser queryUser =
    ToLower uc (TrimSpace remote) @ [CHR 0x00]
      @ ToLower uc (TrimSpace (if basicUser = '''' then queryUser else basicUser))"

section \<open>Concurrent requests\<close>

record limiter_sys =
  sys_limiter :: AuthFailureLimiter
  sys_inflight :: "string multiset"
  sys_now :: time

datatype limiter_event = Tick time | Reject string | Admit string | Respond string nat

definition StatusUnauthorized :: nat where
  "StatusUnauthorized = 401"

text \<open>\<open>Wrap\<close>: a request is rejected or admitted on arrival; a failure is recorded after its response.\<close>

inductive limiter_step :: "limiter_sys \<Rightarrow> limiter_event \<Rightarrow> limiter_sys \<Rightarrow> bool" where
  tick: "sys_now s \<le> t \<Longrightarrow> limiter_step s (Tick t) (s\<lparr>sys_now := t\<rparr>)"
| reject: "blockedFor (sys_limiter s) key (sys_now s) = (d, l) \<Longrightarrow> 0 < d \<Longrightarrow>
    limiter_step s (Reject key) (s\<lparr>sys_limiter := l\<rparr>)"
| admit: "blockedFor (sys_limiter s) key (sys_now s) = (d, l) \<Longrightarrow> d \<le> 0 \<Longrightarrow>
    limiter_step s (Admit key) (s\<lparr>sys_limiter := l, sys_inflight := add_mset key (sys_inflight s)\<rparr>)"
| respond: "key \<in># sys_inflight s \<Longrightarrow>
    limiter_step s (Respond key status) (s\<lparr>sys_inflight := sys_inflight s - {#key#},
      sys_limiter := (if status = StatusUnauthorized then recordFailure (sys_limiter s) key (sys_now s)
        else sys_limiter s)\<rparr>)"

inductive_cases limiter_stepE: "limiter_step s e s'"

inductive limiter_run :: "limiter_sys \<Rightarrow> limiter_event list \<Rightarrow> limiter_sys \<Rightarrow> bool" where
  start: "limiter_run s [] s"
| more: "limiter_run s es s1 \<Longrightarrow> limiter_step s1 e s2 \<Longrightarrow> limiter_run s (es @ [e]) s2"

definition limiter_init :: "int \<Rightarrow> duration \<Rightarrow> duration \<Rightarrow> time \<Rightarrow> limiter_sys" where
  "limiter_init limit window blockFor now =
    \<lparr>sys_limiter = NewAuthFailureLimiter limit window blockFor, sys_inflight = {#}, sys_now = now\<rparr>"

definition failures_of :: "string \<Rightarrow> limiter_event list \<Rightarrow> int" where
  "failures_of key es = int (count_list es (Respond key StatusUnauthorized))"

section \<open>Invariant\<close>

text \<open>What holds of every stored state, relative to the clock and to the failures so far.\<close>

definition state_ok :: "AuthFailureLimiter \<Rightarrow> time \<Rightarrow> int \<Rightarrow> authFailureState \<Rightarrow> bool" where
  "state_ok l now n st = (0 \<le> afs_failures st \<and> afs_failures st \<le> n
     \<and> (\<not> IsZero (afs_blockedUntil st) \<longrightarrow> lim_limit l \<le> afs_failures st \<and> afs_blockedUntil st \<le> now + lim_blockFor l))"

definition limiter_inv :: "(string \<Rightarrow> int) \<Rightarrow> limiter_sys \<Rightarrow> bool" where
  "limiter_inv n s = (0 < sys_now s \<and> 0 < lim_limit (sys_limiter s) \<and> 0 < lim_blockFor (sys_limiter s)
     \<and> (\<forall>key. 0 \<le> n key) \<and> (\<forall>key st. lim_states (sys_limiter s) key = Some st \<longrightarrow>
       state_ok (sys_limiter s) (sys_now s) (n key) st))"

lemma blockedFor_params:
  "blockedFor l key now = (d, l') \<Longrightarrow> lim_limit l' = lim_limit l \<and> lim_blockFor l' = lim_blockFor l \<and> lim_window l' = lim_window l"
  by (auto simp: blockedFor_def Let_def split: if_splits)

lemma blockedFor_states:
  "blockedFor l key now = (d, l') \<Longrightarrow> lim_states l' k = Some st \<Longrightarrow> lim_states l k = Some st"
  by (auto simp: blockedFor_def Let_def split: if_splits)

lemma recordFailure_params:
  "lim_limit (recordFailure l key now) = lim_limit l" "lim_blockFor (recordFailure l key now) = lim_blockFor l"
  "lim_window (recordFailure l key now) = lim_window l"
  by (simp_all add: recordFailure_def Let_def)

lemma sweep_Some: "sweep w now states k = Some st \<Longrightarrow> states k = Some st"
  by (auto simp: sweep_def split: option.splits if_splits)

text \<open>The state a failure leaves behind.\<close>

definition failed_state :: "AuthFailureLimiter \<Rightarrow> string \<Rightarrow> time \<Rightarrow> authFailureState" where
  "failed_state l key now =
    (let st0 = state_of l key;
         st1 = (if IsZero (afs_firstFailure st0) \<or> time_Sub now (afs_firstFailure st0) \<ge> lim_window l
                then zero_state\<lparr>afs_firstFailure := now\<rparr> else st0);
         st2 = st1\<lparr>afs_failures := afs_failures st1 + 1\<rparr>
     in if afs_failures st2 \<ge> lim_limit l then st2\<lparr>afs_blockedUntil := now + lim_blockFor l\<rparr> else st2)"

lemma recordFailure_states:
  "lim_states (recordFailure l key now) k = Some st \<Longrightarrow>
    (if k = key then st = failed_state l key now else lim_states l k = Some st)"
  by (auto simp: recordFailure_def failed_state_def Let_def dest!: sweep_Some split: if_splits)

lemma failed_state_ok:
  assumes "\<And>st. lim_states l key = Some st \<Longrightarrow> state_ok l now n st" "0 < now" "0 < lim_blockFor l" "0 \<le> n"
  shows "state_ok l now (n + 1) (failed_state l key now)"
  using assms
  by (cases "lim_states l key")
    (auto simp: failed_state_def state_of_def zero_state_def state_ok_def Let_def IsZero_def)

lemma limiter_inv_blocked:
  assumes "limiter_inv n s" "blockedFor (sys_limiter s) key (sys_now s) = (d, l)"
  shows "limiter_inv n (s\<lparr>sys_limiter := l\<rparr>)"
proof -
  have "state_ok l (sys_now s) (n k) st" if "lim_states l k = Some st" for k st
  proof -
    have "state_ok (sys_limiter s) (sys_now s) (n k) st"
      using assms(1) blockedFor_states [OF assms(2) that] by (simp add: limiter_inv_def)
    with blockedFor_params [OF assms(2)] show ?thesis by (simp add: state_ok_def)
  qed
  with assms(1) blockedFor_params [OF assms(2)] show ?thesis by (simp add: limiter_inv_def)
qed

lemma limiter_inv_inflight [simp]: "limiter_inv n (s\<lparr>sys_inflight := m\<rparr>) = limiter_inv n s"
  by (simp add: limiter_inv_def)

lemma limiter_step_inv:
  assumes "limiter_step s e s'" "limiter_inv n s"
  shows "limiter_inv (\<lambda>key. n key + (if e = Respond key StatusUnauthorized then 1 else 0)) s'"
  using assms(1)
proof (cases rule: limiter_step.cases)
  case (tick t)
  with assms(2) show ?thesis by (fastforce simp: limiter_inv_def state_ok_def)
next
  case (reject key d l)
  with limiter_inv_blocked [OF assms(2) reject(3)] show ?thesis by simp
next
  case (admit key d l)
  with limiter_inv_blocked [OF assms(2) admit(3)] limiter_inv_inflight [where s = "s\<lparr>sys_limiter := l\<rparr>"] show ?thesis by simp
next
  case (respond key status)
  show ?thesis
  proof (cases "status = StatusUnauthorized")
    case True
    have "state_ok (sys_limiter s) (sys_now s) (n key + 1) (failed_state (sys_limiter s) key (sys_now s))"
      using assms(2) by (intro failed_state_ok) (auto simp: limiter_inv_def)
    with respond True assms(2) show ?thesis
      by (auto simp: limiter_inv_def recordFailure_params state_ok_def dest!: recordFailure_states split: if_splits)
  next
    case False
    with respond assms(2) show ?thesis by (auto simp: limiter_inv_def)
  qed
qed

lemma limiter_init_inv: "0 < now \<Longrightarrow> limiter_inv (\<lambda>_. 0) (limiter_init limit window blockFor now)"
  by (simp add: limiter_inv_def limiter_init_def NewAuthFailureLimiter_def minute_def)

lemma limiter_run_inv:
  "limiter_run s es s' \<Longrightarrow> limiter_inv (\<lambda>_. 0) s \<Longrightarrow> limiter_inv (\<lambda>key. failures_of key es) s'"
proof (induction rule: limiter_run.induct)
  case (start s)
  then show ?case by (simp add: failures_of_def)
next
  case (more s es s1 e s2)
  have "failures_of key (es @ [e]) = failures_of key es + (if e = Respond key StatusUnauthorized then 1 else 0)" for key
    by (simp add: failures_of_def)
  with limiter_step_inv [OF more.hyps(2) more.IH [OF more.prems]] show ?case by simp
qed

lemma limiter_run_limit:
  "limiter_run s es s' \<Longrightarrow> lim_limit (sys_limiter s') = lim_limit (sys_limiter s)
    \<and> lim_blockFor (sys_limiter s') = lim_blockFor (sys_limiter s)"
  by (induction rule: limiter_run.induct)
    (auto elim!: limiter_stepE dest!: blockedFor_params simp: recordFailure_params)

section \<open>Properties\<close>

text \<open>
  C18: a client is rejected only after at least \<open>limit\<close> of its own requests were answered with 401;
  in particular one whose requests are never refused is never rejected, however many it makes and
  whatever the others do.
\<close>

theorem limiter_rejects_only_offenders:
  assumes "limiter_run (limiter_init limit window blockFor now) (es @ [Reject key]) s" "0 < now" "0 < limit"
  shows "limit \<le> failures_of key es"
proof -
  from assms(1) obtain s1 where run: "limiter_run (limiter_init limit window blockFor now) es s1"
    and step: "limiter_step s1 (Reject key) s"
    by (cases rule: limiter_run.cases) auto
  from step obtain d l where b: "blockedFor (sys_limiter s1) key (sys_now s1) = (d, l)" "0 < d"
    by (auto elim: limiter_stepE)
  note inv = limiter_run_inv [OF run limiter_init_inv [OF assms(2)]]
  have "0 < sys_now s1" using inv by (simp add: limiter_inv_def)
  with b obtain st where st: "lim_states (sys_limiter s1) key = Some st" "\<not> IsZero (afs_blockedUntil st)"
    by (cases "lim_states (sys_limiter s1) key")
      (auto simp: blockedFor_def state_of_def zero_state_def Let_def IsZero_def split: if_splits)
  with inv have "lim_limit (sys_limiter s1) \<le> failures_of key es"
    by (fastforce simp: limiter_inv_def state_ok_def)
  moreover have "lim_limit (sys_limiter s1) = limit"
    using limiter_run_limit [OF run] assms(3) by (simp add: limiter_init_def NewAuthFailureLimiter_def)
  ultimately show ?thesis by simp
qed

text \<open>
  C19: no client is locked out for good: from every reachable state, once \<open>blockFor\<close> has passed, the
  next request of any client is admitted, whatever happened before.
\<close>

theorem limiter_readmits:
  assumes "limiter_run (limiter_init limit window blockFor now) es s" "0 < now" "0 < blockFor"
  shows "\<exists>s1 s2. limiter_step s (Tick (sys_now s + blockFor)) s1 \<and> limiter_step s1 (Admit key) s2
    \<and> key \<in># sys_inflight s2"
proof -
  let ?t = "sys_now s + blockFor"
  note inv = limiter_run_inv [OF assms(1) limiter_init_inv [OF assms(2)]]
  have bf: "lim_blockFor (sys_limiter s) = blockFor"
    using limiter_run_limit [OF assms(1)] assms(3) by (simp add: limiter_init_def NewAuthFailureLimiter_def)
  obtain d l where b: "blockedFor (sys_limiter s) key ?t = (d, l)" by fastforce
  have pos: "0 < sys_now s" using inv by (simp add: limiter_inv_def)
  have "afs_blockedUntil st \<le> ?t" if "lim_states (sys_limiter s) key = Some st" for st
  proof -
    have "state_ok (sys_limiter s) (sys_now s) (failures_of key es) st" using inv that by (simp add: limiter_inv_def)
    with bf pos assms(3) show ?thesis by (auto simp: state_ok_def IsZero_def)
  qed
  with pos assms(3) have "afs_blockedUntil (state_of (sys_limiter s) key) \<le> ?t"
    by (simp add: state_of_def zero_state_def split: option.split)
  then have "d \<le> 0" using b by (auto simp: blockedFor_def Let_def split: if_splits)
  have "limiter_step s (Tick ?t) (s\<lparr>sys_now := ?t\<rparr>)" using assms(3) by (intro limiter_step.tick) simp
  moreover have "limiter_step (s\<lparr>sys_now := ?t\<rparr>) (Admit key) (s\<lparr>sys_now := ?t, sys_limiter := l, sys_inflight := add_mset key (sys_inflight s)\<rparr>)"
    using limiter_step.admit [of "s\<lparr>sys_now := ?t\<rparr>" key d l] b \<open>d \<le> 0\<close> by simp
  ultimately show ?thesis by (intro exI conjI) auto
qed

section \<open>A client on its own\<close>

text \<open>One request through \<open>Wrap\<close> without others in between: whether it was served, and the limiter after it.\<close>

definition Wrap_request :: "AuthFailureLimiter \<Rightarrow> string \<Rightarrow> nat \<Rightarrow> time \<Rightarrow> bool \<times> AuthFailureLimiter" where
  "Wrap_request l key status now =
    (case blockedFor l key now of (d, l') \<Rightarrow>
       if 0 < d then (False, l')
       else (True, if status = StatusUnauthorized then recordFailure l' key now else l'))"

fun failing_requests :: "AuthFailureLimiter \<Rightarrow> string \<Rightarrow> time list \<Rightarrow> AuthFailureLimiter" where
  "failing_requests l key [] = l"
| "failing_requests l key (t # ts) = failing_requests (snd (Wrap_request l key StatusUnauthorized t)) key ts"

lemma blockedFor_open:
  "afs_blockedUntil (state_of l key) = time_zero \<Longrightarrow> 0 < now \<Longrightarrow> \<exists>d. d \<le> 0 \<and> blockedFor l key now = (d, l)"
  by (simp add: blockedFor_def Let_def IsZero_def)

lemma sweep_kept: "states key = Some st \<Longrightarrow> time_Sub now (afs_firstFailure st) < window \<Longrightarrow> sweep window now states key = Some st"
  by (simp add: sweep_def)

lemma recordFailure_own:
  assumes "0 < lim_window l" "time_Sub now (afs_firstFailure (failed_state l key now)) < lim_window l"
  shows "lim_states (recordFailure l key now) key = Some (failed_state l key now)"
  using sweep_kept [OF _ assms(2), of "(lim_states l)(key \<mapsto> failed_state l key now)" key]
  by (simp add: recordFailure_def failed_state_def Let_def)

text \<open>The state after the first failure and after each further one within the window.\<close>

lemma Wrap_first:
  assumes "lim_states l key = None" "0 < t" "0 < lim_window l" "1 \<le> lim_limit l"
  shows "lim_states (snd (Wrap_request l key StatusUnauthorized t)) key = Some
    \<lparr>afs_firstFailure = t, afs_failures = 1, afs_blockedUntil = (if lim_limit l = 1 then t + lim_blockFor l else time_zero)\<rparr>"
proof -
  have z: "state_of l key = zero_state" using assms(1) by (simp add: state_of_def)
  obtain d where "d \<le> 0" "blockedFor l key t = (d, l)"
    using blockedFor_open [of l key t] assms(2) z by (auto simp: zero_state_def)
  moreover have f: "failed_state l key t = \<lparr>afs_firstFailure = t, afs_failures = 1,
      afs_blockedUntil = (if lim_limit l = 1 then t + lim_blockFor l else time_zero)\<rparr>"
    using assms(4) by (auto simp: failed_state_def z zero_state_def IsZero_def Let_def)
  ultimately show ?thesis using recordFailure_own [of l t key] assms(3) by (simp add: Wrap_request_def f time_Sub_def)
qed

lemma Wrap_next:
  assumes "lim_states l key = Some \<lparr>afs_firstFailure = t0, afs_failures = n, afs_blockedUntil = time_zero\<rparr>"
    "0 < t0" "t0 \<le> t" "t - t0 < lim_window l" "lim_window l < 2 ^ 63" "n < lim_limit l"
  shows "lim_states (snd (Wrap_request l key StatusUnauthorized t)) key = Some
    \<lparr>afs_firstFailure = t0, afs_failures = n + 1, afs_blockedUntil = (if lim_limit l = n + 1 then t + lim_blockFor l else time_zero)\<rparr>"
proof -
  let ?st = "\<lparr>afs_firstFailure = t0, afs_failures = n, afs_blockedUntil = time_zero\<rparr>"
  have z: "state_of l key = ?st" using assms(1) by (simp add: state_of_def)
  have w: "time_Sub t t0 < lim_window l" using assms(3-5) by (auto simp: time_Sub_def)
  obtain d where "d \<le> 0" "blockedFor l key t = (d, l)"
    using blockedFor_open [of l key t] assms(2,3) z by auto
  moreover have f: "failed_state l key t = \<lparr>afs_firstFailure = t0, afs_failures = n + 1,
      afs_blockedUntil = (if lim_limit l = n + 1 then t + lim_blockFor l else time_zero)\<rparr>"
    using assms(2,6) w by (auto simp: failed_state_def z IsZero_def Let_def)
  ultimately show ?thesis using recordFailure_own [of l t key] w assms(3,4) by (simp add: Wrap_request_def f)
qed

lemma Wrap_request_params:
  "lim_limit (snd (Wrap_request l key st t)) = lim_limit l" "lim_window (snd (Wrap_request l key st t)) = lim_window l"
  "lim_blockFor (snd (Wrap_request l key st t)) = lim_blockFor l"
  by (auto simp: Wrap_request_def recordFailure_params dest: blockedFor_params split: prod.split)

lemma failing_requests_state:
  assumes "lim_states l key = Some \<lparr>afs_firstFailure = t0, afs_failures = n, afs_blockedUntil = time_zero\<rparr>"
    "0 < t0" "\<forall>t \<in> set ts. t0 \<le> t \<and> t - t0 < lim_window l" "lim_window l < 2 ^ 63" "0 < n"
    "n + int (length ts) = lim_limit l" "ts \<noteq> []"
  shows "lim_states (failing_requests l key ts) key = Some
    \<lparr>afs_firstFailure = t0, afs_failures = lim_limit l, afs_blockedUntil = last ts + lim_blockFor l\<rparr>"
  using assms
proof (induction ts arbitrary: l n)
  case (Cons t ts)
  note next_state = Wrap_next [OF Cons.prems(1,2), of t]
  show ?case
  proof (cases "ts = []")
    case True
    with Cons.prems next_state show ?thesis by simp
  next
    case False
    then have "lim_limit l \<noteq> n + 1" using Cons.prems(6) by auto
    with Cons.prems next_state False show ?thesis
      using Cons.IH [of "snd (Wrap_request l key StatusUnauthorized t)" "n + 1"]
      by (simp add: Wrap_request_params)
  qed
qed simp

text \<open>
  repeated failures do lock a client out: a client not known to the limiter whose requests fail
  \<open>limit\<close> times within the window is refused from the last failure on, until \<open>blockFor\<close> later.
\<close>

theorem limiter_blocks_offender:
  assumes "lim_states l key = None" "0 < t0" "2 \<le> lim_limit l" "0 < lim_window l" "lim_window l < 2 ^ 63"
    "int (length ts) + 1 = lim_limit l" "\<forall>t \<in> set ts. t0 \<le> t \<and> t - t0 < lim_window l"
    "t < last ts + lim_blockFor l"
  shows "\<not> fst (Wrap_request (failing_requests l key (t0 # ts)) key status t)"
proof -
  let ?l = "snd (Wrap_request l key StatusUnauthorized t0)"
  have ts: "ts \<noteq> []" using assms(3,6) by auto
  have "lim_states ?l key = Some \<lparr>afs_firstFailure = t0, afs_failures = 1, afs_blockedUntil = time_zero\<rparr>"
    using Wrap_first [OF assms(1,2,4)] assms(3) by simp
  then have st: "lim_states (failing_requests ?l key ts) key = Some
      \<lparr>afs_firstFailure = t0, afs_failures = lim_limit l, afs_blockedUntil = last ts + lim_blockFor l\<rparr>"
    using failing_requests_state [of ?l key t0 1 ts] assms ts by (simp add: Wrap_request_params)
  then have "0 < fst (blockedFor (failing_requests ?l key ts) key t)"
    using assms(8) by (auto simp: blockedFor_def state_of_def Let_def not_le)
  then show ?thesis by (auto simp: Wrap_request_def split: prod.split)
qed

text \<open>
  a request that was admitted before the block and fails after the window lifts the block: the
  counting starts over and the time of the block is forgotten. With two allowed failures, a window
  of one minute and a block of two, the client that was just rejected is admitted again.
\<close>

theorem limiter_late_failure_unblocks:
  "\<exists>s. limiter_run (limiter_init 2 minute (2 * minute) unix_epoch)
     [Admit key, Admit key, Admit key, Respond key StatusUnauthorized, Respond key StatusUnauthorized,
      Tick (unix_epoch + minute), Reject key, Respond key StatusUnauthorized, Admit key] s"
proof -
  let ?st = "\<lambda>f n b. \<lparr>afs_firstFailure = f, afs_failures = n, afs_blockedUntil = b\<rparr>"
  let ?l = "\<lambda>states n. \<lparr>lim_limit = 2, lim_window = minute, lim_blockFor = 2 * minute, lim_states = states, lim_attempts = n\<rparr>"
  let ?s = "\<lambda>states n m t. \<lparr>sys_limiter = ?l states n, sys_inflight = m, sys_now = t\<rparr>"
  let ?e = unix_epoch
  let ?b = "?st ?e 2 (?e + 2 * minute)"
  have init: "limiter_init 2 minute (2 * minute) ?e = ?s Map.empty 0 {#} ?e"
    by (simp add: limiter_init_def NewAuthFailureLimiter_def minute_def)
  have nz: "?e > 0" "?e + 2 * minute > 0" "minute > 0" by (simp_all add: unix_epoch_def minute_def)
  have open0: "blockedFor (?l Map.empty n) key t = (time_Sub 0 t, ?l Map.empty n)" for n t
    by (simp add: blockedFor_def state_of_def zero_state_def IsZero_def Let_def)
  have a: "limiter_step (?s Map.empty 0 m ?e) (Admit key) (?s Map.empty 0 (add_mset key m) ?e)" for m
    using limiter_step.admit [of "?s Map.empty 0 m ?e" key, OF _ _] open0 nz by simp
  have f1: "recordFailure (?l Map.empty 0) key ?e = ?l [key \<mapsto> ?st ?e 1 0] 1"
    by (simp add: recordFailure_def state_of_def zero_state_def IsZero_def Let_def)
  have f2: "recordFailure (?l [key \<mapsto> ?st ?e 1 0] 1) key ?e = ?l [key \<mapsto> ?b] 2"
    using nz by (simp add: recordFailure_def state_of_def IsZero_def Let_def time_Sub_def)
  have f3: "recordFailure (?l [key \<mapsto> ?b] 2) key (?e + minute) = ?l [key \<mapsto> ?st (?e + minute) 1 0] 3"
    using nz by (simp add: recordFailure_def state_of_def zero_state_def IsZero_def Let_def time_Sub_def minute_def)
  have r1: "limiter_step (?s Map.empty 0 {#key, key, key#} ?e) (Respond key StatusUnauthorized) (?s [key \<mapsto> ?st ?e 1 0] 1 {#key, key#} ?e)"
    using limiter_step.respond [of key "?s Map.empty 0 {#key, key, key#} ?e" StatusUnauthorized] by (simp add: f1)
  have r2: "limiter_step (?s [key \<mapsto> ?st ?e 1 0] 1 {#key, key#} ?e) (Respond key StatusUnauthorized) (?s [key \<mapsto> ?b] 2 {#key#} ?e)"
    using limiter_step.respond [of key "?s [key \<mapsto> ?st ?e 1 0] 1 {#key, key#} ?e" StatusUnauthorized] by (simp add: f2 [unfolded One_nat_def])
  have tk: "limiter_step (?s [key \<mapsto> ?b] 2 {#key#} ?e) (Tick (?e + minute)) (?s [key \<mapsto> ?b] 2 {#key#} (?e + minute))"
    using limiter_step.tick [of "?s [key \<mapsto> ?b] 2 {#key#} ?e" "?e + minute"] nz by simp
  have bl: "blockedFor (?l [key \<mapsto> ?b] 2) key (?e + minute) = (minute, ?l [key \<mapsto> ?b] 2)"
    using nz by (simp add: blockedFor_def state_of_def Let_def time_Sub_def minute_def)
  have rj: "limiter_step (?s [key \<mapsto> ?b] 2 {#key#} (?e + minute)) (Reject key) (?s [key \<mapsto> ?b] 2 {#key#} (?e + minute))"
    using limiter_step.reject [of "?s [key \<mapsto> ?b] 2 {#key#} (?e + minute)" key minute "?l [key \<mapsto> ?b] 2"] bl nz by simp
  have r3: "limiter_step (?s [key \<mapsto> ?b] 2 {#key#} (?e + minute)) (Respond key StatusUnauthorized)
      (?s [key \<mapsto> ?st (?e + minute) 1 0] 3 {#} (?e + minute))"
    using limiter_step.respond [of key "?s [key \<mapsto> ?b] 2 {#key#} (?e + minute)" StatusUnauthorized] by (simp add: f3)
  have bl2: "blockedFor (?l [key \<mapsto> ?st (?e + minute) 1 0] 3) key (?e + minute) = (time_Sub 0 (?e + minute), ?l [key \<mapsto> ?st (?e + minute) 1 0] 3)"
    by (simp add: blockedFor_def state_of_def Let_def IsZero_def)
  have ad: "limiter_step (?s [key \<mapsto> ?st (?e + minute) 1 0] 3 {#} (?e + minute)) (Admit key)
      (?s [key \<mapsto> ?st (?e + minute) 1 0] 3 {#key#} (?e + minute))"
    using limiter_step.admit [of "?s [key \<mapsto> ?st (?e + minute) 1 0] 3 {#} (?e + minute)" key, OF _ _] bl2 nz by simp
  note runs = limiter_run.more [OF limiter_run.more [OF limiter_run.more [OF limiter_run.more [OF limiter_run.more [OF
    limiter_run.more [OF limiter_run.more [OF limiter_run.more [OF limiter_run.more [OF limiter_run.start a] a] a] r1] r2] tk] rj] r3] ad]
  from runs show ?thesis unfolding init by auto
qed

section \<open>Witnesses\<close>

lemma demo_limiter_run:
  "\<exists>s. limiter_run (limiter_init 1 minute minute unix_epoch)
     ([Admit ''k'', Respond ''k'' StatusUnauthorized] @ [Reject ''k'']) s"
proof -
  let ?l = "\<lambda>states n. \<lparr>lim_limit = 1, lim_window = minute, lim_blockFor = minute, lim_states = states, lim_attempts = n\<rparr>"
  let ?s = "\<lambda>states n m. \<lparr>sys_limiter = ?l states n, sys_inflight = m, sys_now = unix_epoch\<rparr>"
  let ?b = "\<lparr>afs_firstFailure = unix_epoch, afs_failures = 1, afs_blockedUntil = unix_epoch + minute\<rparr>"
  have init: "limiter_init 1 minute minute unix_epoch = ?s Map.empty 0 {#}"
    by (simp add: limiter_init_def NewAuthFailureLimiter_def minute_def)
  have "blockedFor (?l Map.empty 0) ''k'' unix_epoch = (time_Sub 0 unix_epoch, ?l Map.empty 0)"
    by (simp add: blockedFor_def state_of_def zero_state_def IsZero_def Let_def)
  then have a: "limiter_step (?s Map.empty 0 {#}) (Admit ''k'') (?s Map.empty 0 {#''k''#})"
    using limiter_step.admit [of "?s Map.empty 0 {#}" "''k''", OF _ _] by (simp add: unix_epoch_def)
  have "recordFailure (?l Map.empty 0) ''k'' unix_epoch = ?l [''k'' \<mapsto> ?b] 1"
    by (simp add: recordFailure_def state_of_def zero_state_def IsZero_def Let_def)
  then have r: "limiter_step (?s Map.empty 0 {#''k''#}) (Respond ''k'' StatusUnauthorized) (?s [''k'' \<mapsto> ?b] 1 {#})"
    using limiter_step.respond [of "''k''" "?s Map.empty 0 {#''k''#}" StatusUnauthorized] by simp
  have "blockedFor (?l [''k'' \<mapsto> ?b] 1) ''k'' unix_epoch = (minute, ?l [''k'' \<mapsto> ?b] 1)"
    by (simp add: blockedFor_def state_of_def Let_def time_Sub_def minute_def)
  then have j: "limiter_step (?s [''k'' \<mapsto> ?b] 1 {#}) (Reject ''k'') (?s [''k'' \<mapsto> ?b] 1 {#})"
    using limiter_step.reject [of "?s [''k'' \<mapsto> ?b] 1 {#}" "''k''" minute "?l [''k'' \<mapsto> ?b] 1"] by (simp add: minute_def)
  from limiter_run.more [OF limiter_run.more [OF limiter_run.more [OF limiter_run.start a] r] j]
  show ?thesis unfolding init by auto
qed

theorem limiter_rejects_only_offenders_witness:
  "1 \<le> failures_of ''k'' [Admit ''k'', Respond ''k'' StatusUnauthorized]"
proof -
  obtain s where "limiter_run (limiter_init 1 minute minute unix_epoch)
     ([Admit ''k'', Respond ''k'' StatusUnauthorized] @ [Reject ''k'']) s" using demo_limiter_run by blast
  from limiter_rejects_only_offenders [OF this] show ?thesis by (simp add: unix_epoch_def)
qed

theorem limiter_readmits_witness:
  "\<exists>s s1 s2. limiter_run (limiter_init 1 minute minute unix_epoch)
      ([Admit ''k'', Respond ''k'' StatusUnauthorized] @ [Reject ''k'']) s
    \<and> limiter_step s (Tick (sys_now s + minute)) s1 \<and> limiter_step s1 (Admit ''k'') s2"
proof -
  obtain s where run: "limiter_run (limiter_init 1 minute minute unix_epoch)
     ([Admit ''k'', Respond ''k'' StatusUnauthorized] @ [Reject ''k'']) s" using demo_limiter_run by blast
  from limiter_readmits [OF this, of "''k''"] run show ?thesis by (auto simp: unix_epoch_def minute_def)
qed

theorem limiter_blocks_offender_witness:
  "\<not> fst (Wrap_request (failing_requests (NewAuthFailureLimiter 2 minute minute) ''k'' [unix_epoch, unix_epoch + second])
      ''k'' 200 (unix_epoch + 2 * second))"
  using limiter_blocks_offender [of "NewAuthFailureLimiter 2 minute minute" "''k''" unix_epoch "[unix_epoch + second]"
    "unix_epoch + 2 * second" 200]
  by (simp add: NewAuthFailureLimiter_def unix_epoch_def second_def minute_def)

end
