(* ===== verification/Users.thy ===== *)
theory Users
  imports World
begin

text \<open>
  Accounts: the user service (\<open>core/services/users.go\<close>) over the ports \<open>UserStore\<close> and
  \<open>CredentialCodec\<close> (\<open>core/ports/users.go\<close>), the credential codec (\<open>adapters/auth/credentials.go\<close>)
  and the SQL store (\<open>adapters/storage/sqlite/users.go\<close>).

  The locale \<open>user_store\<close> is the contract of the port: what each call does to a map from user
  names to credentials. The service's guarantees (no privilege escalation, an administrator
  always remains) are proved against it once and hold for the SQL store by interpretation.
  bcrypt, AES-GCM, MD5 and the source of randomness are parameters.
\<close>

section \<open>Ports\<close>

record 's UserStore =
  us_Users :: "('s, User list) action"
  us_UserCredential :: "string \<Rightarrow> ('s, UserCredential) action"
  us_CreateUser :: "UserCredential \<Rightarrow> ('s, unit) action"
  us_UpdateUserPassword :: "string \<Rightarrow> string \<Rightarrow> string \<Rightarrow> ('s, unit) action"
  us_UpdateUserPermissions :: "string \<Rightarrow> Permission list \<Rightarrow> ('s, unit) action"
  us_DeleteUser :: "string \<Rightarrow> ('s, unit) action"

record 's CredentialCodec =
  codec_Encode :: "string \<Rightarrow> ('s, string \<times> string) action"
  codec_Verify :: "string \<Rightarrow> string \<Rightarrow> unit result"
  codec_DecryptToken :: "string \<Rightarrow> string result"

record 's UserService =
  svc_store :: "'s UserStore"
  svc_codec :: "'s CredentialCodec"
  svc_uc :: unicode_tables
  svc_md5 :: "string \<Rightarrow> string"
  svc_now :: "'s \<Rightarrow> time \<times> 's"

section \<open>The service\<close>

definition username_rune_ok :: "unicode_tables \<Rightarrow> nat \<Rightarrow> bool" where
  "username_rune_ok uc r = (IsLetter uc r \<or> IsDigit uc r \<or> r \<in> set (map byte ''._-''))"

definition normalizeUsername :: "unicode_tables \<Rightarrow> string \<Rightarrow> string result" where
  "normalizeUsername uc v =
    (let value = ToLower uc (TrimSpace v);
         count = length (runes_of value)
     in if count < 1 \<or> 64 < count
        then Inl (Wrap ''username must contain 1 to 64 characters'' ErrInvalidUser)
        else if list_all (username_rune_ok uc) (runes_of value) then Inr value
        else Inl (Wrap ''username contains an unsupported character'' ErrInvalidUser))"

definition validatePassword :: "string \<Rightarrow> unit result" where
  "validatePassword password =
    (if length password < 8 \<or> 72 < length password
     then Inl (Wrap ''password must contain 8 to 72 bytes'' ErrInvalidUser) else Inr ())"

text \<open>The loop of \<open>normalizePermissions\<close>: \<open>result\<close> holds what was appended so far, which is also
  what the map \<open>seen\<close> holds.\<close>

fun normalizePermissions_loop :: "Permission list \<Rightarrow> Permission list \<Rightarrow> Permission list result" where
  "normalizePermissions_loop result [] = Inr result"
| "normalizePermissions_loop result (permission # rest) =
    (if \<not> ValidPermission permission then Inl (Wrap ''unsupported permission'' ErrInvalidUser)
     else if permission \<in> set result then normalizePermissions_loop result rest
     else normalizePermissions_loop (result @ [permission]) rest)"

definition normalizePermissions :: "Permission list \<Rightarrow> Permission list result" where
  "normalizePermissions permissions =
    (case normalizePermissions_loop [] permissions of
       Inl e \<Rightarrow> Inl e
     | Inr result \<Rightarrow> Inr (SliceStable (<) result))"

definition newCredential ::
  "'s UserService \<Rightarrow> string \<Rightarrow> string \<Rightarrow> UserRole \<Rightarrow> Permission list \<Rightarrow> ('s, UserCredential) action"
where
  "newCredential svc username password role permissions =
    bindE (wrapE ''encode user credentials'' (codec_Encode (svc_codec svc) password))
      (\<lambda>(passwordHash, encryptedToken).
        readE (svc_now svc) (\<lambda>now.
          ret \<lparr>cred_User = \<lparr>user_Username = username, user_Role = role,
                 user_Permissions = permissions, user_CreatedAt = now, user_UpdatedAt = now\<rparr>,
               cred_PasswordHash = passwordHash, cred_EncryptedToken = encryptedToken\<rparr>))"

definition EnsureBootstrapAdmin :: "'s UserService \<Rightarrow> string \<Rightarrow> string \<Rightarrow> ('s, unit) action" where
  "EnsureBootstrapAdmin svc username password =
    bindE (wrapE ''list users before bootstrap'' (us_Users (svc_store svc)))
      (\<lambda>users.
        if users \<noteq> [] then ret ()
        else bindE (liftR (normalizeUsername (svc_uc svc) username)) (\<lambda>username.
          if password = '''' \<or> 72 < length password
          then fail (Wrap ''bootstrap password must contain 1 to 72 bytes'' ErrInvalidUser)
          else bindE (newCredential svc username password UserRoleAdmin [])
            (\<lambda>credential.
              wrapE ''create bootstrap administrator'' (us_CreateUser (svc_store svc) credential))))"

text \<open>Every failure on the way is reported as \<open>ErrAuthenticationFailed\<close>.\<close>

definition authFail :: "('s, 'a) action \<Rightarrow> ('a \<Rightarrow> ('s, 'b) action) \<Rightarrow> ('s, 'b) action" where
  "authFail m k = tryE m (\<lambda>r. case r of Inl _ \<Rightarrow> fail ErrAuthenticationFailed | Inr x \<Rightarrow> k x)"

definition AuthenticatePassword :: "'s UserService \<Rightarrow> string \<Rightarrow> string \<Rightarrow> ('s, User) action" where
  "AuthenticatePassword svc username password =
    authFail (liftR (normalizeUsername (svc_uc svc) username)) (\<lambda>username.
      authFail (us_UserCredential (svc_store svc) username) (\<lambda>credential.
        authFail (liftR (codec_Verify (svc_codec svc) (cred_PasswordHash credential) password)) (\<lambda>_.
          ret (cred_User credential))))"

definition hex_digit :: "nat \<Rightarrow> char" where
  "hex_digit n = (if n < 10 then char_of (48 + n) else char_of (87 + n))"

definition hex_string :: "string \<Rightarrow> string" where
  "hex_string s = concat (map (\<lambda>c. [hex_digit (byte c div 16), hex_digit (byte c mod 16)]) s)"

definition is_hex :: "char \<Rightarrow> bool" where
  "is_hex c = (let b = byte c in 48 \<le> b \<and> b \<le> 57 \<or> 65 \<le> b \<and> b \<le> 70 \<or> 97 \<le> b \<and> b \<le> 102)"

definition AuthenticateToken ::
  "'s UserService \<Rightarrow> string \<Rightarrow> string \<Rightarrow> string \<Rightarrow> ('s, User) action" where
  "AuthenticateToken svc username token salt =
    authFail (liftR (normalizeUsername (svc_uc svc) username)) (\<lambda>username.
      if salt = '''' \<or> length token \<noteq> 32 then fail ErrAuthenticationFailed
      else if \<not> (list_all is_hex token \<and> even (length token)) then fail ErrAuthenticationFailed
      else authFail (us_UserCredential (svc_store svc) username) (\<lambda>credential.
        authFail (liftR (codec_DecryptToken (svc_codec svc) (cred_EncryptedToken credential)))
          (\<lambda>password.
            let expected = hex_string (svc_md5 svc (password @ salt))
            in if ToLower (svc_uc svc) token \<noteq> expected then fail ErrAuthenticationFailed
               else ret (cred_User credential))))"

definition UserService_Users :: "'s UserService \<Rightarrow> User \<Rightarrow> ('s, User list) action" where
  "UserService_Users svc actor =
    (if \<not> HasPermission actor PermissionUsersManage then fail ErrForbidden
     else us_Users (svc_store svc))"

definition UserService_CreateUser ::
  "'s UserService \<Rightarrow> User \<Rightarrow> string \<Rightarrow> string \<Rightarrow> UserRole \<Rightarrow> Permission list \<Rightarrow> ('s, User) action"
where
  "UserService_CreateUser svc actor username password role permissions =
    (if \<not> HasPermission actor PermissionUsersManage then fail ErrForbidden
     else bindE (liftR (normalizeUsername (svc_uc svc) username)) (\<lambda>username.
       bindE (liftR (validatePassword password)) (\<lambda>_.
         if role \<noteq> UserRoleAdmin \<and> role \<noteq> UserRoleUser
         then fail (Wrap ''role must be admin or user'' ErrInvalidUser)
         else bindE (liftR (normalizePermissions permissions)) (\<lambda>permissions.
           if \<not> IsAdmin actor \<and> (role \<noteq> UserRoleUser \<or> permissions \<noteq> []) then fail ErrForbidden
           else bindE (newCredential svc username password role
                        (if role = UserRoleAdmin then [] else permissions))
             (\<lambda>credential.
               bindE (us_CreateUser (svc_store svc) credential) (\<lambda>_.
                 ret (cred_User credential)))))))"

definition UserService_UpdatePassword ::
  "'s UserService \<Rightarrow> User \<Rightarrow> string \<Rightarrow> string \<Rightarrow> ('s, unit) action" where
  "UserService_UpdatePassword svc actor username password =
    bindE (liftR (normalizeUsername (svc_uc svc) username)) (\<lambda>username.
      bindE
        (if user_Username actor \<noteq> username then
           (if \<not> HasPermission actor PermissionUsersManage then fail ErrForbidden
            else bindE (us_UserCredential (svc_store svc) username) (\<lambda>target.
              if IsAdmin (cred_User target) \<and> \<not> IsAdmin actor then fail ErrForbidden else ret ()))
         else ret ())
        (\<lambda>_. bindE (liftR (validatePassword password)) (\<lambda>_.
          bindE (wrapE ''encode user credentials'' (codec_Encode (svc_codec svc) password))
            (\<lambda>(passwordHash, encryptedToken).
              us_UpdateUserPassword (svc_store svc) username passwordHash encryptedToken))))"

text \<open>The loop over the users looks for the target among the administrators.\<close>

fun last_admin_loop :: "string \<Rightarrow> User list \<Rightarrow> User list \<Rightarrow> bool" where
  "last_admin_loop username users [] = False"
| "last_admin_loop username users (user # rest) =
    (if user_Username user \<noteq> username \<or> \<not> IsAdmin user then last_admin_loop username users rest
     else length (filter IsAdmin users) = 1)"

definition UserService_DeleteUser :: "'s UserService \<Rightarrow> User \<Rightarrow> string \<Rightarrow> ('s, unit) action" where
  "UserService_DeleteUser svc actor username =
    (if \<not> HasPermission actor PermissionUsersManage then fail ErrForbidden
     else bindE (liftR (normalizeUsername (svc_uc svc) username)) (\<lambda>username.
       if user_Username actor = username
       then fail (Wrap ''users cannot delete their own account'' ErrInvalidUser)
       else bindE (us_UserCredential (svc_store svc) username) (\<lambda>target.
         if IsAdmin (cred_User target) \<and> \<not> IsAdmin actor then fail ErrForbidden
         else bindE (us_Users (svc_store svc)) (\<lambda>users.
           if last_admin_loop username users users then fail ErrLastAdministrator
           else us_DeleteUser (svc_store svc) username))))"

definition UserService_UpdatePermissions ::
  "'s UserService \<Rightarrow> User \<Rightarrow> string \<Rightarrow> Permission list \<Rightarrow> ('s, User) action" where
  "UserService_UpdatePermissions svc actor username permissions =
    (if \<not> IsAdmin actor then fail ErrForbidden
     else bindE (liftR (normalizeUsername (svc_uc svc) username)) (\<lambda>username.
       bindE (liftR (normalizePermissions permissions)) (\<lambda>permissions.
         bindE (us_UserCredential (svc_store svc) username) (\<lambda>credential.
           if IsAdmin (cred_User credential)
           then fail (Wrap ''administrator permissions cannot be restricted'' ErrInvalidUser)
           else bindE (us_UpdateUserPermissions (svc_store svc) username permissions) (\<lambda>_.
             readE (svc_now svc) (\<lambda>now.
               ret ((cred_User credential)\<lparr>user_Permissions := permissions,
                     user_UpdatedAt := now\<rparr>)))))))"

section \<open>The credential codec\<close>

text \<open>bcrypt, the AEAD and the random source, as the codec uses them. What depends on randomness
  (the salt of bcrypt, a nonce) takes the number of readings of the environment so far.\<close>

record crypto =
  bcrypt_Generate :: "nat \<Rightarrow> string \<Rightarrow> string result"
  bcrypt_Compare :: "string \<Rightarrow> string \<Rightarrow> bool"
  rand_Read :: "nat \<Rightarrow> nat \<Rightarrow> string result"
  aead_NonceSize :: nat
  aead_Overhead :: nat
  aead_Seal :: "string \<Rightarrow> string \<Rightarrow> string"
  aead_Open :: "string \<Rightarrow> string \<Rightarrow> string option"

definition credentialVersion :: char where
  "credentialVersion = CHR 0x01"

definition CredentialCodec_Encode :: "crypto \<Rightarrow> string \<Rightarrow> (world, string \<times> string) action" where
  "CredentialCodec_Encode cr password =
    bindE (wrapE ''hash password'' (env_read (\<lambda>i. bcrypt_Generate cr i password))) (\<lambda>hash.
      bindE (wrapE ''create credential nonce'' (env_read (\<lambda>i. rand_Read cr i (aead_NonceSize cr)))) (\<lambda>nonce.
        let sealed = ([credentialVersion] @ nonce) @ aead_Seal cr nonce password
        in ret (hash, sealed)))"

definition CredentialCodec_Verify :: "crypto \<Rightarrow> string \<Rightarrow> string \<Rightarrow> unit result" where
  "CredentialCodec_Verify cr passwordHash password =
    (if bcrypt_Compare cr passwordHash password then Inr ()
     else Inl (Wrap ''verify password'' (ErrIO ''bcrypt'')))"

definition CredentialCodec_DecryptToken :: "crypto \<Rightarrow> string \<Rightarrow> string result" where
  "CredentialCodec_DecryptToken cr encrypted =
    (let nonceSize = aead_NonceSize cr in
     if length encrypted < 1 + nonceSize + aead_Overhead cr \<or> hd encrypted \<noteq> credentialVersion
     then Inl (Errorf ''invalid encrypted credential'')
     else case aead_Open cr (take nonceSize (drop 1 encrypted)) (drop (1 + nonceSize) encrypted) of
       None \<Rightarrow> Inl (Wrap ''decrypt credential'' (ErrIO ''aead''))
     | Some plaintext \<Rightarrow> Inr plaintext)"

definition auth_CredentialCodec :: "crypto \<Rightarrow> world CredentialCodec" where
  "auth_CredentialCodec cr = \<lparr>codec_Encode = CredentialCodec_Encode cr,
     codec_Verify = CredentialCodec_Verify cr, codec_DecryptToken = CredentialCodec_DecryptToken cr\<rparr>"

section \<open>The SQL store\<close>

definition scanUser :: "user_row \<Rightarrow> User" where
  "scanUser r = \<lparr>user_Username = ur_username r, user_Role = ur_role r, user_Permissions = [],
     user_CreatedAt = ur_created_at r, user_UpdatedAt = ur_updated_at r\<rparr>"

text \<open>\<open>ORDER BY LOWER(username), permission\<close>.\<close>

definition perm_row_lt :: "string \<times> Permission \<Rightarrow> string \<times> Permission \<Rightarrow> bool" where
  "perm_row_lt a b = (sql_LOWER (fst a) < sql_LOWER (fst b)
     \<or> sql_LOWER (fst a) = sql_LOWER (fst b) \<and> snd a < snd b)"

text \<open>The rows are appended one by one to the user they name (user names are unique).\<close>

fun append_permissions :: "(string \<times> Permission) list \<Rightarrow> User list \<Rightarrow> User list" where
  "append_permissions [] users = users"
| "append_permissions ((username, permission) # rows) users =
    append_permissions rows
      (map (\<lambda>u. if user_Username u = username
                then u\<lparr>user_Permissions := user_Permissions u @ [permission]\<rparr> else u) users)"

definition loadUserPermissions :: "User list \<Rightarrow> (world, User list) action" where
  "loadUserPermissions users =
    (if users = [] then ret []
     else bindE (wrapE ''query user permissions''
                  (db_query (\<lambda>w. SliceStable perm_row_lt (w_user_permissions w))))
       (\<lambda>rows. ret (append_permissions rows users)))"

definition sqlite_Users :: "(world, User list) action" where
  "sqlite_Users =
    bindE (wrapE ''query users''
      (db_query (\<lambda>w. SliceStable (\<lambda>a b. sql_LOWER (ur_username a) < sql_LOWER (ur_username b)) (w_users w))))
      (\<lambda>rows. loadUserPermissions (map scanUser rows))"

definition sqlite_UserCredential :: "string \<Rightarrow> (world, UserCredential) action" where
  "sqlite_UserCredential username =
    bindE (wrapE ''query user credential'' (db_query (\<lambda>w. find_key ur_username username (w_users w))))
      (\<lambda>row. case row of
         None \<Rightarrow> fail ErrNotFound
       | Some r \<Rightarrow>
           bindE (loadUserPermissions [scanUser r]) (\<lambda>users.
             ret \<lparr>cred_User = hd users, cred_PasswordHash = ur_password_hash r,
                  cred_EncryptedToken = ur_encrypted_token r\<rparr>))"

text \<open>The primary key \<open>(username, permission)\<close> rejects a duplicate.\<close>

fun insertUserPermissions :: "string \<Rightarrow> Permission list \<Rightarrow> (world, unit) action" where
  "insertUserPermissions username [] = ret ()"
| "insertUserPermissions username (permission # rest) =
    bindE (wrapE ''insert user permission'' (db_stmt (\<lambda>w.
        if (username, permission) \<in> set (w_user_permissions w) then (Inl (ErrIO ''constraint''), w)
        else (Inr (), w\<lparr>w_user_permissions := w_user_permissions w @ [(username, permission)]\<rparr>))))
      (\<lambda>_. insertUserPermissions username rest)"

definition credential_row :: "UserCredential \<Rightarrow> user_row" where
  "credential_row c = \<lparr>ur_username = user_Username (cred_User c), ur_role = user_Role (cred_User c),
     ur_password_hash = cred_PasswordHash c, ur_encrypted_token = cred_EncryptedToken c,
     ur_created_at = user_CreatedAt (cred_User c), ur_updated_at = user_UpdatedAt (cred_User c)\<rparr>"

text \<open>\<open>INSERT ... ON CONFLICT(username) DO NOTHING\<close> reports the number of inserted rows; the
  schema admits two roles.\<close>

definition insert_user_row :: "UserCredential \<Rightarrow> (world, nat) action" where
  "insert_user_row c = db_stmt (\<lambda>w.
     if user_Role (cred_User c) \<noteq> UserRoleAdmin \<and> user_Role (cred_User c) \<noteq> UserRoleUser
     then (Inl (ErrIO ''constraint''), w)
     else if user_Username (cred_User c) \<in> ur_username ` set (w_users w) then (Inr 0, w)
     else (Inr 1, w\<lparr>w_users := w_users w @ [credential_row c]\<rparr>))"

definition sqlite_CreateUser :: "UserCredential \<Rightarrow> (world, unit) action" where
  "sqlite_CreateUser credential =
    db_tx ''begin user creation'' ''commit user creation''
      (bindE (wrapE ''create user'' (insert_user_row credential)) (\<lambda>changed.
         if changed = 0 then fail ErrAlreadyExists
         else insertUserPermissions (user_Username (cred_User credential))
                (user_Permissions (cred_User credential))))"

text \<open>\<open>UPDATE users SET ... WHERE username = ?\<close> with the number of affected rows.\<close>

definition update_user_row :: "string \<Rightarrow> (user_row \<Rightarrow> user_row) \<Rightarrow> (world, nat) action" where
  "update_user_row username f = db_stmt (\<lambda>w.
     (Inr (length (filter (\<lambda>r. ur_username r = username) (w_users w))),
      w\<lparr>w_users := map (\<lambda>r. if ur_username r = username then f r else r) (w_users w)\<rparr>))"

definition sqlite_UpdateUserPassword :: "string \<Rightarrow> string \<Rightarrow> string \<Rightarrow> (world, unit) action" where
  "sqlite_UpdateUserPassword username passwordHash encryptedToken =
    readE time_Now (\<lambda>now.
      bindE (wrapE ''update user password'' (update_user_row username
              (\<lambda>r. r\<lparr>ur_password_hash := passwordHash, ur_encrypted_token := encryptedToken,
                     ur_updated_at := now\<rparr>)))
        (\<lambda>changed. if changed = 0 then fail ErrNotFound else ret ()))"

text \<open>Deleting a user cascades to \<open>user_permissions\<close>.\<close>

definition sqlite_DeleteUser :: "string \<Rightarrow> (world, unit) action" where
  "sqlite_DeleteUser username =
    bindE (wrapE ''delete user'' (db_stmt (\<lambda>w.
       (Inr (length (filter (\<lambda>r. ur_username r = username) (w_users w))),
        w\<lparr>w_users := filter (\<lambda>r. ur_username r \<noteq> username) (w_users w),
          w_user_permissions := filter (\<lambda>p. fst p \<noteq> username) (w_user_permissions w)\<rparr>))))
      (\<lambda>changed. if changed = 0 then fail ErrNotFound else ret ())"

definition sqlite_UpdateUserPermissions :: "string \<Rightarrow> Permission list \<Rightarrow> (world, unit) action" where
  "sqlite_UpdateUserPermissions username permissions =
    db_tx ''begin user permission update'' ''commit user permission update''
      (readE time_Now (\<lambda>now.
        bindE (wrapE ''touch updated user permissions''
                (update_user_row username (\<lambda>r. r\<lparr>ur_updated_at := now\<rparr>)))
          (\<lambda>changed.
            if changed = 0 then fail ErrNotFound
            else bindE (wrapE ''clear user permissions'' (db_exec (\<lambda>w.
                   w\<lparr>w_user_permissions := filter (\<lambda>p. fst p \<noteq> username) (w_user_permissions w)\<rparr>)))
              (\<lambda>_. insertUserPermissions username permissions))))"

definition sqlite_UserStore :: "world UserStore" where
  "sqlite_UserStore = \<lparr>us_Users = sqlite_Users, us_UserCredential = sqlite_UserCredential,
     us_CreateUser = sqlite_CreateUser, us_UpdateUserPassword = sqlite_UpdateUserPassword,
     us_UpdateUserPermissions = sqlite_UpdateUserPermissions, us_DeleteUser = sqlite_DeleteUser\<rparr>"


section \<open>The contract of the store\<close>

definition has_admin :: "(string \<rightharpoonup> UserCredential) \<Rightarrow> bool" where
  "has_admin V = (\<exists>n c. V n = Some c \<and> IsAdmin (cred_User c))"

lemma run_cases:
  obtains (failed) e s' where "m = (Inl e, s')" | (ok) x s' where "m = (Inr x, s')"
  by (cases m; cases "fst m") auto

text \<open>
  The abstract specification of the service: what a call by \<open>actor\<close> may do to the accounts.
\<close>

inductive account_step ::
  "User \<Rightarrow> (string \<rightharpoonup> UserCredential) \<Rightarrow> (string \<rightharpoonup> UserCredential) \<Rightarrow> bool"
  for actor :: User and V :: "string \<rightharpoonup> UserCredential"
where
  unchanged: "account_step actor V V"
| created: "HasPermission actor PermissionUsersManage \<Longrightarrow> V n = None \<Longrightarrow>
    user_Username (cred_User c) = n \<Longrightarrow>
    (\<not> IsAdmin actor \<longrightarrow> user_Role (cred_User c) = UserRoleUser \<and> user_Permissions (cred_User c) = []) \<Longrightarrow>
    account_step actor V (V(n \<mapsto> c))"
| password: "V n = Some c \<Longrightarrow>
    n = user_Username actor
      \<or> HasPermission actor PermissionUsersManage \<and> (IsAdmin (cred_User c) \<longrightarrow> IsAdmin actor) \<Longrightarrow>
    account_step actor V (V(n \<mapsto> c\<lparr>cred_User := (cred_User c)\<lparr>user_UpdatedAt := now\<rparr>,
      cred_PasswordHash := h, cred_EncryptedToken := t\<rparr>))"
| permissions: "IsAdmin actor \<Longrightarrow> V n = Some c \<Longrightarrow> \<not> IsAdmin (cred_User c) \<Longrightarrow>
    account_step actor V (V(n \<mapsto>
      c\<lparr>cred_User := (cred_User c)\<lparr>user_Permissions := ps, user_UpdatedAt := now\<rparr>\<rparr>))"
| deleted: "HasPermission actor PermissionUsersManage \<Longrightarrow> V n = Some c \<Longrightarrow>
    n \<noteq> user_Username actor \<Longrightarrow>
    (IsAdmin (cred_User c) \<longrightarrow> IsAdmin actor \<and> has_admin (V(n := None))) \<Longrightarrow>
    account_step actor V (V(n := None))"

lemma account_step_has_admin: "account_step actor V V' \<Longrightarrow> has_admin V \<Longrightarrow> has_admin V'"
proof (induction rule: account_step.induct)
  case (created n c)
  then show ?case unfolding has_admin_def by (metis fun_upd_other option.distinct(1))
next
  case (password n c now h t)
  then obtain m d where "V m = Some d" "IsAdmin (cred_User d)" by (auto simp: has_admin_def)
  with password show ?case
    by (cases "m = n") (auto simp: has_admin_def IsAdmin_def intro: exI [of _ m])
next
  case (permissions n c ps now)
  then obtain m d where "V m = Some d" "IsAdmin (cred_User d)" by (auto simp: has_admin_def)
  with permissions show ?case
    by (cases "m = n") (auto simp: has_admin_def IsAdmin_def intro: exI [of _ m])
next
  case (deleted n c)
  show ?case
  proof (cases "IsAdmin (cred_User c)")
    case True
    with deleted show ?thesis by blast
  next
    case False
    from deleted obtain m d where md: "V m = Some d" "IsAdmin (cred_User d)" by (auto simp: has_admin_def)
    with False deleted have "m \<noteq> n" by auto
    with md show ?thesis by (auto simp: has_admin_def intro: exI [of _ m])
  qed
qed simp

text \<open>What a caller who is not an administrator cannot do.\<close>

definition no_escalation ::
  "User \<Rightarrow> (string \<rightharpoonup> UserCredential) \<Rightarrow> (string \<rightharpoonup> UserCredential) \<Rightarrow> bool" where
  "no_escalation actor V V' =
    ((\<forall>n c'. V' n = Some c' \<longrightarrow>
       (case V n of
          None \<Rightarrow> user_Role (cred_User c') = UserRoleUser \<and> user_Permissions (cred_User c') = []
        | Some c \<Rightarrow> user_Role (cred_User c') = user_Role (cred_User c)
            \<and> user_Permissions (cred_User c') = user_Permissions (cred_User c)
            \<and> (IsAdmin (cred_User c) \<and> n \<noteq> user_Username actor \<longrightarrow> c' = c)))
     \<and> (\<forall>n c. V n = Some c \<and> IsAdmin (cred_User c) \<longrightarrow> V' n \<noteq> None))"

lemma account_step_no_escalation:
  "account_step actor V V' \<Longrightarrow> \<not> IsAdmin actor \<Longrightarrow> no_escalation actor V V'"
  by (induction rule: account_step.induct) (auto simp: no_escalation_def split: option.splits)

datatype user_call =
    CreateUserCall string string UserRole "Permission list"
  | UpdatePasswordCall string string
  | UpdatePermissionsCall string "Permission list"
  | DeleteUserCall string
  | UsersCall

fun exec_call :: "'s UserService \<Rightarrow> User \<Rightarrow> user_call \<Rightarrow> 's \<Rightarrow> 's" where
  "exec_call svc actor (CreateUserCall n p role ps) s = snd (UserService_CreateUser svc actor n p role ps s)"
| "exec_call svc actor (UpdatePasswordCall n p) s = snd (UserService_UpdatePassword svc actor n p s)"
| "exec_call svc actor (UpdatePermissionsCall n ps) s = snd (UserService_UpdatePermissions svc actor n ps s)"
| "exec_call svc actor (DeleteUserCall n) s = snd (UserService_DeleteUser svc actor n s)"
| "exec_call svc actor UsersCall s = snd (UserService_Users svc actor s)"

locale user_store =
  fixes store :: "'s UserStore"
    and view :: "'s \<Rightarrow> string \<rightharpoonup> UserCredential"
    and wf :: "'s \<Rightarrow> bool"
  assumes view_username: "view s n = Some c \<Longrightarrow> user_Username (cred_User c) = n"
    and Users_frame: "us_Users store s = (r, s') \<Longrightarrow> wf s \<Longrightarrow> wf s' \<and> view s' = view s"
    and Users_ok: "us_Users store s = (Inr us, s') \<Longrightarrow> wf s \<Longrightarrow>
      set us = cred_User ` ran (view s) \<and> distinct (map user_Username us)"
    and UserCredential_frame:
      "us_UserCredential store n s = (rc, s') \<Longrightarrow> wf s \<Longrightarrow> wf s' \<and> view s' = view s"
    and UserCredential_ok: "us_UserCredential store n s = (Inr c, s') \<Longrightarrow> wf s \<Longrightarrow> view s n = Some c"
    and CreateUser_err: "us_CreateUser store c s = (Inl e, s') \<Longrightarrow> wf s \<Longrightarrow> wf s' \<and> view s' = view s"
    and CreateUser_ok: "us_CreateUser store c s = (Inr u, s') \<Longrightarrow> wf s \<Longrightarrow>
      sorted (user_Permissions (cred_User c)) \<Longrightarrow>
      wf s' \<and> view s (user_Username (cred_User c)) = None
      \<and> view s' = (view s)(user_Username (cred_User c) \<mapsto> c)"
    and UpdateUserPassword_err:
      "us_UpdateUserPassword store n h t s = (Inl e, s') \<Longrightarrow> wf s \<Longrightarrow> wf s' \<and> view s' = view s"
    and UpdateUserPassword_ok: "us_UpdateUserPassword store n h t s = (Inr u, s') \<Longrightarrow> wf s \<Longrightarrow>
      wf s' \<and> (\<exists>c now. view s n = Some c \<and> view s' = (view s)(n \<mapsto>
        c\<lparr>cred_User := (cred_User c)\<lparr>user_UpdatedAt := now\<rparr>, cred_PasswordHash := h, cred_EncryptedToken := t\<rparr>))"
    and UpdateUserPermissions_err:
      "us_UpdateUserPermissions store n ps s = (Inl e, s') \<Longrightarrow> wf s \<Longrightarrow> wf s' \<and> view s' = view s"
    and UpdateUserPermissions_ok: "us_UpdateUserPermissions store n ps s = (Inr u, s') \<Longrightarrow> wf s \<Longrightarrow>
      sorted ps \<Longrightarrow> wf s' \<and> (\<exists>c now. view s n = Some c \<and> view s' = (view s)(n \<mapsto>
        c\<lparr>cred_User := (cred_User c)\<lparr>user_Permissions := ps, user_UpdatedAt := now\<rparr>\<rparr>))"
    and DeleteUser_err: "us_DeleteUser store n s = (Inl e, s') \<Longrightarrow> wf s \<Longrightarrow> wf s' \<and> view s' = view s"
    and DeleteUser_ok: "us_DeleteUser store n s = (Inr u, s') \<Longrightarrow> wf s \<Longrightarrow>
      wf s' \<and> view s n \<noteq> None \<and> view s' = (view s)(n := None)"

section \<open>normalizePermissions\<close>

lemma normalizePermissions_loop_ok:
  "normalizePermissions_loop acc ps = Inr r \<Longrightarrow> distinct acc \<Longrightarrow>
    distinct r \<and> set r = set acc \<union> set ps \<and> (\<forall>p \<in> set ps. ValidPermission p)"
  by (induction ps arbitrary: acc) (auto split: if_splits)

lemma normalizePermissions_loop_err:
  "normalizePermissions_loop acc ps = Inl e \<Longrightarrow>
    e = Wrap ''unsupported permission'' ErrInvalidUser \<and> (\<exists>p \<in> set ps. \<not> ValidPermission p)"
  by (induction ps arbitrary: acc) (auto split: if_splits)

lemma weak_order_less: "weak_order ((<) :: 'a::linorder \<Rightarrow> 'a \<Rightarrow> bool)"
  by (rule weak_orderI) auto

lemma SliceStable_less_eq_sort: "SliceStable (<) xs = sort (xs :: 'a::linorder list)"
proof (rule properties_for_sort [symmetric])
  show "mset (SliceStable (<) xs) = mset xs" by simp
  have "sorted_wrt (\<lambda>x y. \<not> y < x) (SliceStable (<) xs)"
    by (rule sorted_SliceStable) (rule weak_order_less)
  then show "sorted (SliceStable (<) xs)" by (simp add: not_less)
qed

text \<open>
  Normalizing permissions rejects a list with an unknown permission and otherwise returns the
  requested set, without duplicates and sorted.
\<close>

lemma normalizePermissions_spec:
  "normalizePermissions ps =
    (if \<not> set ps \<subseteq> set availablePermissions
     then Inl (Wrap ''unsupported permission'' ErrInvalidUser)
     else Inr (sorted_list_of_set (set ps)))"
proof (cases "normalizePermissions_loop [] ps")
  case (Inl e)
  then show ?thesis
    using normalizePermissions_loop_err [OF Inl] by (auto simp: normalizePermissions_def ValidPermission_iff)
next
  case (Inr r)
  then have "distinct r \<and> set r = set ps \<and> (\<forall>p \<in> set ps. ValidPermission p)"
    using normalizePermissions_loop_ok [OF Inr] by simp
  moreover from this have "sort r = sorted_list_of_set (set ps)"
    using sorted_list_of_set_sort_remdups [of r] by (simp add: distinct_remdups_id)
  ultimately show ?thesis
    using Inr by (auto simp: normalizePermissions_def ValidPermission_iff SliceStable_less_eq_sort)
qed

lemma normalizePermissions_sorted: "normalizePermissions ps = Inr r \<Longrightarrow> sorted r"
  by (auto simp: normalizePermissions_def SliceStable_less_eq_sort split: sum.splits)


section \<open>What the service guarantees over any store\<close>

locale user_service = user_store "svc_store svc" view wf
  for svc :: "'s UserService" and view :: "'s \<Rightarrow> string \<rightharpoonup> UserCredential" and wf :: "'s \<Rightarrow> bool" +
  assumes Encode_frame: "codec_Encode (svc_codec svc) p s = (re, s') \<Longrightarrow> wf s \<Longrightarrow> wf s' \<and> view s' = view s"
    and now_frame: "svc_now svc s = (t, s') \<Longrightarrow> wf s \<Longrightarrow> wf s' \<and> view s' = view s"
begin


abbreviation accounts :: "(string \<rightharpoonup> UserCredential) \<Rightarrow> 's \<Rightarrow> bool" where
  "accounts V s \<equiv> wf s \<and> view s = V"

lemma store_keeps [preserving]:
  "preserves (accounts V) (us_Users (svc_store svc))"
  "preserves (accounts V) (us_UserCredential (svc_store svc) n)"
  "preserves (accounts V) (codec_Encode (svc_codec svc) p)"
  by (rule preservesI, auto dest: Users_frame UserCredential_frame Encode_frame)+

lemma store_keepsE [preservingE]:
  "preservesE (accounts V) (us_CreateUser (svc_store svc) c)"
  "preservesE (accounts V) (us_UpdateUserPassword (svc_store svc) n h t)"
  "preservesE (accounts V) (us_UpdateUserPermissions (svc_store svc) n ps)"
  "preservesE (accounts V) (us_DeleteUser (svc_store svc) n)"
  by (rule preservesEI, auto dest: CreateUser_err UpdateUserPassword_err UpdateUserPermissions_err DeleteUser_err)+

lemma now_keeps: "accounts V s \<Longrightarrow> accounts V (snd (svc_now svc s))"
  by (cases "svc_now svc s") (auto dest: now_frame)

lemma newCredential_keeps [preserving]: "preserves (accounts V) (newCredential svc n p role ps)"
  unfolding newCredential_def by (intro preserving now_keeps)

text \<open>A failed call leaves every account as it was.\<close>

lemma failed_call_keeps:
  "preservesE (accounts V) (EnsureBootstrapAdmin svc n p)"
  "preservesE (accounts V) (UserService_CreateUser svc actor n p role ps)"
  "preservesE (accounts V) (UserService_UpdatePassword svc actor n p)"
  "preservesE (accounts V) (UserService_UpdatePermissions svc actor n ps)"
  "preservesE (accounts V) (UserService_DeleteUser svc actor n)"
  unfolding EnsureBootstrapAdmin_def UserService_CreateUser_def UserService_UpdatePassword_def
    UserService_UpdatePermissions_def UserService_DeleteUser_def
  by (intro preservesE_last preservingE preserving now_keeps)+


lemma newCredential_ok:
  "newCredential svc n p role ps s = (Inr c, s') \<Longrightarrow>
    user_Username (cred_User c) = n \<and> user_Role (cred_User c) = role \<and> user_Permissions (cred_User c) = ps"
  by (auto simp: newCredential_def)

text \<open>A successful call makes the one change it is for.\<close>

lemma CreateUser_effect:
  assumes "UserService_CreateUser svc actor n p role ps s = (Inr u, s')" "accounts V s"
  obtains c where "u = cred_User c" "HasPermission actor PermissionUsersManage"
    "V (user_Username u) = None" "accounts (V(user_Username u \<mapsto> c)) s'" "user_Role u = role"
    "\<not> IsAdmin actor \<Longrightarrow> role = UserRoleUser \<and> user_Permissions u = []"
proof -
  from assms(1) obtain n' ps' c s1 s2 where
    perm: "HasPermission actor PermissionUsersManage" and ps': "normalizePermissions ps = Inr ps'"
    and esc: "IsAdmin actor \<or> (role = UserRoleUser \<and> ps' = [])"
    and c: "newCredential svc n' p role (if role = UserRoleAdmin then [] else ps') s = (Inr c, s1)"
    and cr: "us_CreateUser (svc_store svc) c s1 = (Inr (), s2)" and u: "u = cred_User c" "s' = s2"
    by (auto simp: UserService_CreateUser_def)
  note f = newCredential_ok [OF c]
  have s1: "accounts V s1"
    using assms(2) c by (rule preservesD [OF newCredential_keeps])
  moreover have "sorted (user_Permissions (cred_User c))"
    using f normalizePermissions_sorted [OF ps'] by simp
  ultimately have "V (user_Username u) = None" "accounts (V(user_Username u \<mapsto> c)) s'"
    using CreateUser_ok [OF cr] u by auto
  then show thesis using that perm esc f u by auto
qed

lemma UpdatePassword_effect:
  assumes "UserService_UpdatePassword svc actor n p s = (Inr u, s')" "accounts V s"
  obtains n' c h t now where "V n' = Some c"
    "accounts (V(n' \<mapsto> c\<lparr>cred_User := (cred_User c)\<lparr>user_UpdatedAt := now\<rparr>,
       cred_PasswordHash := h, cred_EncryptedToken := t\<rparr>)) s'"
    "n' = user_Username actor \<or> HasPermission actor PermissionUsersManage
       \<and> (IsAdmin (cred_User c) \<longrightarrow> IsAdmin actor)"
proof -
  let ?guard = "\<lambda>n'. if user_Username actor \<noteq> n' then
      (if \<not> HasPermission actor PermissionUsersManage then fail ErrForbidden
       else bindE (us_UserCredential (svc_store svc) n') (\<lambda>target.
         if IsAdmin (cred_User target) \<and> \<not> IsAdmin actor then fail ErrForbidden else ret ()))
    else ret ()"
  from assms(1) obtain n' h t s1 s2 where
    g: "?guard n' s = (Inr (), s1)"
    and e: "codec_Encode (svc_codec svc) p s1 = (Inr (h, t), s2)"
    and up: "us_UpdateUserPassword (svc_store svc) n' h t s2 = (Inr u, s')"
    unfolding UserService_UpdatePassword_def by (auto simp only: bindE_Inr_iff wrapE_Inr_iff liftR_iff case_prod_action_iff)
  have "preserves (accounts V) (?guard n')" by (intro preserving)
  with g assms(2) have s1: "accounts V s1" by (blast dest: preservesD)
  then have s2: "accounts V s2" using e by (rule preservesD [OF store_keeps(3)])
  then obtain c now where c: "V n' = Some c"
    and s': "accounts (V(n' \<mapsto> c\<lparr>cred_User := (cred_User c)\<lparr>user_UpdatedAt := now\<rparr>,
       cred_PasswordHash := h, cred_EncryptedToken := t\<rparr>)) s'"
    using UpdateUserPassword_ok [OF up] by auto
  have "n' = user_Username actor \<or> HasPermission actor PermissionUsersManage
       \<and> (IsAdmin (cred_User c) \<longrightarrow> IsAdmin actor)"
    using g c assms(2) by (auto split: if_splits dest!: UserCredential_ok)
  with c s' show thesis by (rule that)
qed

lemma UpdatePermissions_effect:
  assumes "UserService_UpdatePermissions svc actor n ps s = (Inr u, s')" "accounts V s"
  obtains n' c ps' now where "IsAdmin actor" "V n' = Some c" "\<not> IsAdmin (cred_User c)"
    "normalizePermissions ps = Inr ps'" "user_Permissions u = ps'"
    "accounts (V(n' \<mapsto> c\<lparr>cred_User := (cred_User c)\<lparr>user_Permissions := ps', user_UpdatedAt := now\<rparr>\<rparr>)) s'"
proof -
  from assms(1) obtain n' ps' c s1 s2 where
    a: "IsAdmin actor" and ps': "normalizePermissions ps = Inr ps'"
    and c: "us_UserCredential (svc_store svc) n' s = (Inr c, s1)" "\<not> IsAdmin (cred_User c)"
    and up: "us_UpdateUserPermissions (svc_store svc) n' ps' s1 = (Inr (), s2)"
    and s': "s' = snd (svc_now svc s2)" and u: "user_Permissions u = ps'"
    by (auto simp: UserService_UpdatePermissions_def)
  have s1: "accounts V s1" using assms(2) c(1) by (rule preservesD [OF store_keeps(2)])
  from c(1) assms(2) have Vc: "V n' = Some c" by (auto dest: UserCredential_ok)
  from UpdateUserPermissions_ok [OF up _ normalizePermissions_sorted [OF ps']] s1 Vc obtain now where
    "accounts (V(n' \<mapsto> c\<lparr>cred_User := (cred_User c)\<lparr>user_Permissions := ps', user_UpdatedAt := now\<rparr>\<rparr>)) s2"
    by auto
  from now_keeps [OF this] show thesis
    using that a ps' Vc c(2) u s' by blast
qed

lemma last_admin_loop_iff:
  "distinct (map user_Username users) \<Longrightarrow> set rest \<subseteq> set users \<Longrightarrow>
   last_admin_loop n users rest \<longleftrightarrow>
     (\<exists>u \<in> set rest. user_Username u = n \<and> IsAdmin u) \<and> length (filter IsAdmin users) = 1"
  by (induction rest) auto

lemma DeleteUser_effect:
  assumes "UserService_DeleteUser svc actor n s = (Inr u, s')" "accounts V s"
  obtains n' c where "HasPermission actor PermissionUsersManage" "V n' = Some c"
    "accounts (V(n' := None)) s'" "IsAdmin (cred_User c) \<Longrightarrow> IsAdmin actor" "user_Username actor \<noteq> n'"
    "IsAdmin (cred_User c) \<Longrightarrow> has_admin (V(n' := None))"
proof -
  from assms(1) obtain n' c users s1 s2 where
    p: "HasPermission actor PermissionUsersManage" "user_Username actor \<noteq> n'"
    and c: "us_UserCredential (svc_store svc) n' s = (Inr c, s1)" "IsAdmin (cred_User c) \<longrightarrow> IsAdmin actor"
    and us: "us_Users (svc_store svc) s1 = (Inr users, s2)"
    and last: "\<not> last_admin_loop n' users users"
    and del: "us_DeleteUser (svc_store svc) n' s2 = (Inr u, s')"
    by (auto simp: UserService_DeleteUser_def)
  have s1: "accounts V s1" using assms(2) c(1) by (rule preservesD [OF store_keeps(2)])
  then have s2: "accounts V s2" using us by (rule preservesD [OF store_keeps(1)])
  from c(1) assms(2) have Vc: "V n' = Some c" by (auto dest: UserCredential_ok)
  have users: "set users = cred_User ` ran V" "distinct (map user_Username users)"
    using Users_ok [OF us] s1 by auto
  have "has_admin (V(n' := None))" if adm: "IsAdmin (cred_User c)"
  proof -
    have name: "user_Username (cred_User c) = n'"
      using Vc assms(2) view_username by blast
    have in_users: "cred_User c \<in> set users" using Vc users(1) by (auto intro: ranI)
    then have "length (filter IsAdmin users) \<noteq> 1"
      using last adm name last_admin_loop_iff [OF users(2), of users n'] by auto
    moreover have "cred_User c \<in> set (filter IsAdmin users)" using in_users adm by simp
    moreover have "distinct (filter IsAdmin users)" using users(2) by (simp add: distinct_map)
    ultimately obtain v where v: "v \<in> set (filter IsAdmin users)" "v \<noteq> cred_User c"
      using distinct_second_element by metis
    then obtain m d where d: "V m = Some d" "v = cred_User d" using users(1) by (auto simp: ran_def)
    moreover have "m \<noteq> n'" using d Vc v by auto
    ultimately show ?thesis using v by (auto simp: has_admin_def)
  qed
  with that p c(2) Vc del s2 show thesis using DeleteUser_ok [OF del] by auto
qed


lemma exec_call_refines:
  assumes "accounts V s"
  shows "\<exists>V'. accounts V' (exec_call svc actor call s) \<and> account_step actor V V'"
proof (cases call)
  case (CreateUserCall n p role ps)
  show ?thesis
  proof (cases "UserService_CreateUser svc actor n p role ps s" rule: run_cases)
    case (failed e s')
    then have "accounts V s'" by (rule preservesED [OF failed_call_keeps(2) assms])
    with failed CreateUserCall show ?thesis by (auto intro: account_step.unchanged)
  next
    case (ok u s')
    show ?thesis
      by (rule CreateUser_effect [OF ok assms])
        (use ok CreateUserCall in \<open>auto intro!: exI account_step.created\<close>)
  qed
next
  case (UpdatePasswordCall n p)
  show ?thesis
  proof (cases "UserService_UpdatePassword svc actor n p s" rule: run_cases)
    case (failed e s')
    then have "accounts V s'" by (rule preservesED [OF failed_call_keeps(3) assms])
    with failed UpdatePasswordCall show ?thesis by (auto intro: account_step.unchanged)
  next
    case (ok u s')
    show ?thesis
      by (rule UpdatePassword_effect [OF ok assms])
        (use ok UpdatePasswordCall in \<open>auto intro!: exI account_step.password\<close>)
  qed
next
  case (UpdatePermissionsCall n ps)
  show ?thesis
  proof (cases "UserService_UpdatePermissions svc actor n ps s" rule: run_cases)
    case (failed e s')
    then have "accounts V s'" by (rule preservesED [OF failed_call_keeps(4) assms])
    with failed UpdatePermissionsCall show ?thesis by (auto intro: account_step.unchanged)
  next
    case (ok u s')
    show ?thesis
      by (rule UpdatePermissions_effect [OF ok assms])
        (use ok UpdatePermissionsCall in \<open>auto intro!: exI account_step.permissions\<close>)
  qed
next
  case (DeleteUserCall n)
  show ?thesis
  proof (cases "UserService_DeleteUser svc actor n s" rule: run_cases)
    case (failed e s')
    then have "accounts V s'" by (rule preservesED [OF failed_call_keeps(5) assms])
    with failed DeleteUserCall show ?thesis by (auto intro: account_step.unchanged)
  next
    case (ok u s')
    show ?thesis
      by (rule DeleteUser_effect [OF ok assms])
        (use ok DeleteUserCall in \<open>auto intro!: exI account_step.deleted\<close>)
  qed
next
  case UsersCall
  have "preserves (accounts V) (UserService_Users svc actor)"
    unfolding UserService_Users_def by (intro preserving)
  with assms UsersCall show ?thesis by (auto simp: preserves_def intro: account_step.unchanged)
qed

end

section \<open>The SQL store implements the contract\<close>

definition user_perms :: "world \<Rightarrow> string \<Rightarrow> Permission list" where
  "user_perms w n = sort (map snd (filter (\<lambda>p. fst p = n) (w_user_permissions w)))"

definition row_credential :: "world \<Rightarrow> user_row \<Rightarrow> UserCredential" where
  "row_credential w r = \<lparr>cred_User = (scanUser r)\<lparr>user_Permissions := user_perms w (ur_username r)\<rparr>,
     cred_PasswordHash = ur_password_hash r, cred_EncryptedToken = ur_encrypted_token r\<rparr>"

definition user_view :: "world \<Rightarrow> string \<rightharpoonup> UserCredential" where
  "user_view w n = map_option (row_credential w) (find_key ur_username n (w_users w))"

definition wf_users :: "world \<Rightarrow> bool" where
  "wf_users w = (distinct (map ur_username (w_users w))
     \<and> fst ` set (w_user_permissions w) \<subseteq> ur_username ` set (w_users w))"

lemma append_permissions_eq:
  "append_permissions rows users =
    map (\<lambda>u. u\<lparr>user_Permissions := user_Permissions u @ map snd (filter (\<lambda>p. fst p = user_Username u) rows)\<rparr>) users"
  by (induction rows users rule: append_permissions.induct) (auto simp: comp_def intro!: map_cong)

lemma perm_row_lt_weak: "weak_order perm_row_lt"
  by (rule weak_orderI) (auto simp: perm_row_lt_def)

lemma sorted_perm_rows:
  "map snd (filter (\<lambda>p. fst p = n) (SliceStable perm_row_lt rows)) = sort (map snd (filter (\<lambda>p. fst p = n) rows))"
proof (rule properties_for_sort [symmetric])
  show "mset (map snd (filter (\<lambda>p. fst p = n) (SliceStable perm_row_lt rows)))
    = mset (map snd (filter (\<lambda>p. fst p = n) rows))"
    by (simp add: mset_filter [symmetric] del: mset_filter) (simp add: mset_filter)
  have "sorted_wrt (\<lambda>x y. \<not> perm_row_lt y x) (filter (\<lambda>p. fst p = n) (SliceStable perm_row_lt rows))"
    by (intro sorted_wrt_filter sorted_SliceStable perm_row_lt_weak)
  then show "sorted (map snd (filter (\<lambda>p. fst p = n) (SliceStable perm_row_lt rows)))"
    unfolding sorted_map by (rule sorted_wrt_mono_rel [rotated]) (auto simp: perm_row_lt_def)
qed

lemma loadUserPermissions_ok:
  assumes "loadUserPermissions us w = (Inr us', w')" "\<forall>u \<in> set us. user_Permissions u = []"
  shows "us' = map (\<lambda>u. u\<lparr>user_Permissions := user_perms w (user_Username u)\<rparr>) us"
  using assms
  by (auto simp: loadUserPermissions_def user_perms_def append_permissions_eq sorted_perm_rows
      elim!: db_query_cases)

lemma loadUserPermissions_store: "loadUserPermissions us w = (r, w') \<Longrightarrow> store_of w' = store_of w"
  by (auto simp: loadUserPermissions_def bindE_def wrapE_def ret_def split: if_splits prod.splits sum.splits
      elim!: db_query_cases)

lemma sqlite_Users_store: "sqlite_Users w = (r, w') \<Longrightarrow> store_of w' = store_of w"
  by (auto simp: sqlite_Users_def bindE_def wrapE_def split: prod.splits sum.splits
      elim!: db_query_cases dest!: loadUserPermissions_store)

lemma sqlite_UserCredential_store: "sqlite_UserCredential n w = (r, w') \<Longrightarrow> store_of w' = store_of w"
  by (auto simp: sqlite_UserCredential_def bindE_def wrapE_def fail_def ret_def
      split: prod.splits sum.splits option.splits elim!: db_query_cases dest!: loadUserPermissions_store)

lemma user_view_store:
  assumes "store_of w' = store_of w"
  shows "wf_users w' = wf_users w" "user_view w' = user_view w"
  using store_of_eq_tables(12,13) [OF assms]
  by (simp_all add: wf_users_def user_view_def row_credential_def [abs_def] user_perms_def fun_eq_iff)

lemma insertUserPermissions_ok:
  "insertUserPermissions n ps w = (Inr u, w') \<Longrightarrow>
    w_users w' = w_users w \<and> w_user_permissions w' = w_user_permissions w @ map (Pair n) ps"
  by (induction n ps arbitrary: w rule: insertUserPermissions.induct)
    (fastforce simp: db_stmt_def split: if_splits)+

lemma update_user_row_ok:
  "update_user_row n f w = (Inr k, w') \<Longrightarrow>
    w_users w' = map (\<lambda>r. if ur_username r = n then f r else r) (w_users w)
    \<and> w_user_permissions w' = w_user_permissions w
    \<and> k = length (filter (\<lambda>r. ur_username r = n) (w_users w))"
  by (auto simp: update_user_row_def db_stmt_def split: if_splits)

lemma update_user_row_err: "update_user_row n f w = (Inl e, w') \<Longrightarrow> store_of w' = store_of w"
  by (auto simp: update_user_row_def db_stmt_def split: if_splits)

lemma find_key_map_upd:
  "(\<And>r. key (f r) = key r) \<Longrightarrow>
   find_key key k (map (\<lambda>r. if key r = n then f r else r) rows) =
     (if k = n then map_option f (find_key key n rows) else find_key key k rows)"
  by (induction rows) auto

lemma user_perms_other:
  "n \<noteq> m \<Longrightarrow> sort (map snd (filter (\<lambda>p. fst p = m) (ps @ map (Pair n) qs))) = sort (map snd (filter (\<lambda>p. fst p = m) ps))"
  by (induction qs) auto

lemma filter_Pair [simp]: "filter (\<lambda>p. fst p = n) (map (Pair n) qs) = map (Pair n) qs"
  "n \<noteq> m \<Longrightarrow> filter (\<lambda>p. fst p = m) (map (Pair n) qs) = []"
  by (induction qs) auto

lemma filter_none: "(\<And>x. x \<in> set xs \<Longrightarrow> \<not> P x) \<Longrightarrow> filter P xs = []"
  by (induction xs) auto

lemma find_key_append:
  "find_key key k (xs @ ys) = (case find_key key k xs of None \<Rightarrow> find_key key k ys | Some r \<Rightarrow> Some r)"
  by (induction xs) auto

lemma filter_neq_eq:
  "k \<noteq> n \<Longrightarrow> filter (\<lambda>p. key p \<noteq> n \<and> key p = k) rows = filter (\<lambda>p. key p = k) rows"
  by (rule filter_cong) auto

lemma insert_user_row_ok:
  "insert_user_row c w = (Inr k, w') \<Longrightarrow> k \<noteq> 0 \<Longrightarrow>
    user_Username (cred_User c) \<notin> ur_username ` set (w_users w)
    \<and> w_users w' = w_users w @ [credential_row c] \<and> w_user_permissions w' = w_user_permissions w"
  by (auto simp: insert_user_row_def db_stmt_def split: if_splits)

lemma sqlite_CreateUser_ok:
  assumes "sqlite_CreateUser c w = (Inr u, w')" "wf_users w" "sorted (user_Permissions (cred_User c))"
  shows "wf_users w' \<and> user_view w (user_Username (cred_User c)) = None
    \<and> user_view w' = (user_view w)(user_Username (cred_User c) \<mapsto> c)"
proof -
  let ?n = "user_Username (cred_User c)"
  from assms(1) obtain w2 where
    body: "bindE (wrapE ''create user'' (insert_user_row c)) (\<lambda>changed.
         if changed = 0 then fail ErrAlreadyExists
         else insertUserPermissions ?n (user_Permissions (cred_User c))) (spend_fault w) = (Inr u, w2)"
    and w': "w' = spend_fault w2"
    unfolding sqlite_CreateUser_def by (rule db_tx_committed)
  then obtain w1 where new: "?n \<notin> ur_username ` set (w_users w)"
    and w1: "w_users w1 = w_users w @ [credential_row c]" "w_user_permissions w1 = w_user_permissions w"
    and ins: "insertUserPermissions ?n (user_Permissions (cred_User c)) w1 = (Inr u, w2)"
    by (auto dest: insert_user_row_ok)
  from insertUserPermissions_ok [OF ins] w1 w' have
    tabs: "w_users w' = w_users w @ [credential_row c]"
      "w_user_permissions w' = w_user_permissions w @ map (Pair ?n) (user_Permissions (cred_User c))"
    by simp_all
  have none: "filter (\<lambda>p. fst p = ?n) (w_user_permissions w) = []"
    using new assms(2) by (intro filter_none) (auto simp: wf_users_def)
  have absent: "find_key ur_username ?n (w_users w) = None"
    using new by (force simp: find_key_None_iff)
  moreover have "find_key ur_username k (w_users w @ [credential_row c]) =
      (if k = ?n then Some (credential_row c) else find_key ur_username k (w_users w))" for k
    using absent by (auto simp: find_key_append credential_row_def split: option.splits)
  moreover have "row_credential w' (credential_row c) = c"
    using none assms(3) by (simp add: row_credential_def credential_row_def scanUser_def user_perms_def
        tabs sorted_sort_id comp_def)
  moreover have "row_credential w' r = row_credential w r" if "ur_username r \<noteq> ?n" for r
    using that by (simp add: row_credential_def user_perms_def tabs)
  ultimately show ?thesis
    using assms(2) new
    by (auto simp: wf_users_def user_view_def tabs fun_eq_iff credential_row_def
        intro!: map_option_cong dest: find_key_SomeD)
qed


lemma sqlite_DeleteUser_ok:
  assumes "sqlite_DeleteUser n w = (Inr u, w')" "wf_users w"
  shows "wf_users w' \<and> user_view w n \<noteq> None \<and> user_view w' = (user_view w)(n := None)"
proof -
  from assms(1) have
    tabs: "w_users w' = filter (\<lambda>r. ur_username r \<noteq> n) (w_users w)"
      "w_user_permissions w' = filter (\<lambda>p. fst p \<noteq> n) (w_user_permissions w)"
    and ex: "filter (\<lambda>r. ur_username r = n) (w_users w) \<noteq> []"
    by (auto simp: sqlite_DeleteUser_def db_stmt_def split: if_splits)
  from ex have "find_key ur_username n (w_users w) \<noteq> None"
    by (auto simp: find_key_None_iff filter_empty_conv)
  moreover have "row_credential w' r = row_credential w r" if "ur_username r \<noteq> n" for r
    using that by (simp add: row_credential_def user_perms_def tabs filter_neq_eq)
  ultimately show ?thesis
    using assms(2)
    by (auto simp: wf_users_def user_view_def tabs fun_eq_iff
        intro!: map_option_cong dest: find_key_SomeD)
qed

lemma sqlite_UpdateUserPassword_ok:
  assumes "sqlite_UpdateUserPassword n h t w = (Inr u, w')" "wf_users w"
  shows "wf_users w' \<and> (\<exists>c now. user_view w n = Some c \<and> user_view w' = (user_view w)(n \<mapsto>
    c\<lparr>cred_User := (cred_User c)\<lparr>user_UpdatedAt := now\<rparr>, cred_PasswordHash := h, cred_EncryptedToken := t\<rparr>))"
proof -
  define now where "now = fst (time_Now w)"
  define f where "f = (\<lambda>r :: user_row. r\<lparr>ur_password_hash := h, ur_encrypted_token := t, ur_updated_at := now\<rparr>)"
  have f: "ur_username (f r) = ur_username r" for r by (simp add: f_def)
  from assms(1) have
    tabs: "w_users w' = map (\<lambda>r. if ur_username r = n then f r else r) (w_users w)"
      "w_user_permissions w' = w_user_permissions w"
    and ex: "filter (\<lambda>r. ur_username r = n) (w_users w) \<noteq> []"
    by (auto simp: sqlite_UpdateUserPassword_def time_Now_def f_def now_def dest!: update_user_row_ok)
  from ex obtain r where r: "find_key ur_username n (w_users w) = Some r"
    by (cases "find_key ur_username n (w_users w)") (auto simp: find_key_None_iff filter_empty_conv)
  have "map ur_username (w_users w') = map ur_username (w_users w)"
    by (auto simp: tabs f)
  then have wf: "wf_users w'"
    using assms(2) tabs(2) unfolding wf_users_def by (metis set_map)
  have "row_credential w' = row_credential w"
    by (rule ext) (simp add: row_credential_def user_perms_def tabs)
  note same = this
  have "user_view w' = (user_view w)(n \<mapsto> row_credential w (f r))"
    using r by (simp add: same user_view_def fun_eq_iff tabs find_key_map_upd [of ur_username f, OF f])
  moreover have "row_credential w (f r) = (row_credential w r)\<lparr>cred_User :=
      (cred_User (row_credential w r))\<lparr>user_UpdatedAt := now\<rparr>, cred_PasswordHash := h, cred_EncryptedToken := t\<rparr>"
    by (simp add: row_credential_def f_def scanUser_def)
  ultimately show ?thesis
    using wf r by (auto simp: user_view_def)
qed

lemma sqlite_UpdateUserPermissions_ok:
  assumes "sqlite_UpdateUserPermissions n ps w = (Inr u, w')" "wf_users w" "sorted ps"
  shows "wf_users w' \<and> (\<exists>c now. user_view w n = Some c \<and> user_view w' = (user_view w)(n \<mapsto>
    c\<lparr>cred_User := (cred_User c)\<lparr>user_Permissions := ps, user_UpdatedAt := now\<rparr>\<rparr>))"
proof -
  define now where "now = fst (time_Now (spend_fault w))"
  define f where "f = (\<lambda>r :: user_row. r\<lparr>ur_updated_at := now\<rparr>)"
  have f: "ur_username (f r) = ur_username r" for r by (simp add: f_def)
  from assms(1) obtain w2 where w': "w' = spend_fault w2"
    and body: "(readE time_Now (\<lambda>now.
        bindE (wrapE ''touch updated user permissions''
                (update_user_row n (\<lambda>r. r\<lparr>ur_updated_at := now\<rparr>)))
          (\<lambda>changed.
            if changed = 0 then fail ErrNotFound
            else bindE (wrapE ''clear user permissions'' (db_exec (\<lambda>w.
                   w\<lparr>w_user_permissions := filter (\<lambda>p. fst p \<noteq> n) (w_user_permissions w)\<rparr>)))
              (\<lambda>_. insertUserPermissions n ps)))) (spend_fault w) = (Inr u, w2)"
    unfolding sqlite_UpdateUserPermissions_def by (rule db_tx_committed)
  then obtain w0 k w1 where
    up: "update_user_row n f (snd (time_Now (spend_fault w))) = (Inr k, w0)" "k \<noteq> 0"
    and clear: "db_exec (\<lambda>w. w\<lparr>w_user_permissions := filter (\<lambda>p. fst p \<noteq> n) (w_user_permissions w)\<rparr>) w0
        = (Inr (), w1)"
    and ins: "insertUserPermissions n ps w1 = (Inr u, w2)"
    by (auto simp: f_def now_def)
  from update_user_row_ok [OF up(1)] up(2) have
    w0: "w_users w0 = map (\<lambda>r. if ur_username r = n then f r else r) (w_users w)"
      "w_user_permissions w0 = w_user_permissions w"
    and ex: "filter (\<lambda>r. ur_username r = n) (w_users w) \<noteq> []"
    by (auto simp: time_Now_def)
  from clear have
    w1: "w_users w1 = w_users w0" "w_user_permissions w1 = filter (\<lambda>p. fst p \<noteq> n) (w_user_permissions w0)"
    by (auto elim: db_exec_cases)
  from insertUserPermissions_ok [OF ins] w' w0 w1 have
    tabs: "w_users w' = map (\<lambda>r. if ur_username r = n then f r else r) (w_users w)"
      "w_user_permissions w' = filter (\<lambda>p. fst p \<noteq> n) (w_user_permissions w) @ map (Pair n) ps"
    by simp_all
  from ex obtain r where r: "find_key ur_username n (w_users w) = Some r"
    by (cases "find_key ur_username n (w_users w)") (auto simp: find_key_None_iff filter_empty_conv)
  then have rn: "ur_username r = n" "r \<in> set (w_users w)" by (auto dest: find_key_SomeD)
  have "map ur_username (w_users w') = map ur_username (w_users w)"
    by (auto simp: tabs f)
  then have "distinct (map ur_username (w_users w'))" "ur_username ` set (w_users w') = ur_username ` set (w_users w)"
    using assms(2) by (simp_all add: wf_users_def flip: set_map)
  then have wf: "wf_users w'"
    using assms(2) tabs(2) rn unfolding wf_users_def by auto
  have other: "row_credential w' x = row_credential w x" if "ur_username x \<noteq> n" for x
    using that by (simp add: row_credential_def user_perms_def tabs filter_neq_eq)
  have "row_credential w' (f r) = (row_credential w r)\<lparr>cred_User :=
      (cred_User (row_credential w r))\<lparr>user_Permissions := ps, user_UpdatedAt := now\<rparr>\<rparr>"
    using rn assms(3) by (simp add: row_credential_def f_def scanUser_def user_perms_def tabs
        sorted_sort_id comp_def)
  moreover have "user_view w' = (user_view w)(n \<mapsto> row_credential w' (f r))"
    using r by (auto simp: user_view_def fun_eq_iff tabs find_key_map_upd [of ur_username f, OF f]
        intro!: map_option_cong other dest: find_key_SomeD)
  ultimately show ?thesis
    using wf r by (auto simp: user_view_def)
qed

lemma sqlite_Users_ok:
  assumes "sqlite_Users w = (Inr us, w')" "wf_users w"
  shows "set us = cred_User ` ran (user_view w) \<and> distinct (map user_Username us)"
proof -
  let ?rows = "SliceStable (\<lambda>a b. sql_LOWER (ur_username a) < sql_LOWER (ur_username b)) (w_users w)"
  from assms(1) obtain w1 where "loadUserPermissions (map scanUser ?rows) w1 = (Inr us, w')"
    and w1: "w1 = spend_fault w"
    by (auto simp: sqlite_Users_def elim!: db_query_cases)
  then have us: "us = map (\<lambda>r. cred_User (row_credential w r)) ?rows"
    by (auto dest!: loadUserPermissions_ok simp: scanUser_def row_credential_def user_perms_def)
  have "distinct (map ur_username ?rows)"
    using assms(2) unfolding wf_users_def by (metis mset_SliceStable mset_map mset_eq_imp_distinct_iff)
  moreover have "map user_Username us = map ur_username ?rows"
    by (simp add: us row_credential_def scanUser_def)
  moreover have "ran (user_view w) = row_credential w ` set (w_users w)"
    using assms(2) unfolding ran_def user_view_def wf_users_def
    by (auto dest: find_key_SomeD intro: find_key_member)
  moreover have "set us = (\<lambda>r. cred_User (row_credential w r)) ` set (w_users w)"
    by (simp add: us)
  ultimately show ?thesis by (simp only: image_image simp_thms)
qed

lemma sqlite_UserCredential_ok:
  assumes "sqlite_UserCredential n w = (Inr c, w')"
  shows "user_view w n = Some c"
proof -
  from assms obtain r us w1 where r: "find_key ur_username n (w_users w) = Some r"
    and us: "loadUserPermissions [scanUser r] w1 = (Inr us, w')" and w1: "w1 = spend_fault w"
    and c: "c = \<lparr>cred_User = hd us, cred_PasswordHash = ur_password_hash r,
                  cred_EncryptedToken = ur_encrypted_token r\<rparr>"
    by (force simp: sqlite_UserCredential_def case_option_action_iff elim!: db_query_cases)
  from loadUserPermissions_ok [OF us] have "hd us = cred_User (row_credential w r)"
    by (simp add: w1 row_credential_def user_perms_def scanUser_def)
  with r c show ?thesis by (simp add: user_view_def row_credential_def)
qed

lemma user_view_username: "user_view w n = Some c \<Longrightarrow> user_Username (cred_User c) = n"
  by (auto simp: user_view_def row_credential_def scanUser_def dest: find_key_SomeD)

lemma sqlite_UpdateUserPassword_err:
  assumes "sqlite_UpdateUserPassword n h t w = (Inl e, w')" "wf_users w"
  shows "wf_users w' \<and> user_view w' = user_view w"
proof -
  define f where "f = (\<lambda>r :: user_row. r\<lparr>ur_password_hash := h, ur_encrypted_token := t,
    ur_updated_at := fst (time_Now w)\<rparr>)"
  let ?w1 = "snd (time_Now w)"
  from assms(1) consider e' where "update_user_row n f ?w1 = (Inl e', w')"
    | "update_user_row n f ?w1 = (Inr 0, w')"
    by (auto simp: sqlite_UpdateUserPassword_def f_def bindE_Inl_iff wrapE_Inl_iff)
  then show ?thesis
  proof cases
    case 1
    then have "store_of w' = store_of w" by (auto dest: update_user_row_err)
    from user_view_store [OF this] assms(2) show ?thesis by simp
  next
    case 2
    then have "w_users w' = w_users w" "w_user_permissions w' = w_user_permissions w"
      using update_user_row_ok [OF 2] by (auto simp: time_Now_def filter_empty_conv intro!: map_idI)
    with assms(2) show ?thesis
      by (simp add: wf_users_def user_view_def row_credential_def [abs_def] user_perms_def fun_eq_iff)
  qed
qed

lemma sqlite_DeleteUser_err:
  assumes "sqlite_DeleteUser n w = (Inl e, w')" "wf_users w"
  shows "wf_users w' \<and> user_view w' = user_view w"
proof (cases "next_fault w")
  case True
  with assms(1) have "store_of w' = store_of w"
    by (auto simp: sqlite_DeleteUser_def db_stmt_def bindE_def wrapE_def)
  from user_view_store [OF this] assms(2) show ?thesis by simp
next
  case False
  with assms(1) have none: "filter (\<lambda>r. ur_username r = n) (w_users w) = []"
    and w': "w_users w' = filter (\<lambda>r. ur_username r \<noteq> n) (w_users w)"
      "w_user_permissions w' = filter (\<lambda>p. fst p \<noteq> n) (w_user_permissions w)"
    by (auto simp: sqlite_DeleteUser_def db_stmt_def bindE_def wrapE_def fail_def ret_def split: if_splits)
  from none have "w_users w' = w_users w"
    unfolding w' by (auto simp: filter_empty_conv intro!: filter_True)
  moreover have "w_user_permissions w' = w_user_permissions w"
    unfolding w' using none assms(2) by (intro filter_True) (force simp: wf_users_def filter_empty_conv)
  ultimately show ?thesis
    using assms(2) by (simp add: wf_users_def user_view_def row_credential_def [abs_def] user_perms_def fun_eq_iff)
qed

lemma tx_store:
  "sqlite_CreateUser c w = (Inl e, w') \<Longrightarrow> store_of w' = store_of w"
  "sqlite_UpdateUserPermissions n ps w = (Inl e, w') \<Longrightarrow> store_of w' = store_of w"
  unfolding sqlite_CreateUser_def sqlite_UpdateUserPermissions_def by (rule db_tx_failed, assumption)+

interpretation sqlite_users: user_store sqlite_UserStore user_view wf_users
proof unfold_locales
  note st = user_view_store
  fix w w' :: world and n h t c ps
  show "user_view w n = Some c \<Longrightarrow> user_Username (cred_User c) = n" by (rule user_view_username)
  show "wf_users w' \<and> user_view w' = user_view w" if "us_Users sqlite_UserStore w = (r, w')" "wf_users w" for r
    using st [OF sqlite_Users_store] that by (simp add: sqlite_UserStore_def)
  show "set us = cred_User ` ran (user_view w) \<and> distinct (map user_Username us)"
    if "us_Users sqlite_UserStore w = (Inr us, w')" "wf_users w" for us
    using that sqlite_Users_ok by (simp add: sqlite_UserStore_def)
  show "wf_users w' \<and> user_view w' = user_view w"
    if "us_UserCredential sqlite_UserStore n w = (r, w')" "wf_users w" for r
    using st [OF sqlite_UserCredential_store] that by (simp add: sqlite_UserStore_def)
  show "user_view w n = Some c" if "us_UserCredential sqlite_UserStore n w = (Inr c, w')" "wf_users w"
    using that sqlite_UserCredential_ok by (simp add: sqlite_UserStore_def)
  show "wf_users w' \<and> user_view w' = user_view w"
    if "us_CreateUser sqlite_UserStore c w = (Inl e, w')" "wf_users w" for e
    using that st [OF tx_store(1)] by (simp add: sqlite_UserStore_def)
  show "wf_users w' \<and> user_view w' = user_view w"
    if "us_UpdateUserPermissions sqlite_UserStore n ps w = (Inl e, w')" "wf_users w" for e
    using that st [OF tx_store(2)] by (simp add: sqlite_UserStore_def)
qed (unfold sqlite_UserStore_def UserStore.select_convs,
    (erule (2) sqlite_CreateUser_ok sqlite_UpdateUserPermissions_ok
     | erule (1) sqlite_UpdateUserPassword_err sqlite_UpdateUserPassword_ok
         sqlite_DeleteUser_err sqlite_DeleteUser_ok)+)

text \<open>The service as \<open>main\<close> builds it.\<close>

definition NewUserService :: "crypto \<Rightarrow> unicode_tables \<Rightarrow> (string \<Rightarrow> string) \<Rightarrow> world UserService" where
  "NewUserService cr uc md5 = \<lparr>svc_store = sqlite_UserStore, svc_codec = auth_CredentialCodec cr,
     svc_uc = uc, svc_md5 = md5, svc_now = time_Now\<rparr>"

lemma Encode_store:
  "CredentialCodec_Encode cr p w = (r, w') \<Longrightarrow> store_of w' = store_of w"
  by (auto simp: CredentialCodec_Encode_def bindE_def wrapE_def ret_def Let_def
      split: prod.splits sum.splits dest!: env_read_store)

interpretation accounts: user_service "NewUserService cr uc md5" user_view wf_users for cr uc md5
proof -
  have "user_store (svc_store (NewUserService cr uc md5)) user_view wf_users"
    by (simp add: NewUserService_def sqlite_users.user_store_axioms)
  then show "user_service (NewUserService cr uc md5) user_view wf_users"
    unfolding user_service_def user_service_axioms_def
    by (auto simp: NewUserService_def auth_CredentialCodec_def user_view_store [OF Encode_store]
        user_view_store(1) [OF store_of_time_Now] user_view_store(2) [OF store_of_time_Now]
        prod_eq_iff)
qed

definition run_calls :: "'s UserService \<Rightarrow> (User \<times> user_call) list \<Rightarrow> 's \<Rightarrow> 's" where
  "run_calls svc calls s = foldl (\<lambda>s (actor, call). exec_call svc actor call s) s calls"

lemma exec_call_step:
  assumes "wf_users w"
  shows "wf_users (exec_call (NewUserService cr uc md5) actor call w)"
    "account_step actor (user_view w) (user_view (exec_call (NewUserService cr uc md5) actor call w))"
proof -
  let ?w' = "exec_call (NewUserService cr uc md5) actor call w"
  have "\<exists>V'. (wf_users ?w' \<and> user_view ?w' = V') \<and> account_step actor (user_view w) V'"
    using assms by (intro accounts.exec_call_refines) simp
  then show "wf_users ?w'" "account_step actor (user_view w) (user_view ?w')" by auto
qed

lemma run_calls_keeps:
  assumes "wf_users w" "has_admin (user_view w)"
  shows "wf_users (run_calls (NewUserService cr uc md5) calls w)
    \<and> has_admin (user_view (run_calls (NewUserService cr uc md5) calls w))"
  using assms unfolding run_calls_def
proof (induction calls arbitrary: w)
  case Nil
  then show ?case by simp
next
  case (Cons c calls)
  obtain actor call where c: "c = (actor, call)" by (cases c)
  note step = exec_call_step [OF Cons.prems(1), where cr = cr and uc = uc and ?md5.0 = md5 and actor = actor and call = call]
  show ?case
    using Cons.IH [OF step(1) account_step_has_admin [OF step(2) Cons.prems(2)]] c by simp
qed

definition crypto_ok :: "crypto \<Rightarrow> bool" where
  "crypto_ok cr = ((\<forall>i p h. bcrypt_Generate cr i p = Inr h \<longrightarrow> bcrypt_Compare cr h p)
     \<and> (\<forall>i k b. rand_Read cr i k = Inr b \<longrightarrow> length b = k)
     \<and> (\<forall>nonce p. aead_Open cr nonce (aead_Seal cr nonce p) = Some p)
     \<and> (\<forall>nonce p. length (aead_Seal cr nonce p) = length p + aead_Overhead cr))"

lemma Encode_ok:
  assumes "CredentialCodec_Encode cr p w = (Inr (h, t), w')" "crypto_ok cr"
  shows "CredentialCodec_Verify cr h p = Inr ()" "CredentialCodec_DecryptToken cr t = Inr p"
proof -
  from assms(1) obtain i k nonce where
    h: "bcrypt_Generate cr i p = Inr h" and n: "rand_Read cr k (aead_NonceSize cr) = Inr nonce"
    and t: "t = credentialVersion # nonce @ aead_Seal cr nonce p"
    by (auto simp: CredentialCodec_Encode_def env_read_def)
  with assms(2) show "CredentialCodec_Verify cr h p = Inr ()"
    by (auto simp: CredentialCodec_Verify_def crypto_ok_def)
  from assms(2) n have "length nonce = aead_NonceSize cr" "aead_Open cr nonce (aead_Seal cr nonce p) = Some p"
    "length (aead_Seal cr nonce p) = length p + aead_Overhead cr"
    by (auto simp: crypto_ok_def)
  then show "CredentialCodec_DecryptToken cr t = Inr p"
    by (simp add: CredentialCodec_DecryptToken_def t Let_def)
qed

lemma sqlite_UserCredential_run:
  assumes "w_faults w = []"
  shows "sqlite_UserCredential n w = (case user_view w n of None \<Rightarrow> Inl ErrNotFound | Some c \<Rightarrow> Inr c, w)"
proof -
  have sf: "spend_fault w = w" "next_fault w = False"
    using assms by (simp_all add: spend_fault_def next_fault_def)
  have q: "db_query f w = (Inr (f w), w)" for f :: "world \<Rightarrow> 'a"
    using sf by (simp add: db_query_def db_stmt_def)
  have "loadUserPermissions [scanUser r] w = (Inr [cred_User (row_credential w r)], w)" for r
    by (simp add: loadUserPermissions_def bindE_def wrapE_def ret_def q append_permissions_eq sorted_perm_rows
        row_credential_def user_perms_def scanUser_def)
  then show ?thesis
    by (auto simp: sqlite_UserCredential_def bindE_def wrapE_def ret_def fail_def q user_view_def
        row_credential_def split: option.splits)
qed

text \<open>
  C5: without database faults, a password authenticates exactly the account whose normalized name
  was given and whose stored hash it matches; every other outcome is \<open>ErrAuthenticationFailed\<close>,
  so a caller cannot tell an unknown user from a wrong password.
\<close>

theorem AuthenticatePassword_spec:
  assumes "w_faults w = []"
  shows "fst (AuthenticatePassword (NewUserService cr uc md5) username password w) =
    (case normalizeUsername uc username of
       Inl _ \<Rightarrow> Inl ErrAuthenticationFailed
     | Inr n \<Rightarrow>
         (case user_view w n of
            None \<Rightarrow> Inl ErrAuthenticationFailed
          | Some c \<Rightarrow> if bcrypt_Compare cr (cred_PasswordHash c) password
              then Inr (cred_User c) else Inl ErrAuthenticationFailed))"
  by (simp add: AuthenticatePassword_def authFail_def tryE_def liftR_def fail_def ret_def NewUserService_def
      auth_CredentialCodec_def sqlite_UserStore_def CredentialCodec_Verify_def sqlite_UserCredential_run [OF assms]
      split: sum.split option.split)

lemma UserService_CreateUser_credential:
  assumes "UserService_CreateUser (NewUserService cr uc md5) actor username password role ps w = (Inr u, w')"
    "wf_users w"
  obtains n c v v' where "normalizeUsername uc username = Inr n" "u = cred_User c"
    "CredentialCodec_Encode cr password v = (Inr (cred_PasswordHash c, cred_EncryptedToken c), v')"
    "user_view w' n = Some c"
proof -
  let ?svc = "NewUserService cr uc md5"
  from assms(1) obtain n ps' c s1 where n: "normalizeUsername uc username = Inr n" and ps': "normalizePermissions ps = Inr ps'"
    and c: "newCredential ?svc n password role (if role = UserRoleAdmin then [] else ps') w = (Inr c, s1)"
    and cr: "sqlite_CreateUser c s1 = (Inr (), w')" and u: "u = cred_User c"
    by (auto simp: UserService_CreateUser_def NewUserService_def sqlite_UserStore_def)
  have wf: "wf_users s1" using preservesD [OF accounts.newCredential_keeps _ c] assms(2) by blast
  have "user_Username (cred_User c) = n" "sorted (user_Permissions (cred_User c))"
    using accounts.newCredential_ok [OF c] normalizePermissions_sorted [OF ps'] by auto
  then have view: "user_view w' n = Some c"
    using sqlite_CreateUser_ok [OF cr wf] by auto
  from c obtain v' where
    "CredentialCodec_Encode cr password w = (Inr (cred_PasswordHash c, cred_EncryptedToken c), v')"
    by (auto simp: newCredential_def NewUserService_def auth_CredentialCodec_def case_prod_action_iff)
  with n u view that show thesis by blast
qed

definition ascii_lower :: "unicode_tables \<Rightarrow> bool" where
  "ascii_lower uc = (\<forall>r < 128. rune_ToLower uc r = (if 65 \<le> r \<and> r \<le> 90 then r + 32 else r))"

definition lower_hex :: "char \<Rightarrow> bool" where
  "lower_hex c = (48 \<le> byte c \<and> byte c \<le> 57 \<or> 97 \<le> byte c \<and> byte c \<le> 102)"

lemma hex_digit_lower: "n < 16 \<Longrightarrow> lower_hex (hex_digit n)"
  by (simp add: lower_hex_def hex_digit_def byte_def)

lemma hex_string_lower: "list_all lower_hex (hex_string s)"
proof -
  have "byte c div 16 < 16 \<and> byte c mod 16 < 16" for c
    using byte_less [of c] by (simp add: less_mult_imp_div_less)
  then show ?thesis by (induction s) (simp_all add: hex_string_def hex_digit_lower)
qed

lemma length_hex_string [simp]: "length (hex_string s) = 2 * length s"
  by (induction s) (simp_all add: hex_string_def)

lemma ToLower_hex: "ascii_lower uc \<Longrightarrow> list_all lower_hex s \<Longrightarrow> ToLower uc s = s"
proof (induction s)
  case Nil
  then show ?case by (simp add: ToLower_def runes_of_def)
next
  case (Cons c s)
  then have c: "byte c < 128" "\<not> (65 \<le> byte c \<and> byte c \<le> 90)" by (auto simp: lower_hex_def)
  have "DecodeRune (c # s) = (byte c, 1)" using c by (simp add: Let_def)
  then have "ToLower uc (c # s) = EncodeRune (rune_ToLower uc (byte c)) @ ToLower uc s"
    by (simp add: ToLower_def runes_of_def)
  moreover have "rune_ToLower uc (byte c) = byte c"
    using Cons.prems(1) c by (auto simp: ascii_lower_def)
  ultimately show ?case using Cons c by (simp add: EncodeRune_def) (simp add: byte_def)
qed

lemma list_all_lower_hex: "list_all lower_hex s \<Longrightarrow> list_all is_hex s"
  by (induction s) (auto simp: lower_hex_def is_hex_def Let_def)

text \<open>
  C6: an account that was created can log in, with its password and with the salted token
  \<open>hex(md5(password + salt))\<close> of the Subsonic protocol, and both return the created user.
\<close>

theorem CreateUser_authenticates:
  assumes "UserService_CreateUser (NewUserService cr uc md5) actor username password role ps w = (Inr u, w')"
    "wf_users w" "w_faults w' = []" "crypto_ok cr" "ascii_lower uc" "\<forall>s. length (md5 s) = 16"
    "salt \<noteq> []"
  shows "AuthenticatePassword (NewUserService cr uc md5) username password w' = (Inr u, w')
    \<and> AuthenticateToken (NewUserService cr uc md5) username (hex_string (md5 (password @ salt))) salt w' = (Inr u, w')"
proof (intro conjI)
  from assms(1,2) obtain n c v v' where n: "normalizeUsername uc username = Inr n" and u: "u = cred_User c"
    and e: "CredentialCodec_Encode cr password v = (Inr (cred_PasswordHash c, cred_EncryptedToken c), v')"
    and view: "user_view w' n = Some c"
    by (rule UserService_CreateUser_credential)
  note ok = Encode_ok [OF e assms(4)]
  note svc = NewUserService_def auth_CredentialCodec_def sqlite_UserStore_def authFail_def tryE_def liftR_def
    fail_def ret_def sqlite_UserCredential_run [OF assms(3)]
  show "AuthenticatePassword (NewUserService cr uc md5) username password w' = (Inr u, w')"
    using n view ok u by (simp add: AuthenticatePassword_def svc)
  show "AuthenticateToken (NewUserService cr uc md5) username (hex_string (md5 (password @ salt))) salt w' = (Inr u, w')"
    using n view ok u assms(6,7)
    by (simp add: AuthenticateToken_def svc ToLower_hex [OF assms(5) hex_string_lower]
        list_all_lower_hex [OF hex_string_lower])
qed

subsection \<open>A concrete instance\<close>

definition demo_crypto :: crypto where
  "demo_crypto = \<lparr>bcrypt_Generate = (\<lambda>i p. Inr (CHR ''h'' # p)), bcrypt_Compare = (\<lambda>h p. h = CHR ''h'' # p),
     rand_Read = (\<lambda>i k. Inr (replicate k (CHR ''n''))), aead_NonceSize = 12, aead_Overhead = 1,
     aead_Seal = (\<lambda>nonce p. CHR ''s'' # p), aead_Open = (\<lambda>nonce c. if hd c = CHR ''s'' then Some (tl c) else None)\<rparr>"

definition demo_md5 :: "string \<Rightarrow> string" where
  "demo_md5 s = take 16 (s @ replicate 16 (CHR 0x00))"

definition demo_users :: "world UserService" where
  "demo_users = NewUserService demo_crypto ascii_tables demo_md5"

definition root_user :: User where
  "root_user = \<lparr>user_Username = ''root'', user_Role = UserRoleAdmin, user_Permissions = [],
     user_CreatedAt = unix_epoch, user_UpdatedAt = unix_epoch\<rparr>"

definition root_world :: world where
  "root_world = empty_world\<lparr>w_users := [credential_row \<lparr>cred_User = root_user,
     cred_PasswordHash = ''h'', cred_EncryptedToken = ''''\<rparr>]\<rparr>"

lemma demo_crypto_ok: "crypto_ok demo_crypto" "ascii_lower ascii_tables" "\<forall>s. length (demo_md5 s) = 16"
  by (auto simp: crypto_ok_def demo_crypto_def ascii_lower_def ascii_tables_def demo_md5_def)

lemma root_world_ok: "wf_users root_world" "has_admin (user_view root_world)" "w_faults root_world = []"
proof -
  show "wf_users root_world" "w_faults root_world = []"
    by (simp_all add: wf_users_def root_world_def empty_world_def)
  have "user_view root_world ''root'' = Some (row_credential root_world (hd (w_users root_world)))"
    by (simp add: user_view_def root_world_def credential_row_def root_user_def)
  moreover have "IsAdmin (cred_User (row_credential root_world (hd (w_users root_world))))"
    by (simp add: row_credential_def root_world_def credential_row_def root_user_def IsAdmin_def scanUser_def)
  ultimately show "has_admin (user_view root_world)" unfolding has_admin_def by blast
qed

lemma demo_normalize: "normalizeUsername ascii_tables ''Ann'' = Inr ''ann''" "normalizeUsername ascii_tables ''root'' = Inr ''root''"
  by (simp_all add: normalizeUsername_def username_rune_ok_def go_eval)

definition ann :: User where
  "ann = \<lparr>user_Username = ''ann'', user_Role = UserRoleUser, user_Permissions = [PermissionMonitoringView],
     user_CreatedAt = unix_epoch + 2 * second, user_UpdatedAt = unix_epoch + 2 * second\<rparr>"

lemma demo_create:
  "\<exists>w'. UserService_CreateUser demo_users root_user ''Ann'' ''secret99'' UserRoleUser [PermissionMonitoringView] root_world
     = (Inr ann, w') \<and> w_faults w' = []"
  apply (simp add: UserService_CreateUser_def demo_users_def NewUserService_def demo_normalize validatePassword_def
     HasPermission_def root_user_def IsAdmin_def normalizePermissions_def SliceStable_def
     ValidPermission_iff availablePermissions_def newCredential_def auth_CredentialCodec_def CredentialCodec_Encode_def
     env_read_def demo_crypto_def bindE_def wrapE_def liftR_def ret_def readE_def time_Now_def
     root_world_def empty_world_def sqlite_UserStore_def sqlite_CreateUser_def db_tx_def db_exec_def db_stmt_def
     next_fault_def spend_fault_def insert_user_row_def credential_row_def ann_def Let_def
     UserRoleAdmin_def UserRoleUser_def fail_def)
  done

section \<open>Properties\<close>

text \<open>
  C2: whatever calls any users make of the service, in whatever order and with whatever database
  faults in between, an administrator remains once there is one.
\<close>

theorem users_admin_remains:
  assumes "wf_users w" "has_admin (user_view w)"
  shows "has_admin (user_view (run_calls (NewUserService cr uc md5) calls w))"
  using run_calls_keeps [OF assms] by blast

theorem users_admin_remains_witness:
  "has_admin (user_view (run_calls demo_users
     [(root_user, CreateUserCall ''ann'' ''secret99'' UserRoleAdmin []), (ann, DeleteUserCall ''root''),
      (root_user, DeleteUserCall ''root'')] root_world))"
  unfolding demo_users_def by (rule users_admin_remains [OF root_world_ok(1,2)])

text \<open>
  C3: the SQL-backed service refines the abstract account machine: a call, failed or not, makes one
  of its steps and keeps the tables well formed.
\<close>

theorem users_call_refines:
  assumes "wf_users w"
  shows "account_step actor (user_view w) (user_view (exec_call (NewUserService cr uc md5) actor call w))
    \<and> wf_users (exec_call (NewUserService cr uc md5) actor call w)"
  using exec_call_step [OF assms] by blast

theorem users_call_refines_witness:
  "account_step root_user (user_view root_world)
     (user_view (exec_call demo_users root_user (UpdatePasswordCall ''root'' ''longer-secret'') root_world))"
  using users_call_refines [OF root_world_ok(1), of root_user demo_crypto ascii_tables demo_md5]
  unfolding demo_users_def by blast

text \<open>
  C4: a caller who is not an administrator, even one with \<open>users.manage\<close>, cannot raise a role, grant
  a permission, change another administrator's credentials or remove an administrator: the users it
  creates have the plain role and no permissions.
\<close>

theorem users_no_escalation:
  assumes "wf_users w" "\<not> IsAdmin actor"
  shows "no_escalation actor (user_view w) (user_view (exec_call (NewUserService cr uc md5) actor call w))"
  using account_step_no_escalation [OF exec_call_step(2) [OF assms(1)] assms(2)] by blast

theorem users_no_escalation_witness:
  "no_escalation ann (user_view root_world)
     (user_view (exec_call demo_users ann (CreateUserCall ''eve'' ''secret99'' UserRoleAdmin []) root_world))"
proof -
  have "\<not> IsAdmin ann" by (simp add: ann_def IsAdmin_def UserRoleUser_def UserRoleAdmin_def)
  from users_no_escalation [OF root_world_ok(1) this] show ?thesis unfolding demo_users_def by blast
qed

theorem AuthenticatePassword_spec_witness:
  "fst (AuthenticatePassword demo_users ''Ann'' ''x'' root_world) = Inl ErrAuthenticationFailed"
proof -
  have "user_view root_world ''ann'' = None"
    by (simp add: user_view_def root_world_def credential_row_def root_user_def)
  then show ?thesis
    using AuthenticatePassword_spec [OF root_world_ok(3), of demo_crypto ascii_tables demo_md5 "''Ann''" "''x''"]
    by (simp add: demo_users_def demo_normalize)
qed

theorem CreateUser_authenticates_witness:
  "\<exists>w'. AuthenticatePassword demo_users ''Ann'' ''secret99'' w' = (Inr ann, w')
    \<and> AuthenticateToken demo_users ''Ann'' (hex_string (demo_md5 ''secret99pepper'')) ''pepper'' w' = (Inr ann, w')"
proof -
  obtain w' where "UserService_CreateUser demo_users root_user ''Ann'' ''secret99'' UserRoleUser
      [PermissionMonitoringView] root_world = (Inr ann, w')" "w_faults w' = []"
    using demo_create by blast
  from CreateUser_authenticates [OF this(1) [unfolded demo_users_def] root_world_ok(1) this(2) demo_crypto_ok,
      of "''pepper''"]
  show ?thesis by (auto simp: demo_users_def)
qed

text \<open>
  Bootstrapping an empty database creates an administrator; on a database that has users it
  changes no account.
\<close>

lemma EnsureBootstrapAdmin_spec:
  assumes "EnsureBootstrapAdmin (NewUserService cr uc md5) n p w = (Inr r, w')" "wf_users w"
  shows "if w_users w = [] then has_admin (user_view w') else user_view w' = user_view w"
proof -
  let ?svc = "NewUserService cr uc md5"
  from assms(1) obtain us w1 where us: "us_Users (svc_store ?svc) w = (Inr us, w1)"
    and rest: "us \<noteq> [] \<and> w' = w1 \<or> us = [] \<and> (\<exists>n' c w2. newCredential ?svc n' p UserRoleAdmin [] w1 = (Inr c, w2)
      \<and> us_CreateUser (svc_store ?svc) c w2 = (Inr r, w'))"
    by (fastforce simp: EnsureBootstrapAdmin_def)
  note frame = accounts.Users_frame [OF us assms(2)]
  have set_us: "set us = cred_User ` ran (user_view w)" using accounts.Users_ok [OF us assms(2)] by blast
  have "user_view w = Map.empty \<longleftrightarrow> w_users w = []"
    by (cases "w_users w") (auto simp: user_view_def fun_eq_iff split: if_splits)
  then have us_Nil: "us = [] \<longleftrightarrow> w_users w = []"
    using set_us by (metis ran_empty image_is_empty set_empty ran_map_upd empty_iff ranI option.exhaust ext)
  show ?thesis
  proof (cases "us = []")
    case False
    with rest us_Nil frame show ?thesis by auto
  next
    case True
    with rest obtain n' c w2 where c: "newCredential ?svc n' p UserRoleAdmin [] w1 = (Inr c, w2)"
      and cr: "us_CreateUser (svc_store ?svc) c w2 = (Inr r, w')" by blast
    have wf2: "wf_users w2" using preservesD [OF accounts.newCredential_keeps _ c] frame by blast
    note f = accounts.newCredential_ok [OF c]
    have "user_view w' (user_Username (cred_User c)) = Some c"
      using accounts.CreateUser_ok [OF cr wf2] f by simp
    with True us_Nil f show ?thesis by (auto simp: has_admin_def IsAdmin_def)
  qed
qed

end
