(* ===== verification/Filesystem.thy ===== *)
theory Filesystem
  imports World
begin

text \<open>
  Package \<open>path/filepath\<close> on a Unix host, the file operations of package \<open>os\<close>, the blob store
  (\<open>adapters/blob/filesystem/store.go\<close>) and the path handling of the local provider
  (\<open>adapters/providers/local/provider.go\<close>). The files of the world are its list \<open>w_blobs\<close> of paths
  and contents; a directory exists as the prefix of a file. Every file operation may fail with
  an error of the operating system (the fault schedule of the world).
\<close>

section \<open>Paths\<close>

fun split_on :: "char \<Rightarrow> string \<Rightarrow> string list" where
  "split_on c [] = [[]]"
| "split_on c (x # xs) =
    (if x = c then [] # split_on c xs
     else case split_on c xs of [] \<Rightarrow> [[x]] | y # ys \<Rightarrow> (x # y) # ys)"

abbreviation slash :: char where "slash \<equiv> CHR ''/''"

definition IsAbs :: "string \<Rightarrow> bool" where
  "IsAbs path = HasPrefix path ''/''"

text \<open>\<open>filepath.Clean\<close> handles the elements of a path from left to right; the elements kept so far
  are a stack.\<close>

definition clean_push :: "bool \<Rightarrow> string list \<Rightarrow> string \<Rightarrow> string list" where
  "clean_push rooted stack c =
    (if c = '''' \<or> c = ''.'' then stack
     else if c = ''..'' then
       (case stack of
          [] \<Rightarrow> if rooted then [] else [''..'']
        | el # rest \<Rightarrow> if el = ''..'' then ''..'' # stack else rest)
     else c # stack)"

definition clean_elements :: "bool \<Rightarrow> string list \<Rightarrow> string list" where
  "clean_elements rooted cs = rev (foldl (clean_push rooted) [] cs)"

definition Clean :: "string \<Rightarrow> string" where
  "Clean path =
    (let elements = clean_elements (IsAbs path) (split_on slash path)
     in if IsAbs path then ''/'' @ strings_Join elements ''/''
        else if elements = [] then ''.'' else strings_Join elements ''/'')"

definition filepath_Join :: "string list \<Rightarrow> string" where
  "filepath_Join elems =
    (let elems' = dropWhile (\<lambda>e. e = '''') elems
     in if elems' = [] then '''' else Clean (strings_Join elems' ''/''))"

text \<open>The last element of a path (\<open>os.FileInfo.Name\<close>).\<close>

definition path_base :: "string \<Rightarrow> string" where
  "path_base path = last (split_on slash path)"

subsection \<open>Elements\<close>

definition plain_element :: "string \<Rightarrow> bool" where
  "plain_element c = (c \<noteq> '''' \<and> c \<noteq> ''.'' \<and> c \<noteq> ''..'' \<and> slash \<notin> set c)"

lemma split_on_ne [simp]: "split_on c s \<noteq> []"
  by (induction s) (auto split: list.splits)

lemma split_on_sep: "split_on c (a @ c # b) = split_on c a @ split_on c b"
  by (induction a) (auto split: list.splits)

lemma split_on_plain [simp]: "c \<notin> set s \<Longrightarrow> split_on c s = [s]"
  by (induction s) auto

lemma split_on_no_sep: "x \<in> set (split_on c s) \<Longrightarrow> c \<notin> set x"
  by (induction s arbitrary: x) (auto split: list.splits if_splits)

lemma split_on_Join:
  "cs \<noteq> [] \<Longrightarrow> (\<And>x. x \<in> set cs \<Longrightarrow> c \<notin> set x) \<Longrightarrow> split_on c (strings_Join cs [c]) = cs"
  by (induction cs "[c]" rule: strings_Join.induct) (simp_all add: split_on_sep)

lemma clean_push_plain [simp]: "plain_element c \<Longrightarrow> clean_push rooted stack c = c # stack"
  by (simp add: clean_push_def plain_element_def)

lemma foldl_clean_plain:
  "list_all plain_element cs \<Longrightarrow> foldl (clean_push rooted) stack cs = rev cs @ stack"
  by (induction cs arbitrary: stack) auto

text \<open>Cleaning a relative path leaves some \<open>..\<close> and then plain elements; a rooted one only plain
  elements.\<close>

lemma clean_stack_rooted:
  "list_all plain_element stack \<Longrightarrow> (\<And>c. c \<in> set cs \<Longrightarrow> slash \<notin> set c) \<Longrightarrow>
    list_all plain_element (foldl (clean_push True) stack cs)"
proof (induction cs arbitrary: stack)
  case (Cons c cs)
  have "list_all plain_element (clean_push True stack c)"
    using Cons.prems by (cases stack) (auto simp: clean_push_def, auto simp: plain_element_def)
  then show ?case using Cons by simp
qed simp

definition dots_then_plain :: "string list \<Rightarrow> bool" where
  "dots_then_plain stack = (\<exists>n ps. stack = ps @ replicate n ''..'' \<and> list_all plain_element ps)"

lemma clean_push_relative:
  assumes "dots_then_plain stack" "slash \<notin> set c"
  shows "dots_then_plain (clean_push False stack c)"
proof -
  obtain n ps where s: "stack = ps @ replicate n ''..''" "list_all plain_element ps"
    using assms(1) by (auto simp: dots_then_plain_def)
  consider "c = '''' \<or> c = ''.''" | "c = ''..''" "ps = []" | p ps' where "c = ''..''" "ps = p # ps'"
    | "plain_element c"
    using assms(2) by (cases ps) (auto simp: plain_element_def)
  then show ?thesis
  proof cases
    case 1
    with assms(1) show ?thesis by (auto simp: clean_push_def)
  next
    case 2
    then have "clean_push False stack c = replicate (Suc n) ''..''"
      using s by (cases n) (simp_all add: clean_push_def)
    then show ?thesis unfolding dots_then_plain_def
      by (intro exI [of _ "Suc n"] exI [of _ "[]"]) simp
  next
    case 3
    then have "clean_push False stack c = ps' @ replicate n ''..''"
      using s by (auto simp: clean_push_def plain_element_def)
    then show ?thesis using s 3 unfolding dots_then_plain_def by auto
  next
    case 4
    then have "clean_push False stack c = (c # ps) @ replicate n ''..''" using s by simp
    then show ?thesis using s 4 unfolding dots_then_plain_def
      by (intro exI [of _ n] exI [of _ "c # ps"]) simp
  qed
qed

lemma clean_stack_relative:
  "dots_then_plain stack \<Longrightarrow> (\<And>c. c \<in> set cs \<Longrightarrow> slash \<notin> set c) \<Longrightarrow>
    dots_then_plain (foldl (clean_push False) stack cs)"
  by (induction cs arbitrary: stack) (simp_all add: clean_push_relative)

lemma clean_elements_relative:
  obtains n ps where "clean_elements False (split_on slash s) = replicate n ''..'' @ ps" "list_all plain_element ps"
proof -
  have "dots_then_plain (foldl (clean_push False) [] (split_on slash s))"
    by (rule clean_stack_relative) (auto simp: dots_then_plain_def dest: split_on_no_sep)
  then obtain n ps where "foldl (clean_push False) [] (split_on slash s) = ps @ replicate n ''..''"
    "list_all plain_element ps"
    by (auto simp: dots_then_plain_def)
  then have "clean_elements False (split_on slash s) = replicate n ''..'' @ rev ps" "list_all plain_element (rev ps)"
    by (simp_all add: clean_elements_def)
  then show thesis by (rule that)
qed

subsection \<open>Joining a key to a root\<close>

text \<open>\<open>Store.path\<close> and \<open>securePath\<close> treat a key alike; only the texts of their errors differ.\<close>

definition Store_path :: "string \<Rightarrow> string \<Rightarrow> string result" where
  "Store_path root key =
    (if key = '''' \<or> IsAbs key then Inl (Errorf ''invalid blob key'')
     else let relative = Clean key in
       if relative = ''..'' \<or> HasPrefix relative ''../''
       then Inl (Errorf ''blob key escapes storage root'')
       else Inr (filepath_Join [root, relative]))"

definition securePath :: "string \<Rightarrow> string \<Rightarrow> string result" where
  "securePath root key =
    (if key = '''' \<or> IsAbs key then Inl (Errorf ''invalid local media key'')
     else let relative = Clean key in
       if relative = ''..'' \<or> HasPrefix relative ''../''
       then Inl (Errorf ''local media key escapes library root'')
       else Inr (filepath_Join [root, relative]))"

text \<open>The elements of an absolute path, and what lies below a directory.\<close>

definition path_elements :: "string \<Rightarrow> string list" where
  "path_elements path = filter (\<lambda>c. c \<noteq> '''') (split_on slash path)"

definition below :: "string \<Rightarrow> string \<Rightarrow> bool" where
  "below root path = (\<exists>rel. path_elements path = path_elements root @ rel \<and> list_all plain_element rel)"

definition clean_root :: "string \<Rightarrow> bool" where
  "clean_root root = (IsAbs root \<and> list_all plain_element (path_elements root))"

lemma split_on_rooted: "split_on slash (slash # s) = '''' # split_on slash s"
  by simp

lemma foldl_clean_filter:
  "foldl (clean_push r) st (filter (\<lambda>c. c \<noteq> '''') cs) = foldl (clean_push r) st cs"
  by (induction cs arbitrary: st) (simp_all add: clean_push_def)

lemma filter_plain: "list_all plain_element cs \<Longrightarrow> filter (\<lambda>c. c \<noteq> '''') cs = cs"
  by (induction cs) (auto simp: plain_element_def)

lemma plain_no_slash: "list_all plain_element cs \<Longrightarrow> x \<in> set cs \<Longrightarrow> slash \<notin> set x"
  by (induction cs) (auto simp: plain_element_def)

lemma path_elements_Join:
  assumes "list_all plain_element cs"
  shows "path_elements (slash # strings_Join cs ''/'') = cs"
proof (cases "cs = []")
  case True
  then show ?thesis by (simp add: path_elements_def)
next
  case False
  then show ?thesis
    using assms split_on_Join [OF False, of slash] by (simp add: path_elements_def filter_plain plain_no_slash)
qed

text \<open>The relative part of an accepted key has only plain elements.\<close>

lemma accepted_relative:
  assumes "\<not> IsAbs key" "\<not> (Clean key = ''..'' \<or> HasPrefix (Clean key) ''../'')"
  obtains rel where "list_all plain_element rel"
    "Clean key = (if rel = [] then ''.'' else strings_Join rel ''/'')"
    "clean_elements False (split_on slash key) = rel"
proof -
  obtain n ps where e: "clean_elements False (split_on slash key) = replicate n ''..'' @ ps"
    and ps: "list_all plain_element ps"
    by (rule clean_elements_relative)
  have "n = 0"
  proof (rule ccontr)
    assume "n \<noteq> 0"
    then obtain m where n: "n = Suc m" by (cases n) auto
    have c: "Clean key = strings_Join (''..'' # replicate m ''..'' @ ps) ''/''"
      using assms(1) e n by (simp add: Clean_def Let_def)
    show False
    proof (cases "replicate m ''..'' @ ps")
      case Nil
      then show False using c assms(2) by simp
    next
      case (Cons y ys)
      then show False using c assms(2) by (simp add: HasPrefix_def)
    qed
  qed
  then have "clean_elements False (split_on slash key) = ps" using e by simp
  with ps assms(1) show thesis by (intro that [of ps]) (auto simp: Clean_def Let_def)
qed

lemma Join_below:
  assumes "clean_root root" "list_all plain_element rel"
    "relative = (if rel = [] then ''.'' else strings_Join rel ''/'')"
  shows "filepath_Join [root, relative] = slash # strings_Join (path_elements root @ rel) ''/''"
proof -
  from assms(1) have abs: "IsAbs root" and pe: "list_all plain_element (path_elements root)"
    by (auto simp: clean_root_def)
  have ne: "root \<noteq> ''''" using abs by (auto simp: IsAbs_def HasPrefix_def)
  have abs': "IsAbs (root @ slash # relative)" using abs by (cases root) (auto simp: IsAbs_def HasPrefix_def)
  have rel: "foldl (clean_push True) st (split_on slash relative) = rev rel @ st" for st
  proof (cases "rel = []")
    case True
    then show ?thesis by (simp add: assms(3) clean_push_def)
  next
    case False
    then have "split_on slash relative = rel"
      using assms(2,3) split_on_Join [OF False, of slash] by (simp add: plain_no_slash)
    then show ?thesis using assms(2) by (simp add: foldl_clean_plain)
  qed
  have root: "foldl (clean_push True) [] (split_on slash root) = rev (path_elements root)"
    using foldl_clean_plain [OF pe, of True "[]"] by (simp add: path_elements_def foldl_clean_filter)
  have "clean_elements True (split_on slash (root @ slash # relative)) = path_elements root @ rel"
    by (simp add: clean_elements_def split_on_sep root rel)
  then show ?thesis using ne abs' by (simp add: filepath_Join_def Clean_def)
qed

lemma accepted_path:
  assumes "clean_root root" "\<not> IsAbs key" "\<not> (Clean key = ''..'' \<or> HasPrefix (Clean key) ''../'')"
    "p = filepath_Join [root, Clean key]"
  shows "p = slash # strings_Join (path_elements root @ clean_elements False (split_on slash key)) ''/''"
    "path_elements p = path_elements root @ clean_elements False (split_on slash key)"
    "list_all plain_element (clean_elements False (split_on slash key))"
proof -
  from assms(2,3) obtain rel where rel: "list_all plain_element rel"
    "Clean key = (if rel = [] then ''.'' else strings_Join rel ''/'')"
    "clean_elements False (split_on slash key) = rel"
    by (rule accepted_relative)
  from Join_below [OF assms(1) rel(1,2)] have p: "p = slash # strings_Join (path_elements root @ rel) ''/''"
    using assms(4) by simp
  then show "p = slash # strings_Join (path_elements root @ clean_elements False (split_on slash key)) ''/''"
    by (simp add: rel)
  show "path_elements p = path_elements root @ clean_elements False (split_on slash key)"
    using p rel assms(1) by (simp add: path_elements_Join clean_root_def)
  show "list_all plain_element (clean_elements False (split_on slash key))" using rel by simp
qed

text \<open>
  C10: no key, however many \<open>..\<close> it has, leads the blob store or the local provider outside its root:
  an accepted key names a path whose elements extend those of the root by plain elements.
\<close>

theorem keys_stay_below_root:
  assumes "clean_root root" "Store_path root key = Inr p \<or> securePath root key = Inr p"
  shows "below root p"
proof -
  from assms(2) have "\<not> IsAbs key" "\<not> (Clean key = ''..'' \<or> HasPrefix (Clean key) ''../'')"
    "p = filepath_Join [root, Clean key]"
    by (auto simp: Store_path_def securePath_def Let_def split: if_splits)
  from accepted_path [OF assms(1) this] show ?thesis unfolding below_def by blast
qed

theorem keys_stay_below_root_witness:
  "below ''/srv/blobs'' ''/srv/blobs/media/k''"
proof (rule keys_stay_below_root)
  show "clean_root ''/srv/blobs''"
    by (simp add: clean_root_def path_elements_def plain_element_def IsAbs_def HasPrefix_def)
  show "Store_path ''/srv/blobs'' ''media/x/../k'' = Inr ''/srv/blobs/media/k'' \<or>
    securePath ''/srv/blobs'' ''media/x/../k'' = Inr ''/srv/blobs/media/k''"
    by (simp add: Store_path_def IsAbs_def HasPrefix_def Clean_def clean_elements_def clean_push_def
        filepath_Join_def Let_def)
qed

section \<open>Files\<close>

text \<open>\<open>filepath.Ext\<close>: the suffix of the last element from its last dot on.\<close>

definition filepath_Ext :: "string \<Rightarrow> string" where
  "filepath_Ext path =
    (let b = path_base path
     in if CHR ''.'' \<in> set b then CHR ''.'' # rev (takeWhile (\<lambda>c. c \<noteq> CHR ''.'') (rev b)) else '''')"

definition os_error :: go_error where
  "os_error = ErrIO ''os''"

text \<open>The error for which \<open>os.IsNotExist\<close> holds.\<close>

definition os_ErrNotExist :: go_error where
  "os_ErrNotExist = ErrIO ''not exist''"

definition is_dir :: "world \<Rightarrow> string \<Rightarrow> bool" where
  "is_dir w path = list_ex (\<lambda>f. HasPrefix (fst f) (path @ ''/'')) (w_blobs w)"

text \<open>A file operation: like a database statement it may fail first.\<close>

definition os_call :: "(world \<Rightarrow> 'a result \<times> world) \<Rightarrow> (world, 'a) action" where
  "os_call f w = (if next_fault w then (Inl os_error, spend_fault w) else f (spend_fault w))"

definition os_Open :: "string \<Rightarrow> (world, string \<times> time) action" where
  "os_Open path = os_call (\<lambda>w.
     case map_of (w_blobs w) path of
       Some file \<Rightarrow> (Inr file, w)
     | None \<Rightarrow> (Inl (if is_dir w path then os_error else os_ErrNotExist), w))"

definition os_Remove :: "string \<Rightarrow> (world, unit) action" where
  "os_Remove path = os_call (\<lambda>w.
     if map_of (w_blobs w) path = None
     then (Inl (if is_dir w path then os_error else os_ErrNotExist), w)
     else (Inr (), w\<lparr>w_blobs := filter (\<lambda>f. fst f \<noteq> path) (w_blobs w)\<rparr>))"

text \<open>A reader yields bytes and then \<open>io.EOF\<close> or an error.\<close>

record reader =
  rd_bytes :: string
  rd_error :: "go_error option"

definition mk_reader :: "string \<Rightarrow> reader" where
  "mk_reader bytes = \<lparr>rd_bytes = bytes, rd_error = None\<rparr>"

section \<open>The blob store\<close>

record 's BlobStore =
  blob_Open :: "string \<Rightarrow> ('s, string) action"
  blob_Put :: "string \<Rightarrow> reader \<Rightarrow> ('s, unit) action"
  blob_Delete :: "string \<Rightarrow> ('s, unit) action"

definition Store_Open :: "string \<Rightarrow> string \<Rightarrow> (world, string) action" where
  "Store_Open root key =
    bindE (liftR (Store_path root key)) (\<lambda>path.
      tryE (os_Open path) (\<lambda>r. case r of
        Inl err \<Rightarrow> if err = os_ErrNotExist then fail ErrNotFound else fail (Wrap ''open blob'' err)
      | Inr (content, _) \<Rightarrow> ret content))"

text \<open>
  \<open>Put\<close> writes a temporary file in the directory of the target and renames it; a failure on the
  way leaves the target as it was, since the temporary file (removed by a \<open>defer\<close>) is not a blob.
\<close>

definition Store_Put :: "string \<Rightarrow> string \<Rightarrow> reader \<Rightarrow> (world, unit) action" where
  "Store_Put root key source =
    bindE (liftR (Store_path root key)) (\<lambda>path.
      bindE (wrapE ''create blob directory'' (os_call (\<lambda>w. (Inr (), w)))) (\<lambda>_.
        bindE (wrapE ''create temporary blob'' (os_call (\<lambda>w. (Inr (), w)))) (\<lambda>_.
          bindE (wrapE ''write blob'' (case rd_error source of
                    Some err \<Rightarrow> fail err
                  | None \<Rightarrow> os_call (\<lambda>w. (Inr (), w)))) (\<lambda>_.
            bindE (wrapE ''sync blob'' (os_call (\<lambda>w. (Inr (), w)))) (\<lambda>_.
              bindE (wrapE ''close blob'' (os_call (\<lambda>w. (Inr (), w)))) (\<lambda>_.
                readE time_Now (\<lambda>mtime.
                  wrapE ''commit blob'' (os_call (\<lambda>w.
                    if is_dir w path then (Inl os_error, w)
                    else (Inr (), w\<lparr>w_blobs := upsert fst (path, rd_bytes source, mtime) (w_blobs w)\<rparr>)))))))))
      )"

definition Store_Delete :: "string \<Rightarrow> string \<Rightarrow> (world, unit) action" where
  "Store_Delete root key =
    bindE (liftR (Store_path root key)) (\<lambda>path.
      tryE (os_Remove path) (\<lambda>r. case r of
        Inl err \<Rightarrow> if err = os_ErrNotExist then fail ErrNotFound else fail (Wrap ''delete blob'' err)
      | Inr _ \<Rightarrow> ret ()))"

definition filesystem_Store :: "string \<Rightarrow> world BlobStore" where
  "filesystem_Store root = \<lparr>blob_Open = Store_Open root, blob_Put = Store_Put root,
     blob_Delete = Store_Delete root\<rparr>"

subsection \<open>The contract of a blob store\<close>

text \<open>
  A key names a file (\<open>file_of\<close>, nothing for a rejected key); the contents are a map of files.
  A call that fails changes no content.
\<close>

locale blob_store =
  fixes blobs :: "'s BlobStore"
    and file_of :: "string \<Rightarrow> string option"
    and contents :: "'s \<Rightarrow> string \<rightharpoonup> string"
  assumes Open_frame: "blob_Open blobs k s = (r, s') \<Longrightarrow> contents s' = contents s"
    and Open_ok: "blob_Open blobs k s = (Inr c, s') \<Longrightarrow> \<exists>f. file_of k = Some f \<and> contents s f = Some c"
    and Open_missing: "blob_Open blobs k s = (Inl e, s') \<Longrightarrow> errors_Is e ErrNotFound \<Longrightarrow>
      \<exists>f. file_of k = Some f \<and> contents s f = None"
    and Put_err: "blob_Put blobs k src s = (Inl e, s') \<Longrightarrow> contents s' = contents s"
    and Put_ok: "blob_Put blobs k src s = (Inr u, s') \<Longrightarrow> \<exists>f. file_of k = Some f \<and> rd_error src = None
      \<and> contents s' = (contents s)(f \<mapsto> rd_bytes src)"
    and Delete_err: "blob_Delete blobs k s = (Inl e, s') \<Longrightarrow> contents s' = contents s"
    and Delete_missing: "blob_Delete blobs k s = (Inl e, s') \<Longrightarrow> errors_Is e ErrNotFound \<Longrightarrow>
      \<exists>f. file_of k = Some f \<and> contents s f = None"
    and Delete_ok: "blob_Delete blobs k s = (Inr u, s') \<Longrightarrow> \<exists>f. file_of k = Some f \<and> contents s f \<noteq> None
      \<and> contents s' = (contents s)(f := None)"

definition blob_file :: "string \<Rightarrow> string \<Rightarrow> string option" where
  "blob_file root key = (case Store_path root key of Inl _ \<Rightarrow> None | Inr p \<Rightarrow> Some p)"

definition blob_contents :: "world \<Rightarrow> string \<rightharpoonup> string" where
  "blob_contents w p = map_option fst (map_of (w_blobs w) p)"

lemma os_step_ok: "os_call (\<lambda>w. (Inr (), w)) w = (r, w') \<Longrightarrow> w' = spend_fault w"
  by (auto simp: os_call_def split: if_splits)

lemma blob_contents_spend [simp]: "blob_contents (spend_fault w) = blob_contents w"
  by (simp add: blob_contents_def fun_eq_iff)

lemma map_of_upsert: "map_of (upsert fst (p, v) xs) = (map_of xs)(p \<mapsto> v)"
  by (induction xs) auto

lemma map_of_filter_neq: "map_of (filter (\<lambda>f. fst f \<noteq> p) xs) = (map_of xs)(p := None)"
  by (induction xs) (auto simp: fun_eq_iff)

lemma Store_path_error: "Store_path root k = Inl e \<Longrightarrow> \<not> errors_Is e ErrNotFound"
  by (auto simp: Store_path_def Let_def split: if_splits)

lemma os_error_is [simp]: "os_error \<noteq> os_ErrNotExist" "\<not> errors_Is os_error ErrNotFound"
  by (simp_all add: os_error_def os_ErrNotExist_def)

lemma Store_Open_run:
  assumes "Store_Open root k w = (r, w')"
  shows "blob_contents w' = blob_contents w"
    "r = Inr c \<Longrightarrow> \<exists>f. blob_file root k = Some f \<and> blob_contents w f = Some c"
    "r = Inl e \<Longrightarrow> errors_Is e ErrNotFound \<Longrightarrow> \<exists>f. blob_file root k = Some f \<and> blob_contents w f = None"
  using assms Store_path_error [of root k]
  by (auto simp: Store_Open_def bindE_def liftR_def tryE_def os_Open_def os_call_def fail_def ret_def blob_file_def
      blob_contents_def split: sum.splits prod.splits if_splits option.splits)

lemma Store_Delete_run:
  assumes "Store_Delete root k w = (r, w')"
  shows "r = Inl e \<Longrightarrow> blob_contents w' = blob_contents w"
    "r = Inr u \<Longrightarrow> \<exists>f. blob_file root k = Some f \<and> blob_contents w f \<noteq> None
       \<and> blob_contents w' = (blob_contents w)(f := None)"
    "r = Inl e \<Longrightarrow> errors_Is e ErrNotFound \<Longrightarrow> \<exists>f. blob_file root k = Some f \<and> blob_contents w f = None"
  using assms Store_path_error [of root k]
  by (auto simp: Store_Delete_def bindE_def liftR_def tryE_def os_Remove_def os_call_def fail_def ret_def blob_file_def
      blob_contents_def map_of_filter_neq fun_eq_iff split: sum.splits prod.splits if_splits option.splits)

lemma os_step_keeps [preserving]: "preserves (\<lambda>w. blob_contents w = B) (os_call (\<lambda>w. (Inr (), w)))"
  by (rule preservesI) (auto dest: os_step_ok)

lemma clock_contents: "blob_contents w = B \<Longrightarrow> blob_contents (snd (time_Now w)) = B"
  by (simp add: time_Now_def blob_contents_def fun_eq_iff)

lemma commit_err:
  "preservesE (\<lambda>w. blob_contents w = B) (os_call (\<lambda>w. if is_dir w p then (Inl os_error, w)
     else (Inr (), w\<lparr>w_blobs := upsert fst (p, b, t) (w_blobs w)\<rparr>)))"
  by (rule preservesEI) (auto simp: os_call_def split: if_splits)

lemma Store_Put_err: "preservesE (\<lambda>w. blob_contents w = B) (Store_Put root k src)"
  unfolding Store_Put_def
  by (intro preservingE preserving commit_err clock_contents)

lemma Store_Put_ok:
  assumes "Store_Put root k src w = (Inr u, w')"
  shows "\<exists>f. blob_file root k = Some f \<and> rd_error src = None \<and> blob_contents w' = (blob_contents w)(f \<mapsto> rd_bytes src)"
proof -
  let ?w1 = "spend_fault (spend_fault (spend_fault (spend_fault (spend_fault w))))"
  obtain w1 where w1_def: "w1 = ?w1" by simp
  then have w1: "blob_contents w1 = blob_contents w" by simp
  from assms obtain p where p: "Store_path root k = Inr p" and src: "rd_error src = None"
    and c: "os_call (\<lambda>w. if is_dir w p then (Inl os_error, w)
      else (Inr (), w\<lparr>w_blobs := upsert fst (p, rd_bytes src, fst (time_Now w1)) (w_blobs w)\<rparr>)) (snd (time_Now w1)) = (Inr (), w')"
    unfolding w1_def by (auto simp: Store_Put_def case_option_action_iff dest!: os_step_ok)
  from c have "w_blobs w' = upsert fst (p, rd_bytes src, fst (time_Now w1)) (w_blobs w1)"
    by (auto simp: os_call_def time_Now_def split: if_splits)
  then have "blob_contents w' = (blob_contents w1)(p \<mapsto> rd_bytes src)"
    by (simp add: blob_contents_def fun_eq_iff map_of_upsert)
  with p src w1 show ?thesis by (simp add: blob_file_def)
qed

interpretation fs: blob_store "filesystem_Store root" "blob_file root" blob_contents for root
proof unfold_locales
  fix k src w r w' c e u
  let ?fs = "filesystem_Store root"
  show "blob_contents w' = blob_contents w" if "blob_Open ?fs k w = (r, w')"
    using that Store_Open_run(1) by (simp add: filesystem_Store_def)
  show "\<exists>f. blob_file root k = Some f \<and> blob_contents w f = Some c" if "blob_Open ?fs k w = (Inr c, w')"
    using that Store_Open_run(2) by (simp add: filesystem_Store_def)
  show "\<exists>f. blob_file root k = Some f \<and> blob_contents w f = None"
    if "blob_Open ?fs k w = (Inl e, w')" "errors_Is e ErrNotFound"
    using that Store_Open_run(3) by (simp add: filesystem_Store_def)
  show "blob_contents w' = blob_contents w" if "blob_Put ?fs k src w = (Inl e, w')"
    using that preservesED [OF Store_Put_err refl] by (simp add: filesystem_Store_def)
  show "\<exists>f. blob_file root k = Some f \<and> rd_error src = None \<and> blob_contents w' = (blob_contents w)(f \<mapsto> rd_bytes src)"
    if "blob_Put ?fs k src w = (Inr u, w')"
    using that Store_Put_ok by (simp add: filesystem_Store_def)
  show "blob_contents w' = blob_contents w" if "blob_Delete ?fs k w = (Inl e, w')"
    using that Store_Delete_run(1) by (simp add: filesystem_Store_def)
  show "\<exists>f. blob_file root k = Some f \<and> blob_contents w f = None"
    if "blob_Delete ?fs k w = (Inl e, w')" "errors_Is e ErrNotFound"
    using that Store_Delete_run(3) by (simp add: filesystem_Store_def)
  show "\<exists>f. blob_file root k = Some f \<and> blob_contents w f \<noteq> None \<and> blob_contents w' = (blob_contents w)(f := None)"
    if "blob_Delete ?fs k w = (Inr u, w')"
    using that Store_Delete_run(2) by (simp add: filesystem_Store_def)
qed

text \<open>The blob store touches no table.\<close>

definition tables_of :: "world \<Rightarrow> world" where
  "tables_of w = (store_of w)\<lparr>w_blobs := []\<rparr>"

lemma os_call_tables: "(\<And>w r w'. f w = (r, w') \<Longrightarrow> tables_of w' = tables_of w) \<Longrightarrow>
    preserves (\<lambda>w. tables_of w = T) (os_call f)"
  by (rule preservesI) (auto simp: os_call_def tables_of_def split: if_splits)

lemma clock_tables: "tables_of w = T \<Longrightarrow> tables_of (snd (time_Now w)) = T"
  by (simp add: tables_of_def)

lemma blob_store_tables [preserving]:
  "preserves (\<lambda>w. tables_of w = T) (Store_Open root k)"
  "preserves (\<lambda>w. tables_of w = T) (Store_Put root k src)"
  "preserves (\<lambda>w. tables_of w = T) (Store_Delete root k)"
  unfolding Store_Open_def Store_Put_def Store_Delete_def os_Open_def os_Remove_def
  by (intro preserving os_call_tables clock_tables;
      auto simp: tables_of_def store_of_def split: option.splits if_splits)+

end
