(* ===== verification/MediaCache.thy ===== *)
theory MediaCache
  imports Filesystem
begin

text \<open>
  The media cache (\<open>core/services/media_cache.go\<close>) over the ports \<open>BlobStore\<close> and
  \<open>CacheMetadataStore\<close> (\<open>core/ports/media.go\<close>), and the SQL store of the cache entries
  (\<open>adapters/storage/sqlite/cache.go\<close>).

  The locale \<open>media_cache\<close> joins the contracts of the two ports; what eviction removes and keeps,
  the capacity bound after an insertion and the repair of dangling entries are proved in it and
  hold for the SQL store with the file system by interpretation. The mutex of the service makes
  every operation but the upload of \<open>Put\<close> atomic; the model runs operations one after the other.
\<close>

section \<open>Ports\<close>

record 's CacheMetadataStore =
  cm_CacheEntry :: "string \<Rightarrow> ('s, CacheEntry) action"
  cm_CacheEntries :: "('s, CacheEntry list) action"
  cm_SaveCacheEntry :: "CacheEntry \<Rightarrow> ('s, unit) action"
  cm_DeleteCacheEntry :: "string \<Rightarrow> ('s, unit) action"

record 's MediaCache =
  mc_blobs :: "'s BlobStore"
  mc_metadata :: "'s CacheMetadataStore"
  mc_maxBytes :: int
  mc_now :: "'s \<Rightarrow> time \<times> 's"

section \<open>The service\<close>

definition NewMediaCache ::
  "'s BlobStore \<Rightarrow> 's CacheMetadataStore \<Rightarrow> ('s \<Rightarrow> time \<times> 's) \<Rightarrow> int \<Rightarrow> 's MediaCache result" where
  "NewMediaCache blobs metadata now maxBytes =
    (if maxBytes \<le> 0 then Inl (Errorf ''media cache size must be positive'')
     else Inr \<lparr>mc_blobs = blobs, mc_metadata = metadata, mc_maxBytes = maxBytes, mc_now = now\<rparr>)"

definition validCacheKey :: "string \<Rightarrow> bool" where
  "validCacheKey key = (key \<noteq> '''' \<and> \<not> ContainsAny key [CHR ''/'', CHR 0x5C])"

definition mediaCacheBlobKey :: "string \<Rightarrow> string" where
  "mediaCacheBlobKey key = ''media/'' @ key"

definition removeLocked :: "'s MediaCache \<Rightarrow> string \<Rightarrow> ('s, unit) action" where
  "removeLocked c key =
    tryE (blob_Delete (mc_blobs c) (mediaCacheBlobKey key)) (\<lambda>r.
      case r of
        Inl err \<Rightarrow>
          if errors_Is err ErrNotFound
          then wrapE ''delete cached media metadata'' (cm_DeleteCacheEntry (mc_metadata c) key)
          else fail (Wrap ''delete cached media bytes'' err)
      | Inr _ \<Rightarrow> wrapE ''delete cached media metadata'' (cm_DeleteCacheEntry (mc_metadata c) key))"

text \<open>The eviction loop; \<open>held\<close> is the \<open>size\<close> of the source, an \<open>int64\<close>.\<close>

fun prune_loop :: "'s MediaCache \<Rightarrow> string \<Rightarrow> int \<Rightarrow> CacheEntry list \<Rightarrow> ('s, int) action" where
  "prune_loop c protectedKey held [] = ret held"
| "prune_loop c protectedKey held (entry # rest) =
    (if held \<le> mc_maxBytes c then ret held
     else if ce_Pinned entry \<or> ce_Key entry = protectedKey then prune_loop c protectedKey held rest
     else bindE (wrapE ''evict cached media'' (removeLocked c (ce_Key entry)))
       (\<lambda>_. prune_loop c protectedKey (i64 (held - ce_Size entry)) rest))"

definition pruneLocked :: "'s MediaCache \<Rightarrow> string \<Rightarrow> ('s, int) action" where
  "pruneLocked c protectedKey =
    bindE (wrapE ''list cached media'' (cm_CacheEntries (mc_metadata c))) (\<lambda>entries.
      prune_loop c protectedKey (foldl (\<lambda>held entry. i64 (held + ce_Size entry)) 0 entries) entries)"

definition MediaCache_Put :: "'s MediaCache \<Rightarrow> string \<Rightarrow> reader \<Rightarrow> bool \<Rightarrow> ('s, unit) action" where
  "MediaCache_Put c key source pinned =
    (if \<not> validCacheKey key then fail (Errorf ''invalid media cache key'')
     else bindE (wrapE ''store cached media'' (blob_Put (mc_blobs c) (mediaCacheBlobKey key) source)) (\<lambda>_.
       readE (mc_now c) (\<lambda>now.
         let entry = \<lparr>ce_Key = key, ce_Size = i64 (int (length (rd_bytes source))),
                      ce_LastAccessed = now, ce_Pinned = pinned\<rparr>
         in tryE (cm_SaveCacheEntry (mc_metadata c) entry) (\<lambda>saved. case saved of
              Inl err \<Rightarrow>
                tryE (blob_Delete (mc_blobs c) (mediaCacheBlobKey key)) (\<lambda>_.
                  fail (Wrap ''record cached media'' err))
            | Inr _ \<Rightarrow>
                bindE (pruneLocked c key) (\<lambda>remaining.
                  if mc_maxBytes c < remaining \<and> \<not> pinned
                  then bindE (wrapE ''discard over-capacity media'' (removeLocked c key)) (\<lambda>_.
                         fail (Wrap ''cache media'' ErrCacheCapacity))
                  else ret ())))))"

definition MediaCache_Open :: "'s MediaCache \<Rightarrow> string \<Rightarrow> ('s, string) action" where
  "MediaCache_Open c key =
    bindE (cm_CacheEntry (mc_metadata c) key) (\<lambda>entry.
      tryE (blob_Open (mc_blobs c) (mediaCacheBlobKey key)) (\<lambda>opened. case opened of
        Inl err \<Rightarrow>
          if errors_Is err ErrNotFound
          then tryE (cm_DeleteCacheEntry (mc_metadata c) key) (\<lambda>_. fail ErrNotFound)
          else fail (Wrap ''open cached media'' err)
      | Inr content \<Rightarrow>
          readE (mc_now c) (\<lambda>now.
            bindE (wrapE ''touch cached media''
                    (cm_SaveCacheEntry (mc_metadata c) (entry\<lparr>ce_LastAccessed := now\<rparr>)))
              (\<lambda>_. ret content))))"

definition MediaCache_SetPinned :: "'s MediaCache \<Rightarrow> string \<Rightarrow> bool \<Rightarrow> ('s, unit) action" where
  "MediaCache_SetPinned c key pinned =
    bindE (cm_CacheEntry (mc_metadata c) key) (\<lambda>entry.
      bindE (wrapE ''set cached media pin''
              (cm_SaveCacheEntry (mc_metadata c) (entry\<lparr>ce_Pinned := pinned\<rparr>)))
        (\<lambda>_. if \<not> pinned then bindE (pruneLocked c '''') (\<lambda>_. ret ()) else ret ()))"

definition MediaCache_Remove :: "'s MediaCache \<Rightarrow> string \<Rightarrow> ('s, unit) action" where
  "MediaCache_Remove c key = removeLocked c key"

definition MediaCache_Prune :: "'s MediaCache \<Rightarrow> ('s, unit) action" where
  "MediaCache_Prune c = bindE (pruneLocked c '''') (\<lambda>_. ret ())"

text \<open>One turn of the loop of \<open>Stats\<close>.\<close>

definition add_entry :: "CacheStats \<Rightarrow> CacheEntry \<Rightarrow> CacheStats" where
  "add_entry stats entry =
    (let stats = stats\<lparr>cs_Size := i64 (cs_Size stats + ce_Size entry)\<rparr>
     in if ce_Pinned entry
        then stats\<lparr>cs_PinnedEntries := cs_PinnedEntries stats + 1,
                   cs_PinnedSize := i64 (cs_PinnedSize stats + ce_Size entry)\<rparr>
        else stats)"

definition MediaCache_Stats :: "'s MediaCache \<Rightarrow> ('s, CacheStats) action" where
  "MediaCache_Stats c =
    bindE (cm_CacheEntries (mc_metadata c)) (\<lambda>entries.
      let stats = foldl add_entry
            \<lparr>cs_Capacity = mc_maxBytes c, cs_Entries = int (length entries), cs_Size = 0,
             cs_PinnedEntries = 0, cs_PinnedSize = 0, cs_Components = []\<rparr> entries
      in ret (stats\<lparr>cs_Components := cs_Components stats @
           [\<lparr>cu_Name = ''media'', cu_Entries = cs_Entries stats, cu_PartialEntries = 0, cu_Size = cs_Size stats\<rparr>]\<rparr>))"

section \<open>The SQL store\<close>

definition sqlite_CacheEntry :: "string \<Rightarrow> (world, CacheEntry) action" where
  "sqlite_CacheEntry key =
    bindE (wrapE ''query cache entry'' (db_query (\<lambda>w. find_key ce_Key key (w_cache_entries w))))
      (\<lambda>row. case row of None \<Rightarrow> fail ErrNotFound | Some entry \<Rightarrow> ret entry)"

text \<open>\<open>ORDER BY last_accessed_at, key\<close> compares the text of the times.\<close>

definition cache_row_lt :: "CacheEntry \<Rightarrow> CacheEntry \<Rightarrow> bool" where
  "cache_row_lt a b =
    (let ta = format_RFC3339Nano (ce_LastAccessed a); tb = format_RFC3339Nano (ce_LastAccessed b)
     in ta < tb \<or> ta = tb \<and> ce_Key a < ce_Key b)"

definition sqlite_CacheEntries :: "(world, CacheEntry list) action" where
  "sqlite_CacheEntries =
    wrapE ''query cache entries'' (db_query (\<lambda>w. SliceStable cache_row_lt (w_cache_entries w)))"

text \<open>The schema checks \<open>size_bytes >= 0\<close>.\<close>

definition sqlite_SaveCacheEntry :: "CacheEntry \<Rightarrow> (world, unit) action" where
  "sqlite_SaveCacheEntry entry =
    wrapE ''save cache entry''
      (db_stmt (\<lambda>w.
         if ce_Size entry < 0 then (Inl (ErrIO ''constraint''), w)
         else (Inr (), w\<lparr>w_cache_entries := upsert ce_Key entry (w_cache_entries w)\<rparr>)))"

definition sqlite_DeleteCacheEntry :: "string \<Rightarrow> (world, unit) action" where
  "sqlite_DeleteCacheEntry key =
    wrapE ''delete cache entry''
      (db_exec (\<lambda>w. w\<lparr>w_cache_entries := filter (\<lambda>e. ce_Key e \<noteq> key) (w_cache_entries w)\<rparr>))"

definition sqlite_CacheMetadataStore :: "world CacheMetadataStore" where
  "sqlite_CacheMetadataStore = \<lparr>cm_CacheEntry = sqlite_CacheEntry, cm_CacheEntries = sqlite_CacheEntries,
     cm_SaveCacheEntry = sqlite_SaveCacheEntry, cm_DeleteCacheEntry = sqlite_DeleteCacheEntry\<rparr>"

section \<open>The contract of the metadata store\<close>

locale cache_metadata =
  fixes md :: "'s CacheMetadataStore"
    and entries :: "'s \<Rightarrow> CacheEntry list"
    and listing :: "CacheEntry list \<Rightarrow> CacheEntry list"
  assumes mset_listing: "mset (listing es) = mset es"
    and CacheEntry_frame: "cm_CacheEntry md k s = (r, s') \<Longrightarrow> entries s' = entries s"
    and CacheEntry_ok: "cm_CacheEntry md k s = (Inr e, s') \<Longrightarrow> find_key ce_Key k (entries s) = Some e"
    and CacheEntries_frame: "cm_CacheEntries md s = (rs, s') \<Longrightarrow> entries s' = entries s"
    and CacheEntries_ok: "cm_CacheEntries md s = (Inr es, s') \<Longrightarrow> es = listing (entries s)"
    and Save_err: "cm_SaveCacheEntry md e s = (Inl err, s') \<Longrightarrow> entries s' = entries s"
    and Save_ok: "cm_SaveCacheEntry md e s = (Inr u, s') \<Longrightarrow>
      0 \<le> ce_Size e \<and> entries s' = upsert ce_Key e (entries s)"
    and Delete_entry_err: "cm_DeleteCacheEntry md k s = (Inl err, s') \<Longrightarrow> entries s' = entries s"
    and Delete_entry_ok: "cm_DeleteCacheEntry md k s = (Inr u, s') \<Longrightarrow>
      entries s' = filter (\<lambda>e. ce_Key e \<noteq> k) (entries s)"

text \<open>The invariant of the table: keys are unique, sizes are \<open>int64\<close> values and not negative.\<close>

definition wf_cache :: "CacheEntry list \<Rightarrow> bool" where
  "wf_cache es = (distinct (map ce_Key es) \<and> (\<forall>e \<in> set es. 0 \<le> ce_Size e \<and> in_i64 (ce_Size e)))"

definition total_size :: "CacheEntry list \<Rightarrow> int" where
  "total_size es = sum_list (map ce_Size es)"

lemma total_size_simps [simp]: "total_size [] = 0" "total_size (e # es) = ce_Size e + total_size es"
  "total_size (es @ es') = total_size es + total_size es'"
  by (simp_all add: total_size_def)

lemma wf_cache_upsert:
  "wf_cache es \<Longrightarrow> 0 \<le> ce_Size e \<Longrightarrow> in_i64 (ce_Size e) \<Longrightarrow> wf_cache (upsert ce_Key e es)"
  using set_upsert [of ce_Key e es] by (auto simp: wf_cache_def)

lemma wf_cache_filter: "wf_cache es \<Longrightarrow> wf_cache (filter P es)"
  by (auto simp: wf_cache_def)

lemma wf_cache_mset: "mset es' = mset es \<Longrightarrow> wf_cache es' = wf_cache es"
  unfolding wf_cache_def by (metis mset_eq_setD mset_map mset_eq_imp_distinct_iff)

lemma total_size_mset: "mset es' = mset es \<Longrightarrow> total_size es' = total_size es"
  unfolding total_size_def by (metis mset_map sum_mset_sum_list)

section \<open>Eviction\<close>

text \<open>The reference: which entries of a listing are evicted when \<open>held\<close> bytes are held.\<close>

fun evicted :: "int \<Rightarrow> string \<Rightarrow> int \<Rightarrow> CacheEntry list \<Rightarrow> CacheEntry list" where
  "evicted capacity protected held [] = []"
| "evicted capacity protected held (e # es) =
    (if held \<le> capacity then []
     else if ce_Pinned e \<or> ce_Key e = protected then evicted capacity protected held es
     else e # evicted capacity protected (held - ce_Size e) es)"

definition evictable :: "string \<Rightarrow> CacheEntry \<Rightarrow> bool" where
  "evictable protected e = (\<not> ce_Pinned e \<and> ce_Key e \<noteq> protected)"

lemma evicted_prefix: "prefix (evicted m p t es) (filter (evictable p) es)"
  by (induction m p t es rule: evicted.induct) (auto simp: evictable_def)

lemma evicted_enough:
  "t - total_size (evicted m p t es) \<le> m \<or> evicted m p t es = filter (evictable p) es"
  by (induction m p t es rule: evicted.induct) (auto simp: evictable_def)

lemma evicted_subset: "set (evicted m p t es) \<subseteq> {e \<in> set es. evictable p e}"
  using set_mono_prefix [OF evicted_prefix [of m p t es]] by auto

lemma total_size_remove:
  assumes "distinct (map ce_Key es)" "set ev \<subseteq> set es" "distinct ev"
  shows "total_size (filter (\<lambda>e. ce_Key e \<notin> ce_Key ` set ev) es) = total_size es - total_size ev"
proof -
  have inj: "inj_on ce_Key (set es)" and d: "distinct es" using assms(1) by (auto simp: distinct_map)
  have "set (filter (\<lambda>e. ce_Key e \<notin> ce_Key ` set ev) es) = set es - set ev"
    using inj assms(2) by (auto dest: inj_onD)
  then have "total_size (filter (\<lambda>e. ce_Key e \<notin> ce_Key ` set ev) es) = sum ce_Size (set es - set ev)"
    using d by (simp add: total_size_def sum_list_distinct_conv_sum_set)
  also have "\<dots> = sum ce_Size (set es) - sum ce_Size (set ev)"
    using assms(2) by (intro sum_diff) auto
  finally show ?thesis using d assms(3) by (simp add: total_size_def sum_list_distinct_conv_sum_set)
qed

lemma evicted_needed: "evicted m p t es = ev @ [e] \<Longrightarrow> m < t - total_size ev"
proof (induction m p t es arbitrary: ev rule: evicted.induct)
  case (2 m p t e' es)
  then show ?case by (cases ev) (auto split: if_splits)
qed simp

text \<open>All three at once: the evicted entries are the first \<open>n\<close> evictable ones, where \<open>n\<close> gets below the
  capacity or is all of them, and the last eviction was needed.\<close>

lemma evicted_spec:
  obtains n where "evicted m p t es = take n (filter (evictable p) es)" "n \<le> length (filter (evictable p) es)"
    "t - total_size (take n (filter (evictable p) es)) \<le> m \<or> n = length (filter (evictable p) es)"
    "0 < n \<Longrightarrow> m < t - total_size (take (n - 1) (filter (evictable p) es))"
proof -
  let ?c = "filter (evictable p) es" and ?ev = "evicted m p t es"
  define n where "n = length ?ev"
  have ev: "?ev = take n ?c" and n: "n \<le> length ?c"
    using evicted_prefix [of m p t es] by (auto simp: n_def prefix_def)
  show thesis
  proof (rule that [OF ev n])
    show "t - total_size (take n ?c) \<le> m \<or> n = length ?c"
      using evicted_enough [of t m p es] ev by (metis n_def)
    assume "0 < n"
    then have "?ev = take (n - 1) ?c @ [?c ! (n - 1)]"
      using ev n take_Suc_conv_app_nth [of "n - 1" ?c] by simp
    then show "m < t - total_size (take (n - 1) ?c)" by (rule evicted_needed)
  qed
qed

section \<open>The cache over any stores\<close>

locale media_cache =
  cache_metadata "mc_metadata c" entries listing + blob_store "mc_blobs c" file_of contents
  for c :: "'s MediaCache" and entries :: "'s \<Rightarrow> CacheEntry list" and listing :: "CacheEntry list \<Rightarrow> CacheEntry list"
    and file_of :: "string \<Rightarrow> string option" and contents :: "'s \<Rightarrow> string \<rightharpoonup> string" +
  assumes blob_Open_entries: "blob_Open (mc_blobs c) k s = (ro, s') \<Longrightarrow> entries s' = entries s"
    and blob_Put_entries: "blob_Put (mc_blobs c) k src s = (rp, s') \<Longrightarrow> entries s' = entries s"
    and blob_Delete_entries: "blob_Delete (mc_blobs c) k s = (rp, s') \<Longrightarrow> entries s' = entries s"
    and CacheEntry_contents: "cm_CacheEntry (mc_metadata c) k s = (r, s') \<Longrightarrow> contents s' = contents s"
    and CacheEntries_contents: "cm_CacheEntries (mc_metadata c) s = (rs, s') \<Longrightarrow> contents s' = contents s"
    and Save_contents: "cm_SaveCacheEntry (mc_metadata c) e s = (rp, s') \<Longrightarrow> contents s' = contents s"
    and Delete_contents: "cm_DeleteCacheEntry (mc_metadata c) k s = (rp, s') \<Longrightarrow> contents s' = contents s"
    and now_frame: "mc_now c s = (t, s') \<Longrightarrow> entries s' = entries s \<and> contents s' = contents s"
begin

text \<open>Removing a key removes its entry, or fails and keeps every entry; only its file can go.\<close>

lemma removeLocked_ok:
  assumes "removeLocked c k s = (Inr u, s')"
  shows "entries s' = filter (\<lambda>e. ce_Key e \<noteq> k) (entries s)"
    "\<exists>f. file_of (mediaCacheBlobKey k) = Some f \<and> contents s' = (contents s)(f := None)"
proof -
  from assms obtain r s1 where d: "blob_Delete (mc_blobs c) (mediaCacheBlobKey k) s = (r, s1)"
    and m: "cm_DeleteCacheEntry (mc_metadata c) k s1 = (Inr u, s')"
    and nf: "\<forall>err. r = Inl err \<longrightarrow> errors_Is err ErrNotFound"
    by (auto simp: removeLocked_def tryE_def split: prod.splits sum.splits if_splits)
  from blob_Delete_entries [OF d] Delete_entry_ok [OF m]
  show "entries s' = filter (\<lambda>e. ce_Key e \<noteq> k) (entries s)" by simp
  have "\<exists>f. file_of (mediaCacheBlobKey k) = Some f \<and> contents s1 = (contents s)(f := None)"
  proof (cases r)
    case (Inl err)
    with d nf Delete_missing Delete_err show ?thesis by (metis fun_upd_triv)
  next
    case (Inr v)
    with d Delete_ok show ?thesis by blast
  qed
  then show "\<exists>f. file_of (mediaCacheBlobKey k) = Some f \<and> contents s' = (contents s)(f := None)"
    using Delete_contents [OF m] by simp
qed

lemma removeLocked_err: "removeLocked c k s = (Inl err, s') \<Longrightarrow> entries s' = entries s"
  by (auto simp: removeLocked_def tryE_def wrapE_Inl_iff split: prod.splits sum.splits if_splits
      dest!: blob_Delete_entries Delete_entry_err)

lemma in_i64_diff: "0 < t \<Longrightarrow> in_i64 t \<Longrightarrow> 0 \<le> x \<Longrightarrow> in_i64 x \<Longrightarrow> in_i64 (t - x)"
  by (auto simp: in_i64_def)

text \<open>The loop evicts what the reference says.\<close>

lemma prune_loop_ok:
  assumes "prune_loop c p t es s = (Inr r, s')" "in_i64 t" "\<forall>e \<in> set es. 0 \<le> ce_Size e \<and> in_i64 (ce_Size e)"
    and capacity: "0 < mc_maxBytes c"
  shows "entries s' = filter (\<lambda>e. ce_Key e \<notin> ce_Key ` set (evicted (mc_maxBytes c) p t es)) (entries s)
    \<and> r = t - total_size (evicted (mc_maxBytes c) p t es)
    \<and> (\<forall>f. (\<forall>e \<in> set (evicted (mc_maxBytes c) p t es). file_of (mediaCacheBlobKey (ce_Key e)) \<noteq> Some f)
        \<longrightarrow> contents s' f = contents s f)"
  using assms(1-3)
proof (induction es arbitrary: t s)
  case Nil
  then show ?case by simp
next
  case (Cons e es)
  show ?case
  proof (cases "t \<le> mc_maxBytes c \<or> ce_Pinned e \<or> ce_Key e = p")
    case True
    then show ?thesis using Cons by auto
  next
    case False
    with Cons.prems(1) obtain u s1 where rm: "removeLocked c (ce_Key e) s = (Inr u, s1)"
      and rest: "prune_loop c p (i64 (t - ce_Size e)) es s1 = (Inr r, s')"
      by auto
    have t: "in_i64 (t - ce_Size e)" using False capacity Cons.prems(2,3) by (intro in_i64_diff) auto
    then have i: "i64 (t - ce_Size e) = t - ce_Size e" by (rule i64_id)
    note IH = Cons.IH [OF rest [unfolded i] t]
    show ?thesis
      using IH Cons.prems(3) removeLocked_ok [OF rm] False by (auto intro!: filter_cong)
  qed
qed

text \<open>Whatever fails on the way, pinned and protected entries stay and nothing is added.\<close>

lemma prune_loop_keeps:
  assumes "prune_loop c p t es s = (r, s')" "distinct (map ce_Key (entries s))"
    "\<forall>e \<in> set es. e \<in> set (entries s)" "distinct (map ce_Key es)"
  shows "distinct (map ce_Key (entries s')) \<and> set (entries s') \<subseteq> set (entries s) \<and> (\<forall>e \<in> set (entries s). \<not> evictable p e \<longrightarrow> e \<in> set (entries s'))"
  using assms
proof (induction es arbitrary: t s)
  case Nil
  then show ?case by (auto simp: ret_def)
next
  case (Cons e es)
  show ?case
  proof (cases "t \<le> mc_maxBytes c \<or> \<not> evictable p e")
    case True
    then show ?thesis using Cons by (auto simp: ret_def evictable_def split: if_splits)
  next
    case False
    then have ev: "evictable p e" "\<not> t \<le> mc_maxBytes c" by auto
    show ?thesis
    proof (cases "removeLocked c (ce_Key e) s")
      case (Pair r1 s1)
      show ?thesis
      proof (cases r1)
        case (Inl err)
        then show ?thesis
          using Cons.prems(1,2) ev Pair removeLocked_err
          by (auto simp: bindE_def wrapE_def evictable_def)
      next
        case (Inr u)
        with Pair have rm: "entries s1 = filter (\<lambda>x. ce_Key x \<noteq> ce_Key e) (entries s)"
          using removeLocked_ok by blast
        have "prune_loop c p (i64 (t - ce_Size e)) es s1 = (r, s')"
          using Cons.prems(1) ev Pair Inr by (auto simp: bindE_def wrapE_def evictable_def)
        moreover have "distinct (map ce_Key (entries s1))" using Cons.prems(2) rm by simp
        moreover have "\<forall>x \<in> set es. x \<in> set (entries s1)"
          using Cons.prems(3,4) rm by (auto simp: image_iff)
        moreover have "distinct (map ce_Key es)" using Cons.prems(4) by simp
        ultimately have
          IH: "distinct (map ce_Key (entries s')) \<and> set (entries s') \<subseteq> set (entries s1) \<and> (\<forall>e \<in> set (entries s1). \<not> evictable p e \<longrightarrow> e \<in> set (entries s'))"
          by (rule Cons.IH)
        have "x \<in> set (entries s1)" if "x \<in> set (entries s)" "\<not> evictable p x" for x
        proof -
          have "x \<noteq> e" using that ev by auto
          then have "ce_Key x \<noteq> ce_Key e"
            using Cons.prems(2,3) that by (auto simp: distinct_map inj_on_def)
          then show ?thesis using that rm by simp
        qed
        with IH rm show ?thesis by auto
      qed
    qed
  qed
qed

text \<open>A successful pruning, against the reference.\<close>

lemma pruneLocked_ok:
  assumes "pruneLocked c p s = (Inr r, s')" "wf_cache (entries s)" "in_i64 (total_size (entries s))" "0 < mc_maxBytes c"
    and ev: "ev = evicted (mc_maxBytes c) p (total_size (entries s)) (listing (entries s))"
  shows "entries s' = filter (\<lambda>e. ce_Key e \<notin> ce_Key ` set ev) (entries s)"
    "r = total_size (entries s')" "total_size (entries s') = total_size (entries s) - total_size ev"
    "(\<And>e. e \<in> set ev \<Longrightarrow> file_of (mediaCacheBlobKey (ce_Key e)) \<noteq> Some f) \<Longrightarrow> contents s' f = contents s f"
proof -
  let ?L = "listing (entries s)"
  from assms(1) obtain s1 where l: "cm_CacheEntries (mc_metadata c) s = (Inr ?L, s1)"
    and loop: "prune_loop c p (foldl (\<lambda>held entry. i64 (held + ce_Size entry)) 0 ?L) ?L s1 = (Inr r, s')"
    by (auto simp: pruneLocked_def dest: CacheEntries_ok)
  have wfL: "wf_cache ?L" using assms(2) wf_cache_mset [OF mset_listing] by simp
  have "foldl (\<lambda>held entry. i64 (held + ce_Size entry)) 0 ?L = i64 (total_size ?L)"
    using foldl_i64_sum [of ce_Size 0 ?L] by (simp add: total_size_def)
  then have t: "foldl (\<lambda>held entry. i64 (held + ce_Size entry)) 0 ?L = total_size (entries s)"
    using assms(3) by (simp add: total_size_mset [OF mset_listing] i64_id)
  have wf: "\<forall>e \<in> set ?L. 0 \<le> ce_Size e \<and> in_i64 (ce_Size e)" using wfL by (simp add: wf_cache_def)
  note ok = prune_loop_ok [OF loop [unfolded t] assms(3) wf assms(4), folded ev]
  show e: "entries s' = filter (\<lambda>e. ce_Key e \<notin> ce_Key ` set ev) (entries s)"
    using ok CacheEntries_frame [OF l] by simp
  have sub: "set ev \<subseteq> set (entries s)"
    using evicted_subset [of "mc_maxBytes c" p "total_size (entries s)" ?L] mset_eq_setD [OF mset_listing [of "entries s"]] by (auto simp: ev)
  have "distinct ?L" using wfL by (simp add: wf_cache_def distinct_map)
  then have dist: "distinct ev" using evicted_prefix [of "mc_maxBytes c" p "total_size (entries s)" ?L]
    unfolding ev prefix_def by (metis distinct_append distinct_filter)
  show "total_size (entries s') = total_size (entries s) - total_size ev"
    unfolding e using assms(2) sub dist by (intro total_size_remove) (auto simp: wf_cache_def)
  then show "r = total_size (entries s')" using ok by simp
  show "contents s' f = contents s f"
    if "\<And>e. e \<in> set ev \<Longrightarrow> file_of (mediaCacheBlobKey (ce_Key e)) \<noteq> Some f"
    using ok that CacheEntries_contents [OF l] by simp
qed

lemma pruneLocked_keeps:
  assumes "pruneLocked c p s = (r, s')" "distinct (map ce_Key (entries s))"
  shows "distinct (map ce_Key (entries s')) \<and> set (entries s') \<subseteq> set (entries s) \<and> (\<forall>e \<in> set (entries s). \<not> evictable p e \<longrightarrow> e \<in> set (entries s'))"
proof (cases "cm_CacheEntries (mc_metadata c) s")
  case (Pair r1 s1)
  note fr = CacheEntries_frame [OF Pair]
  show ?thesis
  proof (cases r1)
    case (Inl err)
    with assms Pair fr show ?thesis by (auto simp: pruneLocked_def bindE_def wrapE_def)
  next
    case (Inr es)
    with Pair have es: "es = listing (entries s)" by (auto dest: CacheEntries_ok)
    then have "mset es = mset (entries s)" by (simp add: mset_listing)
    then have "set es = set (entries s)" "distinct (map ce_Key es)"
      using assms(2) by (metis mset_eq_setD, metis mset_map mset_eq_imp_distinct_iff)
    moreover have "prune_loop c p (foldl (\<lambda>held entry. i64 (held + ce_Size entry)) 0 es) es s1 = (r, s')"
      using assms(1) Pair Inr by (simp add: pruneLocked_def bindE_def wrapE_def)
    ultimately show ?thesis using prune_loop_keeps assms(2) fr by metis
  qed
qed

lemma find_key_filter:
  "k \<notin> K \<Longrightarrow> find_key key k (filter (\<lambda>e. key e \<notin> K) es) = find_key key k es"
  by (induction es) auto

lemma total_size_upsert:
  "\<forall>e \<in> set es. 0 \<le> ce_Size e \<Longrightarrow> total_size (upsert ce_Key e es) \<le> total_size es + ce_Size e"
  by (induction es) auto

lemma total_size_nonneg: "\<forall>e \<in> set es. 0 \<le> ce_Size e \<Longrightarrow> 0 \<le> total_size es"
  unfolding total_size_def by (rule sum_list_map_nonneg) simp

text \<open>An insertion that succeeds keeps the cache within its capacity, unless it is pinned; the
  entry and its bytes are there.\<close>

lemma cache_Put_ok:
  assumes "MediaCache_Put c k src pinned s = (Inr u, s')" "wf_cache (entries s)" "0 < mc_maxBytes c"
    "total_size (entries s) + int (length (rd_bytes src)) < 2 ^ 63"
  obtains now where "wf_cache (entries s')" "\<not> pinned \<Longrightarrow> total_size (entries s') \<le> mc_maxBytes c"
    "find_key ce_Key k (entries s') = Some \<lparr>ce_Key = k, ce_Size = int (length (rd_bytes src)),
       ce_LastAccessed = now, ce_Pinned = pinned\<rparr>"
    "(\<And>e. e \<in> set (entries s) \<Longrightarrow> ce_Key e \<noteq> k \<Longrightarrow>
       file_of (mediaCacheBlobKey (ce_Key e)) \<noteq> file_of (mediaCacheBlobKey k)) \<Longrightarrow>
       \<exists>f. file_of (mediaCacheBlobKey k) = Some f \<and> contents s' f = Some (rd_bytes src)"
proof -
  let ?n = "int (length (rd_bytes src))"
  have nn: "0 \<le> total_size (entries s)"
    using assms(2) by (intro total_size_nonneg) (simp add: wf_cache_def)
  then have i: "i64 ?n = ?n" "in_i64 ?n" using assms(4) by (simp_all add: i64_id in_i64_def)
  obtain s1 v where put: "blob_Put (mc_blobs c) (mediaCacheBlobKey k) src s = (Inr v, s1)"
    and rest: "readE (mc_now c) (\<lambda>now. let entry = \<lparr>ce_Key = k, ce_Size = i64 ?n, ce_LastAccessed = now, ce_Pinned = pinned\<rparr>
         in tryE (cm_SaveCacheEntry (mc_metadata c) entry) (\<lambda>saved. case saved of
              Inl err \<Rightarrow> tryE (blob_Delete (mc_blobs c) (mediaCacheBlobKey k)) (\<lambda>_. fail (Wrap ''record cached media'' err))
            | Inr _ \<Rightarrow> bindE (pruneLocked c k) (\<lambda>remaining.
                  if mc_maxBytes c < remaining \<and> \<not> pinned
                  then bindE (wrapE ''discard over-capacity media'' (removeLocked c k)) (\<lambda>_. fail (Wrap ''cache media'' ErrCacheCapacity))
                  else ret ()))) s1 = (Inr u, s')"
    using assms(1) unfolding MediaCache_Put_def by (auto simp only: if_action_iff fail_Inr_iff bindE_Inr_iff wrapE_Inr_iff)
  obtain now s2 where now: "mc_now c s1 = (now, s2)" by (cases "mc_now c s1")
  define e where "e = \<lparr>ce_Key = k, ce_Size = ?n, ce_LastAccessed = now, ce_Pinned = pinned\<rparr>"
  obtain saved s3 where sv: "cm_SaveCacheEntry (mc_metadata c) e s2 = (saved, s3)" by fastforce
  have "saved \<noteq> Inl err" for err
    using rest now sv by (auto simp: readE_def Let_def tryE_def i e_def split: prod.splits)
  then have saved: "saved = Inr ()" by (cases saved) auto
  then obtain r where pr: "pruneLocked c k s3 = (Inr r, s')" and r: "r \<le> mc_maxBytes c \<or> pinned"
    using rest now sv by (auto simp: readE_def Let_def tryE_def i e_def split: if_splits)
  have E3: "entries s3 = upsert ce_Key e (entries s)"
    using Save_ok [OF sv [unfolded saved]] now_frame [OF now] blob_Put_entries [OF put] by simp
  have wf3: "wf_cache (entries s3)"
    unfolding E3 using assms(2) i by (intro wf_cache_upsert) (simp_all add: e_def)
  have "total_size (entries s3) \<le> total_size (entries s) + ?n"
    unfolding E3 using total_size_upsert [of "entries s" e] assms(2) by (simp add: wf_cache_def e_def)
  moreover have "0 \<le> total_size (entries s3)" using wf3 by (intro total_size_nonneg) (simp add: wf_cache_def)
  ultimately have t3: "in_i64 (total_size (entries s3))" using assms(4) by (simp add: in_i64_def)
  define ev where "ev = evicted (mc_maxBytes c) k (total_size (entries s3)) (listing (entries s3))"
  note P = pruneLocked_ok [OF pr wf3 t3 assms(3) ev_def]
  have evk: "ce_Key x \<noteq> k \<and> x \<in> set (entries s3)" if "x \<in> set ev" for x
    using that evicted_subset [of "mc_maxBytes c" k "total_size (entries s3)" "listing (entries s3)"]
      mset_eq_setD [OF mset_listing [of "entries s3"]]
    by (auto simp: ev_def evictable_def)
  show thesis
  proof (rule that)
    show "wf_cache (entries s')" using P(1) wf3 by (simp add: wf_cache_filter)
    show "total_size (entries s') \<le> mc_maxBytes c" if "\<not> pinned" using P(2) r that by simp
    have "k \<notin> ce_Key ` set ev" using evk by auto
    then show "find_key ce_Key k (entries s') = Some \<lparr>ce_Key = k, ce_Size = ?n, ce_LastAccessed = now, ce_Pinned = pinned\<rparr>"
      using P(1) E3 by (simp add: find_key_filter e_def)
    assume diff: "\<And>e. e \<in> set (entries s) \<Longrightarrow> ce_Key e \<noteq> k \<Longrightarrow>
       file_of (mediaCacheBlobKey (ce_Key e)) \<noteq> file_of (mediaCacheBlobKey k)"
    obtain f where f: "file_of (mediaCacheBlobKey k) = Some f" "contents s1 f = Some (rd_bytes src)"
      using Put_ok [OF put] by auto
    have "contents s3 f = Some (rd_bytes src)"
      using f now_frame [OF now] Save_contents [OF sv] by simp
    moreover have "file_of (mediaCacheBlobKey (ce_Key x)) \<noteq> Some f" if "x \<in> set ev" for x
    proof -
      have "x \<in> set (entries s)" "ce_Key x \<noteq> k"
        using evk [OF that] set_upsert [of ce_Key e "entries s"] E3 by (auto simp: e_def)
      with diff f show ?thesis by metis
    qed
    ultimately show "\<exists>f. file_of (mediaCacheBlobKey k) = Some f \<and> contents s' f = Some (rd_bytes src)"
      using P(4) f by auto
  qed
qed

text \<open>Opening returns the bytes and touches the entry.\<close>

lemma cache_Open_ok:
  assumes "MediaCache_Open c k s = (Inr b, s')"
  obtains f e now where "find_key ce_Key k (entries s) = Some e" "file_of (mediaCacheBlobKey k) = Some f"
    "contents s f = Some b" "entries s' = upsert ce_Key (e\<lparr>ce_LastAccessed := now\<rparr>) (entries s)" "contents s' = contents s"
proof -
  from assms obtain e s1 where e: "cm_CacheEntry (mc_metadata c) k s = (Inr e, s1)"
    and rest: "tryE (blob_Open (mc_blobs c) (mediaCacheBlobKey k)) (\<lambda>opened. case opened of
        Inl err \<Rightarrow>
          if errors_Is err ErrNotFound
          then tryE (cm_DeleteCacheEntry (mc_metadata c) k) (\<lambda>_. fail ErrNotFound)
          else fail (Wrap ''open cached media'' err)
      | Inr content \<Rightarrow>
          readE (mc_now c) (\<lambda>now.
            bindE (wrapE ''touch cached media''
                    (cm_SaveCacheEntry (mc_metadata c) (e\<lparr>ce_LastAccessed := now\<rparr>)))
              (\<lambda>_. ret content))) s1 = (Inr b, s')"
    unfolding MediaCache_Open_def by (auto simp only: bindE_Inr_iff)
  obtain opened s2 where o: "blob_Open (mc_blobs c) (mediaCacheBlobKey k) s1 = (opened, s2)" by fastforce
  have "opened \<noteq> Inl err" for err
    using rest o by (auto simp: tryE_def split: if_splits prod.splits)
  then obtain b' where b': "opened = Inr b'" by (cases opened) auto
  obtain now s3 where now: "mc_now c s2 = (now, s3)" by (cases "mc_now c s2")
  from rest o b' now have b: "b' = b" and sv: "cm_SaveCacheEntry (mc_metadata c) (e\<lparr>ce_LastAccessed := now\<rparr>) s3 = (Inr (), s')"
    by (auto simp: tryE_def readE_def)
  note fr = CacheEntry_frame [OF e] CacheEntry_contents [OF e] blob_Open_entries [OF o] Open_frame [OF o]
    now_frame [OF now] Save_contents [OF sv]
  from Open_ok [OF o [unfolded b']] b fr(2) obtain f where
    "file_of (mediaCacheBlobKey k) = Some f" "contents s f = Some b" by auto
  with that [OF CacheEntry_ok [OF e]] Save_ok [OF sv] fr show thesis by simp
qed

text \<open>No operation on another key removes or changes a pinned entry, whatever fails.\<close>

abbreviation holds_entry :: "CacheEntry \<Rightarrow> 's \<Rightarrow> bool" where
  "holds_entry e s \<equiv> distinct (map ce_Key (entries s)) \<and> e \<in> set (entries s)"

lemma upsert_keeps: "e \<in> set rows \<Longrightarrow> key e \<noteq> key r \<Longrightarrow> e \<in> set (upsert key r rows)"
  by (induction rows) auto

lemma now_holds: "holds_entry e s \<Longrightarrow> holds_entry e (snd (mc_now c s))"
  by (cases "mc_now c s") (auto dest: now_frame)

lemma ports_hold [preserving]:
  "preserves (holds_entry e) (blob_Open (mc_blobs c) bk)"
  "preserves (holds_entry e) (blob_Put (mc_blobs c) bk src)"
  "preserves (holds_entry e) (blob_Delete (mc_blobs c) bk)"
  "preserves (holds_entry e) (cm_CacheEntry (mc_metadata c) k)"
  by (rule preservesI, auto dest: blob_Open_entries blob_Put_entries blob_Delete_entries CacheEntry_frame)+

lemma Save_holds [preserving]:
  "ce_Key x \<noteq> ce_Key e \<Longrightarrow> preserves (holds_entry e) (cm_SaveCacheEntry (mc_metadata c) x)"
proof (rule preservesI)
  fix s r s' assume "ce_Key x \<noteq> ce_Key e" "holds_entry e s" "cm_SaveCacheEntry (mc_metadata c) x s = (r, s')"
  then show "holds_entry e s'"
    by (cases r) (auto dest!: Save_err Save_ok intro!: upsert_keeps)
qed

lemma Delete_holds [preserving]:
  "k \<noteq> ce_Key e \<Longrightarrow> preserves (holds_entry e) (cm_DeleteCacheEntry (mc_metadata c) k)"
proof (rule preservesI)
  fix s r s' assume "k \<noteq> ce_Key e" "holds_entry e s" "cm_DeleteCacheEntry (mc_metadata c) k s = (r, s')"
  then show "holds_entry e s'"
    by (cases r) (auto dest: Delete_entry_err Delete_entry_ok)
qed

lemma removeLocked_holds [preserving]: "k \<noteq> ce_Key e \<Longrightarrow> preserves (holds_entry e) (removeLocked c k)"
  unfolding removeLocked_def by (intro preserving)

lemma pruneLocked_holds [preserving]:
  assumes "ce_Pinned e"
  shows "preserves (holds_entry e) (pruneLocked c p)"
proof (rule preservesI)
  fix s r s' assume h: "holds_entry e s" and p: "pruneLocked c p s = (r, s')"
  from pruneLocked_keeps [OF p] h assms have "e \<in> set (entries s')" by (auto simp: evictable_def)
  moreover have "distinct (map ce_Key (entries s'))"
    using pruneLocked_keeps [OF p] h by blast
  ultimately show "holds_entry e s'" by simp
qed

lemma pinned_entry_kept:
  assumes "ce_Pinned e" "k \<noteq> ce_Key e"
  shows "preserves (holds_entry e) (MediaCache_Put c k src b)"
    "preserves (holds_entry e) (MediaCache_Open c k)"
    "preserves (holds_entry e) (MediaCache_SetPinned c k b)"
    "preserves (holds_entry e) (MediaCache_Remove c k)"
    "preserves (holds_entry e) (MediaCache_Prune c)"
proof -
  note h = assms(2) [symmetric]
  show "preserves (holds_entry e) (MediaCache_Put c k src b)"
    unfolding MediaCache_Put_def using assms by (intro preserving now_holds) auto
  show "preserves (holds_entry e) (MediaCache_Remove c k)"
    unfolding MediaCache_Remove_def using assms by (intro preserving) auto
  show "preserves (holds_entry e) (MediaCache_Prune c)"
    unfolding MediaCache_Prune_def using assms by (intro preserving) auto
  have key: "ce_Key x = k" if "cm_CacheEntry (mc_metadata c) k s = (Inr x, s')" for x s s'
    using CacheEntry_ok [OF that] by (rule find_key_SomeD [THEN conjunct2])
  have bind: "preserves (holds_entry e) (bindE (cm_CacheEntry (mc_metadata c) k) g)"
    if "\<And>x. ce_Key x = k \<Longrightarrow> preserves (holds_entry e) (g x)" for g :: "CacheEntry \<Rightarrow> ('s, 'b) action"
  proof (rule preservesI)
    fix s r s' assume s: "holds_entry e s" and run: "bindE (cm_CacheEntry (mc_metadata c) k) g s = (r, s')"
    obtain r1 s1 where q: "cm_CacheEntry (mc_metadata c) k s = (r1, s1)" by fastforce
    have s1: "holds_entry e s1" using preservesD [OF ports_hold(4) s q] .
    show "holds_entry e s'"
    proof (cases r1)
      case (Inl err)
      then show ?thesis using run q s1 by (auto simp: bindE_def)
    next
      case (Inr x)
      then have "g x s1 = (r, s')" using run q by (simp add: bindE_def)
      with s1 show ?thesis using preservesD [OF that] key q Inr by metis
    qed
  qed
  show "preserves (holds_entry e) (MediaCache_SetPinned c k b)"
    unfolding MediaCache_SetPinned_def using assms by (intro bind preserving) auto
  show "preserves (holds_entry e) (MediaCache_Open c k)"
    unfolding MediaCache_Open_def using assms by (intro bind preserving now_holds) auto
qed

end

section \<open>The SQL store and the file system\<close>

definition sqlite_MediaCache :: "string \<Rightarrow> int \<Rightarrow> world MediaCache" where
  "sqlite_MediaCache root maxBytes = \<lparr>mc_blobs = filesystem_Store root,
     mc_metadata = sqlite_CacheMetadataStore, mc_maxBytes = maxBytes, mc_now = time_Now\<rparr>"

lemma sqlite_cache_runs:
  "sqlite_CacheEntry k w = (r, w') \<Longrightarrow> w' = spend_fault w \<and> (\<forall>e. r = Inr e \<longrightarrow> find_key ce_Key k (w_cache_entries w) = Some e)"
  "sqlite_CacheEntries w = (rs, w') \<Longrightarrow> w' = spend_fault w \<and> (\<forall>es. rs = Inr es \<longrightarrow> es = SliceStable cache_row_lt (w_cache_entries w))"
  "sqlite_SaveCacheEntry e w = (ru, w') \<Longrightarrow> w' = (case ru of Inl _ \<Rightarrow> spend_fault w
     | Inr _ \<Rightarrow> (spend_fault w)\<lparr>w_cache_entries := upsert ce_Key e (w_cache_entries w)\<rparr>) \<and> (\<forall>u. ru = Inr u \<longrightarrow> 0 \<le> ce_Size e)"
  "sqlite_DeleteCacheEntry k w = (ru, w') \<Longrightarrow> w' = (case ru of Inl _ \<Rightarrow> spend_fault w
     | Inr _ \<Rightarrow> (spend_fault w)\<lparr>w_cache_entries := filter (\<lambda>e. ce_Key e \<noteq> k) (w_cache_entries w)\<rparr>)"
  by (auto simp: sqlite_CacheEntry_def sqlite_CacheEntries_def sqlite_SaveCacheEntry_def sqlite_DeleteCacheEntry_def
      bindE_def wrapE_def ret_def fail_def db_query_def db_exec_def db_stmt_def
      split: if_splits option.splits)

lemma tables_cache_entries: "tables_of w' = tables_of w \<Longrightarrow> w_cache_entries w' = w_cache_entries w"
  by (drule arg_cong [of _ _ w_cache_entries]) (simp add: tables_of_def)

lemma blob_contents_cong: "w_blobs w' = w_blobs w \<Longrightarrow> blob_contents w' = blob_contents w"
  by (simp add: blob_contents_def fun_eq_iff)

interpretation cache: media_cache "sqlite_MediaCache root maxBytes" w_cache_entries "SliceStable cache_row_lt"
  "blob_file root" blob_contents for root maxBytes
proof -
  let ?c = "sqlite_MediaCache root maxBytes"
  have "cache_metadata (mc_metadata ?c) w_cache_entries (SliceStable cache_row_lt)"
    by unfold_locales
      (auto simp: sqlite_MediaCache_def sqlite_CacheMetadataStore_def dest!: sqlite_cache_runs)
  moreover have "blob_store (mc_blobs ?c) (blob_file root) blob_contents"
    by (simp add: sqlite_MediaCache_def fs.blob_store_axioms)
  moreover have "media_cache_axioms ?c w_cache_entries blob_contents"
  proof
    fix w w' :: world and k src e and ro :: "string result" and rp :: "unit result"
    show "blob_Open (mc_blobs ?c) k w = (ro, w') \<Longrightarrow> w_cache_entries w' = w_cache_entries w"
      "blob_Put (mc_blobs ?c) k src w = (rp, w') \<Longrightarrow> w_cache_entries w' = w_cache_entries w"
      "blob_Delete (mc_blobs ?c) k w = (rp, w') \<Longrightarrow> w_cache_entries w' = w_cache_entries w"
      using preservesD [OF blob_store_tables(1) refl] preservesD [OF blob_store_tables(2) refl]
        preservesD [OF blob_store_tables(3) refl]
      by (auto simp: sqlite_MediaCache_def filesystem_Store_def intro: tables_cache_entries)
  qed (auto simp: sqlite_MediaCache_def sqlite_CacheMetadataStore_def time_Now_def
      intro!: blob_contents_cong dest!: sqlite_cache_runs split: sum.splits)
  ultimately show "media_cache ?c w_cache_entries (SliceStable cache_row_lt) (blob_file root) blob_contents"
    by (rule media_cache.intro)
qed

section \<open>Properties\<close>

text \<open>
  C7: a successful pruning evicts the entries that are neither pinned nor have the empty key in the
  order of the listing, stops as soon as the cache fits its capacity and evicts all of them only
  when it never fits; the last eviction was needed. (Sums of sizes stay below \<open>2 ^ 63\<close>.)
\<close>

theorem MediaCache_Prune_spec:
  assumes "MediaCache_Prune (sqlite_MediaCache root maxBytes) w = (Inr u, w')"
    "wf_cache (w_cache_entries w)" "total_size (w_cache_entries w) < 2 ^ 63" "0 < maxBytes"
  shows "let candidates = filter (evictable '''') (SliceStable cache_row_lt (w_cache_entries w)) in
    \<exists>n. set (w_cache_entries w') = set (w_cache_entries w) - set (take n candidates)
    \<and> total_size (w_cache_entries w') = total_size (w_cache_entries w) - total_size (take n candidates)
    \<and> (total_size (w_cache_entries w') \<le> maxBytes \<or> n = length candidates)
    \<and> (0 < n \<longrightarrow> maxBytes < total_size (w_cache_entries w) - total_size (take (n - 1) candidates))"
proof -
  let ?c = "sqlite_MediaCache root maxBytes" and ?E = "w_cache_entries w"
  define candidates where "candidates = filter (evictable '''') (SliceStable cache_row_lt ?E)"
  let ?ev = "evicted maxBytes '''' (total_size ?E) (SliceStable cache_row_lt ?E)"
  from assms(1) obtain r where p: "pruneLocked ?c '''' w = (Inr r, w')"
    by (auto simp: MediaCache_Prune_def)
  have m: "mc_maxBytes ?c = maxBytes" by (simp add: sqlite_MediaCache_def)
  have "0 \<le> total_size ?E" using assms(2) by (intro cache.total_size_nonneg) (simp add: wf_cache_def)
  then have t: "in_i64 (total_size ?E)" using assms(3) by (simp add: in_i64_def)
  obtain n where n: "?ev = take n candidates"
    "total_size ?E - total_size (take n candidates) \<le> maxBytes \<or> n = length candidates"
    "0 < n \<Longrightarrow> maxBytes < total_size ?E - total_size (take (n - 1) candidates)"
    unfolding candidates_def
    by (rule evicted_spec [of maxBytes "''''" "total_size ?E" "SliceStable cache_row_lt ?E"]) blast
  note P = cache.pruneLocked_ok [OF p assms(2) t _ refl, unfolded m, OF assms(4)]
  have inj: "inj_on ce_Key (set ?E)" using assms(2) by (simp add: wf_cache_def distinct_map)
  have sub: "set ?ev \<subseteq> set ?E" using evicted_subset [of maxBytes "''''" "total_size ?E" "SliceStable cache_row_lt ?E"] by auto
  have "set (w_cache_entries w') = set ?E - set ?ev"
    using P(1) inj sub by (auto dest: inj_onD)
  then show ?thesis using n P(3) unfolding candidates_def [symmetric] Let_def by (intro exI [of _ n]) auto
qed

text \<open>
  C8: whatever happens in the database or the file system, a pinned entry is neither removed nor
  changed by an operation on another key or by pruning.
\<close>

theorem MediaCache_pinned_kept:
  assumes "e \<in> set (w_cache_entries w)" "ce_Pinned e" "ce_Key e \<noteq> k" "wf_cache (w_cache_entries w)"
    and op: "op \<in> {\<lambda>w. snd (MediaCache_Put (sqlite_MediaCache root m) k src b w),
                  \<lambda>w. snd (MediaCache_Open (sqlite_MediaCache root m) k w),
                  \<lambda>w. snd (MediaCache_SetPinned (sqlite_MediaCache root m) k b w),
                  \<lambda>w. snd (MediaCache_Remove (sqlite_MediaCache root m) k w),
                  \<lambda>w. snd (MediaCache_Prune (sqlite_MediaCache root m) w)}"
  shows "e \<in> set (w_cache_entries (op w))"
proof -
  have h: "distinct (map ce_Key (w_cache_entries w)) \<and> e \<in> set (w_cache_entries w)"
    using assms by (simp add: wf_cache_def)
  note k = cache.pinned_entry_kept [OF assms(2) assms(3) [symmetric], unfolded preserves_def]
  show ?thesis using op k h by fastforce
qed

definition plain_key :: "string \<Rightarrow> bool" where
  "plain_key k = (validCacheKey k \<and> k \<noteq> ''.'' \<and> k \<noteq> ''..'')"

lemma media_path:
  assumes "clean_root root" "plain_key k"
  shows "blob_file root (mediaCacheBlobKey k) = Some (slash # strings_Join (path_elements root @ [''media'', k]) ''/'')"
proof -
  have pk: "plain_element k"
    using assms(2) by (auto simp: plain_key_def plain_element_def validCacheKey_def ContainsAny_def list_ex_iff)
  have split: "split_on slash (mediaCacheBlobKey k) = [''media'', k]"
    using pk split_on_sep [of slash "''media''" k] by (simp add: mediaCacheBlobKey_def plain_element_def)
  have abs: "\<not> IsAbs (mediaCacheBlobKey k)" by (simp add: IsAbs_def HasPrefix_def mediaCacheBlobKey_def)
  have el: "clean_elements False (split_on slash (mediaCacheBlobKey k)) = [''media'', k]"
    using pk by (simp add: split clean_elements_def) (simp add: clean_push_def)
  then have clean: "Clean (mediaCacheBlobKey k) = ''media/'' @ k"
    using abs by (simp add: Clean_def)
  then have ok: "\<not> (Clean (mediaCacheBlobKey k) = ''..'' \<or> HasPrefix (Clean (mediaCacheBlobKey k)) ''../'')"
    by (simp add: HasPrefix_def)
  from accepted_path(1) [OF assms(1) abs ok refl] el
  show ?thesis using abs ok by (simp add: blob_file_def Store_path_def Let_def mediaCacheBlobKey_def)
qed

lemma media_path_inj:
  assumes "clean_root root" "plain_key k" "plain_key k'"
    "blob_file root (mediaCacheBlobKey k) = blob_file root (mediaCacheBlobKey k')"
  shows "k = k'"
proof -
  have pe: "list_all plain_element (path_elements root @ [''media'', x])" if "plain_key x" for x
    using that assms(1)
    by (auto simp: clean_root_def plain_key_def plain_element_def validCacheKey_def ContainsAny_def list_ex_iff)
  let ?p = "\<lambda>x. slash # strings_Join (path_elements root @ [''media'', x]) ''/''"
  have "?p k = ?p k'"
    using assms(4) unfolding media_path [OF assms(1,2)] media_path [OF assms(1,3)] by (rule option.inject [THEN iffD1])
  then have "path_elements (?p k) = path_elements (?p k')" by (rule arg_cong)
  then show ?thesis
    unfolding path_elements_Join [OF pe [OF assms(2)]] path_elements_Join [OF pe [OF assms(3)]] by simp
qed

text \<open>
  C9: a successful insertion of an unpinned key leaves the cache within its capacity and a successful
  insertion, pinned or not, leaves the entry in the table with the size of its bytes, the bytes
  in the store and the table well formed. (Keys other than \<open>.\<close> and \<open>..\<close>.)
\<close>

theorem MediaCache_Put_spec:
  assumes "MediaCache_Put (sqlite_MediaCache root maxBytes) k src pinned w = (Inr u, w')"
    "wf_cache (w_cache_entries w)" "0 < maxBytes" "clean_root root"
    "total_size (w_cache_entries w) + int (length (rd_bytes src)) < 2 ^ 63"
    "plain_key k" "\<forall>e \<in> set (w_cache_entries w). plain_key (ce_Key e)"
  shows "wf_cache (w_cache_entries w')
    \<and> (\<not> pinned \<longrightarrow> total_size (w_cache_entries w') \<le> maxBytes)
    \<and> (\<exists>now. find_key ce_Key k (w_cache_entries w') = Some \<lparr>ce_Key = k, ce_Size = int (length (rd_bytes src)),
           ce_LastAccessed = now, ce_Pinned = pinned\<rparr>)
    \<and> (\<exists>f. blob_file root (mediaCacheBlobKey k) = Some f \<and> blob_contents w' f = Some (rd_bytes src))"
proof -
  have m: "mc_maxBytes (sqlite_MediaCache root maxBytes) = maxBytes" by (simp add: sqlite_MediaCache_def)
  have diff: "blob_file root (mediaCacheBlobKey (ce_Key e)) \<noteq> blob_file root (mediaCacheBlobKey k)"
    if "e \<in> set (w_cache_entries w)" "ce_Key e \<noteq> k" for e
    using media_path_inj [OF assms(4)] assms(6,7) that by blast
  show ?thesis
    by (rule cache.cache_Put_ok [OF assms(1,2) _ assms(5), unfolded m, OF assms(3)]) (use diff in blast)
qed

lemma add_entry_fold:
  "\<forall>e \<in> set es. 0 \<le> ce_Size e \<Longrightarrow> 0 \<le> cs_Size st \<Longrightarrow> 0 \<le> cs_PinnedSize st \<Longrightarrow> cs_PinnedSize st \<le> cs_Size st \<Longrightarrow>
   cs_Size st + total_size es < 2 ^ 63 \<Longrightarrow>
   foldl add_entry st es = st\<lparr>cs_Size := cs_Size st + total_size es,
     cs_PinnedEntries := cs_PinnedEntries st + int (length (filter ce_Pinned es)),
     cs_PinnedSize := cs_PinnedSize st + total_size (filter ce_Pinned es)\<rparr>"
proof (induction es arbitrary: st)
  case Nil
  then show ?case by simp
next
  case (Cons e es)
  have nn: "0 \<le> total_size es" using Cons.prems(1) by (intro cache.total_size_nonneg) simp
  have i: "i64 (cs_Size st + ce_Size e) = cs_Size st + ce_Size e"
    "i64 (cs_PinnedSize st + ce_Size e) = cs_PinnedSize st + ce_Size e"
    using Cons.prems nn by (simp_all add: i64_id in_i64_def)
  define st' where "st' = add_entry st e"
  have st': "st' = st\<lparr>cs_Size := cs_Size st + ce_Size e,
      cs_PinnedEntries := cs_PinnedEntries st + (if ce_Pinned e then 1 else 0),
      cs_PinnedSize := cs_PinnedSize st + (if ce_Pinned e then ce_Size e else 0)\<rparr>"
    by (cases "ce_Pinned e") (simp_all add: st'_def add_entry_def Let_def i)
  have "foldl add_entry st' es = st'\<lparr>cs_Size := cs_Size st' + total_size es,
     cs_PinnedEntries := cs_PinnedEntries st' + int (length (filter ce_Pinned es)),
     cs_PinnedSize := cs_PinnedSize st' + total_size (filter ce_Pinned es)\<rparr>"
    by (rule Cons.IH) (use Cons.prems in \<open>simp_all add: st'\<close>)
  then show ?case by (simp add: st'_def [symmetric]) (simp add: st')
qed

text \<open>
  \<open>Stats\<close> reports the capacity, the number of entries and the total size, and those of the pinned
  entries. (Sums of sizes stay below \<open>2 ^ 63\<close>.)
\<close>

lemma MediaCache_Stats_spec:
  assumes "MediaCache_Stats (sqlite_MediaCache root maxBytes) w = (Inr stats, w')"
    "wf_cache (w_cache_entries w)" "total_size (w_cache_entries w) < 2 ^ 63"
  shows "stats = (let es = w_cache_entries w in
    \<lparr>cs_Capacity = maxBytes, cs_Entries = int (length es), cs_Size = total_size es,
     cs_PinnedEntries = int (length (filter ce_Pinned es)), cs_PinnedSize = total_size (filter ce_Pinned es),
     cs_Components = [\<lparr>cu_Name = ''media'', cu_Entries = int (length es), cu_PartialEntries = 0,
       cu_Size = total_size es\<rparr>]\<rparr>)"
proof -
  let ?c = "sqlite_MediaCache root maxBytes" and ?L = "SliceStable cache_row_lt (w_cache_entries w)"
  have L: "\<forall>e \<in> set ?L. 0 \<le> ce_Size e" "total_size ?L = total_size (w_cache_entries w)"
    using assms(2) total_size_mset [OF mset_SliceStable] by (simp_all add: wf_cache_def)
  have ms: "mset (filter ce_Pinned ?L) = mset (filter ce_Pinned (w_cache_entries w))"
    by (simp only: mset_filter mset_SliceStable)
  then have pin: "length (filter ce_Pinned ?L) = length (filter ce_Pinned (w_cache_entries w))"
    "total_size (filter ce_Pinned ?L) = total_size (filter ce_Pinned (w_cache_entries w))"
    by (metis size_mset, rule total_size_mset)
  define fin where "fin = (\<lambda>entries. let stats = foldl add_entry
            \<lparr>cs_Capacity = maxBytes, cs_Entries = int (length entries), cs_Size = 0,
             cs_PinnedEntries = 0, cs_PinnedSize = 0, cs_Components = []\<rparr> entries
      in stats\<lparr>cs_Components := cs_Components stats @
           [\<lparr>cu_Name = ''media'', cu_Entries = cs_Entries stats, cu_PartialEntries = 0, cu_Size = cs_Size stats\<rparr>]\<rparr>)"
  have "MediaCache_Stats ?c = bindE (cm_CacheEntries (mc_metadata ?c)) (\<lambda>es. ret (fin es))"
    by (simp add: MediaCache_Stats_def fin_def Let_def sqlite_MediaCache_def)
  then obtain es w1 where "cm_CacheEntries (mc_metadata ?c) w = (Inr es, w1)" and st: "stats = fin es"
    using assms(1) by auto
  then have es: "es = ?L" by (auto dest: cache.CacheEntries_ok)
  have "foldl add_entry \<lparr>cs_Capacity = maxBytes, cs_Entries = int (length ?L), cs_Size = 0,
      cs_PinnedEntries = 0, cs_PinnedSize = 0, cs_Components = []\<rparr> ?L
    = \<lparr>cs_Capacity = maxBytes, cs_Entries = int (length ?L), cs_Size = total_size ?L,
      cs_PinnedEntries = int (length (filter ce_Pinned ?L)), cs_PinnedSize = total_size (filter ce_Pinned ?L),
      cs_Components = []\<rparr>"
    using assms(3) by (subst add_entry_fold [OF L(1)]) (simp_all add: L)
  then show ?thesis by (simp add: st es fin_def Let_def L pin)
qed

text \<open>
  An entry whose bytes are gone is repaired on the next access: \<open>Open\<close> reports
  \<open>ErrNotFound\<close> and the entry is no longer in the table. (Without faults.)
\<close>

lemma MediaCache_Open_repairs:
  assumes "w_faults w = []" "find_key ce_Key k (w_cache_entries w) = Some e"
    "Store_path root (mediaCacheBlobKey k) = Inr p" "map_of (w_blobs w) p = None" "\<not> is_dir w p"
  shows "MediaCache_Open (sqlite_MediaCache root maxBytes) k w =
    (Inl ErrNotFound, w\<lparr>w_cache_entries := filter (\<lambda>x. ce_Key x \<noteq> k) (w_cache_entries w)\<rparr>)"
proof -
  have sf: "spend_fault w = w" "next_fault w = False"
    using assms(1) by (simp_all add: spend_fault_def next_fault_def)
  show ?thesis
    using assms sf by (simp add: MediaCache_Open_def sqlite_MediaCache_def sqlite_CacheMetadataStore_def
        sqlite_CacheEntry_def sqlite_DeleteCacheEntry_def db_query_def db_exec_def db_stmt_def bindE_def wrapE_def
        tryE_def ret_def fail_def filesystem_Store_def Store_Open_def liftR_def os_Open_def os_call_def)
qed

subsection \<open>Instances\<close>

definition cache_entry :: "string \<Rightarrow> int \<Rightarrow> time \<Rightarrow> bool \<Rightarrow> CacheEntry" where
  "cache_entry k n t p = \<lparr>ce_Key = k, ce_Size = n, ce_LastAccessed = unix_epoch + t, ce_Pinned = p\<rparr>"

definition cache_world :: world where
  "cache_world = empty_world\<lparr>w_cache_entries := [cache_entry ''old'' 6 (5 * second) False,
     cache_entry ''new'' 6 (5 * second + 500000000) False, cache_entry ''pin'' 3 second True]\<rparr>"

lemma epoch_times:
  "format_RFC3339Nano (unix_epoch + second) = ''1970-01-01T00:00:01Z''"
  "format_RFC3339Nano (unix_epoch + 5 * second) = ''1970-01-01T00:00:05Z''"
  "format_RFC3339Nano (unix_epoch + (5 * second + 500000000)) = ''1970-01-01T00:00:05.5Z''"
  by (simp_all add: format_RFC3339Nano_def format_seconds_def format_fraction_def pad_def civil_from_days_def
     Let_def unix_epoch_def second_def go_eval nat_Itoa.simps)

lemma cache_world_order:
  "cache_row_lt (cache_entry k n (5 * second + 500000000) p) (cache_entry k' n' (5 * second) p')"
  "\<not> cache_row_lt (cache_entry k' n' (5 * second) p') (cache_entry k n (5 * second + 500000000) p)"
  "cache_row_lt (cache_entry k n second p) (cache_entry k' n' (5 * second) p')"
  "cache_row_lt (cache_entry k n second p) (cache_entry k' n' (5 * second + 500000000) p')"
  unfolding cache_row_lt_def cache_entry_def CacheEntry.select_convs epoch_times Let_def by simp_all

lemma cache_world_listing:
  "SliceStable cache_row_lt (w_cache_entries cache_world) =
    [cache_entry ''pin'' 3 second True, cache_entry ''new'' 6 (5 * second + 500000000) False,
     cache_entry ''old'' 6 (5 * second) False]"
proof -
  have e: "w_cache_entries cache_world = [cache_entry ''old'' 6 (5 * second) False,
     cache_entry ''new'' 6 (5 * second + 500000000) False, cache_entry ''pin'' 3 second True]"
    by (simp add: cache_world_def)
  show ?thesis unfolding e SliceStable_def by (simp add: cache_world_order)
qed

lemma cache_world_ok:
  "wf_cache (w_cache_entries cache_world)" "total_size (w_cache_entries cache_world) = 15" "w_faults cache_world = []"
  by (simp_all add: wf_cache_def cache_world_def cache_entry_def in_i64_def empty_world_def)

lemma cache_root: "clean_root ''/c''"
  by (simp add: clean_root_def path_elements_def plain_element_def IsAbs_def HasPrefix_def)

lemma demo_path: "Store_path ''/c'' ''media/new'' = Inr ''/c/media/new''" "Store_path ''/c'' ''media/old'' = Inr ''/c/media/old''"
  by (simp_all add: Store_path_def IsAbs_def HasPrefix_def Clean_def clean_elements_def clean_push_def
        filepath_Join_def Let_def)

text \<open>A fault-free removal of a key whose bytes are gone removes the entry.\<close>

lemma removeLocked_run:
  assumes "w_faults w = []" "Store_path root (mediaCacheBlobKey k) = Inr p" "map_of (w_blobs w) p = None" "\<not> is_dir w p"
  shows "removeLocked (sqlite_MediaCache root m) k w =
    (Inr (), w\<lparr>w_cache_entries := filter (\<lambda>x. ce_Key x \<noteq> k) (w_cache_entries w)\<rparr>)"
proof -
  have sf: "spend_fault w = w" "next_fault w = False"
    using assms(1) by (simp_all add: spend_fault_def next_fault_def)
  show ?thesis
    using assms sf by (simp add: removeLocked_def sqlite_MediaCache_def sqlite_CacheMetadataStore_def
        sqlite_DeleteCacheEntry_def db_exec_def db_stmt_def bindE_def wrapE_def
        tryE_def ret_def fail_def filesystem_Store_def Store_Delete_def liftR_def os_Remove_def os_call_def)
qed

lemma cache_world_prune:
  "MediaCache_Prune (sqlite_MediaCache ''/c'' 10) cache_world = (Inr (), cache_world\<lparr>w_cache_entries :=
     [cache_entry ''old'' 6 (5 * second) False, cache_entry ''pin'' 3 second True]\<rparr>)"
proof -
  let ?c = "sqlite_MediaCache ''/c'' 10"
  have l: "cm_CacheEntries (mc_metadata ?c) cache_world
      = (Inr (SliceStable cache_row_lt (w_cache_entries cache_world)), cache_world)"
    by (simp add: sqlite_MediaCache_def sqlite_CacheMetadataStore_def sqlite_CacheEntries_def wrapE_def db_query_def
        db_stmt_def next_fault_def spend_fault_def cache_world_def empty_world_def)
  have rm: "removeLocked ?c ''new'' cache_world = (Inr (), cache_world\<lparr>w_cache_entries :=
      filter (\<lambda>x. ce_Key x \<noteq> ''new'') (w_cache_entries cache_world)\<rparr>)"
    by (rule removeLocked_run [of _ _ _ "''/c/media/new''"])
      (simp_all add: mediaCacheBlobKey_def demo_path is_dir_def cache_world_def empty_world_def)
  have m: "mc_maxBytes ?c = 10" by (simp add: sqlite_MediaCache_def)
  have f: "ce_Key (cache_entry k n t p) = k" "ce_Size (cache_entry k n t p) = n" "ce_Pinned (cache_entry k n t p) = p"
    for k n t p by (simp_all add: cache_entry_def)
  have i: "i64 3 = 3" "i64 9 = 9" "i64 15 = 15" by (simp_all add: i64_def)
  have e: "filter (\<lambda>x. ce_Key x \<noteq> ''new'') (w_cache_entries cache_world) =
      [cache_entry ''old'' 6 (5 * second) False, cache_entry ''pin'' 3 second True]"
    by (simp add: cache_world_def f)
  show ?thesis
    unfolding MediaCache_Prune_def pruneLocked_def bindE_def wrapE_def l cache_world_listing
    by (simp add: f i m ret_def bindE_def wrapE_def rm e)
qed

text \<open>
  the listing is by the text of the access times, and \<open>RFC3339Nano\<close> drops the zeros of the
  fraction: an entry used on the full second sorts after one used half a second later, and
  pruning evicts the one that was used last.
\<close>

theorem Prune_evicts_newer:
  "fst (MediaCache_Prune (sqlite_MediaCache ''/c'' 10) cache_world) = Inr ()
   \<and> w_cache_entries cache_world = [cache_entry ''old'' 6 (5 * second) False,
       cache_entry ''new'' 6 (5 * second + 500000000) False, cache_entry ''pin'' 3 second True]
   \<and> w_cache_entries (snd (MediaCache_Prune (sqlite_MediaCache ''/c'' 10) cache_world))
       = [cache_entry ''old'' 6 (5 * second) False, cache_entry ''pin'' 3 second True]
   \<and> ce_LastAccessed (cache_entry ''old'' 6 (5 * second) False)
       < ce_LastAccessed (cache_entry ''new'' 6 (5 * second + 500000000) False)"
  by (simp add: cache_world_prune) (simp add: cache_world_def cache_entry_def)

theorem MediaCache_Prune_spec_witness:
  "let candidates = filter (evictable '''') (SliceStable cache_row_lt (w_cache_entries cache_world));
       w' = snd (MediaCache_Prune (sqlite_MediaCache ''/c'' 10) cache_world) in
    \<exists>n. set (w_cache_entries w') = set (w_cache_entries cache_world) - set (take n candidates)
    \<and> (total_size (w_cache_entries w') \<le> 10 \<or> n = length candidates)"
proof -
  have "total_size (w_cache_entries cache_world) < 2 ^ 63" by (simp add: cache_world_ok)
  from MediaCache_Prune_spec [OF cache_world_prune cache_world_ok(1) this]
  show ?thesis unfolding Let_def cache_world_prune snd_conv by auto
qed

theorem MediaCache_pinned_kept_witness:
  "cache_entry ''pin'' 3 second True
    \<in> set (w_cache_entries (snd (MediaCache_Remove (sqlite_MediaCache ''/c'' 10) ''new'' cache_world)))"
proof (rule MediaCache_pinned_kept [where k = "''new''" and root = "''/c''" and m = 10
      and op = "\<lambda>w. snd (MediaCache_Remove (sqlite_MediaCache ''/c'' 10) ''new'' w)"])
  show "wf_cache (w_cache_entries cache_world)" by (rule cache_world_ok)
qed (simp_all add: cache_world_def cache_entry_def)

theorem MediaCache_Put_spec_witness:
  "\<exists>w'. MediaCache_Put (sqlite_MediaCache ''/c'' 10) ''new'' (mk_reader ''abc'') False empty_world = (Inr (), w')
    \<and> total_size (w_cache_entries w') \<le> 10"
proof -
  let ?c = "sqlite_MediaCache ''/c'' 10"
  have "\<exists>w'. MediaCache_Put ?c ''new'' (mk_reader ''abc'') False empty_world = (Inr (), w')"
    by (simp add: MediaCache_Put_def validCacheKey_def ContainsAny_def sqlite_MediaCache_def filesystem_Store_def
        Store_Put_def demo_path mediaCacheBlobKey_def mk_reader_def bindE_def wrapE_def tryE_def liftR_def ret_def fail_def
        os_call_def next_fault_def spend_fault_def empty_world_def readE_def time_Now_def is_dir_def Let_def
        sqlite_CacheMetadataStore_def sqlite_SaveCacheEntry_def db_stmt_def db_query_def i64_def pruneLocked_def
        sqlite_CacheEntries_def SliceStable_def)
  then obtain w' where w': "MediaCache_Put ?c ''new'' (mk_reader ''abc'') False empty_world = (Inr (), w')" by blast
  have "total_size (w_cache_entries w') \<le> 10"
    using MediaCache_Put_spec [OF w' _ _ cache_root]
    by (simp add: wf_cache_def empty_world_def mk_reader_def plain_key_def validCacheKey_def ContainsAny_def)
  with w' show ?thesis by blast
qed

end
