(* ===== verification/Transfers.thy ===== *)
theory Transfers
  imports Users MediaCache
begin

text \<open>
  Administration of transfers: the transfer limits (\<open>core/services/settings.go\<close> over
  \<open>adapters/storage/sqlite/settings.go\<close> and the torrent provider), the combined view of the caches
  (\<open>core/services/cache_status.go\<close>) and the registry of downloads (\<open>core/services/downloads.go\<close>).
\<close>

section \<open>Transfer limits\<close>

text \<open>A context is what its \<open>Err\<close> reports; \<open>context.WithoutCancel\<close> is never cancelled.\<close>

type_synonym 's ctx = "'s \<Rightarrow> go_error option"

definition WithoutCancel :: "'s ctx \<Rightarrow> 's ctx" where
  "WithoutCancel ctx = (\<lambda>_. None)"

record 's TransferLimitStore =
  tls_TransferLimits :: "('s, TransferLimits) action"
  tls_SaveTransferLimits :: "TransferLimits \<Rightarrow> ('s, unit) action"

record 's TransferLimitController =
  tlc_TransferLimits :: "'s ctx \<Rightarrow> ('s, TransferLimits) action"
  tlc_SetTransferLimits :: "'s ctx \<Rightarrow> TransferLimits \<Rightarrow> ('s, unit) action"

record 's TransferSettingsService =
  tss_store :: "'s TransferLimitStore"
  tss_controller :: "'s TransferLimitController"

definition TransferSettingsService_Initialize :: "'s TransferSettingsService \<Rightarrow> 's ctx \<Rightarrow> ('s, unit) action" where
  "TransferSettingsService_Initialize svc ctx =
    tryE (tls_TransferLimits (tss_store svc)) (\<lambda>r. case r of
        Inl err \<Rightarrow> if errors_Is err ErrNotFound then ret () else fail (Wrap ''load transfer settings'' err)
      | Inr limits \<Rightarrow> wrapE ''apply stored transfer settings'' (tlc_SetTransferLimits (tss_controller svc) ctx limits))"

definition TransferSettingsService_Limits ::
  "'s TransferSettingsService \<Rightarrow> 's ctx \<Rightarrow> User \<Rightarrow> ('s, TransferLimits) action" where
  "TransferSettingsService_Limits svc ctx actor =
    (if \<not> HasPermission actor PermissionSourcesManage then fail ErrForbidden
     else tlc_TransferLimits (tss_controller svc) ctx)"

definition TransferSettingsService_UpdateLimits ::
  "'s TransferSettingsService \<Rightarrow> 's ctx \<Rightarrow> User \<Rightarrow> TransferLimits \<Rightarrow> ('s, TransferLimits) action" where
  "TransferSettingsService_UpdateLimits svc ctx actor limits =
    (if \<not> HasPermission actor PermissionSourcesManage then fail ErrForbidden
     else if tl_UploadBytesPerSecond limits < 0 \<or> tl_DownloadBytesPerSecond limits < 0
     then fail (Wrap ''transfer limits must be non-negative'' ErrInvalidSettings)
     else bindE (wrapE ''read current transfer limits'' (tlc_TransferLimits (tss_controller svc) ctx)) (\<lambda>previous.
       bindE (wrapE ''apply transfer limits'' (tlc_SetTransferLimits (tss_controller svc) ctx limits)) (\<lambda>_.
         tryE (tls_SaveTransferLimits (tss_store svc) limits) (\<lambda>r. case r of
             Inl err \<Rightarrow> tryE (tlc_SetTransferLimits (tss_controller svc) (WithoutCancel ctx) previous)
                 (\<lambda>_. fail (Wrap ''save transfer limits'' err))
           | Inr _ \<Rightarrow> ret limits))))"

subsection \<open>The torrent provider as controller\<close>

text \<open>The limits of \<open>StreamingOptions\<close> and the two rate limiters: none before the client is started,
  then a rate, nothing standing for \<open>rate.Inf\<close>.\<close>

record torrent_limits =
  tl_UploadLimit :: int
  tl_DownloadLimit :: int
  tl_uploadLimiter :: "int option option"
  tl_downloadLimiter :: "int option option"

type_synonym transfer_world = "world \<times> torrent_limits"

definition on_world :: "('w, 'a) action \<Rightarrow> ('w \<times> 'x, 'a) action" where
  "on_world m s = (case m (fst s) of (r, w) \<Rightarrow> (r, (w, snd s)))"

definition setRateLimit :: "int option option \<Rightarrow> int \<Rightarrow> int option option" where
  "setRateLimit limiter bytesPerSecond =
    (case limiter of None \<Rightarrow> None | Some _ \<Rightarrow> Some (if bytesPerSecond > 0 then Some bytesPerSecond else None))"

definition torrent_TransferLimits :: "transfer_world ctx \<Rightarrow> (transfer_world, TransferLimits) action" where
  "torrent_TransferLimits ctx s =
    (case ctx s of Some err \<Rightarrow> (Inl err, s)
     | None \<Rightarrow> (Inr \<lparr>tl_UploadBytesPerSecond = tl_UploadLimit (snd s), tl_DownloadBytesPerSecond = tl_DownloadLimit (snd s)\<rparr>, s))"

definition torrent_SetTransferLimits :: "transfer_world ctx \<Rightarrow> TransferLimits \<Rightarrow> (transfer_world, unit) action" where
  "torrent_SetTransferLimits ctx limits s =
    (case ctx s of Some err \<Rightarrow> (Inl err, s)
     | None \<Rightarrow>
         if tl_UploadBytesPerSecond limits < 0 \<or> tl_DownloadBytesPerSecond limits < 0
         then (Inl (Errorf ''transfer limits must be non-negative''), s)
         else (Inr (), (fst s, (snd s)\<lparr>
           tl_UploadLimit := tl_UploadBytesPerSecond limits, tl_DownloadLimit := tl_DownloadBytesPerSecond limits,
           tl_uploadLimiter := setRateLimit (tl_uploadLimiter (snd s)) (tl_UploadBytesPerSecond limits),
           tl_downloadLimiter := setRateLimit (tl_downloadLimiter (snd s)) (tl_DownloadBytesPerSecond limits)\<rparr>)))"

definition torrent_controller :: "transfer_world TransferLimitController" where
  "torrent_controller = \<lparr>tlc_TransferLimits = torrent_TransferLimits, tlc_SetTransferLimits = torrent_SetTransferLimits\<rparr>"

subsection \<open>SQL store\<close>

definition sqlite_TransferLimits :: "(world, TransferLimits) action" where
  "sqlite_TransferLimits =
    bindE (wrapE ''read torrent transfer settings'' (db_query w_transfer_settings))
      (\<lambda>row. case row of None \<Rightarrow> fail ErrNotFound | Some limits \<Rightarrow> ret limits)"

text \<open>The schema checks that both limits are not negative; \<open>updated_at\<close> is never read.\<close>

definition sqlite_SaveTransferLimits :: "TransferLimits \<Rightarrow> (world, unit) action" where
  "sqlite_SaveTransferLimits limits =
    readE time_Now (\<lambda>_. wrapE ''save torrent transfer settings'' (db_stmt (\<lambda>w.
      if tl_UploadBytesPerSecond limits < 0 \<or> tl_DownloadBytesPerSecond limits < 0 then (Inl (ErrIO ''constraint''), w)
      else (Inr (), w\<lparr>w_transfer_settings := Some limits\<rparr>))))"

definition NewTransferSettingsService :: "transfer_world TransferSettingsService" where
  "NewTransferSettingsService =
    \<lparr>tss_store = \<lparr>tls_TransferLimits = on_world sqlite_TransferLimits,
                  tls_SaveTransferLimits = (\<lambda>limits. on_world (sqlite_SaveTransferLimits limits))\<rparr>,
     tss_controller = torrent_controller\<rparr>"

subsection \<open>What the service relies on\<close>

locale transfer_settings =
  fixes svc :: "'s TransferSettingsService"
    and live :: "'s \<Rightarrow> TransferLimits"
    and saved :: "'s \<Rightarrow> TransferLimits option"
  assumes read_law: "tlc_TransferLimits (tss_controller svc) ctx s = (r, s') \<Longrightarrow>
      live s' = live s \<and> saved s' = saved s \<and> (\<forall>l. r = Inr l \<longrightarrow> l = live s)"
    and set_err: "tlc_SetTransferLimits (tss_controller svc) ctx l s = (Inl e, s') \<Longrightarrow> live s' = live s \<and> saved s' = saved s"
    and set_ok: "tlc_SetTransferLimits (tss_controller svc) ctx l s = (Inr u, s') \<Longrightarrow> live s' = l \<and> saved s' = saved s"
    and set_background: "0 \<le> tl_UploadBytesPerSecond l \<Longrightarrow> 0 \<le> tl_DownloadBytesPerSecond l \<Longrightarrow>
      is_ok (fst (tlc_SetTransferLimits (tss_controller svc) (WithoutCancel ctx) l s))"
    and save_err: "tls_SaveTransferLimits (tss_store svc) l s = (Inl e, s') \<Longrightarrow> live s' = live s \<and> saved s' = saved s"
    and save_ok: "tls_SaveTransferLimits (tss_store svc) l s = (Inr u, s') \<Longrightarrow> live s' = live s \<and> saved s' = Some l"
begin

lemma UpdateLimits_wp:
  assumes prev: "0 \<le> tl_UploadBytesPerSecond (live s)" "0 \<le> tl_DownloadBytesPerSecond (live s)"
  shows "wp (TransferSettingsService_UpdateLimits svc ctx actor limits) (\<lambda>r s'. case r of
      Inl _ \<Rightarrow> live s' = live s \<and> saved s' = saved s
    | Inr l \<Rightarrow> l = limits \<and> live s' = limits \<and> saved s' = Some limits \<and> HasPermission actor PermissionSourcesManage
        \<and> 0 \<le> tl_UploadBytesPerSecond limits \<and> 0 \<le> tl_DownloadBytesPerSecond limits) s" (is "wp _ ?Q s")
proof (cases "\<not> HasPermission actor PermissionSourcesManage \<or> tl_UploadBytesPerSecond limits < 0 \<or> tl_DownloadBytesPerSecond limits < 0")
  case True
  then show ?thesis by (auto simp: TransferSettingsService_UpdateLimits_def wp_simps)
next
  case ok: False
  let ?ctl = "tss_controller svc"
  have restore: "wp (tryE (tlc_SetTransferLimits ?ctl (WithoutCancel ctx) (live s)) (\<lambda>_. fail e)) ?Q s3"
    if "saved s3 = saved s" for e s3
    using set_background [OF prev, of ctx s3] set_ok that
    by (cases "tlc_SetTransferLimits ?ctl (WithoutCancel ctx) (live s) s3"; cases "fst (tlc_SetTransferLimits ?ctl (WithoutCancel ctx) (live s) s3)")
      (auto simp: wp_def tryE_def fail_def)
  have tail: "wp (tryE (tls_SaveTransferLimits (tss_store svc) limits) (\<lambda>r. case r of
             Inl err \<Rightarrow> tryE (tlc_SetTransferLimits ?ctl (WithoutCancel ctx) (live s))
                 (\<lambda>_. fail (Wrap ''save transfer limits'' err))
           | Inr _ \<Rightarrow> ret limits)) ?Q s2"
    if "live s2 = limits" "saved s2 = saved s" for s2
  proof (rule wp_tryI [where R = "\<lambda>r s'. case r of Inl _ \<Rightarrow> saved s' = saved s | Inr _ \<Rightarrow> live s' = limits \<and> saved s' = Some limits"])
    show "wp (tls_SaveTransferLimits (tss_store svc) limits) (\<lambda>r s'. case r of Inl _ \<Rightarrow> saved s' = saved s
        | Inr _ \<Rightarrow> live s' = limits \<and> saved s' = Some limits) s2"
      using that save_err save_ok by (intro wpI) (auto split: sum.split)
  next
    fix r :: "unit result" and s' assume r: "case r of Inl _ \<Rightarrow> saved s' = saved s | Inr _ \<Rightarrow> live s' = limits \<and> saved s' = Some limits"
    then show "wp (case r of Inl err \<Rightarrow> tryE (tlc_SetTransferLimits ?ctl (WithoutCancel ctx) (live s))
                 (\<lambda>_. fail (Wrap ''save transfer limits'' err)) | Inr _ \<Rightarrow> ret limits) ?Q s'"
      using ok restore by (cases r) (auto simp: wp_ret not_less)
  qed
  have "wp (bindE (wrapE ''read current transfer limits'' (tlc_TransferLimits ?ctl ctx)) (\<lambda>previous.
       bindE (wrapE ''apply transfer limits'' (tlc_SetTransferLimits ?ctl ctx limits)) (\<lambda>_.
         tryE (tls_SaveTransferLimits (tss_store svc) limits) (\<lambda>r. case r of
             Inl err \<Rightarrow> tryE (tlc_SetTransferLimits ?ctl (WithoutCancel ctx) previous)
                 (\<lambda>_. fail (Wrap ''save transfer limits'' err))
           | Inr _ \<Rightarrow> ret limits)))) ?Q s"
  proof (rule wp_bind_wrapI [where R = "\<lambda>r s'. live s' = live s \<and> saved s' = saved s \<and> (\<forall>l. r = Inr l \<longrightarrow> l = live s)"])
    show "wp (tlc_TransferLimits ?ctl ctx) (\<lambda>r s'. live s' = live s \<and> saved s' = saved s \<and> (\<forall>l. r = Inr l \<longrightarrow> l = live s)) s"
      using read_law by (intro wpI) blast
  next
    fix previous s1 assume "live s1 = live s \<and> saved s1 = saved s \<and> (\<forall>l. Inr previous = (Inr l :: TransferLimits result) \<longrightarrow> l = live s)"
    then have s1: "live s1 = live s" "saved s1 = saved s" "previous = live s" by auto
    show "wp (bindE (wrapE ''apply transfer limits'' (tlc_SetTransferLimits ?ctl ctx limits)) (\<lambda>_.
         tryE (tls_SaveTransferLimits (tss_store svc) limits) (\<lambda>r. case r of
             Inl err \<Rightarrow> tryE (tlc_SetTransferLimits ?ctl (WithoutCancel ctx) previous)
                 (\<lambda>_. fail (Wrap ''save transfer limits'' err))
           | Inr _ \<Rightarrow> ret limits))) ?Q s1"
    proof (rule wp_bind_wrapI [where R = "\<lambda>r s'. saved s' = saved s \<and> live s' = (case r of Inl _ \<Rightarrow> live s | Inr _ \<Rightarrow> limits)"])
      show "wp (tlc_SetTransferLimits ?ctl ctx limits) (\<lambda>r s'. saved s' = saved s \<and> live s' = (case r of Inl _ \<Rightarrow> live s | Inr _ \<Rightarrow> limits)) s1"
        using s1 set_err set_ok by (intro wpI) (auto split: sum.split)
    qed (use s1 tail in auto)
  qed auto
  with ok show ?thesis by (simp add: TransferSettingsService_UpdateLimits_def)
qed

end

subsection \<open>The torrent provider and the SQL store provide it\<close>

definition live_limits :: "transfer_world \<Rightarrow> TransferLimits" where
  "live_limits s = \<lparr>tl_UploadBytesPerSecond = tl_UploadLimit (snd s), tl_DownloadBytesPerSecond = tl_DownloadLimit (snd s)\<rparr>"

definition saved_limits :: "transfer_world \<Rightarrow> TransferLimits option" where
  "saved_limits s = w_transfer_settings (fst s)"

lemma NewTransferSettingsService_sel [simp]:
  "tlc_TransferLimits (tss_controller NewTransferSettingsService) = torrent_TransferLimits"
  "tlc_SetTransferLimits (tss_controller NewTransferSettingsService) = torrent_SetTransferLimits"
  "tls_SaveTransferLimits (tss_store NewTransferSettingsService) l = on_world (sqlite_SaveTransferLimits l)"
  by (simp_all add: NewTransferSettingsService_def torrent_controller_def)

lemma sqlite_SaveTransferLimits_wp:
  "wp (sqlite_SaveTransferLimits l) (\<lambda>r w'. w_transfer_settings w' = (case r of Inl _ \<Rightarrow> w_transfer_settings w | Inr _ \<Rightarrow> Some l)) w"
  by (simp add: sqlite_SaveTransferLimits_def wp_simps time_Now_def)

interpretation torrent_transfers: transfer_settings NewTransferSettingsService live_limits saved_limits
proof (unfold_locales, unfold NewTransferSettingsService_sel)
  fix s s' :: transfer_world and l :: TransferLimits and ctx :: "transfer_world ctx"
  show "live_limits s' = live_limits s \<and> saved_limits s' = saved_limits s \<and> (\<forall>l. r = Inr l \<longrightarrow> l = live_limits s)"
    if "torrent_TransferLimits ctx s = (r, s')" for r
    using that by (auto simp: torrent_TransferLimits_def live_limits_def split: option.splits)
  show "live_limits s' = live_limits s \<and> saved_limits s' = saved_limits s"
    if "torrent_SetTransferLimits ctx l s = (Inl e, s')" for e
    using that by (auto simp: torrent_SetTransferLimits_def split: option.splits if_splits)
  show "live_limits s' = l \<and> saved_limits s' = saved_limits s"
    if "torrent_SetTransferLimits ctx l s = (Inr u, s')" for u
    using that by (auto simp: torrent_SetTransferLimits_def live_limits_def saved_limits_def split: option.splits if_splits)
  show "is_ok (fst (torrent_SetTransferLimits (WithoutCancel ctx) l s))"
    if "0 \<le> tl_UploadBytesPerSecond l" "0 \<le> tl_DownloadBytesPerSecond l"
    using that by (simp add: torrent_SetTransferLimits_def WithoutCancel_def)
  show "live_limits s' = live_limits s \<and> saved_limits s' = saved_limits s"
    if "on_world (sqlite_SaveTransferLimits l) s = (Inl e, s')" for e
    using that wpD [OF sqlite_SaveTransferLimits_wp]
    by (fastforce simp: on_world_def live_limits_def saved_limits_def split: prod.splits)
  show "live_limits s' = live_limits s \<and> saved_limits s' = Some l"
    if "on_world (sqlite_SaveTransferLimits l) s = (Inr u, s')" for u
    using that wpD [OF sqlite_SaveTransferLimits_wp]
    by (fastforce simp: on_world_def live_limits_def saved_limits_def split: prod.splits)
qed


definition demo_transfer_world :: transfer_world where
  "demo_transfer_world = (empty_world\<lparr>w_faults := [True]\<rparr>,
     \<lparr>tl_UploadLimit = 5, tl_DownloadLimit = 6, tl_uploadLimiter = Some (Some 5), tl_downloadLimiter = Some (Some 6)\<rparr>)"

definition demo_admin :: User where
  "demo_admin = \<lparr>user_Username = ''root'', user_Role = UserRoleAdmin, user_Permissions = [], user_CreatedAt = unix_epoch,
     user_UpdatedAt = unix_epoch\<rparr>"


section \<open>The combined cache\<close>

text \<open>A source of cache usage may also be able to evict (\<open>cacheEvictor\<close>).\<close>

record 's cacheUsageSource =
  cus_CacheUsage :: "('s, CacheUsage) action"
  cus_Evict :: "(int \<Rightarrow> ('s, int) action) option"

record 's CacheStatus =
  cst_primary :: "('s, CacheStats) action"
  cst_sources :: "'s cacheUsageSource list"

definition add_usage :: "CacheStats \<Rightarrow> CacheUsage \<Rightarrow> CacheStats" where
  "add_usage stats usage = stats\<lparr>cs_Size := i64 (cs_Size stats + cu_Size usage),
     cs_Entries := i64 (cs_Entries stats + cu_Entries usage),
     cs_Components := cs_Components stats @ [usage]\<rparr>"

fun add_usages :: "'s cacheUsageSource list \<Rightarrow> CacheStats \<Rightarrow> ('s, CacheStats) action" where
  "add_usages [] stats = ret stats"
| "add_usages (source # sources) stats =
    bindE (wrapE ''read provider cache usage'' (cus_CacheUsage source)) (\<lambda>usage.
      add_usages sources (add_usage stats usage))"

definition CacheStatus_Stats :: "'s CacheStatus \<Rightarrow> ('s, CacheStats) action" where
  "CacheStatus_Stats svc =
    bindE (wrapE ''read shared media cache usage'' (cst_primary svc)) (add_usages (cst_sources svc))"

fun evict_loop :: "'s cacheUsageSource list \<Rightarrow> int \<Rightarrow> ('s, unit) action" where
  "evict_loop [] remaining = ret ()"
| "evict_loop (source # sources) remaining =
    (case cus_Evict source of
       None \<Rightarrow> evict_loop sources remaining
     | Some evict \<Rightarrow>
         bindE (wrapE ''evict provider cache data'' (evict remaining)) (\<lambda>freed.
           let remaining = i64 (remaining - freed) in
           if remaining \<le> 0 then ret () else evict_loop sources remaining))"

definition CacheStatus_Prune :: "'s CacheStatus \<Rightarrow> ('s, unit) action" where
  "CacheStatus_Prune svc =
    bindE (CacheStatus_Stats svc) (\<lambda>stats.
      let remaining = i64 (cs_Size stats - cs_Capacity stats) in
      if remaining \<le> 0 then ret () else evict_loop (cst_sources svc) remaining)"

text \<open>The combined size is the sum of the parts, the capacity that of the shared cache.\<close>

lemma add_usages_ok:
  "add_usages sources stats s = (Inr stats', s') \<Longrightarrow> \<exists>usages. length usages = length sources
    \<and> cs_Components stats' = cs_Components stats @ usages \<and> cs_Capacity stats' = cs_Capacity stats
    \<and> (in_i64 (cs_Size stats) \<longrightarrow> cs_Size stats' = i64 (cs_Size stats + sum_list (map cu_Size usages)))"
proof (induction sources arbitrary: stats s)
  case Nil
  then show ?case by (auto simp: i64_id)
next
  case (Cons source sources)
  from Cons.prems obtain usage s1 where u: "cus_CacheUsage source s = (Inr usage, s1)"
    and rest: "add_usages sources (add_usage stats usage) s1 = (Inr stats', s')" by auto
  from Cons.IH [OF rest] obtain usages where us: "length usages = length sources"
    "cs_Components stats' = cs_Components (add_usage stats usage) @ usages"
    "cs_Capacity stats' = cs_Capacity (add_usage stats usage)"
    "in_i64 (cs_Size (add_usage stats usage)) \<longrightarrow> cs_Size stats' =
      i64 (cs_Size (add_usage stats usage) + sum_list (map cu_Size usages))" by blast
  then show ?case
    by (intro exI [of _ "usage # usages"]) (simp add: add_usage_def i64_add_left add.assoc)
qed

text \<open>A cache within its capacity is left alone; otherwise the first evictor is asked for exactly the
  excess, and the others for what is left of it.\<close>

lemma Prune_within:
  assumes "CacheStatus_Stats svc s = (Inr stats, s1)" "in_i64 (cs_Size stats - cs_Capacity stats)"
  shows "CacheStatus_Prune svc s = (if cs_Size stats \<le> cs_Capacity stats then (Inr (), s1)
    else evict_loop (cst_sources svc) (cs_Size stats - cs_Capacity stats) s1)"
  using assms by (simp add: CacheStatus_Prune_def bindE_def Let_def i64_id ret_def)

lemma evict_loop_enough:
  assumes "\<And>m. m \<in> set before \<Longrightarrow> cus_Evict m = None" "cus_Evict source = Some evict"
    "evict n s = (Inr freed, s')" "n \<le> freed" "in_i64 (n - freed)"
  shows "evict_loop (before @ source # after) n s = (Inr (), s')"
  using assms(1)
proof (induction before)
  case Nil
  then show ?case using assms(2-5) by (simp add: bindE_def wrapE_def Let_def i64_id ret_def)
next
  case (Cons m ms)
  then show ?case by simp
qed

section \<open>Downloads\<close>

text \<open>A monitor may also be a controller (\<open>TrackDownloadController\<close>).\<close>

record 's TrackDownloadMonitor =
  tdm_TrackDownloads :: "('s, TrackDownload list) action"
  tdm_controller :: "((string \<Rightarrow> ('s, unit) action) \<times> (string \<Rightarrow> ('s, unit) action)) option"

fun collect_downloads :: "'s TrackDownloadMonitor list \<Rightarrow> ('s, TrackDownload list) action" where
  "collect_downloads [] = ret []"
| "collect_downloads (m # ms) =
    bindE (wrapE ''read provider track downloads'' (tdm_TrackDownloads m)) (\<lambda>items.
      bindE (collect_downloads ms) (\<lambda>rest. ret (items @ rest)))"

definition download_lt :: "TrackDownload \<Rightarrow> TrackDownload \<Rightarrow> bool" where
  "download_lt a b = (if td_StartedAt a = td_StartedAt b then td_Name a < td_Name b else td_StartedAt b < td_StartedAt a)"

definition DownloadService_TrackDownloads :: "'s TrackDownloadMonitor list \<Rightarrow> ('s, TrackDownload list) action" where
  "DownloadService_TrackDownloads monitors = bindE (collect_downloads monitors) (\<lambda>items. ret (SliceStable download_lt items))"

fun DownloadService_change ::
  "'s TrackDownloadMonitor list \<Rightarrow> ((string \<Rightarrow> ('s, unit) action) \<times> (string \<Rightarrow> ('s, unit) action) \<Rightarrow> ('s, unit) action)
    \<Rightarrow> ('s, unit) action" where
  "DownloadService_change [] operation = fail ErrNotFound"
| "DownloadService_change (m # ms) operation =
    (case tdm_controller m of
       None \<Rightarrow> DownloadService_change ms operation
     | Some controller \<Rightarrow>
         tryE (operation controller) (\<lambda>r. case r of
           Inr _ \<Rightarrow> ret ()
         | Inl err \<Rightarrow> if \<not> errors_Is err ErrNotFound then fail err else DownloadService_change ms operation))"

definition CancelTrackDownload :: "'s TrackDownloadMonitor list \<Rightarrow> string \<Rightarrow> ('s, unit) action" where
  "CancelTrackDownload monitors i = DownloadService_change monitors (\<lambda>c. fst c i)"

definition RetryTrackDownload :: "'s TrackDownloadMonitor list \<Rightarrow> string \<Rightarrow> ('s, unit) action" where
  "RetryTrackDownload monitors i = DownloadService_change monitors (\<lambda>c. snd c i)"

text \<open>A change reaches the provider that owns the job: the providers before it that do not know it are
  passed over, those after it are not called.\<close>

lemma DownloadService_change_owner:
  assumes "\<And>m c. m \<in> set before \<Longrightarrow> tdm_controller m = Some c \<Longrightarrow> operation c s = (Inl ErrNotFound, s)"
    "tdm_controller owner = Some c" "operation c s = (Inr (), s')"
  shows "DownloadService_change (before @ owner # after) operation s = (Inr (), s')"
  using assms(1)
proof (induction before)
  case Nil
  then show ?case using assms(2,3) by (simp add: tryE_def ret_def)
next
  case (Cons m ms)
  have rest: "DownloadService_change (ms @ owner # after) operation s = (Inr (), s')"
    using Cons.prems by (intro Cons.IH) auto
  show ?case
  proof (cases "tdm_controller m")
    case None
    with rest show ?thesis by simp
  next
    case (Some x)
    with Cons.prems [of m x] rest show ?thesis by (simp add: tryE_def)
  qed
qed

lemma download_lt_order: "weak_order download_lt"
  by (rule weak_orderI) (auto simp: download_lt_def split: if_splits)

lemma TrackDownloads_sorted:
  "DownloadService_TrackDownloads monitors s = (Inr items, s') \<Longrightarrow> sorted_wrt (\<lambda>a b. \<not> download_lt b a) items"
  by (auto simp: DownloadService_TrackDownloads_def intro: sorted_SliceStable download_lt_order)

end
