(* ===== verification/Streaming.thy ===== *)
theory Streaming
  imports Filesystem Catalog
begin

text \<open>
  Opening a track for playback: \<open>core/services/streaming.go\<close> chooses among the sources of a track,
  \<open>adapters/providers/local/provider.go\<close> resolves those on the local disk, \<open>audioformat\<close> knows the
  content types.
\<close>

section \<open>Audio formats\<close>

record Format =
  fmt_Suffix :: string
  fmt_ContentType :: string

definition fmt :: "string \<Rightarrow> string \<Rightarrow> Format" where
  "fmt sfx contentType = \<lparr>fmt_Suffix = sfx, fmt_ContentType = contentType\<rparr>"

definition supported :: "(string \<times> Format) list" where
  "supported = [
     (''.aac'', fmt ''aac'' ''audio/aac''), (''.aif'', fmt ''aif'' ''audio/aiff''),
     (''.aiff'', fmt ''aiff'' ''audio/aiff''), (''.alac'', fmt ''alac'' ''audio/mp4''),
     (''.ape'', fmt ''ape'' ''audio/ape''), (''.flac'', fmt ''flac'' ''audio/flac''),
     (''.m4a'', fmt ''m4a'' ''audio/mp4''), (''.m4b'', fmt ''m4b'' ''audio/mp4''),
     (''.mp3'', fmt ''mp3'' ''audio/mpeg''), (''.mpc'', fmt ''mpc'' ''audio/x-musepack''),
     (''.oga'', fmt ''oga'' ''audio/ogg''), (''.ogg'', fmt ''ogg'' ''audio/ogg''),
     (''.opus'', fmt ''opus'' ''audio/ogg''), (''.wav'', fmt ''wav'' ''audio/wav''),
     (''.wma'', fmt ''wma'' ''audio/x-ms-wma''), (''.wv'', fmt ''wv'' ''audio/wavpack'')]"

definition ByExtension :: "unicode_tables \<Rightarrow> string \<Rightarrow> Format option" where
  "ByExtension uc extension0 =
    (let extension = ToLower uc (TrimSpace extension0);
         extension = (if extension \<noteq> '''' \<and> \<not> HasPrefix extension ''.'' then CHR ''.'' # extension else extension)
     in map_of supported extension)"

definition FromPath :: "unicode_tables \<Rightarrow> string \<Rightarrow> Format option" where
  "FromPath uc name = ByExtension uc (filepath_Ext name)"

section \<open>Providers\<close>

record ResolvedSource =
  rs_Content :: string
  rs_Name :: string
  rs_ContentType :: string
  rs_Size :: int
  rs_ModTime :: time
  rs_Revision :: string

record SearchQuery =
  sq_Text :: string
  sq_Limit :: int

record 's SourceProvider =
  sp_Name :: string
  sp_Search :: "SearchQuery \<Rightarrow> ('s, TrackSource list) action"
  sp_Resolve :: "string \<Rightarrow> SourceRef \<Rightarrow> ('s, ResolvedSource) action"

text \<open>The provider of local files. \<open>os.Open\<close>, \<open>Stat\<close> and the check for a regular file are one reading of
  the file system; directories cannot be opened as media.\<close>

definition local_Resolve :: "unicode_tables \<Rightarrow> string \<Rightarrow> string \<Rightarrow> SourceRef \<Rightarrow> (world, ResolvedSource) action" where
  "local_Resolve uc root trackID ref =
    (if ref_Provider ref \<noteq> ''local'' then fail (Errorf ''cannot resolve provider'')
     else bindE (liftR (securePath root (ref_Key ref))) (\<lambda>path.
       bindE (wrapE ''open local media'' (os_Open path)) (\<lambda>(content, modTime).
         let name = path_base path in
         ret \<lparr>rs_Content = content, rs_Name = name,
              rs_ContentType = (case FromPath uc name of None \<Rightarrow> '''' | Some f \<Rightarrow> fmt_ContentType f),
              rs_Size = int (length content), rs_ModTime = modTime,
              rs_Revision = ref_Key ref @ '':'' @ Itoa (int (length content)) @ '':'' @ Itoa (modTime - unix_epoch)\<rparr>)))"

definition local_Provider :: "unicode_tables \<Rightarrow> string \<Rightarrow> world SourceProvider" where
  "local_Provider uc root = \<lparr>sp_Name = ''local'', sp_Search = (\<lambda>_. ret []), sp_Resolve = local_Resolve uc root\<rparr>"

section \<open>Service\<close>

record 's StreamingService =
  st_env :: text_env
  st_Track :: "string \<Rightarrow> ('s, Track) action"
  st_Sources :: "string \<Rightarrow> ('s, SourceRef list) action"
  st_providers :: "string \<rightharpoonup> 's SourceProvider"
  st_order :: "string list"
  st_ctx_Err :: "'s \<Rightarrow> go_error option"

text \<open>\<open>order\<close> numbers the names in the order of their first occurrence; a later provider of the same name
  replaces the earlier one.\<close>

fun register_providers ::
  "'s SourceProvider list \<Rightarrow> (string \<rightharpoonup> 's SourceProvider) \<times> string list \<Rightarrow> (string \<rightharpoonup> 's SourceProvider) \<times> string list" where
  "register_providers [] st = st"
| "register_providers (p # ps) (registry, order) =
    register_providers ps (registry(sp_Name p \<mapsto> p), if sp_Name p \<in> set order then order else order @ [sp_Name p])"

definition NewStreamingService ::
  "text_env \<Rightarrow> (string \<Rightarrow> ('s, Track) action) \<Rightarrow> (string \<Rightarrow> ('s, SourceRef list) action) \<Rightarrow> ('s \<Rightarrow> go_error option)
    \<Rightarrow> 's SourceProvider list \<Rightarrow> 's StreamingService" where
  "NewStreamingService env track sources ctx_Err providers =
    (let (registry, order) = register_providers providers (Map.empty, []) in
     \<lparr>st_env = env, st_Track = track, st_Sources = sources, st_providers = registry, st_order = order,
      st_ctx_Err = ctx_Err\<rparr>)"

definition providerOrder :: "'s StreamingService \<Rightarrow> string \<Rightarrow> nat" where
  "providerOrder svc provider = length (takeWhile (\<lambda>n. n \<noteq> provider) (st_order svc))"

definition with_revision :: "text_env \<Rightarrow> SourceRef \<Rightarrow> ResolvedSource \<Rightarrow> ResolvedSource" where
  "with_revision env source stream =
    (if rs_Revision stream = '''' then stream\<lparr>rs_Revision := StableID env ''source'' [ref_Provider source, ref_Key source]\<rparr>
     else stream)"

fun resolve_sources ::
  "'s StreamingService \<Rightarrow> string \<Rightarrow> SourceRef list \<Rightarrow> go_error list \<Rightarrow> ('s, ResolvedSource) action" where
  "resolve_sources svc trackID [] resolveErrors = fail (Wrap ''resolve track from all sources'' (Join resolveErrors))"
| "resolve_sources svc trackID (source # rest) resolveErrors =
    (case st_providers svc (ref_Provider source) of
       None \<Rightarrow> resolve_sources svc trackID rest (resolveErrors @ [Errorf ''source provider is not registered''])
     | Some provider \<Rightarrow>
         tryE (sp_Resolve provider trackID source) (\<lambda>r. case r of
           Inr stream \<Rightarrow> ret (with_revision (st_env svc) source stream)
         | Inl err \<Rightarrow> (\<lambda>s. case st_ctx_Err svc s of
               Some e \<Rightarrow> fail (Wrap ''resolve track'' e) s
             | None \<Rightarrow> resolve_sources svc trackID rest (resolveErrors @ [Wrap ''resolve source'' err]) s)))"

definition StreamingService_Open :: "'s StreamingService \<Rightarrow> string \<Rightarrow> ('s, ResolvedSource) action" where
  "StreamingService_Open svc trackID0 =
    bindE (wrapE ''find track'' (st_Track svc trackID0)) (\<lambda>track.
      let trackID = track_ID track in
      bindE (wrapE ''find sources for track'' (st_Sources svc trackID)) (\<lambda>sources.
        resolve_sources svc trackID
          (SliceStable (\<lambda>a b. providerOrder svc (ref_Provider a) < providerOrder svc (ref_Provider b)) sources) []))"

section \<open>Which source is opened\<close>

text \<open>
  The specification: sources are tried in the order of their providers; the first whose provider
  is registered and resolves it is opened. \<open>attempt\<close> is what one provider reports, for providers
  that only look at the world.
\<close>

definition attempt :: "'s StreamingService \<Rightarrow> string \<Rightarrow> 's \<Rightarrow> SourceRef \<Rightarrow> ResolvedSource result" where
  "attempt svc trackID s source =
    (case st_providers svc (ref_Provider source) of
       None \<Rightarrow> Inl (Errorf ''source provider is not registered'')
     | Some p \<Rightarrow> (case fst (sp_Resolve p trackID source s) of
           Inl err \<Rightarrow> Inl (Wrap ''resolve source'' err)
         | Inr stream \<Rightarrow> Inr (with_revision (st_env svc) source stream)))"

definition errors_of :: "'s StreamingService \<Rightarrow> string \<Rightarrow> 's \<Rightarrow> SourceRef list \<Rightarrow> go_error list" where
  "errors_of svc trackID s sources = concat (map (\<lambda>src. case attempt svc trackID s src of Inl e \<Rightarrow> [e] | Inr _ \<Rightarrow> []) sources)"

definition first_available :: "'s StreamingService \<Rightarrow> string \<Rightarrow> 's \<Rightarrow> SourceRef list \<Rightarrow> ResolvedSource result" where
  "first_available svc trackID s sources =
    (case find (\<lambda>src. is_ok (attempt svc trackID s src)) sources of
       Some src \<Rightarrow> attempt svc trackID s src
     | None \<Rightarrow> Inl (Wrap ''resolve track from all sources'' (Join (errors_of svc trackID s sources))))"

lemma resolve_sources_acc:
  assumes "\<And>p src. st_providers svc (ref_Provider src) = Some p \<Longrightarrow> snd (sp_Resolve p trackID src s) = s"
    "st_ctx_Err svc s = None"
  shows "resolve_sources svc trackID sources errs s =
    (case find (\<lambda>src. is_ok (attempt svc trackID s src)) sources of
       Some src \<Rightarrow> attempt svc trackID s src
     | None \<Rightarrow> Inl (Wrap ''resolve track from all sources'' (Join (errs @ errors_of svc trackID s sources))), s)"
proof (induction sources arbitrary: errs)
  case Nil
  then show ?case by (simp add: fail_def errors_of_def)
next
  case (Cons src rest)
  show ?case
  proof (cases "st_providers svc (ref_Provider src)")
    case None
    then have "attempt svc trackID s src = Inl (Errorf ''source provider is not registered'')"
      by (simp add: attempt_def)
    with None Cons.IH [of "errs @ [Errorf ''source provider is not registered'']"] show ?thesis
      by (simp add: errors_of_def split: option.split)
  next
    case (Some p)
    obtain r where r: "sp_Resolve p trackID src s = (r, s)"
      using assms(1) [OF Some] by (metis prod.collapse)
    show ?thesis
    proof (cases r)
      case (Inl err)
      then have "attempt svc trackID s src = Inl (Wrap ''resolve source'' err)" using Some r by (simp add: attempt_def)
      with Inl Some r assms(2) Cons.IH [of "errs @ [Wrap ''resolve source'' err]"] show ?thesis
        by (simp add: tryE_def errors_of_def split: option.split)
    next
      case (Inr stream)
      then have "attempt svc trackID s src = Inr (with_revision (st_env svc) src stream)" using Some r by (simp add: attempt_def)
      with Inr Some r show ?thesis by (simp add: tryE_def ret_def)
    qed
  qed
qed

text \<open>The order of the sources: those of an earlier provider first, else as the catalog lists them.\<close>

lemma weak_order_measure: "weak_order (\<lambda>a b. (f a :: nat) < f b)"
  by (rule weak_orderI) auto

lemma sorted_sources:
  "sorted_wrt (\<lambda>a b. providerOrder svc (ref_Provider a) \<le> providerOrder svc (ref_Provider b))
    (SliceStable (\<lambda>a b. providerOrder svc (ref_Provider a) < providerOrder svc (ref_Provider b)) sources)"
  using sorted_SliceStable [OF weak_order_measure [of "\<lambda>a. providerOrder svc (ref_Provider a)"], of sources]
  by (simp add: not_less)

lemma find_sorted_first:
  assumes "find P xs = Some x" "sorted_wrt (\<lambda>a b. f a \<le> (f b :: nat)) xs" "y \<in> set xs" "P y"
  shows "f x \<le> f y"
  using assms by (induction xs) (auto split: if_splits)

lemma find_member: "find P xs = Some x \<Longrightarrow> x \<in> set xs"
  by (induction xs) (auto split: if_splits)

lemma first_available_order:
  assumes "first_available svc trackID s
      (SliceStable (\<lambda>a b. providerOrder svc (ref_Provider a) < providerOrder svc (ref_Provider b)) sources) = Inr stream"
  shows "\<exists>chosen \<in> set sources. attempt svc trackID s chosen = Inr stream
    \<and> (\<forall>other \<in> set sources. is_ok (attempt svc trackID s other) \<longrightarrow>
        providerOrder svc (ref_Provider chosen) \<le> providerOrder svc (ref_Provider other))"
proof -
  let ?sorted = "SliceStable (\<lambda>a b. providerOrder svc (ref_Provider a) < providerOrder svc (ref_Provider b)) sources"
  from assms obtain chosen where c: "find (\<lambda>src. is_ok (attempt svc trackID s src)) ?sorted = Some chosen"
    "attempt svc trackID s chosen = Inr stream"
    by (auto simp: first_available_def split: option.splits)
  have "chosen \<in> set sources" using find_member [OF c(1)] by simp
  moreover have "providerOrder svc (ref_Provider chosen) \<le> providerOrder svc (ref_Provider other)"
    if "other \<in> set sources" "is_ok (attempt svc trackID s other)" for other
    using find_sorted_first [OF c(1) sorted_sources] that by simp
  ultimately show ?thesis using c(2) by blast
qed

section \<open>Properties\<close>


section \<open>A file on the local disk\<close>

definition demo_disk :: world where
  "demo_disk = demo_library\<lparr>w_blobs := [(''/m/t'', ''abc'', unix_epoch)]\<rparr>"

definition demo_streaming :: "world StreamingService" where
  "demo_streaming = NewStreamingService demo_env sqlite_Track sqlite_Sources (\<lambda>_. None) [local_Provider ascii_tables ''/m'']"

lemma demo_disk_sel [simp]: "w_faults demo_disk = []" "w_blobs demo_disk = [(''/m/t'', ''abc'', unix_epoch)]"
  by (simp_all add: demo_disk_def)

lemma demo_streaming_sel [simp]:
  "st_Track demo_streaming = sqlite_Track" "st_Sources demo_streaming = sqlite_Sources" "st_ctx_Err demo_streaming s = None"
  "st_providers demo_streaming = [''local'' \<mapsto> local_Provider ascii_tables ''/m'']"
  by (simp_all add: demo_streaming_def NewStreamingService_def local_Provider_def)

lemma demo_disk_tables:
  "w_tracks demo_disk = w_tracks demo_library" "w_track_aliases demo_disk = w_track_aliases demo_library"
  "w_track_sources demo_disk = [source_row_of (demo_source ''t'' ''local'')]"
  by (simp_all add: demo_disk_def demo_library_def)

lemma demo_disk_track:
  "\<exists>t. sqlite_Track ''t'' demo_disk = (Inr t, demo_disk) \<and> track_ID t = ''t''
    \<and> sqlite_Sources ''t'' demo_disk = (Inr [\<lparr>ref_Provider = ''local'', ref_Key = ''t''\<rparr>], demo_disk)"
proof -
  obtain t where t: "w_tracks demo_library = [t]" "track_ID t = ''t''" by (simp add: demo_library_def demo_track_def)
  have src: "source_row_of (demo_source ''t'' ''local'') = \<lparr>sr_track_id = ''t'', sr_provider = ''local'', sr_source_key = ''t'',
      sr_discovered_at = unix_epoch\<rparr>" by (simp add: source_row_of_def demo_source_def demo_track_def)
  show ?thesis
    by (simp add: sqlite_Track_run sqlite_Sources_def sqlite_resolveTrackID_def db_query_run run_simps resolve_track_def
      demo_disk_tables t src SliceStable_def)
qed

lemma local_Resolve_pure: "w_faults w = [] \<Longrightarrow> snd (local_Resolve uc root i ref w) = w"
  by (auto simp: local_Resolve_def os_Open_def os_call_def no_faults run_simps Let_def split: sum.split option.split)

lemma demo_secure: "securePath ''/m'' ''t'' = Inr ''/m/t''"
  by (simp add: securePath_def IsAbs_def Clean_def filepath_Join_def HasPrefix_def Let_def clean_elements_def clean_push_def)


end
