(* ===== verification/ScanManager.thy ===== *)
theory ScanManager
  imports GoPrelude
begin

text \<open>
  The scan manager and the group of scanners, \<open>scanner/manager.go\<close> and \<open>scanner/group.go\<close>. A manager
  runs at most one scan of the music sources at a time, on behalf of synchronous callers, of a user's
  request and of a periodic timer, and keeps a bounded history. Its two critical sections, \<open>begin\<close> and
  \<open>finish\<close>, are functions of the status and of the time they read; the goroutines that call them are
  the steps of a transition system.
\<close>

section \<open>Reports and status\<close>

record Warning =
  wn_Path :: string
  wn_Err :: go_error

record Report =
  rep_Tracks :: int
  rep_Warnings :: "Warning list"

definition zero_report :: Report where
  "zero_report = \<lparr>rep_Tracks = 0, rep_Warnings = []\<rparr>"

record Run =
  run_Trigger :: string
  run_Tracks :: int
  run_Warnings :: "string list"
  run_Error :: string
  run_StartedAt :: time
  run_FinishedAt :: time

record Status =
  ss_Scanning :: bool
  ss_Count :: int
  ss_LastError :: string
  ss_CurrentTrigger :: string
  ss_LastStartedAt :: time
  ss_LastFinishedAt :: time
  ss_History :: "Run list"

text \<open>A runner returns a report and perhaps an error; a caller sees both.\<close>

type_synonym outcome = "Report \<times> go_error option"
type_synonym 's runner = "'s \<Rightarrow> outcome \<times> 's"

section \<open>Manager\<close>

definition NewManager :: Status where
  "NewManager = \<lparr>ss_Scanning = False, ss_Count = 0, ss_LastError = '''', ss_CurrentTrigger = '''',
     ss_LastStartedAt = time_zero, ss_LastFinishedAt = time_zero, ss_History = []\<rparr>"

definition Manager_begin :: "string \<Rightarrow> time \<Rightarrow> Status \<Rightarrow> bool \<times> Status" where
  "Manager_begin trigger now st =
    (if ss_Scanning st then (False, st)
     else (True, st\<lparr>ss_Scanning := True, ss_LastError := '''', ss_CurrentTrigger := trigger,
                    ss_LastStartedAt := now\<rparr>))"

text \<open>The loop over the warnings stops when twenty are kept. The text of an error, \<open>Error\<close>, is given.\<close>

fun keep_warnings :: "(go_error \<Rightarrow> string) \<Rightarrow> string list \<Rightarrow> Warning list \<Rightarrow> string list" where
  "keep_warnings Error kept [] = kept"
| "keep_warnings Error kept (w # ws) =
    (if length kept = 20 then kept else keep_warnings Error (kept @ [wn_Path w @ '': '' @ Error (wn_Err w)]) ws)"

definition Manager_finish :: "(go_error \<Rightarrow> string) \<Rightarrow> outcome \<Rightarrow> time \<Rightarrow> Status \<Rightarrow> Status" where
  "Manager_finish Error out now st =
    (let st1 = st\<lparr>ss_Scanning := False, ss_LastFinishedAt := now\<rparr>;
         run0 = \<lparr>run_Trigger = ss_CurrentTrigger st1, run_Tracks = rep_Tracks (fst out),
                 run_Warnings = keep_warnings Error [] (rep_Warnings (fst out)), run_Error = '''',
                 run_StartedAt = ss_LastStartedAt st1, run_FinishedAt = ss_LastFinishedAt st1\<rparr>;
         (st2, run) = (case snd out of
             Some err \<Rightarrow> (st1\<lparr>ss_LastError := Error err\<rparr>, run0\<lparr>run_Error := Error err\<rparr>)
           | None \<Rightarrow> (st1\<lparr>ss_Count := rep_Tracks (fst out)\<rparr>, run0));
         history = run # ss_History st2
     in st2\<lparr>ss_History := (if length history > 20 then take 20 history else history)\<rparr>)"

definition Manager_ScanNow ::
  "(go_error \<Rightarrow> string) \<Rightarrow> ('s \<Rightarrow> time \<times> 's) \<Rightarrow> 's runner \<Rightarrow> Status \<times> 's \<Rightarrow> outcome \<times> Status \<times> 's" where
  "Manager_ScanNow Error now runner s0 =
    (let (st, s) = s0; (started, s1) = now s; (ok, st1) = Manager_begin ''synchronous'' started st in
     if \<not> ok then ((zero_report, Some ErrScanInProgress), s0)
     else let (out, s2) = runner s1; (finished, s3) = now s2
          in (out, Manager_finish Error out finished st1, s3))"

section \<open>Group\<close>

fun Group_loop :: "'s runner list \<Rightarrow> Report \<Rightarrow> 's runner" where
  "Group_loop [] combined s = ((combined, None), s)"
| "Group_loop (runner # runners) combined s =
    (case runner s of
       ((report, Some err), s') \<Rightarrow> ((zero_report, Some (Wrap ''scan music source'' err)), s')
     | ((report, None), s') \<Rightarrow>
         Group_loop runners (combined\<lparr>rep_Tracks := i64 (rep_Tracks combined + rep_Tracks report),
                                      rep_Warnings := rep_Warnings combined @ rep_Warnings report\<rparr>) s')"

definition Group_Scan :: "'s runner list \<Rightarrow> 's runner" where
  "Group_Scan runners = Group_loop runners zero_report"

section \<open>Concurrent callers\<close>

text \<open>
  \<open>sys_running\<close> counts the goroutines inside \<open>runner.Scan\<close>. A request carries one of the triggers of
  the three entry points; the timer stops requesting when the manager's context is cancelled. A scan may
  return anything, at any time.
\<close>

record scan_sys =
  sys_status :: Status
  sys_running :: nat
  sys_cancelled :: bool

datatype scan_event =
    Accepted string time
  | Refused string time
  | Returned outcome time
  | Cancelled

definition scan_init :: scan_sys where
  "scan_init = \<lparr>sys_status = NewManager, sys_running = 0, sys_cancelled = False\<rparr>"

definition may_request :: "scan_sys \<Rightarrow> string \<Rightarrow> bool" where
  "may_request s trigger \<longleftrightarrow> trigger = ''synchronous'' \<or> trigger = ''manual''
     \<or> trigger = ''periodic'' \<and> \<not> sys_cancelled s"

inductive scan_step :: "(go_error \<Rightarrow> string) \<Rightarrow> scan_sys \<Rightarrow> scan_event \<Rightarrow> scan_sys \<Rightarrow> bool"
  for Error :: "go_error \<Rightarrow> string"
where
  accepted: "may_request s trigger \<Longrightarrow> Manager_begin trigger now (sys_status s) = (True, st) \<Longrightarrow>
    scan_step Error s (Accepted trigger now) (s\<lparr>sys_status := st, sys_running := Suc (sys_running s)\<rparr>)"
| refused: "may_request s trigger \<Longrightarrow> Manager_begin trigger now (sys_status s) = (False, st) \<Longrightarrow>
    scan_step Error s (Refused trigger now) (s\<lparr>sys_status := st\<rparr>)"
| returned: "sys_running s = Suc n \<Longrightarrow>
    scan_step Error s (Returned out now)
      (s\<lparr>sys_status := Manager_finish Error out now (sys_status s), sys_running := n\<rparr>)"
| cancelled: "scan_step Error s Cancelled (s\<lparr>sys_cancelled := True\<rparr>)"

inductive_cases scan_step_accepted: "scan_step Error s (Accepted trigger now) s'"
inductive_cases scan_step_refused: "scan_step Error s (Refused trigger now) s'"
inductive_cases scan_step_returned: "scan_step Error s (Returned out now) s'"

text \<open>The states a history of events, newest first, leads to.\<close>

inductive scan_run :: "(go_error \<Rightarrow> string) \<Rightarrow> scan_event list \<Rightarrow> scan_sys \<Rightarrow> bool"
  for Error :: "go_error \<Rightarrow> string"
where
  start: "scan_run Error [] scan_init"
| step: "scan_run Error es s \<Longrightarrow> scan_step Error s e s' \<Longrightarrow> scan_run Error (e # es) s'"

section \<open>What the history records\<close>

text \<open>
  The reference: every scan that returned, newest first, with the trigger and the time of the request
  accepted last before it, at most its first twenty warnings, and its error.
\<close>

fun last_accepted :: "scan_event list \<Rightarrow> string \<times> time" where
  "last_accepted [] = ('''', time_zero)"
| "last_accepted (Accepted trigger now # es) = (trigger, now)"
| "last_accepted (_ # es) = last_accepted es"

definition run_record :: "(go_error \<Rightarrow> string) \<Rightarrow> string \<times> time \<Rightarrow> outcome \<Rightarrow> time \<Rightarrow> Run" where
  "run_record Error origin out now = \<lparr>run_Trigger = fst origin, run_Tracks = rep_Tracks (fst out),
     run_Warnings = map (\<lambda>w. wn_Path w @ '': '' @ Error (wn_Err w)) (take 20 (rep_Warnings (fst out))),
     run_Error = (case snd out of None \<Rightarrow> '''' | Some e \<Rightarrow> Error e),
     run_StartedAt = snd origin, run_FinishedAt = now\<rparr>"

fun completed :: "(go_error \<Rightarrow> string) \<Rightarrow> scan_event list \<Rightarrow> Run list" where
  "completed Error [] = []"
| "completed Error (Returned out now # es) = run_record Error (last_accepted es) out now # completed Error es"
| "completed Error (_ # es) = completed Error es"

text \<open>The scans under way after some events: accepted requests whose scan has not returned.\<close>

fun under_way :: "scan_event list \<Rightarrow> int" where
  "under_way [] = 0"
| "under_way (Accepted _ _ # es) = under_way es + 1"
| "under_way (Returned _ _ # es) = under_way es - 1"
| "under_way (_ # es) = under_way es"

text \<open>The number of tracks of the scan that succeeded last.\<close>

fun last_count :: "scan_event list \<Rightarrow> int" where
  "last_count [] = 0"
| "last_count (Returned (report, None) _ # es) = rep_Tracks report"
| "last_count (_ # es) = last_count es"

section \<open>Lemmas\<close>

lemma keep_warnings_take:
  "length kept \<le> 20 \<Longrightarrow> keep_warnings Error kept ws =
     kept @ map (\<lambda>w. wn_Path w @ '': '' @ Error (wn_Err w)) (take (20 - length kept) ws)"
  by (induction Error kept ws rule: keep_warnings.induct) (auto simp: take_Cons' Suc_diff_Suc)

lemma Manager_finish_sel:
  "ss_Scanning (Manager_finish Error out now st) = False"
  "ss_CurrentTrigger (Manager_finish Error out now st) = ss_CurrentTrigger st"
  "ss_LastStartedAt (Manager_finish Error out now st) = ss_LastStartedAt st"
  "ss_LastFinishedAt (Manager_finish Error out now st) = now"
  "ss_Count (Manager_finish Error out now st) =
     (if snd out = None then rep_Tracks (fst out) else ss_Count st)"
  "ss_LastError (Manager_finish Error out now st) =
     (case snd out of None \<Rightarrow> ss_LastError st | Some e \<Rightarrow> Error e)"
  "ss_History (Manager_finish Error out now st) =
     take 20 (run_record Error (ss_CurrentTrigger st, ss_LastStartedAt st) out now # ss_History st)"
  by (cases "snd out"; simp add: Manager_finish_def Let_def run_record_def keep_warnings_take)+

definition sys_inv :: "(go_error \<Rightarrow> string) \<Rightarrow> scan_event list \<Rightarrow> scan_sys \<Rightarrow> bool" where
  "sys_inv Error es s \<longleftrightarrow>
    (let st = sys_status s in
     sys_running s = (if ss_Scanning st then 1 else 0) \<and> int (sys_running s) = under_way es
     \<and> (ss_CurrentTrigger st, ss_LastStartedAt st) = last_accepted es
     \<and> ss_History st = take 20 (completed Error es) \<and> ss_Count st = last_count es
     \<and> ss_LastError st = (if ss_Scanning st then '''' else case completed Error es of [] \<Rightarrow> '''' | r # _ \<Rightarrow> run_Error r))"

lemma sys_inv_step:
  assumes "sys_inv Error es s" "scan_step Error s e s'"
  shows "sys_inv Error (e # es) s'"
  using assms(2)
proof cases
  case (returned n out now)
  have "last_count (Returned out now # es) = (if snd out = None then rep_Tracks (fst out) else last_count es)"
    by (cases out; cases "snd out") auto
  with returned assms(1) show ?thesis
    by (auto simp: sys_inv_def Let_def Manager_finish_sel run_record_def take_Cons' split: if_splits option.splits)
qed (use assms(1) in \<open>auto simp: sys_inv_def Let_def Manager_begin_def split: if_splits\<close>)

lemma scan_run_inv: "scan_run Error es s \<Longrightarrow> sys_inv Error es s"
proof (induction rule: scan_run.induct)
  case start
  show ?case by (simp add: sys_inv_def scan_init_def NewManager_def)
next
  case (step es s e s')
  then show ?case by (blast intro: sys_inv_step)
qed

lemma accepted_iff:
  "may_request s trigger \<Longrightarrow>
     (\<exists>s'. scan_step Error s (Accepted trigger now) s') \<longleftrightarrow> \<not> ss_Scanning (sys_status s)"
  by (auto simp: Manager_begin_def elim!: scan_step_accepted intro!: exI scan_step.accepted)

text \<open>
  A group succeeds when all its runners do: it then adds up their tracks (as a 64-bit integer) and
  appends their warnings. The first error ends the scan, and its report is empty.
\<close>

fun run_all :: "'s runner list \<Rightarrow> 's \<Rightarrow> outcome list \<times> 's" where
  "run_all [] s = ([], s)"
| "run_all (r # rs) s = (let (out, s') = r s in
     if snd out \<noteq> None then ([out], s') else let (outs, s'') = run_all rs s' in (out # outs, s''))"

lemma Group_loop_spec:
  "Group_loop rs combined s =
    (let (outs, s') = run_all rs s in
     case find (\<lambda>out. snd out \<noteq> None) outs of
       Some out \<Rightarrow> ((zero_report, Some (Wrap ''scan music source'' (the (snd out)))), s')
     | None \<Rightarrow> ((\<lparr>rep_Tracks = foldl (\<lambda>n out. i64 (n + rep_Tracks (fst out))) (rep_Tracks combined) outs,
                   rep_Warnings = rep_Warnings combined @ concat (map (\<lambda>out. rep_Warnings (fst out)) outs)\<rparr>, None), s'))"
proof (induction rs arbitrary: combined s)
  case (Cons r rs)
  obtain report err s' where "r s = ((report, err), s')" by (metis surj_pair)
  with Cons show ?case by (cases err) (auto simp: Let_def split: prod.splits option.splits)
qed simp

lemma Group_Scan_spec:
  assumes "run_all rs s = (outs, s')"
  shows "Group_Scan rs s =
    (case find (\<lambda>out. snd out \<noteq> None) outs of
       Some out \<Rightarrow> ((zero_report, Some (Wrap ''scan music source'' (the (snd out)))), s')
     | None \<Rightarrow> ((\<lparr>rep_Tracks = i64 (sum_list (map (\<lambda>out. rep_Tracks (fst out)) outs)),
                   rep_Warnings = concat (map (\<lambda>out. rep_Warnings (fst out)) outs)\<rparr>, None), s'))"
  using assms foldl_i64_sum [of "\<lambda>out. rep_Tracks (fst out)" 0 outs]
  by (simp add: Group_Scan_def Group_loop_spec zero_report_def split: option.splits)

section \<open>Properties\<close>

text \<open>
  C24: whatever the order of requests, refusals, cancellation and returns, at most one scan is under way,
  as many as were accepted and did not return. The history holds the twenty scans that returned last,
  newest first, each with the trigger and start of its own request; the count is that of the last scan
  that succeeded, and the last error that of the last scan, cleared while one runs. A request is accepted
  exactly when no scan is under way.
\<close>

theorem scan_manager_invariant:
  assumes "scan_run Error es s"
  shows "sys_running s \<le> 1 \<and> int (sys_running s) = under_way es
    \<and> ss_History (sys_status s) = take 20 (completed Error es)
    \<and> ss_Count (sys_status s) = last_count es
    \<and> ss_LastError (sys_status s) = (if sys_running s = 1 then ''''
         else case completed Error es of [] \<Rightarrow> '''' | r # _ \<Rightarrow> run_Error r)
    \<and> (\<forall>trigger now. may_request s trigger \<longrightarrow>
         ((\<exists>s'. scan_step Error s (Accepted trigger now) s') \<longleftrightarrow> sys_running s = 0))"
proof -
  have "ss_Scanning (sys_status s) \<longleftrightarrow> sys_running s = 1" and "\<not> ss_Scanning (sys_status s) \<longleftrightarrow> sys_running s = 0"
    using scan_run_inv [OF assms] by (auto simp: sys_inv_def Let_def)
  with scan_run_inv [OF assms] show ?thesis by (auto simp: sys_inv_def Let_def accepted_iff)
qed

theorem scan_manager_invariant_witness:
  "\<exists>s. scan_run (\<lambda>_. ''e'') [Returned (zero_report\<lparr>rep_Tracks := 7\<rparr>, None) 9, Refused ''periodic'' 8, Accepted ''manual'' 5] s
    \<and> sys_running s = 0 \<and> ss_Count (sys_status s) = 7
    \<and> map run_Trigger (ss_History (sys_status s)) = [''manual''] \<and> map run_StartedAt (ss_History (sys_status s)) = [5]"
proof -
  let ?es = "[Returned (zero_report\<lparr>rep_Tracks := 7\<rparr>, None) 9, Refused ''periodic'' 8, Accepted ''manual'' 5]"
  let ?st = "snd (Manager_begin ''manual'' 5 NewManager)"
  let ?busy = "\<lparr>sys_status = ?st, sys_running = 1, sys_cancelled = False\<rparr>"
  have "scan_run (\<lambda>_. ''e'') [Accepted ''manual'' 5] ?busy"
    using scan_run.step [OF scan_run.start scan_step.accepted [of scan_init "''manual''" 5 ?st]]
    by (simp add: scan_init_def may_request_def Manager_begin_def NewManager_def)
  from scan_run.step [OF this scan_step.refused [of ?busy "''periodic''" 8 ?st]]
  have "scan_run (\<lambda>_. ''e'') [Refused ''periodic'' 8, Accepted ''manual'' 5] ?busy"
    by (simp add: may_request_def Manager_begin_def NewManager_def)
  from scan_run.step [OF this scan_step.returned [of ?busy 0]]
  obtain s where run: "scan_run (\<lambda>_. ''e'') ?es s" by auto
  from scan_manager_invariant [OF run] show ?thesis
    by (intro exI [of _ s] conjI run) (auto simp: run_record_def)
qed

end
