(* ===== verification/Scanner.thy ===== *)
theory Scanner
  imports Streaming ScanManager
begin

text \<open>
  The scanner of the local music directory, \<open>scanner/scanner.go\<close>: it walks the directory, turns every
  readable audio file into a track with canonical identifiers, merges the albums of compilation
  directories, replaces the tracks of the provider \<open>local\<close> in the catalog and saves the identifiers
  of earlier versions as aliases. The tag reader, the artwork store and the walk of the file system are
  interfaces of the scanner; Go's unspecified iteration order of a map is a parameter.
\<close>

section \<open>Paths\<close>

definition path_Dir :: "string \<Rightarrow> string" where
  "path_Dir p = (let parts = split_on slash p in
     Clean (if butlast parts = [] then '''' else strings_Join (butlast parts) ''/'' @ ''/''))"

definition path_Base :: "string \<Rightarrow> string" where
  "path_Base p =
    (if p = '''' then ''.''
     else let q = rev (dropWhile (\<lambda>c. c = slash) (rev p))
          in if q = '''' then ''/'' else last (split_on slash q))"

section \<open>Tracks from metadata\<close>

definition LocalProvider :: string where "LocalProvider = ''local''"

record Metadata =
  md_Title :: string
  md_Artist :: string
  md_Album :: string
  md_AlbumArtist :: string
  md_AlbumArtistExplicit :: bool
  md_TrackNumber :: int
  md_DiscNumber :: int
  md_Year :: int
  md_Genre :: string
  md_Duration :: duration
  md_Size :: int
  md_BitRate :: int
  md_Suffix :: string
  md_ContentType :: string
  md_Artwork :: "string option"

definition ApplyMetadata :: "text_env \<Rightarrow> Track \<Rightarrow> Metadata \<Rightarrow> Track" where
  "ApplyMetadata env track metadata =
    (let albumArtistName0 = TrimSpace (md_AlbumArtist metadata);
         albumArtistName1 = (if albumArtistName0 = '''' then TrimSpace (md_Artist metadata) else albumArtistName0);
         albumArtistName = (if albumArtistName1 = '''' then ''Unknown Artist'' else albumArtistName1);
         trackArtist0 = TrimSpace (md_Artist metadata);
         trackArtist = (if trackArtist0 = '''' then albumArtistName else trackArtist0);
         albumName0 = TrimSpace (md_Album metadata);
         albumName = (if albumName0 = '''' then ''Unknown Album'' else albumName0);
         title0 = TrimSpace (md_Title metadata);
         title = (if title0 = '''' then track_Title track else title0)
     in track\<lparr>track_Title := title, track_Artist := trackArtist,
          track_ArtistID := CanonicalArtistID env trackArtist, track_Album := albumName,
          track_AlbumID := CanonicalAlbumID env albumArtistName albumName,
          track_AlbumArtist := albumArtistName, track_AlbumArtistID := CanonicalArtistID env albumArtistName,
          track_TrackNumber := md_TrackNumber metadata, track_DiscNumber := md_DiscNumber metadata,
          track_Year := md_Year metadata, track_Genre := TrimSpace (md_Genre metadata),
          track_Duration := md_Duration metadata, track_Size := md_Size metadata,
          track_BitRate := md_BitRate metadata, track_Suffix := md_Suffix metadata,
          track_ContentType := md_ContentType metadata\<rparr>)"

definition zero_track :: Track where
  "zero_track = \<lparr>track_ID = '''', track_Title = '''', track_Artist = '''', track_ArtistID = '''', track_Album = '''',
     track_AlbumID = '''', track_AlbumArtist = '''', track_AlbumArtistID = '''', track_TrackNumber = 0,
     track_DiscNumber = 0, track_Year = 0, track_Genre = '''', track_Duration = 0, track_Size = 0,
     track_BitRate = 0, track_Suffix = '''', track_ContentType = '''', track_CoverArtID = ''''\<rparr>"

definition zero_availability :: SourceAvailability where
  "zero_availability = \<lparr>av_Peer = '''', av_UploadSpeed = 0, av_QueueLength = 0, av_FreeUploadSlot = False,
     av_RequiresApproval = False\<rparr>"

definition makeTrack :: "text_env \<Rightarrow> string \<Rightarrow> Metadata \<Rightarrow> TrackSource" where
  "makeTrack env key metadata =
    (let track0 = zero_track\<lparr>track_ID := StableID env ''track'' [LocalProvider, key],
                    track_Title := TrimSuffix (path_Base key) (filepath_Ext key)\<rparr>;
         track1 = ApplyMetadata env track0 metadata;
         track = track1\<lparr>track_ID := CanonicalTrackID env track1\<rparr>
     in \<lparr>ts_Track = track, ts_Ref = \<lparr>ref_Provider = LocalProvider, ref_Key = key\<rparr>, ts_DisplayPath = '''',
         ts_Availability = zero_availability, ts_DiscoveredAt = time_zero\<rparr>)"

section \<open>Compilations\<close>

definition isVariousArtistName :: "unicode_tables \<Rightarrow> string \<Rightarrow> bool" where
  "isVariousArtistName uc name \<longleftrightarrow>
    ToLower uc (TrimSpace name) \<in> {''various artists'', ''various'', ''va'', ''v/a''}"

definition isGenericCompilationAlbumName :: "unicode_tables \<Rightarrow> string \<Rightarrow> bool" where
  "isGenericCompilationAlbumName uc name \<longleftrightarrow>
    ToLower uc (TrimSpace name) \<in> {''various artists'', ''various'', ''va'', ''v/a'', ''unknown album''}"

text \<open>The tracks of a directory, \<open>groups[directory]\<close>; tracks at the top are in no group.\<close>

definition group_of :: "string \<Rightarrow> TrackSource list \<Rightarrow> TrackSource list" where
  "group_of directory tracks = filter (\<lambda>s. path_Dir (ref_Key (ts_Ref s)) = directory) tracks"

definition directories :: "TrackSource list \<Rightarrow> string list" where
  "directories tracks = remdups (filter (\<lambda>d. d \<noteq> ''.'' \<and> d \<noteq> ''/'') (map (\<lambda>s. path_Dir (ref_Key (ts_Ref s))) tracks))"

text \<open>\<open>names\<close> maps folded names to the last spelling; with one entry the loop over it runs once.\<close>

definition compilationAlbumName :: "unicode_tables \<Rightarrow> TrackSource list \<Rightarrow> string \<Rightarrow> string" where
  "compilationAlbumName uc tracks directory =
    (let names = filter (\<lambda>n. n \<noteq> '''') (map (\<lambda>s. TrimSpace (track_Album (ts_Track s))) tracks)
     in if length (remdups (map (ToLower uc) names)) = 1 \<and> \<not> isGenericCompilationAlbumName uc (ToLower uc (last names))
        then last names else path_Base directory)"

definition isCompilation :: "unicode_tables \<Rightarrow> (string \<Rightarrow> bool) \<Rightarrow> TrackSource list \<Rightarrow> bool" where
  "isCompilation uc explicitAlbumArtists tracks =
    (let artists = remdups (map (\<lambda>s. ToLower uc (TrimSpace (track_Artist (ts_Track s)))) tracks);
         albumArtists = remdups (map (\<lambda>s. ToLower uc (TrimSpace (track_AlbumArtist (ts_Track s)))) tracks);
         hasExplicit = list_ex (\<lambda>s. explicitAlbumArtists (ref_Key (ts_Ref s))) tracks
     in 2 \<le> length tracks \<and> 2 \<le> length artists
        \<and> (1 < length albumArtists \<or> \<not> hasExplicit
           \<or> length albumArtists = 1 \<and> isVariousArtistName uc (hd albumArtists)))"

definition set_compilation :: "text_env \<Rightarrow> string \<Rightarrow> TrackSource \<Rightarrow> TrackSource" where
  "set_compilation env albumName s = s\<lparr>ts_Track := (ts_Track s)\<lparr>track_Album := albumName,
     track_AlbumArtist := ''Various Artists'', track_AlbumArtistID := CanonicalArtistID env ''Various Artists'',
     track_AlbumID := CanonicalAlbumID env ''Various Artists'' albumName\<rparr>\<rparr>"

definition normalize_group ::
  "text_env \<Rightarrow> (string \<Rightarrow> bool) \<Rightarrow> string \<Rightarrow> TrackSource list \<Rightarrow> TrackSource list" where
  "normalize_group env explicitAlbumArtists directory tracks =
    (let group = group_of directory tracks in
     if \<not> isCompilation (unicode env) explicitAlbumArtists group then tracks
     else map (\<lambda>s. if path_Dir (ref_Key (ts_Ref s)) = directory
                   then set_compilation env (compilationAlbumName (unicode env) group directory) s else s) tracks)"

text \<open>\<open>order\<close> is the order in which Go's \<open>range\<close> happens to visit the directories of \<open>groups\<close>.\<close>

definition normalizeCompilationAlbums ::
  "text_env \<Rightarrow> (string list \<Rightarrow> string list) \<Rightarrow> (string \<Rightarrow> bool) \<Rightarrow> TrackSource list \<Rightarrow> TrackSource list" where
  "normalizeCompilationAlbums env order explicitAlbumArtists tracks =
    foldl (\<lambda>ts d. normalize_group env explicitAlbumArtists d ts) tracks (order (directories tracks))"

definition changedAlbumAliases ::
  "(AlbumAlias list \<Rightarrow> AlbumAlias list) \<Rightarrow> TrackSource list \<Rightarrow> (string \<Rightarrow> string) \<Rightarrow> AlbumAlias list" where
  "changedAlbumAliases order tracks originalAlbumIDs =
    order (remdups (map (\<lambda>s. \<lparr>alias_AliasID = originalAlbumIDs (ref_Key (ts_Ref s)), alias_TrackID = track_ID (ts_Track s)\<rparr>)
      (filter (\<lambda>s. originalAlbumIDs (ref_Key (ts_Ref s)) \<noteq> ''''
                   \<and> originalAlbumIDs (ref_Key (ts_Ref s)) \<noteq> track_AlbumID (ts_Track s)) tracks)))"

section \<open>The walk\<close>

record file_info =
  fi_Regular :: bool
  fi_ModTime :: time

text \<open>One call of the function given to \<open>filepath.WalkDir\<close>: what the context, the walk, \<open>entry.Info\<close> and
  \<open>filepath.Rel\<close> report there.\<close>

record walk_visit =
  wv_ctxErr :: "go_error option"
  wv_Path :: string
  wv_walkErr :: "go_error option"
  wv_IsDir :: bool
  wv_Info :: "file_info result"
  wv_Rel :: "string result"

record 's Scanner =
  sn_Abs :: "string result"
  sn_Stat :: "string \<Rightarrow> bool result"
  sn_walk :: "walk_visit list"
  sn_Extract :: "string \<Rightarrow> Metadata result"
  sn_artwork :: "(string \<Rightarrow> ('s, string) action) option"
  sn_ReplaceProviderTracks :: "string \<Rightarrow> TrackSource list \<Rightarrow> AlbumAlias list \<Rightarrow> ('s, unit) action"
  sn_SaveTrackAlias :: "(string \<Rightarrow> string \<Rightarrow> ('s, unit) action) option"
  sn_dir_order :: "string list \<Rightarrow> string list"
  sn_alias_order :: "AlbumAlias list \<Rightarrow> AlbumAlias list"

record scan_acc =
  acc_tracks :: "TrackSource list"
  acc_warnings :: "Warning list"
  acc_artworkIDs :: "string \<rightharpoonup> string"
  acc_explicit :: "string \<Rightarrow> bool"
  acc_original :: "string \<Rightarrow> string"

definition zero_acc :: scan_acc where
  "zero_acc = \<lparr>acc_tracks = [], acc_warnings = [], acc_artworkIDs = Map.empty, acc_explicit = (\<lambda>_. False),
     acc_original = (\<lambda>_. '''')\<rparr>"

definition warn :: "walk_visit \<Rightarrow> go_error \<Rightarrow> scan_acc \<Rightarrow> scan_acc" where
  "warn v err acc = acc\<lparr>acc_warnings := acc_warnings acc @ [\<lparr>wn_Path = wv_Path v, wn_Err = err\<rparr>]\<rparr>"

definition add_track :: "TrackSource \<Rightarrow> scan_acc \<Rightarrow> scan_acc" where
  "add_track s acc = acc\<lparr>acc_tracks := acc_tracks acc @ [s]\<rparr>"

definition set_cover :: "string \<Rightarrow> TrackSource \<Rightarrow> TrackSource" where
  "set_cover coverArtID s = s\<lparr>ts_Track := (ts_Track s)\<lparr>track_CoverArtID := coverArtID\<rparr>\<rparr>"

definition scan_artwork ::
  "text_env \<Rightarrow> 's Scanner \<Rightarrow> walk_visit \<Rightarrow> string option \<Rightarrow> TrackSource \<Rightarrow> scan_acc \<Rightarrow> ('s, scan_acc) action" where
  "scan_artwork env sn v artwork s acc =
    (case artwork of None \<Rightarrow> ret (add_track s acc)
     | Some picture \<Rightarrow> (case sn_artwork sn of None \<Rightarrow> ret (add_track s acc)
       | Some put \<Rightarrow> (case acc_artworkIDs acc (sha256 env picture) of
           Some coverArtID \<Rightarrow> ret (add_track (set_cover coverArtID s) acc)
         | None \<Rightarrow> tryE (put picture) (\<lambda>r. case r of
             Inl err \<Rightarrow> ret (add_track s (warn v (Wrap ''store artwork'' err) acc))
           | Inr coverArtID \<Rightarrow> ret (add_track (set_cover coverArtID s)
               (acc\<lparr>acc_artworkIDs := (acc_artworkIDs acc)(sha256 env picture \<mapsto> coverArtID)\<rparr>))))))"

definition isSupported :: "unicode_tables \<Rightarrow> string \<Rightarrow> bool" where
  "isSupported uc path \<longleftrightarrow> FromPath uc path \<noteq> None"

definition scan_visit :: "text_env \<Rightarrow> 's Scanner \<Rightarrow> walk_visit \<Rightarrow> scan_acc \<Rightarrow> ('s, scan_acc) action" where
  "scan_visit env sn v acc =
    (case wv_ctxErr v of Some err \<Rightarrow> fail err | None \<Rightarrow>
     (case wv_walkErr v of Some err \<Rightarrow> ret (warn v err acc) | None \<Rightarrow>
      if wv_IsDir v \<or> \<not> isSupported (unicode env) (wv_Path v) then ret acc
      else (case wv_Info v of Inl err \<Rightarrow> ret (warn v err acc) | Inr info \<Rightarrow>
        if \<not> fi_Regular info then ret acc
        else (case sn_Extract sn (wv_Path v) of Inl err \<Rightarrow> ret (warn v err acc) | Inr metadata \<Rightarrow>
          (case wv_Rel v of Inl err \<Rightarrow> ret (warn v err acc) | Inr key \<Rightarrow>
            let track = (makeTrack env key metadata)\<lparr>ts_DiscoveredAt := fi_ModTime info\<rparr>
            in scan_artwork env sn v (md_Artwork metadata) track
                 (acc\<lparr>acc_explicit := (acc_explicit acc)(key := md_AlbumArtistExplicit metadata),
                      acc_original := (acc_original acc)(key := track_AlbumID (ts_Track track))\<rparr>))))))"

fun scan_walk :: "text_env \<Rightarrow> 's Scanner \<Rightarrow> walk_visit list \<Rightarrow> scan_acc \<Rightarrow> ('s, scan_acc) action" where
  "scan_walk env sn [] acc = ret acc"
| "scan_walk env sn (v # vs) acc = bindE (scan_visit env sn v acc) (scan_walk env sn vs)"

definition legacyID :: "text_env \<Rightarrow> TrackSource \<Rightarrow> string" where
  "legacyID env s = StableID env ''track'' [LocalProvider, ref_Key (ts_Ref s)]"

fun save_legacy :: "text_env \<Rightarrow> (string \<Rightarrow> string \<Rightarrow> ('s, unit) action) \<Rightarrow> TrackSource list \<Rightarrow> ('s, unit) action" where
  "save_legacy env save [] = ret ()"
| "save_legacy env save (s # ss) =
    bindE (wrapE ''save local track alias'' (save (legacyID env s) (track_ID (ts_Track s))))
      (\<lambda>_. save_legacy env save ss)"

definition set_canonical :: "text_env \<Rightarrow> TrackSource \<Rightarrow> TrackSource" where
  "set_canonical env s = s\<lparr>ts_Track := (ts_Track s)\<lparr>track_ID := CanonicalTrackID env (ts_Track s)\<rparr>\<rparr>"

definition finish_tracks :: "text_env \<Rightarrow> 's Scanner \<Rightarrow> scan_acc \<Rightarrow> TrackSource list" where
  "finish_tracks env sn acc =
    map (set_canonical env) (normalizeCompilationAlbums env (sn_dir_order sn) (acc_explicit acc) (acc_tracks acc))"

definition Scanner_Scan :: "text_env \<Rightarrow> 's Scanner \<Rightarrow> ('s, Report) action" where
  "Scanner_Scan env sn =
    bindE (wrapE ''resolve music directory'' (liftR (sn_Abs sn))) (\<lambda>root.
     bindE (wrapE ''stat music directory'' (liftR (sn_Stat sn root))) (\<lambda>isDir.
     if \<not> isDir then fail (Errorf ''music path is not a directory'')
     else bindE (wrapE ''walk music directory'' (scan_walk env sn (sn_walk sn) zero_acc)) (\<lambda>acc.
         let tracks = finish_tracks env sn acc;
             aliases = changedAlbumAliases (sn_alias_order sn) tracks (acc_original acc)
         in bindE (wrapE ''replace local catalog'' (sn_ReplaceProviderTracks sn LocalProvider tracks aliases)) (\<lambda>_.
              bindE (case sn_SaveTrackAlias sn of None \<Rightarrow> ret () | Some save \<Rightarrow> save_legacy env save tracks) (\<lambda>_.
                ret \<lparr>rep_Tracks = int (length tracks), rep_Warnings = acc_warnings acc\<rparr>)))))"

section \<open>Compilation albums do not depend on the order of the map\<close>

text \<open>The reference: each track of a compilation directory is moved, judged by the tracks as they were
  before.\<close>

definition normalized :: "text_env \<Rightarrow> (string \<Rightarrow> bool) \<Rightarrow> TrackSource list \<Rightarrow> TrackSource \<Rightarrow> TrackSource" where
  "normalized env explicitAlbumArtists tracks s =
    (let d = path_Dir (ref_Key (ts_Ref s)); group = group_of d tracks in
     if d \<noteq> ''.'' \<and> d \<noteq> ''/'' \<and> isCompilation (unicode env) explicitAlbumArtists group
     then set_compilation env (compilationAlbumName (unicode env) group d) s else s)"

lemma set_compilation_sel [simp]:
  "ts_Ref (set_compilation env n s) = ts_Ref s"
  by (simp add: set_compilation_def)

lemma normalized_Ref [simp]: "ts_Ref (normalized env ex tracks s) = ts_Ref s"
  by (simp add: normalized_def Let_def)

lemma group_of_map:
  "(\<And>s. s \<in> set tracks \<Longrightarrow> ts_Ref (f s) = ts_Ref s) \<Longrightarrow>
   (\<And>s. s \<in> set tracks \<Longrightarrow> path_Dir (ref_Key (ts_Ref s)) = d \<Longrightarrow> f s = s) \<Longrightarrow>
   group_of d (map f tracks) = group_of d tracks"
  by (induction tracks) (auto simp: group_of_def)

lemma foldl_normalize_group:
  "distinct ds \<Longrightarrow> ''.'' \<notin> set ds \<Longrightarrow> ''/'' \<notin> set ds \<Longrightarrow>
   foldl (\<lambda>ts d. normalize_group env ex d ts) tracks ds =
   map (\<lambda>s. if path_Dir (ref_Key (ts_Ref s)) \<in> set ds then normalized env ex tracks s else s) tracks"
proof (induction ds rule: rev_induct)
  case Nil
  show ?case by simp
next
  case (snoc d ds)
  let ?f = "\<lambda>s. if path_Dir (ref_Key (ts_Ref s)) \<in> set ds then normalized env ex tracks s else s"
  have "group_of d (map ?f tracks) = group_of d tracks"
    using snoc.prems by (intro group_of_map) auto
  with snoc show ?case
    by (auto simp: normalize_group_def Let_def normalized_def)
qed

lemma mem_directories:
  "s \<in> set tracks \<Longrightarrow> path_Dir (ref_Key (ts_Ref s)) \<in> set (directories tracks) \<longleftrightarrow>
     path_Dir (ref_Key (ts_Ref s)) \<noteq> ''.'' \<and> path_Dir (ref_Key (ts_Ref s)) \<noteq> ''/''"
  by (auto simp: directories_def)

lemma normalize_closed:
  assumes "mset (order (directories tracks)) = mset (directories tracks)"
  shows "normalizeCompilationAlbums env order ex tracks = map (normalized env ex tracks) tracks"
proof -
  have s: "set (order (directories tracks)) = set (directories tracks)" using mset_eq_setD [OF assms] .
  have "distinct (directories tracks)" by (simp add: directories_def)
  then have d: "distinct (order (directories tracks))" using mset_eq_imp_distinct_iff [OF assms] by simp
  have "''.'' \<notin> set (order (directories tracks))" "''/'' \<notin> set (order (directories tracks))"
    unfolding s by (auto simp: directories_def)
  from foldl_normalize_group [OF d this] show ?thesis
    unfolding normalizeCompilationAlbums_def s
    by (auto simp: mem_directories normalized_def Let_def)
qed

section \<open>Scanned tracks are well formed\<close>

definition scanned_ok :: "text_env \<Rightarrow> TrackSource \<Rightarrow> bool" where
  "scanned_ok env s \<longleftrightarrow>
    (let t = ts_Track s in
     ref_Provider (ts_Ref s) = LocalProvider
     \<and> track_Artist t \<noteq> '''' \<and> track_Album t \<noteq> '''' \<and> track_AlbumArtist t \<noteq> ''''
     \<and> track_ArtistID t = CanonicalArtistID env (track_Artist t)
     \<and> track_AlbumArtistID t = CanonicalArtistID env (track_AlbumArtist t)
     \<and> track_AlbumID t = CanonicalAlbumID env (track_AlbumArtist t) (track_Album t))"

lemma makeTrack_ok: "scanned_ok env (makeTrack env key metadata)"
  by (auto simp: scanned_ok_def makeTrack_def ApplyMetadata_def Let_def)

lemma scanned_ok_upd [simp]:
  "scanned_ok env (s\<lparr>ts_DiscoveredAt := t\<rparr>) = scanned_ok env s"
  "scanned_ok env (set_cover c s) = scanned_ok env s"
  "scanned_ok env (set_canonical env s) = scanned_ok env s"
  by (simp_all add: scanned_ok_def set_cover_def set_canonical_def Let_def)

lemma path_Base_ne: "path_Base p \<noteq> ''''"
proof -
  have "last (split_on slash q) \<noteq> ''''" if q: "q \<noteq> ''''" "last q \<noteq> slash" for q
    using q
  proof (induction q)
    case (Cons c q)
    then show ?case by (cases "q = []"; cases "split_on slash q") (auto split: if_splits)
  qed simp
  moreover have "last (rev (dropWhile (\<lambda>c. c = slash) (rev p))) \<noteq> slash"
    if "dropWhile (\<lambda>c. c = slash) (rev p) \<noteq> []"
    using that hd_dropWhile [OF that] by (simp add: last_rev)
  ultimately show ?thesis by (auto simp: path_Base_def Let_def)
qed

lemma compilationAlbumName_ne: "compilationAlbumName uc tracks d \<noteq> ''''"
proof -
  let ?n = "filter (\<lambda>n. n \<noteq> '''') (map (\<lambda>s. TrimSpace (track_Album (ts_Track s))) tracks)"
  have "last ?n \<noteq> ''''" if "length (remdups (map (ToLower uc) ?n)) = 1"
  proof -
    have "?n \<noteq> []" using that by (metis length_0_conv list.simps(8) remdups_eq_nil_iff zero_neq_one)
    then show ?thesis using last_in_set [of ?n] by auto
  qed
  then show ?thesis unfolding compilationAlbumName_def Let_def using path_Base_ne by presburger
qed

lemma normalized_ok: "scanned_ok env s \<Longrightarrow> scanned_ok env (normalized env ex tracks s)"
  by (auto simp: scanned_ok_def normalized_def set_compilation_def Let_def compilationAlbumName_ne)

text \<open>The files a walk takes into the catalog.\<close>

definition scanned_key :: "text_env \<Rightarrow> 's Scanner \<Rightarrow> walk_visit \<Rightarrow> string option" where
  "scanned_key env sn v =
    (case (wv_walkErr v, wv_Info v, sn_Extract sn (wv_Path v), wv_Rel v) of
       (None, Inr info, Inr _, Inr key) \<Rightarrow>
         if \<not> wv_IsDir v \<and> isSupported (unicode env) (wv_Path v) \<and> fi_Regular info then Some key else None
     | _ \<Rightarrow> None)"

definition key_of :: "TrackSource \<Rightarrow> string" where
  "key_of s = ref_Key (ts_Ref s)"

lemma key_of_upd [simp]:
  "key_of (set_cover c s) = key_of s" "key_of (set_canonical env s) = key_of s"
  "key_of (normalized env ex tracks s) = key_of s"
  "key_of (s\<lparr>ts_DiscoveredAt := t\<rparr>) = key_of s" "key_of (makeTrack env key metadata) = key"
  by (simp_all add: key_of_def set_cover_def set_canonical_def makeTrack_def Let_def)

definition artwork_keeps :: "('s \<Rightarrow> bool) \<Rightarrow> 's Scanner \<Rightarrow> bool" where
  "artwork_keeps P sn \<longleftrightarrow> (\<forall>put d. sn_artwork sn = Some put \<longrightarrow> preserves P (put d))"

definition acc_ok :: "text_env \<Rightarrow> string list \<Rightarrow> scan_acc \<Rightarrow> bool" where
  "acc_ok env keys acc \<longleftrightarrow> (\<forall>s \<in> set (acc_tracks acc). scanned_ok env s) \<and> map key_of (acc_tracks acc) = keys"

lemma scan_artwork_wp:
  assumes "acc_ok env keys acc" "scanned_ok env s" "P w"
    and put: "artwork_keeps P sn"
  shows "wp (scan_artwork env sn v artwork s acc)
    (\<lambda>r w'. P w' \<and> (\<exists>acc'. r = Inr acc' \<and> acc_ok env (keys @ [key_of s]) acc')) w"
proof -
  have ok: "acc_ok env (keys @ [key_of s]) (add_track s' acc')"
    if "acc_tracks acc' = acc_tracks acc" "scanned_ok env s'" "key_of s' = key_of s" for s' acc'
    using assms(1) that by (auto simp: acc_ok_def add_track_def)
  show ?thesis
  proof (cases artwork)
    case (Some d)
    show ?thesis
    proof (cases "sn_artwork sn")
      case (Some p)
      have "wp (p d) (\<lambda>r w'. P w') w"
        using put Some assms(3) by (auto simp: artwork_keeps_def intro: wpI dest: preservesD)
      then show ?thesis using Some \<open>artwork = _\<close> ok assms(2,3)
        by (cases "acc_artworkIDs acc (sha256 env d)")
          (auto simp: scan_artwork_def wp_simps warn_def elim!: wp_mono split: sum.split)
    qed (use Some ok assms in \<open>auto simp: scan_artwork_def wp_simps\<close>)
  qed (use ok assms in \<open>auto simp: scan_artwork_def wp_simps\<close>)
qed

lemma scan_visit_wp:
  assumes "acc_ok env keys acc" "P w"
    and put: "artwork_keeps P sn"
  shows "wp (scan_visit env sn v acc)
    (\<lambda>r w'. P w' \<and> (\<forall>acc'. r = Inr acc' \<longrightarrow>
       acc_ok env (keys @ (case scanned_key env sn v of None \<Rightarrow> [] | Some k \<Rightarrow> [k])) acc')) w"
proof -
  have w: "acc_ok env keys (warn v e acc)" for e using assms(1) by (simp add: acc_ok_def warn_def)
  have a: "acc_ok env keys (acc\<lparr>acc_explicit := f, acc_original := g\<rparr>)" for f g
    using assms(1) by (simp add: acc_ok_def)
  show ?thesis
  proof (cases "wv_ctxErr v = None \<and> scanned_key env sn v \<noteq> None")
    case True
    then obtain info metadata key where v: "wv_ctxErr v = None" "wv_walkErr v = None" "wv_Info v = Inr info"
      "sn_Extract sn (wv_Path v) = Inr metadata" "wv_Rel v = Inr key" "\<not> wv_IsDir v"
      "isSupported (unicode env) (wv_Path v)" "fi_Regular info" "scanned_key env sn v = Some key"
      by (auto simp: scanned_key_def split: option.splits sum.splits if_splits)
    let ?s = "(makeTrack env key metadata)\<lparr>ts_DiscoveredAt := fi_ModTime info\<rparr>"
    have "scanned_ok env ?s" by (simp add: makeTrack_ok)
    note art = scan_artwork_wp [where P = P, OF a this assms(2) put]
    show ?thesis using v by (simp add: scan_visit_def Let_def) (rule wp_mono [OF art], auto)
  next
    case False
    with w assms show ?thesis
      by (auto simp: scan_visit_def scanned_key_def wp_simps Let_def split: option.splits sum.splits)
  qed
qed

lemma scan_walk_wp:
  assumes put: "artwork_keeps P sn"
  shows "acc_ok env keys acc \<Longrightarrow> P w \<Longrightarrow>
    wp (scan_walk env sn vs acc)
    (\<lambda>r w'. P w' \<and> (\<forall>acc'. r = Inr acc' \<longrightarrow> acc_ok env (keys @ List.map_filter (scanned_key env sn) vs) acc')) w"
proof (induction vs arbitrary: keys acc w)
  case (Cons v vs)
  show ?case unfolding scan_walk.simps
  proof (rule wp_bindI [OF scan_visit_wp [where P = P, OF Cons.prems put]], goal_cases)
    case (2 x s')
    then show ?case
      by (intro wp_mono [OF Cons.IH [where keys = "keys @ (case scanned_key env sn v of None \<Rightarrow> [] | Some k \<Rightarrow> [k])"]])
        (auto simp: List.map_filter_simps split: option.splits)
  qed auto
qed (simp add: wp_simps List.map_filter_simps)

lemma acc_ok_zero [simp]: "acc_ok env [] zero_acc"
  by (simp add: acc_ok_def zero_acc_def)

lemma CanonicalTrackID_upd [simp]: "CanonicalTrackID env (t\<lparr>track_ID := i\<rparr>) = CanonicalTrackID env t"
  by (simp add: CanonicalTrackID_alt effective_album_artist_def effective_number_def)

lemma set_canonical_ID [simp]: "track_ID (ts_Track (set_canonical env s)) = CanonicalTrackID env (ts_Track (set_canonical env s))"
  by (simp add: set_canonical_def)

lemma finish_tracks_ok:
  assumes "acc_ok env keys acc" "\<And>ds. mset (sn_dir_order sn ds) = mset ds"
  shows "\<forall>s \<in> set (finish_tracks env sn acc). scanned_ok env s \<and> track_ID (ts_Track s) = CanonicalTrackID env (ts_Track s)"
    and "map key_of (finish_tracks env sn acc) = keys"
  using assms by (auto simp: finish_tracks_def normalize_closed acc_ok_def normalized_ok)

section \<open>The catalog a scanner writes to\<close>

text \<open>What a scan relies on: replacing the files of a provider is all or nothing and rejects a file that
  is reported twice; an alias is remembered and disturbs nothing else.\<close>

locale scan_store =
  fixes replace :: "string \<Rightarrow> TrackSource list \<Rightarrow> AlbumAlias list \<Rightarrow> ('s, unit) action"
    and save :: "string \<Rightarrow> string \<Rightarrow> ('s, unit) action"
    and inv :: "'s \<Rightarrow> bool"
    and files :: "'s \<Rightarrow> string \<Rightarrow> (string \<times> string) list"
    and ids :: "'s \<Rightarrow> string set"
    and aliases :: "'s \<Rightarrow> string \<rightharpoonup> string"
  assumes replace_wp: "inv s \<Longrightarrow> wp (replace p ss al) (\<lambda>r s'. inv s' \<and> (case r of
        Inl _ \<Rightarrow> files s' p = files s p
      | Inr _ \<Rightarrow> files s' p = map (\<lambda>x. (key_of x, track_ID (ts_Track x))) ss \<and> distinct (map key_of ss)
          \<and> (\<forall>x \<in> set ss. track_ID (ts_Track x) \<in> ids s'))) s"
    and save_wp: "inv s \<Longrightarrow> wp (save a i) (\<lambda>r s'. inv s' \<and> files s' = files s \<and> ids s' = ids s
       \<and> (r = Inr () \<longrightarrow> aliases s' = (if a = '''' \<or> i = '''' \<or> a = i then aliases s else (aliases s)(a \<mapsto> i)))) s"
begin

lemma save_legacy_wp:
  "inv s \<Longrightarrow> \<forall>x \<in> set ss. track_ID (ts_Track x) \<in> ids s \<and> track_ID (ts_Track x) \<noteq> '''' \<Longrightarrow>
   wp (save_legacy env save ss) (\<lambda>r s'. inv s' \<and> files s' = files s \<and> ids s' = ids s
     \<and> (case r of Inl e \<Rightarrow> (\<exists>e'. e = Wrap ''save local track alias'' e')
        | Inr _ \<Rightarrow> (\<forall>a. a \<notin> legacyID env ` set ss \<longrightarrow> aliases s' a = aliases s a)
          \<and> (distinct (map (legacyID env) ss) \<longrightarrow> (\<forall>x \<in> set ss. legacyID env x \<notin> ids s \<longrightarrow>
               aliases s' (legacyID env x) = Some (track_ID (ts_Track x)))))) s"
proof (induction ss arbitrary: s)
  case (Cons x ss)
  have ne: "legacyID env x \<noteq> ''''" by (simp add: legacyID_def StableID_def Let_def)
  show ?case unfolding save_legacy.simps
  proof (rule wp_bind_wrapI [OF save_wp [OF Cons.prems(1)]], goal_cases)
    case (2 u s')
    then have "inv s'" "files s' = files s" "ids s' = ids s"
      "\<forall>x \<in> set ss. track_ID (ts_Track x) \<in> ids s' \<and> track_ID (ts_Track x) \<noteq> ''''"
      "aliases s' = (if legacyID env x = '''' \<or> track_ID (ts_Track x) = '''' \<or> legacyID env x = track_ID (ts_Track x)
         then aliases s else (aliases s)(legacyID env x \<mapsto> track_ID (ts_Track x)))"
      using Cons.prems(2) by auto
    with Cons.prems(2) ne show ?case
      by (intro wp_mono [OF Cons.IH]) (auto split: sum.splits)
  qed auto
qed (simp add: wp_simps)

definition scan_result :: "text_env \<Rightarrow> string list \<Rightarrow> 's \<Rightarrow> Report result \<Rightarrow> 's \<Rightarrow> bool" where
  "scan_result env keys s r s' \<longleftrightarrow> inv s' \<and> (case r of
     Inl e \<Rightarrow> files s' LocalProvider = files s LocalProvider \<or> (\<exists>e'. e = Wrap ''save local track alias'' e')
   | Inr report \<Rightarrow> \<exists>tracks. files s' LocalProvider = map (\<lambda>x. (key_of x, track_ID (ts_Track x))) tracks
       \<and> map key_of tracks = keys \<and> rep_Tracks report = int (length tracks)
       \<and> (distinct (map (legacyID env) tracks) \<longrightarrow> (\<forall>x \<in> set tracks. legacyID env x \<notin> ids s' \<longrightarrow>
            aliases s' (legacyID env x) = Some (track_ID (ts_Track x)))))"

lemma scan_failed: "inv s' \<Longrightarrow> files s' LocalProvider = files s LocalProvider \<Longrightarrow> scan_result env keys s (Inl e) s'"
  by (simp add: scan_result_def)

lemma Scan_wp:
  assumes "inv s" "sn_ReplaceProviderTracks sn = replace" "sn_SaveTrackAlias sn = Some save"
    "artwork_keeps (\<lambda>v. inv v \<and> files v LocalProvider = files s LocalProvider) sn"
    "\<And>ds. mset (sn_dir_order sn ds) = mset ds"
  shows "wp (Scanner_Scan env sn) (scan_result env (List.map_filter (scanned_key env sn) (sn_walk sn)) s) s"
proof -
  let ?keys = "List.map_filter (scanned_key env sn) (sn_walk sn)"
  let ?P = "\<lambda>v. inv v \<and> files v LocalProvider = files s LocalProvider"
  have walk: "wp (scan_walk env sn (sn_walk sn) zero_acc)
      (\<lambda>r w'. ?P w' \<and> (\<forall>acc'. r = Inr acc' \<longrightarrow> acc_ok env ([] @ ?keys) acc')) s"
    by (rule scan_walk_wp [where P = ?P]) (use assms in auto)
  have tail: "wp (let tracks = finish_tracks env sn acc;
             al = changedAlbumAliases (sn_alias_order sn) tracks (acc_original acc)
         in bindE (wrapE ''replace local catalog'' (replace LocalProvider tracks al)) (\<lambda>_.
              bindE (save_legacy env save tracks) (\<lambda>_.
                ret \<lparr>rep_Tracks = int (length tracks), rep_Warnings = acc_warnings acc\<rparr>)))
       (scan_result env ?keys s) s1"
    if acc: "acc_ok env ?keys acc" and P: "?P s1" for acc s1
  proof -
    note fin = finish_tracks_ok [OF acc, of sn, OF assms(5)]
    have ne: "\<forall>x \<in> set (finish_tracks env sn acc). track_ID (ts_Track x) \<noteq> ''''"
      using fin(1) by (auto simp: CanonicalTrackID_alt StableID_def Let_def)
    show ?thesis unfolding Let_def
    proof (rule wp_bind_wrapI [OF replace_wp], goal_cases)
      case (3 u s2)
      then have s2: "inv s2" "\<forall>x \<in> set (finish_tracks env sn acc). track_ID (ts_Track x) \<in> ids s2 \<and> track_ID (ts_Track x) \<noteq> ''''"
        "files s2 LocalProvider = map (\<lambda>x. (key_of x, track_ID (ts_Track x))) (finish_tracks env sn acc)"
        using ne by auto
      show ?case
        by (rule wp_bindI [OF save_legacy_wp [OF s2(1,2)]])
          (use s2(3) fin(2) in \<open>auto simp: wp_simps scan_result_def intro!: exI [of _ "finish_tracks env sn acc"]\<close>)
    qed (use P in \<open>auto intro: scan_failed\<close>)
  qed
  have lift: "wp (bindE (wrapE msg (liftR x)) k) Q s = (case x of Inl e \<Rightarrow> Q (Inl (Wrap msg e)) s | Inr y \<Rightarrow> wp (k y) Q s)"
    for msg and x :: "'x result" and k :: "'x \<Rightarrow> ('s, Report) action" and Q
    by (cases x) (simp_all add: wp_simps)
  have body: "wp (bindE (wrapE ''walk music directory'' (scan_walk env sn (sn_walk sn) zero_acc)) (\<lambda>acc.
         let tracks = finish_tracks env sn acc;
             al = changedAlbumAliases (sn_alias_order sn) tracks (acc_original acc)
         in bindE (wrapE ''replace local catalog'' (replace LocalProvider tracks al)) (\<lambda>_.
              bindE (save_legacy env save tracks) (\<lambda>_.
                ret \<lparr>rep_Tracks = int (length tracks), rep_Warnings = acc_warnings acc\<rparr>))))
       (scan_result env ?keys s) s"
    by (rule wp_bind_wrapI [OF walk scan_failed tail]) auto
  show ?thesis unfolding Scanner_Scan_def assms(2,3) option.case lift
    using body by (auto simp: wp_if wp_fail scan_failed assms(1) split: sum.split)
qed

end

section \<open>Scanning into the SQL catalog\<close>

definition provider_files :: "world \<Rightarrow> string \<Rightarrow> (string \<times> string) list" where
  "provider_files w p = map (\<lambda>r. (sr_source_key r, sr_track_id r)) (filter (\<lambda>r. sr_provider r = p) (w_track_sources w))"

definition track_ids :: "world \<Rightarrow> string set" where
  "track_ids w = track_ID ` set (w_tracks w)"

definition track_alias :: "world \<Rightarrow> string \<rightharpoonup> string" where
  "track_alias w a = map_option snd (find_key fst a (w_track_aliases w))"

lemma resolve_track_alias: "i \<notin> track_ids w \<Longrightarrow> resolve_track w i = track_alias w i"
  by (simp add: resolve_track_def track_ids_def track_alias_def)

lemma Replace_laws:
  assumes "sqlite_ReplaceProviderTracks p ss al w = (r, w')" "wf_catalog w"
  shows "wf_catalog w'"
    and "r = Inl e \<Longrightarrow> provider_files w' p = provider_files w p"
    and "r = Inr u \<Longrightarrow> provider_files w' p = map (\<lambda>x. (key_of x, track_ID (ts_Track x))) ss \<and> distinct (map key_of ss)
          \<and> (\<forall>x \<in> set ss. track_ID (ts_Track x) \<in> track_ids w')"
proof -
  show wf: "wf_catalog w'" by (rule preservesD [OF catalog_operations_wf(1) assms(2,1)])
  show "provider_files w' p = provider_files w p" if "r = Inl e"
  proof -
    have "store_of w' = store_of w"
      using assms(1) that by (simp add: sqlite_ReplaceProviderTracks_def db_tx_failed)
    from store_of_eq_tables(2) [OF this] show ?thesis by (simp add: provider_files_def)
  qed
  assume "r = Inr u"
  let ?o = "filter (\<lambda>s. sr_provider s \<noteq> p) (w_track_sources w)"
  note ok = ReplaceProviderTracks_ok [OF assms(1) [unfolded \<open>r = Inr u\<close>] assms(2) refl]
  have "filter (\<lambda>r. sr_provider r = p) (map source_row_of ss) = map source_row_of ss"
    using ok by (auto simp: source_row_of_def filter_id_conv)
  then have "provider_files w' p = map (\<lambda>x. (key_of x, track_ID (ts_Track x))) ss"
    using ok by (simp add: provider_files_def source_row_of_def key_of_def)
  moreover have "distinct (map key_of ss)"
  proof -
    have "distinct (map source_key_of (w_track_sources w'))" using wf by (simp add: wf_catalog_def)
    then have "distinct (map (source_key_of \<circ> source_row_of) ss)" using ok by simp
    then show ?thesis using ok
      by (auto simp: distinct_map inj_on_def source_key_of_def source_row_of_def key_of_def)
  qed
  moreover have "\<forall>x \<in> set ss. track_ID (ts_Track x) \<in> track_ids w'"
    using ok foldl_upsert_ids [of "filter (\<lambda>t. track_ID t \<in> sr_track_id ` set ?o) (w_tracks w)" ss]
    by (simp add: track_ids_def)
  ultimately show "provider_files w' p = map (\<lambda>x. (key_of x, track_ID (ts_Track x))) ss \<and> distinct (map key_of ss)
      \<and> (\<forall>x \<in> set ss. track_ID (ts_Track x) \<in> track_ids w')" by blast
qed

interpretation sql_scan: scan_store sqlite_ReplaceProviderTracks sqlite_SaveTrackAlias wf_catalog provider_files track_ids track_alias
proof
  show "wp (sqlite_ReplaceProviderTracks p ss al) (\<lambda>r s'. wf_catalog s' \<and> (case r of
        Inl _ \<Rightarrow> provider_files s' p = provider_files s p
      | Inr _ \<Rightarrow> provider_files s' p = map (\<lambda>x. (key_of x, track_ID (ts_Track x))) ss \<and> distinct (map key_of ss)
          \<and> (\<forall>x \<in> set ss. track_ID (ts_Track x) \<in> track_ids s'))) s"
    if "wf_catalog s" for s p ss al
    by (rule wpI) (auto dest: Replace_laws [OF _ that] split: sum.split)
  show "wp (sqlite_SaveTrackAlias a i) (\<lambda>r s'. wf_catalog s' \<and> provider_files s' = provider_files s \<and> track_ids s' = track_ids s
       \<and> (r = Inr () \<longrightarrow> track_alias s' = (if a = '''' \<or> i = '''' \<or> a = i then track_alias s else (track_alias s)(a \<mapsto> i)))) s"
    if "wf_catalog s" for s a i
  proof (rule wpI, intro conjI impI)
    fix r s' assume run: "sqlite_SaveTrackAlias a i s = (r, s')"
    show "wf_catalog s'" by (rule preservesD [OF catalog_operations_wf(3) that run])
    show "provider_files s' = provider_files s" "track_ids s' = track_ids s"
      using run by (auto simp: sqlite_SaveTrackAlias_def wrapE_def ret_def db_stmt_def provider_files_def track_ids_def fun_eq_iff
        split: if_splits)
    show "track_alias s' = (if a = '''' \<or> i = '''' \<or> a = i then track_alias s else (track_alias s)(a \<mapsto> i))" if "r = Inr ()"
      using run that by (auto simp: sqlite_SaveTrackAlias_def db_stmt_def track_alias_def fun_eq_iff split: if_splits)
  qed
qed

definition NewScanner where
  "NewScanner ab st walk ex artwork dirs als = \<lparr>sn_Abs = ab, sn_Stat = st, sn_walk = walk, sn_Extract = ex,
     sn_artwork = artwork, sn_ReplaceProviderTracks = sqlite_ReplaceProviderTracks,
     sn_SaveTrackAlias = Some sqlite_SaveTrackAlias, sn_dir_order = dirs, sn_alias_order = als\<rparr>"

lemma NewScanner_sel [simp]:
  "sn_walk (NewScanner ab st walk ex artwork dirs als) = walk"
  "sn_artwork (NewScanner ab st walk ex artwork dirs als) = artwork"
  "sn_dir_order (NewScanner ab st walk ex artwork dirs als) = dirs"
  "sn_ReplaceProviderTracks (NewScanner ab st walk ex artwork dirs als) = sqlite_ReplaceProviderTracks"
  "sn_SaveTrackAlias (NewScanner ab st walk ex artwork dirs als) = Some sqlite_SaveTrackAlias"
  by (simp_all add: NewScanner_def)

lemma tables_of_eq:
  assumes "tables_of v = tables_of w"
  shows "wf_catalog v = wf_catalog w" "provider_files v = provider_files w"
proof -
  note * = arg_cong [OF assms, unfolded tables_of_def store_of_def]
  have "w_tracks v = w_tracks w" "w_track_sources v = w_track_sources w" "w_track_aliases v = w_track_aliases w"
    "w_album_alias_tracks v = w_album_alias_tracks w" "w_artist_aliases v = w_artist_aliases w"
    using * [of w_tracks] * [of w_track_sources] * [of w_track_aliases] * [of w_album_alias_tracks] * [of w_artist_aliases]
    by simp_all
  then show "wf_catalog v = wf_catalog w" "provider_files v = provider_files w"
    by (simp_all add: wf_catalog_def provider_files_def fun_eq_iff)
qed

lemma keeps_tables_artwork:
  assumes "\<forall>put d T. artwork = Some put \<longrightarrow> preserves (\<lambda>v. tables_of v = T) (put d)"
  shows "artwork_keeps (\<lambda>v. wf_catalog v \<and> provider_files v p = F) (NewScanner ab st walk ex artwork dirs als)"
  unfolding artwork_keeps_def
proof (intro allI impI preservesI)
  fix put d s r s' assume a: "sn_artwork (NewScanner ab st walk ex artwork dirs als) = Some put"
    "wf_catalog s \<and> provider_files s p = F" "put d s = (r, s')"
  then have "preserves (\<lambda>v. tables_of v = tables_of s) (put d)" using assms by simp
  note eq = tables_of_eq [OF preservesD [OF this refl a(3)]]
  show "wf_catalog s' \<and> provider_files s' p = F" using a(2) unfolding eq .
qed

section \<open>Properties\<close>


text \<open>
  C23: every track a scan hands to the catalog is well formed: it belongs to the local provider, its
  artist, album and album artist are not empty, and its four identifiers are the canonical ones of these
  names, also for the tracks of merged compilations.
\<close>

theorem scanned_tracks_typed:
  assumes "scan_walk env sn vs zero_acc w = (Inr acc, w')" "\<forall>ds. mset (sn_dir_order sn ds) = mset ds"
    "s \<in> set (finish_tracks env sn acc)"
  shows "scanned_ok env s \<and> track_ID (ts_Track s) = CanonicalTrackID env (ts_Track s)"
proof -
  have "wp (scan_walk env sn vs zero_acc) (\<lambda>r w'. True \<and> (\<forall>acc'. r = Inr acc' \<longrightarrow>
      acc_ok env ([] @ List.map_filter (scanned_key env sn) vs) acc')) w"
    by (rule scan_walk_wp [where P = "\<lambda>_. True"]) (auto simp: artwork_keeps_def preserves_def)
  from wpD [OF this assms(1)] finish_tracks_ok(1) [of env _ acc sn] assms(2,3) show ?thesis by blast
qed

text \<open>
  merging compilations does not depend on the order in which Go iterates over the directories: any
  order gives what the reference gives, which judges every directory by the tracks before the merge.
\<close>

theorem normalizeCompilationAlbums_equiv:
  assumes "mset (order (directories tracks)) = mset (directories tracks)"
  shows "normalizeCompilationAlbums env order ex tracks = map (normalized env ex tracks) tracks"
  using assms by (rule normalize_closed)

section \<open>A small scan\<close>

definition demo_metadata :: Metadata where
  "demo_metadata = \<lparr>md_Title = ''a'', md_Artist = ''x'', md_Album = ''y'', md_AlbumArtist = '''', md_AlbumArtistExplicit = False,
     md_TrackNumber = 1, md_DiscNumber = 1, md_Year = 2000, md_Genre = '''', md_Duration = second, md_Size = 1, md_BitRate = 1,
     md_Suffix = ''mp3'', md_ContentType = ''audio/mpeg'', md_Artwork = None\<rparr>"

definition demo_visit :: walk_visit where
  "demo_visit = \<lparr>wv_ctxErr = None, wv_Path = ''/m/a.mp3'', wv_walkErr = None, wv_IsDir = False,
     wv_Info = Inr \<lparr>fi_Regular = True, fi_ModTime = unix_epoch\<rparr>, wv_Rel = Inr ''a.mp3''\<rparr>"

definition demo_scanner :: "world Scanner" where
  "demo_scanner = NewScanner (Inr ''/m'') (\<lambda>_. Inr True) [demo_visit] (\<lambda>_. Inr demo_metadata) None rev rev"

lemma demo_dirs:
  "path_Dir ''a.mp3'' = ''.''" "path_Dir ''mix/a.mp3'' = ''mix''" "path_Dir ''mix/b.mp3'' = ''mix''" "path_Dir ''own/c.mp3'' = ''own''"
  by (simp_all add: path_Dir_def Clean_def HasPrefix_def clean_elements_def IsAbs_def clean_push_def)

lemma demo_mp3: "isSupported ascii_tables ''/m/a.mp3''"
proof -
  have "filepath_Ext ''/m/a.mp3'' = ''.mp3''" by (simp add: filepath_Ext_def path_base_def)
  moreover have "ToLower ascii_tables (TrimSpace ''.mp3'') = ''.mp3''" by (simp add: go_eval)
  moreover have "map_of supported ''.mp3'' = Some (fmt ''mp3'' ''audio/mpeg'')" by (simp add: supported_def)
  ultimately show ?thesis by (simp add: isSupported_def FromPath_def ByExtension_def HasPrefix_def)
qed

lemmas demo_paths = demo_dirs demo_mp3

lemma demo_env_unicode [simp]: "unicode demo_env = ascii_tables"
  by (simp add: demo_env_def)

definition demo_scanned :: TrackSource where
  "demo_scanned = (makeTrack demo_env ''a.mp3'' demo_metadata)\<lparr>ts_DiscoveredAt := unix_epoch\<rparr>"

lemma demo_walk:
  "\<exists>acc. scan_walk demo_env demo_scanner [demo_visit] zero_acc w = (Inr acc, w)
    \<and> acc_tracks acc = [demo_scanned] \<and> acc_original acc ''a.mp3'' = track_AlbumID (ts_Track demo_scanned)"
  by (simp add: demo_scanner_def NewScanner_def scan_visit_def demo_visit_def demo_paths run_simps demo_metadata_def
    scan_artwork_def add_track_def zero_acc_def demo_scanned_def Let_def)

lemma demo_key [simp]: "ts_Ref demo_scanned = \<lparr>ref_Provider = LocalProvider, ref_Key = ''a.mp3''\<rparr>"
  by (simp add: demo_scanned_def makeTrack_def Let_def)

lemma demo_finish:
  assumes "acc_tracks acc = [demo_scanned]" "acc_original acc ''a.mp3'' = track_AlbumID (ts_Track demo_scanned)"
  shows "finish_tracks demo_env demo_scanner acc = [set_canonical demo_env demo_scanned]"
    and "changedAlbumAliases rev [set_canonical demo_env demo_scanned] (acc_original acc) = []"
  using assms
  by (simp_all add: finish_tracks_def normalizeCompilationAlbums_def directories_def demo_scanner_def NewScanner_def demo_paths
    changedAlbumAliases_def set_canonical_def)

lemma demo_replace:
  "ref_Provider (ts_Ref s) = p \<Longrightarrow> \<exists>w'. sqlite_ReplaceProviderTracks p [s] [] empty_world = (Inr (), w')
     \<and> w_faults w' = [] \<and> track_ID (ts_Track s) \<in> track_ID ` set (w_tracks w')"
  by (simp add: sqlite_ReplaceProviderTracks_def db_tx_def db_exec_run db_query_run db_stmt_run run_simps
    empty_world_def source_row_of_def prepare_def insert_source_def
    delete_orphans_def delete_tracks_def orphaned_def upsert_track_def insert_album_alias_def Let_def)

lemma demo_scan_run:
  "\<exists>report w'. Scanner_Scan demo_env demo_scanner empty_world = (Inr report, w')"
proof -
  obtain acc where acc: "scan_walk demo_env demo_scanner [demo_visit] zero_acc empty_world = (Inr acc, empty_world)"
    "acc_tracks acc = [demo_scanned]" "acc_original acc ''a.mp3'' = track_AlbumID (ts_Track demo_scanned)"
    using demo_walk [of empty_world] by blast
  let ?s = "set_canonical demo_env demo_scanned"
  obtain w1 where w1: "sqlite_ReplaceProviderTracks LocalProvider [?s] [] empty_world = (Inr (), w1)" "w_faults w1 = []"
    "track_ID (ts_Track ?s) \<in> track_ID ` set (w_tracks w1)"
    using demo_replace [of ?s LocalProvider] by (auto simp: set_canonical_def)
  obtain w2 where "sqlite_SaveTrackAlias (legacyID demo_env ?s) (track_ID (ts_Track ?s)) w1 = (Inr (), w2)"
    using w1(2,3) by (auto simp: sqlite_SaveTrackAlias_def db_stmt_run run_simps)
  with acc w1 demo_finish [OF acc(2,3)] show ?thesis
    by (simp add: Scanner_Scan_def demo_scanner_def NewScanner_def run_simps Let_def)
qed


theorem scanned_tracks_typed_witness:
  "\<exists>acc s. scan_walk demo_env demo_scanner [demo_visit] zero_acc empty_world = (Inr acc, empty_world)
    \<and> s \<in> set (finish_tracks demo_env demo_scanner acc) \<and> scanned_ok demo_env s"
proof -
  obtain acc where acc: "scan_walk demo_env demo_scanner [demo_visit] zero_acc empty_world = (Inr acc, empty_world)"
    "acc_tracks acc = [demo_scanned]" "acc_original acc ''a.mp3'' = track_AlbumID (ts_Track demo_scanned)"
    using demo_walk [of empty_world] by blast
  then have "set_canonical demo_env demo_scanned \<in> set (finish_tracks demo_env demo_scanner acc)"
    by (simp add: demo_finish)
  with scanned_tracks_typed [OF acc(1) _ this] acc(1) show ?thesis
    by (auto simp: demo_scanner_def NewScanner_def)
qed

definition demo_compilation :: "TrackSource list" where
  "demo_compilation = map (\<lambda>(key, artist). makeTrack demo_env key (demo_metadata\<lparr>md_Artist := artist, md_Album := '''' \<rparr>))
     [(''mix/a.mp3'', ''x''), (''mix/b.mp3'', ''z''), (''own/c.mp3'', ''x'')]"

theorem normalizeCompilationAlbums_equiv_witness:
  "map (\<lambda>s. (track_AlbumArtist (ts_Track s), track_Album (ts_Track s)))
     (normalizeCompilationAlbums demo_env rev (\<lambda>_. False) demo_compilation)
   = [(''Various Artists'', ''mix''), (''Various Artists'', ''mix''), (''x'', ''Unknown Album'')]"
proof -
  have strs: "TrimSpace ''x'' = ''x''" "TrimSpace ''z'' = ''z''" "TrimSpace ''Unknown Album'' = ''Unknown Album''"
    "TrimSpace ''unknown album'' = ''unknown album''" "ToLower ascii_tables ''x'' = ''x''" "ToLower ascii_tables ''z'' = ''z''"
    "ToLower ascii_tables ''Unknown Album'' = ''unknown album''" "ToLower ascii_tables ''unknown album'' = ''unknown album''"
    by (simp_all add: go_eval)
  have "map (\<lambda>s. (track_AlbumArtist (ts_Track s), track_Album (ts_Track s)))
      (map (normalized demo_env (\<lambda>_. False) demo_compilation) demo_compilation)
    = [(''Various Artists'', ''mix''), (''Various Artists'', ''mix''), (''x'', ''Unknown Album'')]"
    by (simp add: demo_compilation_def normalized_def group_of_def makeTrack_def ApplyMetadata_def demo_metadata_def strs demo_dirs
      isCompilation_def compilationAlbumName_def isGenericCompilationAlbumName_def path_Base_def set_compilation_def Let_def)
  then show ?thesis using normalizeCompilationAlbums_equiv [of rev demo_compilation demo_env "\<lambda>_. False"] by simp
qed

end
