(* ===== verification/Discovery.thy ===== *)
theory Discovery
  imports Streaming Scanner
begin

text \<open>
  Discovery of tracks at a peer-to-peer source, \<open>core/services/discovery.go\<close>: search results are kept
  for half an hour in memory, a result can be added to the catalog together with up to eight equivalent
  sources, and the other files of its directory can be browsed. The provider is an interface; the service
  keeps its two maps beside the world of the catalog.
\<close>

section \<open>Matching recordings\<close>

definition discoveryRetention :: duration where "discoveryRetention = 30 * minute"
definition discoveryAlternativeLimit :: int where "discoveryAlternativeLimit = 100"
definition discoveryAlternativeMax :: nat where "discoveryAlternativeMax = 8"

definition discoveryStopWords :: "string list" where
  "discoveryStopWords = [''a'', ''an'', ''and'', ''of'', ''the'']"

definition discoveryVersionTokens :: "string list" where
  "discoveryVersionTokens = [''acoustic'', ''cover'', ''demo'', ''instrumental'', ''karaoke'', ''live'', ''remix'', ''remixed'']"

definition discoveryTokens :: "unicode_tables \<Rightarrow> string \<Rightarrow> string list" where
  "discoveryTokens uc str = FieldsFunc (ToLower uc str) (\<lambda>r. \<not> IsLetter uc r \<and> \<not> IsNumber uc r)"

definition isNumericToken :: "unicode_tables \<Rightarrow> string \<Rightarrow> bool" where
  "isNumericToken uc str \<longleftrightarrow> str \<noteq> '''' \<and> list_all (IsNumber uc) (runes_of str)"

definition meaningfulDiscoveryTokens :: "unicode_tables \<Rightarrow> string \<Rightarrow> bool \<Rightarrow> string list" where
  "meaningfulDiscoveryTokens uc str trimTrackNumber =
    (let tokens = discoveryTokens uc str;
         tokens = (if trimTrackNumber then dropWhile (isNumericToken uc) tokens else tokens)
     in filter (\<lambda>t. t \<notin> set discoveryStopWords) tokens)"

fun longest_token :: "string \<Rightarrow> string list \<Rightarrow> string" where
  "longest_token longest [] = longest"
| "longest_token longest (t # ts) =
    longest_token (if length (runes_of longest) < length (runes_of t) then t else longest) ts"

definition discoveryAlternativeQuery :: "unicode_tables \<Rightarrow> Track \<Rightarrow> string" where
  "discoveryAlternativeQuery uc track =
    (let artistTokens = meaningfulDiscoveryTokens uc (track_Artist track) False;
         titleTokens = meaningfulDiscoveryTokens uc (track_Title track) True
     in if titleTokens = [] then ''''
        else strings_Join
          ((case artistTokens of [] \<Rightarrow> [] | t # ts \<Rightarrow> [longest_token t ts]) @ titleTokens) '' '')"

definition sameDiscoveredRecording :: "unicode_tables \<Rightarrow> Track \<Rightarrow> TrackSource \<Rightarrow> bool" where
  "sameDiscoveredRecording uc selected candidate =
    (let haystack = set (discoveryTokens uc (strings_Join
           [track_Artist (ts_Track candidate), track_Title (ts_Track candidate), ts_DisplayPath candidate] '' ''));
         selectedVersions = set (filter (\<lambda>t. t \<in> set discoveryVersionTokens) (discoveryTokens uc (track_Title selected)));
         difference = track_Duration selected - track_Duration (ts_Track candidate)
     in list_all (\<lambda>t. t \<in> haystack)
          (meaningfulDiscoveryTokens uc (track_Artist selected) False @ meaningfulDiscoveryTokens uc (track_Title selected) True)
        \<and> list_all (\<lambda>t. t \<in> selectedVersions \<longleftrightarrow> t \<in> haystack) discoveryVersionTokens
        \<and> \<not> (track_Duration selected > 0 \<and> track_Duration (ts_Track candidate) > 0 \<and> \<bar>difference\<bar> > 20 * second))"

definition betterDiscoveryAlternative :: "unicode_tables \<Rightarrow> TrackSource \<Rightarrow> TrackSource \<Rightarrow> string \<Rightarrow> bool" where
  "betterDiscoveryAlternative uc left right preferredSuffix =
    (let leftFormat = EqualFold uc (track_Suffix (ts_Track left)) preferredSuffix;
         rightFormat = EqualFold uc (track_Suffix (ts_Track right)) preferredSuffix;
         l = ts_Availability left; r = ts_Availability right
     in if leftFormat \<noteq> rightFormat then leftFormat
        else if av_FreeUploadSlot l \<noteq> av_FreeUploadSlot r then av_FreeUploadSlot l
        else if av_QueueLength l \<noteq> av_QueueLength r then av_QueueLength l < av_QueueLength r
        else av_UploadSpeed l > av_UploadSpeed r)"

section \<open>The service\<close>

record cachedCollection =
  cc_value :: SourceCollection
  cc_cachedAt :: time

record discovery_state =
  dc_results :: "string \<rightharpoonup> TrackSource"
  dc_collections :: "string \<rightharpoonup> cachedCollection"

record 's DiscoveryService =
  dv_Search :: "SearchQuery \<Rightarrow> ('s, TrackSource list) action"
  dv_BrowseCollection :: "(TrackSource \<Rightarrow> ('s, SourceCollection) action) option"
  dv_SaveTrackSources :: "TrackSource list \<Rightarrow> ('s, unit) action"
  dv_SaveTrackAlias :: "(string \<Rightarrow> string \<Rightarrow> ('s, unit) action) option"
  dv_now :: "'s \<Rightarrow> time \<times> 's"

text \<open>An action of the world beside the maps, and a critical section on the maps.\<close>

definition on_world :: "('s, 'a) action \<Rightarrow> ('s \<times> 'd, 'a) action" where
  "on_world m sd = (let (r, s') = m (fst sd) in (r, (s', snd sd)))"

definition locked :: "('d \<Rightarrow> 'a \<times> 'd) \<Rightarrow> ('s \<times> 'd, 'a) action" where
  "locked f sd = (let (x, d') = f (snd sd) in (Inr x, (fst sd, d')))"

definition expired :: "time \<Rightarrow> TrackSource \<Rightarrow> bool" where
  "expired now result \<longleftrightarrow> IsZero (ts_DiscoveredAt result) \<or> time_Sub now (ts_DiscoveredAt result) > discoveryRetention"

definition purge_results :: "time \<Rightarrow> discovery_state \<Rightarrow> discovery_state" where
  "purge_results now d =
    (let gone = (\<lambda>i. case dc_results d i of None \<Rightarrow> False | Some result \<Rightarrow> expired now result)
     in d\<lparr>dc_results := (\<lambda>i. if gone i then None else dc_results d i),
          dc_collections := (\<lambda>i. if gone i then None else dc_collections d i)\<rparr>)"

definition keep_result :: "TrackSource \<Rightarrow> discovery_state \<Rightarrow> discovery_state" where
  "keep_result result d = d\<lparr>dc_results := (dc_results d)(track_ID (ts_Track result) \<mapsto> result),
     dc_collections := (dc_collections d)(track_ID (ts_Track result) := None)\<rparr>"

definition read_now :: "'s DiscoveryService \<Rightarrow> ('s \<times> 'd, time) action" where
  "read_now svc = on_world (readE (dv_now svc) ret)"

definition DiscoveryService_Search ::
  "'s DiscoveryService \<Rightarrow> SearchQuery \<Rightarrow> ('s \<times> discovery_state, TrackSource list) action" where
  "DiscoveryService_Search svc query =
    bindE (on_world (dv_Search svc query)) (\<lambda>results.
      bindE (read_now svc) (\<lambda>now.
        bindE (locked (\<lambda>d. ((), foldl (\<lambda>d result. keep_result result d) (purge_results now d) results))) (\<lambda>_.
          ret results)))"

fun pick_alternatives ::
  "unicode_tables \<Rightarrow> Track \<Rightarrow> time \<Rightarrow> TrackSource list \<Rightarrow> TrackSource list \<Rightarrow> TrackSource list" where
  "pick_alternatives uc selected now [] sources = sources"
| "pick_alternatives uc selected now (candidate # rest) sources =
    (if av_RequiresApproval (ts_Availability candidate) \<or> \<not> sameDiscoveredRecording uc selected candidate
     then pick_alternatives uc selected now rest sources
     else if ts_Ref candidate \<in> ts_Ref ` set sources then pick_alternatives uc selected now rest sources
     else let sources = sources @ [candidate\<lparr>ts_Track := selected, ts_DiscoveredAt := now - int (length sources)\<rparr>]
          in if length sources = discoveryAlternativeMax then sources
             else pick_alternatives uc selected now rest sources)"

definition findAlternativeSources ::
  "unicode_tables \<Rightarrow> 's DiscoveryService \<Rightarrow> Track \<Rightarrow> ('s, TrackSource list) action" where
  "findAlternativeSources uc svc selected =
    (let query = discoveryAlternativeQuery uc selected in
     if query = '''' then ret []
     else tryE (dv_Search svc \<lparr>sq_Text = query, sq_Limit = discoveryAlternativeLimit\<rparr>) (\<lambda>r. case r of
         Inl _ \<Rightarrow> ret []
       | Inr results \<Rightarrow> readE (dv_now svc) (\<lambda>now.
           ret (pick_alternatives uc selected now
             (SliceStable (\<lambda>a b. betterDiscoveryAlternative uc a b (track_Suffix selected)) results) []))))"

definition logical_track :: "text_env \<Rightarrow> Track \<Rightarrow> Track" where
  "logical_track env track =
    (if HasCanonicalTrackIdentity track then track\<lparr>track_ID := CanonicalTrackID env track\<rparr> else track)"

definition save_discovered ::
  "'s DiscoveryService \<Rightarrow> string \<Rightarrow> Track \<Rightarrow> TrackSource list \<Rightarrow> ('s, Track) action" where
  "save_discovered svc tid logicalTrack sources =
    bindE (wrapE ''save discovered track'' (dv_SaveTrackSources svc sources)) (\<lambda>_.
      bindE (case dv_SaveTrackAlias svc of
          Some save \<Rightarrow> if tid \<noteq> track_ID logicalTrack
            then wrapE ''save discovered track alias'' (save tid (track_ID logicalTrack)) else ret ()
        | None \<Rightarrow> ret ()) (\<lambda>_. ret logicalTrack))"

definition DiscoveryService_Add ::
  "text_env \<Rightarrow> 's DiscoveryService \<Rightarrow> string \<Rightarrow> ('s \<times> discovery_state, Track) action" where
  "DiscoveryService_Add env svc tid =
    bindE (locked (\<lambda>d. (dc_results d tid, d))) (\<lambda>found. case found of
      None \<Rightarrow> fail ErrDiscoveryResultNotFound
    | Some result \<Rightarrow>
      on_world (bindE (findAlternativeSources (unicode env) svc (ts_Track result)) (\<lambda>alternatives.
        let logicalTrack = logical_track env (ts_Track result)
        in save_discovered svc tid logicalTrack
             (map (\<lambda>a. a\<lparr>ts_Track := logicalTrack\<rparr>) (filter (\<lambda>a. ts_Ref a \<noteq> ts_Ref result) alternatives)
              @ [result\<lparr>ts_Track := logicalTrack\<rparr>]))))"

definition DiscoveryService_Refresh ::
  "unicode_tables \<Rightarrow> 's DiscoveryService \<Rightarrow> Track \<Rightarrow> ('s, unit) action" where
  "DiscoveryService_Refresh uc svc track =
    bindE (findAlternativeSources uc svc track) (\<lambda>sources.
      if sources = [] then fail ErrDiscoveryResultNotFound
      else wrapE ''save alternative track sources'' (dv_SaveTrackSources svc sources))"

definition DiscoveryService_Result ::
  "'s DiscoveryService \<Rightarrow> string \<Rightarrow> ('s \<times> discovery_state, TrackSource option) action" where
  "DiscoveryService_Result svc tid =
    bindE (read_now svc) (\<lambda>now.
      locked (\<lambda>d. case dc_results d tid of
          None \<Rightarrow> (None, d)
        | Some result \<Rightarrow>
            if expired now result
            then (None, d\<lparr>dc_results := (dc_results d)(tid := None), dc_collections := (dc_collections d)(tid := None)\<rparr>)
            else (Some result, d)))"

definition DiscoveryService_PreviewCollection ::
  "'s DiscoveryService \<Rightarrow> string \<Rightarrow> ('s \<times> discovery_state, SourceCollection) action" where
  "DiscoveryService_PreviewCollection svc tid =
    bindE (read_now svc) (\<lambda>now.
      bindE (locked (\<lambda>d. ((dc_results d tid, dc_collections d tid), d))) (\<lambda>(found, cached).
        case found of None \<Rightarrow> fail ErrDiscoveryResultNotFound
        | Some result \<Rightarrow>
          if cached \<noteq> None \<and> time_Sub now (cc_cachedAt (the cached)) \<le> discoveryRetention then ret (cc_value (the cached))
          else (case dv_BrowseCollection svc of
              None \<Rightarrow> fail ErrCollectionBrowsingUnsupported
            | Some browse \<Rightarrow>
                bindE (wrapE ''browse discovered collection'' (on_world (browse result))) (\<lambda>collection.
                  if sc_Tracks collection = [] then fail (Errorf ''discovered collection has no tracks'')
                  else bindE (locked (\<lambda>d. ((), d\<lparr>dc_collections :=
                         (dc_collections d)(tid \<mapsto> \<lparr>cc_value = collection, cc_cachedAt = now\<rparr>)\<rparr>)))
                       (\<lambda>_. ret collection)))))"

definition DiscoveryService_AddCollection ::
  "'s DiscoveryService \<Rightarrow> string \<Rightarrow> ('s \<times> discovery_state, SourceCollection) action" where
  "DiscoveryService_AddCollection svc tid =
    bindE (DiscoveryService_PreviewCollection svc tid) (\<lambda>collection.
      bindE (wrapE ''save discovered collection'' (on_world (dv_SaveTrackSources svc (sc_Tracks collection))))
        (\<lambda>_. ret collection))"

section \<open>Alternatives\<close>

lemma weak_order_better: "weak_order (\<lambda>a b. betterDiscoveryAlternative uc a b suf)"
  by (rule weak_orderI) (auto simp: betterDiscoveryAlternative_def Let_def split: if_splits)

text \<open>The reference: the acceptable candidates in order of preference, the first of every source,
  at most eight, each a nanosecond older than the one before.\<close>

fun first_of_ref :: "TrackSource list \<Rightarrow> TrackSource list" where
  "first_of_ref [] = []"
| "first_of_ref (c # cs) = c # filter (\<lambda>x. ts_Ref x \<noteq> ts_Ref c) (first_of_ref cs)"

definition acceptable :: "unicode_tables \<Rightarrow> Track \<Rightarrow> TrackSource \<Rightarrow> bool" where
  "acceptable uc selected c \<longleftrightarrow> \<not> av_RequiresApproval (ts_Availability c) \<and> sameDiscoveredRecording uc selected c"

definition stamp :: "Track \<Rightarrow> time \<Rightarrow> nat \<times> TrackSource \<Rightarrow> TrackSource" where
  "stamp selected now ic = (snd ic)\<lparr>ts_Track := selected, ts_DiscoveredAt := now - int (fst ic)\<rparr>"

definition alternatives :: "unicode_tables \<Rightarrow> Track \<Rightarrow> time \<Rightarrow> TrackSource list \<Rightarrow> TrackSource list" where
  "alternatives uc selected now candidates =
    map (stamp selected now) (enumerate 0 (take 8 (first_of_ref (filter (acceptable uc selected) candidates))))"

lemma stamp_Ref [simp]: "ts_Ref (stamp selected now ic) = ts_Ref (snd ic)"
  by (simp add: stamp_def)

lemma first_of_ref_distinct: "distinct (map ts_Ref (first_of_ref cs))"
  by (induction cs) (auto simp: distinct_map intro: inj_on_subset)

lemma filter_first_of_ref:
  "filter (\<lambda>x. ts_Ref x \<notin> A) (first_of_ref (c # cs)) =
    (if ts_Ref c \<in> A then filter (\<lambda>x. ts_Ref x \<notin> A) (first_of_ref cs)
     else c # filter (\<lambda>x. ts_Ref x \<notin> insert (ts_Ref c) A) (first_of_ref cs))"
  by (auto intro!: filter_cong)

lemma pick_alternatives_reference:
  "length sources < 8 \<Longrightarrow> pick_alternatives uc selected now cs sources =
    sources @ map (stamp selected now) (enumerate (length sources)
      (take (8 - length sources) (filter (\<lambda>x. ts_Ref x \<notin> ts_Ref ` set sources) (first_of_ref (filter (acceptable uc selected) cs)))))"
proof (induction uc selected now cs sources rule: pick_alternatives.induct)
  case (2 uc selected now c cs sources)
  show ?case
  proof (cases "acceptable uc selected c \<and> ts_Ref c \<notin> ts_Ref ` set sources")
    case True
    let ?s = "sources @ [c\<lparr>ts_Track := selected, ts_DiscoveredAt := now - int (length sources)\<rparr>]"
    have suc: "8 - length sources = Suc (8 - length ?s)" using "2.prems" by simp
    have st: "stamp selected now (length sources, c) = c\<lparr>ts_Track := selected, ts_DiscoveredAt := now - int (length sources)\<rparr>"
      by (simp add: stamp_def)
    from True show ?thesis
      using "2.IH"(3) [OF _ _ refl] "2.prems"
      by (auto simp: acceptable_def discoveryAlternativeMax_def Let_def filter_first_of_ref suc st simp del: first_of_ref.simps)
  next
    case False
    then show ?thesis using 2 by (auto simp: acceptable_def filter_first_of_ref simp del: first_of_ref.simps)
  qed
qed simp

lemma pick_alternatives_eq: "pick_alternatives uc selected now cs [] = alternatives uc selected now cs"
  by (simp add: pick_alternatives_reference alternatives_def)

lemma map_Ref_alternatives:
  "map ts_Ref (alternatives uc selected now cs) = map ts_Ref (take 8 (first_of_ref (filter (acceptable uc selected) cs)))"
proof -
  have "map ts_Ref (alternatives uc selected now cs) =
      map ts_Ref (map snd (enumerate 0 (take 8 (first_of_ref (filter (acceptable uc selected) cs)))))"
    by (simp add: alternatives_def del: map_snd_enumerate)
  then show ?thesis by simp
qed

lemma first_of_ref_subset: "set (first_of_ref cs) \<subseteq> set cs"
  by (induction cs) auto

section \<open>Adding a result\<close>

lemma wp_on_world [wp_simps]: "wp (on_world m) Q sd = wp m (\<lambda>r s'. Q r (s', snd sd)) (fst sd)"
  by (simp add: wp_def on_world_def split: prod.split)

lemma wp_locked [wp_simps]: "wp (locked f) Q sd = Q (Inr (fst (f (snd sd)))) (fst sd, snd (f (snd sd)))"
  by (simp add: wp_def locked_def split: prod.split)

text \<open>What adding relies on: saving sources stores the last one, with its track; linking an old
  identifier to a track disturbs neither.\<close>

locale source_writer =
  fixes save :: "TrackSource list \<Rightarrow> ('s, unit) action"
    and link :: "string \<Rightarrow> string \<Rightarrow> ('s, unit) action"
    and row :: "'s \<Rightarrow> string \<rightharpoonup> Track"
    and owner :: "'s \<Rightarrow> SourceRef \<rightharpoonup> string"
    and former :: "'s \<Rightarrow> string \<rightharpoonup> string"
  assumes save_wp: "wp (save (ss @ [x])) (\<lambda>r s'. r = Inr () \<longrightarrow> track_ID (ts_Track x) \<noteq> ''''
        \<and> row s' (track_ID (ts_Track x)) = Some (track_row (ts_Track x))
        \<and> owner s' (ts_Ref x) = Some (track_ID (ts_Track x))) s"
    and link_wp: "wp (link a i) (\<lambda>r s'. row s' = row s \<and> owner s' = owner s
        \<and> (r = Inr () \<longrightarrow> a \<noteq> '''' \<longrightarrow> i \<noteq> '''' \<longrightarrow> a \<noteq> i \<longrightarrow> former s' a = Some i)) s"
begin

lemma save_discovered_wp:
  assumes "dv_SaveTrackSources svc = save" "dv_SaveTrackAlias svc = Some link"
  shows "wp (save_discovered svc tid t (ss @ [x\<lparr>ts_Track := t\<rparr>]))
    (\<lambda>r s'. \<forall>u. r = Inr u \<longrightarrow> u = t \<and> row s' (track_ID t) = Some (track_row t) \<and> owner s' (ts_Ref x) = Some (track_ID t)
       \<and> (tid \<noteq> '''' \<longrightarrow> tid \<noteq> track_ID t \<longrightarrow> former s' tid = Some (track_ID t))) s"
proof -
  have linked: "wp (bindE (if tid \<noteq> track_ID t then wrapE ''save discovered track alias'' (link tid (track_ID t)) else ret ()) (\<lambda>_. ret t))
      (\<lambda>r s'. \<forall>u. r = Inr u \<longrightarrow> u = t \<and> row s' (track_ID t) = Some (track_row t) \<and> owner s' (ts_Ref x) = Some (track_ID t)
         \<and> (tid \<noteq> '''' \<longrightarrow> tid \<noteq> track_ID t \<longrightarrow> former s' tid = Some (track_ID t))) s1"
    if "track_ID t \<noteq> ''''" "row s1 (track_ID t) = Some (track_row t)" "owner s1 (ts_Ref x) = Some (track_ID t)" for s1
  proof (cases "tid = track_ID t")
    case False
    then have "wp (bindE (wrapE ''save discovered track alias'' (link tid (track_ID t))) (\<lambda>_. ret t))
      (\<lambda>r s'. \<forall>u. r = Inr u \<longrightarrow> u = t \<and> row s' (track_ID t) = Some (track_row t) \<and> owner s' (ts_Ref x) = Some (track_ID t)
         \<and> (tid \<noteq> '''' \<longrightarrow> tid \<noteq> track_ID t \<longrightarrow> former s' tid = Some (track_ID t))) s1"
      by (intro wp_bind_wrapI [OF link_wp]) (auto simp: wp_ret that)
    then show ?thesis using False by simp
  qed (use that in \<open>simp add: wp_simps\<close>)
  show ?thesis unfolding save_discovered_def assms option.case
    by (rule wp_bind_wrapI [OF save_wp]) (simp, rule linked, simp_all)
qed

lemma Add_wp:
  assumes "dv_SaveTrackSources svc = save" "dv_SaveTrackAlias svc = Some link"
  shows "wp (DiscoveryService_Add env svc tid)
    (\<lambda>r sd. \<forall>t. r = Inr t \<longrightarrow> (\<exists>result. dc_results d tid = Some result \<and> t = logical_track env (ts_Track result)
       \<and> row (fst sd) (track_ID t) = Some (track_row t) \<and> owner (fst sd) (ts_Ref result) = Some (track_ID t)
       \<and> (tid \<noteq> '''' \<longrightarrow> tid \<noteq> track_ID t \<longrightarrow> former (fst sd) tid = Some (track_ID t)))) (s, d)"
proof (cases "dc_results d tid")
  case None
  then show ?thesis by (simp add: DiscoveryService_Add_def wp_simps)
next
  case (Some result)
  let ?t = "logical_track env (ts_Track result)"
  have "wp (bindE (findAlternativeSources (unicode env) svc (ts_Track result)) (\<lambda>alternatives.
        save_discovered svc tid ?t
             (map (\<lambda>a. a\<lparr>ts_Track := ?t\<rparr>) (filter (\<lambda>a. ts_Ref a \<noteq> ts_Ref result) alternatives)
              @ [result\<lparr>ts_Track := ?t\<rparr>])))
    (\<lambda>r s'. \<forall>u. r = Inr u \<longrightarrow> u = ?t \<and> row s' (track_ID ?t) = Some (track_row ?t) \<and> owner s' (ts_Ref result) = Some (track_ID ?t)
       \<and> (tid \<noteq> '''' \<longrightarrow> tid \<noteq> track_ID ?t \<longrightarrow> former s' tid = Some (track_ID ?t))) s"
    by (rule wp_bindI [where R = "\<lambda>_ _. True"]) (auto simp: wpI intro: save_discovered_wp [OF assms])
  then show ?thesis
    unfolding DiscoveryService_Add_def wp_bindE [of "locked _"] wp_locked sum.case fst_conv snd_conv Some option.case
      wp_on_world Let_def
    by (rule wp_mono) auto
qed

end

section \<open>Order of the saved alternatives\<close>

text \<open>A text that ends in \<open>Z\<close> is greater than one that goes on with a digit or a dot.\<close>

lemma less_append_char:
  assumes "(c :: char) < d"
  shows "P @ c # xs < P @ d # ys"
  using assms by (induction P) auto

lemma pad_snoc: "0 < w \<Longrightarrow> j < 10 \<Longrightarrow> pad (Suc w) (10 * b + j) = pad w b @ [char_of (48 + j)]"
proof (cases "b = 0")
  case True
  assume "0 < w" "j < 10"
  then obtain v where "w = Suc v" by (cases w) auto
  moreover have "replicate v (CHR ''0'') @ [CHR ''0''] = CHR ''0'' # replicate v (CHR ''0'')" by (induction v) auto
  moreover have "char_of (48 :: nat) = CHR ''0''" by (simp add: char_of_eq_iff)
  ultimately show ?thesis using True \<open>j < 10\<close> by (simp add: pad_def nat_Itoa.simps Let_def)
next
  case False
  assume "j < 10"
  with False have "nat_Itoa (10 * b + j) = nat_Itoa b @ [char_of (48 + j)]" by (subst nat_Itoa.simps) auto
  then show ?thesis by (simp add: pad_def Let_def)
qed

lemma pad_digits: "c \<in> set (pad w n) \<Longrightarrow> 48 \<le> byte c \<and> byte c \<le> 57"
  using nat_Itoa_digits by (auto simp: pad_def Let_def byte_def)

lemma digit_less_Z: "byte c \<le> 57 \<Longrightarrow> c < CHR ''Z''"
  by (simp add: less_char_def byte_def)

lemma format_fraction_order:
  assumes "0 < j" "j < 10"
  shows "format_fraction (10 * b + j) @ ''Z'' < format_fraction (10 * b) @ ''Z''"
proof -
  let ?q = "pad 8 b" and ?z = "\<lambda>c. c = CHR ''0''"
  let ?tq = "rev (dropWhile ?z (rev ?q))"
  obtain zs where q: "?q = ?tq @ zs" and zs: "set zs \<subseteq> set ?q"
    by (metis (no_types, lifting) rev_append rev_rev_ident takeWhile_dropWhile_id set_rev set_takeWhileD subsetI)
  have p0: "pad 9 (10 * b) = ?q @ ''0''" and pj: "pad 9 (10 * b + j) = ?q @ [char_of (48 + j)]"
    using pad_snoc [of 8 0 b] pad_snoc [of 8 j b] assms(2) by (simp_all add: char_of_eq_iff)
  have dj: "char_of (48 + j) \<noteq> CHR ''0''" "byte (char_of (48 + j)) \<le> 57"
    using assms by (auto simp: byte_def char_of_eq_iff take_bit_eq_mod)
  have fj: "format_fraction (10 * b + j) = CHR ''.'' # ?tq @ zs @ [char_of (48 + j)]"
    using assms(1) dj(1) q by (simp add: format_fraction_def pj)
  obtain c rest where c: "zs @ [char_of (48 + j)] = c # rest" by (cases zs) auto
  have "byte c \<le> 57"
    using c dj(2) zs pad_digits by (cases zs) auto
  then have cZ: "c < CHR ''Z''" by (rule digit_less_Z)
  show ?thesis
  proof (cases "b = 0")
    case True
    then have "format_fraction (10 * b) = ''''" by (simp add: format_fraction_def)
    moreover have "CHR ''.'' < CHR ''Z''" by (simp add: less_char_def)
    ultimately show ?thesis unfolding fj by simp
  next
    case False
    then have f0: "format_fraction (10 * b) = CHR ''.'' # ?tq"
      by (simp add: format_fraction_def p0)
    have "format_fraction (10 * b + j) @ ''Z'' = (CHR ''.'' # ?tq) @ c # rest @ ''Z''"
      unfolding fj using c by simp
    with f0 less_append_char [OF cZ, of "CHR ''.'' # ?tq" "rest @ ''Z''" "''''"] show ?thesis by simp
  qed
qed

lemma formatOptionalTime_order:
  assumes "10 \<le> t" "0 < t mod 10"
  shows "formatOptionalTime t < formatOptionalTime (t - t mod 10)"
proof -
  define q j b where "q = t div 10" and "j = nat (t mod 10)" and "b = nat (q mod 100000000)"
  have j: "int j = t mod 10" "0 < j" "j < 10" using assms(2) by (auto simp: j_def)
  have b: "int b = q mod 100000000" by (simp add: b_def)
  have t: "t - t mod 10 = 10 * q" by (simp add: q_def minus_mod_eq_mult_div)
  have s: "second = 10 * 100000000" by (simp add: second_def)
  have "t mod second = 10 * int b + int j" unfolding s b j(1) q_def by (rule zmod_zmult2_eq) simp
  then have n: "nat (t mod second) = 10 * b + j" by (metis nat_int of_nat_add of_nat_mult of_nat_numeral)
  have "(10 * q) mod second = 10 * int b" unfolding s b by (simp add: mult_mod_right)
  then have d: "nat ((10 * q) mod second) = 10 * b" by (metis nat_int of_nat_mult of_nat_numeral)
  have dd: "(10 * q) div second = t div second" unfolding s q_def by (subst zdiv_zmult2_eq) simp_all
  have nz: "\<not> IsZero t" "\<not> IsZero (10 * q)" using assms(1) by (auto simp: IsZero_def q_def)
  have "x @ format_fraction (10 * b + j) @ ''Z'' < x @ format_fraction (10 * b) @ ''Z''" for x
    using format_fraction_order [OF j(2,3)] by (induction x) auto
  then show ?thesis unfolding t by (simp add: formatOptionalTime_def format_RFC3339Nano_def n d dd nz)
qed


section \<open>The SQL catalog as a source writer\<close>

definition catalog_row :: "world \<Rightarrow> string \<rightharpoonup> Track" where
  "catalog_row w i = find_key track_ID i (w_tracks w)"

definition source_owner :: "world \<Rightarrow> SourceRef \<rightharpoonup> string" where
  "source_owner w ref = map_option sr_track_id (find_key source_key_of (ref_Provider ref, ref_Key ref) (w_track_sources w))"

lemma save_sources_snoc: "save_sources (ss @ [x]) = bindE (save_sources ss) (\<lambda>_. saveTrackSource x)"
proof (induction ss)
  case (Cons s ss)
  then show ?case by (simp add: bindE_def fun_eq_iff split: prod.split sum.split)
qed (simp add: bindE_def ret_def fun_eq_iff split: prod.split sum.split)

lemma saveTrackSource_ok:
  assumes "saveTrackSource x w = (Inr u, w')"
  shows "track_ID (ts_Track x) \<noteq> '''' \<and> catalog_row w' (track_ID (ts_Track x)) = Some (track_row (ts_Track x))
    \<and> source_owner w' (ts_Ref x) = Some (track_ID (ts_Track x))"
proof -
  have key: "source_key_of (source_row_of x) = (ref_Provider (ts_Ref x), ref_Key (ts_Ref x))"
    by (simp add: source_key_of_def source_row_of_def)
  have up: "find_key key (key r) (upsert key r rows) = Some r" for key :: "'r \<Rightarrow> 'k" and r rows
    by simp
  have row: "sr_track_id (source_row_of x) = track_ID (ts_Track x)" by (simp add: source_row_of_def)
  from assms have "track_ID (ts_Track x) \<noteq> ''''" "w_tracks w' = upsert track_ID (track_row (ts_Track x)) (w_tracks w)"
    "w_track_sources w' = upsert source_key_of (source_row_of x) (w_track_sources w)"
    by (auto simp: saveTrackSource_def db_stmt_def upsert_track_def dest!: db_exec_ok split: if_splits)
  then show ?thesis
    using up [of track_ID "track_row (ts_Track x)" "w_tracks w"]
      up [of source_key_of "source_row_of x" "w_track_sources w"]
    by (simp add: catalog_row_def source_owner_def key row)
qed

interpretation sql_writer: source_writer sqlite_SaveTrackSources sqlite_SaveTrackAlias catalog_row source_owner track_alias
proof
  show "wp (sqlite_SaveTrackSources (ss @ [x])) (\<lambda>r s'. r = Inr () \<longrightarrow> track_ID (ts_Track x) \<noteq> ''''
        \<and> catalog_row s' (track_ID (ts_Track x)) = Some (track_row (ts_Track x))
        \<and> source_owner s' (ts_Ref x) = Some (track_ID (ts_Track x))) s" for ss x s
  proof (rule wpI, rule impI)
    fix r s' assume run: "sqlite_SaveTrackSources (ss @ [x]) s = (r, s')" "r = Inr ()"
    then have "db_tx ''begin track sources save'' ''commit track sources save'' (save_sources (ss @ [x])) s = (Inr (), s')"
      by (simp add: sqlite_SaveTrackSources_def)
    then obtain w2 where "save_sources (ss @ [x]) (spend_fault s) = (Inr (), w2)" "s' = spend_fault w2"
      by (rule db_tx_committed)
    then obtain w1 where "saveTrackSource x w1 = (Inr (), w2)" "s' = spend_fault w2"
      by (auto simp: save_sources_snoc)
    with saveTrackSource_ok [of x w1] show "track_ID (ts_Track x) \<noteq> ''''
        \<and> catalog_row s' (track_ID (ts_Track x)) = Some (track_row (ts_Track x))
        \<and> source_owner s' (ts_Ref x) = Some (track_ID (ts_Track x))"
      by (simp add: catalog_row_def source_owner_def)
  qed
  show "wp (sqlite_SaveTrackAlias a i) (\<lambda>r s'. catalog_row s' = catalog_row s \<and> source_owner s' = source_owner s
        \<and> (r = Inr () \<longrightarrow> a \<noteq> '''' \<longrightarrow> i \<noteq> '''' \<longrightarrow> a \<noteq> i \<longrightarrow> track_alias s' a = Some i)) s" for a i s
    by (rule wpI) (auto simp: sqlite_SaveTrackAlias_def wrapE_def ret_def db_stmt_def catalog_row_def source_owner_def
      track_alias_def fun_eq_iff split: if_splits)
qed

definition NewDiscoveryService where
  "NewDiscoveryService search browse = \<lparr>dv_Search = search, dv_BrowseCollection = browse,
     dv_SaveTrackSources = sqlite_SaveTrackSources, dv_SaveTrackAlias = Some sqlite_SaveTrackAlias, dv_now = time_Now\<rparr>"

lemma NewDiscoveryService_sel [simp]:
  "dv_SaveTrackSources (NewDiscoveryService search browse) = sqlite_SaveTrackSources"
  "dv_SaveTrackAlias (NewDiscoveryService search browse) = Some sqlite_SaveTrackAlias"
  "dv_Search (NewDiscoveryService search browse) = search"
  by (simp_all add: NewDiscoveryService_def)

section \<open>Properties\<close>

text \<open>
  the alternatives of a track are the acceptable results of one search for its words, in order of
  preference: a result that needs approval or is another recording is never taken, no source twice, at
  most eight in all, each claimed for the selected track. If the search fails there are none.
\<close>

theorem findAlternativeSources_spec:
  assumes "findAlternativeSources uc svc selected s = (r, s')"
  shows "\<exists>sources. r = Inr sources \<and> length sources \<le> 8 \<and> distinct (map ts_Ref sources)
    \<and> (\<forall>x \<in> set sources. ts_Track x = selected)
    \<and> (sources = [] \<or> (\<exists>results s1 now preferred.
         dv_Search svc \<lparr>sq_Text = discoveryAlternativeQuery uc selected, sq_Limit = 100\<rparr> s = (Inr results, s1)
         \<and> mset preferred = mset results
         \<and> sorted_wrt (\<lambda>a b. \<not> betterDiscoveryAlternative uc b a (track_Suffix selected)) preferred
         \<and> sources = alternatives uc selected now preferred))"
proof -
  have props: "length (alternatives uc selected now cs) \<le> 8" "distinct (map ts_Ref (alternatives uc selected now cs))"
    "\<forall>x \<in> set (alternatives uc selected now cs). ts_Track x = selected" for now cs
    by (simp_all add: map_Ref_alternatives distinct_take first_of_ref_distinct flip: take_map)
      (auto simp: alternatives_def stamp_def)
  let ?lt = "\<lambda>a b. betterDiscoveryAlternative uc a b (track_Suffix selected)"
  show ?thesis
  proof (cases "discoveryAlternativeQuery uc selected = ''''")
    case True
    with assms show ?thesis by (auto simp: findAlternativeSources_def ret_def)
  next
    case False
    obtain x s1 where srch: "dv_Search svc \<lparr>sq_Text = discoveryAlternativeQuery uc selected, sq_Limit = 100\<rparr> s = (x, s1)"
      by fastforce
    show ?thesis
    proof (cases x)
      case (Inl e)
      with assms False srch show ?thesis
        by (auto simp: findAlternativeSources_def tryE_def ret_def discoveryAlternativeLimit_def)
    next
      case (Inr results)
      with assms False srch have "r = Inr (alternatives uc selected (fst (dv_now svc s1)) (SliceStable ?lt results))"
        by (auto simp: findAlternativeSources_def tryE_def readE_def ret_def discoveryAlternativeLimit_def pick_alternatives_eq
          split: prod.splits)
      moreover have "mset (SliceStable ?lt results) = mset results" by simp
      moreover have "sorted_wrt (\<lambda>a b. \<not> ?lt b a) (SliceStable ?lt results)"
        by (rule sorted_SliceStable [OF weak_order_better])
      ultimately show ?thesis using props srch Inr by blast
    qed
  qed
qed

text \<open>
  C25: a result that was added is in the catalog: its track is stored under its canonical identifier (its own
  if it lacks a title, an artist or an album), its source belongs to that track, and the identifier the
  search reported leads to the track too, unless another track has it.
\<close>

theorem DiscoveryService_Add_spec:
  assumes "DiscoveryService_Add env (NewDiscoveryService search browse) tid (w, d) = (Inr t, (w', d'))"
    "w_faults w' = []"
  shows "\<exists>result. dc_results d tid = Some result \<and> t = logical_track env (ts_Track result)
    \<and> source_owner w' (ts_Ref result) = Some (track_ID t)
    \<and> sqlite_Track (track_ID t) w' = (Inr (track_row t), w')
    \<and> (tid \<noteq> '''' \<and> tid \<notin> track_ids w' \<longrightarrow> sqlite_Track tid w' = (Inr (track_row t), w'))"
proof -
  from wpD [OF sql_writer.Add_wp [OF NewDiscoveryService_sel(1,2)] assms(1)] obtain result where
    "dc_results d tid = Some result" "t = logical_track env (ts_Track result)"
    and c: "catalog_row w' (track_ID t) = Some (track_row t)" and "source_owner w' (ts_Ref result) = Some (track_ID t)"
    and f: "tid \<noteq> '''' \<Longrightarrow> tid \<noteq> track_ID t \<Longrightarrow> track_alias w' tid = Some (track_ID t)"
    by auto
  moreover have i: "track_ID t \<in> track_ids w'"
    using c find_key_SomeD [of track_ID "track_ID t" "w_tracks w'" "track_row t"]
    unfolding catalog_row_def track_ids_def by (metis image_eqI)
  moreover have "resolve_track w' (track_ID t) = Some (track_ID t)" using i by (simp add: resolve_track_def track_ids_def)
  moreover have "resolve_track w' tid = Some (track_ID t)" if "tid \<noteq> ''''" "tid \<notin> track_ids w'"
    using f [OF that(1)] i that(2) by (auto simp: resolve_track_alias)
  ultimately show ?thesis using c by (auto simp: sqlite_Track_run [OF assms(2)] catalog_row_def)
qed

text \<open>
  the alternatives are stored a nanosecond apart so that the catalog offers the preferred one first,
  but the catalog sorts the text of these times, which drops final zeros. If the clock does not end in
  a zero, the alternative whose time does comes before the preferred one.
\<close>

theorem alternatives_order_lost:
  assumes "sources = alternatives uc selected now preferred" "10 \<le> now" "0 < now mod 10"
    "nat (now mod 10) < length sources" "\<forall>x \<in> set sources. ref_Provider (ts_Ref x) = provider"
  shows "source_row_lt (source_row_of (sources ! nat (now mod 10))) (source_row_of (sources ! 0))"
proof -
  have disc: "ts_DiscoveredAt (sources ! k) = now - int k" if "k < length sources" for k
    using that unfolding assms(1) alternatives_def by (simp add: nth_enumerate_eq stamp_def)
  have prov: "ref_Provider (ts_Ref (sources ! k)) = provider" if "k < length sources" for k
    using assms(5) that by simp
  have "sources \<noteq> []" using assms(4) by auto
  then show ?thesis
    using disc [of 0] disc [OF assms(4)] prov [of 0] prov [OF assms(4)] assms(3,4) formatOptionalTime_order [OF assms(2,3)]
    by (simp add: source_row_lt_def source_row_of_def Let_def)
qed

section \<open>Examples\<close>

definition demo_discovery :: "world DiscoveryService" where
  "demo_discovery = NewDiscoveryService (\<lambda>_. fail ErrSourceUnavailable) None"

theorem findAlternativeSources_spec_witness:
  "\<exists>sources. findAlternativeSources ascii_tables demo_discovery zero_track empty_world = (Inr sources, empty_world)
    \<and> length sources \<le> 8"
proof -
  have r: "findAlternativeSources ascii_tables demo_discovery zero_track empty_world = (Inr [], empty_world)"
    by (simp add: findAlternativeSources_def demo_discovery_def run_simps Let_def)
  from findAlternativeSources_spec [OF r] r show ?thesis by auto
qed

definition demo_found :: discovery_state where
  "demo_found = \<lparr>dc_results = [''t'' \<mapsto> demo_source ''t'' ''soulseek''], dc_collections = Map.empty\<rparr>"

lemma demo_add_run:
  "\<exists>t w'. DiscoveryService_Add demo_env demo_discovery ''t'' (empty_world, demo_found) = (Inr t, (w', demo_found)) \<and> w_faults w' = []"
proof -
  let ?x = "demo_source ''t'' ''soulseek''"
  define lt where "lt = logical_track demo_env (ts_Track ?x)"
  have "track_ID lt \<noteq> ''''"
    by (simp add: lt_def logical_track_def CanonicalTrackID_alt StableID_def Let_def demo_source_def demo_track_def)
  then have "\<exists>w'. save_discovered demo_discovery ''t'' lt [?x\<lparr>ts_Track := lt\<rparr>] empty_world = (Inr lt, w') \<and> w_faults w' = []"
    by (simp add: save_discovered_def demo_discovery_def NewDiscoveryService_def demo_source_def run_simps sqlite_SaveTrackSources_def
      db_tx_def db_exec_run db_stmt_run saveTrackSource_def sqlite_SaveTrackAlias_def upsert_track_def empty_world_def)
  moreover have "findAlternativeSources uc demo_discovery x w = (Inr [], w)" for uc x w
    by (simp add: findAlternativeSources_def demo_discovery_def run_simps Let_def)
  ultimately show ?thesis
    by (auto simp: DiscoveryService_Add_def demo_found_def locked_def on_world_def bindE_def Let_def simp flip: lt_def)
qed

theorem DiscoveryService_Add_spec_witness:
  "\<exists>t w'. DiscoveryService_Add demo_env demo_discovery ''t'' (empty_world, demo_found) = (Inr t, (w', demo_found))
    \<and> sqlite_Track (track_ID t) w' = (Inr (track_row t), w')"
proof -
  obtain t w' where run: "DiscoveryService_Add demo_env demo_discovery ''t'' (empty_world, demo_found) = (Inr t, (w', demo_found))"
    "w_faults w' = []" using demo_add_run by blast
  from DiscoveryService_Add_spec [OF run(1) [unfolded demo_discovery_def] run(2)] run(1) show ?thesis by auto
qed

definition demo_candidate :: "string \<Rightarrow> TrackSource" where
  "demo_candidate key = \<lparr>ts_Track = zero_track, ts_Ref = \<lparr>ref_Provider = ''soulseek'', ref_Key = key\<rparr>, ts_DisplayPath = '''',
     ts_Availability = zero_availability, ts_DiscoveredAt = time_zero\<rparr>"

lemma demo_acceptable: "acceptable ascii_tables zero_track (demo_candidate key)"
  by (simp add: acceptable_def demo_candidate_def zero_availability_def zero_track_def sameDiscoveredRecording_def
    meaningfulDiscoveryTokens_def discoveryTokens_def discoveryVersionTokens_def go_eval)

theorem alternatives_order_lost_witness:
  "let sources = alternatives ascii_tables zero_track 11 [demo_candidate ''best'', demo_candidate ''other'']
   in map (ref_Key \<circ> ts_Ref) sources = [''best'', ''other'']
      \<and> source_row_lt (source_row_of (sources ! 1)) (source_row_of (sources ! 0))"
proof -
  let ?s = "alternatives ascii_tables zero_track 11 [demo_candidate ''best'', demo_candidate ''other'']"
  have s: "?s = [stamp zero_track 11 (0, demo_candidate ''best''), stamp zero_track 11 (1, demo_candidate ''other'')]"
    by (simp add: alternatives_def demo_acceptable) (simp add: demo_candidate_def)
  have "source_row_lt (source_row_of (?s ! nat (11 mod 10))) (source_row_of (?s ! 0))"
    by (rule alternatives_order_lost [OF refl, where provider = "''soulseek''"])
      (simp_all only: s, simp_all add: stamp_def demo_candidate_def)
  then show ?thesis by (simp add: s) (simp add: stamp_def demo_candidate_def)
qed

end
