(* ===== verification/LibraryCache.thy ===== *)
theory LibraryCache
  imports Discovery
begin

text \<open>
  Offline copies of the library, \<open>core/services/library_cache.go\<close>, and the table of pinned tracks,
  \<open>adapters/storage/sqlite/track_pins.go\<close>. A prefetch starts one goroutine for every track that is not
  yet being fetched; two of them at a time read their track to the end, so that the provider caches it. The
  goroutines are the steps of a transition system; that a read ends is what the steps assume of the
  provider.
\<close>

section \<open>Pinned tracks\<close>

definition sqlite_SetTrackPinned :: "string \<Rightarrow> bool \<Rightarrow> (world, unit) action" where
  "sqlite_SetTrackPinned trackID pinned =
    bindE (sqlite_resolveTrackID trackID) (\<lambda>resolved.
      wrapE ''set track pin''
        (if pinned then readE time_Now (\<lambda>now. db_exec (\<lambda>w.
           w\<lparr>w_pinned_tracks := upsert fst (resolved, now) (w_pinned_tracks w)\<rparr>))
         else db_exec (\<lambda>w. w\<lparr>w_pinned_tracks := filter (\<lambda>p. fst p \<noteq> resolved) (w_pinned_tracks w)\<rparr>)))"

definition pin_lt :: "string \<times> time \<Rightarrow> string \<times> time \<Rightarrow> bool" where
  "pin_lt a b = (let ta = format_RFC3339Nano (snd a); tb = format_RFC3339Nano (snd b)
     in ta < tb \<or> ta = tb \<and> fst a < fst b)"

definition sqlite_PinnedTracks :: "(world, string list) action" where
  "sqlite_PinnedTracks =
    wrapE ''query pinned tracks'' (db_query (\<lambda>w. map fst (SliceStable pin_lt (w_pinned_tracks w))))"

definition sqlite_TrackPinned :: "string \<Rightarrow> (world, bool) action" where
  "sqlite_TrackPinned trackID =
    bindE (sqlite_resolveTrackID trackID) (\<lambda>resolved.
      wrapE ''query track pin'' (db_query (\<lambda>w. resolved \<in> fst ` set (w_pinned_tracks w))))"

section \<open>The service\<close>

record 's LibraryCacheService =
  lc_Track :: "string \<Rightarrow> ('s, Track) action"
  lc_TracksByAlbum :: "string \<Rightarrow> ('s, Track list) action"
  lc_Sources :: "string \<Rightarrow> ('s, SourceRef list) action"
  lc_SetTrackPinned :: "string \<Rightarrow> bool \<Rightarrow> ('s, unit) action"
  lc_PinnedTracks :: "('s, string list) action"
  lc_PinSource :: "(string \<Rightarrow> bool \<Rightarrow> ('s, unit) action) option"

definition in_torrent :: "string \<Rightarrow> SourceRef \<Rightarrow> bool" where
  "in_torrent infoHash source \<longleftrightarrow> ref_Provider source = ''torrent'' \<and> HasPrefix (ref_Key source) (infoHash @ ''/'')"

fun pinned_loop :: "'s LibraryCacheService \<Rightarrow> string \<Rightarrow> string list \<Rightarrow> ('s, bool) action" where
  "pinned_loop svc infoHash [] = ret False"
| "pinned_loop svc infoHash (trackID # trackIDs) =
    tryE (lc_Sources svc trackID) (\<lambda>r. case r of
        Inl _ \<Rightarrow> pinned_loop svc infoHash trackIDs
      | Inr sources \<Rightarrow> if list_ex (in_torrent infoHash) sources then ret True else pinned_loop svc infoHash trackIDs)"

definition torrentHasPinnedTrack :: "'s LibraryCacheService \<Rightarrow> string \<Rightarrow> ('s, bool) action" where
  "torrentHasPinnedTrack svc infoHash = bindE (lc_PinnedTracks svc) (pinned_loop svc infoHash)"

fun pin_sources ::
  "'s LibraryCacheService \<Rightarrow> (string \<Rightarrow> bool \<Rightarrow> ('s, unit) action) \<Rightarrow> bool \<Rightarrow> SourceRef list \<Rightarrow> ('s, unit) action" where
  "pin_sources svc PinSource pinned [] = ret ()"
| "pin_sources svc PinSource pinned (source # sources) =
    (if ref_Provider source \<noteq> ''torrent'' then pin_sources svc PinSource pinned sources
     else let (infoHash, _, ok) = Cut (ref_Key source) (CHR ''/'') in
       if \<not> ok \<or> infoHash = '''' then pin_sources svc PinSource pinned sources
       else bindE (if pinned then ret True else torrentHasPinnedTrack svc infoHash) (\<lambda>keepPinned.
         tryE (PinSource infoHash keepPinned) (\<lambda>r. case r of
             Inl err \<Rightarrow> if errors_Is err ErrNotFound then pin_sources svc PinSource pinned sources
                        else fail (Wrap ''pin torrent source'' err)
           | Inr _ \<Rightarrow> pin_sources svc PinSource pinned sources)))"

definition LibraryCacheService_SetTrackPinned ::
  "'s LibraryCacheService \<Rightarrow> string \<Rightarrow> bool \<Rightarrow> ('s, unit) action" where
  "LibraryCacheService_SetTrackPinned svc trackID pinned =
    bindE (lc_Track svc trackID) (\<lambda>track.
      bindE (lc_SetTrackPinned svc (track_ID track) pinned) (\<lambda>_.
        case lc_PinSource svc of None \<Rightarrow> ret ()
        | Some PinSource \<Rightarrow> bindE (lc_Sources svc (track_ID track)) (pin_sources svc PinSource pinned)))"

section \<open>Goroutines\<close>

text \<open>
  \<open>active\<close> is the map of the service; its goroutines wait for one of the two slots of \<open>workers\<close>, fetch, have
  given the slot back, or are gone.
\<close>

record fetch_sys =
  fs_active :: "string set"
  fs_waiting :: "string list"
  fs_fetching :: "string list"
  fs_leaving :: "string list"
  fs_cancelled :: bool

definition fetch_init :: fetch_sys where
  "fetch_init = \<lparr>fs_active = {}, fs_waiting = [], fs_fetching = [], fs_leaving = [], fs_cancelled = False\<rparr>"

definition fetch_queue :: "string \<Rightarrow> fetch_sys \<Rightarrow> fetch_sys" where
  "fetch_queue trackID s =
    (if trackID \<in> fs_active s then s
     else s\<lparr>fs_active := insert trackID (fs_active s), fs_waiting := fs_waiting s @ [trackID]\<rparr>)"

definition fetch_complete :: "string \<Rightarrow> fetch_sys \<Rightarrow> fetch_sys" where
  "fetch_complete trackID s = s\<lparr>fs_active := fs_active s - {trackID}\<rparr>"

inductive work_step :: "fetch_sys \<Rightarrow> fetch_sys \<Rightarrow> bool" where
  acquire: "t \<in> set (fs_waiting s) \<Longrightarrow> length (fs_fetching s) < 2 \<Longrightarrow>
    work_step s (s\<lparr>fs_waiting := remove1 t (fs_waiting s), fs_fetching := fs_fetching s @ [t]\<rparr>)"
| give_up: "t \<in> set (fs_waiting s) \<Longrightarrow> fs_cancelled s \<Longrightarrow>
    work_step s (fetch_complete t (s\<lparr>fs_waiting := remove1 t (fs_waiting s)\<rparr>))"
| release: "t \<in> set (fs_fetching s) \<Longrightarrow>
    work_step s (s\<lparr>fs_fetching := remove1 t (fs_fetching s), fs_leaving := fs_leaving s @ [t]\<rparr>)"
| finish: "t \<in> set (fs_leaving s) \<Longrightarrow>
    work_step s (fetch_complete t (s\<lparr>fs_leaving := remove1 t (fs_leaving s)\<rparr>))"

inductive fetch_reachable :: "fetch_sys \<Rightarrow> bool" where
  start: "fetch_reachable fetch_init"
| queue: "fetch_reachable s \<Longrightarrow> fetch_reachable (fetch_queue t s)"
| cancel: "fetch_reachable s \<Longrightarrow> fetch_reachable (s\<lparr>fs_cancelled := True\<rparr>)"
| work: "fetch_reachable s \<Longrightarrow> work_step s s' \<Longrightarrow> fetch_reachable s'"

text \<open>The two entry points: tracks are pinned, when asked for, before they are queued.\<close>

definition LibraryCacheService_PrefetchTrack ::
  "'s LibraryCacheService \<Rightarrow> string \<Rightarrow> bool \<Rightarrow> ('s \<times> fetch_sys, unit) action" where
  "LibraryCacheService_PrefetchTrack svc trackID pinned =
    bindE (on_world (lc_Track svc trackID)) (\<lambda>track.
      bindE (if pinned then on_world (LibraryCacheService_SetTrackPinned svc (track_ID track) True) else ret ()) (\<lambda>_.
        locked (\<lambda>d. ((), fetch_queue (track_ID track) d))))"

fun prefetch_loop :: "'s LibraryCacheService \<Rightarrow> bool \<Rightarrow> Track list \<Rightarrow> ('s \<times> fetch_sys, unit) action" where
  "prefetch_loop svc pinned [] = ret ()"
| "prefetch_loop svc pinned (track # tracks) =
    bindE (if pinned then on_world (LibraryCacheService_SetTrackPinned svc (track_ID track) True) else ret ()) (\<lambda>_.
      bindE (locked (\<lambda>d. ((), fetch_queue (track_ID track) d))) (\<lambda>_. prefetch_loop svc pinned tracks))"

definition LibraryCacheService_PrefetchAlbum ::
  "'s LibraryCacheService \<Rightarrow> string \<Rightarrow> bool \<Rightarrow> ('s \<times> fetch_sys, int) action" where
  "LibraryCacheService_PrefetchAlbum svc albumID pinned =
    bindE (on_world (lc_TracksByAlbum svc albumID)) (\<lambda>tracks.
      if tracks = [] then fail ErrNotFound
      else bindE (prefetch_loop svc pinned tracks) (\<lambda>_. ret (int (length tracks))))"

section \<open>Lemmas\<close>

definition fetch_inv :: "fetch_sys \<Rightarrow> bool" where
  "fetch_inv s \<longleftrightarrow> distinct (fs_waiting s @ fs_fetching s @ fs_leaving s)
     \<and> fs_active s = set (fs_waiting s @ fs_fetching s @ fs_leaving s) \<and> length (fs_fetching s) \<le> 2"

lemma work_step_inv: "work_step s s' \<Longrightarrow> fetch_inv s \<Longrightarrow> fetch_inv s'"
  by (induction rule: work_step.induct) (auto simp: fetch_inv_def fetch_complete_def set_remove1_eq length_remove1)

lemma fetch_reachable_inv: "fetch_reachable s \<Longrightarrow> fetch_inv s"
proof (induction rule: fetch_reachable.induct)
  case (work s s')
  then show ?case by (blast intro: work_step_inv)
qed (auto simp: fetch_inv_def fetch_init_def fetch_queue_def)

definition fetch_measure :: "fetch_sys \<Rightarrow> nat" where
  "fetch_measure s = 3 * length (fs_waiting s) + 2 * length (fs_fetching s) + length (fs_leaving s)"

lemma work_step_measure: "work_step s s' \<Longrightarrow> fetch_measure s' < fetch_measure s"
proof (induction rule: work_step.induct)
  case (acquire t s)
  then obtain n where "length (fs_waiting s) = Suc n" by (cases "fs_waiting s") auto
  with acquire show ?case by (simp add: fetch_measure_def length_remove1)
next
  case (give_up t s)
  then have "0 < length (fs_waiting s)" by auto
  with give_up show ?case by (simp add: fetch_measure_def length_remove1 fetch_complete_def)
next
  case (release t s)
  then obtain n where "length (fs_fetching s) = Suc n" by (cases "fs_fetching s") auto
  with release show ?case by (simp add: fetch_measure_def length_remove1)
next
  case (finish t s)
  then have "0 < length (fs_leaving s)" by auto
  with finish show ?case by (simp add: fetch_measure_def length_remove1 fetch_complete_def)
qed

lemma wf_work_step: "wf {(s', s). work_step s s'}"
  by (rule wf_subset [OF wf_measure [of fetch_measure]]) (auto dest: work_step_measure)

lemma work_enabled:
  assumes "fs_waiting s @ fs_fetching s @ fs_leaving s \<noteq> []" "length (fs_fetching s) \<le> 2"
  shows "\<exists>s'. work_step s s'"
proof -
  consider t where "t \<in> set (fs_fetching s)" | t where "t \<in> set (fs_leaving s)"
    | t where "t \<in> set (fs_waiting s)" "fs_fetching s = []"
    using assms(1) by (cases "fs_fetching s"; cases "fs_leaving s"; cases "fs_waiting s") auto
  then show ?thesis
  proof cases
    case (3 t)
    then show ?thesis using work_step.acquire [of t s] by auto
  qed (blast intro: work_step.intros)+
qed

text \<open>Pinning leaves a torrent pinned exactly while one of its tracks is pinned.\<close>

lemma torrentHasPinnedTrack_run:
  assumes "\<And>i. snd (lc_Sources svc i s) = s" "lc_PinnedTracks svc s = (Inr tracks, s)"
  shows "torrentHasPinnedTrack svc infoHash s =
    (Inr (\<exists>i \<in> set tracks. \<exists>sources. fst (lc_Sources svc i s) = Inr sources \<and> list_ex (in_torrent infoHash) sources), s)"
proof -
  have "pinned_loop svc infoHash tracks s =
    (Inr (\<exists>i \<in> set tracks. \<exists>sources. fst (lc_Sources svc i s) = Inr sources \<and> list_ex (in_torrent infoHash) sources), s)"
  proof (induction tracks)
    case (Cons i tracks)
    then show ?case using assms(1) [of i]
      by (cases "lc_Sources svc i s"; cases "fst (lc_Sources svc i s)") (auto simp: tryE_def ret_def)
  qed (simp add: ret_def)
  with assms(2) show ?thesis by (simp add: torrentHasPinnedTrack_def bindE_def)
qed

lemma pin_rows:
  "b \<notin> fst ` {p \<in> set rows. fst p \<noteq> b}"
  by auto

lemma resolveTrackID_ok:
  "sqlite_resolveTrackID i w = (Inr j, w1) \<Longrightarrow> resolve_track w i = Some j \<and> w1 = spend_fault w"
proof -
  assume "sqlite_resolveTrackID i w = (Inr j, w1)"
  then have "db_query (\<lambda>w. resolve_track w i) w = (Inr (Some j), w1)"
    by (auto simp: sqlite_resolveTrackID_def split: option.splits)
  from db_query_ok [OF this] show ?thesis by (simp add: resolve_track_def)
qed

lemma sqlite_pin_roundtrip:
  assumes "sqlite_SetTrackPinned i pinned w = (Inr u, w')" "w_faults w' = []"
  shows "sqlite_TrackPinned i w' = (Inr pinned, w')"
proof -
  from assms(1) obtain j w1 where j: "sqlite_resolveTrackID i w = (Inr j, w1)"
    and run: "(if pinned then readE time_Now (\<lambda>now. db_exec (\<lambda>w.
           w\<lparr>w_pinned_tracks := upsert fst (j, now) (w_pinned_tracks w)\<rparr>))
         else db_exec (\<lambda>w. w\<lparr>w_pinned_tracks := filter (\<lambda>p. fst p \<noteq> j) (w_pinned_tracks w)\<rparr>)) w1 = (Inr u, w')"
    unfolding sqlite_SetTrackPinned_def bindE_Inr_iff wrapE_Inr_iff by blast
  note j = resolveTrackID_ok [OF j]
  have "w_tracks w' = w_tracks w \<and> w_track_aliases w' = w_track_aliases w
    \<and> (j \<in> fst ` set (w_pinned_tracks w') \<longleftrightarrow> pinned)"
  proof (cases pinned)
    case True
    with run have "db_exec (\<lambda>v. v\<lparr>w_pinned_tracks := upsert fst (j, fst (time_Now w1)) (w_pinned_tracks v)\<rparr>)
        (snd (time_Now w1)) = (Inr u, w')" by simp
    from db_exec_ok [OF this] True j show ?thesis by (simp add: time_Now_def)
  next
    case False
    with run have "db_exec (\<lambda>v. v\<lparr>w_pinned_tracks := filter (\<lambda>p. fst p \<noteq> j) (w_pinned_tracks v)\<rparr>) w1 = (Inr u, w')"
      by simp
    from db_exec_ok [OF this] False j show ?thesis by (simp add: pin_rows)
  qed
  then have t: "w_tracks w' = w_tracks w" "w_track_aliases w' = w_track_aliases w"
    and p: "j \<in> fst ` set (w_pinned_tracks w') \<longleftrightarrow> pinned" by auto
  have "resolve_track w' i = resolve_track w i" unfolding resolve_track_def t ..
  with j have "resolve_track w' i = Some j" by simp
  with p assms(2) show ?thesis
    by (simp add: sqlite_TrackPinned_def sqlite_resolveTrackID_def db_query_run run_simps)
qed

section \<open>Properties\<close>



end
