(* ===== verification/TorrentCatalog.thy ===== *)
theory TorrentCatalog
  imports Scanner
begin

text \<open>
  What the torrent provider reads off the names of a torrent, the pure half of
  \<open>adapters/providers/torrent/provider.go\<close>: provisional titles, artists, albums and disc numbers, the
  choice of cover art, source keys and their parsing. Cyrillic words are given by their code points.
\<close>

section \<open>Package strings\<close>

text \<open>\<open>strings.Cut\<close> at a separator of any length.\<close>

fun cut_at :: "string \<Rightarrow> string \<Rightarrow> (string \<times> string) option" where
  "cut_at sep [] = (if sep = [] then Some ([], []) else None)"
| "cut_at sep (c # cs) =
    (if HasPrefix (c # cs) sep then Some ([], drop (length sep) (c # cs))
     else map_option (\<lambda>(a, b). (c # a, b)) (cut_at sep cs))"

fun Contains :: "string \<Rightarrow> string \<Rightarrow> bool" where
  "Contains [] sub = (sub = [])"
| "Contains (c # cs) sub = (HasPrefix (c # cs) sub \<or> Contains cs sub)"

definition TrimLeftFunc :: "string \<Rightarrow> (nat \<Rightarrow> bool) \<Rightarrow> string" where
  "TrimLeftFunc s f = concat (map snd (dropWhile (\<lambda>p. f (fst p)) (decode_runes s)))"

definition is_digit :: "char \<Rightarrow> bool" where
  "is_digit c \<longleftrightarrow> 48 \<le> byte c \<and> byte c \<le> 57"

definition is_hex :: "char \<Rightarrow> bool" where
  "is_hex c \<longleftrightarrow> is_digit c \<or> 65 \<le> byte c \<and> byte c \<le> 70 \<or> 97 \<le> byte c \<and> byte c \<le> 102"

text \<open>\<open>hex.DecodeString\<close> succeeds on pairs of hexadecimal digits.\<close>

definition hex_ok :: "string \<Rightarrow> bool" where
  "hex_ok s \<longleftrightarrow> even (length s) \<and> list_all is_hex s"

section \<open>Names\<close>

definition TorrentName :: string where "TorrentName = ''torrent''"

definition imageContentTypes :: "string \<rightharpoonup> string" where
  "imageContentTypes = [''.gif'' \<mapsto> ''image/gif'', ''.jpeg'' \<mapsto> ''image/jpeg'', ''.jpg'' \<mapsto> ''image/jpeg'',
     ''.png'' \<mapsto> ''image/png'', ''.webp'' \<mapsto> ''image/webp'']"

record catalogFile =
  cf_parts :: "string list"
  cf_length :: int
  cf_extension :: string
  cf_contentType :: string

definition isTrackSeparator :: "nat \<Rightarrow> bool" where
  "isTrackSeparator value \<longleftrightarrow> IsSpace value \<or> value = 46 \<or> value = 45 \<or> value = 95"

text \<open>\<open>rune(value[index])\<close> reads a byte as a code point.\<close>

definition titleAndNumber :: "string \<Rightarrow> string \<times> int" where
  "titleAndNumber value0 =
    (let value = TrimSpace value0;
         index = length (takeWhile is_digit (take 3 value))
     in if index = 0 \<or> index = length value \<or> \<not> isTrackSeparator (byte (value ! index)) then (value, 0)
        else case Atoi (take index value) of
          None \<Rightarrow> (value, 0)
        | Some number \<Rightarrow>
            (let title = TrimLeftFunc (drop index value) isTrackSeparator
             in if title = '''' then (value, 0) else (title, number)))"

definition leadingYear :: "string \<Rightarrow> int" where
  "leadingYear value0 =
    (let value = dropWhile (\<lambda>c. c \<in> set '' ([{'') value0
     in if length value < 4 then 0
        else case Atoi (take 4 value) of
          None \<Rightarrow> 0
        | Some year \<Rightarrow> if year < 1900 \<or> year > 2100 then 0 else year)"

text \<open>The word for disc in Russian.\<close>

definition word_disk :: string where
  "word_disk = runes_string [0x434, 0x438, 0x441, 0x43A]"

fun disc_prefixes :: "string \<Rightarrow> string list \<Rightarrow> int option" where
  "disc_prefixes value [] = None"
| "disc_prefixes value (p # ps) =
    (if \<not> HasPrefix value p then disc_prefixes value ps
     else let remainder = TrimLeftFunc (TrimPrefix value p)
                (\<lambda>r. IsSpace r \<or> r = 46 \<or> r = 45 \<or> r = 95 \<or> r = 0x2116);
              digits = takeWhile is_digit remainder
          in if digits = [] then None
             else case Atoi digits of None \<Rightarrow> None | Some number \<Rightarrow> if number > 0 then Some number else None)"

definition discDirectoryNumber :: "unicode_tables \<Rightarrow> string \<Rightarrow> int option" where
  "discDirectoryNumber uc value = disc_prefixes (ToLower uc (TrimSpace value)) [''cd'', ''disc'', ''disk'', word_disk]"

text \<open>In Russian: album, single, collection, compilation, jubilee, unofficial, release.\<close>

definition collection_markers :: "string list" where
  "collection_markers =
    [runes_string [0x430, 0x43B, 0x44C, 0x431, 0x43E, 0x43C],
     runes_string [0x441, 0x438, 0x43D, 0x433, 0x43B],
     runes_string [0x441, 0x431, 0x43E, 0x440, 0x43D, 0x438, 0x43A],
     runes_string [0x43A, 0x43E, 0x43C, 0x43F, 0x438, 0x43B, 0x44F, 0x446],
     runes_string [0x44E, 0x431, 0x438, 0x43B, 0x435, 0x439],
     runes_string [0x43D, 0x435, 0x43E, 0x444, 0x438, 0x446, 0x438, 0x430, 0x43B, 0x44C],
     runes_string [0x440, 0x435, 0x43B, 0x438, 0x437],
     ''albums'', ''singles'', ''compilation'', ''collection'', ''bootleg'', ''releases'']"

definition collectionDirectory :: "unicode_tables \<Rightarrow> string \<Rightarrow> bool" where
  "collectionDirectory uc value0 =
    (let value = TrimLeftFunc (ToLower uc (TrimSpace value0))
           (\<lambda>r. IsDigit uc r \<or> IsSpace r \<or> r = 46 \<or> r = 45 \<or> r = 95)
     in list_ex (Contains value) collection_markers)"

text \<open>The word for band in Russian, with a space or a colon after it. The lower case of the prefix has as
  many bytes as the prefix.\<close>

definition band_prefixes :: "string list" where
  "band_prefixes = (let band = runes_string [0x433, 0x440, 0x443, 0x43F, 0x43F, 0x430]
     in [band @ '' '', band @ '': ''])"

fun strip_prefixes :: "string \<Rightarrow> string \<Rightarrow> string list \<Rightarrow> string" where
  "strip_prefixes value lower [] = value"
| "strip_prefixes value lower (p # ps) =
    (if HasPrefix lower p \<and> TrimSpace (drop (length p) value) \<noteq> '''' then TrimSpace (drop (length p) value)
     else strip_prefixes value lower ps)"

definition normalizedArtistDirectory :: "unicode_tables \<Rightarrow> string \<Rightarrow> string" where
  "normalizedArtistDirectory uc value0 =
    (let value = TrimSpace value0 in strip_prefixes value (ToLower uc value) band_prefixes)"

text \<open>The directories of a file below the first, with the disc directory split off.\<close>

definition album_index :: "unicode_tables \<Rightarrow> string list \<Rightarrow> nat \<times> int" where
  "album_index uc dirs =
    (let albumIndex = length dirs - 1
     in case discDirectoryNumber uc (dirs ! albumIndex) of
          Some number \<Rightarrow> if albumIndex > 1 then (albumIndex - 1, number) else (albumIndex, 0)
        | None \<Rightarrow> (albumIndex, 0))"

definition artist_index :: "unicode_tables \<Rightarrow> string list \<Rightarrow> nat \<Rightarrow> nat" where
  "artist_index uc dirs albumIndex =
    (case List.find (\<lambda>i. collectionDirectory uc (dirs ! i)) [1..<albumIndex] of
       Some i \<Rightarrow> i - 1 | None \<Rightarrow> albumIndex - 1)"

definition torrent_root :: "string list \<Rightarrow> string" where
  "torrent_root parts = (if length parts = 1 then TrimSuffix (parts ! 0) (filepath_Ext (parts ! 0)) else parts ! 0)"

text \<open>The branches over the number of directories and over the split of the root into artist and album.\<close>

definition directory_names :: "unicode_tables \<Rightarrow> string list \<Rightarrow> string \<times> string \<times> int" where
  "directory_names uc parts =
    (let split = cut_at '' - '' (torrent_root parts);
         dirs = butlast parts
     in if length parts = 1 \<and> split \<noteq> None then (TrimSpace (fst (the split)), ''Unknown Album'', 0)
        else if length dirs \<le> 1 \<and> split \<noteq> None then (TrimSpace (fst (the split)), TrimSpace (snd (the split)), 0)
        else if length dirs \<le> 1 then (''Unknown Artist'', torrent_root parts, 0)
        else let (albumIndex, discNumber) = album_index uc dirs;
                 artistIndex = artist_index uc dirs albumIndex
             in (if artistIndex = 0 \<and> split \<noteq> None then TrimSpace (fst (the split)) else dirs ! artistIndex,
                 dirs ! albumIndex, discNumber))"

definition provisionalArtistAlbum :: "unicode_tables \<Rightarrow> string list \<Rightarrow> string \<times> string \<times> int" where
  "provisionalArtistAlbum uc parts =
    (let (artist, album, discNumber) = directory_names uc parts
     in (normalizedArtistDirectory uc (if artist = '''' then ''Unknown Artist'' else artist),
         if album = '''' then torrent_root parts else album, discNumber))"

definition source_key :: "string \<Rightarrow> string list \<Rightarrow> string" where
  "source_key infoHash parts = infoHash @ ''/'' @ strings_Join parts ''/''"

definition file_title :: "string list \<Rightarrow> string \<times> int" where
  "file_title parts =
    (let fileName = last parts;
         (title, number) = titleAndNumber (TrimSuffix fileName (filepath_Ext fileName))
     in if length parts = 1 then
          (case cut_at '' - '' title of
             Some (_, candidate) \<Rightarrow> (if TrimSpace candidate \<noteq> '''' then TrimSpace candidate else title, number)
           | None \<Rightarrow> (title, number))
        else (title, number))"

definition torrent_makeTrack ::
  "text_env \<Rightarrow> string \<Rightarrow> string list \<Rightarrow> int \<Rightarrow> string \<Rightarrow> string \<Rightarrow> TrackSource" where
  "torrent_makeTrack env infoHash parts len extension contentType =
    (let (title, trackNumber) = file_title parts;
         (artist, album, discNumber) = provisionalArtistAlbum (unicode env) parts;
         artistID = CanonicalArtistID env artist;
         track = zero_track\<lparr>track_Title := title, track_Artist := artist, track_ArtistID := artistID, track_Album := album,
           track_AlbumID := CanonicalAlbumID env artist album, track_AlbumArtist := artist,
           track_AlbumArtistID := artistID, track_TrackNumber := trackNumber, track_DiscNumber := discNumber,
           track_Year := leadingYear album, track_Size := len, track_Suffix := TrimPrefix extension ''.'',
           track_ContentType := contentType\<rparr>
     in \<lparr>ts_Track = track\<lparr>track_ID := CanonicalTrackID env track\<rparr>,
         ts_Ref = \<lparr>ref_Provider = TorrentName, ref_Key = source_key infoHash parts\<rparr>, ts_DisplayPath = '''',
         ts_Availability = zero_availability, ts_DiscoveredAt = time_zero\<rparr>)"

definition logicalTrackID :: "text_env \<Rightarrow> string \<Rightarrow> string \<Rightarrow> int \<Rightarrow> string" where
  "logicalTrackID env infoHash logicalPath len =
    (let extension = ToLower (unicode env) (filepath_Ext logicalPath);
         contentType = (case ByExtension (unicode env) extension of None \<Rightarrow> '''' | Some format \<Rightarrow> fmt_ContentType format)
     in track_ID (ts_Track (torrent_makeTrack env infoHash (split_on slash logicalPath) len extension contentType)))"

section \<open>Cover art\<close>

definition torrentArtworkPriority :: "unicode_tables \<Rightarrow> string \<Rightarrow> int" where
  "torrentArtworkPriority uc name =
    (let stem = ToLower uc (TrimSuffix name (filepath_Ext name));
         any = (\<lambda>ps. list_ex (HasPrefix stem) ps)
     in if stem \<in> {''cover'', ''folder'', ''front'', ''albumart''} then 0
        else if any [''cover'', ''folder'', ''front'', ''albumart''] then 1
        else if any [''scan'', ''img'', ''image'', ''artwork'', ''booklet''] then 30
        else if any [''cd'', ''disc'', ''disk''] then 40
        else if any [''back'', ''rear''] then 80
        else 50)"

text \<open>The score of a picture for the audio file of an album directory, if it lies in the directory or below.\<close>

definition artwork_score :: "unicode_tables \<Rightarrow> string list \<Rightarrow> catalogFile \<Rightarrow> int option" where
  "artwork_score uc audioParts candidate =
    (let albumDirectory = strings_Join (butlast audioParts) ''/'';
         candidateDirectory = strings_Join (butlast (cf_parts candidate)) ''/'';
         priority = torrentArtworkPriority uc (last (cf_parts candidate))
     in if candidateDirectory = albumDirectory then Some priority
        else if HasPrefix candidateDirectory (albumDirectory @ ''/'')
        then Some ((int (count_list (TrimPrefix candidateDirectory (albumDirectory @ ''/'')) slash) + 1) * 10 + priority)
        else None)"

definition logical_path :: "catalogFile \<Rightarrow> string" where
  "logical_path f = strings_Join (cf_parts f) ''/''"

text \<open>One round of the loop over the pictures; \<open>best\<close> is the best one so far with its score.\<close>

definition consider_artwork ::
  "unicode_tables \<Rightarrow> string list \<Rightarrow> catalogFile \<Rightarrow> (catalogFile \<times> int) option \<Rightarrow> (catalogFile \<times> int) option" where
  "consider_artwork uc audioParts candidate best =
    (case artwork_score uc audioParts candidate of
       None \<Rightarrow> best
     | Some score \<Rightarrow> (case best of
         None \<Rightarrow> Some (candidate, score)
       | Some (b, bestScore) \<Rightarrow>
           if score < bestScore \<or> score = bestScore \<and> logical_path candidate < logical_path b
           then Some (candidate, score) else best))"

definition bestArtwork :: "unicode_tables \<Rightarrow> string list \<Rightarrow> catalogFile list \<Rightarrow> catalogFile option" where
  "bestArtwork uc audioParts candidates = map_option fst (fold (consider_artwork uc audioParts) candidates None)"

section \<open>Paths and keys\<close>

fun safePath_loop :: "string list \<Rightarrow> string list \<Rightarrow> string list result" where
  "safePath_loop parts [] = Inr parts"
| "safePath_loop parts (p # ps) =
    (let part = TrimSpace p
     in if part = '''' \<or> part = ''.'' \<or> part = ''..'' \<or> ContainsAny part [slash, CHR 0x5C]
        then Inl (Errorf ''torrent contains unsafe path component'')
        else safePath_loop (parts @ [part]) ps)"

definition safePath :: "string \<Rightarrow> string list \<Rightarrow> string list result" where
  "safePath root fileParts = safePath_loop [root] fileParts"

definition parseSourceKey :: "string \<Rightarrow> (string \<times> string) result" where
  "parseSourceKey key =
    (let (infoHash, logicalPath, ok) = Cut key slash
     in if \<not> ok \<or> logicalPath = '''' \<or> length infoHash \<noteq> 40 then Inl (Errorf ''invalid torrent source key'')
        else if \<not> hex_ok infoHash then Inl (Errorf ''invalid torrent info hash'')
        else if Clean logicalPath \<noteq> logicalPath \<or> HasPrefix logicalPath ''../''
        then Inl (Errorf ''invalid torrent source path'')
        else Inr (infoHash, logicalPath))"

definition torrent_contentType :: "unicode_tables \<Rightarrow> string \<Rightarrow> string" where
  "torrent_contentType uc name =
    (let extension = ToLower uc (filepath_Ext name)
     in case ByExtension uc extension of
          Some format \<Rightarrow> fmt_ContentType format
        | None \<Rightarrow> (case imageContentTypes extension of None \<Rightarrow> '''' | Some t \<Rightarrow> t))"

definition cachePath :: "string \<Rightarrow> string \<Rightarrow> string \<Rightarrow> string" where
  "cachePath dataRoot infoHash logicalPath = filepath_Join [dataRoot, infoHash, logicalPath]"


section \<open>Safe paths and source keys\<close>

lemma ContainsAny_iff: "ContainsAny s cs \<longleftrightarrow> set s \<inter> set cs \<noteq> {}"
  by (auto simp: ContainsAny_def list_ex_iff)

lemma safePath_loop_Inr:
  "safePath_loop acc fs = Inr parts \<Longrightarrow> parts = acc @ map TrimSpace fs \<and> list_all plain_element (map TrimSpace fs)"
  by (induction acc fs rule: safePath_loop.induct)
    (auto simp: Let_def plain_element_def ContainsAny_iff split: if_splits)

lemma safePath_Inr:
  assumes "safePath root fs = Inr parts"
  shows "parts = root # map TrimSpace fs" "list_all plain_element (map TrimSpace fs)"
  using safePath_loop_Inr [OF assms [unfolded safePath_def]] by simp_all

text \<open>The parts of a file are trimmed and not empty; those of a torrent with a plain name are plain.\<close>

definition trimmed_parts :: "string list \<Rightarrow> bool" where
  "trimmed_parts parts \<longleftrightarrow> parts \<noteq> [] \<and> (\<forall>p \<in> set parts. p \<noteq> '''' \<and> TrimSpace p = p)"

lemma safePath_trimmed: "safePath root fs = Inr parts \<Longrightarrow> root \<noteq> '''' \<Longrightarrow> TrimSpace root = root \<Longrightarrow> trimmed_parts parts"
  using safePath_Inr [of root fs parts] by (auto simp: trimmed_parts_def plain_element_def list_all_iff)

lemma safePath_plain: "safePath root fs = Inr parts \<Longrightarrow> plain_element root \<Longrightarrow> parts \<noteq> [] \<and> list_all plain_element parts"
  using safePath_Inr [of root fs parts] by simp

lemma hex_no_slash: "hex_ok h \<Longrightarrow> slash \<notin> set h"
  by (auto simp: hex_ok_def list_all_iff is_hex_def is_digit_def byte_def)

lemma Clean_plain_Join:
  assumes "parts \<noteq> []" "list_all plain_element parts"
  shows "Clean (strings_Join parts ''/'') = strings_Join parts ''/''" "\<not> HasPrefix (strings_Join parts ''/'') ''../''"
    "strings_Join parts ''/'' \<noteq> ''''" "\<not> IsAbs (strings_Join parts ''/'')"
proof -
  obtain p ps where parts: "parts = p # ps" using assms(1) by (cases parts) auto
  have p: "plain_element p" using assms(2) parts by simp
  then obtain c cs where c: "p = c # cs" "c \<noteq> slash" by (cases p) (auto simp: plain_element_def)
  have join: "\<exists>rest. strings_Join parts ''/'' = p @ rest \<and> (rest = [] \<or> (\<exists>r. rest = slash # r))"
    using parts by (cases ps) auto
  then show ne: "strings_Join parts ''/'' \<noteq> ''''" and abs: "\<not> IsAbs (strings_Join parts ''/'')"
    using c by (auto simp: IsAbs_def HasPrefix_def)
  have split: "split_on slash (strings_Join parts ''/'') = parts"
    by (rule split_on_Join [OF assms(1)]) (rule plain_no_slash [OF assms(2)])
  show "Clean (strings_Join parts ''/'') = strings_Join parts ''/''"
    using abs assms by (simp add: Clean_def split clean_elements_def foldl_clean_plain)
  have "\<not> HasPrefix (p @ rest) ''../''" if "rest = [] \<or> (\<exists>r. rest = slash # r)" for rest
  proof
    assume "HasPrefix (p @ rest) ''../''"
    then obtain t where t: "p @ rest = ''..'' @ slash # t" by (auto simp: HasPrefix_iff prefix_def)
    have "p = ''..''"
      using t that p by (auto simp: append_eq_append_conv2 Cons_eq_append_conv append_eq_Cons_conv plain_element_def)
    with p show False by (simp add: plain_element_def)
  qed
  with join show "\<not> HasPrefix (strings_Join parts ''/'') ''../''" by metis
qed

lemma Cut_slash: "slash \<notin> set h \<Longrightarrow> Cut (h @ ''/'' @ rest) slash = (h, rest, True)"
  by (induction h) (auto simp: Cut_def)

text \<open>The key of a file is parsed back.\<close>

lemma parse_source_key:
  assumes "length h = 40" "hex_ok h" "parts \<noteq> []" "list_all plain_element parts"
  shows "parseSourceKey (source_key h parts) = Inr (h, strings_Join parts ''/'')"
  using Clean_plain_Join [OF assms(3,4)] assms(1,2)
  by (simp add: parseSourceKey_def source_key_def Cut_slash [OF hex_no_slash [OF assms(2)], simplified])

text \<open>What \<open>filepath.Join\<close> makes of a root and further elements: the elements one after another.\<close>

lemma Join3:
  assumes "clean_root root" "a \<noteq> ''''"
  shows "filepath_Join [root, a, b] = slash # strings_Join
    (rev (foldl (clean_push True) (rev (path_elements root)) (split_on slash a @ split_on slash b))) ''/''"
proof -
  from assms(1) have abs: "IsAbs root" and pe: "list_all plain_element (path_elements root)"
    by (auto simp: clean_root_def)
  have ne: "root \<noteq> ''''" using abs by (auto simp: IsAbs_def HasPrefix_def)
  have abs': "IsAbs (root @ slash # a @ slash # b)" using abs by (cases root) (auto simp: IsAbs_def HasPrefix_def)
  have r: "foldl (clean_push True) [] (split_on slash root) = rev (path_elements root)"
    using foldl_clean_plain [OF pe, of True "[]"] by (simp add: path_elements_def foldl_clean_filter)
  show ?thesis using ne abs' by (simp add: filepath_Join_def Clean_def clean_elements_def split_on_sep r)
qed

lemma cachePath_plain:
  assumes "clean_root root" "plain_element h" "parts \<noteq> []" "list_all plain_element parts"
  shows "cachePath root h (strings_Join parts ''/'') = slash # strings_Join (path_elements root @ h # parts) ''/''"
proof -
  have h: "split_on slash h = [h]" "h \<noteq> ''''" using assms(2) by (auto simp: plain_element_def)
  have "split_on slash (strings_Join parts ''/'') = parts"
    by (rule split_on_Join [OF assms(3)]) (rule plain_no_slash [OF assms(4)])
  then show ?thesis using assms(2,4) unfolding cachePath_def Join3 [OF assms(1) h(2)]
    by (simp add: h foldl_clean_plain)
qed

lemma hash_plain: "length h = 40 \<Longrightarrow> hex_ok h \<Longrightarrow> plain_element h"
  using hex_no_slash [of h] by (auto simp: plain_element_def)

lemma path_elements_cachePath:
  assumes "clean_root root" "plain_element h" "parts \<noteq> []" "list_all plain_element parts"
  shows "path_elements (cachePath root h (strings_Join parts ''/'')) = path_elements root @ h # parts"
  using assms by (simp add: cachePath_plain path_elements_Join clean_root_def)

text \<open>Whatever key is accepted, the file of the cache lies below its root.\<close>

lemma Clean_fixed_elements:
  assumes "Clean p = p" "\<not> HasPrefix p ''../''" "p \<noteq> ''..''"
  shows "list_all plain_element (clean_elements True (split_on slash p))
    \<and> foldl (clean_push True) stack (split_on slash p) = rev (clean_elements True (split_on slash p)) @ stack"
proof -
  obtain rel where rel: "list_all plain_element rel" and split: "split_on slash p \<in> {rel, ['''', ''''], '''' # rel, [''.'']}"
    and one: "split_on slash p = ['''', ''''] \<or> split_on slash p = [''.''] \<Longrightarrow> rel = []"
  proof (cases "IsAbs p")
    case True
    obtain e where e: "list_all plain_element e" "p = slash # strings_Join e ''/''"
    proof
      show "list_all plain_element (clean_elements True (split_on slash p))"
        unfolding clean_elements_def list_all_rev by (rule clean_stack_rooted) (auto dest: split_on_no_sep)
      show "p = slash # strings_Join (clean_elements True (split_on slash p)) ''/''"
        using assms(1) True unfolding Clean_def Let_def by simp
    qed
    then have "split_on slash p = '''' # (if e = [] then [''''] else e)"
      using split_on_Join [of e slash] plain_no_slash [OF e(1)] by (cases "e = []") simp_all
    with e(1) show thesis by (intro that [of e]) (auto simp: plain_element_def split: if_splits)
  next
    case False
    have "\<not> (Clean p = ''..'' \<or> HasPrefix (Clean p) ''../'')" using assms by simp
    from accepted_relative [OF False this] obtain rel where rel: "list_all plain_element rel"
      "Clean p = (if rel = [] then ''.'' else strings_Join rel ''/'')" .
    then have "split_on slash p = (if rel = [] then [''.''] else rel)"
      using assms(1) split_on_Join [of rel slash] plain_no_slash [OF rel(1)]
      by (cases "rel = []") auto
    with rel(1) show thesis by (intro that [of rel]) (auto simp: plain_element_def split: if_splits)
  qed
  have "foldl (clean_push True) st (split_on slash p) = rev rel @ st" for st
    using split one foldl_clean_plain [OF rel, of True st] by (auto simp: clean_push_def)
  then show ?thesis using rel by (simp add: clean_elements_def)
qed

lemma cachePath_below:
  assumes "clean_root root" "parseSourceKey key = Inr (h, p)"
  shows "below root (cachePath root h p)"
proof -
  have key: "length h = 40" "hex_ok h" "Clean p = p" "\<not> HasPrefix p ''../''"
    using assms(2) by (auto simp: parseSourceKey_def Let_def split: if_splits prod.splits)
  then have h: "plain_element h" "h \<noteq> ''''" "split_on slash h = [h]"
    using hash_plain by (auto simp: plain_element_def)
  have pe: "list_all plain_element (path_elements root)" using assms(1) by (simp add: clean_root_def)
  show ?thesis
  proof (cases "p = ''..''")
    case True
    have "cachePath root h p = slash # strings_Join (path_elements root) ''/''"
      unfolding cachePath_def Join3 [OF assms(1) h(2)] True using h by (simp add: clean_push_def plain_element_def)
    then show ?thesis using path_elements_Join [OF pe] unfolding below_def by auto
  next
    case False
    let ?e = "clean_elements True (split_on slash p)"
    from Clean_fixed_elements [OF key(3,4) False]
    have e: "list_all plain_element ?e" "\<And>st. foldl (clean_push True) st (split_on slash p) = rev ?e @ st" by auto
    have "cachePath root h p = slash # strings_Join (path_elements root @ h # ?e) ''/''"
      unfolding cachePath_def Join3 [OF assms(1) h(2)] using h e(2) by simp
    then have "path_elements (cachePath root h p) = path_elements root @ h # ?e"
      using pe h e(1) by (simp add: path_elements_Join)
    then show ?thesis using h(1) e(1) unfolding below_def by (intro exI [of _ "h # ?e"]) simp
  qed
qed

section \<open>The best cover\<close>

definition better_or_equal :: "catalogFile \<times> int \<Rightarrow> catalogFile \<times> int \<Rightarrow> bool" where
  "better_or_equal a b \<longleftrightarrow> snd a < snd b \<or> snd a = snd b \<and> logical_path (fst a) \<le> logical_path (fst b)"

text \<open>The pictures that are considered, with their scores.\<close>

definition scored :: "unicode_tables \<Rightarrow> string list \<Rightarrow> catalogFile list \<Rightarrow> (catalogFile \<times> int) set" where
  "scored uc audioParts cs = {(c, s). c \<in> set cs \<and> artwork_score uc audioParts c = Some s}"

lemma scored_Cons: "scored uc ap (c # cs) =
    (case artwork_score uc ap c of None \<Rightarrow> scored uc ap cs | Some s \<Rightarrow> insert (c, s) (scored uc ap cs))"
  by (auto simp: scored_def split: option.splits)

lemma better_trans: "better_or_equal a b \<Longrightarrow> better_or_equal b c \<Longrightarrow> better_or_equal a c"
  by (auto simp: better_or_equal_def)

lemma better_refl [simp]: "better_or_equal a a"
  by (simp add: better_or_equal_def)

text \<open>\<open>b\<close> is a best element of \<open>S\<close>, if there is one.\<close>

definition best_of :: "(catalogFile \<times> int) option \<Rightarrow> (catalogFile \<times> int) set \<Rightarrow> bool" where
  "best_of b S \<longleftrightarrow> (case b of None \<Rightarrow> S = {} | Some x \<Rightarrow> x \<in> S \<and> (\<forall>c \<in> S. better_or_equal x c))"

lemma consider_best:
  assumes "best_of b S"
  shows "best_of (consider_artwork uc ap c b) (S \<union> scored uc ap [c])"
proof (cases "artwork_score uc ap c")
  case None
  with assms show ?thesis by (simp add: consider_artwork_def scored_Cons) (simp add: scored_def)
next
  case (Some s)
  have sc: "scored uc ap [c] = {(c, s)}" using Some by (auto simp: scored_def)
  show ?thesis
  proof (cases b)
    case None
    with assms Some sc show ?thesis by (simp add: consider_artwork_def best_of_def)
  next
    case (Some x)
    obtain f n where x: "x = (f, n)" by fastforce
    have S: "x \<in> S" "\<And>y. y \<in> S \<Longrightarrow> better_or_equal x y" using assms Some by (auto simp: best_of_def)
    show ?thesis
    proof (cases "s < n \<or> s = n \<and> logical_path c < logical_path f")
      case True
      then have "better_or_equal (c, s) x" by (auto simp: better_or_equal_def x)
      with S have "\<forall>y \<in> S. better_or_equal (c, s) y" by (metis better_trans)
      with True x Some sc \<open>artwork_score uc ap c = Some s\<close> show ?thesis by (auto simp: consider_artwork_def best_of_def)
    next
      case False
      then have "better_or_equal x (c, s)" by (auto simp: better_or_equal_def x)
      with False x S Some sc \<open>artwork_score uc ap c = Some s\<close> show ?thesis by (auto simp: consider_artwork_def best_of_def)
    qed
  qed
qed

lemma fold_consider_best: "best_of b S \<Longrightarrow> best_of (fold (consider_artwork uc ap) cs b) (S \<union> scored uc ap cs)"
proof (induction cs arbitrary: b S)
  case (Cons c cs)
  have "scored uc ap (c # cs) = scored uc ap [c] \<union> scored uc ap cs" by (auto simp: scored_def)
  with Cons.IH [OF consider_best [OF Cons.prems]] show ?case by (simp add: Un_assoc)
qed (simp add: scored_def)

lemma best_of_loop: "best_of (fold (consider_artwork uc ap) cs None) (scored uc ap cs)"
  using fold_consider_best [of None "{}"] by (simp add: best_of_def)

lemma bestArtwork_None: "bestArtwork uc ap cs = None \<longleftrightarrow> (\<forall>c \<in> set cs. artwork_score uc ap c = None)"
  using best_of_loop [of uc ap cs] by (cases "fold (consider_artwork uc ap) cs None")
    (auto simp: bestArtwork_def best_of_def scored_def)

lemma bestArtwork_Some:
  assumes "bestArtwork uc ap cs = Some b"
  shows "b \<in> set cs \<and> (\<exists>s. artwork_score uc ap b = Some s
    \<and> (\<forall>c \<in> set cs. \<forall>s'. artwork_score uc ap c = Some s' \<longrightarrow> s < s' \<or> s = s' \<and> logical_path b \<le> logical_path c))"
proof -
  obtain s where "fold (consider_artwork uc ap) cs None = Some (b, s)" using assms by (auto simp: bestArtwork_def)
  with best_of_loop [of uc ap cs] show ?thesis by (auto simp: best_of_def scored_def better_or_equal_def)
qed

section \<open>The tracks of a torrent\<close>

text \<open>The track identifier depends on the path only, so that a download restored from its record has that
  of the catalog.\<close>

lemma makeTrack_ID:
  "track_ID (ts_Track (torrent_makeTrack env h parts n ext ct)) = track_ID (ts_Track (torrent_makeTrack env h parts n' ext' ct'))"
  by (simp add: torrent_makeTrack_def Let_def CanonicalTrackID_def split: prod.splits)

lemma logicalTrackID_makeTrack:
  assumes "parts \<noteq> []" "\<forall>p \<in> set parts. slash \<notin> set p"
  shows "logicalTrackID env h (strings_Join parts ''/'') n = track_ID (ts_Track (torrent_makeTrack env h parts n' ext ct))"
  using split_on_Join [of parts slash] assms unfolding logicalTrackID_def Let_def by (metis makeTrack_ID)

lemma Atoi_digits_bound: "Atoi_digits acc ds = Some n \<Longrightarrow> n < (acc + 1) * 10 ^ length ds"
proof (induction acc ds rule: Atoi_digits.induct)
  case (2 acc c cs)
  then have d: "byte c \<le> 57" "48 \<le> byte c" and n: "Atoi_digits (acc * 10 + (byte c - 48)) cs = Some n"
    by (auto split: if_splits)
  have "n < (acc * 10 + (byte c - 48) + 1) * 10 ^ length cs" using 2 d n by simp
  also have "\<dots> \<le> ((acc + 1) * 10) * 10 ^ length cs" using d by (intro mult_right_mono) auto
  finally show ?case by (simp add: algebra_simps)
qed simp

lemma Atoi_bounds:
  assumes "Atoi ds = Some n" "\<forall>c \<in> set ds. is_digit c"
  shows "0 \<le> n" "n < 10 ^ length ds"
proof -
  have no_sign: "c \<noteq> CHR ''-'' \<and> c \<noteq> CHR ''+''" if "is_digit c" for c
    using that by (auto simp: is_digit_def byte_def)
  have "Atoi ds = (case Atoi_digits 0 ds of None \<Rightarrow> None | Some m \<Rightarrow> if in_i64 (int m) then Some (int m) else None)" if "ds \<noteq> []"
    using that no_sign assms(2) by (cases ds) (auto simp: Atoi_def Let_def split: option.splits)
  moreover have "ds \<noteq> []" using assms(1) by (auto simp: Atoi_def)
  ultimately obtain m where m: "Atoi_digits 0 ds = Some m" "n = int m" using assms(1) by (auto split: option.splits if_splits)
  from Atoi_digits_bound [OF m(1)] m(2) show "0 \<le> n" "n < 10 ^ length ds" by auto
qed

lemma titleAndNumber_bounds:
  assumes "titleAndNumber v = (title, number)"
  shows "0 \<le> number" "number < 1000" "TrimSpace v \<noteq> '''' \<Longrightarrow> title \<noteq> ''''"
proof -
  let ?v = "TrimSpace v"
  let ?i = "length (takeWhile is_digit (take 3 ?v))"
  have "take ?i ?v = takeWhile is_digit (take 3 ?v)"
    by (metis append_eq_conv_conj takeWhile_dropWhile_id append_take_drop_id append.assoc)
  then have d: "\<forall>c \<in> set (take ?i ?v). is_digit c" by (metis set_takeWhileD)
  have i: "length (take ?i ?v) \<le> 3"
    by (metis length_takeWhile_le length_take min.bounded_iff min.cobounded2 order_trans)
  have b: "0 \<le> n \<and> n < 1000" if "Atoi (take ?i ?v) = Some n" for n
  proof -
    have "(10::int) ^ length (take ?i ?v) \<le> 10 ^ 3" using i by (intro power_increasing) auto
    with Atoi_bounds [OF that d] show ?thesis by simp
  qed
  from assms b show "0 \<le> number" "number < 1000" "TrimSpace v \<noteq> '''' \<Longrightarrow> title \<noteq> ''''"
    by (auto simp: titleAndNumber_def Let_def split: if_splits option.splits)
qed

lemma leadingYear_bounds: "leadingYear v = 0 \<or> 1900 \<le> leadingYear v \<and> leadingYear v \<le> 2100"
  by (auto simp: leadingYear_def Let_def split: option.splits)

lemma disc_prefixes_positive: "disc_prefixes v ps = Some n \<Longrightarrow> 0 < n"
  by (induction v ps rule: disc_prefixes.induct) (auto simp: Let_def split: if_splits option.splits)

lemma normalizedArtistDirectory_ne: "TrimSpace v \<noteq> '''' \<Longrightarrow> normalizedArtistDirectory uc v \<noteq> ''''"
proof -
  have "v' \<noteq> '''' \<Longrightarrow> strip_prefixes v' l ps \<noteq> ''''" for v' l ps
    by (induction v' l ps rule: strip_prefixes.induct) auto
  then show "TrimSpace v \<noteq> '''' \<Longrightarrow> normalizedArtistDirectory uc v \<noteq> ''''" by (simp add: normalizedArtistDirectory_def Let_def)
qed

lemma discDirectoryNumber_positive: "discDirectoryNumber uc d = Some n \<Longrightarrow> 0 < n"
  unfolding discDirectoryNumber_def by (rule disc_prefixes_positive)

lemma album_index_cases:
  "album_index uc dirs = (length dirs - 1, 0) \<or>
   (\<exists>n. album_index uc dirs = (length dirs - 2, n) \<and> 0 < n \<and> 1 < length dirs - 1)"
proof (cases "discDirectoryNumber uc (dirs ! (length dirs - 1))")
  case (Some n)
  show ?thesis
  proof (cases "length dirs - 1 > 1")
    case True
    then show ?thesis using Some discDirectoryNumber_positive [OF Some]
      by (simp add: album_index_def Let_def numeral_2_eq_2)
  next
    case False
    then show ?thesis using Some by (simp add: album_index_def Let_def)
  qed
qed (simp add: album_index_def)

lemma album_index_bound:
  assumes "2 \<le> length dirs"
  shows "fst (album_index uc dirs) < length dirs" "0 < fst (album_index uc dirs)" "0 \<le> snd (album_index uc dirs)"
  using album_index_cases [of uc dirs] assms by auto

lemma artist_index_less: "0 < i \<Longrightarrow> artist_index uc dirs i < i"
  by (auto simp: artist_index_def find_Some_iff split: option.split)

lemma directory_names_typed:
  assumes parts: "trimmed_parts parts" and eq: "directory_names uc parts = (artist, album, disc)"
  shows "artist = '''' \<or> TrimSpace artist \<noteq> ''''" "0 \<le> disc"
proof -
  let ?dirs = "butlast parts"
  have dir: "TrimSpace (?dirs ! i) \<noteq> ''''" if "i < length ?dirs" for i
    using that parts unfolding trimmed_parts_def by (metis in_set_butlastD nth_mem)
  have deep: "TrimSpace (?dirs ! artist_index uc ?dirs (fst (album_index uc ?dirs))) \<noteq> ''''"
      "0 \<le> snd (album_index uc ?dirs)" if "\<not> length ?dirs \<le> 1"
    using that album_index_bound [of ?dirs uc] artist_index_less [of "fst (album_index uc ?dirs)" uc ?dirs] dir
    by (simp_all add: not_le)
  have unknown: "TrimSpace ''Unknown Artist'' \<noteq> ''''" by (simp add: go_eval)
  have trim: "TrimSpace s = '''' \<or> TrimSpace (TrimSpace s) \<noteq> ''''" for s by simp
  show "artist = '''' \<or> TrimSpace artist \<noteq> ''''" "0 \<le> disc"
    using eq deep unknown trim unfolding directory_names_def Let_def case_prod_beta
    by (auto split: if_split_asm)
qed

lemma provisional_typed:
  assumes parts: "trimmed_parts parts" and eq: "provisionalArtistAlbum uc parts = (artist, album, disc)"
  shows "artist \<noteq> ''''" "0 \<le> disc" "length parts \<noteq> 1 \<Longrightarrow> album \<noteq> ''''"
proof -
  obtain a b d where names: "directory_names uc parts = (a, b, d)" by (metis prod_cases3)
  note typed = directory_names_typed [OF parts names]
  have "TrimSpace ''Unknown Artist'' \<noteq> ''''" by (simp add: go_eval)
  with typed(1) have "TrimSpace (if a = '''' then ''Unknown Artist'' else a) \<noteq> ''''" by auto
  from normalizedArtistDirectory_ne [OF this, of uc] show "artist \<noteq> ''''"
    using eq names by (simp add: provisionalArtistAlbum_def)
  show "0 \<le> disc" using eq names typed(2) by (simp add: provisionalArtistAlbum_def)
  have "parts ! 0 \<noteq> ''''" using parts by (auto simp: trimmed_parts_def)
  then show "length parts \<noteq> 1 \<Longrightarrow> album \<noteq> ''''"
    using eq names by (auto simp: provisionalArtistAlbum_def torrent_root_def split: if_splits)
qed

text \<open>What a track of a torrent looks like.\<close>

definition torrent_track_ok :: "text_env \<Rightarrow> TrackSource \<Rightarrow> bool" where
  "torrent_track_ok env s \<longleftrightarrow> (let t = ts_Track s in
     ref_Provider (ts_Ref s) = TorrentName \<and> track_Artist t \<noteq> '''' \<and> track_AlbumArtist t = track_Artist t
     \<and> track_ArtistID t = CanonicalArtistID env (track_Artist t) \<and> track_AlbumArtistID t = track_ArtistID t
     \<and> track_AlbumID t = CanonicalAlbumID env (track_AlbumArtist t) (track_Album t)
     \<and> track_ID t = CanonicalTrackID env t
     \<and> 0 \<le> track_TrackNumber t \<and> track_TrackNumber t < 1000 \<and> 0 \<le> track_DiscNumber t
     \<and> (track_Year t = 0 \<or> 1900 \<le> track_Year t \<and> track_Year t \<le> 2100))"

lemma file_title_number: "file_title parts = (title, n) \<Longrightarrow> 0 \<le> n \<and> n < 1000"
  using titleAndNumber_bounds
  by (fastforce simp: file_title_def Let_def split: prod.splits if_splits option.splits)

lemma torrent_makeTrack_ok: "trimmed_parts parts \<Longrightarrow> torrent_track_ok env (torrent_makeTrack env h parts n ext ct)"
  using provisional_typed [of parts "unicode env"] file_title_number [of parts] leadingYear_bounds
  by (auto simp: torrent_track_ok_def torrent_makeTrack_def Let_def CanonicalTrackID_def split: prod.splits)

end
