(* ===== verification/TorrentProvider.thy ===== *)
theory TorrentProvider
  imports TorrentCatalog
begin

text \<open>
  The state of the torrent provider and its operations on files,
  \<open>adapters/providers/torrent/provider.go\<close> and the records of \<open>downloads.go\<close>: reading a torrent into the
  catalog, the layout of the cache and the migration of its former layout, markers of paused and pinned
  sources, removal and eviction. The torrent engine is a third-party package: of it the state keeps which
  torrents are attached and whether they may transfer data. The parser of torrent files and the JSON
  codec are parameters (\<open>torrent_env\<close>).
\<close>

section \<open>Package os\<close>

text \<open>\<open>os.Stat\<close>: a regular file with its contents and time, or a directory (\<open>None\<close>).\<close>

definition os_Stat :: "string \<Rightarrow> (world, (string \<times> time) option) action" where
  "os_Stat path = os_call (\<lambda>w.
     case map_of (w_blobs w) path of
       Some file \<Rightarrow> (Inr (Some file), w)
     | None \<Rightarrow> if is_dir w path then (Inr None, w) else (Inl os_ErrNotExist, w))"

definition os_WriteFile :: "string \<Rightarrow> string \<Rightarrow> (world, unit) action" where
  "os_WriteFile path contents = os_call (\<lambda>w.
     if is_dir w path then (Inl os_error, w)
     else let (now, w') = time_Now w in (Inr (), w'\<lparr>w_blobs := upsert fst (path, contents, now) (w_blobs w')\<rparr>))"

definition os_Rename :: "string \<Rightarrow> string \<Rightarrow> (world, unit) action" where
  "os_Rename old new = os_call (\<lambda>w.
     case map_of (w_blobs w) old of
       None \<Rightarrow> (Inl (if is_dir w old then os_error else os_ErrNotExist), w)
     | Some file \<Rightarrow>
         if is_dir w new then (Inl os_error, w)
         else if old = new then (Inr (), w)
         else (Inr (), w\<lparr>w_blobs := upsert fst (new, file) (filter (\<lambda>f. fst f \<noteq> old) (w_blobs w))\<rparr>))"

definition os_MkdirAll :: "(world, unit) action" where
  "os_MkdirAll = os_call (\<lambda>w. (Inr (), w))"

definition os_RemoveAll :: "string \<Rightarrow> (world, unit) action" where
  "os_RemoveAll path = os_call (\<lambda>w.
     (Inr (), w\<lparr>w_blobs := filter (\<lambda>f. fst f \<noteq> path \<and> \<not> HasPrefix (fst f) (path @ ''/'')) (w_blobs w)\<rparr>))"

text \<open>\<open>os.ReadDir\<close>: the names in a directory, sorted, and which of them are directories. A directory
  without files does not exist.\<close>

definition dir_entries :: "world \<Rightarrow> string \<Rightarrow> (string \<times> bool) list" where
  "dir_entries w path = SliceStable (\<lambda>a b. fst a < fst b) (remdups
     (map (\<lambda>f. let r = split_on slash (drop (length path + 1) (fst f)) in (hd r, length r \<noteq> 1))
       (filter (\<lambda>f. HasPrefix (fst f) (path @ ''/'')) (w_blobs w))))"

definition os_ReadDir :: "string \<Rightarrow> (world, (string \<times> bool) list) action" where
  "os_ReadDir path = os_call (\<lambda>w.
     if is_dir w path then (Inr (dir_entries w path), w)
     else (Inl (if map_of (w_blobs w) path = None then os_ErrNotExist else os_error), w))"

text \<open>\<open>ctx.Err()\<close>: the caller may have given up.\<close>

definition ctx_Err :: "(world, unit) action" where
  "ctx_Err w = (if next_fault w then (Inl ErrCanceled, spend_fault w) else (Inr (), spend_fault w))"

definition fileExists :: "string \<Rightarrow> (world, bool) action" where
  "fileExists path = tryE (os_Stat path) (\<lambda>r. ret (case r of Inr (Some _) \<Rightarrow> True | _ \<Rightarrow> False))"

section \<open>State\<close>

record cacheFile =
  cfl_infoHash :: string
  cfl_logicalPath :: string

record downloadRecord =
  dr_Download :: TrackDownload
  dr_Source :: SourceRef
  dr_LogicalPath :: string

record torrent_info =
  ti_BestName :: string
  ti_Files :: "(string list \<times> int) list"

record metainfo =
  mi_InfoHash :: string
  mi_Info :: "torrent_info result"

record torrent_env =
  te_text :: text_env
  te_Load :: "string \<Rightarrow> metainfo result"
  te_allocated :: "string \<Rightarrow> int"
  te_Marshal :: "downloadRecord \<Rightarrow> string"
  te_Unmarshal :: "string \<Rightarrow> downloadRecord result"

text \<open>
  The maps of the provider; counters and times that are not there read as zero. \<open>tp_client\<close> maps the info
  hashes attached to the engine to whether data may flow; it is \<open>None\<close> before the engine is started. A
  file of the engine is known by a number.
\<close>

record torrent_state =
  tp_metadataRoot :: string
  tp_dataRoot :: string
  tp_client :: "(string \<rightharpoonup> bool) option"
  tp_cacheFiles :: "string \<rightharpoonup> cacheFile"
  tp_active :: "string \<Rightarrow> int"
  tp_streams :: "string \<Rightarrow> int"
  tp_lastAccessed :: "string \<rightharpoonup> time"
  tp_artworks :: "string \<rightharpoonup> SourceRef"
  tp_trackIDs :: "string \<Rightarrow> string"
  tp_completed :: "string set"
  tp_closing :: bool
  tp_downloads :: "string \<rightharpoonup> downloadRecord"
  tp_activeDownloads :: "string \<rightharpoonup> nat"
  tp_pendingDownloads :: "string \<rightharpoonup> nat"
  tp_slots :: nat
  tp_maxSlots :: nat
  tp_world :: world

definition NewStreaming :: "string \<Rightarrow> string \<Rightarrow> int \<Rightarrow> world \<Rightarrow> torrent_state" where
  "NewStreaming metadataRoot dataRoot maxActiveDownloads w =
    \<lparr>tp_metadataRoot = metadataRoot, tp_dataRoot = dataRoot, tp_client = None, tp_cacheFiles = Map.empty,
     tp_active = (\<lambda>_. 0), tp_streams = (\<lambda>_. 0), tp_lastAccessed = Map.empty, tp_artworks = Map.empty,
     tp_trackIDs = (\<lambda>_. ''''), tp_completed = {}, tp_closing = False, tp_downloads = Map.empty,
     tp_activeDownloads = Map.empty, tp_pendingDownloads = Map.empty, tp_slots = 0,
     tp_maxSlots = (if maxActiveDownloads \<le> 0 then 3 else nat maxActiveDownloads), tp_world = w\<rparr>"

definition on_world :: "(world, 'a) action \<Rightarrow> (torrent_state, 'a) action" where
  "on_world act s = (let (r, w) = act (tp_world s) in (r, s\<lparr>tp_world := w\<rparr>))"

subsection \<open>Registers and counters\<close>

definition registerArtwork :: "string \<Rightarrow> SourceRef \<Rightarrow> torrent_state \<Rightarrow> torrent_state" where
  "registerArtwork i ref s = s\<lparr>tp_artworks := (tp_artworks s)(i \<mapsto> ref)\<rparr>"

definition registerTrack :: "string \<Rightarrow> string \<Rightarrow> torrent_state \<Rightarrow> torrent_state" where
  "registerTrack sourceKey trackID s = s\<lparr>tp_trackIDs := (tp_trackIDs s)(sourceKey := trackID)\<rparr>"

definition registerCacheFile :: "string \<Rightarrow> string \<Rightarrow> string \<Rightarrow> torrent_state \<Rightarrow> torrent_state" where
  "registerCacheFile key infoHash logicalPath s =
    s\<lparr>tp_cacheFiles := (tp_cacheFiles s)(key \<mapsto> \<lparr>cfl_infoHash = infoHash, cfl_logicalPath = logicalPath\<rparr>)\<rparr>"

definition retain :: "time \<Rightarrow> string \<Rightarrow> string \<Rightarrow> torrent_state \<Rightarrow> torrent_state" where
  "retain now infoHash key s = s\<lparr>tp_active := (tp_active s)(infoHash := tp_active s infoHash + 1),
     tp_lastAccessed := (tp_lastAccessed s)(key \<mapsto> now)\<rparr>"

definition retainStream :: "time \<Rightarrow> string \<Rightarrow> string \<Rightarrow> torrent_state \<Rightarrow> torrent_state" where
  "retainStream now infoHash key s = s\<lparr>tp_active := (tp_active s)(infoHash := tp_active s infoHash + 1),
     tp_streams := (tp_streams s)(infoHash := tp_streams s infoHash + 1),
     tp_lastAccessed := (tp_lastAccessed s)(key \<mapsto> now)\<rparr>"

definition decrementCount :: "string \<Rightarrow> (string \<Rightarrow> int) \<Rightarrow> string \<Rightarrow> int" where
  "decrementCount key counts = counts(key := if counts key \<le> 1 then 0 else counts key - 1)"

definition release :: "string \<Rightarrow> torrent_state \<Rightarrow> torrent_state" where
  "release infoHash s = s\<lparr>tp_active := decrementCount infoHash (tp_active s)\<rparr>"

definition releaseStream :: "string \<Rightarrow> torrent_state \<Rightarrow> torrent_state" where
  "releaseStream infoHash s = s\<lparr>tp_active := decrementCount infoHash (tp_active s),
     tp_streams := decrementCount infoHash (tp_streams s)\<rparr>"

section \<open>The former layout of the cache\<close>

definition legacyVerificationMarker :: string where
  "legacyVerificationMarker = ''.peerphonic-legacy-unverified''"

definition move_legacy :: "string \<Rightarrow> string \<Rightarrow> string \<Rightarrow> string \<Rightarrow> bool \<Rightarrow> (world, unit) action" where
  "move_legacy dataRoot infoHash sourcePath destinationPath movedComplete =
    bindE (wrapE ''create isolated torrent cache directory'' os_MkdirAll) (\<lambda>_.
    bindE (if movedComplete
           then wrapE ''mark migrated torrent cache for verification''
             (os_WriteFile (filepath_Join [dataRoot, infoHash, legacyVerificationMarker]) '''')
           else ret ()) (\<lambda>_.
      wrapE ''move legacy torrent cache file'' (os_Rename sourcePath destinationPath)))"

definition migrateLegacyFileLocked :: "string \<Rightarrow> string \<Rightarrow> string \<Rightarrow> (world, unit) action" where
  "migrateLegacyFileLocked dataRoot infoHash logicalPath =
    (let legacyPath = filepath_Join [dataRoot, logicalPath];
         targetPath = cachePath dataRoot infoHash logicalPath
     in if legacyPath = targetPath then ret ()
        else bindE (fileExists targetPath) (\<lambda>exists. if exists then ret ()
        else bindE (fileExists (targetPath @ ''.part'')) (\<lambda>exists. if exists then ret ()
        else bindE (fileExists legacyPath) (\<lambda>exists. if exists then move_legacy dataRoot infoHash legacyPath targetPath True
        else bindE (fileExists (legacyPath @ ''.part'')) (\<lambda>exists. if \<not> exists then ret ()
             else move_legacy dataRoot infoHash (legacyPath @ ''.part'') (targetPath @ ''.part'') False)))))"

definition migrateLegacyFile :: "string \<Rightarrow> string \<Rightarrow> string \<Rightarrow> (world, unit) action" where
  "migrateLegacyFile dataRoot infoHash logicalPath =
    (if dataRoot = '''' then ret () else migrateLegacyFileLocked dataRoot infoHash logicalPath)"

text \<open>The loop over the files of a torrent that the three operations on its cache share.\<close>

fun each_file :: "string \<Rightarrow> (string \<Rightarrow> (world, unit) action) \<Rightarrow> (string list \<times> int) list \<Rightarrow> (world, unit) action" where
  "each_file name act [] = ret ()"
| "each_file name act (f # fs) =
    bindE (liftR (safePath name (fst f))) (\<lambda>parts.
    bindE (act (strings_Join parts ''/'')) (\<lambda>_. each_file name act fs))"

definition migrateLegacyData :: "string \<Rightarrow> string \<Rightarrow> torrent_info \<Rightarrow> (world, unit) action" where
  "migrateLegacyData dataRoot infoHash info =
    (if dataRoot = '''' then ret ()
     else each_file (TrimSpace (ti_BestName info)) (migrateLegacyFileLocked dataRoot infoHash) (ti_Files info))"

definition prepare_file :: "string \<Rightarrow> string \<Rightarrow> string \<Rightarrow> (world, unit) action" where
  "prepare_file dataRoot infoHash logicalPath =
    (let completePath = cachePath dataRoot infoHash logicalPath
     in bindE (fileExists completePath) (\<lambda>exists. if \<not> exists then ret ()
        else bindE (fileExists (completePath @ ''.part'')) (\<lambda>exists.
          if exists then fail (Errorf ''both complete and partial cache files exist'')
          else wrapE ''prepare migrated cache file'' (os_Rename completePath (completePath @ ''.part'')))))"

definition prepareLegacyData :: "string \<Rightarrow> string \<Rightarrow> torrent_info \<Rightarrow> (world, unit) action" where
  "prepareLegacyData dataRoot infoHash info =
    (if dataRoot = '''' then ret ()
     else let markerPath = filepath_Join [dataRoot, infoHash, legacyVerificationMarker]
          in bindE (fileExists markerPath) (\<lambda>exists. if \<not> exists then ret ()
             else bindE (each_file (TrimSpace (ti_BestName info)) (prepare_file dataRoot infoHash) (ti_Files info)) (\<lambda>_.
               tryE (os_Remove markerPath) (\<lambda>r. case r of
                 Inl err \<Rightarrow> if err = os_ErrNotExist then ret () else fail (Wrap ''remove migrated cache verification marker'' err)
               | Inr _ \<Rightarrow> ret ()))))"

definition reconcile_file :: "string \<Rightarrow> string \<Rightarrow> string \<Rightarrow> (world, unit) action" where
  "reconcile_file dataRoot infoHash logicalPath =
    (let completePath = cachePath dataRoot infoHash logicalPath
     in bindE (fileExists completePath) (\<lambda>complete. if \<not> complete then ret ()
        else bindE (fileExists (completePath @ ''.part'')) (\<lambda>partial. if \<not> partial then ret ()
          else tryE (os_Remove completePath) (\<lambda>r. case r of
            Inl err \<Rightarrow> if err = os_ErrNotExist then ret () else fail (Wrap ''remove stale complete cache file'' err)
          | Inr _ \<Rightarrow> ret ()))))"

definition reconcileCacheData :: "string \<Rightarrow> string \<Rightarrow> torrent_info \<Rightarrow> (world, unit) action" where
  "reconcileCacheData dataRoot infoHash info =
    (if dataRoot = '''' then ret ()
     else each_file (TrimSpace (ti_BestName info)) (reconcile_file dataRoot infoHash) (ti_Files info))"

section \<open>Reading a torrent\<close>

record torrent_catalog =
  tc_InfoHash :: string
  tc_Name :: string
  tc_Tracks :: "TrackSource list"

text \<open>The files of a torrent, sorted into audio and pictures.\<close>

fun catalog_files ::
  "unicode_tables \<Rightarrow> string \<Rightarrow> (string list \<times> int) list \<Rightarrow> (catalogFile list \<times> catalogFile list) result" where
  "catalog_files uc name [] = Inr ([], [])"
| "catalog_files uc name ((path, len) # fs) =
    (case safePath name path of
       Inl err \<Rightarrow> Inl err
     | Inr parts \<Rightarrow>
         let extension = ToLower uc (filepath_Ext (last parts));
             file = (\<lambda>t. \<lparr>cf_parts = parts, cf_length = len, cf_extension = extension, cf_contentType = t\<rparr>)
         in (case catalog_files uc name fs of
               Inl err \<Rightarrow> Inl err
             | Inr (audioFiles, artworkFiles) \<Rightarrow>
                 (case ByExtension uc extension of
                    Some format \<Rightarrow> Inr (file (fmt_ContentType format) # audioFiles, artworkFiles)
                  | None \<Rightarrow> (case imageContentTypes extension of
                      Some contentType \<Rightarrow> Inr (audioFiles, file contentType # artworkFiles)
                    | None \<Rightarrow> Inr (audioFiles, artworkFiles)))))"

definition artwork_id :: "text_env \<Rightarrow> string \<Rightarrow> catalogFile \<Rightarrow> string" where
  "artwork_id env infoHash artwork = StableID env ''torrentart'' [infoHash, logical_path artwork]"

definition catalog_track :: "text_env \<Rightarrow> string \<Rightarrow> catalogFile list \<Rightarrow> catalogFile \<Rightarrow> TrackSource" where
  "catalog_track env infoHash artworkFiles file =
    (let track = torrent_makeTrack env infoHash (cf_parts file) (cf_length file) (cf_extension file) (cf_contentType file)
     in case bestArtwork (unicode env) (cf_parts file) artworkFiles of
          None \<Rightarrow> track
        | Some artwork \<Rightarrow> set_cover (artwork_id env infoHash artwork) track)"

definition register_audio :: "text_env \<Rightarrow> string \<Rightarrow> catalogFile list \<Rightarrow> catalogFile \<Rightarrow> torrent_state \<Rightarrow> torrent_state" where
  "register_audio env infoHash artworkFiles file s =
    (let track = catalog_track env infoHash artworkFiles file;
         s1 = registerTrack (ref_Key (ts_Ref track)) (track_ID (ts_Track track)) s;
         s2 = registerCacheFile (ref_Key (ts_Ref track)) infoHash (logical_path file) s1
     in case bestArtwork (unicode env) (cf_parts file) artworkFiles of
          None \<Rightarrow> s2
        | Some artwork \<Rightarrow> registerArtwork (artwork_id env infoHash artwork)
            \<lparr>ref_Provider = TorrentName, ref_Key = infoHash @ ''/'' @ logical_path artwork\<rparr> s2)"

definition register_picture :: "string \<Rightarrow> catalogFile \<Rightarrow> torrent_state \<Rightarrow> torrent_state" where
  "register_picture infoHash file s = registerCacheFile (infoHash @ ''/'' @ logical_path file) infoHash (logical_path file) s"

definition ReadCatalog :: "torrent_env \<Rightarrow> string \<Rightarrow> (torrent_state, torrent_catalog) action" where
  "ReadCatalog env contents = with_state (\<lambda>s.
    bindE (wrapE ''read torrent metainfo'' (liftR (te_Load env contents))) (\<lambda>meta.
    bindE (wrapE ''decode torrent info'' (liftR (mi_Info meta))) (\<lambda>info.
      let name = TrimSpace (ti_BestName info); infoHash = mi_InfoHash meta
      in if name = '''' then fail (Errorf ''torrent name is empty'')
         else bindE (wrapE ''migrate legacy torrent cache'' (on_world (migrateLegacyData (tp_dataRoot s) infoHash info))) (\<lambda>_.
           bindE (liftR (catalog_files (unicode (te_text env)) name (ti_Files info))) (\<lambda>(audioFiles, artworkFiles).
           bindE (modify (fold (register_audio (te_text env) infoHash artworkFiles) audioFiles)) (\<lambda>_.
           bindE (modify (fold (register_picture infoHash) artworkFiles)) (\<lambda>_.
             ret \<lparr>tc_InfoHash = infoHash, tc_Name = name,
                  tc_Tracks = map (catalog_track (te_text env) infoHash artworkFiles) audioFiles\<rparr>)))))))"

text \<open>A fully materialized file of the cache.\<close>

definition CachedPath :: "SourceRef \<Rightarrow> int \<Rightarrow> (torrent_state, string option) action" where
  "CachedPath ref expectedSize = with_state (\<lambda>s.
    if ref_Provider ref \<noteq> TorrentName then ret None
    else case parseSourceKey (ref_Key ref) of
      Inl _ \<Rightarrow> ret None
    | Inr (infoHash, logicalPath) \<Rightarrow>
        tryE (on_world (migrateLegacyFile (tp_dataRoot s) infoHash logicalPath)) (\<lambda>r. case r of
          Inl _ \<Rightarrow> ret None
        | Inr _ \<Rightarrow>
            (let mediaPath = cachePath (tp_dataRoot s) infoHash logicalPath
             in tryE (on_world (os_Stat mediaPath)) (\<lambda>r. case r of
                  Inr (Some (contents, _)) \<Rightarrow>
                    if expectedSize > 0 \<and> int (length contents) \<noteq> expectedSize then ret None else ret (Some mediaPath)
                | _ \<Rightarrow> ret None))))"

section \<open>Records of downloads\<close>

definition downloadDirectory :: "torrent_state \<Rightarrow> string" where
  "downloadDirectory s = filepath_Join [tp_metadataRoot s, ''downloads'']"

definition downloadRecordPath :: "torrent_state \<Rightarrow> string \<Rightarrow> string" where
  "downloadRecordPath s i = filepath_Join [downloadDirectory s, TrimSpace i @ ''.json'']"

definition persistDownloadLocked :: "torrent_env \<Rightarrow> downloadRecord \<Rightarrow> (torrent_state, unit) action" where
  "persistDownloadLocked env rec = with_state (\<lambda>s.
    if tp_metadataRoot s = '''' then ret ()
    else let recordPath = downloadRecordPath s (td_ID (dr_Download rec)); temporaryPath = recordPath @ ''.tmp''
         in on_world (bindE (wrapE ''create torrent download directory'' os_MkdirAll) (\<lambda>_.
              bindE (wrapE ''write torrent download job'' (os_WriteFile temporaryPath (te_Marshal env rec))) (\<lambda>_.
                wrapE ''commit torrent download job'' (os_Rename temporaryPath recordPath)))))"

definition set_download :: "downloadRecord \<Rightarrow> torrent_state \<Rightarrow> torrent_state" where
  "set_download rec s = s\<lparr>tp_downloads := (tp_downloads s)(td_ID (dr_Download rec) \<mapsto> rec)\<rparr>"

text \<open>\<open>_ = p.persistDownloadLocked(record)\<close>.\<close>

definition persist_quietly :: "torrent_env \<Rightarrow> downloadRecord \<Rightarrow> (torrent_state, unit) action" where
  "persist_quietly env rec = tryE (persistDownloadLocked env rec) (\<lambda>_. ret ())"

definition now_E :: "(time \<Rightarrow> (torrent_state, 'a) action) \<Rightarrow> (torrent_state, 'a) action" where
  "now_E k = readE (\<lambda>s. let (t, w) = time_Now (tp_world s) in (t, s\<lparr>tp_world := w\<rparr>)) k"

definition download_id :: "torrent_env \<Rightarrow> SourceRef \<Rightarrow> string" where
  "download_id env ref = StableID (te_text env) ''download'' [ref_Provider ref, ref_Key ref]"

definition readDownloadRecord :: "torrent_env \<Rightarrow> string \<Rightarrow> (world, downloadRecord) action" where
  "readDownloadRecord env recordPath =
    bindE (wrapE ''read torrent download job'' (os_Open recordPath)) (\<lambda>(contents, _).
    bindE (wrapE ''decode torrent download job'' (liftR (te_Unmarshal env contents))) (\<lambda>rec.
      let d = dr_Download rec; src = dr_Source rec in
      case parseSourceKey (ref_Key src) of
        Inl _ \<Rightarrow> fail (Errorf ''invalid torrent download job'')
      | Inr (infoHash, logicalPath) \<Rightarrow>
          if infoHash \<noteq> td_SourceID d \<or> logicalPath \<noteq> dr_LogicalPath rec \<or> ref_Provider src \<noteq> TorrentName
            \<or> td_ID d \<noteq> download_id env src \<or> td_Provider d \<noteq> TorrentName
          then fail (Errorf ''invalid torrent download job'')
          else ret (if td_TrackID d = ''''
            then rec\<lparr>dr_Download := d\<lparr>td_TrackID := logicalTrackID (te_text env) infoHash logicalPath (td_TotalBytes d)\<rparr>\<rparr>
            else rec)))"

definition markDownloadFailed :: "torrent_env \<Rightarrow> string \<Rightarrow> go_error \<Rightarrow> (torrent_state, unit) action" where
  "markDownloadFailed env i failure = with_state (\<lambda>s.
    case tp_downloads s i of
      None \<Rightarrow> ret ()
    | Some rec \<Rightarrow> now_E (\<lambda>now.
        let rec' = rec\<lparr>dr_Download := (dr_Download rec)\<lparr>td_State := DownloadStateFailed, td_Error := Some failure, td_UpdatedAt := now\<rparr>\<rparr>
        in bindE (modify (\<lambda>s. s\<lparr>tp_downloads := (tp_downloads s)(i \<mapsto> rec')\<rparr>)) (\<lambda>_. persist_quietly env rec')))"

definition evicted_record :: "time \<Rightarrow> downloadRecord \<Rightarrow> downloadRecord" where
  "evicted_record now rec = rec\<lparr>dr_Download := (dr_Download rec)\<lparr>td_State := DownloadStateEvicted, td_CompletedBytes := 0,
     td_UpdatedAt := now\<rparr>\<rparr>"

definition markDownloadEvicted :: "torrent_env \<Rightarrow> string \<Rightarrow> (torrent_state, unit) action" where
  "markDownloadEvicted env sourceKey = with_state (\<lambda>s.
    let i = StableID (te_text env) ''download'' [TorrentName, sourceKey] in
    case tp_downloads s i of
      None \<Rightarrow> ret ()
    | Some rec \<Rightarrow>
        if tp_activeDownloads s i \<noteq> None then ret ()
        else now_E (\<lambda>now.
          bindE (modify (\<lambda>s. s\<lparr>tp_downloads := (tp_downloads s)(i \<mapsto> evicted_record now rec),
            tp_completed := tp_completed s - {ref_Key (dr_Source rec)}\<rparr>)) (\<lambda>_.
          persist_quietly env (evicted_record now rec))))"

text \<open>\<open>ids\<close> are the keys of \<open>downloads\<close> in the order in which Go visits them.\<close>

fun removeDownloadsForSource :: "string \<Rightarrow> string list \<Rightarrow> (torrent_state, unit) action" where
  "removeDownloadsForSource infoHash [] = ret ()"
| "removeDownloadsForSource infoHash (i # ids) = with_state (\<lambda>s.
    case tp_downloads s i of
      None \<Rightarrow> removeDownloadsForSource infoHash ids
    | Some rec \<Rightarrow>
        if td_SourceID (dr_Download rec) \<noteq> infoHash then removeDownloadsForSource infoHash ids
        else bindE (modify (\<lambda>s. s\<lparr>tp_downloads := (tp_downloads s)(i := None),
               tp_activeDownloads := (tp_activeDownloads s)(i := None)\<rparr>)) (\<lambda>_.
          tryE (on_world (os_Remove (downloadRecordPath s i))) (\<lambda>r. case r of
            Inl err \<Rightarrow> if err = os_ErrNotExist then removeDownloadsForSource infoHash ids
                       else fail (Wrap ''remove torrent download job'' err)
          | Inr _ \<Rightarrow> removeDownloadsForSource infoHash ids)))"

section \<open>Sources\<close>

definition validateSourceID :: "string \<Rightarrow> (torrent_state, unit) action" where
  "validateSourceID i = with_state (\<lambda>s.
    if length i \<noteq> 40 then fail (Errorf ''invalid torrent info hash'')
    else if \<not> hex_ok i then fail (Errorf ''invalid torrent info hash'')
    else tryE (on_world (os_Stat (filepath_Join [tp_metadataRoot s, i @ ''.torrent'']))) (\<lambda>r. case r of
      Inl err \<Rightarrow> if err = os_ErrNotExist then fail ErrNotFound else fail (Wrap ''stat torrent metadata'' err)
    | Inr _ \<Rightarrow> ret ()))"

definition sourceMarkerPath :: "torrent_state \<Rightarrow> string \<Rightarrow> string \<Rightarrow> string" where
  "sourceMarkerPath s i state = filepath_Join [tp_metadataRoot s, i @ ''.'' @ state]"

definition sourceMarkerExists :: "string \<Rightarrow> string \<Rightarrow> (torrent_state, bool) action" where
  "sourceMarkerExists i state = with_state (\<lambda>s. on_world (fileExists (sourceMarkerPath s i state)))"

definition setSourceMarker :: "string \<Rightarrow> string \<Rightarrow> bool \<Rightarrow> (torrent_state, unit) action" where
  "setSourceMarker i state enabled = with_state (\<lambda>s.
    let markerPath = sourceMarkerPath s i state in
    if \<not> enabled then
      tryE (on_world (os_Remove markerPath)) (\<lambda>r. case r of
        Inl err \<Rightarrow> if err = os_ErrNotExist then ret () else fail (Wrap ''remove torrent marker'' err)
      | Inr _ \<Rightarrow> ret ())
    else bindE (wrapE ''create torrent metadata directory'' (on_world os_MkdirAll)) (\<lambda>_.
      wrapE ''write torrent marker'' (on_world (os_WriteFile markerPath ''''))))"

definition setSourcePaused :: "string \<Rightarrow> bool \<Rightarrow> (torrent_state, unit) action" where
  "setSourcePaused i paused =
    bindE (validateSourceID i) (\<lambda>_.
    bindE (setSourceMarker i ''paused'' paused) (\<lambda>_.
      modify (\<lambda>s. case tp_client s of
        None \<Rightarrow> s
      | Some attached \<Rightarrow> if attached i = None then s else s\<lparr>tp_client := Some (attached(i \<mapsto> \<not> paused))\<rparr>)))"

definition PauseSource :: "string \<Rightarrow> (torrent_state, unit) action" where
  "PauseSource i = setSourcePaused i True"

definition PinSource :: "string \<Rightarrow> bool \<Rightarrow> (torrent_state, unit) action" where
  "PinSource i pinned = bindE (validateSourceID i) (\<lambda>_. setSourceMarker i ''pinned'' pinned)"

definition dropTorrent :: "string \<Rightarrow> torrent_state \<Rightarrow> torrent_state" where
  "dropTorrent infoHash s = s\<lparr>tp_client := map_option (\<lambda>attached. attached(infoHash := None)) (tp_client s)\<rparr>"

definition torrentAttached :: "torrent_state \<Rightarrow> string \<Rightarrow> bool" where
  "torrentAttached s infoHash = (case tp_client s of None \<Rightarrow> False | Some attached \<Rightarrow> attached infoHash \<noteq> None)"

definition remove_marker :: "string \<Rightarrow> string \<Rightarrow> (torrent_state, unit) action" where
  "remove_marker i state = with_state (\<lambda>s.
    tryE (on_world (os_Remove (sourceMarkerPath s i state))) (\<lambda>r. case r of
      Inl err \<Rightarrow> if err = os_ErrNotExist then ret () else fail (Wrap ''remove torrent marker'' err)
    | Inr _ \<Rightarrow> ret ()))"

definition torrent_RemoveSource :: "string list \<Rightarrow> string \<Rightarrow> bool \<Rightarrow> (torrent_state, unit) action" where
  "torrent_RemoveSource ids i deleteData =
    bindE (validateSourceID i) (\<lambda>_.
    bindE (on_world ctx_Err) (\<lambda>_. with_state (\<lambda>s.
      if tp_active s i > 0 then fail ErrSourceBusy
      else bindE (modify (dropTorrent i)) (\<lambda>_.
        tryE (on_world (os_Remove (filepath_Join [tp_metadataRoot s, i @ ''.torrent'']))) (\<lambda>r. case r of
          Inl err \<Rightarrow> if err = os_ErrNotExist then fail ErrNotFound else fail (Wrap ''remove torrent metadata'' err)
        | Inr _ \<Rightarrow>
            bindE (remove_marker i ''paused'') (\<lambda>_.
            bindE (remove_marker i ''pinned'') (\<lambda>_.
            bindE (removeDownloadsForSource i ids) (\<lambda>_.
              if deleteData then wrapE ''remove torrent cache data'' (on_world (os_RemoveAll (filepath_Join [tp_dataRoot s, i])))
              else ret ()))))))))"

subsection \<open>Eviction\<close>

record evictionCandidate =
  ec_key :: string
  ec_infoHash :: string
  ec_path :: string
  ec_lastAccessed :: time
  ec_size :: int

text \<open>One entry of \<open>cacheFiles\<close>: the complete file or else the partial one.\<close>

definition stat_cached :: "string \<Rightarrow> (world, (string \<times> string \<times> time) option) action" where
  "stat_cached filePath =
    tryE (os_Stat filePath) (\<lambda>r. case r of
      Inr f \<Rightarrow> ret (map_option (Pair filePath) f)
    | Inl err \<Rightarrow>
        if err \<noteq> os_ErrNotExist then fail (Wrap ''inspect cached torrent file'' err)
        else tryE (os_Stat (filePath @ ''.part'')) (\<lambda>r. case r of
          Inr f \<Rightarrow> ret (map_option (Pair (filePath @ ''.part'')) f)
        | Inl err \<Rightarrow> if err = os_ErrNotExist then ret None else fail (Wrap ''inspect cached torrent file'' err)))"

definition candidate_of :: "torrent_env \<Rightarrow> torrent_state \<Rightarrow> string \<Rightarrow> cacheFile \<Rightarrow> string \<times> string \<times> time \<Rightarrow> evictionCandidate" where
  "candidate_of env s key file found =
    (case found of (path, contents, mtime) \<Rightarrow>
      \<lparr>ec_key = key, ec_infoHash = cfl_infoHash file, ec_path = path,
       ec_lastAccessed = (case tp_lastAccessed s key of
          Some t \<Rightarrow> if IsZero t then mtime else t | None \<Rightarrow> mtime),
       ec_size = te_allocated env contents\<rparr>)"

fun eviction_candidates :: "torrent_env \<Rightarrow> torrent_state \<Rightarrow> string list \<Rightarrow> (world, evictionCandidate list) action" where
  "eviction_candidates env s [] = ret []"
| "eviction_candidates env s (key # keys) =
    (case tp_cacheFiles s key of
       None \<Rightarrow> eviction_candidates env s keys
     | Some file \<Rightarrow>
         bindE ctx_Err (\<lambda>_.
         bindE (stat_cached (cachePath (tp_dataRoot s) (cfl_infoHash file) (cfl_logicalPath file))) (\<lambda>found.
         bindE (eviction_candidates env s keys) (\<lambda>rest.
           ret (case found of None \<Rightarrow> rest | Some f \<Rightarrow> candidate_of env s key file f # rest)))))"

definition drop_once :: "string \<Rightarrow> string set \<Rightarrow> torrent_state \<Rightarrow> torrent_state" where
  "drop_once infoHash dropped s = (if infoHash \<in> dropped then s else dropTorrent infoHash s)"

fun torrent_evict_loop :: "torrent_env \<Rightarrow> int \<Rightarrow> string set \<Rightarrow> int \<Rightarrow> evictionCandidate list \<Rightarrow> (torrent_state, int) action" where
  "torrent_evict_loop env bytes dropped freed [] = ret freed"
| "torrent_evict_loop env bytes dropped freed (c # cs) =
    bindE (on_world ctx_Err) (\<lambda>_. with_state (\<lambda>s.
    bindE (if tp_active s (ec_infoHash c) > 0 then ret True else sourceMarkerExists (ec_infoHash c) ''pinned'') (\<lambda>keep.
      if keep then torrent_evict_loop env bytes dropped freed cs
      else bindE (modify (drop_once (ec_infoHash c) dropped)) (\<lambda>_.
        tryE (on_world (os_Remove (ec_path c))) (\<lambda>r. case r of
          Inl err \<Rightarrow>
            if err = os_ErrNotExist then torrent_evict_loop env bytes (insert (ec_infoHash c) dropped) freed cs
            else fail (Wrap ''remove cached torrent file'' err)
        | Inr _ \<Rightarrow>
            bindE (markDownloadEvicted env (ec_key c)) (\<lambda>_.
            bindE (modify (\<lambda>s. s\<lparr>tp_lastAccessed := (tp_lastAccessed s)(ec_key c := None)\<rparr>)) (\<lambda>_.
              if freed + ec_size c \<ge> bytes then ret (freed + ec_size c)
              else torrent_evict_loop env bytes (insert (ec_infoHash c) dropped) (freed + ec_size c) cs)))))))"

text \<open>\<open>keys\<close> are those of \<open>cacheFiles\<close> in the order in which Go visits them.\<close>

definition torrent_Evict :: "torrent_env \<Rightarrow> string list \<Rightarrow> int \<Rightarrow> (torrent_state, int) action" where
  "torrent_Evict env keys bytes =
    (if bytes \<le> 0 then ret 0
     else with_state (\<lambda>s. bindE (on_world (eviction_candidates env s keys)) (\<lambda>candidates.
       torrent_evict_loop env bytes {} 0 (SliceStable (\<lambda>a b. ec_lastAccessed a < ec_lastAccessed b) candidates))))"

section \<open>A torrent stays in its directory\<close>

text \<open>The files outside a root are those of \<open>f\<close>.\<close>

definition outside :: "string \<Rightarrow> (string \<Rightarrow> (string \<times> time) option) \<Rightarrow> world \<Rightarrow> bool" where
  "outside root f w \<longleftrightarrow> (\<forall>p. \<not> below root p \<longrightarrow> map_of (w_blobs w) p = f p)"

lemma outside_cong: "w_blobs w' = w_blobs w \<Longrightarrow> outside root f w' = outside root f w"
  by (simp add: outside_def)

lemma outside_spend [simp]: "outside root f (spend_fault w) = outside root f w"
  by (simp add: outside_def spend_fault_def)

lemma outside_os_call [preserving]:
  "(\<And>w. outside root f w \<Longrightarrow> outside root f (snd (g w))) \<Longrightarrow> preserves (outside root f) (os_call g)"
  by (auto simp: preserves_def os_call_def)

lemma outside_Stat [preserving]: "preserves (outside root f) (os_Stat p)"
  unfolding os_Stat_def by (rule outside_os_call) (simp split: option.split)

lemma outside_MkdirAll [preserving]: "preserves (outside root f) os_MkdirAll"
  unfolding os_MkdirAll_def by (rule outside_os_call) simp

lemma outside_fileExists [preserving]: "preserves (outside root f) (fileExists p)"
  unfolding fileExists_def by (intro preserving)

lemma outside_WriteFile: "below root p \<Longrightarrow> preserves (outside root f) (os_WriteFile p c)"
  unfolding os_WriteFile_def
  by (rule outside_os_call) (auto simp: outside_def time_Now_def map_of_upsert)

lemma outside_Rename: "below root p \<Longrightarrow> below root q \<Longrightarrow> preserves (outside root f) (os_Rename p q)"
  unfolding os_Rename_def
  by (rule outside_os_call) (auto simp: outside_def map_of_upsert map_of_filter_neq split: option.split)

lemma outside_Remove: "below root p \<Longrightarrow> preserves (outside root f) (os_Remove p)"
  unfolding os_Remove_def
  by (rule outside_os_call) (auto simp: outside_def map_of_filter_neq)

text \<open>Paths below a root: plain elements, the last of which may get a suffix.\<close>

lemma Join_snoc: "strings_Join (xs @ [x]) sep @ y = strings_Join (xs @ [x @ y]) sep"
proof (induction xs)
  case (Cons a xs)
  then show ?case by (cases xs) auto
qed simp

lemma below_Join:
  assumes "clean_root root" "list_all plain_element rel"
  shows "below root (slash # strings_Join (path_elements root @ rel) ''/'')"
  using assms unfolding below_def clean_root_def by (intro exI [of _ rel]) (simp add: path_elements_Join)

lemma plain_part: "plain_element x \<Longrightarrow> plain_element (x @ ''.part'')"
  by (cases x) (auto simp: plain_element_def)

lemma below_Join_part:
  assumes "clean_root root" "list_all plain_element rel" "rel \<noteq> []"
  shows "below root ((slash # strings_Join (path_elements root @ rel) ''/'') @ ''.part'')"
proof -
  obtain ys y where rel: "rel = ys @ [y]" using assms(3) by (metis rev_exhaust)
  have "list_all plain_element (ys @ [y @ ''.part''])" using assms(2) rel plain_part by simp
  from below_Join [OF assms(1) this] show ?thesis unfolding rel by (simp flip: append_assoc add: Join_snoc)
qed

lemma legacy_path:
  assumes "clean_root root" "list_all plain_element parts" "parts \<noteq> []"
  shows "filepath_Join [root, strings_Join parts ''/''] = slash # strings_Join (path_elements root @ parts) ''/''"
  by (rule Join_below [OF assms(1,2)]) (simp add: assms)

lemma marker_below: "clean_root root \<Longrightarrow> plain_element h \<Longrightarrow> below root (filepath_Join [root, h, legacyVerificationMarker])"
proof -
  assume a: "clean_root root" "plain_element h"
  have m: "list_all plain_element [legacyVerificationMarker]" "[legacyVerificationMarker] \<noteq> []"
    by (simp_all add: legacyVerificationMarker_def plain_element_def)
  have "filepath_Join [root, h, legacyVerificationMarker] = slash # strings_Join (path_elements root @ h # [legacyVerificationMarker]) ''/''"
    using cachePath_plain [OF a m(2,1)] by (simp add: cachePath_def)
  with below_Join [OF a(1), of "h # [legacyVerificationMarker]"] a(2) m(1) show ?thesis by simp
qed

lemma migrate_outside:
  assumes "clean_root root" "plain_element h" "list_all plain_element parts" "parts \<noteq> []"
  shows "preserves (outside root f) (migrateLegacyFileLocked root h (strings_Join parts ''/''))"
proof -
  note target = cachePath_plain [OF assms(1,2,4,3)] and legacy = legacy_path [OF assms(1,3,4)]
  have hp: "list_all plain_element (h # parts)" using assms by simp
  note b = below_Join [OF assms(1) hp] below_Join_part [OF assms(1) hp, simplified] below_Join [OF assms(1,3)]
    below_Join_part [OF assms(1,3,4)] marker_below [OF assms(1,2)]
  show ?thesis unfolding migrateLegacyFileLocked_def Let_def move_legacy_def target legacy
    by (intro preserving outside_Rename outside_WriteFile) (use b in simp_all)
qed

lemma each_file_preserves:
  assumes "\<And>parts. parts \<noteq> [] \<Longrightarrow> list_all plain_element parts \<Longrightarrow> preserves P (act (strings_Join parts ''/''))" "plain_element name"
  shows "preserves P (each_file name act fs)"
proof (induction fs)
  case (Cons f fs)
  have "preserves P (bindE (act (strings_Join parts ''/'')) (\<lambda>_. each_file name act fs))" if "safePath name (fst f) = Inr parts" for parts
    using safePath_plain [OF that assms(2)] Cons assms(1) by (intro preserving) auto
  then have "preserves P (bindE (liftR (safePath name (fst f))) (\<lambda>parts. bindE (act (strings_Join parts ''/'')) (\<lambda>_. each_file name act fs)))"
    by (cases "safePath name (fst f)") (auto simp: preserves_def bindE_def liftR_def)
  then show ?case by simp
qed (simp add: preserves_ret)

lemma migrateLegacyData_outside:
  assumes "clean_root root" "plain_element h" "plain_element (TrimSpace (ti_BestName info))"
  shows "preserves (outside root f) (migrateLegacyData root h info)"
  unfolding migrateLegacyData_def
  by (intro preserving each_file_preserves [OF _ assms(3)] migrate_outside [OF assms(1,2)])

text \<open>The other two operations on the cache of a torrent.\<close>

lemma cache_ops_outside:
  assumes "clean_root root" "plain_element h" "plain_element (TrimSpace (ti_BestName info))"
  shows "preserves (outside root f) (prepareLegacyData root h info)" "preserves (outside root f) (reconcileCacheData root h info)"
proof -
  have "preserves (outside root f) (prepare_file root h (strings_Join parts ''/''))"
    "preserves (outside root f) (reconcile_file root h (strings_Join parts ''/''))"
    if p: "parts \<noteq> []" "list_all plain_element parts" for parts
  proof -
    have hp: "list_all plain_element (h # parts)" using assms p by simp
    note b = below_Join [OF assms(1) hp] below_Join_part [OF assms(1) hp, simplified]
    show "preserves (outside root f) (prepare_file root h (strings_Join parts ''/''))"
      unfolding prepare_file_def Let_def cachePath_plain [OF assms(1,2) p]
      by (intro preserving outside_Rename) (use b in simp_all)
    show "preserves (outside root f) (reconcile_file root h (strings_Join parts ''/''))"
      unfolding reconcile_file_def Let_def cachePath_plain [OF assms(1,2) p]
      by (intro preserving outside_Remove) (use b in simp_all)
  qed
  note files = this
  show "preserves (outside root f) (prepareLegacyData root h info)"
    unfolding prepareLegacyData_def Let_def
    by (intro preserving each_file_preserves [OF _ assms(3)] files outside_Remove marker_below assms)
  show "preserves (outside root f) (reconcileCacheData root h info)"
    unfolding reconcileCacheData_def by (intro preserving each_file_preserves [OF _ assms(3)] files)
qed

section \<open>Reading a torrent\<close>

definition is_audio :: "unicode_tables \<Rightarrow> string list \<Rightarrow> bool" where
  "is_audio uc parts \<longleftrightarrow> ByExtension uc (ToLower uc (filepath_Ext (last parts))) \<noteq> None"

text \<open>The parts of the audio files of a torrent, in order.\<close>

definition audio_parts :: "unicode_tables \<Rightarrow> string \<Rightarrow> (string list \<times> int) list \<Rightarrow> string list list" where
  "audio_parts uc name fs = filter (is_audio uc) (map (\<lambda>f. name # map TrimSpace (fst f)) fs)"

lemma catalog_files_Inr:
  assumes "catalog_files uc name fs = Inr (audio, art)"
  shows "map cf_parts audio = audio_parts uc name fs
    \<and> (\<forall>f \<in> set audio \<union> set art. \<exists>path. safePath name path = Inr (cf_parts f))"
  using assms
proof (induction uc name fs arbitrary: audio art rule: catalog_files.induct)
  case (1 uc name)
  then show ?case by (simp add: audio_parts_def)
next
  case (2 uc name path len fs)
  from "2.prems" obtain parts where sp: "safePath name path = Inr parts" by (auto split: sum.splits)
  let ?ext = "ToLower uc (filepath_Ext (last parts))"
  from "2.prems" sp obtain a p where rest: "catalog_files uc name fs = Inr (a, p)"
    by (auto simp: Let_def split: sum.splits prod.splits)
  note IH = "2.IH" [OF sp refl refl rest]
  have parts: "parts = name # map TrimSpace path" by (rule safePath_Inr(1) [OF sp])
  from "2.prems" sp rest consider
      (audio) t where "ByExtension uc ?ext \<noteq> None" "audio = \<lparr>cf_parts = parts, cf_length = len, cf_extension = ?ext, cf_contentType = t\<rparr> # a" "art = p"
    | (picture) t where "ByExtension uc ?ext = None" "audio = a" "art = \<lparr>cf_parts = parts, cf_length = len, cf_extension = ?ext, cf_contentType = t\<rparr> # p"
    | (other) "ByExtension uc ?ext = None" "audio = a" "art = p"
    by (cases "ByExtension uc ?ext"; cases "imageContentTypes ?ext") (auto simp: Let_def)
  then show ?case using IH sp parts
    by cases (auto simp: audio_parts_def is_audio_def)
qed

lemma catalog_track_sel [simp]:
  "ts_Ref (catalog_track env h art f) = \<lparr>ref_Provider = TorrentName, ref_Key = h @ ''/'' @ logical_path f\<rparr>"
  "track_ID (ts_Track (catalog_track env h art f)) = track_ID (ts_Track (torrent_makeTrack env h (cf_parts f) 0 '''' ''''))"
proof -
  have ref: "ts_Ref (torrent_makeTrack env h (cf_parts f) n e c) = \<lparr>ref_Provider = TorrentName, ref_Key = h @ ''/'' @ logical_path f\<rparr>" for n e c
    by (simp add: torrent_makeTrack_def Let_def source_key_def logical_path_def split: prod.split)
  show "ts_Ref (catalog_track env h art f) = \<lparr>ref_Provider = TorrentName, ref_Key = h @ ''/'' @ logical_path f\<rparr>"
    by (simp add: catalog_track_def Let_def set_cover_def ref split: option.split)
  show "track_ID (ts_Track (catalog_track env h art f)) = track_ID (ts_Track (torrent_makeTrack env h (cf_parts f) 0 '''' ''''))"
    using makeTrack_ID by (simp add: catalog_track_def Let_def set_cover_def split: option.split)
qed

lemma torrent_track_ok_cover: "torrent_track_ok env s \<Longrightarrow> torrent_track_ok env (set_cover c s)"
  by (simp add: torrent_track_ok_def set_cover_def Let_def CanonicalTrackID_def split: prod.splits)

lemma catalog_track_ok: "trimmed_parts (cf_parts f) \<Longrightarrow> torrent_track_ok env (catalog_track env h art f)"
  by (simp add: catalog_track_def Let_def torrent_makeTrack_ok torrent_track_ok_cover split: option.split)

text \<open>What is registered under the key of a file.\<close>

definition registered :: "text_env \<Rightarrow> string \<Rightarrow> catalogFile \<Rightarrow> torrent_state \<Rightarrow> bool" where
  "registered env h f s \<longleftrightarrow>
     tp_cacheFiles s (h @ ''/'' @ logical_path f) = Some \<lparr>cfl_infoHash = h, cfl_logicalPath = logical_path f\<rparr>
     \<and> tp_trackIDs s (h @ ''/'' @ logical_path f) = track_ID (ts_Track (torrent_makeTrack env h (cf_parts f) 0 '''' ''''))"

lemma register_audio_sel:
  "tp_cacheFiles (register_audio env h art f s) =
    (tp_cacheFiles s)(h @ ''/'' @ logical_path f \<mapsto> \<lparr>cfl_infoHash = h, cfl_logicalPath = logical_path f\<rparr>)"
  "tp_trackIDs (register_audio env h art f s) =
    (tp_trackIDs s)(h @ ''/'' @ logical_path f := track_ID (ts_Track (torrent_makeTrack env h (cf_parts f) 0 '''' '''')))"
  "tp_world (register_audio env h art f s) = tp_world s" "tp_dataRoot (register_audio env h art f s) = tp_dataRoot s"
  by (simp_all add: register_audio_def Let_def registerTrack_def registerCacheFile_def registerArtwork_def split: option.split)

lemma register_picture_sel:
  "tp_cacheFiles (register_picture h f s) =
    (tp_cacheFiles s)(h @ ''/'' @ logical_path f \<mapsto> \<lparr>cfl_infoHash = h, cfl_logicalPath = logical_path f\<rparr>)"
  "tp_trackIDs (register_picture h f s) = tp_trackIDs s"
  "tp_world (register_picture h f s) = tp_world s" "tp_dataRoot (register_picture h f s) = tp_dataRoot s"
  by (simp_all add: register_picture_def registerCacheFile_def)

lemma logical_path_parts:
  "list_all plain_element (cf_parts f) \<Longrightarrow> list_all plain_element (cf_parts g) \<Longrightarrow> cf_parts f \<noteq> [] \<Longrightarrow> cf_parts g \<noteq> [] \<Longrightarrow>
   logical_path f = logical_path g \<Longrightarrow> cf_parts f = cf_parts g"
  unfolding logical_path_def by (metis split_on_Join plain_no_slash)

lemma registered_after:
  assumes "\<forall>f \<in> set fs. list_all plain_element (cf_parts f) \<and> cf_parts f \<noteq> []" "f \<in> set fs"
  shows "registered env h f (fold (register_picture h) ps (fold (register_audio env h art) fs s))"
proof -
  have keep: "registered env h f (register_audio env h art g s)" if "registered env h f s" "g \<in> set fs" for g s
  proof (cases "logical_path f = logical_path g")
    case True
    then have "cf_parts f = cf_parts g" using assms that(2) by (intro logical_path_parts) auto
    with that(1) True show ?thesis by (simp add: registered_def register_audio_sel)
  qed (use that in \<open>simp add: registered_def register_audio_sel\<close>)
  have audio: "registered env h f (fold (register_audio env h art) gs s)" if "f \<in> set gs \<or> registered env h f s" "set gs \<subseteq> set fs" for gs s
    using that
  proof (induction gs arbitrary: s)
    case (Cons g gs)
    have "f \<in> set gs \<or> registered env h f (register_audio env h art g s)"
    proof (cases "f = g")
      case True
      then show ?thesis by (simp add: registered_def register_audio_sel)
    next
      case False
      with Cons.prems keep [of s g] show ?thesis by auto
    qed
    then show ?case using Cons by simp
  qed simp
  have "registered env h f (fold (register_picture h) ps s)" if "registered env h f s" for s
    using that by (induction ps arbitrary: s) (auto simp: registered_def register_picture_sel)
  then show ?thesis using audio [of fs s] assms(2) by blast
qed

lemma fold_register_world:
  "tp_world (fold (register_picture h) ps (fold (register_audio env h art) fs s)) = tp_world s"
proof -
  have "tp_world (fold (register_audio env h art) fs s) = tp_world s"
    by (induction fs arbitrary: s) (simp_all add: register_audio_sel)
  moreover have "tp_world (fold (register_picture h) ps s) = tp_world s" for s
    by (induction ps arbitrary: s) (simp_all add: register_picture_sel)
  ultimately show ?thesis by simp
qed

text \<open>The migration leaves the provider's own fields alone.\<close>

lemma on_world_iff: "on_world act s = (r, s') \<longleftrightarrow> (\<exists>w. act (tp_world s) = (r, w) \<and> s' = s\<lparr>tp_world := w\<rparr>)"
  by (auto simp: on_world_def split: prod.splits)

lemma modify_iff: "modify f s = (r, s') \<longleftrightarrow> r = Inr () \<and> s' = f s"
  by (auto simp: modify_def)

lemma ReadCatalog_wp:
  assumes "te_Load env contents = Inr meta" "mi_Info meta = Inr info"
    "clean_root (tp_dataRoot s)" "plain_element (mi_InfoHash meta)" "plain_element (TrimSpace (ti_BestName info))"
    "outside (tp_dataRoot s) f (tp_world s)"
  shows "wp (ReadCatalog env contents) (\<lambda>r s'. outside (tp_dataRoot s) f (tp_world s') \<and>
    (\<forall>c. r = Inr c \<longrightarrow> (\<exists>audio art s1. catalog_files (unicode (te_text env)) (TrimSpace (ti_BestName info)) (ti_Files info) = Inr (audio, art)
      \<and> c = \<lparr>tc_InfoHash = mi_InfoHash meta, tc_Name = TrimSpace (ti_BestName info),
          tc_Tracks = map (catalog_track (te_text env) (mi_InfoHash meta) art) audio\<rparr>
      \<and> s' = fold (register_picture (mi_InfoHash meta)) art (fold (register_audio (te_text env) (mi_InfoHash meta) art) audio s1)))) s"
proof (rule wpI, intro conjI allI impI)
  fix r s' assume run: "ReadCatalog env contents s = (r, s')"
  let ?h = "mi_InfoHash meta" and ?name = "TrimSpace (ti_BestName info)"
  have ne: "?name \<noteq> ''''" using assms(5) by (auto simp: plain_element_def)
  obtain r1 w1 where mig: "migrateLegacyData (tp_dataRoot s) ?h info (tp_world s) = (r1, w1)" by fastforce
  have out: "outside (tp_dataRoot s) f w1"
    by (rule preservesD [OF migrateLegacyData_outside [OF assms(3,4,5)] assms(6) mig])
  show "outside (tp_dataRoot s) f (tp_world s')"
    using run assms(1,2) ne mig out
    by (cases r1) (auto simp: ReadCatalog_def with_state_def bindE_def wrapE_def liftR_def on_world_def modify_def ret_def
      Let_def fold_register_world split: prod.splits sum.splits)
  fix c assume "r = Inr c"
  with run assms(1,2) ne mig
  show "\<exists>audio art s1. catalog_files (unicode (te_text env)) ?name (ti_Files info) = Inr (audio, art)
      \<and> c = \<lparr>tc_InfoHash = ?h, tc_Name = ?name, tc_Tracks = map (catalog_track (te_text env) ?h art) audio\<rparr>
      \<and> s' = fold (register_picture ?h) art (fold (register_audio (te_text env) ?h art) audio s1)"
    by (auto simp: ReadCatalog_def with_state_def Let_def on_world_iff modify_iff)
qed

lemma cache_path_in_torrent:
  assumes "clean_root root" "plain_element h" "parts \<noteq> []" "list_all plain_element parts"
  shows "below (filepath_Join [root, h]) (cachePath root h (strings_Join parts ''/''))"
proof -
  have j: "filepath_Join [root, h] = slash # strings_Join (path_elements root @ [h]) ''/''"
    using legacy_path [OF assms(1), of "[h]"] assms(2) by simp
  have "path_elements (filepath_Join [root, h]) = path_elements root @ [h]"
    unfolding j using assms(1,2) by (intro path_elements_Join) (simp add: clean_root_def)
  then show ?thesis unfolding below_def using path_elements_cachePath [OF assms] assms(4) by auto
qed

text \<open>
  C30: reading a torrent with an ordinary name. Whatever fails, no file outside the cache directory is
  touched. On success the tracks are the audio files of the torrent in their order; every track is
  well formed, its key is parsed back to its info hash and path, the provider knows its cache file and its
  track identifier under this key, and the cache file lies in the directory of the torrent.
\<close>

theorem ReadCatalog_spec:
  assumes run: "ReadCatalog env contents s = (r, s')"
    and meta: "te_Load env contents = Inr meta" "mi_Info meta = Inr info"
    and hash: "length (mi_InfoHash meta) = 40" "hex_ok (mi_InfoHash meta)"
    and root: "clean_root (tp_dataRoot s)" and name: "plain_element (TrimSpace (ti_BestName info))"
  shows "(\<forall>p. \<not> below (tp_dataRoot s) p \<longrightarrow> map_of (w_blobs (tp_world s')) p = map_of (w_blobs (tp_world s)) p)
    \<and> (\<forall>c. r = Inr c \<longrightarrow>
        map (\<lambda>t. ref_Key (ts_Ref t)) (tc_Tracks c)
          = map (source_key (mi_InfoHash meta)) (audio_parts (unicode (te_text env)) (TrimSpace (ti_BestName info)) (ti_Files info))
        \<and> (\<forall>t \<in> set (tc_Tracks c). torrent_track_ok (te_text env) t
            \<and> (\<exists>path. parseSourceKey (ref_Key (ts_Ref t)) = Inr (mi_InfoHash meta, path)
                \<and> tp_cacheFiles s' (ref_Key (ts_Ref t)) = Some \<lparr>cfl_infoHash = mi_InfoHash meta, cfl_logicalPath = path\<rparr>
                \<and> tp_trackIDs s' (ref_Key (ts_Ref t)) = track_ID (ts_Track t)
                \<and> below (filepath_Join [tp_dataRoot s, mi_InfoHash meta]) (cachePath (tp_dataRoot s) (mi_InfoHash meta) path))))"
proof -
  let ?h = "mi_InfoHash meta" and ?name = "TrimSpace (ti_BestName info)" and ?env = "te_text env"
  note h = hash_plain [OF hash]
  have "outside (tp_dataRoot s) (map_of (w_blobs (tp_world s))) (tp_world s)" by (simp add: outside_def)
  note post = wpD [OF ReadCatalog_wp [OF meta root h name this] run]
  show ?thesis
  proof (intro conjI allI impI)
    show "map_of (w_blobs (tp_world s')) p = map_of (w_blobs (tp_world s)) p" if "\<not> below (tp_dataRoot s) p" for p
      using post that by (simp add: outside_def)
  next
    fix c assume "r = Inr c"
    with post obtain audio art s1 where files: "catalog_files (unicode ?env) ?name (ti_Files info) = Inr (audio, art)"
      and c: "tc_Tracks c = map (catalog_track ?env ?h art) audio"
      and s': "s' = fold (register_picture ?h) art (fold (register_audio ?env ?h art) audio s1)" by auto
    note parts = catalog_files_Inr [OF files]
    have "map (\<lambda>t. ref_Key (ts_Ref t)) (tc_Tracks c) = map (source_key ?h) (map cf_parts audio)"
      unfolding c by (simp add: source_key_def logical_path_def)
    with parts show "map (\<lambda>t. ref_Key (ts_Ref t)) (tc_Tracks c) = map (source_key ?h) (audio_parts (unicode ?env) ?name (ti_Files info))"
      by simp
    have plain: "\<forall>f \<in> set audio. list_all plain_element (cf_parts f) \<and> cf_parts f \<noteq> []"
      using parts safePath_plain [OF _ name] by fastforce
    show "\<forall>t \<in> set (tc_Tracks c). torrent_track_ok ?env t
      \<and> (\<exists>path. parseSourceKey (ref_Key (ts_Ref t)) = Inr (?h, path)
          \<and> tp_cacheFiles s' (ref_Key (ts_Ref t)) = Some \<lparr>cfl_infoHash = ?h, cfl_logicalPath = path\<rparr>
          \<and> tp_trackIDs s' (ref_Key (ts_Ref t)) = track_ID (ts_Track t)
          \<and> below (filepath_Join [tp_dataRoot s, ?h]) (cachePath (tp_dataRoot s) ?h path))"
    proof
      fix t assume "t \<in> set (tc_Tracks c)"
      then obtain f where f: "f \<in> set audio" "t = catalog_track ?env ?h art f" unfolding c by auto
      obtain path where "safePath ?name path = Inr (cf_parts f)" using parts f(1) by auto
      then have "trimmed_parts (cf_parts f)" using name by (intro safePath_trimmed) (auto simp: plain_element_def)
      note ok = catalog_track_ok [OF this, of ?env ?h art]
      have p: "cf_parts f \<noteq> []" "list_all plain_element (cf_parts f)" using plain f(1) by auto
      have "registered ?env ?h f s'" unfolding s' by (rule registered_after [OF plain f(1)])
      with ok parse_source_key [OF hash p] cache_path_in_torrent [OF root h p]
      show "torrent_track_ok ?env t \<and> (\<exists>path. parseSourceKey (ref_Key (ts_Ref t)) = Inr (?h, path)
          \<and> tp_cacheFiles s' (ref_Key (ts_Ref t)) = Some \<lparr>cfl_infoHash = ?h, cfl_logicalPath = path\<rparr>
          \<and> tp_trackIDs s' (ref_Key (ts_Ref t)) = track_ID (ts_Track t)
          \<and> below (filepath_Join [tp_dataRoot s, ?h]) (cachePath (tp_dataRoot s) ?h path))"
        unfolding f(2) by (auto simp: registered_def source_key_def logical_path_def)
    qed
  qed
qed

lemma catalog_files_total: "(\<And>f. f \<in> set fs \<Longrightarrow> \<exists>parts. safePath name (fst f) = Inr parts) \<Longrightarrow> \<exists>a p. catalog_files uc name fs = Inr (a, p)"
proof (induction uc name fs rule: catalog_files.induct)
  case (2 uc name path len fs)
  obtain parts where sp: "safePath name path = Inr parts" using "2.prems" [of "(path, len)"] by auto
  obtain a p where "catalog_files uc name fs = Inr (a, p)" using "2.IH" [OF sp refl refl] "2.prems" by auto
  with sp show ?case by (simp add: Let_def split: option.split)
qed simp

section \<open>A torrent with a name that is a path\<close>

definition demo_hash :: string where "demo_hash = replicate 40 (CHR ''a'')"

definition demo_torrent_env :: "string \<Rightarrow> torrent_env" where
  "demo_torrent_env name = \<lparr>te_text = demo_env,
     te_Load = (\<lambda>_. Inr \<lparr>mi_InfoHash = demo_hash, mi_Info = Inr \<lparr>ti_BestName = name, ti_Files = [([''a.mp3''], 3)]\<rparr>\<rparr>),
     te_allocated = (\<lambda>c. int (length c)), te_Marshal = (\<lambda>_. ''r''), te_Unmarshal = (\<lambda>_. Inl ErrEOF)\<rparr>"

definition demo_music :: world where
  "demo_music = empty_world\<lparr>w_blobs := [(''/music/a.mp3'', ''abc'', 7)]\<rparr>"

definition demo_provider :: torrent_state where
  "demo_provider = NewStreaming ''/m'' ''/d'' 3 demo_music"

lemma demo_hash_ok: "length demo_hash = 40" "hex_ok demo_hash" "slash \<notin> set demo_hash" "demo_hash \<noteq> ''''"
  by (simp_all add: demo_hash_def hex_ok_def list_all_iff is_hex_def byte_def)

lemma demo_root: "clean_root ''/d''" "path_elements ''/d'' = [''d'']"
  by (simp_all add: clean_root_def path_elements_def plain_element_def IsAbs_def HasPrefix_def)

lemma demo_safe_path: "safePath name [''a.mp3''] = Inr [name, ''a.mp3'']"
  by (simp add: safePath_def go_eval ContainsAny_def)

lemma demo_trim_names: "TrimSpace ''../music'' = ''../music''" "TrimSpace ''music'' = ''music''"
  by (simp_all add: go_eval)

lemma escape_paths:
  "cachePath ''/d'' demo_hash ''../music/a.mp3'' = ''/d/music/a.mp3''"
  "filepath_Join [''/d'', ''../music/a.mp3''] = ''/music/a.mp3''"
  "filepath_Join [''/d'', demo_hash, legacyVerificationMarker] = ''/d/a'' @ replicate 39 (CHR ''a'') @ ''/'' @ legacyVerificationMarker"
proof -
  have h: "split_on slash demo_hash = [demo_hash]" "plain_element demo_hash" using demo_hash_ok hash_plain [OF demo_hash_ok(1,2)] by auto
  show "cachePath ''/d'' demo_hash ''../music/a.mp3'' = ''/d/music/a.mp3''"
    unfolding cachePath_def Join3 [OF demo_root(1) demo_hash_ok(4)]
    using h by (simp add: demo_root clean_push_def plain_element_def)
  show "filepath_Join [''/d'', ''../music/a.mp3''] = ''/music/a.mp3''"
    by (simp add: filepath_Join_def Clean_def IsAbs_def HasPrefix_def clean_elements_def clean_push_def)
  have "demo_hash = CHR ''a'' # replicate 39 (CHR ''a'')" by (simp add: demo_hash_def numeral_eq_Suc)
  then show "filepath_Join [''/d'', demo_hash, legacyVerificationMarker] = ''/d/a'' @ replicate 39 (CHR ''a'') @ ''/'' @ legacyVerificationMarker"
    unfolding Join3 [OF demo_root(1) demo_hash_ok(4)] using h
    by (simp add: demo_root clean_push_def plain_element_def legacyVerificationMarker_def)
qed

text \<open>
  the name of a torrent is not checked. \<open>safePath\<close> rejects unsafe components of the files, but takes the
  name as it is; a torrent named \<open>../music\<close> makes the migration of the former cache layout move a
  file from outside the cache directory into it, as soon as the torrent is read.
\<close>

theorem torrent_name_escapes:
  "\<exists>c s'. ReadCatalog (demo_torrent_env ''../music'') ''t'' demo_provider = (Inr c, s')
    \<and> \<not> below (tp_dataRoot demo_provider) ''/music/a.mp3''
    \<and> map_of (w_blobs (tp_world demo_provider)) ''/music/a.mp3'' \<noteq> None
    \<and> map_of (w_blobs (tp_world s')) ''/music/a.mp3'' = None"
proof -
  let ?name = "''../music''"
  have mig: "\<exists>w. migrateLegacyData ''/d'' demo_hash \<lparr>ti_BestName = ?name, ti_Files = [([''a.mp3''], 3)]\<rparr> demo_music = (Inr (), w)
    \<and> map_of (w_blobs w) ''/music/a.mp3'' = None"
    by (simp add: migrateLegacyData_def demo_trim_names demo_safe_path bindE_def liftR_def ret_def migrateLegacyFileLocked_def
      escape_paths Let_def fileExists_def tryE_def os_Stat_def os_call_def demo_music_def empty_world_def next_fault_def spend_fault_def
      is_dir_def HasPrefix_def move_legacy_def wrapE_def os_MkdirAll_def os_WriteFile_def os_Rename_def time_Now_def
      map_of_upsert map_of_filter_neq)
  then obtain w where w: "migrateLegacyData ''/d'' demo_hash \<lparr>ti_BestName = ?name, ti_Files = [([''a.mp3''], 3)]\<rparr> demo_music = (Inr (), w)"
    "map_of (w_blobs w) ''/music/a.mp3'' = None" by blast
  obtain a p where files: "catalog_files (unicode demo_env) ?name [([''a.mp3''], 3)] = Inr (a, p)"
    using catalog_files_total [of "[([''a.mp3''], 3)]" ?name "unicode demo_env"] by (auto simp: demo_safe_path)
  have "\<not> below ''/d'' ''/music/a.mp3''" by (auto simp: below_def demo_root path_elements_def)
  moreover have "\<exists>c s'. ReadCatalog (demo_torrent_env ?name) ''t'' demo_provider = (Inr c, s') \<and> tp_world s' = w"
    using w(1) files
    by (simp add: ReadCatalog_def with_state_def demo_torrent_env_def demo_trim_names bindE_def wrapE_def liftR_def on_world_def
      demo_provider_def NewStreaming_def modify_def ret_def fold_register_world Let_def)
  moreover have "tp_dataRoot demo_provider = ''/d''" "map_of (w_blobs (tp_world demo_provider)) ''/music/a.mp3'' \<noteq> None"
    by (simp_all add: demo_provider_def NewStreaming_def demo_music_def)
  ultimately show ?thesis using w(2) by auto
qed

theorem ReadCatalog_spec_witness:
  "\<exists>c s'. ReadCatalog (demo_torrent_env ''music'') ''t'' demo_provider = (Inr c, s')
    \<and> map_of (w_blobs (tp_world s')) ''/music/a.mp3'' = Some (''abc'', 7)
    \<and> map (\<lambda>t. ref_Key (ts_Ref t)) (tc_Tracks c) = [demo_hash @ ''/music/a.mp3'']"
proof -
  let ?name = "''music''" and ?info = "\<lparr>ti_BestName = ''music'', ti_Files = [([''a.mp3''], 3)]\<rparr>"
  have c: "cachePath ''/d'' demo_hash ''music/a.mp3'' = ''/d/'' @ demo_hash @ ''/music/a.mp3''"
    using cachePath_plain [OF demo_root(1) hash_plain [OF demo_hash_ok(1,2)], of "[''music'', ''a.mp3'']"]
    by (simp add: demo_root plain_element_def)
  have l: "filepath_Join [''/d'', ''music/a.mp3''] = ''/d/music/a.mp3''"
    by (simp add: filepath_Join_def Clean_def IsAbs_def HasPrefix_def clean_elements_def clean_push_def)
  have "\<exists>w. migrateLegacyData ''/d'' demo_hash ?info demo_music = (Inr (), w)"
    by (simp add: migrateLegacyData_def demo_trim_names demo_safe_path bindE_def liftR_def ret_def migrateLegacyFileLocked_def
      c l Let_def fileExists_def tryE_def os_Stat_def os_call_def demo_music_def empty_world_def next_fault_def spend_fault_def
      is_dir_def HasPrefix_def)
  then obtain w where w: "migrateLegacyData ''/d'' demo_hash ?info demo_music = (Inr (), w)" by blast
  obtain a p where files: "catalog_files (unicode demo_env) ?name [([''a.mp3''], 3)] = Inr (a, p)"
    using catalog_files_total [of "[([''a.mp3''], 3)]" ?name "unicode demo_env"] by (auto simp: demo_safe_path)
  obtain cat s' where run: "ReadCatalog (demo_torrent_env ?name) ''t'' demo_provider = (Inr cat, s')"
    using w files
    by (simp add: ReadCatalog_def with_state_def demo_torrent_env_def demo_trim_names bindE_def wrapE_def liftR_def on_world_def
      demo_provider_def NewStreaming_def modify_def ret_def Let_def)
  have sel: "tp_dataRoot demo_provider = ''/d''" "w_blobs (tp_world demo_provider) = [(''/music/a.mp3'', ''abc'', 7)]"
    "te_Load (demo_torrent_env ?name) ''t'' = Inr \<lparr>mi_InfoHash = demo_hash, mi_Info = Inr ?info\<rparr>" "te_text (demo_torrent_env ?name) = demo_env"
    by (simp_all add: demo_provider_def NewStreaming_def demo_torrent_env_def demo_music_def)
  have audio: "audio_parts ascii_tables ?name [([''a.mp3''], 3)] = [[''music'', ''a.mp3'']]"
    by (simp add: audio_parts_def is_audio_def demo_env_def ByExtension_def supported_def filepath_Ext_def path_base_def go_eval Let_def fmt_def)
  have "\<not> below ''/d'' ''/music/a.mp3''" by (auto simp: below_def demo_root path_elements_def)
  moreover have "plain_element ?name" by (simp add: plain_element_def)
  ultimately show ?thesis
    using ReadCatalog_spec [OF run sel(3)] run demo_hash_ok demo_root
    by (simp add: sel demo_trim_names audio source_key_def)
qed

end
