(* ===== verification/TorrentEviction.thy ===== *)
theory TorrentEviction
  imports TorrentProvider
begin

text \<open>
  Eviction from the torrent cache, \<open>Provider.Evict\<close> of \<open>adapters/providers/torrent/provider.go\<close>: what it
  leaves alone whatever fails, and what it removes when nothing fails.
\<close>

section \<open>Eviction\<close>

definition cached_paths :: "string \<Rightarrow> cacheFile \<Rightarrow> string set" where
  "cached_paths root file = (let path = cachePath root (cfl_infoHash file) (cfl_logicalPath file) in {path, path @ ''.part''})"

text \<open>The files in which the jobs are recorded.\<close>

definition record_files :: "torrent_state \<Rightarrow> string set" where
  "record_files s = (\<Union>i. {downloadRecordPath s i, downloadRecordPath s i @ ''.tmp''})"

definition all_cached :: "torrent_state \<Rightarrow> string set" where
  "all_cached s = (\<Union>file \<in> ran (tp_cacheFiles s). cached_paths (tp_dataRoot s) file)"

text \<open>A source is kept if it is in use or pinned; the pin is read reliably when no operation fails and the
  marker is no file of the cache and no record of a job.\<close>

definition pinned :: "torrent_state \<Rightarrow> string \<Rightarrow> bool" where
  "pinned s h \<longleftrightarrow> map_of (w_blobs (tp_world s)) (sourceMarkerPath s h ''pinned'') \<noteq> None"

definition kept_source :: "torrent_state \<Rightarrow> string \<Rightarrow> bool" where
  "kept_source s h \<longleftrightarrow> tp_active s h > 0
     \<or> w_faults (tp_world s) = [] \<and> pinned s h \<and> sourceMarkerPath s h ''pinned'' \<notin> record_files s \<union> all_cached s"

subsection \<open>What the loop leaves alone\<close>

text \<open>\<open>s\<close> has the roots, the counters and, outside of \<open>X\<close>, the files of \<open>s0\<close>.\<close>

definition world_keeps :: "string set \<Rightarrow> world \<Rightarrow> world \<Rightarrow> bool" where
  "world_keeps X w0 w \<longleftrightarrow> (\<forall>p. p \<notin> X \<longrightarrow> map_of (w_blobs w) p = map_of (w_blobs w0) p) \<and> (w_faults w0 = [] \<longrightarrow> w_faults w = [])"

definition evicting :: "string set \<Rightarrow> torrent_state \<Rightarrow> torrent_state \<Rightarrow> bool" where
  "evicting X s0 s \<longleftrightarrow> tp_active s = tp_active s0 \<and> tp_metadataRoot s = tp_metadataRoot s0
     \<and> tp_dataRoot s = tp_dataRoot s0 \<and> world_keeps X (tp_world s0) (tp_world s)"

lemma preserves_now_E [preserving]:
  "(\<And>t. preserves (evicting X s0) (k t)) \<Longrightarrow> preserves (evicting X s0) (now_E k)"
  unfolding now_E_def by (rule preserves_readE) (auto simp: evicting_def time_Now_def world_keeps_def)

lemma evicting_on_world: "preserves (world_keeps X (tp_world s0)) act \<Longrightarrow> preserves (evicting X s0) (on_world act)"
  by (auto simp: preserves_def evicting_def on_world_def case_prod_beta Let_def)

lemma world_keeps_spend [simp]: "world_keeps X w0 w \<Longrightarrow> world_keeps X w0 (spend_fault w)"
  by (simp add: world_keeps_def spend_fault_def)

lemma world_keeps_call:
  "(\<And>w. world_keeps X w0 w \<Longrightarrow> world_keeps X w0 (snd (g w))) \<Longrightarrow> preserves (world_keeps X w0) (os_call g)"
  by (auto simp: preserves_def os_call_def)

lemma world_keeps_ops [preserving]:
  "preserves (world_keeps X w0) ctx_Err" "preserves (world_keeps X w0) (os_Stat p)" "preserves (world_keeps X w0) os_MkdirAll"
  "preserves (world_keeps X w0) (fileExists p)"
proof -
  show "preserves (world_keeps X w0) ctx_Err" by (auto simp: preserves_def ctx_Err_def)
  show st: "preserves (world_keeps X w0) (os_Stat p)" for p
    unfolding os_Stat_def by (rule world_keeps_call) (simp split: option.split)
  show "preserves (world_keeps X w0) os_MkdirAll"
    unfolding os_MkdirAll_def by (rule world_keeps_call) simp
  show "preserves (world_keeps X w0) (fileExists p)" unfolding fileExists_def by (intro preserving st)
qed

lemma world_keeps_changes:
  "p \<in> X \<Longrightarrow> preserves (world_keeps X w0) (os_Remove p)"
  "p \<in> X \<Longrightarrow> preserves (world_keeps X w0) (os_WriteFile p c)"
  "p \<in> X \<Longrightarrow> q \<in> X \<Longrightarrow> preserves (world_keeps X w0) (os_Rename p q)"
proof -
  show "p \<in> X \<Longrightarrow> preserves (world_keeps X w0) (os_Remove p)"
    unfolding os_Remove_def by (rule world_keeps_call) (auto simp: world_keeps_def map_of_filter_neq)
  show "p \<in> X \<Longrightarrow> preserves (world_keeps X w0) (os_WriteFile p c)"
    unfolding os_WriteFile_def by (rule world_keeps_call) (auto simp: world_keeps_def time_Now_def map_of_upsert)
  show "p \<in> X \<Longrightarrow> q \<in> X \<Longrightarrow> preserves (world_keeps X w0) (os_Rename p q)"
    unfolding os_Rename_def
    by (rule world_keeps_call) (auto simp: world_keeps_def map_of_upsert map_of_filter_neq split: option.split)
qed

lemma record_path_cong: "tp_metadataRoot s = tp_metadataRoot s0 \<Longrightarrow> downloadRecordPath s i = downloadRecordPath s0 i"
  by (simp add: downloadRecordPath_def downloadDirectory_def)

lemma evicting_persist: "record_files s0 \<subseteq> X \<Longrightarrow> preserves (evicting X s0) (persistDownloadLocked env rec)"
proof -
  assume X: "record_files s0 \<subseteq> X"
  have "preserves (evicting X s0) (on_world (bindE (wrapE m1 os_MkdirAll) (\<lambda>_.
      bindE (wrapE m2 (os_WriteFile (downloadRecordPath s i @ ''.tmp'') c)) (\<lambda>_. wrapE m3 (os_Rename (downloadRecordPath s i @ ''.tmp'') (downloadRecordPath s i))))))"
    if "evicting X s0 s" for s i c m1 m2 m3
  proof -
    have "downloadRecordPath s i = downloadRecordPath s0 i" using that by (intro record_path_cong) (simp add: evicting_def)
    then have "downloadRecordPath s i \<in> X" "downloadRecordPath s i @ ''.tmp'' \<in> X" using X by (auto simp: record_files_def)
    then show ?thesis by (intro evicting_on_world preserving world_keeps_changes)
  qed
  then show ?thesis unfolding persistDownloadLocked_def Let_def by (intro preserving)
qed

lemma evicting_marked: "record_files s0 \<subseteq> X \<Longrightarrow> preserves (evicting X s0) (markDownloadEvicted env key)"
  unfolding markDownloadEvicted_def persist_quietly_def Let_def
  by (intro preserving preserves_modify evicting_persist) (auto simp: evicting_def)

lemma marker_path_cong: "tp_metadataRoot s = tp_metadataRoot s0 \<Longrightarrow> sourceMarkerPath s h m = sourceMarkerPath s0 h m"
  by (simp add: sourceMarkerPath_def)

text \<open>A kept source is skipped.\<close>

lemma keep_test:
  assumes "evicting X s0 s" "kept_source s0 h" "X \<subseteq> record_files s0 \<union> all_cached s0"
  shows "wp (if tp_active s h > 0 then ret True else sourceMarkerExists h ''pinned'') (\<lambda>r s'. r = Inr True \<and> evicting X s0 s') s"
proof (cases "tp_active s h > 0")
  case True
  then show ?thesis using assms(1) by (simp add: wp_simps)
next
  case False
  then have k: "w_faults (tp_world s0) = []" "pinned s0 h" "sourceMarkerPath s0 h ''pinned'' \<notin> X"
    using assms by (auto simp: kept_source_def evicting_def)
  have "sourceMarkerPath s h ''pinned'' = sourceMarkerPath s0 h ''pinned''"
    using assms(1) by (intro marker_path_cong) (simp add: evicting_def)
  then have "map_of (w_blobs (tp_world s)) (sourceMarkerPath s h ''pinned'') \<noteq> None" "w_faults (tp_world s) = []"
    using assms(1) k by (simp_all add: evicting_def world_keeps_def pinned_def)
  then show ?thesis using False assms(1)
    by (auto simp: sourceMarkerExists_def with_state_def on_world_def fileExists_def tryE_def os_Stat_def os_call_def wp_def
      next_fault_def spend_fault_def ret_def evicting_def world_keeps_def)
qed

lemma keep_test_evicting: "evicting X s0 s \<Longrightarrow>
  wp (if tp_active s h > 0 then ret True else sourceMarkerExists h ''pinned'') (\<lambda>r s'. is_ok r \<and> evicting X s0 s') s"
proof (rule wpI)
  fix r s' assume a: "evicting X s0 s" "(if tp_active s h > 0 then ret True else sourceMarkerExists h ''pinned'') s = (r, s')"
  have "preserves (evicting X s0) (sourceMarkerExists h ''pinned'')"
    unfolding sourceMarkerExists_def by (intro preserving evicting_on_world)
  with a show "is_ok r \<and> evicting X s0 s'"
    by (auto simp: sourceMarkerExists_def with_state_def on_world_def fileExists_def tryE_def ret_def split: if_splits prod.splits dest: preservesD)
qed

lemma evict_loop_keeps:
  assumes X: "record_files s0 \<subseteq> X" "X \<subseteq> record_files s0 \<union> all_cached s0"
    and cs: "\<And>c. c \<in> set cs \<Longrightarrow> ec_path c \<in> X \<or> kept_source s0 (ec_infoHash c)"
    and s: "evicting X s0 s"
  shows "wp (torrent_evict_loop env bytes dropped freed cs) (\<lambda>r s'. evicting X s0 s') s"
  using cs s
proof (induction cs arbitrary: dropped freed s)
  case (Cons c cs)
  have IH: "wp (torrent_evict_loop env bytes d f cs) (\<lambda>r s'. evicting X s0 s') s'" if "evicting X s0 s'" for d f s'
    by (rule Cons.IH) (use Cons.prems that in auto)
  have ctx: "wp (on_world ctx_Err) (\<lambda>r s'. evicting X s0 s') s"
    by (rule wpI) (rule preservesD [OF evicting_on_world [OF world_keeps_ops(1)] Cons.prems(2)])
  let ?rest = "\<lambda>keep. if keep then torrent_evict_loop env bytes dropped freed cs
      else bindE (modify (drop_once (ec_infoHash c) dropped)) (\<lambda>_.
        tryE (on_world (os_Remove (ec_path c))) (\<lambda>r. case r of
          Inl err \<Rightarrow>
            if err = os_ErrNotExist then torrent_evict_loop env bytes (insert (ec_infoHash c) dropped) freed cs
            else fail (Wrap ''remove cached torrent file'' err)
        | Inr _ \<Rightarrow>
            bindE (markDownloadEvicted env (ec_key c)) (\<lambda>_.
            bindE (modify (\<lambda>s. s\<lparr>tp_lastAccessed := (tp_lastAccessed s)(ec_key c := None)\<rparr>)) (\<lambda>_.
              if freed + ec_size c \<ge> bytes then ret (freed + ec_size c)
              else torrent_evict_loop env bytes (insert (ec_infoHash c) dropped) (freed + ec_size c) cs))))"
  have remove: "wp (?rest False) (\<lambda>r s'. evicting X s0 s') s1" if "evicting X s0 s1" "ec_path c \<in> X" for s1
  proof -
    have loop: "preserves (evicting X s0) (torrent_evict_loop env bytes d f cs)" for d f
      by (rule preservesI) (rule wpD [OF IH])
    have "preserves (evicting X s0) (?rest False)"
      by (simp only: if_False, intro preserving preserves_modify evicting_on_world world_keeps_changes that evicting_marked X loop)
        (auto simp: evicting_def drop_once_def dropTorrent_def)
    with that(1) show ?thesis by (auto simp: wp_def preserves_def split: prod.splits)
  qed
  have body: "wp (bindE (if tp_active s1 (ec_infoHash c) > 0 then ret True else sourceMarkerExists (ec_infoHash c) ''pinned'') ?rest)
      (\<lambda>r s'. evicting X s0 s') s1" if s1: "evicting X s0 s1" for s1
  proof (cases "kept_source s0 (ec_infoHash c)")
    case True
    show ?thesis by (rule wp_bindI [OF keep_test [OF s1 True X(2)]]) (auto intro: IH)
  next
    case False
    then have p: "ec_path c \<in> X" using Cons.prems(1) by auto
    show ?thesis
    proof (rule wp_bindI [OF keep_test_evicting [OF s1]])
      fix keep s2 assume "is_ok (Inr keep :: bool result) \<and> evicting X s0 s2"
      then show "wp (?rest keep) (\<lambda>r s'. evicting X s0 s') s2"
        using remove [OF _ p] IH by (cases keep) auto
    qed auto
  qed
  show ?case unfolding torrent_evict_loop.simps
  proof (rule wp_bindI [OF ctx])
    fix u s1 assume "evicting X s0 s1"
    from body [OF this] show "wp (with_state (\<lambda>s. bindE (if tp_active s (ec_infoHash c) > 0 then ret True
        else sourceMarkerExists (ec_infoHash c) ''pinned'') ?rest)) (\<lambda>r s'. evicting X s0 s') s1"
      by (simp add: wp_def with_state_def)
  qed
qed (simp add: wp_simps)

lemma stat_cached_path: "stat_cached p w = (Inr (Some (q, f)), w') \<Longrightarrow> q \<in> {p, p @ ''.part''}"
  by (auto simp: stat_cached_def tryE_def ret_def fail_def split: prod.splits sum.splits if_splits)

lemma world_keeps_stat_cached [preserving]: "preserves (world_keeps X w0) (stat_cached p)"
  unfolding stat_cached_def by (intro preserving)

lemma eviction_candidates_keeps: "preserves (world_keeps X w0) (eviction_candidates env s keys)"
  by (induction keys) (auto intro!: preserving split: option.split)

lemma eviction_candidates_set:
  "eviction_candidates env s keys w = (Inr cs, w') \<Longrightarrow> c \<in> set cs \<Longrightarrow>
   \<exists>file. tp_cacheFiles s (ec_key c) = Some file \<and> ec_infoHash c = cfl_infoHash file \<and> ec_path c \<in> cached_paths (tp_dataRoot s) file"
proof (induction keys arbitrary: cs w)
  case (Cons key keys)
  show ?case
  proof (cases "tp_cacheFiles s key")
    case None
    with Cons show ?thesis by auto
  next
    case (Some cf)
    let ?p = "cachePath (tp_dataRoot s) (cfl_infoHash cf) (cfl_logicalPath cf)"
    from Cons.prems(1) Some obtain found w1 w2 rest where st: "stat_cached ?p w1 = (Inr found, w2)"
      and rest: "eviction_candidates env s keys w2 = (Inr rest, w')"
      and cs: "cs = (case found of None \<Rightarrow> rest | Some f \<Rightarrow> candidate_of env s key cf f # rest)"
      by (auto simp: bindE_def ret_def split: prod.splits sum.splits)
    show ?thesis
    proof (cases "c \<in> set rest")
      case True
      with Cons.IH [OF rest] show ?thesis by blast
    next
      case False
      with cs Cons.prems(2) obtain f where f: "found = Some f" "c = candidate_of env s key cf f"
        by (auto split: option.splits)
      with stat_cached_path [of ?p w1 "fst f" "snd f" w2] st Some show ?thesis
        by (auto simp: candidate_of_def cached_paths_def Let_def split: prod.splits)
    qed
  qed
qed simp


subsection \<open>What is evicted\<close>

text \<open>Without faults the removal of one candidate succeeds and changes nothing but its file, its record and
  the map of accesses.\<close>

definition calm :: "torrent_state \<Rightarrow> bool" where
  "calm s \<longleftrightarrow> w_faults (tp_world s) = []"

lemma calm_os: "w_faults w = [] \<Longrightarrow> next_fault w = False \<and> spend_fault w = w"
  by (simp add: next_fault_def spend_fault_def)

lemma persist_quietly_ok: "fst (persist_quietly env rec s) = Inr ()"
  by (simp add: persist_quietly_def tryE_def ret_def split: prod.split)

lemma markDownloadEvicted_ok: "fst (markDownloadEvicted env key s) = Inr ()"
  by (simp add: markDownloadEvicted_def Let_def with_state_def ret_def now_E_def readE_def bindE_def modify_def
    persist_quietly_ok split: option.split prod.split)

definition evictable :: "torrent_state \<Rightarrow> evictionCandidate \<Rightarrow> bool" where
  "evictable s c \<longleftrightarrow> \<not> kept_source s (ec_infoHash c)"

text \<open>The hypotheses under which eviction is exact: no operation fails, markers and records are apart from the
  cached files.\<close>

definition tidy :: "torrent_state \<Rightarrow> bool" where
  "tidy s \<longleftrightarrow> w_faults (tp_world s) = [] \<and> record_files s \<inter> all_cached s = {}
     \<and> (\<forall>h. sourceMarkerPath s h ''pinned'' \<notin> record_files s \<union> all_cached s)"

lemma tidy_kept: "tidy s \<Longrightarrow> kept_source s h \<longleftrightarrow> tp_active s h > 0 \<or> pinned s h"
  by (auto simp: tidy_def kept_source_def)

lemma keep_test_exact:
  assumes "tidy s0" "X \<subseteq> record_files s0 \<union> all_cached s0" "evicting X s0 s"
  shows "(if tp_active s h > 0 then ret True else sourceMarkerExists h ''pinned'') s = (Inr (kept_source s0 h), s)"
proof -
  have w: "w_faults (tp_world s) = []" using assms by (simp add: tidy_def evicting_def world_keeps_def)
  have path: "sourceMarkerPath s h ''pinned'' = sourceMarkerPath s0 h ''pinned''"
    using assms(3) by (intro marker_path_cong) (simp add: evicting_def)
  have "sourceMarkerPath s0 h ''pinned'' \<notin> X" using assms(1,2) by (auto simp: tidy_def)
  then have "map_of (w_blobs (tp_world s)) (sourceMarkerPath s h ''pinned'') = map_of (w_blobs (tp_world s0)) (sourceMarkerPath s0 h ''pinned'')"
    using assms(3) path by (simp add: evicting_def world_keeps_def)
  then have pin: "pinned s h = pinned s0 h" by (simp add: pinned_def)
  have "sourceMarkerExists h ''pinned'' s = (Inr (pinned s h), s)"
    using calm_os [OF w] by (auto simp: sourceMarkerExists_def with_state_def on_world_def fileExists_def tryE_def os_Stat_def
      os_call_def ret_def pinned_def split: option.split)
  then show ?thesis using pin tidy_kept [OF assms(1)] assms(3) by (auto simp: ret_def evicting_def)
qed

text \<open>The result of the removals from a list \<open>E\<close> of evictable candidates: the first \<open>n\<close> are gone.\<close>

definition evicted_first :: "nat \<Rightarrow> evictionCandidate list \<Rightarrow> string set \<Rightarrow> torrent_state \<Rightarrow> torrent_state \<Rightarrow> bool" where
  "evicted_first n E R s s' \<longleftrightarrow>
     (\<forall>c \<in> set (take n E). map_of (w_blobs (tp_world s')) (ec_path c) = None)
     \<and> (\<forall>p. p \<notin> R \<union> ec_path ` set (take n E) \<longrightarrow> map_of (w_blobs (tp_world s')) p = map_of (w_blobs (tp_world s)) p)"

definition freed_by :: "nat \<Rightarrow> evictionCandidate list \<Rightarrow> int" where
  "freed_by n E = sum_list (map ec_size (take n E))"

lemma remove_one:
  assumes "tidy s0" "evicting (record_files s0 \<union> all_cached s0) s0 s" "ec_path c \<in> all_cached s0"
    "map_of (w_blobs (tp_world s)) (ec_path c) \<noteq> None"
  obtains s' where "\<And>k. bindE (modify (drop_once (ec_infoHash c) dropped)) (\<lambda>_.
        tryE (on_world (os_Remove (ec_path c))) (\<lambda>r. case r of Inl err \<Rightarrow> h err | Inr _ \<Rightarrow>
            bindE (markDownloadEvicted env (ec_key c)) (\<lambda>_.
            bindE (modify (\<lambda>s. s\<lparr>tp_lastAccessed := (tp_lastAccessed s)(ec_key c := None)\<rparr>)) (\<lambda>_. k)))) s = k s'"
    "evicting (record_files s0 \<union> all_cached s0) s0 s'" "evicted_first 1 [c] (record_files s0) s s'"
proof -
  let ?X = "record_files s0 \<union> all_cached s0"
  define s1 where "s1 = drop_once (ec_infoHash c) dropped s"
  have w1: "tp_world s1 = tp_world s" by (simp add: s1_def drop_once_def dropTorrent_def)
  have e1: "evicting ?X s0 s1" using assms(2) by (simp add: evicting_def s1_def drop_once_def dropTorrent_def)
  have nf: "w_faults (tp_world s1) = []" using assms(1) e1 by (simp add: tidy_def evicting_def world_keeps_def)
  define s2 where "s2 = s1\<lparr>tp_world := (tp_world s1)\<lparr>w_blobs := filter (\<lambda>f. fst f \<noteq> ec_path c) (w_blobs (tp_world s1))\<rparr>\<rparr>"
  have rm: "on_world (os_Remove (ec_path c)) s1 = (Inr (), s2)"
    using assms(4) calm_os [OF nf] w1 by (simp add: on_world_def os_Remove_def os_call_def s2_def)
  have e2: "evicting ?X s0 s2"
    by (rule preservesD [OF evicting_on_world [OF world_keeps_changes(1)] e1 rm]) (use assms(3) in simp)
  obtain s3 where mark: "markDownloadEvicted env (ec_key c) s2 = (Inr (), s3)"
    using markDownloadEvicted_ok [of env "ec_key c" s2] by (metis prod.collapse)
  have e3: "evicting ?X s0 s3" by (rule preservesD [OF evicting_marked e2 mark]) simp
  have R: "record_files s2 = record_files s0"
    using e2 record_path_cong [of s2 s0] by (simp add: record_files_def evicting_def)
  have f3: "world_keeps (record_files s0) (tp_world s2) (tp_world s3)"
    using preservesD [OF evicting_marked [of s2 "record_files s0"] _ mark] R by (simp add: evicting_def world_keeps_def)
  define s4 where "s4 = s3\<lparr>tp_lastAccessed := (tp_lastAccessed s3)(ec_key c := None)\<rparr>"
  show thesis
  proof (rule that)
    show "bindE (modify (drop_once (ec_infoHash c) dropped)) (\<lambda>_.
        tryE (on_world (os_Remove (ec_path c))) (\<lambda>r. case r of Inl err \<Rightarrow> h err | Inr _ \<Rightarrow>
            bindE (markDownloadEvicted env (ec_key c)) (\<lambda>_.
            bindE (modify (\<lambda>s. s\<lparr>tp_lastAccessed := (tp_lastAccessed s)(ec_key c := None)\<rparr>)) (\<lambda>_. k)))) s = k s4" for k
      using rm mark by (simp add: bindE_def tryE_def modify_def flip: s1_def s4_def)
    show "evicting ?X s0 s4" using e3 by (simp add: s4_def evicting_def)
    have "ec_path c \<notin> record_files s0" using assms(1,3) by (auto simp: tidy_def)
    then show "evicted_first 1 [c] (record_files s0) s s4"
      using f3 w1 by (auto simp: evicted_first_def s4_def s2_def world_keeps_def map_of_filter_neq)
  qed
qed

lemma bind_run: "m s = (Inr x, s') \<Longrightarrow> bindE m k s = k x s'"
  by (simp add: bindE_def)

lemma evict_loop_exact:
  assumes "tidy s0" and E: "E = filter (evictable s0) cs"
  shows "evicting (record_files s0 \<union> all_cached s0) s0 s \<Longrightarrow> freed < bytes \<Longrightarrow> distinct (map ec_path cs) \<Longrightarrow>
    (\<forall>c \<in> set cs. ec_path c \<in> all_cached s0 \<and> map_of (w_blobs (tp_world s)) (ec_path c) \<noteq> None) \<Longrightarrow>
    \<exists>n s'. torrent_evict_loop env bytes dropped freed cs s = (Inr (freed + freed_by n E), s') \<and> n \<le> length E
      \<and> evicted_first n E (record_files s0) s s'
      \<and> (n = length E \<or> freed + freed_by n E \<ge> bytes) \<and> (\<forall>m < n. freed + freed_by m E < bytes)"
  unfolding E
proof (induction cs arbitrary: s dropped freed)
  case Nil
  show ?case by (intro exI [of _ 0] exI [of _ s]) (simp add: freed_by_def evicted_first_def ret_def)
next
  case (Cons c cs)
  let ?X = "record_files s0 \<union> all_cached s0"
  have w: "w_faults (tp_world s) = []" using assms(1) Cons.prems(1) by (simp add: tidy_def evicting_def world_keeps_def)
  have ctx: "on_world ctx_Err s = (Inr (), s)" using calm_os [OF w] by (simp add: on_world_def ctx_Err_def)
  note test = keep_test_exact [OF assms(1) subset_refl Cons.prems(1), of "ec_infoHash c"]
  note run1 = bind_run [where m = "on_world ctx_Err", OF ctx]
  note run2 = bind_run [where m = "if tp_active s (ec_infoHash c) > 0 then ret True else sourceMarkerExists (ec_infoHash c) ''pinned''", OF test]
  show ?case
  proof (cases "kept_source s0 (ec_infoHash c)")
    case True
    then have "torrent_evict_loop env bytes dropped freed (c # cs) s = torrent_evict_loop env bytes dropped freed cs s"
      unfolding torrent_evict_loop.simps run1 with_state_def run2 by simp
    with Cons True show ?thesis by (simp add: evictable_def)
  next
    case False
    then have E: "filter (evictable s0) (c # cs) = c # filter (evictable s0) cs" by (simp add: evictable_def)
    have "ec_path c \<in> all_cached s0" "map_of (w_blobs (tp_world s)) (ec_path c) \<noteq> None" using Cons.prems(4) by auto
    from remove_one [OF assms(1) Cons.prems(1) this, of dropped
        "\<lambda>err. if err = os_ErrNotExist then torrent_evict_loop env bytes (insert (ec_infoHash c) dropped) freed cs
            else fail (Wrap ''remove cached torrent file'' err)" env]
    obtain s1 where s1: "\<And>k. bindE (modify (drop_once (ec_infoHash c) dropped)) (\<lambda>_.
        tryE (on_world (os_Remove (ec_path c))) (\<lambda>r. case r of
          Inl err \<Rightarrow> if err = os_ErrNotExist then torrent_evict_loop env bytes (insert (ec_infoHash c) dropped) freed cs
            else fail (Wrap ''remove cached torrent file'' err)
        | Inr _ \<Rightarrow>
            bindE (markDownloadEvicted env (ec_key c)) (\<lambda>_.
            bindE (modify (\<lambda>s. s\<lparr>tp_lastAccessed := (tp_lastAccessed s)(ec_key c := None)\<rparr>)) (\<lambda>_. k)))) s = k s1"
      and e1: "evicting ?X s0 s1" and first: "evicted_first 1 [c] (record_files s0) s s1" by blast
    have loop: "torrent_evict_loop env bytes dropped freed (c # cs) s =
      (if freed + ec_size c \<ge> bytes then ret (freed + ec_size c)
       else torrent_evict_loop env bytes (insert (ec_infoHash c) dropped) (freed + ec_size c) cs) s1"
      unfolding s1 [symmetric] torrent_evict_loop.simps run1 with_state_def run2 using False by simp
    show ?thesis
    proof (cases "freed + ec_size c \<ge> bytes")
      case True
      with loop first Cons.prems(2) show ?thesis unfolding E
        by (intro exI [of _ 1] exI [of _ s1]) (auto simp: ret_def freed_by_def evicted_first_def)
    next
      case False
      have "\<forall>d \<in> set cs. ec_path d \<in> all_cached s0 \<and> map_of (w_blobs (tp_world s1)) (ec_path d) \<noteq> None"
      proof
        fix d assume d: "d \<in> set cs"
        with Cons.prems(3) have "ec_path d \<noteq> ec_path c" by (metis distinct.simps(2) image_eqI list.set_map list.simps(9))
        moreover have "ec_path d \<in> all_cached s0" using Cons.prems(4) d by simp
        then have "ec_path d \<notin> record_files s0" using assms(1) by (auto simp: tidy_def)
        ultimately show "ec_path d \<in> all_cached s0 \<and> map_of (w_blobs (tp_world s1)) (ec_path d) \<noteq> None"
          using first Cons.prems(4) d by (simp add: evicted_first_def)
      qed
      from Cons.IH [OF e1 _ _ this, of "freed + ec_size c" "insert (ec_infoHash c) dropped"] False Cons.prems(3)
      obtain n s' where IH: "torrent_evict_loop env bytes (insert (ec_infoHash c) dropped) (freed + ec_size c) cs s1
          = (Inr (freed + ec_size c + freed_by n (filter (evictable s0) cs)), s')" "n \<le> length (filter (evictable s0) cs)"
        "evicted_first n (filter (evictable s0) cs) (record_files s0) s1 s'"
        "n = length (filter (evictable s0) cs) \<or> freed + ec_size c + freed_by n (filter (evictable s0) cs) \<ge> bytes"
        "\<forall>m < n. freed + ec_size c + freed_by m (filter (evictable s0) cs) < bytes" by auto
      have gone: "ec_path c \<notin> record_files s0" using assms(1) Cons.prems(4) by (auto simp: tidy_def)
      have ef: "evicted_first (Suc n) (c # filter (evictable s0) cs) (record_files s0) s s'"
        using IH(3) first gone by (auto simp: evicted_first_def)
      have sums: "freed_by (Suc k) (c # filter (evictable s0) cs) = ec_size c + freed_by k (filter (evictable s0) cs)" for k
        by (simp add: freed_by_def)
      have "\<forall>m < Suc n. freed + freed_by m (c # filter (evictable s0) cs) < bytes"
      proof (intro allI impI)
        fix m assume "m < Suc n"
        then show "freed + freed_by m (c # filter (evictable s0) cs) < bytes"
          using IH(5) Cons.prems(2) by (cases m) (simp_all add: sums add.assoc freed_by_def)
      qed
      with loop False IH ef show ?thesis unfolding E
        by (intro exI [of _ "Suc n"] exI [of _ s']) (auto simp: sums add.assoc)
    qed
  qed
qed

text \<open>The candidates, as a function of the files.\<close>

definition cached_file :: "world \<Rightarrow> string \<Rightarrow> (string \<times> string \<times> time) option" where
  "cached_file w path =
    (case map_of (w_blobs w) path of
       Some f \<Rightarrow> Some (path, f)
     | None \<Rightarrow> if is_dir w path then None else map_option (Pair (path @ ''.part'')) (map_of (w_blobs w) (path @ ''.part'')))"

definition candidates :: "torrent_env \<Rightarrow> torrent_state \<Rightarrow> string list \<Rightarrow> evictionCandidate list" where
  "candidates env s keys = List.map_filter (\<lambda>key. case tp_cacheFiles s key of
     None \<Rightarrow> None
   | Some file \<Rightarrow> map_option (candidate_of env s key file)
       (cached_file (tp_world s) (cachePath (tp_dataRoot s) (cfl_infoHash file) (cfl_logicalPath file)))) keys"

lemma stat_cached_calm: "w_faults w = [] \<Longrightarrow> stat_cached p w = (Inr (cached_file w p), w)"
proof -
  assume a: "w_faults w = []"
  have st: "os_Stat q w = (case map_of (w_blobs w) q of Some f \<Rightarrow> (Inr (Some f), w)
      | None \<Rightarrow> if is_dir w q then (Inr None, w) else (Inl os_ErrNotExist, w))" for q
    using calm_os [OF a] by (auto simp: os_Stat_def os_call_def split: option.split)
  show ?thesis
    by (cases "map_of (w_blobs w) p"; cases "map_of (w_blobs w) (p @ ''.part'')")
      (simp_all add: stat_cached_def tryE_def ret_def st cached_file_def)
qed

lemma eviction_candidates_calm:
  "w_faults (tp_world s) = [] \<Longrightarrow> eviction_candidates env s keys (tp_world s) = (Inr (candidates env s keys), tp_world s)"
proof (induction keys)
  case (Cons key keys)
  have "ctx_Err (tp_world s) = (Inr (), tp_world s)" using calm_os [OF Cons.prems] by (simp add: ctx_Err_def)
  with Cons stat_cached_calm [OF Cons.prems] show ?case
    by (auto simp: candidates_def List.map_filter_simps bindE_def ret_def split: option.split)
qed (simp add: candidates_def ret_def List.map_filter_simps)

lemma candidates_present:
  assumes "c \<in> set (candidates env s keys)"
  shows "ec_path c \<in> all_cached s \<and> map_of (w_blobs (tp_world s)) (ec_path c) \<noteq> None"
proof -
  from assms obtain key cf found where "tp_cacheFiles s key = Some cf" "c = candidate_of env s key cf found"
    "cached_file (tp_world s) (cachePath (tp_dataRoot s) (cfl_infoHash cf) (cfl_logicalPath cf)) = Some found"
    by (auto simp: candidates_def List.map_filter_def split: option.splits)
  then show ?thesis
    by (auto simp: cached_file_def candidate_of_def all_cached_def cached_paths_def Let_def intro!: bexI [of _ cf] ranI
      split: option.splits if_splits prod.splits)
qed

abbreviation least_recent :: "evictionCandidate list \<Rightarrow> evictionCandidate list" where
  "least_recent \<equiv> SliceStable (\<lambda>a b. ec_lastAccessed a < ec_lastAccessed b)"

text \<open>
  C29: eviction is exact. Without faults, and if cached files, markers and records do not share paths, the
  call frees the files of the sources that are neither in use nor pinned in the order of their last
  access, one by one: it stops as soon as the requested number of bytes is free and otherwise removes them
  all, removes no file it need not, changes no file but these and the records of jobs, and returns
  the number of bytes.
\<close>

theorem torrent_Evict_spec:
  assumes tidy: "tidy s" and "0 < bytes" and dist: "distinct (map ec_path (candidates env s keys))"
    and E: "E = filter (\<lambda>c. \<not> (tp_active s (ec_infoHash c) > 0 \<or> pinned s (ec_infoHash c))) (least_recent (candidates env s keys))"
  shows "\<exists>n s'. torrent_Evict env keys bytes s = (Inr (freed_by n E), s') \<and> n \<le> length E
    \<and> evicted_first n E (record_files s) s s' \<and> (n = length E \<or> freed_by n E \<ge> bytes) \<and> (\<forall>m < n. freed_by m E < bytes)
    \<and> sorted (map ec_lastAccessed E)"
proof -
  let ?cs = "least_recent (candidates env s keys)"
  have nf: "w_faults (tp_world s) = []" using tidy by (simp add: tidy_def)
  have mset: "mset ?cs = mset (candidates env s keys)" by simp
  then have set: "set ?cs = set (candidates env s keys)" by (rule mset_eq_setD)
  have "mset (map ec_path ?cs) = mset (map ec_path (candidates env s keys))" by (simp only: mset_map mset)
  with dist have d: "distinct (map ec_path ?cs)" using mset_eq_imp_distinct_iff by blast
  have E': "E = filter (evictable s) ?cs" unfolding E evictable_def using tidy_kept [OF tidy] by simp
  have start: "evicting (record_files s \<union> all_cached s) s s" by (simp add: evicting_def world_keeps_def)
  have "\<forall>c \<in> set ?cs. ec_path c \<in> all_cached s \<and> map_of (w_blobs (tp_world s)) (ec_path c) \<noteq> None"
    unfolding set using candidates_present by blast
  from evict_loop_exact [OF tidy E' start assms(2) d this, of env "{}"]
  obtain n s' where loop: "torrent_evict_loop env bytes {} 0 ?cs s = (Inr (freed_by n E), s')" "n \<le> length E"
    "evicted_first n E (record_files s) s s'" "n = length E \<or> freed_by n E \<ge> bytes" "\<forall>m < n. freed_by m E < bytes" by auto
  have "torrent_Evict env keys bytes s = torrent_evict_loop env bytes {} 0 ?cs s"
    using assms(2) eviction_candidates_calm [OF nf, of env keys] by (simp add: torrent_Evict_def with_state_def bindE_def on_world_def)
  moreover have "sorted (map ec_lastAccessed E)"
    unfolding E sorted_map 
    by (rule sorted_wrt_filter, rule sorted_wrt_mono_rel [OF _ sorted_SliceStable]) (auto simp: weak_order_def)
  ultimately show ?thesis using loop by auto
qed

text \<open>Paths end as their last element does; so records, markers and media do not meet.\<close>

lemma Join_append_last: "\<exists>a. strings_Join (es @ [y]) sep = a @ y"
proof (induction es)
  case (Cons e es)
  then show ?case by (cases es) auto
qed simp

lemma Clean_last:
  assumes "split_on slash p = xs @ [y]" "plain_element y"
  shows "\<exists>a. Clean p = a @ y"
proof -
  have "clean_elements r (xs @ [y]) = clean_elements r xs @ [y]" for r using assms(2) by (simp add: clean_elements_def)
  moreover obtain a where "strings_Join (clean_elements (IsAbs p) xs @ [y]) ''/'' = a @ y" using Join_append_last by blast
  ultimately show ?thesis unfolding Clean_def Let_def assms(1) by (metis append_Cons append_assoc snoc_eq_iff_butlast)
qed

lemma Join_suffix:
  assumes "root \<noteq> ''''" "slash \<notin> set suf" "3 \<le> length suf"
  shows "\<exists>a. filepath_Join [root, b @ suf] = a @ suf"
proof -
  have "\<exists>xs y. split_on slash (b @ suf) = xs @ [y @ suf]"
    using assms(2)
  proof (induction b)
    case Nil
    then show ?case by (intro exI [of _ "[]"] exI [of _ "[]"]) simp
  next
    case (Cons c b)
    then obtain xs y where IH: "split_on slash (b @ suf) = xs @ [y @ suf]" by auto
    show ?case
    proof (cases "c = slash")
      case True
      with IH show ?thesis by (intro exI [of _ "[] # xs"] exI [of _ y]) simp
    next
      case False
      with IH show ?thesis by (cases xs) (auto intro: exI [of _ "[]"] exI [of _ "c # y"])
    qed
  qed
  then obtain xs y where split: "split_on slash (b @ suf) = xs @ [y @ suf]" by blast
  have "plain_element (y @ suf)"
  proof -
    have "slash \<notin> set (y @ suf)" using split split_on_no_sep by (metis in_set_conv_decomp)
    moreover have "length (y @ suf) > 2" using assms(3) by simp
    ultimately show ?thesis unfolding plain_element_def by (auto simp del: length_append)
  qed
  moreover have "split_on slash (root @ slash # b @ suf) = (split_on slash root @ xs) @ [y @ suf]"
    by (simp add: split_on_sep split)
  ultimately obtain a where "Clean (root @ slash # b @ suf) = a @ y @ suf" using Clean_last by blast
  then show ?thesis using assms(1) by (intro exI [of _ "a @ y"]) (simp add: filepath_Join_def)
qed

definition ends :: "string list \<Rightarrow> string \<Rightarrow> bool" where
  "ends sufs p \<longleftrightarrow> (\<exists>a. \<exists>suf \<in> set sufs. p = a @ suf)"

lemma record_files_end: "tp_metadataRoot s \<noteq> '''' \<Longrightarrow> p \<in> record_files s \<Longrightarrow> ends [''.json'', ''.tmp''] p"
proof -
  assume m: "tp_metadataRoot s \<noteq> ''''" and p: "p \<in> record_files s"
  have "downloadDirectory s \<noteq> ''''"
    using Join_suffix [OF m, of "''loads''" "''down''"] by (auto simp: downloadDirectory_def)
  then have "\<exists>a. downloadRecordPath s i = a @ ''.json''" for i
    unfolding downloadRecordPath_def by (rule Join_suffix) simp_all
  with p show ?thesis by (fastforce simp: record_files_def ends_def)
qed

lemma marker_end: "tp_metadataRoot s \<noteq> '''' \<Longrightarrow> ends [''.pinned''] (sourceMarkerPath s h ''pinned'')"
  using Join_suffix [of "tp_metadataRoot s" "''.pinned''" h] by (auto simp: sourceMarkerPath_def ends_def)

lemma ends_disjoint: "ends [x] p \<Longrightarrow> ends [y] p \<Longrightarrow> last x = last y \<or> x = '''' \<or> y = ''''"
  by (auto simp: ends_def) (metis last_appendR)

text \<open>A calm provider whose cached files have other endings is tidy.\<close>

lemma tidyI:
  assumes "w_faults (tp_world s) = []" "tp_metadataRoot s \<noteq> ''''"
    "\<And>file. file \<in> ran (tp_cacheFiles s) \<Longrightarrow> ends [''.mp3''] (cachePath (tp_dataRoot s) (cfl_infoHash file) (cfl_logicalPath file))"
  shows "tidy s"
proof -
  have last_ends: "last p \<in> last ` set sufs" if "ends sufs p" "'''' \<notin> set sufs" for sufs p
    using that by (auto simp: ends_def) (metis image_eqI last_appendR)
  have cached: "last p \<in> {CHR ''3'', CHR ''t''}" if "p \<in> all_cached s" for p
    using that last_ends [OF assms(3)] by (auto simp: all_cached_def cached_paths_def Let_def)
  have rec: "last p \<in> {CHR ''n'', CHR ''p''}" if "p \<in> record_files s" for p
    using last_ends [OF record_files_end [OF assms(2) that]] by simp
  have mark: "last (sourceMarkerPath s h ''pinned'') = CHR ''d''" for h
    using last_ends [OF marker_end [OF assms(2)]] by simp
  have "record_files s \<inter> all_cached s = {}" using cached rec by fastforce
  moreover have "sourceMarkerPath s h ''pinned'' \<notin> record_files s \<union> all_cached s" for h
    using cached rec mark by fastforce
  ultimately show ?thesis using assms(1) by (simp add: tidy_def)
qed

definition demo_cache :: torrent_state where
  "demo_cache = (NewStreaming ''/m'' ''/d'' 3 (empty_world\<lparr>w_blobs :=
      [(''/d/h/x/a.mp3'', ''abc'', 7), (''/d/h/x/b.mp3'', ''abcd'', 5), (''/d/g/c.mp3'', ''a'', 1), (''/m/g.pinned'', '''', 1)]\<rparr>))
    \<lparr>tp_cacheFiles := [''h/a'' \<mapsto> \<lparr>cfl_infoHash = ''h'', cfl_logicalPath = ''x/a.mp3''\<rparr>,
       ''h/b'' \<mapsto> \<lparr>cfl_infoHash = ''h'', cfl_logicalPath = ''x/b.mp3''\<rparr>, ''g/c'' \<mapsto> \<lparr>cfl_infoHash = ''g'', cfl_logicalPath = ''c.mp3''\<rparr>]\<rparr>"

lemma demo_cache_paths:
  "cachePath ''/d'' ''h'' ''x/a.mp3'' = ''/d/h/x/a.mp3''" "cachePath ''/d'' ''h'' ''x/b.mp3'' = ''/d/h/x/b.mp3''"
  "cachePath ''/d'' ''g'' ''c.mp3'' = ''/d/g/c.mp3''" "filepath_Join [''/m'', ''g.pinned''] = ''/m/g.pinned''"
  "filepath_Join [''/m'', ''h.pinned''] = ''/m/h.pinned''"
  by (simp_all add: cachePath_def filepath_Join_def Clean_def IsAbs_def HasPrefix_def clean_elements_def clean_push_def)

lemma demo_cache_sel:
  "tp_dataRoot demo_cache = ''/d''" "tp_metadataRoot demo_cache = ''/m''" "tp_active demo_cache h = 0"
  "w_faults (tp_world demo_cache) = []" "tp_lastAccessed demo_cache = Map.empty"
  by (simp_all add: demo_cache_def NewStreaming_def empty_world_def)

lemma demo_cache_tidy: "tidy demo_cache"
proof (rule tidyI)
  fix cf assume "cf \<in> ran (tp_cacheFiles demo_cache)"
  then have "cachePath ''/d'' (cfl_infoHash cf) (cfl_logicalPath cf) \<in> {''/d/h/x/a.mp3'', ''/d/h/x/b.mp3'', ''/d/g/c.mp3''}"
    by (auto simp: demo_cache_def NewStreaming_def demo_cache_paths ran_def split: if_splits)
  then show "ends [''.mp3''] (cachePath (tp_dataRoot demo_cache) (cfl_infoHash cf) (cfl_logicalPath cf))"
    unfolding demo_cache_sel ends_def
    by (elim insertE emptyE) (auto intro: exI [of _ "''/d/h/x/a''"] exI [of _ "''/d/h/x/b''"] exI [of _ "''/d/g/c''"])
qed (simp_all add: demo_cache_sel)

lemma demo_pinned: "pinned demo_cache ''g''" "\<not> pinned demo_cache ''h''"
  by (simp_all add: pinned_def sourceMarkerPath_def demo_cache_sel demo_cache_paths)
    (simp_all add: demo_cache_def NewStreaming_def)

lemma demo_candidates:
  "candidates (demo_torrent_env ''x'') demo_cache [''h/a'', ''h/b'', ''g/c''] =
   [\<lparr>ec_key = ''h/a'', ec_infoHash = ''h'', ec_path = ''/d/h/x/a.mp3'', ec_lastAccessed = 7, ec_size = 3\<rparr>,
    \<lparr>ec_key = ''h/b'', ec_infoHash = ''h'', ec_path = ''/d/h/x/b.mp3'', ec_lastAccessed = 5, ec_size = 4\<rparr>,
    \<lparr>ec_key = ''g/c'', ec_infoHash = ''g'', ec_path = ''/d/g/c.mp3'', ec_lastAccessed = 1, ec_size = 1\<rparr>]"
  by (simp add: candidates_def List.map_filter_simps demo_cache_def NewStreaming_def demo_cache_paths cached_file_def candidate_of_def
    demo_torrent_env_def)

text \<open>Four bytes are wanted: the older of the two files of the torrent that is not pinned goes.\<close>

theorem torrent_Evict_spec_witness:
  "\<exists>s'. torrent_Evict (demo_torrent_env ''x'') [''h/a'', ''h/b'', ''g/c''] 4 demo_cache = (Inr 4, s')
    \<and> map_of (w_blobs (tp_world s')) ''/d/h/x/b.mp3'' = None"
proof -
  let ?a = "\<lparr>ec_key = ''h/a'', ec_infoHash = ''h'', ec_path = ''/d/h/x/a.mp3'', ec_lastAccessed = 7, ec_size = 3\<rparr>"
    and ?b = "\<lparr>ec_key = ''h/b'', ec_infoHash = ''h'', ec_path = ''/d/h/x/b.mp3'', ec_lastAccessed = 5, ec_size = 4\<rparr>"
  let ?cs = "candidates (demo_torrent_env ''x'') demo_cache [''h/a'', ''h/b'', ''g/c'']"
  have E: "[?b, ?a] = filter (\<lambda>c. \<not> (tp_active demo_cache (ec_infoHash c) > 0 \<or> pinned demo_cache (ec_infoHash c))) (least_recent ?cs)"
    unfolding demo_candidates by (simp add: SliceStable_def demo_pinned demo_cache_sel)
  have "distinct (map ec_path ?cs)" unfolding demo_candidates by simp
  from torrent_Evict_spec [OF demo_cache_tidy _ this E, of 4] obtain n s' where
    run: "torrent_Evict (demo_torrent_env ''x'') [''h/a'', ''h/b'', ''g/c''] 4 demo_cache = (Inr (freed_by n [?b, ?a]), s')"
    and n: "n \<le> 2" "n = 2 \<or> freed_by n [?b, ?a] \<ge> 4" "\<forall>m < n. freed_by m [?b, ?a] < 4"
    and gone: "evicted_first n [?b, ?a] (record_files demo_cache) demo_cache s'" by auto
  have "n = 1"
  proof -
    have f: "freed_by 1 [?b, ?a] = 4" "freed_by 0 [?b, ?a] = 0" by (simp_all add: freed_by_def)
    have "n \<noteq> 0" by (rule notI) (use n(2) f(2) in simp)
    moreover have "n \<noteq> 2" by (rule notI) (use n(3) [rule_format, of 1] f(1) in simp)
    ultimately show ?thesis using n(1) by simp
  qed
  with run gone show ?thesis by (auto simp: freed_by_def evicted_first_def)
qed


end
