(* ===== verification/MagnetImports.thy ===== *)
theory MagnetImports
  imports GoPrelude
begin

text \<open>
  Asynchronous imports of magnet links, \<open>scanner/torrents/magnet_importer.go\<close> and
  \<open>core/domain/import.go\<close>. A job fetches the metadata of its link from peers, hands it to the importer of
  torrent files, and tries again while a scan is running. Jobs are kept in memory and in one file each. The
  operations under the lock are functions of the state; the goroutine of a job is a program counter, and
  the whole a transition system in which fetching, importing, writing files and cancellation happen at
  any time and with any result.
\<close>

section \<open>Jobs\<close>

datatype SourceImportState =
  SourceImportStateFetching | SourceImportStateScanning | SourceImportStateReady | SourceImportStateFailed

record SourceImport =
  si_ID :: string
  si_Provider :: string
  si_Name :: string
  si_SourceID :: string
  si_Tracks :: int
  si_State :: SourceImportState
  si_Error :: string
  si_CreatedAt :: time
  si_UpdatedAt :: time

record magnetImportRecord =
  mr_Import :: SourceImport
  mr_URI :: string

record SourceImportResult =
  sir_SourceID :: string
  sir_Name :: string
  sir_Tracks :: int

text \<open>What \<open>metainfo.ParseMagnetUri\<close> finds in a link.\<close>

record magnet =
  mg_InfoHash :: string
  mg_DisplayName :: string

text \<open>Where the goroutine of a job is: before its first look at the job, fetching, before \<open>setState\<close>, in the
  loop around \<open>Import\<close>, before \<open>complete\<close> or \<open>fail\<close>, and before the deferred removal from \<open>active\<close>.\<close>

datatype phase =
    Starting
  | Fetching string
  | Fetched string
  | Importing string
  | Completing SourceImportResult
  | Failing go_error
  | Leaving

record importer_state =
  im_jobs :: "string \<rightharpoonup> magnetImportRecord"
  im_files :: "string \<rightharpoonup> magnetImportRecord"
  im_active :: "string set"
  im_running :: "(string \<times> phase) list"
  im_cancelled :: bool

section \<open>Operations\<close>

text \<open>Writing the file of a job: a temporary file that is renamed, so that an error leaves the old file.\<close>

definition persistLocked :: "go_error option \<Rightarrow> magnetImportRecord \<Rightarrow> importer_state \<Rightarrow> importer_state" where
  "persistLocked err rec s =
    (case err of None \<Rightarrow> s\<lparr>im_files := (im_files s)(si_ID (mr_Import rec) \<mapsto> rec)\<rparr> | Some _ \<Rightarrow> s)"

definition startLocked :: "string \<Rightarrow> importer_state \<Rightarrow> importer_state" where
  "startLocked i s =
    (if i \<in> im_active s then s
     else s\<lparr>im_active := insert i (im_active s), im_running := im_running s @ [(i, Starting)]\<rparr>)"

definition import_new ::
  "string \<Rightarrow> string \<Rightarrow> magnet \<Rightarrow> time \<Rightarrow> go_error option \<Rightarrow> time \<Rightarrow> importer_state \<Rightarrow> SourceImport result \<times> importer_state" where
  "import_new i uri m now writeErr createdAt s =
    (let rec = \<lparr>mr_Import = \<lparr>si_ID = i, si_Provider = ''torrent'', si_Name = TrimSpace (mg_DisplayName m), si_SourceID = i,
                  si_Tracks = 0, si_State = SourceImportStateFetching, si_Error = '''', si_CreatedAt = createdAt,
                  si_UpdatedAt = now\<rparr>, mr_URI = uri\<rparr>;
         s1 = s\<lparr>im_jobs := (im_jobs s)(i \<mapsto> rec)\<rparr>
     in case writeErr of
          Some err \<Rightarrow> (Inl err, s1\<lparr>im_jobs := (im_jobs s1)(i := None)\<rparr>)
        | None \<Rightarrow> (Inr (mr_Import rec), startLocked i (persistLocked None rec s1)))"

definition ImportURI ::
  "(string \<Rightarrow> magnet result) \<Rightarrow> go_error option \<Rightarrow> time \<Rightarrow> go_error option \<Rightarrow> string \<Rightarrow> importer_state
     \<Rightarrow> SourceImport result \<times> importer_state" where
  "ImportURI ParseMagnetUri ctxErr now writeErr uri0 s =
    (case ctxErr of Some err \<Rightarrow> (Inl err, s) | None \<Rightarrow>
     let uri = TrimSpace uri0 in
     (case ParseMagnetUri uri of Inl err \<Rightarrow> (Inl (Wrap ''parse magnet URI'' err), s)
      | Inr m \<Rightarrow>
        let i = mg_InfoHash m in
        (case im_jobs s i of
           None \<Rightarrow> import_new i uri m now writeErr now s
         | Some existing \<Rightarrow>
             if si_State (mr_Import existing) \<noteq> SourceImportStateFailed then (Inr (mr_Import existing), s)
             else import_new i uri m now writeErr
               (if \<not> IsZero (si_CreatedAt (mr_Import existing)) then si_CreatedAt (mr_Import existing) else now) s)))"

definition update_job :: "string \<Rightarrow> (SourceImport \<Rightarrow> SourceImport) \<Rightarrow> go_error option \<Rightarrow> importer_state
    \<Rightarrow> unit result \<times> importer_state" where
  "update_job i f writeErr s =
    (case im_jobs s i of
       None \<Rightarrow> (Inl ErrNotFound, s)
     | Some rec0 \<Rightarrow>
         let rec = rec0\<lparr>mr_Import := f (mr_Import rec0)\<rparr>;
             s1 = persistLocked writeErr rec (s\<lparr>im_jobs := (im_jobs s)(i \<mapsto> rec)\<rparr>)
         in ((case writeErr of None \<Rightarrow> Inr () | Some err \<Rightarrow> Inl err), s1))"

definition setState ::
  "string \<Rightarrow> SourceImportState \<Rightarrow> time \<Rightarrow> go_error option \<Rightarrow> importer_state \<Rightarrow> unit result \<times> importer_state" where
  "setState i state now = update_job i (\<lambda>j. j\<lparr>si_State := state, si_Error := '''', si_UpdatedAt := now\<rparr>)"

definition import_complete ::
  "string \<Rightarrow> SourceImportResult \<Rightarrow> time \<Rightarrow> go_error option \<Rightarrow> importer_state \<Rightarrow> importer_state" where
  "import_complete i res now writeErr s = snd (update_job i (\<lambda>j. j\<lparr>si_State := SourceImportStateReady, si_Error := '''',
     si_SourceID := sir_SourceID res, si_Name := sir_Name res, si_Tracks := sir_Tracks res, si_UpdatedAt := now\<rparr>) writeErr s)"

definition import_fail ::
  "(go_error \<Rightarrow> string) \<Rightarrow> string \<Rightarrow> go_error \<Rightarrow> time \<Rightarrow> go_error option \<Rightarrow> importer_state \<Rightarrow> importer_state" where
  "import_fail Error i cause now writeErr s = snd (update_job i (\<lambda>j. j\<lparr>si_State := SourceImportStateFailed,
     si_Error := Error cause, si_UpdatedAt := now\<rparr>) writeErr s)"

text \<open>The list of imports, newest change first; \<open>ids\<close> are the keys of the map in the order in which Go visits them.\<close>

definition import_lt :: "SourceImport \<Rightarrow> SourceImport \<Rightarrow> bool" where
  "import_lt a b = (if si_UpdatedAt a = si_UpdatedAt b then si_ID a < si_ID b else si_UpdatedAt a > si_UpdatedAt b)"

definition SourceImports :: "go_error option \<Rightarrow> string list \<Rightarrow> importer_state \<Rightarrow> SourceImport list result" where
  "SourceImports ctxErr ids s =
    (case (ctxErr, ids) of
       (Some err, _ # _) \<Rightarrow> Inl err
     | _ \<Rightarrow> Inr (SliceStable import_lt (map mr_Import (List.map_filter (im_jobs s) ids))))"

subsection \<open>Start\<close>

record job_entry =
  je_IsDir :: bool
  je_Ext :: string
  je_Contents :: "string result"

text \<open>\<open>load\<close>: an unreadable or incomplete file is an error. \<open>json\<close> decodes a file.\<close>

fun load_jobs ::
  "(string \<Rightarrow> magnetImportRecord result) \<Rightarrow> job_entry list \<Rightarrow> (string \<rightharpoonup> magnetImportRecord) \<Rightarrow> (string \<rightharpoonup> magnetImportRecord) result"
where
  "load_jobs json [] jobs = Inr jobs"
| "load_jobs json (e # es) jobs =
    (if je_IsDir e \<or> je_Ext e \<noteq> ''.json'' then load_jobs json es jobs
     else case je_Contents e of
       Inl err \<Rightarrow> Inl (Wrap ''read magnet import job'' err)
     | Inr contents \<Rightarrow> (case json contents of
         Inl err \<Rightarrow> Inl (Wrap ''decode magnet import job'' err)
       | Inr rec \<Rightarrow>
           if si_ID (mr_Import rec) = '''' \<or> mr_URI rec = '''' then Inl (Errorf ''magnet import job is incomplete'')
           else load_jobs json es (jobs(si_ID (mr_Import rec) \<mapsto> rec))))"

definition open_state :: "SourceImportState \<Rightarrow> bool" where
  "open_state st \<longleftrightarrow> st = SourceImportStateFetching \<or> st = SourceImportStateScanning"

definition unfinished :: "importer_state \<Rightarrow> string \<Rightarrow> bool" where
  "unfinished s i \<longleftrightarrow> (case im_jobs s i of None \<Rightarrow> False | Some rec \<Rightarrow> open_state (si_State (mr_Import rec)))"

text \<open>The unfinished jobs are resumed, in the order \<open>ids\<close> in which Go visits the keys of the map.\<close>

definition loaded_state :: "(string \<rightharpoonup> magnetImportRecord) \<Rightarrow> importer_state" where
  "loaded_state jobs = \<lparr>im_jobs = jobs, im_files = jobs, im_active = {}, im_running = [], im_cancelled = False\<rparr>"

definition NewMagnetImporter ::
  "(string \<Rightarrow> magnetImportRecord result) \<Rightarrow> string list \<Rightarrow> job_entry list \<Rightarrow> importer_state result" where
  "NewMagnetImporter json ids entries =
    (case load_jobs json entries Map.empty of Inl err \<Rightarrow> Inl err | Inr jobs \<Rightarrow>
       Inr (fold (\<lambda>i s. if unfinished s i then startLocked i s else s) ids (loaded_state jobs)))"

section \<open>Interleavings\<close>

definition set_phase :: "string \<Rightarrow> phase \<Rightarrow> importer_state \<Rightarrow> importer_state" where
  "set_phase i p s = s\<lparr>im_running := map (\<lambda>x. if fst x = i then (i, p) else x) (im_running s)\<rparr>"

datatype import_event = Requested string | Cancel | Worked string

inductive import_step ::
  "(go_error \<Rightarrow> string) \<Rightarrow> (string \<Rightarrow> magnet result) \<Rightarrow> importer_state \<Rightarrow> import_event \<Rightarrow> importer_state \<Rightarrow> bool"
  for Error :: "go_error \<Rightarrow> string" and parse :: "string \<Rightarrow> magnet result"
where
  requested: "ImportURI parse ctxErr now writeErr uri s = (r, s') \<Longrightarrow> import_step Error parse s (Requested uri) s'"
| cancel: "import_step Error parse s Cancel (s\<lparr>im_cancelled := True\<rparr>)"
| started: "(i, Starting) \<in> set (im_running s) \<Longrightarrow> im_jobs s i = Some rec \<Longrightarrow>
    import_step Error parse s (Worked i) (set_phase i (Fetching (mr_URI rec)) s)"
| no_job: "(i, Starting) \<in> set (im_running s) \<Longrightarrow> im_jobs s i = None \<Longrightarrow>
    import_step Error parse s (Worked i) (set_phase i Leaving s)"
| fetched: "(i, Fetching uri) \<in> set (im_running s) \<Longrightarrow>
    import_step Error parse s (Worked i) (set_phase i (Fetched contents) s)"
| fetch_cancelled: "(i, Fetching uri) \<in> set (im_running s) \<Longrightarrow> im_cancelled s \<Longrightarrow>
    import_step Error parse s (Worked i) (set_phase i Leaving s)"
| fetch_failed: "(i, Fetching uri) \<in> set (im_running s) \<Longrightarrow> \<not> im_cancelled s \<Longrightarrow>
    import_step Error parse s (Worked i) (set_phase i (Failing (Wrap ''fetch torrent metadata'' err)) s)"
| scanning: "(i, Fetched contents) \<in> set (im_running s) \<Longrightarrow>
    setState i SourceImportStateScanning now writeErr s = (Inr (), s') \<Longrightarrow>
    import_step Error parse s (Worked i) (set_phase i (Importing contents) s')"
| not_scanning: "(i, Fetched contents) \<in> set (im_running s) \<Longrightarrow>
    setState i SourceImportStateScanning now writeErr s = (Inl err, s') \<Longrightarrow>
    import_step Error parse s (Worked i) (set_phase i (Failing err) s')"
| imported: "(i, Importing contents) \<in> set (im_running s) \<Longrightarrow>
    import_step Error parse s (Worked i) (set_phase i (Completing res) s)"
| import_cancelled: "(i, Importing contents) \<in> set (im_running s) \<Longrightarrow> im_cancelled s \<Longrightarrow>
    import_step Error parse s (Worked i) (set_phase i Leaving s)"
| import_retry: "(i, Importing contents) \<in> set (im_running s) \<Longrightarrow> import_step Error parse s (Worked i) s"
| import_failed: "(i, Importing contents) \<in> set (im_running s) \<Longrightarrow> \<not> im_cancelled s \<Longrightarrow> \<not> errors_Is err ErrScanInProgress \<Longrightarrow>
    import_step Error parse s (Worked i) (set_phase i (Failing (Wrap ''import fetched torrent metadata'' err)) s)"
| completed: "(i, Completing res) \<in> set (im_running s) \<Longrightarrow>
    import_step Error parse s (Worked i) (set_phase i Leaving (import_complete i res now writeErr s))"
| failed: "(i, Failing cause) \<in> set (im_running s) \<Longrightarrow>
    import_step Error parse s (Worked i) (set_phase i Leaving (import_fail Error i cause now writeErr s))"
| left: "(i, Leaving) \<in> set (im_running s) \<Longrightarrow>
    import_step Error parse s (Worked i)
      (s\<lparr>im_active := im_active s - {i}, im_running := filter (\<lambda>x. fst x \<noteq> i) (im_running s)\<rparr>)"

inductive import_reachable :: "(go_error \<Rightarrow> string) \<Rightarrow> (string \<Rightarrow> magnet result) \<Rightarrow> importer_state \<Rightarrow> bool"
  for Error :: "go_error \<Rightarrow> string" and parse :: "string \<Rightarrow> magnet result"
where
  start: "NewMagnetImporter json ids entries = Inr s \<Longrightarrow> dom (im_jobs s) = set ids \<Longrightarrow> import_reachable Error parse s"
| step: "import_reachable Error parse s \<Longrightarrow> import_step Error parse s e s' \<Longrightarrow> import_reachable Error parse s'"

inductive_cases left_cases: "import_step Error parse s (Worked i) s'"

section \<open>Invariant\<close>

text \<open>What the job of a goroutine looks like while it is at work.\<close>

fun phase_ok :: "phase \<Rightarrow> SourceImportState \<Rightarrow> bool" where
  "phase_ok Starting st = open_state st"
| "phase_ok (Fetching _) st = open_state st"
| "phase_ok (Fetched _) st = open_state st"
| "phase_ok (Importing _) st = (st = SourceImportStateScanning)"
| "phase_ok (Completing _) st = (st = SourceImportStateScanning)"
| "phase_ok (Failing _) st = open_state st"
| "phase_ok Leaving st = True"

definition working :: "importer_state \<Rightarrow> string \<Rightarrow> bool" where
  "working s i \<longleftrightarrow> (\<exists>p. (i, p) \<in> set (im_running s) \<and> p \<noteq> Leaving)"

definition job_state :: "importer_state \<Rightarrow> string \<Rightarrow> SourceImportState option" where
  "job_state s i = map_option (\<lambda>rec. si_State (mr_Import rec)) (im_jobs s i)"

definition import_inv :: "importer_state \<Rightarrow> bool" where
  "import_inv s \<longleftrightarrow> distinct (map fst (im_running s)) \<and> im_active s = fst ` set (im_running s)
    \<and> (\<forall>(i, p) \<in> set (im_running s). p \<noteq> Leaving \<longrightarrow> (\<exists>st. job_state s i = Some st \<and> phase_ok p st))"

lemma unfinished_iff: "unfinished s i \<longleftrightarrow> (\<exists>st. job_state s i = Some st \<and> open_state st)"
  by (auto simp: unfinished_def job_state_def split: option.splits)

lemma map_fst_set_phase [simp]: "map fst (im_running (set_phase i p s)) = map fst (im_running s)"
  by (simp add: set_phase_def comp_def if_distrib cong: if_cong)

lemma set_phase_sel [simp]:
  "im_jobs (set_phase i p s) = im_jobs s" "im_active (set_phase i p s) = im_active s"
  "job_state (set_phase i p s) = job_state s" "im_cancelled (set_phase i p s) = im_cancelled s"
  by (simp_all add: set_phase_def job_state_def fun_eq_iff)

lemma set_running_set_phase:
  "distinct (map fst (im_running s)) \<Longrightarrow> (i, q) \<in> set (im_running s) \<Longrightarrow>
   set (im_running (set_phase i p s)) = insert (i, p) {x \<in> set (im_running s). fst x \<noteq> i}"
  by (auto simp: set_phase_def rev_image_eqI)

lemma one_phase:
  "distinct (map fst (im_running s)) \<Longrightarrow> (i, p) \<in> set (im_running s) \<Longrightarrow> (i, q) \<in> set (im_running s) \<Longrightarrow> p = q"
  by (metis eq_key_imp_eq_value)

lemma fst_image_filter: "fst ` {x \<in> A. fst x \<noteq> i} = fst ` A - {i}"
  by auto

text \<open>A goroutine that moves on keeps the invariant if the job fits its new phase and the other jobs stay.\<close>

lemma import_inv_phase:
  assumes "import_inv s" "(i, q) \<in> set (im_running s)" "im_running s' = im_running s" "im_active s' = im_active s"
    "\<And>j. j \<noteq> i \<Longrightarrow> job_state s' j = job_state s j"
    "p \<noteq> Leaving \<Longrightarrow> \<exists>st. job_state s' i = Some st \<and> phase_ok p st"
  shows "import_inv (set_phase i p s')"
proof -
  have d: "distinct (map fst (im_running s'))" "(i, q) \<in> set (im_running s')" using assms by (auto simp: import_inv_def)
  show ?thesis using assms d(2) image_eqI [OF _ d(2), of i fst]
    by (auto simp: import_inv_def set_running_set_phase [OF d] fst_image_filter simp flip: set_map)
qed

lemma update_job_sel:
  assumes "update_job i f writeErr s = (r, s')"
  shows "im_running s' = im_running s" "im_active s' = im_active s" "im_cancelled s' = im_cancelled s"
    "j \<noteq> i \<Longrightarrow> im_jobs s' j = im_jobs s j"
    "im_jobs s' i = map_option (\<lambda>rec. rec\<lparr>mr_Import := f (mr_Import rec)\<rparr>) (im_jobs s i)"
  using assms by (auto simp: update_job_def persistLocked_def Let_def split: option.splits)

lemma import_end_sel:
  "im_running (import_complete i res now writeErr s) = im_running s" "im_active (import_complete i res now writeErr s) = im_active s"
  "j \<noteq> i \<Longrightarrow> im_jobs (import_complete i res now writeErr s) j = im_jobs s j"
  "im_running (import_fail Error i cause now writeErr s) = im_running s" "im_active (import_fail Error i cause now writeErr s) = im_active s"
  "j \<noteq> i \<Longrightarrow> im_jobs (import_fail Error i cause now writeErr s) j = im_jobs s j"
  by (auto simp: import_complete_def import_fail_def update_job_def persistLocked_def Let_def split: option.split)

lemma job_state_cong: "im_jobs s' j = im_jobs s j \<Longrightarrow> job_state s' j = job_state s j"
  by (simp add: job_state_def)

text \<open>A goroutine at work writes to its job.\<close>

lemma import_inv_update:
  assumes "import_inv s" "(i, q) \<in> set (im_running s)" "q \<noteq> Leaving" "update_job i f writeErr s = (r, s')"
    "\<And>j. si_State (f j) = st'" "p = Leaving \<or> phase_ok p st'"
  shows "import_inv (set_phase i p s')"
proof (rule import_inv_phase [OF assms(1,2) update_job_sel(1,2) [OF assms(4)]])
  show "job_state s' j = job_state s j" if "j \<noteq> i" for j
    by (rule job_state_cong) (rule update_job_sel(4) [OF assms(4) that])
  obtain st where "job_state s i = Some st" using assms(1,2,3) by (fastforce simp: import_inv_def)
  then show "\<exists>st. job_state s' i = Some st \<and> phase_ok p st" if "p \<noteq> Leaving"
    using that assms(5,6) update_job_sel(5) [OF assms(4)] by (auto simp: job_state_def)
qed

lemma import_inv_move:
  assumes "import_inv s" "(i, q) \<in> set (im_running s)" "q \<noteq> Leaving" "\<And>st. phase_ok q st \<Longrightarrow> phase_ok p st"
  shows "import_inv (set_phase i p s)"
proof (rule import_inv_phase [OF assms(1,2) refl refl refl])
  show "\<exists>st. job_state s i = Some st \<and> phase_ok p st" using assms by (fastforce simp: import_inv_def)
qed

text \<open>A request for a new or failed job: no goroutine is at work for it.\<close>

lemma not_working:
  "import_inv s \<Longrightarrow> \<not> unfinished s i \<Longrightarrow> (i, p) \<in> set (im_running s) \<Longrightarrow> p = Leaving"
proof (rule ccontr)
  assume a: "import_inv s" "\<not> unfinished s i" "(i, p) \<in> set (im_running s)" "p \<noteq> Leaving"
  then obtain st where "job_state s i = Some st" "phase_ok p st" by (fastforce simp: import_inv_def)
  with a(2,4) show False by (cases p) (auto simp: unfinished_iff open_state_def)
qed

lemma import_new_sel:
  assumes "import_new i uri m now writeErr createdAt s = (r, s')"
  shows "j \<noteq> i \<Longrightarrow> im_jobs s' j = im_jobs s j" "im_cancelled s' = im_cancelled s"
    "writeErr \<noteq> None \<Longrightarrow> im_jobs s' i = None \<and> im_running s' = im_running s \<and> im_active s' = im_active s"
    "writeErr = None \<Longrightarrow> job_state s' i = Some SourceImportStateFetching
       \<and> (if i \<in> im_active s then im_running s' = im_running s \<and> im_active s' = im_active s
          else im_running s' = im_running s @ [(i, Starting)] \<and> im_active s' = insert i (im_active s))"
  using assms
  by (auto simp: import_new_def persistLocked_def startLocked_def Let_def job_state_def split: option.splits if_splits)

lemma import_inv_new:
  assumes inv: "import_inv s" and idle: "\<not> unfinished s i" and new: "import_new i uri m now writeErr createdAt s = (r, s')"
  shows "import_inv s'"
proof -
  have leaving: "p = Leaving" if "(i, p) \<in> set (im_running s)" for p using not_working [OF inv idle that] .
  have other: "job_state s' j = job_state s j" if "j \<noteq> i" for j
    by (rule job_state_cong) (rule import_new_sel(1) [OF new that])
  have old: "\<exists>st. job_state s' j = Some st \<and> phase_ok p st" if "(j, p) \<in> set (im_running s)" "p \<noteq> Leaving" for j p
  proof -
    have "j \<noteq> i" using that leaving by auto
    then show ?thesis using inv that other by (fastforce simp: import_inv_def)
  qed
  show ?thesis
  proof (cases writeErr)
    case (Some e)
    then show ?thesis using import_new_sel(3) [OF new] inv old by (auto simp: import_inv_def)
  next
    case None
    then show ?thesis using import_new_sel(4) [OF new None] inv old
      by (cases "i \<in> im_active s") (auto simp: import_inv_def open_state_def)
  qed
qed

lemma ImportURI_cases:
  assumes "ImportURI parse ctxErr now writeErr uri s = (r, s')"
  obtains "s' = s" | i m createdAt where "\<not> unfinished s i" "parse (TrimSpace uri) = Inr m" "i = mg_InfoHash m"
    "import_new i (TrimSpace uri) m now writeErr createdAt s = (r, s')"
proof -
  have st: "\<not> unfinished s i" if "im_jobs s i = Some existing" "si_State (mr_Import existing) = SourceImportStateFailed" for i existing
    using that by (simp add: unfinished_def open_state_def)
  have none: "\<not> unfinished s i" if "im_jobs s i = None" for i using that by (simp add: unfinished_def)
  show thesis
  proof (cases ctxErr)
    case None
    show thesis
    proof (cases "parse (TrimSpace uri)")
      case (Inr m)
      show thesis
      proof (cases "im_jobs s (mg_InfoHash m)")
        case None
        with assms \<open>ctxErr = None\<close> Inr that(2) none show thesis by (auto simp: ImportURI_def Let_def)
      next
        case (Some existing)
        show thesis
        proof (cases "si_State (mr_Import existing) = SourceImportStateFailed")
          case True
          from assms \<open>ctxErr = None\<close> Inr Some True show thesis
            by (intro that(2) [OF st [OF Some True] Inr refl]) (simp add: ImportURI_def Let_def)
        next
          case False
          with assms \<open>ctxErr = None\<close> Inr Some show thesis by (intro that(1)) (simp add: ImportURI_def Let_def)
        qed
      qed
    qed (use assms None that(1) in \<open>simp add: ImportURI_def Let_def\<close>)
  qed (use assms that(1) in \<open>simp add: ImportURI_def\<close>)
qed

lemma import_step_inv:
  assumes inv: "import_inv s" and step: "import_step Error parse s e s'"
  shows "import_inv s'"
  using step
proof cases
  case (requested ctxErr now writeErr uri r)
  from requested(2) show ?thesis by (rule ImportURI_cases) (auto intro: import_inv_new [OF inv] simp: inv)
next
  case (scanning i contents now writeErr s1)
  then show ?thesis using import_inv_update [OF inv scanning(3) _ scanning(4) [unfolded setState_def]] by simp
next
  case (not_scanning i contents now writeErr err s1)
  then show ?thesis using import_inv_update [OF inv not_scanning(3) _ not_scanning(4) [unfolded setState_def]]
    by (simp add: open_state_def)
next
  case (completed i res now writeErr)
  show ?thesis unfolding completed(2) import_complete_def
    by (rule import_inv_update [OF inv completed(3) _ surjective_pairing]) auto
next
  case (failed i cause now writeErr)
  show ?thesis unfolding failed(2) import_fail_def
    by (rule import_inv_update [OF inv failed(3) _ surjective_pairing]) auto
next
  case (left i)
  then show ?thesis using inv by (auto simp: import_inv_def job_state_def fst_image_filter distinct_map_filter)
next
  case cancel
  then show ?thesis using inv by (simp add: import_inv_def job_state_def)
qed (auto intro!: import_inv_move [OF inv] simp: open_state_def inv)

lemma NewMagnetImporter_inv:
  assumes "NewMagnetImporter json ids entries = Inr s"
  shows "import_inv s"
proof -
  have "import_inv (fold (\<lambda>i s. if unfinished s i then startLocked i s else s) ids s)" if "import_inv s" for s
    using that
  proof (induction ids arbitrary: s)
    case (Cons i ids)
    have "import_inv (startLocked i s)" if "unfinished s i"
      using that Cons.prems by (auto simp: startLocked_def import_inv_def unfinished_iff job_state_def)
    with Cons show ?case by simp
  qed simp
  moreover have "import_inv (loaded_state jobs)" for jobs by (simp add: loaded_state_def import_inv_def)
  ultimately show ?thesis using assms by (auto simp: NewMagnetImporter_def split: sum.splits)
qed

text \<open>A restart resumes every unfinished job.\<close>

lemma unfinished_cong: "im_jobs s' = im_jobs s \<Longrightarrow> unfinished s' i = unfinished s i"
  by (simp add: unfinished_def)

lemma resume_working:
  "unfinished (fold (\<lambda>i s. if unfinished s i then startLocked i s else s) ids s) j \<Longrightarrow> j \<in> set ids \<Longrightarrow>
   j \<in> im_active (fold (\<lambda>i s. if unfinished s i then startLocked i s else s) ids s)"
proof (induction ids arbitrary: s)
  case (Cons i ids)
  have jobs: "im_jobs (fold (\<lambda>i s. if unfinished s i then startLocked i s else s) ids s) = im_jobs s" for ids s
    by (induction ids arbitrary: s) (auto simp: startLocked_def)
  have keep: "j \<in> im_active s \<Longrightarrow> j \<in> im_active (fold (\<lambda>i s. if unfinished s i then startLocked i s else s) ids s)" for s
    by (induction ids arbitrary: s) (auto simp: startLocked_def)
  show ?case
  proof (cases "j = i")
    case True
    have "unfinished s i" using Cons.prems(1) unfinished_cong [OF jobs [of "i # ids" s], of i] True by simp
    then show ?thesis using keep True by (simp add: startLocked_def)
  next
    case False
    then show ?thesis using Cons by simp
  qed
qed simp

lemma NewMagnetImporter_resumes:
  "NewMagnetImporter json ids entries = Inr s \<Longrightarrow> dom (im_jobs s) = set ids \<Longrightarrow> unfinished s i \<Longrightarrow> i \<in> im_active s"
  by (auto simp: NewMagnetImporter_def unfinished_def split: sum.splits option.splits
    intro!: resume_working [unfolded unfinished_def])

lemma import_reachable_inv: "import_reachable Error parse s \<Longrightarrow> import_inv s"
  by (induction rule: import_reachable.induct) (auto intro: NewMagnetImporter_inv import_step_inv)

section \<open>Jobs nobody works on\<close>

lemma running_active: "import_inv s \<Longrightarrow> (j, p) \<in> set (im_running s) \<Longrightarrow> j \<in> im_active s"
  unfolding import_inv_def by (metis fst_conv image_eqI)

text \<open>A step of one goroutine concerns its own job only.\<close>

definition only_own :: "string \<Rightarrow> importer_state \<Rightarrow> importer_state \<Rightarrow> bool" where
  "only_own j s s' \<longleftrightarrow> j \<in> im_active s \<and> (\<forall>i. i \<noteq> j \<longrightarrow> im_jobs s' i = im_jobs s i
     \<and> (working s' i \<longleftrightarrow> working s i) \<and> (i \<in> im_active s' \<longleftrightarrow> i \<in> im_active s))"

lemma working_set_phase:
  assumes "import_inv s" "(i, q) \<in> set (im_running s)" "im_running s' = im_running s"
  shows "working (set_phase i p s') j \<longleftrightarrow> (if j = i then p \<noteq> Leaving else working s j)"
proof -
  have d: "distinct (map fst (im_running s'))" "(i, q) \<in> set (im_running s')" using assms by (auto simp: import_inv_def)
  show ?thesis unfolding working_def set_running_set_phase [OF d] using assms(3) by auto
qed

lemma only_own_phase:
  assumes "import_inv s" "(j, q) \<in> set (im_running s)" "im_running s' = im_running s" "im_active s' = im_active s"
    "\<And>i. i \<noteq> j \<Longrightarrow> im_jobs s' i = im_jobs s i"
  shows "only_own j s (set_phase j p s')"
proof -
  have "j \<in> im_active s" by (rule running_active [OF assms(1,2)])
  then show ?thesis using working_set_phase [OF assms(1,2,3)] assms(4,5) by (simp add: only_own_def)
qed

lemma worked_own:
  assumes inv: "import_inv s" and step: "import_step Error parse s (Worked j) s'"
  shows "only_own j s s'"
  using step
proof cases
  case (scanning contents now writeErr s1)
  note sel = update_job_sel [OF scanning(3) [unfolded setState_def]]
  show ?thesis unfolding scanning(1)
    by (rule only_own_phase [OF inv scanning(2) sel(1,2)]) (rule sel(4))
next
  case (not_scanning contents now writeErr err s1)
  note sel = update_job_sel [OF not_scanning(3) [unfolded setState_def]]
  show ?thesis unfolding not_scanning(1)
    by (rule only_own_phase [OF inv not_scanning(2) sel(1,2)]) (rule sel(4))
next
  case (completed res now writeErr)
  show ?thesis unfolding completed(1) by (rule only_own_phase [OF inv completed(2)]) (simp_all add: import_end_sel)
next
  case (failed cause now writeErr)
  show ?thesis unfolding failed(1) by (rule only_own_phase [OF inv failed(2)]) (simp_all add: import_end_sel)
next
  case left
  have "j \<in> im_active s" by (rule running_active [OF inv left(2)])
  with left(1) show ?thesis by (simp add: only_own_def working_def)
next
  case (import_retry contents)
  have "j \<in> im_active s" by (rule running_active [OF inv import_retry(2)])
  with import_retry(1) show ?thesis by (simp add: only_own_def)
next
  case (started rec)
  show ?thesis unfolding started(1) by (rule only_own_phase [OF inv started(2)]) simp_all
next
  case no_job
  show ?thesis unfolding no_job(1) by (rule only_own_phase [OF inv no_job(2)]) simp_all
next
  case (fetched uri contents)
  show ?thesis unfolding fetched(1) by (rule only_own_phase [OF inv fetched(2)]) simp_all
next
  case (fetch_cancelled uri)
  show ?thesis unfolding fetch_cancelled(1) by (rule only_own_phase [OF inv fetch_cancelled(2)]) simp_all
next
  case (fetch_failed uri err)
  show ?thesis unfolding fetch_failed(1) by (rule only_own_phase [OF inv fetch_failed(2)]) simp_all
next
  case (imported contents res)
  show ?thesis unfolding imported(1) by (rule only_own_phase [OF inv imported(2)]) simp_all
next
  case (import_cancelled contents)
  show ?thesis unfolding import_cancelled(1) by (rule only_own_phase [OF inv import_cancelled(2)]) simp_all
next
  case (import_failed contents err)
  show ?thesis unfolding import_failed(1) by (rule only_own_phase [OF inv import_failed(2)]) simp_all
qed

text \<open>A goroutine gives up an unfinished job only when the importer is closed.\<close>

lemma end_state:
  "\<not> unfinished (import_complete i res now writeErr s) i" "\<not> unfinished (import_fail Error i cause now writeErr s) i"
  by (auto simp: import_complete_def import_fail_def update_job_def persistLocked_def unfinished_def open_state_def Let_def
    split: option.split)

lemma worked_orphan:
  assumes inv: "import_inv s" and step: "import_step Error parse s (Worked j) s'"
    and orphan: "unfinished s' j" "\<not> working s' j" "working s j \<or> \<not> unfinished s j"
  shows "im_cancelled s"
  using step
proof cases
  case (no_job)
  with orphan(1) show ?thesis by (simp add: unfinished_def)
next
  case (completed res now writeErr)
  then show ?thesis using orphan(1) end_state(1) by (simp add: unfinished_def)
next
  case (failed cause now writeErr)
  then show ?thesis using orphan(1) end_state(2) by (simp add: unfinished_def)
next
  case left
  have "\<not> working s j"
    using one_phase [OF _ left(2)] inv by (auto simp: working_def import_inv_def)
  with orphan left(1) show ?thesis by (simp add: unfinished_def)
next
  case (import_retry contents)
  with orphan show ?thesis by simp
next
  case (scanning contents now writeErr s1)
  with orphan(2) working_set_phase [OF inv scanning(2) update_job_sel(1) [OF scanning(3) [unfolded setState_def]]]
  show ?thesis by simp
next
  case (not_scanning contents now writeErr err s1)
  with orphan(2) working_set_phase [OF inv not_scanning(2) update_job_sel(1) [OF not_scanning(3) [unfolded setState_def]]]
  show ?thesis by simp
qed (use orphan(2) working_set_phase [OF inv _ refl] in auto)

text \<open>An unfinished job without a goroutine stays as it is: requests find it unfinished and start nothing.\<close>

lemma orphan_stays:
  assumes inv: "import_inv s" and "unfinished s i" "i \<notin> im_active s" and step: "import_step Error parse s e s'"
  shows "im_jobs s' i = im_jobs s i \<and> i \<notin> im_active s'"
proof (cases e)
  case (Requested uri)
  from step [unfolded Requested] obtain ctxErr now writeErr r where "ImportURI parse ctxErr now writeErr uri s = (r, s')"
    by (auto elim: import_step.cases)
  then show ?thesis
  proof (rule ImportURI_cases)
    fix k m createdAt assume k: "\<not> unfinished s k" "import_new k (TrimSpace uri) m now writeErr createdAt s = (r, s')"
    then have ki: "i \<noteq> k" using assms(2) by auto
    have "im_active s' \<subseteq> insert k (im_active s)"
      using import_new_sel(3,4) [OF k(2)] by (cases writeErr) (auto split: if_splits)
    with ki assms(3) import_new_sel(1) [OF k(2) ki] show ?thesis by auto
  qed (simp add: assms)
next
  case Cancel
  with step have "s' = s\<lparr>im_cancelled := True\<rparr>" by (auto elim: import_step.cases)
  with assms(3) show ?thesis by simp
next
  case (Worked j)
  with worked_own [OF inv step [unfolded Worked]] assms(3) show ?thesis by (auto simp: only_own_def)
qed

lemma orphan_forever:
  assumes "(\<lambda>a b. \<exists>e. import_step Error parse a e b)\<^sup>*\<^sup>* s s'" "import_inv s" "unfinished s i" "i \<notin> im_active s"
  shows "im_jobs s' i = im_jobs s i \<and> i \<notin> im_active s' \<and> import_inv s'"
  using assms(1)
proof (induction rule: rtranclp_induct)
  case (step b c)
  then obtain e where e: "import_step Error parse b e c" by blast
  have "unfinished b i" using step.IH assms(3) by (simp add: unfinished_def)
  from orphan_stays [OF _ this _ e] step.IH import_step_inv [OF _ e] show ?case by auto
qed (use assms in auto)

text \<open>How such a job comes about.\<close>

lemma new_orphan:
  assumes inv: "import_inv s" and step: "import_step Error parse s e s'"
    and orphan: "unfinished s' i" "\<not> working s' i" "working s i \<or> \<not> unfinished s i"
  shows "im_cancelled s
    \<or> (\<exists>uri m. e = Requested uri \<and> parse (TrimSpace uri) = Inr m \<and> mg_InfoHash m = i) \<and> (i, Leaving) \<in> set (im_running s)"
proof (cases e)
  case (Requested uri)
  from step [unfolded Requested] obtain ctxErr now writeErr r where "ImportURI parse ctxErr now writeErr uri s = (r, s')"
    by (auto elim: import_step.cases)
  then show ?thesis
  proof (rule ImportURI_cases)
    assume "s' = s" with orphan show ?thesis by simp
  next
    fix k m createdAt
    assume k: "\<not> unfinished s k" "parse (TrimSpace uri) = Inr m" "k = mg_InfoHash m"
      "import_new k (TrimSpace uri) m now writeErr createdAt s = (r, s')"
    note sel = import_new_sel [OF k(4)]
    have run: "set (im_running s) \<subseteq> set (im_running s')"
      using sel(3,4) by (cases writeErr) (auto split: if_splits)
    have "i = k"
    proof (rule ccontr)
      assume "i \<noteq> k"
      then have "unfinished s' i = unfinished s i" using sel(1) by (simp add: unfinished_def)
      with orphan run show False by (auto simp: working_def)
    qed
    with orphan(1) sel(3) have w: "writeErr = None" by (cases writeErr) (auto simp: unfinished_def)
    have "i \<in> im_active s" using sel(4) [OF w] orphan(2) \<open>i = k\<close> by (auto simp: working_def split: if_splits)
    then obtain p where "(i, p) \<in> set (im_running s)" using inv by (auto simp: import_inv_def)
    with not_working [OF inv k(1)] \<open>i = k\<close> k(2,3) Requested show ?thesis by auto
  qed
next
  case Cancel
  with step have "s' = s\<lparr>im_cancelled := True\<rparr>" by (auto elim: import_step.cases)
  with orphan show ?thesis by (auto simp: unfinished_def working_def)
next
  case (Worked j)
  show ?thesis
  proof (cases "i = j")
    case True
    with worked_orphan [OF inv step [unfolded Worked]] orphan show ?thesis by blast
  next
    case False
    with worked_own [OF inv step [unfolded Worked]] orphan show ?thesis by (auto simp: only_own_def unfinished_def)
  qed
qed

text \<open>A state in which one job is being worked on.\<close>

definition single :: "string \<Rightarrow> phase \<Rightarrow> SourceImportState \<Rightarrow> importer_state \<Rightarrow> bool" where
  "single i p st s \<longleftrightarrow> \<not> im_cancelled s \<and> im_running s = [(i, p)] \<and> im_active s = {i} \<and> job_state s i = Some st"

lemma single_phase: "single i p st s \<Longrightarrow> single i q st (set_phase i q s)"
  by (simp add: single_def set_phase_def job_state_def)

lemma single_fail: "single i p st s \<Longrightarrow> single i p SourceImportStateFailed (import_fail Error i cause now None s)"
  by (cases "im_jobs s i") (simp_all add: single_def job_state_def import_fail_def update_job_def persistLocked_def Let_def)

lemma ImportURI_new:
  assumes "parse (TrimSpace uri) = Inr m" "\<not> unfinished s (mg_InfoHash m)" "job_state s (mg_InfoHash m) \<noteq> Some SourceImportStateReady"
  shows "\<exists>createdAt. ImportURI parse None now None uri s = import_new (mg_InfoHash m) (TrimSpace uri) m now None createdAt s"
proof (cases "im_jobs s (mg_InfoHash m)")
  case None
  then show ?thesis using assms(1) by (auto simp: ImportURI_def Let_def)
next
  case (Some rec)
  then have "si_State (mr_Import rec) = SourceImportStateFailed"
    using assms(2,3) by (cases "si_State (mr_Import rec)") (auto simp: unfinished_def job_state_def open_state_def)
  then show ?thesis using Some assms(1) by (cases "IsZero (si_CreatedAt (mr_Import rec))") (auto simp: ImportURI_def Let_def)
qed

lemma failed_import_reachable:
  assumes "parse (TrimSpace uri) = Inr m"
  shows "\<exists>s. import_reachable Error parse s \<and> single (mg_InfoHash m) Leaving SourceImportStateFailed s"
proof -
  let ?i = "mg_InfoHash m" and ?s0 = "loaded_state Map.empty"
  have r0: "import_reachable Error parse ?s0"
    by (rule import_reachable.start [of "\<lambda>_. Inl ErrEOF" "[]" "[]"]) (simp_all add: NewMagnetImporter_def loaded_state_def)
  obtain c where c: "ImportURI parse None 1 None uri ?s0 = import_new ?i (TrimSpace uri) m 1 None c ?s0"
    using ImportURI_new [where parse = parse and uri = uri and s = ?s0 and now = 1, OF assms] by (auto simp: loaded_state_def unfinished_def job_state_def)
  obtain s1 v where s1: "import_new ?i (TrimSpace uri) m 1 None c ?s0 = (v, s1)" by fastforce
  have g1: "single ?i Starting SourceImportStateFetching s1"
    using import_new_sel(2,4) [OF s1] by (simp add: single_def loaded_state_def)
  have r1: "import_reachable Error parse s1"
    by (rule import_reachable.step [OF r0 import_step.requested]) (rule c [unfolded s1])
  from g1 obtain rec where rec: "im_jobs s1 ?i = Some rec" by (auto simp: single_def job_state_def)
  let ?s2 = "set_phase ?i (Fetching (mr_URI rec)) s1" and ?cause = "Wrap ''fetch torrent metadata'' ErrEOF"
  let ?s3 = "set_phase ?i (Failing ?cause) ?s2"
  let ?s4 = "set_phase ?i Leaving (import_fail Error ?i ?cause 2 None ?s3)"
  note g2 = single_phase [OF g1, of "Fetching (mr_URI rec)"]
  note g3 = single_phase [OF g2, of "Failing ?cause"]
  note g4 = single_phase [OF single_fail [OF g3], of Leaving Error ?cause 2]
  have r2: "import_reachable Error parse ?s2"
    by (rule import_reachable.step [OF r1 import_step.started]) (use g1 rec in \<open>auto simp: single_def\<close>)
  have r3: "import_reachable Error parse ?s3"
    by (rule import_reachable.step [OF r2 import_step.fetch_failed]) (use g2 in \<open>auto simp: single_def\<close>)
  have "import_reachable Error parse ?s4"
    by (rule import_reachable.step [OF r3 import_step.failed]) (use g3 in \<open>auto simp: single_def\<close>)
  with g4 show ?thesis by blast
qed

section \<open>Properties\<close>


text \<open>
  a job can be stuck. \<open>run\<close> records the failure before it leaves \<open>active\<close>; a request for the same link
  in between makes a new job but starts nothing, since the old goroutine is still in \<open>active\<close>. For every
  link such a state is reachable, without cancellation, and from there no sequence of steps and
  requests changes the job: it reports that it is fetching metadata until the program restarts.
\<close>

theorem magnet_import_stuck:
  assumes "parse (TrimSpace uri) = Inr m"
  shows "\<exists>s. import_reachable Error parse s \<and> \<not> im_cancelled s
    \<and> job_state s (mg_InfoHash m) = Some SourceImportStateFetching
    \<and> (\<forall>s'. (\<lambda>a b. \<exists>e. import_step Error parse a e b)\<^sup>*\<^sup>* s s' \<longrightarrow>
         im_jobs s' (mg_InfoHash m) = im_jobs s (mg_InfoHash m) \<and> mg_InfoHash m \<notin> im_active s')"
proof -
  let ?i = "mg_InfoHash m"
  obtain s where s: "import_reachable Error parse s" "single ?i Leaving SourceImportStateFailed s"
    using failed_import_reachable [where parse = parse and uri = uri, OF assms] by blast
  then have idle: "\<not> unfinished s ?i" by (simp add: unfinished_iff single_def open_state_def)
  obtain c where c: "ImportURI parse None 3 None uri s = import_new ?i (TrimSpace uri) m 3 None c s"
    using ImportURI_new [where parse = parse and uri = uri and s = s and now = 3, OF assms idle] s(2) by (auto simp: single_def)
  obtain r s1 where new: "import_new ?i (TrimSpace uri) m 3 None c s = (r, s1)" by fastforce
  have r1: "import_reachable Error parse s1"
    using import_reachable.step [OF s(1) import_step.requested] c new by metis
  note sel = import_new_sel(4) [OF new refl] import_new_sel(2) [OF new]
  let ?s = "s1\<lparr>im_active := im_active s1 - {?i}, im_running := filter (\<lambda>x. fst x \<noteq> ?i) (im_running s1)\<rparr>"
  have l: "(?i, Leaving) \<in> set (im_running s1)" using sel s(2) by (simp add: single_def)
  have r2: "import_reachable Error parse ?s" by (rule import_reachable.step [OF r1 import_step.left [OF l]])
  have st: "job_state ?s ?i = Some SourceImportStateFetching" "\<not> im_cancelled ?s" "?i \<notin> im_active ?s"
    using sel s(2) by (auto simp: single_def job_state_def)
  have "unfinished ?s ?i" using st(1) by (simp add: unfinished_iff open_state_def)
  from orphan_forever [OF _ import_reachable_inv [OF r2] this st(3)] r2 st show ?thesis by blast
qed

section \<open>Examples\<close>

definition demo_magnet :: magnet where
  "demo_magnet = \<lparr>mg_InfoHash = ''h'', mg_DisplayName = ''n''\<rparr>"

theorem magnet_import_stuck_witness:
  "\<exists>s. import_reachable (\<lambda>_. ''e'') (\<lambda>_. Inr demo_magnet) s \<and> job_state s ''h'' = Some SourceImportStateFetching \<and> ''h'' \<notin> im_active s"
proof -
  obtain s where "import_reachable (\<lambda>_. ''e'') (\<lambda>_. Inr demo_magnet) s"
    "job_state s (mg_InfoHash demo_magnet) = Some SourceImportStateFetching" "mg_InfoHash demo_magnet \<notin> im_active s"
    using magnet_import_stuck [where parse = "\<lambda>_. Inr demo_magnet" and m = demo_magnet and uri = "''u''" and Error = "\<lambda>_. ''e''"]
    by auto
  then show ?thesis by (auto simp: demo_magnet_def)
qed


end
