(* ===== verification/TorrentScanner.thy ===== *)
theory TorrentScanner
  imports TorrentEviction MagnetImports
begin

text \<open>
  The scanner of the torrent directory and the enrichment of tracks, \<open>scanner/torrents/scanner.go\<close>,
  \<open>importer.go\<close>, \<open>management.go\<close>, \<open>enricher.go\<close> and \<open>scanner/enricher.go\<close>. A scan reads every torrent file of the walk
  into tracks, improves those whose media are in the cache with the tags of the media, and replaces the
  tracks of the provider in the catalog. The walk, the tag reader and the artwork store are parameters.
\<close>

section \<open>Enrichment\<close>

record 's Enricher =
  en_Track :: "string \<Rightarrow> ('s, Track) action"
  en_UpdateTrack :: "Track \<Rightarrow> ('s, unit) action"
  en_Stat :: "string \<Rightarrow> ('s, bool \<times> int) action"
  en_Extract :: "string \<Rightarrow> Metadata result"
  en_artwork :: "(string \<Rightarrow> ('s, string) action) option"

text \<open>The metadata of a media file without its album.\<close>

definition apply_without_album :: "text_env \<Rightarrow> Track \<Rightarrow> Metadata \<Rightarrow> Track" where
  "apply_without_album env track metadata =
    (ApplyMetadata env track metadata)\<lparr>track_Album := track_Album track, track_AlbumID := track_AlbumID track,
       track_AlbumArtist := track_AlbumArtist track, track_AlbumArtistID := track_AlbumArtistID track\<rparr>"

text \<open>\<open>EnrichTrack\<close> changes its argument in place: the track is returned beside the error, since a failure
  to store the artwork leaves the new metadata.\<close>

definition EnrichTrack :: "text_env \<Rightarrow> 's Enricher \<Rightarrow> string \<Rightarrow> Track \<Rightarrow> ('s, Track \<times> go_error option) action" where
  "EnrichTrack env e mediaPath track =
    tryE (en_Stat e mediaPath) (\<lambda>r. case r of
      Inl err \<Rightarrow> ret (track, Some (Wrap ''stat completed track'' err))
    | Inr (regular, len) \<Rightarrow>
        if \<not> regular \<or> track_Size track > 0 \<and> len \<noteq> track_Size track
        then ret (track, Some (Errorf ''completed track has unexpected size''))
        else case en_Extract e mediaPath of
          Inl err \<Rightarrow> ret (track, Some (Wrap ''extract completed track metadata'' err))
        | Inr metadata \<Rightarrow>
            (let track' = apply_without_album env track metadata
             in case md_Artwork metadata of None \<Rightarrow> ret (track', None)
             | Some picture \<Rightarrow> (case en_artwork e of None \<Rightarrow> ret (track', None)
               | Some put \<Rightarrow> tryE (put picture) (\<lambda>r. case r of
                   Inl err \<Rightarrow> ret (track', Some (Wrap ''store completed track artwork'' err))
                 | Inr coverArtID \<Rightarrow> ret (track'\<lparr>track_CoverArtID := coverArtID\<rparr>, None)))))"

definition EnrichWithExpectedSize :: "text_env \<Rightarrow> 's Enricher \<Rightarrow> string \<Rightarrow> string \<Rightarrow> int \<Rightarrow> ('s, unit) action" where
  "EnrichWithExpectedSize env e trackID mediaPath expectedSize =
    bindE (wrapE ''find completed track'' (en_Track e trackID)) (\<lambda>track.
    bindE (EnrichTrack env e mediaPath (if expectedSize > 0 then track\<lparr>track_Size := expectedSize\<rparr> else track)) (\<lambda>(track', err).
      case err of
        Some err \<Rightarrow> fail err
      | None \<Rightarrow> wrapE ''update completed track metadata'' (en_UpdateTrack e track')))"

definition Enrich :: "text_env \<Rightarrow> 's Enricher \<Rightarrow> string \<Rightarrow> string \<Rightarrow> ('s, unit) action" where
  "Enrich env e trackID mediaPath = EnrichWithExpectedSize env e trackID mediaPath 0"

definition world_Stat :: "string \<Rightarrow> (world, bool \<times> int) action" where
  "world_Stat path = bindE (os_Stat path) (\<lambda>f. ret (case f of None \<Rightarrow> (False, 0) | Some (contents, _) \<Rightarrow> (True, int (length contents))))"

definition NewEnricher :: "(string \<Rightarrow> Metadata result) \<Rightarrow> (string \<Rightarrow> (world, string) action) option \<Rightarrow> world Enricher" where
  "NewEnricher extract artwork = \<lparr>en_Track = sqlite_Track, en_UpdateTrack = sqlite_UpdateTrack, en_Stat = world_Stat,
     en_Extract = extract, en_artwork = artwork\<rparr>"

section \<open>The scan\<close>

text \<open>One call of the function given to \<open>filepath.WalkDir\<close>, and what the file operations in it report.\<close>

record torrent_visit =
  tv_ctxErr :: "go_error option"
  tv_Path :: string
  tv_walkErr :: "go_error option"
  tv_IsDir :: bool
  tv_Open :: "string result"
  tv_closeErr :: "go_error option"
  tv_Info :: "time result"

record torrent_scanner =
  tn_root :: string
  tn_walk :: "torrent_visit list"
  tn_extractor :: "(string \<Rightarrow> Metadata result) option"
  tn_artwork :: "(string \<Rightarrow> (world, string) action) option"

record torrent_acc =
  ta_tracks :: "TrackSource list"
  ta_warnings :: "Warning list"
  ta_seen :: "string set"

definition ta_warn :: "string \<Rightarrow> go_error \<Rightarrow> torrent_acc \<Rightarrow> torrent_acc" where
  "ta_warn path err acc = acc\<lparr>ta_warnings := ta_warnings acc @ [\<lparr>wn_Path = path, wn_Err = err\<rparr>]\<rparr>"

definition ta_warn_opt :: "string \<Rightarrow> go_error option \<Rightarrow> torrent_acc \<Rightarrow> torrent_acc" where
  "ta_warn_opt path err acc = (case err of None \<Rightarrow> acc | Some err \<Rightarrow> ta_warn path err acc)"

text \<open>A track whose media are complete in the cache.\<close>

definition enrich_cached ::
  "torrent_env \<Rightarrow> torrent_scanner \<Rightarrow> TrackSource \<Rightarrow> torrent_acc \<Rightarrow> (torrent_state, TrackSource \<times> torrent_acc) action" where
  "enrich_cached env sc track acc =
    (case tn_extractor sc of
       None \<Rightarrow> ret (track, acc)
     | Some extract \<Rightarrow>
         bindE (CachedPath (ts_Ref track) (track_Size (ts_Track track))) (\<lambda>found. case found of
           None \<Rightarrow> ret (track, acc)
         | Some cachedPath \<Rightarrow>
             bindE (on_world (EnrichTrack (te_text env) (NewEnricher extract (tn_artwork sc)) cachedPath (ts_Track track))) (\<lambda>(t, err).
               ret (track\<lparr>ts_Track := t\<rparr>, ta_warn_opt cachedPath err acc))))"

fun add_torrent_tracks ::
  "torrent_env \<Rightarrow> torrent_scanner \<Rightarrow> time result \<Rightarrow> TrackSource list \<Rightarrow> torrent_acc \<Rightarrow> (torrent_state, torrent_acc) action" where
  "add_torrent_tracks env sc info [] acc = ret acc"
| "add_torrent_tracks env sc info (track # tracks) acc =
    (if ref_Key (ts_Ref track) \<in> ta_seen acc then add_torrent_tracks env sc info tracks acc
     else bindE (enrich_cached env sc track (acc\<lparr>ta_seen := insert (ref_Key (ts_Ref track)) (ta_seen acc)\<rparr>)) (\<lambda>(track', acc').
       let track'' = (case info of Inl _ \<Rightarrow> track' | Inr modTime \<Rightarrow> track'\<lparr>ts_DiscoveredAt := modTime\<rparr>)
       in add_torrent_tracks env sc info tracks (acc'\<lparr>ta_tracks := ta_tracks acc' @ [track'']\<rparr>)))"

definition is_torrent_file :: "unicode_tables \<Rightarrow> torrent_visit \<Rightarrow> bool" where
  "is_torrent_file uc v \<longleftrightarrow> \<not> tv_IsDir v \<and> EqualFold uc (filepath_Ext (tv_Path v)) ''.torrent''"

definition read_torrent :: "torrent_env \<Rightarrow> torrent_scanner \<Rightarrow> torrent_visit \<Rightarrow> torrent_acc \<Rightarrow> (torrent_state, torrent_acc) action" where
  "read_torrent env sc v acc =
    (case tv_Open v of
       Inl err \<Rightarrow> ret (ta_warn (tv_Path v) err acc)
     | Inr contents \<Rightarrow>
         tryE (ReadCatalog env contents) (\<lambda>r. case r of
           Inl err \<Rightarrow> ret (ta_warn (tv_Path v) err acc)
         | Inr metadata \<Rightarrow>
             (let acc1 = ta_warn_opt (tv_Path v) (tv_closeErr v) acc;
                  acc2 = (case tv_Info v of Inl err \<Rightarrow> ta_warn (tv_Path v) err acc1 | Inr _ \<Rightarrow> acc1)
              in add_torrent_tracks env sc (tv_Info v) (tc_Tracks metadata) acc2)))"

text \<open>The walk ends early (\<open>fs.SkipAll\<close>) if the directory does not exist.\<close>

fun torrent_walk :: "torrent_env \<Rightarrow> torrent_scanner \<Rightarrow> torrent_visit list \<Rightarrow> torrent_acc \<Rightarrow> (torrent_state, torrent_acc) action" where
  "torrent_walk env sc [] acc = ret acc"
| "torrent_walk env sc (v # vs) acc =
    (case tv_ctxErr v of Some err \<Rightarrow> fail err | None \<Rightarrow>
     (case tv_walkErr v of
        Some err \<Rightarrow>
          if err = os_ErrNotExist \<and> tv_Path v = tn_root sc then ret acc
          else torrent_walk env sc vs (ta_warn (tv_Path v) err acc)
      | None \<Rightarrow>
          if \<not> is_torrent_file (unicode (te_text env)) v then torrent_walk env sc vs acc
          else bindE (read_torrent env sc v acc) (torrent_walk env sc vs)))"

definition zero_torrent_acc :: torrent_acc where
  "zero_torrent_acc = \<lparr>ta_tracks = [], ta_warnings = [], ta_seen = {}\<rparr>"

definition torrent_Scan :: "torrent_env \<Rightarrow> torrent_scanner \<Rightarrow> (torrent_state, Report) action" where
  "torrent_Scan env sc =
    bindE (wrapE ''walk torrent metadata directory'' (torrent_walk env sc (tn_walk sc) zero_torrent_acc)) (\<lambda>acc.
    bindE (wrapE ''replace torrent catalog'' (on_world (sqlite_ReplaceProviderTracks TorrentName (ta_tracks acc) []))) (\<lambda>_.
      ret \<lparr>rep_Tracks = int (length (ta_tracks acc)), rep_Warnings = ta_warnings acc\<rparr>))"

section \<open>Importing and managing\<close>

text \<open>\<open>ScanNow\<close> of the scan manager.\<close>

type_synonym scanController = "(torrent_state, Report) action"

definition file_step :: "(world, unit) action" where
  "file_step = os_call (\<lambda>w. (Inr (), w))"

text \<open>The temporary file is removed by a \<open>defer\<close> if it was not renamed, so only the rename is seen.\<close>

definition Importer_Import ::
  "torrent_env \<Rightarrow> string \<Rightarrow> scanController \<Rightarrow> reader \<Rightarrow> (torrent_state, SourceImportResult) action" where
  "Importer_Import env root ScanNow source =
    bindE (wrapE ''read torrent upload'' (case rd_error source of Some err \<Rightarrow> fail err | None \<Rightarrow> on_world ctx_Err)) (\<lambda>_.
    bindE (ReadCatalog env (rd_bytes source)) (\<lambda>metadata.
    bindE (wrapE ''create torrent metadata directory'' (on_world file_step)) (\<lambda>_.
    bindE (wrapE ''create temporary torrent metadata'' (on_world file_step)) (\<lambda>_.
    bindE (wrapE ''write torrent metadata'' (on_world file_step)) (\<lambda>_.
    bindE (wrapE ''sync torrent metadata'' (on_world file_step)) (\<lambda>_.
    bindE (wrapE ''close torrent metadata'' (on_world file_step)) (\<lambda>_.
    bindE (wrapE ''commit torrent metadata''
      (on_world (os_WriteFile (filepath_Join [root, tc_InfoHash metadata @ ''.torrent'']) (rd_bytes source)))) (\<lambda>_.
    bindE (wrapE ''scan imported torrent metadata'' ScanNow) (\<lambda>_.
      ret \<lparr>sir_SourceID = tc_InfoHash metadata, sir_Name = tc_Name metadata,
           sir_Tracks = int (length (tc_Tracks metadata))\<rparr>)))))))))"

definition SourceManager_RemoveSource :: "scanController \<Rightarrow> string list \<Rightarrow> string \<Rightarrow> bool \<Rightarrow> (torrent_state, unit) action" where
  "SourceManager_RemoveSource ScanNow ids i deleteData =
    bindE (torrent_RemoveSource ids i deleteData) (\<lambda>_.
    bindE (wrapE ''synchronize catalog after source removal'' ScanNow) (\<lambda>_. ret ()))"


section \<open>The tables\<close>

abbreviation same_tables :: "world \<Rightarrow> torrent_state \<Rightarrow> bool" where
  "same_tables T s \<equiv> tables_of (tp_world s) = T"

lemma tables_spend [simp]: "tables_of (spend_fault w) = tables_of w"
  by (simp add: tables_of_def)

lemma tables_call:
  "(\<And>w. tables_of (snd (g w)) = tables_of w) \<Longrightarrow> preserves (\<lambda>w. tables_of w = T) (os_call g)"
  by (auto simp: preserves_def os_call_def)

lemma tables_ops [preserving]:
  "preserves (\<lambda>w. tables_of w = T) ctx_Err" "preserves (\<lambda>w. tables_of w = T) (os_Stat p)"
  "preserves (\<lambda>w. tables_of w = T) os_MkdirAll" "preserves (\<lambda>w. tables_of w = T) file_step"
  "preserves (\<lambda>w. tables_of w = T) (os_WriteFile p c)" "preserves (\<lambda>w. tables_of w = T) (os_Rename p q)"
  "preserves (\<lambda>w. tables_of w = T) (os_Remove p)"
  unfolding os_Stat_def os_MkdirAll_def file_step_def os_WriteFile_def os_Rename_def os_Remove_def
  by (simp add: preserves_def ctx_Err_def)
    (rule tables_call; simp add: tables_of_def store_of_def time_Now_def Let_def split: option.split)+

lemma tables_fileExists [preserving]: "preserves (\<lambda>w. tables_of w = T) (fileExists p)"
  unfolding fileExists_def by (intro preserving)

lemma tables_on_world [preserving]:
  "preserves (\<lambda>w. tables_of w = T) act \<Longrightarrow> preserves (same_tables T) (on_world act)"
  by (auto simp: preserves_def on_world_def case_prod_beta Let_def)

lemma tables_migrateFile [preserving]: "preserves (\<lambda>w. tables_of w = T) (migrateLegacyFileLocked root h path)"
  unfolding migrateLegacyFileLocked_def move_legacy_def Let_def by (intro preserving)

lemma tables_each_file: "(\<And>p. preserves P (act p)) \<Longrightarrow> preserves P (each_file name act fs)"
  by (induction fs) (auto intro!: preserving)

lemma fold_tables: "(\<And>x s. tp_world (f x s) = tp_world s) \<Longrightarrow> same_tables T s \<Longrightarrow> same_tables T (fold f xs s)"
  by (induction xs arbitrary: s) auto

lemma tables_ReadCatalog [preserving]: "preserves (same_tables T) (ReadCatalog env contents)"
  unfolding ReadCatalog_def migrateLegacyData_def Let_def
  by (intro preserving tables_each_file preserves_modify; erule fold_tables [rotated]) (simp_all add: register_audio_sel register_picture_sel)

lemma tables_CachedPath [preserving]: "preserves (same_tables T) (CachedPath ref n)"
  unfolding CachedPath_def migrateLegacyFile_def Let_def by (intro preserving)

definition keeps_tables :: "torrent_scanner \<Rightarrow> bool" where
  "keeps_tables sc \<longleftrightarrow> (\<forall>put d T. tn_artwork sc = Some put \<longrightarrow> preserves (\<lambda>w. tables_of w = T) (put d))"

lemma tables_EnrichTrack:
  assumes "\<And>put d. artwork = Some put \<Longrightarrow> preserves (\<lambda>w. tables_of w = T) (put d)"
  shows "preserves (\<lambda>w. tables_of w = T) (EnrichTrack env (NewEnricher extract artwork) path track)"
proof (cases artwork)
  case None
  show ?thesis unfolding EnrichTrack_def NewEnricher_def world_Stat_def Let_def Enricher.simps None option.case by (intro preserving)
next
  case (Some put)
  show ?thesis unfolding EnrichTrack_def NewEnricher_def world_Stat_def Let_def Enricher.simps Some option.case
    by (intro preserving assms [OF Some])
qed

lemma tables_enrich_cached: "keeps_tables sc \<Longrightarrow> preserves (same_tables T) (enrich_cached env sc track acc)"
  unfolding enrich_cached_def by (intro preserving tables_EnrichTrack) (auto simp: keeps_tables_def)

lemma tables_add_tracks: "keeps_tables sc \<Longrightarrow> preserves (same_tables T) (add_torrent_tracks env sc info tracks acc)"
proof (induction env sc info tracks acc rule: add_torrent_tracks.induct)
  case (2 env sc info track tracks acc)
  then show ?case by (auto simp: Let_def intro!: preserving tables_enrich_cached)
qed (simp add: preserving)

lemma tables_walk: "keeps_tables sc \<Longrightarrow> preserves (same_tables T) (torrent_walk env sc vs acc)"
proof (induction env sc vs acc rule: torrent_walk.induct)
  case (2 env sc v vs acc)
  then have "preserves (same_tables T) (read_torrent env sc v acc)" for acc
    unfolding read_torrent_def Let_def by (intro preserving tables_add_tracks)
  with 2 show ?case by (auto intro!: preserving split: option.split)
qed (simp add: preserving)

section \<open>A finished track\<close>

text \<open>What a successful enrichment makes of a track: the tags of the file, the album as it was and the picture
  of the file if there is one.\<close>

definition enriched :: "text_env \<Rightarrow> (string \<Rightarrow> Metadata result) \<Rightarrow> string \<Rightarrow> Track \<Rightarrow> Track \<Rightarrow> bool" where
  "enriched env extract path old new \<longleftrightarrow> (\<exists>metadata cover. extract path = Inr metadata
     \<and> (cover = track_CoverArtID old \<or> md_Artwork metadata \<noteq> None)
     \<and> new = (apply_without_album env old metadata)\<lparr>track_CoverArtID := cover\<rparr>)"

definition complete_file :: "string \<Rightarrow> int \<Rightarrow> world \<Rightarrow> bool" where
  "complete_file path n w \<longleftrightarrow> (\<exists>contents t. map_of (w_blobs w) path = Some (contents, t) \<and> (n > 0 \<longrightarrow> int (length contents) = n))"

lemma apply_keeps:
  "track_ID (apply_without_album env t m) = track_ID t" "track_Album (apply_without_album env t m) = track_Album t"
  "track_AlbumID (apply_without_album env t m) = track_AlbumID t" "track_AlbumArtist (apply_without_album env t m) = track_AlbumArtist t"
  "track_AlbumArtistID (apply_without_album env t m) = track_AlbumArtistID t"
  "track_CoverArtID (apply_without_album env t m) = track_CoverArtID t"
  "apply_without_album env (t\<lparr>track_Size := n\<rparr>) m = apply_without_album env t m"
  by (simp_all add: apply_without_album_def ApplyMetadata_def Let_def)

lemma enriched_size: "enriched env extract path (t\<lparr>track_Size := n\<rparr>) new = enriched env extract path t new"
  by (simp add: enriched_def apply_keeps)

lemma world_Stat_run: "world_Stat path w = (Inr (regular, len), w') \<Longrightarrow>
    regular \<longrightarrow> (\<exists>contents t. map_of (w_blobs w) path = Some (contents, t) \<and> len = int (length contents))"
  by (auto simp: world_Stat_def os_Stat_def os_call_def ret_def split: if_splits option.splits prod.splits)

lemma EnrichTrack_run:
  assumes run: "EnrichTrack env (NewEnricher extract artwork) path track w = (r, w')"
  shows "\<exists>track' err. r = Inr (track', err)
      \<and> (err = None \<longrightarrow> enriched env extract path track track' \<and> complete_file path (track_Size track) w)"
proof -
  have enr: "enriched env extract path track (apply_without_album env track m)" if "extract path = Inr m" for m
    using that apply_keeps(6) [of env track m] unfolding enriched_def by (intro exI [of _ m] exI [of _ "track_CoverArtID track"]) simp
  have cover: "enriched env extract path track ((apply_without_album env track m)\<lparr>track_CoverArtID := c\<rparr>)"
    if "extract path = Inr m" "md_Artwork m \<noteq> None" for m c using that unfolding enriched_def by blast
  note E = run [unfolded EnrichTrack_def NewEnricher_def Let_def Enricher.simps tryE_def]
  obtain st w1 where st: "world_Stat path w = (st, w1)" by fastforce
  show ?thesis
  proof (cases st)
    case (Inl e)
    with E st show ?thesis by (auto simp: ret_def)
  next
    case (Inr x)
    obtain regular len where x: "x = (regular, len)" by fastforce
    show ?thesis
    proof (cases "\<not> regular \<or> track_Size track > 0 \<and> len \<noteq> track_Size track")
      case True
      with E st Inr x show ?thesis by (auto simp: ret_def)
    next
      case False
      with world_Stat_run [OF st [unfolded Inr x]] have cf: "complete_file path (track_Size track) w"
        by (auto simp: complete_file_def)
      show ?thesis
      proof (cases "extract path")
        case (Inl e)
        with E st \<open>st = Inr x\<close> x False show ?thesis by (auto simp: ret_def)
      next
        case (Inr m)
        with E st \<open>st = Inr x\<close> x False enr [OF Inr] cover [OF Inr] cf show ?thesis
          by (cases "md_Artwork m"; cases artwork) (auto simp: ret_def split: prod.splits sum.splits)
      qed
    qed
  qed
qed

lemma upsert_map:
  "distinct (map key rows) \<Longrightarrow> key x \<in> key ` set rows \<Longrightarrow> upsert key x rows = map (\<lambda>t. if key t = key x then x else t) rows"
proof (induction rows)
  case (Cons y rows)
  show ?case
  proof (cases "key y = key x")
    case True
    with Cons.prems(1) have "map (\<lambda>t. if key t = key x then x else t) rows = rows" by (intro map_idI) (metis distinct.simps(2) image_eqI list.set_map list.simps(9))
    with True show ?thesis by simp
  next
    case False
    with Cons show ?thesis by auto
  qed
qed simp

lemma UpdateTrack_run:
  assumes run: "sqlite_UpdateTrack new w = (r, w')" and wf: "wf_catalog w"
    and old: "old \<in> set (w_tracks w)" "track_ID new = track_ID old" "track_AlbumID new = track_AlbumID old"
  shows "w_track_sources w' = w_track_sources w" "w_track_aliases w' = w_track_aliases w"
    "w_album_alias_tracks w' = w_album_alias_tracks w"
    "r = Inl e \<Longrightarrow> w_tracks w' = w_tracks w"
    "r = Inr u \<Longrightarrow> w_tracks w' = map (\<lambda>t. if track_ID t = track_ID old then track_row new else t) (w_tracks w)"
proof -
  have d: "distinct (map track_ID (w_tracks w))" using wf by (simp add: wf_catalog_def)
  note find = find_key_member [OF d old(1)]
  have up: "upsert track_ID (track_row new) (w_tracks w) = map (\<lambda>t. if track_ID t = track_ID old then track_row new else t) (w_tracks w)"
    using upsert_map [OF d, of "track_row new"] old by auto
  have "wp (sqlite_UpdateTrack new) (\<lambda>r w'. w_track_sources w' = w_track_sources w \<and> w_track_aliases w' = w_track_aliases w
      \<and> w_album_alias_tracks w' = w_album_alias_tracks w \<and> (\<forall>e. r = Inl e \<longrightarrow> w_tracks w' = w_tracks w)
      \<and> (\<forall>u. r = Inr u \<longrightarrow> w_tracks w' = map (\<lambda>t. if track_ID t = track_ID old then track_row new else t) (w_tracks w))) w"
    unfolding sqlite_UpdateTrack_def
  proof (rule wp_db_txI, goal_cases)
    case (1 e w')
    then show ?case by (simp add: store_of_eq_tables [OF 1])
  next
    case 2
    show ?case by (simp add: wp_simps find old up upsert_track_def Let_def)
  qed
  from wpD [OF this run] show "w_track_sources w' = w_track_sources w" "w_track_aliases w' = w_track_aliases w"
    "w_album_alias_tracks w' = w_album_alias_tracks w"
    "r = Inl e \<Longrightarrow> w_tracks w' = w_tracks w"
    "r = Inr u \<Longrightarrow> w_tracks w' = map (\<lambda>t. if track_ID t = track_ID old then track_row new else t) (w_tracks w)" by blast+
qed

lemma wf_tables: "tables_of v = tables_of w \<Longrightarrow> wf_catalog v = wf_catalog w \<and> w_tracks v = w_tracks w \<and> w_track_sources v = w_track_sources w
    \<and> w_track_aliases v = w_track_aliases w \<and> w_album_alias_tracks v = w_album_alias_tracks w"
proof -
  assume eq: "tables_of v = tables_of w"
  note f = arg_cong [OF eq, of w_tracks] arg_cong [OF eq, of w_track_sources] arg_cong [OF eq, of w_track_aliases]
    arg_cong [OF eq, of w_album_alias_tracks]
  show ?thesis using tables_of_eq(1) [OF eq] f by (simp add: tables_of_def)
qed

lemma Enricher_Track: "en_Track (NewEnricher ex ar) = sqlite_Track" "en_UpdateTrack (NewEnricher ex ar) = sqlite_UpdateTrack"
  by (simp_all add: NewEnricher_def)

lemma sqlite_Track_found:
  "wp (sqlite_Track i) (\<lambda>r w'. store_of w' = store_of w
     \<and> (\<forall>t. r = Inr t \<longrightarrow> t \<in> set (w_tracks w) \<and> resolve_track w i = Some (track_ID t))) w"
  by (auto simp: sqlite_Track_def sqlite_resolveTrackID_def wp_simps resolve_track_def split: option.split dest: find_key_SomeD)

text \<open>
  enrichment. Whatever happens, the sources, aliases and albums of the catalog stay, so that a track is
  listed where it was. If it fails, no track changes; if it succeeds, exactly the track of the identifier has
  changed: the file is there with the expected size, its tags became those of the track, and the
  identifier, album and album artist are kept.
\<close>

theorem Enrich_spec:
  assumes run: "EnrichWithExpectedSize env (NewEnricher extract artwork) i path n w = (r, w')" and wf: "wf_catalog w"
    and art: "\<forall>put d T. artwork = Some put \<longrightarrow> preserves (\<lambda>w. tables_of w = T) (put d)"
  shows "w_track_sources w' = w_track_sources w \<and> w_track_aliases w' = w_track_aliases w
    \<and> w_album_alias_tracks w' = w_album_alias_tracks w
    \<and> (case r of Inl e \<Rightarrow> w_tracks w' = w_tracks w
       | Inr _ \<Rightarrow> \<exists>old new. old \<in> set (w_tracks w) \<and> resolve_track w i = Some (track_ID old)
           \<and> w_tracks w' = map (\<lambda>t. if track_ID t = track_ID old then track_row new else t) (w_tracks w)
           \<and> enriched env extract path old new \<and> complete_file path (if n > 0 then n else track_Size old) w
           \<and> track_ID new = track_ID old \<and> track_Album new = track_Album old \<and> track_AlbumID new = track_AlbumID old
           \<and> track_AlbumArtist new = track_AlbumArtist old \<and> track_AlbumArtistID new = track_AlbumArtistID old)"
proof -
  let ?e = "NewEnricher extract artwork"
  define sized where "sized old = (if n > 0 then old\<lparr>track_Size := n\<rparr> else old)" for old :: Track
  obtain r1 w1 where t1: "sqlite_Track i w = (r1, w1)" by fastforce
  note found = wpD [OF sqlite_Track_found t1]
  then have st: "store_of w1 = store_of w" by simp
  have s1: "tables_of w1 = tables_of w" "w_blobs w1 = w_blobs w" by (simp_all add: tables_of_def st store_of_eq_tables [OF st])
  have run': "(case r1 of Inl e \<Rightarrow> (Inl (Wrap ''find completed track'' e), w1)
     | Inr old \<Rightarrow> bindE (EnrichTrack env ?e path (sized old)) (\<lambda>(track', err).
         case err of Some err \<Rightarrow> fail err | None \<Rightarrow> wrapE ''update completed track metadata'' (sqlite_UpdateTrack track')) w1) = (r, w')"
    using run [unfolded EnrichWithExpectedSize_def bindE_def [of "wrapE _ _"] wrapE_def [of "''find completed track''"] Enricher_Track t1]
    by (cases r1) (simp_all add: Enricher_Track sized_def)
  show ?thesis
  proof (cases r1)
    case (Inl e)
    with run' wf_tables [OF s1(1)] show ?thesis by auto
  next
    case (Inr old)
    obtain r2 w2 where t2: "EnrichTrack env ?e path (sized old) w1 = (r2, w2)" by fastforce
    have "preserves (\<lambda>w. tables_of w = T) (EnrichTrack env ?e path (sized old))" for T by (rule tables_EnrichTrack) (use art in blast)
    from preservesD [OF this [of "tables_of w1"] refl t2] s1(1) have s2: "tables_of w2 = tables_of w" by simp
    note same = wf_tables [OF s2]
    from EnrichTrack_run [OF t2] obtain new err where r2: "r2 = Inr (new, err)"
      and new: "err = None \<longrightarrow> enriched env extract path (sized old) new \<and> complete_file path (track_Size (sized old)) w1" by blast
    show ?thesis
    proof (cases err)
      case (Some e)
      with run' Inr t2 r2 same show ?thesis by (auto simp: bindE_def fail_def)
    next
      case None
      obtain r3 w3 where t3: "sqlite_UpdateTrack new w2 = (r3, w3)" by fastforce
      from run' Inr t2 r2 None t3 have r: "w' = w3" "r = (case r3 of Inl e \<Rightarrow> Inl (Wrap ''update completed track metadata'' e) | Inr u \<Rightarrow> Inr u)"
        by (auto simp: bindE_def wrapE_def split: sum.splits)
      from new None have enr: "enriched env extract path old new" by (cases "n > 0") (simp_all add: sized_def enriched_size)
      then have keep: "track_ID new = track_ID old" "track_Album new = track_Album old" "track_AlbumID new = track_AlbumID old"
        "track_AlbumArtist new = track_AlbumArtist old" "track_AlbumArtistID new = track_AlbumArtistID old"
        by (auto simp: enriched_def apply_keeps)
      have cf: "complete_file path (if n > 0 then n else track_Size old) w"
        using new None s1(2) by (simp add: complete_file_def sized_def split: if_splits)
      have old: "old \<in> set (w_tracks w)" "resolve_track w i = Some (track_ID old)" using found Inr by auto
      note up = UpdateTrack_run [OF t3 _ _ keep(1,3)]
      have "wf_catalog w2" "old \<in> set (w_tracks w2)" using same wf old by simp_all
      note up = up [OF this]
      show ?thesis
      proof (cases r3)
        case (Inl e)
        with up(1-3) up(4) [OF Inl] r same show ?thesis by simp
      next
        case (Inr u)
        have "w_tracks w' = map (\<lambda>t. if track_ID t = track_ID old then track_row new else t) (w_tracks w)"
          using up(5) [OF Inr] r(1) same by simp
        with old enr keep cf have "\<exists>old new. old \<in> set (w_tracks w) \<and> resolve_track w i = Some (track_ID old)
           \<and> w_tracks w' = map (\<lambda>t. if track_ID t = track_ID old then track_row new else t) (w_tracks w)
           \<and> enriched env extract path old new \<and> complete_file path (if n > 0 then n else track_Size old) w
           \<and> track_ID new = track_ID old \<and> track_Album new = track_Album old \<and> track_AlbumID new = track_AlbumID old
           \<and> track_AlbumArtist new = track_AlbumArtist old \<and> track_AlbumArtistID new = track_AlbumArtistID old" by blast
        with up(1-3) r same Inr show ?thesis by simp
      qed
    qed
  qed
qed

definition demo_finished :: world where
  "demo_finished = empty_world\<lparr>w_tracks := [track_row ((demo_track ''t'' ''t'')\<lparr>track_AlbumID := ''b''\<rparr>)],
     w_blobs := [(''/d/a.mp3'', ''abc'', 7)]\<rparr>"

lemma demo_enrich_run:
  "\<exists>w'. EnrichWithExpectedSize demo_env (NewEnricher (\<lambda>_. Inr demo_metadata) None) ''t'' ''/d/a.mp3'' 3 demo_finished = (Inr (), w')"
proof -
  let ?old = "track_row ((demo_track ''t'' ''t'')\<lparr>track_AlbumID := ''b''\<rparr>)"
  have id: "track_ID ?old = ''t''" "track_AlbumID ?old = ''b''" by (simp_all add: demo_track_def track_row_def)
  have t: "sqlite_Track ''t'' demo_finished = (Inr ?old, demo_finished)"
    by (simp add: sqlite_Track_run demo_finished_def empty_world_def resolve_track_def demo_track_def track_row_def)
  have st: "world_Stat ''/d/a.mp3'' demo_finished = (Inr (True, 3), demo_finished)"
    by (simp add: world_Stat_def os_Stat_def os_call_def demo_finished_def empty_world_def next_fault_def spend_fault_def bindE_def ret_def)
  have art: "md_Artwork demo_metadata = None" by (simp add: demo_metadata_def)
  have e: "EnrichTrack demo_env (NewEnricher (\<lambda>_. Inr demo_metadata) None) ''/d/a.mp3'' (?old\<lparr>track_Size := 3\<rparr>) demo_finished
    = (Inr (apply_without_album demo_env (?old\<lparr>track_Size := 3\<rparr>) demo_metadata, None), demo_finished)"
    by (simp add: EnrichTrack_def NewEnricher_def tryE_def st ret_def art Let_def)
  have "\<exists>w'. sqlite_UpdateTrack (apply_without_album demo_env ?old demo_metadata) demo_finished = (Inr (), w')"
    by (simp add: sqlite_UpdateTrack_def apply_keeps id db_tx_def db_exec_run db_query_run run_simps demo_finished_def empty_world_def
      upsert_track_def Let_def)
  with t e show ?thesis
    by (auto simp: EnrichWithExpectedSize_def Enricher_Track apply_keeps bindE_def wrapE_def)
qed

theorem Enrich_spec_witness:
  "\<exists>w' t. EnrichWithExpectedSize demo_env (NewEnricher (\<lambda>_. Inr demo_metadata) None) ''t'' ''/d/a.mp3'' 3 demo_finished = (Inr (), w')
    \<and> w_tracks w' = [t] \<and> track_ID t = ''t'' \<and> track_AlbumID t = ''b'' \<and> track_BitRate t = md_BitRate demo_metadata"
proof -
  obtain w' where run: "EnrichWithExpectedSize demo_env (NewEnricher (\<lambda>_. Inr demo_metadata) None) ''t'' ''/d/a.mp3'' 3 demo_finished = (Inr (), w')"
    using demo_enrich_run by blast
  have old: "w_tracks demo_finished = [track_row ((demo_track ''t'' ''t'')\<lparr>track_AlbumID := ''b''\<rparr>)]" by (simp add: demo_finished_def)
  have "wf_catalog demo_finished" by (simp add: wf_catalog_def demo_finished_def empty_world_def)
  from Enrich_spec [OF run this] obtain new where "w_tracks w' = [track_row new]" "track_ID new = ''t''" "track_AlbumID new = ''b''"
      "enriched demo_env (\<lambda>_. Inr demo_metadata) ''/d/a.mp3'' (track_row ((demo_track ''t'' ''t'')\<lparr>track_AlbumID := ''b''\<rparr>)) new"
    by (auto simp: old demo_track_def track_row_def)
  with run show ?thesis by (auto simp: track_row_def enriched_def apply_without_album_def ApplyMetadata_def Let_def)
qed

section \<open>The tracks of a scan\<close>

definition torrent_keys :: "torrent_env \<Rightarrow> string \<Rightarrow> string list" where
  "torrent_keys env contents =
    (case te_Load env contents of Inl _ \<Rightarrow> [] | Inr meta \<Rightarrow>
     (case mi_Info meta of Inl _ \<Rightarrow> [] | Inr info \<Rightarrow>
       map (source_key (mi_InfoHash meta)) (audio_parts (unicode (te_text env)) (TrimSpace (ti_BestName info)) (ti_Files info))))"

lemma read_keys:
  assumes "ReadCatalog env contents s = (Inr c, s')"
  shows "map key_of (tc_Tracks c) = torrent_keys env contents"
proof -
  from assms obtain meta info where m: "te_Load env contents = Inr meta" "mi_Info meta = Inr info"
    by (auto simp: ReadCatalog_def with_state_def)
  with assms obtain audio art where f: "catalog_files (unicode (te_text env)) (TrimSpace (ti_BestName info)) (ti_Files info) = Inr (audio, art)"
    and c: "tc_Tracks c = map (catalog_track (te_text env) (mi_InfoHash meta) art) audio"
    by (auto simp: ReadCatalog_def with_state_def Let_def modify_iff split: if_splits)
  have "map key_of (tc_Tracks c) = map (source_key (mi_InfoHash meta)) (map cf_parts audio)"
    unfolding c by (simp add: key_of_def source_key_def logical_path_def)
  then show ?thesis using m catalog_files_Inr [OF f] by (simp add: torrent_keys_def)
qed

text \<open>What a part of the walk did: no track twice, every new track is one of the files \<open>K\<close>, and nothing
  is forgotten.\<close>

definition grown :: "string set \<Rightarrow> torrent_acc \<Rightarrow> torrent_acc \<Rightarrow> bool" where
  "grown K acc acc' \<longleftrightarrow> ta_seen acc \<subseteq> ta_seen acc' \<and> ta_seen acc' \<subseteq> ta_seen acc \<union> K \<and> set (ta_warnings acc) \<subseteq> set (ta_warnings acc')
     \<and> (distinct (map key_of (ta_tracks acc)) \<and> set (map key_of (ta_tracks acc)) = ta_seen acc \<longrightarrow>
          distinct (map key_of (ta_tracks acc')) \<and> set (map key_of (ta_tracks acc')) = ta_seen acc')"

lemma grown_refl: "grown {} acc acc"
  by (simp add: grown_def)

lemma grown_trans: "grown K a b \<Longrightarrow> grown L b c \<Longrightarrow> grown (K \<union> L) a c"
  unfolding grown_def by blast

lemma grown_mono: "grown K a b \<Longrightarrow> K \<subseteq> L \<Longrightarrow> grown L a b"
  unfolding grown_def by blast

lemma grown_warn: "grown {} acc (ta_warn p e acc)" "grown {} acc (ta_warn_opt p oe acc)"
  by (auto simp: grown_def ta_warn_def ta_warn_opt_def split: option.split)

lemma enrich_cached_run:
  assumes "enrich_cached env sc track acc s = (Inr (track', acc'), s')"
  shows "key_of track' = key_of track \<and> ta_tracks acc' = ta_tracks acc \<and> ta_seen acc' = ta_seen acc
    \<and> set (ta_warnings acc) \<subseteq> set (ta_warnings acc')"
  using assms
  by (auto simp: enrich_cached_def key_of_def ta_warn_opt_def ta_warn_def split: option.splits)

lemma add_tracks_grown:
  "add_torrent_tracks env sc info tracks acc s = (Inr acc', s') \<Longrightarrow>
   grown (key_of ` set tracks) acc acc' \<and> key_of ` set tracks \<subseteq> ta_seen acc'"
proof (induction tracks arbitrary: acc s)
  case Nil
  then show ?case by (simp add: grown_refl)
next
  case (Cons track tracks)
  show ?case
  proof (cases "key_of track \<in> ta_seen acc")
    case True
    with Cons.prems have "add_torrent_tracks env sc info tracks acc s = (Inr acc', s')" by (simp add: key_of_def)
    from Cons.IH [OF this] True show ?thesis unfolding grown_def by auto
  next
    case False
    let ?acc = "acc\<lparr>ta_seen := insert (key_of track) (ta_seen acc)\<rparr>"
    from False Cons.prems obtain track' acc1 s1 where e: "enrich_cached env sc track ?acc s = (Inr (track', acc1), s1)"
      and rest: "add_torrent_tracks env sc info tracks (acc1\<lparr>ta_tracks := ta_tracks acc1
          @ [case info of Inl _ \<Rightarrow> track' | Inr modTime \<Rightarrow> track'\<lparr>ts_DiscoveredAt := modTime\<rparr>]\<rparr>) s1 = (Inr acc', s')"
      by (auto simp: key_of_def Let_def)
    let ?acc2 = "acc1\<lparr>ta_tracks := ta_tracks acc1 @ [case info of Inl _ \<Rightarrow> track' | Inr modTime \<Rightarrow> track'\<lparr>ts_DiscoveredAt := modTime\<rparr>]\<rparr>"
    have "grown {key_of track} acc ?acc2"
      using enrich_cached_run [OF e] False unfolding grown_def
      by (auto simp: key_of_def split: sum.split)
    moreover have "key_of track \<in> ta_seen ?acc2" using enrich_cached_run [OF e] by simp
    ultimately show ?thesis using Cons.IH [OF rest] grown_trans [of "{key_of track}" acc ?acc2 "key_of ` set tracks" acc']
      by (auto simp: grown_def)
  qed
qed

text \<open>The outcome of one torrent file: a warning, or all of its audio files.\<close>

definition read_or_warned :: "torrent_env \<Rightarrow> torrent_visit \<Rightarrow> Warning list \<Rightarrow> string set \<Rightarrow> bool" where
  "read_or_warned env v warnings keys \<longleftrightarrow> tv_Path v \<in> wn_Path ` set warnings
     \<or> (\<exists>contents. tv_Open v = Inr contents \<and> set (torrent_keys env contents) \<subseteq> keys)"

definition visit_keys :: "torrent_env \<Rightarrow> torrent_visit \<Rightarrow> string set" where
  "visit_keys env v = (if is_torrent_file (unicode (te_text env)) v
     then case tv_Open v of Inl _ \<Rightarrow> {} | Inr contents \<Rightarrow> set (torrent_keys env contents) else {})"

lemma read_or_warned_mono:
  "read_or_warned env v (ta_warnings a) (ta_seen a) \<Longrightarrow> grown K a b \<Longrightarrow> read_or_warned env v (ta_warnings b) (ta_seen b)"
  unfolding read_or_warned_def grown_def by blast

lemma read_torrent_run:
  assumes "read_torrent env sc v acc s = (Inr acc', s')" "is_torrent_file (unicode (te_text env)) v"
  shows "grown (visit_keys env v) acc acc' \<and> read_or_warned env v (ta_warnings acc') (ta_seen acc')"
proof -
  have warned: "grown (visit_keys env v) acc (ta_warn (tv_Path v) e acc)
      \<and> read_or_warned env v (ta_warnings (ta_warn (tv_Path v) e acc)) (ta_seen (ta_warn (tv_Path v) e acc))" for e
    using grown_mono [OF grown_warn(1)] by (simp add: read_or_warned_def ta_warn_def)
  show ?thesis
  proof (cases "tv_Open v")
    case (Inl e)
    with assms(1) warned show ?thesis by (auto simp: read_torrent_def)
  next
    case (Inr contents)
    obtain r s1 where r: "ReadCatalog env contents s = (r, s1)" by fastforce
    show ?thesis
    proof (cases r)
      case (Inl e)
      with assms(1) Inr r warned show ?thesis by (auto simp: read_torrent_def tryE_def)
    next
      case (Inr c)
      let ?acc1 = "ta_warn_opt (tv_Path v) (tv_closeErr v) acc"
      let ?acc2 = "case tv_Info v of Inl err \<Rightarrow> ta_warn (tv_Path v) err ?acc1 | Inr _ \<Rightarrow> ?acc1"
      from assms(1) \<open>tv_Open v = Inr contents\<close> r Inr
      have a: "add_torrent_tracks env sc (tv_Info v) (tc_Tracks c) ?acc2 s1 = (Inr acc', s')"
        by (simp add: read_torrent_def tryE_def Let_def)
      have "grown {} acc ?acc2" using grown_trans [OF grown_warn(2) grown_warn(1)] grown_warn(2) by (auto split: sum.split)
      then have g: "grown (key_of ` set (tc_Tracks c)) acc acc'" using grown_trans add_tracks_grown [OF a] by fastforce
      have "key_of ` set (tc_Tracks c) = set (torrent_keys env contents)"
        using read_keys [of env contents s c s1] r Inr by (metis list.set_map)
      with g add_tracks_grown [OF a] assms(2) \<open>tv_Open v = Inr contents\<close> show ?thesis
        by (simp add: visit_keys_def read_or_warned_def)
    qed
  qed
qed

text \<open>The visits that are made: none after the root turned out to be missing.\<close>

definition visits_made :: "torrent_scanner \<Rightarrow> torrent_visit list" where
  "visits_made sc = takeWhile (\<lambda>v. \<not> (tv_walkErr v = Some os_ErrNotExist \<and> tv_Path v = tn_root sc)) (tn_walk sc)"

definition torrent_files :: "torrent_env \<Rightarrow> torrent_visit list \<Rightarrow> torrent_visit list" where
  "torrent_files env vs = filter (\<lambda>v. tv_walkErr v = None \<and> is_torrent_file (unicode (te_text env)) v) vs"

lemma torrent_walk_run:
  "torrent_walk env sc vs acc s = (Inr acc', s') \<Longrightarrow>
   made = takeWhile (\<lambda>v. \<not> (tv_walkErr v = Some os_ErrNotExist \<and> tv_Path v = tn_root sc)) vs \<Longrightarrow>
   grown (\<Union>v \<in> set (torrent_files env made). visit_keys env v) acc acc'
   \<and> (\<forall>v \<in> set (torrent_files env made). read_or_warned env v (ta_warnings acc') (ta_seen acc'))"
proof (induction vs arbitrary: acc s made)
  case Nil
  then show ?case by (simp add: torrent_files_def grown_refl)
next
  case (Cons v vs)
  let ?rest = "takeWhile (\<lambda>v. \<not> (tv_walkErr v = Some os_ErrNotExist \<and> tv_Path v = tn_root sc)) vs"
  from Cons.prems(1) have ctx: "tv_ctxErr v = None" by (cases "tv_ctxErr v") auto
  show ?case
  proof (cases "tv_walkErr v")
    case (Some e)
    show ?thesis
    proof (cases "e = os_ErrNotExist \<and> tv_Path v = tn_root sc")
      case True
      with Cons.prems Some ctx show ?thesis by (simp add: torrent_files_def grown_refl)
    next
      case False
      with Cons.prems(1) Some ctx have run: "torrent_walk env sc vs (ta_warn (tv_Path v) e acc) s = (Inr acc', s')" by auto
      have made: "torrent_files env made = torrent_files env ?rest" using Cons.prems(2) Some False by (auto simp: torrent_files_def)
      show ?thesis using Cons.IH [OF run refl] grown_trans [OF grown_warn(1) [of acc "tv_Path v" e]] unfolding made by fastforce
    qed
  next
    case None
    then have made: "made = v # ?rest" using Cons.prems(2) by simp
    show ?thesis
    proof (cases "is_torrent_file (unicode (te_text env)) v")
      case False
      with Cons.prems(1) None ctx Cons.IH [OF _ refl] show ?thesis unfolding made by (simp add: torrent_files_def)
    next
      case True
      with Cons.prems(1) None ctx obtain acc1 s1 where r: "read_torrent env sc v acc s = (Inr acc1, s1)"
        and run: "torrent_walk env sc vs acc1 s1 = (Inr acc', s')" by auto
      note one = read_torrent_run [OF r True] and rest = Cons.IH [OF run refl]
      have files: "torrent_files env made = v # torrent_files env ?rest" unfolding made using None True by (simp add: torrent_files_def)
      from one rest have "read_or_warned env v (ta_warnings acc') (ta_seen acc')" by (blast intro: read_or_warned_mono)
      with grown_trans [OF one [THEN conjunct1] rest [THEN conjunct1]] rest show ?thesis unfolding files by simp
    qed
  qed
qed

text \<open>
  C31: a scan of the torrent directory. Whatever fails, the catalog stays well formed; if the scan fails, the
  torrent files of the catalog are unchanged. If it succeeds, no file is listed twice, every file listed is
  an audio file of a torrent that was visited, the reported number is theirs, and every torrent
  file visited is reported in a warning or has all of its audio files in the catalog.
\<close>

theorem torrent_Scan_spec:
  assumes run: "torrent_Scan env sc s = (r, s')" and wf: "wf_catalog (tp_world s)"
    and art: "\<forall>put d T. tn_artwork sc = Some put \<longrightarrow> preserves (\<lambda>w. tables_of w = T) (put d)"
  shows "wf_catalog (tp_world s') \<and> (case r of
      Inl e \<Rightarrow> provider_files (tp_world s') TorrentName = provider_files (tp_world s) TorrentName
    | Inr report \<Rightarrow> (let keys = map fst (provider_files (tp_world s') TorrentName); files = torrent_files env (visits_made sc) in
        distinct keys \<and> rep_Tracks report = int (length keys)
        \<and> set keys \<subseteq> (\<Union>v \<in> set files. visit_keys env v)
        \<and> (\<forall>v \<in> set files. read_or_warned env v (rep_Warnings report) (set keys))))"
proof -
  obtain r1 s1 where walk: "torrent_walk env sc (tn_walk sc) zero_torrent_acc s = (r1, s1)" by fastforce
  have "keeps_tables sc" using art by (simp add: keeps_tables_def)
  then have "tables_of (tp_world s1) = tables_of (tp_world s)" by (rule preservesD [OF tables_walk refl walk])
  note same = tables_of_eq [OF this]
  show ?thesis
  proof (cases r1)
    case (Inl e)
    with run walk have "s' = s1" "\<exists>e. r = Inl e" by (auto simp: torrent_Scan_def bindE_def wrapE_def)
    with same wf show ?thesis by auto
  next
    case (Inr acc)
    obtain r2 w2 where rep: "sqlite_ReplaceProviderTracks TorrentName (ta_tracks acc) [] (tp_world s1) = (r2, w2)" by fastforce
    have w1: "wf_catalog (tp_world s1)" using wf same by simp
    note laws = Replace_laws [OF rep w1]
    from run walk Inr rep have r: "tp_world s' = w2"
      "r = (case r2 of Inl e \<Rightarrow> Inl (Wrap ''replace torrent catalog'' e)
        | Inr _ \<Rightarrow> Inr \<lparr>rep_Tracks = int (length (ta_tracks acc)), rep_Warnings = ta_warnings acc\<rparr>)"
      by (auto simp: torrent_Scan_def bindE_def wrapE_def on_world_def ret_def split: sum.splits prod.splits)
    show ?thesis
    proof (cases r2)
      case (Inl e)
      then show ?thesis using laws(1,2) same r by simp
    next
      case (Inr u)
      note ok = laws(3) [OF Inr]
      have keys: "map fst (provider_files w2 TorrentName) = map key_of (ta_tracks acc)" using ok by (simp add: comp_def)
      note grow = torrent_walk_run [OF walk [unfolded \<open>r1 = Inr acc\<close>] refl, folded visits_made_def]
      from grow have "set (map key_of (ta_tracks acc)) = ta_seen acc"
        "ta_seen acc \<subseteq> (\<Union>v \<in> set (torrent_files env (visits_made sc)). visit_keys env v)"
        by (simp_all add: grown_def zero_torrent_acc_def)
      with grow ok laws(1) Inr show ?thesis unfolding r keys by (simp add: Let_def)
    qed
  qed
qed

definition demo_torrent_visit :: torrent_visit where
  "demo_torrent_visit = \<lparr>tv_ctxErr = None, tv_Path = ''/t/x.torrent'', tv_walkErr = None, tv_IsDir = False, tv_Open = Inr ''t'',
     tv_closeErr = None, tv_Info = Inr 5\<rparr>"

definition demo_torrent_scanner :: torrent_scanner where
  "demo_torrent_scanner = \<lparr>tn_root = ''/t'', tn_walk = [demo_torrent_visit], tn_extractor = None, tn_artwork = None\<rparr>"

lemma demo_read:
  "\<exists>f s'. ReadCatalog (demo_torrent_env ''music'') ''t'' (NewStreaming ''/m'' '''' 3 empty_world)
     = (Inr \<lparr>tc_InfoHash = demo_hash, tc_Name = ''music'', tc_Tracks = [catalog_track demo_env demo_hash [] f]\<rparr>, s')
   \<and> tp_world s' = empty_world"
proof -
  let ?f = "\<lparr>cf_parts = [''music'', ''a.mp3''], cf_length = 3, cf_extension = ''.mp3'', cf_contentType = ''audio/mpeg''\<rparr>"
  have "catalog_files (unicode demo_env) ''music'' [([''a.mp3''], 3)] = Inr ([?f], [])"
    by (simp add: demo_safe_path demo_env_def ByExtension_def supported_def filepath_Ext_def path_base_def go_eval Let_def fmt_def)
  then have "\<exists>s'. ReadCatalog (demo_torrent_env ''music'') ''t'' (NewStreaming ''/m'' '''' 3 empty_world)
     = (Inr \<lparr>tc_InfoHash = demo_hash, tc_Name = ''music'', tc_Tracks = [catalog_track demo_env demo_hash [] ?f]\<rparr>, s')
   \<and> tp_world s' = empty_world"
    by (simp add: ReadCatalog_def with_state_def demo_torrent_env_def demo_trim_names bindE_def wrapE_def liftR_def on_world_def
      NewStreaming_def modify_def ret_def Let_def migrateLegacyData_def register_audio_sel)
  then show ?thesis by blast
qed

lemma demo_torrent_keys: "torrent_keys (demo_torrent_env ''music'') ''t'' = [demo_hash @ ''/music/a.mp3'']"
  by (simp add: torrent_keys_def demo_torrent_env_def demo_trim_names audio_parts_def is_audio_def demo_env_def ByExtension_def
    supported_def filepath_Ext_def path_base_def go_eval Let_def fmt_def source_key_def)

lemma demo_is_torrent: "is_torrent_file (unicode demo_env) demo_torrent_visit"
proof -
  have "filepath_Ext ''/t/x.torrent'' = ''.torrent''" by (simp add: filepath_Ext_def path_base_def)
  then show ?thesis by (simp add: is_torrent_file_def demo_torrent_visit_def EqualFold_def)
qed

theorem torrent_Scan_spec_witness:
  "\<exists>report s'. torrent_Scan (demo_torrent_env ''music'') demo_torrent_scanner (NewStreaming ''/m'' '''' 3 empty_world) = (Inr report, s')
    \<and> map fst (provider_files (tp_world s') TorrentName) = [demo_hash @ ''/music/a.mp3'']"
proof -
  let ?env = "demo_torrent_env ''music''" and ?s = "NewStreaming ''/m'' '''' 3 empty_world" and ?v = demo_torrent_visit
  have env: "te_text ?env = demo_env" by (simp add: demo_torrent_env_def)
  obtain f s1 where read: "ReadCatalog ?env ''t'' ?s
     = (Inr \<lparr>tc_InfoHash = demo_hash, tc_Name = ''music'', tc_Tracks = [catalog_track demo_env demo_hash [] f]\<rparr>, s1)"
    "tp_world s1 = empty_world" using demo_read by blast
  let ?t = "(catalog_track demo_env demo_hash [] f)\<lparr>ts_DiscoveredAt := 5\<rparr>"
  obtain w2 where "sqlite_ReplaceProviderTracks TorrentName [?t] [] empty_world = (Inr (), w2)"
    using demo_replace [of ?t TorrentName] by auto
  then have run: "torrent_Scan ?env demo_torrent_scanner ?s = (Inr \<lparr>rep_Tracks = 1, rep_Warnings = []\<rparr>, s1\<lparr>tp_world := w2\<rparr>)"
    using read demo_is_torrent
    by (simp add: torrent_Scan_def demo_torrent_scanner_def env read_torrent_def bindE_def wrapE_def tryE_def ret_def on_world_def
      zero_torrent_acc_def demo_torrent_visit_def enrich_cached_def ta_warn_opt_def Let_def)
  have vk: "torrent_files ?env (visits_made demo_torrent_scanner) = [?v]" "visit_keys ?env ?v = {demo_hash @ ''/music/a.mp3''}"
    using demo_is_torrent
    by (simp_all add: torrent_files_def visits_made_def demo_torrent_scanner_def visit_keys_def env demo_torrent_keys)
      (simp_all add: demo_torrent_visit_def demo_torrent_keys)
  have "wf_catalog (tp_world ?s)" by (simp add: NewStreaming_def wf_catalog_def empty_world_def)
  from torrent_Scan_spec [OF run this] vk
  have "length (map fst (provider_files w2 TorrentName)) = 1"
    "set (map fst (provider_files w2 TorrentName)) \<subseteq> {demo_hash @ ''/music/a.mp3''}"
    by (simp_all add: demo_torrent_scanner_def Let_def)
  then have "map fst (provider_files w2 TorrentName) = [demo_hash @ ''/music/a.mp3'']"
    by (cases "map fst (provider_files w2 TorrentName)") auto
  with run show ?thesis by auto
qed

end
