(* ===== verification/TorrentDownloads.thy ===== *)
theory TorrentDownloads
  imports TorrentScanner
begin

text \<open>
  The downloads of the torrent provider, \<open>adapters/providers/torrent/downloads.go\<close>, and the streams that start
  them (\<open>open\<close>, \<open>Resolve\<close> and the counters of \<open>provider.go\<close>). The critical sections are actions on the
  provider; the goroutines are the steps of a transition system. Of the torrent engine a file has a number,
  a path and a length; how many of its bytes are there is an argument wherever the code asks for it.
\<close>

section \<open>Files of the engine\<close>

record engine_file =
  ef_number :: nat
  ef_Path :: string
  ef_Length :: int

text \<open>What the engine reports for the torrent of a metadata file: an error, or its files.\<close>

type_synonym engine = "string \<Rightarrow> engine_file list result"

section \<open>Scheduling\<close>

datatype schedule_outcome = Started | Queued downloadRecord | NotNeeded

definition with_download :: "(TrackDownload \<Rightarrow> TrackDownload) \<Rightarrow> downloadRecord \<Rightarrow> downloadRecord" where
  "with_download f rec = rec\<lparr>dr_Download := f (dr_Download rec)\<rparr>"

definition begin_record :: "int \<Rightarrow> int \<Rightarrow> time \<Rightarrow> DownloadState \<Rightarrow> downloadRecord \<Rightarrow> downloadRecord" where
  "begin_record arrived len now state = with_download (\<lambda>d. d\<lparr>td_CompletedBytes := arrived, td_TotalBytes := len,
     td_UpdatedAt := now, td_State := state, td_Error := None\<rparr>)"

definition beginTrackDownloadLocked :: "torrent_env \<Rightarrow> downloadRecord \<Rightarrow> engine_file \<Rightarrow> int \<Rightarrow> (torrent_state, bool) action" where
  "beginTrackDownloadLocked env rec f bytes = now_E (\<lambda>now.
    let arrived = min bytes (ef_Length f) in
    if arrived \<ge> ef_Length f then
      (let rec' = begin_record arrived (ef_Length f) now DownloadStateCached rec
       in bindE (modify (set_download rec')) (\<lambda>_. bindE (persist_quietly env rec') (\<lambda>_. ret False)))
    else
      (let rec' = begin_record arrived (ef_Length f) now DownloadStateDownloading rec
       in bindE (modify (\<lambda>s. s\<lparr>tp_completed := tp_completed s - {ref_Key (dr_Source rec)}\<rparr>)) (\<lambda>_.
          bindE (modify (set_download rec')) (\<lambda>_.
          bindE (modify (\<lambda>s. s\<lparr>tp_activeDownloads := (tp_activeDownloads s)(td_ID (dr_Download rec) \<mapsto> ef_number f)\<rparr>)) (\<lambda>_.
          bindE (persist_quietly env rec') (\<lambda>_. ret True))))))"

definition take_slot :: "torrent_state \<Rightarrow> torrent_state" where
  "take_slot s = s\<lparr>tp_slots := tp_slots s + 1\<rparr>"

definition give_slot :: "torrent_state \<Rightarrow> torrent_state" where
  "give_slot s = s\<lparr>tp_slots := tp_slots s - 1\<rparr>"

definition scheduleTrackDownloadLocked ::
  "torrent_env \<Rightarrow> downloadRecord \<Rightarrow> engine_file \<Rightarrow> int \<Rightarrow> (torrent_state, schedule_outcome) action" where
  "scheduleTrackDownloadLocked env rec f bytes =
    (let i = td_ID (dr_Download rec); infoHash = td_SourceID (dr_Download rec) in
     now_E (\<lambda>now. bindE (modify (retain now infoHash (ref_Key (dr_Source rec)))) (\<lambda>_. with_state (\<lambda>s.
       if tp_slots s < tp_maxSlots s then
         bindE (modify take_slot) (\<lambda>_.
         bindE (beginTrackDownloadLocked env rec f bytes) (\<lambda>started.
           if started then ret Started
           else bindE (modify give_slot) (\<lambda>_. bindE (modify (release infoHash)) (\<lambda>_. ret NotNeeded))))
       else now_E (\<lambda>now.
         let rec' = with_download (\<lambda>d. d\<lparr>td_State := DownloadStateWaiting, td_Error := None, td_UpdatedAt := now\<rparr>) rec
         in bindE (modify (\<lambda>s. s\<lparr>tp_downloads := (tp_downloads s)(i \<mapsto> rec'), tp_pendingDownloads := (tp_pendingDownloads s)(i \<mapsto> ef_number f)\<rparr>)) (\<lambda>_.
            bindE (persist_quietly env rec') (\<lambda>_. ret (Queued rec'))))))))"

definition schedule_unless_busy ::
  "torrent_env \<Rightarrow> downloadRecord \<Rightarrow> engine_file \<Rightarrow> int \<Rightarrow> (torrent_state, schedule_outcome option) action" where
  "schedule_unless_busy env rec f bytes = with_state (\<lambda>s.
    if tp_activeDownloads s (td_ID (dr_Download rec)) \<noteq> None \<or> tp_pendingDownloads s (td_ID (dr_Download rec)) \<noteq> None
    then ret None
    else bindE (scheduleTrackDownloadLocked env rec f bytes) (\<lambda>outcome. ret (Some outcome)))"

definition track_of_key :: "torrent_env \<Rightarrow> string \<Rightarrow> string \<Rightarrow> string \<Rightarrow> int \<Rightarrow> (torrent_state, string) action" where
  "track_of_key env key infoHash logicalPath len = with_state (\<lambda>s.
    if tp_trackIDs s key \<noteq> '''' then ret (tp_trackIDs s key)
    else let trackID = logicalTrackID (te_text env) infoHash logicalPath len
         in bindE (modify (registerTrack key trackID)) (\<lambda>_. ret trackID))"

definition new_record ::
  "torrent_env \<Rightarrow> SourceRef \<Rightarrow> string \<Rightarrow> string \<Rightarrow> engine_file \<Rightarrow> int \<Rightarrow> string \<Rightarrow> time \<Rightarrow> downloadRecord" where
  "new_record env ref infoHash logicalPath f bytes trackID now =
    \<lparr>dr_Download = \<lparr>td_ID = download_id env ref, td_Provider = TorrentName, td_SourceID = infoHash, td_TrackID = trackID,
       td_Name = path_Base logicalPath, td_State = DownloadStateDownloading, td_CompletedBytes = min bytes (ef_Length f),
       td_TotalBytes = ef_Length f, td_Error = None, td_StartedAt = now, td_UpdatedAt = now\<rparr>,
     dr_Source = ref, dr_LogicalPath = logicalPath\<rparr>"

definition merge_existing :: "torrent_state \<Rightarrow> downloadRecord \<Rightarrow> downloadRecord" where
  "merge_existing s rec = (case tp_downloads s (td_ID (dr_Download rec)) of
     None \<Rightarrow> rec
   | Some existing \<Rightarrow> with_download (\<lambda>d. d\<lparr>td_StartedAt := td_StartedAt (dr_Download existing),
       td_TrackID := (if td_TrackID d = '''' then td_TrackID (dr_Download existing) else td_TrackID d)\<rparr>) rec)"

definition queueTrackDownload ::
  "torrent_env \<Rightarrow> SourceRef \<Rightarrow> string \<Rightarrow> string \<Rightarrow> engine_file \<Rightarrow> int \<Rightarrow> int \<Rightarrow> (torrent_state, schedule_outcome option) action" where
  "queueTrackDownload env ref infoHash logicalPath f bytes0 bytes =
    bindE (track_of_key env (ref_Key ref) infoHash logicalPath (ef_Length f)) (\<lambda>trackID.
    now_E (\<lambda>now. with_state (\<lambda>s.
      schedule_unless_busy env (merge_existing s (new_record env ref infoHash logicalPath f bytes0 trackID now)) f bytes)))"

section \<open>Waiting and monitoring\<close>

text \<open>The second half of \<open>waitForDownloadSlot\<close>, with a slot in hand.\<close>

definition wait_granted :: "torrent_env \<Rightarrow> downloadRecord \<Rightarrow> engine_file \<Rightarrow> int \<Rightarrow> (torrent_state, bool) action" where
  "wait_granted env rec f bytes = with_state (\<lambda>s.
    let i = td_ID (dr_Download rec); pending = tp_pendingDownloads s i; exists = tp_downloads s i \<noteq> None in
    bindE (modify (\<lambda>s. s\<lparr>tp_pendingDownloads := (tp_pendingDownloads s)(i := None)\<rparr>)) (\<lambda>_.
    bindE (if \<not> exists \<or> pending \<noteq> Some (ef_number f) then ret False else beginTrackDownloadLocked env rec f bytes) (\<lambda>started.
      if started then ret True
      else bindE (modify give_slot) (\<lambda>_.
        bindE (modify (release (td_SourceID (dr_Download rec)))) (\<lambda>_. ret False)))))"

definition wait_cancelled :: "downloadRecord \<Rightarrow> torrent_state \<Rightarrow> torrent_state" where
  "wait_cancelled rec s = s\<lparr>tp_pendingDownloads := (tp_pendingDownloads s)(td_ID (dr_Download rec) := None)\<rparr>"

datatype poll_outcome = Gone | Unfinished | Finished downloadRecord

text \<open>One turn of the loop of \<open>monitorTrackDownload\<close>.\<close>

definition monitor_poll :: "torrent_env \<Rightarrow> string \<Rightarrow> engine_file \<Rightarrow> int \<Rightarrow> (torrent_state, poll_outcome) action" where
  "monitor_poll env i f bytes = with_state (\<lambda>s.
    let arrived = min bytes (ef_Length f) in
    case tp_downloads s i of
      None \<Rightarrow> ret Gone
    | Some rec \<Rightarrow> now_E (\<lambda>now.
        let rec1 = with_download (\<lambda>d. d\<lparr>td_CompletedBytes := arrived, td_UpdatedAt := now\<rparr>) rec
        in if arrived \<ge> ef_Length f then
             (let rec2 = with_download (\<lambda>d. d\<lparr>td_State := DownloadStateCached, td_Error := None\<rparr>) rec1
              in bindE (modify (\<lambda>s. s\<lparr>tp_downloads := (tp_downloads s)(i \<mapsto> rec2)\<rparr>)) (\<lambda>_.
                 bindE (persist_quietly env rec2) (\<lambda>_. ret (Finished rec2))))
           else bindE (modify (\<lambda>s. s\<lparr>tp_downloads := (tp_downloads s)(i \<mapsto> rec1)\<rparr>)) (\<lambda>_. ret Unfinished)))"

text \<open>The deferred function of \<open>monitorTrackDownload\<close>: the source to release is read from the record, that of
  a missing record is empty.\<close>

definition monitor_cleanup :: "string \<Rightarrow> (torrent_state, string) action" where
  "monitor_cleanup i = with_state (\<lambda>s.
    bindE (modify (\<lambda>s. s\<lparr>tp_activeDownloads := (tp_activeDownloads s)(i := None)\<rparr>)) (\<lambda>_.
      ret (case tp_downloads s i of None \<Rightarrow> '''' | Some rec \<Rightarrow> td_SourceID (dr_Download rec))))"

text \<open>\<open>notifyCompleted\<close>: the info hash and the file to hand to the completion handler, if it is to be called.\<close>

definition notifyCompleted :: "bool \<Rightarrow> SourceRef \<Rightarrow> string \<Rightarrow> (torrent_state, (string \<times> string \<times> string) option) action" where
  "notifyCompleted handler ref logicalPath = with_state (\<lambda>s.
    case parseSourceKey (ref_Key ref) of
      Inl _ \<Rightarrow> ret None
    | Inr (infoHash, _) \<Rightarrow>
        let trackID = tp_trackIDs s (ref_Key ref) in
        if trackID = '''' \<or> \<not> handler \<or> tp_closing s \<or> ref_Key ref \<in> tp_completed s then ret None
        else bindE (modify (\<lambda>s. s\<lparr>tp_completed := insert (ref_Key ref) (tp_completed s)\<rparr>)) (\<lambda>_.
          now_E (\<lambda>now. bindE (modify (retain now infoHash (ref_Key ref))) (\<lambda>_.
            ret (Some (infoHash, trackID, cachePath (tp_dataRoot s) infoHash logicalPath))))))"

section \<open>The list of downloads\<close>

definition torrent_download_lt :: "TrackDownload \<Rightarrow> TrackDownload \<Rightarrow> bool" where
  "torrent_download_lt a b = (if td_StartedAt a = td_StartedAt b then td_Name a < td_Name b else td_StartedAt a > td_StartedAt b)"

definition refresh_active :: "torrent_env \<Rightarrow> string \<Rightarrow> downloadRecord \<Rightarrow> int \<Rightarrow> (torrent_state, downloadRecord) action" where
  "refresh_active env i rec bytes = now_E (\<lambda>now.
    let rec1 = with_download (\<lambda>d. d\<lparr>td_CompletedBytes := min bytes (td_TotalBytes d), td_UpdatedAt := now\<rparr>) rec;
        complete = td_CompletedBytes (dr_Download rec1) \<ge> td_TotalBytes (dr_Download rec1);
        rec2 = (if complete then with_download (\<lambda>d. d\<lparr>td_State := DownloadStateCached, td_Error := None\<rparr>) rec1 else rec1)
    in bindE (if complete then persistDownloadLocked env rec2 else ret ()) (\<lambda>_.
       bindE (modify (\<lambda>s. s\<lparr>tp_downloads := (tp_downloads s)(i \<mapsto> rec2)\<rparr>)) (\<lambda>_. ret rec2)))"

definition refresh_cached :: "torrent_env \<Rightarrow> string \<Rightarrow> downloadRecord \<Rightarrow> (torrent_state, downloadRecord) action" where
  "refresh_cached env i rec = with_state (\<lambda>s.
    if td_State (dr_Download rec) \<noteq> DownloadStateCached then ret rec
    else bindE (on_world (fileExists (cachePath (tp_dataRoot s) (td_SourceID (dr_Download rec)) (dr_LogicalPath rec)))) (\<lambda>exists.
      if exists then ret rec
      else now_E (\<lambda>now. bindE (modify (\<lambda>s. s\<lparr>tp_downloads := (tp_downloads s)(i \<mapsto> evicted_record now rec)\<rparr>)) (\<lambda>_.
        bindE (persistDownloadLocked env (evicted_record now rec)) (\<lambda>_. ret (evicted_record now rec))))))"

text \<open>\<open>bytes\<close> is what the engine reports for the file of an active download, \<open>ids\<close> the order in which Go visits the map.\<close>

fun list_downloads :: "torrent_env \<Rightarrow> (string \<Rightarrow> int) \<Rightarrow> string list \<Rightarrow> (torrent_state, TrackDownload list) action" where
  "list_downloads env bytes [] = ret []"
| "list_downloads env bytes (i # ids) = with_state (\<lambda>s.
    case tp_downloads s i of
      None \<Rightarrow> list_downloads env bytes ids
    | Some rec \<Rightarrow>
        bindE (on_world ctx_Err) (\<lambda>_.
        bindE (if tp_activeDownloads s i \<noteq> None then refresh_active env i rec (bytes i) else refresh_cached env i rec) (\<lambda>rec'.
        bindE (list_downloads env bytes ids) (\<lambda>rest. ret (dr_Download rec' # rest)))))"

definition TrackDownloads :: "torrent_env \<Rightarrow> (string \<Rightarrow> int) \<Rightarrow> string list \<Rightarrow> (torrent_state, TrackDownload list) action" where
  "TrackDownloads env bytes ids = bindE (list_downloads env bytes ids) (\<lambda>ds. ret (SliceStable torrent_download_lt ds))"

section \<open>Opening a file\<close>

definition ensureClient :: "(torrent_state, unit) action" where
  "ensureClient = with_state (\<lambda>s.
    if tp_client s \<noteq> None then ret ()
    else if tp_metadataRoot s = '''' \<or> tp_dataRoot s = '''' then fail (Wrap ''torrent streaming is not configured'' ErrSourceUnavailable)
    else bindE (wrapE ''create torrent data directory'' (on_world os_MkdirAll)) (\<lambda>_.
      bindE (wrapE ''start torrent client'' (on_world file_step)) (\<lambda>_.
        modify (\<lambda>s. s\<lparr>tp_client := Some Map.empty\<rparr>))))"

text \<open>\<open>AddTorrentSpec\<close> attaches a torrent unless it is attached; then its metadata are awaited.\<close>

definition attach :: "string \<Rightarrow> torrent_state \<Rightarrow> torrent_state" where
  "attach infoHash s = (case tp_client s of
     None \<Rightarrow> s
   | Some attached \<Rightarrow> if attached infoHash = None then s\<lparr>tp_client := Some (attached(infoHash \<mapsto> True))\<rparr> else s)"

definition attach_torrent :: "engine \<Rightarrow> string \<Rightarrow> (torrent_state, engine_file list) action" where
  "attach_torrent eng infoHash =
    bindE (wrapE ''add torrent'' (liftR (eng infoHash))) (\<lambda>files.
    bindE (modify (attach infoHash)) (\<lambda>_. bindE (on_world ctx_Err) (\<lambda>_. ret files)))"

definition load_info :: "torrent_env \<Rightarrow> string \<Rightarrow> (torrent_state, torrent_info) action" where
  "load_info env infoHash = with_state (\<lambda>s.
    tryE (on_world (os_Open (filepath_Join [tp_metadataRoot s, infoHash @ ''.torrent'']))) (\<lambda>r. case r of
      Inl err \<Rightarrow> if err = os_ErrNotExist then fail (Wrap ''torrent metadata is missing'' ErrSourceUnavailable)
                 else fail (Wrap ''load torrent'' err)
    | Inr (contents, _) \<Rightarrow>
        bindE (wrapE ''load torrent'' (liftR (te_Load env contents))) (\<lambda>meta.
          if mi_InfoHash meta \<noteq> infoHash then fail (Wrap ''torrent metadata hash does not match source'' ErrSourceUnavailable)
          else wrapE ''decode torrent'' (liftR (mi_Info meta)))))"

text \<open>\<open>open\<close> up to the file of the engine, with the read lock of \<open>operation\<close> held.\<close>

definition open_file :: "torrent_env \<Rightarrow> engine \<Rightarrow> SourceRef \<Rightarrow> (torrent_state, string \<times> string \<times> engine_file) action" where
  "open_file env eng ref =
    bindE (liftR (parseSourceKey (ref_Key ref))) (\<lambda>(infoHash, logicalPath).
    bindE (sourceMarkerExists infoHash ''paused'') (\<lambda>paused.
      if paused then fail (Wrap ''torrent source is paused'' ErrSourceUnavailable)
      else bindE ensureClient (\<lambda>_.
        bindE (load_info env infoHash) (\<lambda>info. with_state (\<lambda>s.
        bindE (wrapE ''migrate torrent cache'' (on_world (migrateLegacyData (tp_dataRoot s) infoHash info))) (\<lambda>_.
        bindE (wrapE ''prepare torrent cache verification'' (on_world (prepareLegacyData (tp_dataRoot s) infoHash info))) (\<lambda>_.
        bindE (wrapE ''reconcile torrent cache'' (on_world (reconcileCacheData (tp_dataRoot s) infoHash info))) (\<lambda>_.
        bindE (attach_torrent eng infoHash) (\<lambda>files.
          case List.find (\<lambda>f. ef_Path f = logicalPath) files of
            None \<Rightarrow> fail (Wrap ''torrent file is missing'' ErrSourceUnavailable)
          | Some f \<Rightarrow>
              bindE (on_world (fileExists (cachePath (tp_dataRoot s) infoHash logicalPath @ ''.part''))) (\<lambda>partial.
              bindE (if partial then wrapE ''verify cached torrent file'' (on_world file_step) else ret ()) (\<lambda>_.
                ret (infoHash, logicalPath, f))))))))))))"

definition Resolve_ref :: "string \<Rightarrow> SourceRef \<Rightarrow> (torrent_state, unit) action" where
  "Resolve_ref trackID ref =
    (if ref_Provider ref \<noteq> TorrentName then fail (Errorf ''cannot resolve provider'')
     else if trackID \<noteq> '''' then modify (registerTrack (ref_Key ref) trackID) else ret ())"

definition artwork_ref :: "string \<Rightarrow> (torrent_state, SourceRef) action" where
  "artwork_ref i = with_state (\<lambda>s. case tp_artworks s i of None \<Rightarrow> fail ErrNotFound | Some ref \<Rightarrow> ret ref)"

section \<open>Resuming downloads\<close>

definition resume_file :: "torrent_env \<Rightarrow> engine \<Rightarrow> downloadRecord \<Rightarrow> (torrent_state, engine_file) action" where
  "resume_file env eng rec = with_state (\<lambda>s.
    let sourceID = td_SourceID (dr_Download rec) in
    bindE (wrapE ''load torrent metadata'' (on_world (os_Open (filepath_Join [tp_metadataRoot s, sourceID @ ''.torrent''])))) (\<lambda>(contents, _).
    bindE (wrapE ''load torrent metadata'' (liftR (te_Load env contents))) (\<lambda>meta.
      if mi_InfoHash meta \<noteq> sourceID then fail (Errorf ''torrent metadata hash does not match download source'')
      else bindE ensureClient (\<lambda>_. bindE (attach_torrent eng sourceID) (\<lambda>files.
        case List.find (\<lambda>f. ef_Path f = dr_LogicalPath rec) files of
          None \<Rightarrow> fail (Errorf ''torrent track is missing'')
        | Some f \<Rightarrow> ret f)))))"

definition resume_register :: "torrent_env \<Rightarrow> downloadRecord \<Rightarrow> (torrent_state, unit) action" where
  "resume_register env rec = with_state (\<lambda>s.
    bindE (if tp_downloads s (td_ID (dr_Download rec)) \<noteq> None then ret ()
           else bindE (modify (set_download rec)) (\<lambda>_. persist_quietly env rec)) (\<lambda>_.
      if td_TrackID (dr_Download rec) \<noteq> '''' then modify (registerTrack (ref_Key (dr_Source rec)) (td_TrackID (dr_Download rec)))
      else ret ()))"

definition to_resume :: "downloadRecord \<Rightarrow> (torrent_state, bool) action" where
  "to_resume rec =
    (if td_State (dr_Download rec) \<noteq> DownloadStateWaiting \<and> td_State (dr_Download rec) \<noteq> DownloadStateDownloading then ret False
     else bindE (sourceMarkerExists (td_SourceID (dr_Download rec)) ''paused'') (\<lambda>paused. ret (\<not> paused)))"

definition resumeTrackDownload ::
  "torrent_env \<Rightarrow> engine \<Rightarrow> (engine_file \<Rightarrow> int) \<Rightarrow> downloadRecord \<Rightarrow> (torrent_state, engine_file \<times> schedule_outcome option) action" where
  "resumeTrackDownload env eng bytes rec =
    bindE (resume_file env eng rec) (\<lambda>f. bindE (schedule_unless_busy env rec f (bytes f)) (\<lambda>outcome. ret (f, outcome)))"

text \<open>The result is what was started and the errors that are joined.\<close>

type_synonym resumed = "(string \<times> engine_file \<times> schedule_outcome option) list \<times> go_error list"

definition resume_job :: "torrent_env \<Rightarrow> engine \<Rightarrow> (engine_file \<Rightarrow> int) \<Rightarrow> downloadRecord \<Rightarrow> resumed \<Rightarrow> (torrent_state, resumed) action" where
  "resume_job env eng bytes rec acc =
    (let i = td_ID (dr_Download rec) in
     bindE (resume_register env rec) (\<lambda>_. bindE (to_resume rec) (\<lambda>resume.
       if \<not> resume then ret acc
       else tryE (resumeTrackDownload env eng bytes rec) (\<lambda>r. case r of
         Inl err \<Rightarrow> bindE (markDownloadFailed env i err) (\<lambda>_. ret (fst acc, snd acc @ [Wrap ''resume'' err]))
       | Inr (f, outcome) \<Rightarrow> ret (fst acc @ [(i, f, outcome)], snd acc)))))"

fun resume_loop ::
  "torrent_env \<Rightarrow> engine \<Rightarrow> (engine_file \<Rightarrow> int) \<Rightarrow> (string \<times> bool) list \<Rightarrow> resumed \<Rightarrow> (torrent_state, resumed) action" where
  "resume_loop env eng bytes [] acc = ret acc"
| "resume_loop env eng bytes ((name, isDir) # entries) acc =
    tryE (on_world ctx_Err) (\<lambda>r. case r of
      Inl err \<Rightarrow> ret (fst acc, snd acc @ [err])
    | Inr _ \<Rightarrow>
        if isDir \<or> filepath_Ext name \<noteq> ''.json'' then resume_loop env eng bytes entries acc
        else with_state (\<lambda>s. tryE (on_world (readDownloadRecord env (filepath_Join [downloadDirectory s, name]))) (\<lambda>r. case r of
          Inl err \<Rightarrow> resume_loop env eng bytes entries (fst acc, snd acc @ [err])
        | Inr rec \<Rightarrow> bindE (resume_job env eng bytes rec acc) (resume_loop env eng bytes entries))))"

definition ResumeTrackDownloads :: "torrent_env \<Rightarrow> engine \<Rightarrow> (engine_file \<Rightarrow> int) \<Rightarrow> (torrent_state, resumed) action" where
  "ResumeTrackDownloads env eng bytes = with_state (\<lambda>s.
    tryE (on_world (os_ReadDir (downloadDirectory s))) (\<lambda>r. case r of
      Inl err \<Rightarrow> if err = os_ErrNotExist then ret ([], []) else fail (Wrap ''read torrent download jobs'' err)
    | Inr entries \<Rightarrow> resume_loop env eng bytes entries ([], [])))"

definition ResumeSource :: "torrent_env \<Rightarrow> engine \<Rightarrow> (engine_file \<Rightarrow> int) \<Rightarrow> string \<Rightarrow> (torrent_state, resumed) action" where
  "ResumeSource env eng bytes i = bindE (setSourcePaused i False) (\<lambda>_. ResumeTrackDownloads env eng bytes)"

section \<open>Goroutines\<close>

text \<open>
  The points at which a goroutine can be interrupted. \<open>Opening\<close>, \<open>Opened\<close>, \<open>Resuming\<close> and \<open>Resumed\<close> hold the read
  lock of \<open>operation\<close>. \<open>Pruning\<close> is inside the handler that \<open>release\<close> calls, which found the cache
  over its capacity and waits in \<open>Evict\<close> for the write lock of \<open>operation\<close>; it goes on as its argument.
\<close>

datatype goroutine =
    Opening SourceRef string string engine_file
  | Opened string SourceRef string
  | Streaming string SourceRef string
  | Resuming downloadRecord engine_file
  | Resumed
  | Waiting downloadRecord engine_file
  | Granted downloadRecord engine_file
  | Stopping string
  | Monitoring string engine_file
  | Notifying string SourceRef string
  | Cleaning string
  | Releasing string
  | Returning
  | Handling string
  | Pruning "goroutine option"

record download_sys =
  ds_provider :: torrent_state
  ds_threads :: "goroutine list"
  ds_cancelled :: bool

fun reading :: "goroutine \<Rightarrow> bool" where
  "reading (Opening _ _ _ _) = True"
| "reading (Opened _ _ _) = True"
| "reading (Resuming _ _) = True"
| "reading Resumed = True"
| "reading (Pruning (Some g)) = reading g"
| "reading _ = False"

fun wants_write :: "goroutine \<Rightarrow> bool" where
  "wants_write (Pruning _) = True"
| "wants_write _ = False"

text \<open>\<open>sync.RWMutex\<close>: a writer waits for the readers, and new readers wait for a writer.\<close>

definition may_read :: "download_sys \<Rightarrow> bool" where
  "may_read s \<longleftrightarrow> \<not> list_ex wants_write (ds_threads s)"

definition may_write :: "download_sys \<Rightarrow> bool" where
  "may_write s \<longleftrightarrow> \<not> list_ex reading (ds_threads s)"

text \<open>\<open>over\<close>: a handler is set and finds too much in the cache.\<close>

definition after_release :: "bool \<Rightarrow> goroutine list \<Rightarrow> goroutine list" where
  "after_release over gs = (if over then [Pruning (case gs of [] \<Rightarrow> None | g # _ \<Rightarrow> Some g)] else gs)"

fun after_schedule :: "bool \<Rightarrow> string \<Rightarrow> engine_file \<Rightarrow> goroutine \<Rightarrow> schedule_outcome option \<Rightarrow> goroutine list" where
  "after_schedule over i f g None = [g]"
| "after_schedule over i f g (Some Started) = [g, Monitoring i f]"
| "after_schedule over i f g (Some (Queued rec)) = [g, Waiting rec f]"
| "after_schedule over i f g (Some NotNeeded) = after_release over [g]"

text \<open>One step of a goroutine: the provider after it and what the goroutine becomes, with those it starts.\<close>

inductive thread_step ::
  "torrent_env \<Rightarrow> bool \<Rightarrow> torrent_state \<Rightarrow> goroutine \<Rightarrow> torrent_state \<Rightarrow> goroutine list \<Rightarrow> bool"
  for env :: torrent_env and cancelled :: bool and p :: torrent_state
where
  queue: "queueTrackDownload env ref h path f bytes0 bytes p = (Inr outcome, p') \<Longrightarrow>
    thread_step env cancelled p (Opening ref h path f) p' (after_schedule over (download_id env ref) f (Opened h ref path) outcome)"
| stream: "thread_step env cancelled p (Opened h ref path) (retainStream now h (ref_Key ref) p) [Streaming h ref path]"
| read_all: "notifyCompleted handler ref path p = (Inr None, p') \<Longrightarrow>
    thread_step env cancelled p (Streaming h ref path) p' [Streaming h ref path]"
| read_all_new: "notifyCompleted handler ref path p = (Inr (Some (k, file)), p') \<Longrightarrow>
    thread_step env cancelled p (Streaming h ref path) p' [Streaming h ref path, Handling k]"
| close: "thread_step env cancelled p (Streaming h ref path) (releaseStream h p) (after_release over [])"
| resume: "schedule_unless_busy env rec f bytes p = (Inr outcome, p') \<Longrightarrow>
    thread_step env cancelled p (Resuming rec f) p' (after_schedule over (td_ID (dr_Download rec)) f Resumed outcome)"
| resumed: "thread_step env cancelled p Resumed p []"
| grant: "tp_slots p < tp_maxSlots p \<Longrightarrow> thread_step env cancelled p (Waiting rec f) (take_slot p) [Granted rec f]"
| give_up: "cancelled \<Longrightarrow>
    thread_step env cancelled p (Waiting rec f) (wait_cancelled rec p) [Stopping (td_SourceID (dr_Download rec))]"
| stop: "thread_step env cancelled p (Stopping h) (release h p) (after_release over [])"
| wait_started: "wait_granted env rec f bytes p = (Inr True, p') \<Longrightarrow>
    thread_step env cancelled p (Granted rec f) p' [Monitoring (td_ID (dr_Download rec)) f]"
| wait_rejected: "wait_granted env rec f bytes p = (Inr False, p') \<Longrightarrow>
    thread_step env cancelled p (Granted rec f) p' (after_release over [])"
| poll: "monitor_poll env i f bytes p = (Inr Unfinished, p') \<Longrightarrow> thread_step env cancelled p (Monitoring i f) p' [Monitoring i f]"
| poll_cancelled: "cancelled \<Longrightarrow> monitor_poll env i f bytes p = (Inr Unfinished, p') \<Longrightarrow>
    thread_step env cancelled p (Monitoring i f) p' [Cleaning i]"
| poll_gone: "monitor_poll env i f bytes p = (Inr Gone, p') \<Longrightarrow> thread_step env cancelled p (Monitoring i f) p' [Cleaning i]"
| poll_finished: "monitor_poll env i f bytes p = (Inr (Finished rec), p') \<Longrightarrow>
    thread_step env cancelled p (Monitoring i f) p' [Notifying i (dr_Source rec) (dr_LogicalPath rec)]"
| notify: "notifyCompleted handler ref path p = (Inr None, p') \<Longrightarrow> thread_step env cancelled p (Notifying i ref path) p' [Cleaning i]"
| notify_new: "notifyCompleted handler ref path p = (Inr (Some (k, file)), p') \<Longrightarrow>
    thread_step env cancelled p (Notifying i ref path) p' [Cleaning i, Handling k]"
| clean: "monitor_cleanup i p = (Inr h, p') \<Longrightarrow> thread_step env cancelled p (Cleaning i) p' [Releasing h]"
| released: "thread_step env cancelled p (Releasing h) (release h p) (after_release over [Returning])"
| return: "thread_step env cancelled p Returning (give_slot p) []"
| complete: "thread_step env cancelled p (Handling h) (release h p) (after_release over [])"

text \<open>The steps of the system. A request that needs the read lock waits for \<open>may_read\<close>, one that needs the write
  lock for \<open>may_write\<close>.\<close>

inductive download_step :: "torrent_env \<Rightarrow> download_sys \<Rightarrow> download_sys \<Rightarrow> bool" for env :: torrent_env where
  thread: "ds_threads s = xs @ g # ys \<Longrightarrow> thread_step env (ds_cancelled s) (ds_provider s) g p gs \<Longrightarrow>
    download_step env s (s\<lparr>ds_provider := p, ds_threads := xs @ gs @ ys\<rparr>)"
| prune: "ds_threads s = xs @ Pruning k # ys \<Longrightarrow> may_write s \<Longrightarrow> torrent_Evict env keys n (ds_provider s) = (r, p) \<Longrightarrow>
    download_step env s (s\<lparr>ds_provider := p, ds_threads := xs @ (case k of None \<Rightarrow> [] | Some g \<Rightarrow> [g]) @ ys\<rparr>)"
| open_ok: "may_read s \<Longrightarrow> open_file env eng ref (ds_provider s) = (Inr (h, path, f), p) \<Longrightarrow>
    download_step env s (s\<lparr>ds_provider := p, ds_threads := ds_threads s @ [Opening ref h path f]\<rparr>)"
| open_failed: "may_read s \<Longrightarrow> open_file env eng ref (ds_provider s) = (Inl e, p) \<Longrightarrow> download_step env s (s\<lparr>ds_provider := p\<rparr>)"
| resolve: "Resolve_ref trackID ref (ds_provider s) = (r, p) \<Longrightarrow> download_step env s (s\<lparr>ds_provider := p\<rparr>)"
| register: "may_read s \<Longrightarrow> resume_register env rec (ds_provider s) = (r, p) \<Longrightarrow> download_step env s (s\<lparr>ds_provider := p\<rparr>)"
| resuming: "may_read s \<Longrightarrow> resume_file env eng rec (ds_provider s) = (Inr f, p) \<Longrightarrow>
    download_step env s (s\<lparr>ds_provider := p, ds_threads := ds_threads s @ [Resuming rec f]\<rparr>)"
| resume_failed: "may_read s \<Longrightarrow> resume_file env eng rec (ds_provider s) = (Inl e, p) \<Longrightarrow>
    markDownloadFailed env (td_ID (dr_Download rec)) e p = (r, p') \<Longrightarrow> download_step env s (s\<lparr>ds_provider := p'\<rparr>)"
| listed: "TrackDownloads env bytes ids (ds_provider s) = (r, p) \<Longrightarrow> download_step env s (s\<lparr>ds_provider := p\<rparr>)"
| catalog: "ReadCatalog env contents (ds_provider s) = (r, p) \<Longrightarrow> download_step env s (s\<lparr>ds_provider := p\<rparr>)"
| paused: "may_read s \<Longrightarrow> setSourcePaused i b (ds_provider s) = (r, p) \<Longrightarrow> download_step env s (s\<lparr>ds_provider := p\<rparr>)"
| pinned: "may_read s \<Longrightarrow> PinSource i b (ds_provider s) = (r, p) \<Longrightarrow> download_step env s (s\<lparr>ds_provider := p\<rparr>)"
| evicted: "may_write s \<Longrightarrow> torrent_Evict env keys n (ds_provider s) = (r, p) \<Longrightarrow> download_step env s (s\<lparr>ds_provider := p\<rparr>)"
| removed: "may_write s \<Longrightarrow> torrent_RemoveSource ids i deleteData (ds_provider s) = (r, p) \<Longrightarrow> download_step env s (s\<lparr>ds_provider := p\<rparr>)"
| cancel: "download_step env s (s\<lparr>ds_provider := (ds_provider s)\<lparr>tp_closing := True\<rparr>, ds_cancelled := True\<rparr>)"

definition idle_system :: "torrent_state \<Rightarrow> download_sys" where
  "idle_system p = \<lparr>ds_provider = p, ds_threads = [], ds_cancelled = False\<rparr>"

inductive download_reachable :: "torrent_env \<Rightarrow> download_sys \<Rightarrow> bool" for env :: torrent_env where
  start: "download_reachable env (idle_system (NewStreaming metadataRoot dataRoot maxActiveDownloads w))"
| step: "download_reachable env s \<Longrightarrow> download_step env s s' \<Longrightarrow> download_reachable env s'"

section \<open>What the jobs are\<close>

definition source_map :: "torrent_state \<Rightarrow> string \<Rightarrow> string option" where
  "source_map p i = map_option (\<lambda>rec. td_SourceID (dr_Download rec)) (tp_downloads p i)"

lemma source_map_update [simp]:
  "source_map (p\<lparr>tp_client := a\<rparr>) = source_map p" "source_map (p\<lparr>tp_cacheFiles := b\<rparr>) = source_map p"
  "source_map (p\<lparr>tp_active := c\<rparr>) = source_map p" "source_map (p\<lparr>tp_streams := c\<rparr>) = source_map p"
  "source_map (p\<lparr>tp_lastAccessed := d\<rparr>) = source_map p" "source_map (p\<lparr>tp_artworks := e\<rparr>) = source_map p"
  "source_map (p\<lparr>tp_trackIDs := f\<rparr>) = source_map p" "source_map (p\<lparr>tp_completed := g\<rparr>) = source_map p"
  "source_map (p\<lparr>tp_closing := h\<rparr>) = source_map p" "source_map (p\<lparr>tp_activeDownloads := j\<rparr>) = source_map p"
  "source_map (p\<lparr>tp_pendingDownloads := j\<rparr>) = source_map p" "source_map (p\<lparr>tp_slots := n\<rparr>) = source_map p"
  "source_map (p\<lparr>tp_world := w\<rparr>) = source_map p"
  "source_map (p\<lparr>tp_downloads := (tp_downloads p)(i \<mapsto> rec)\<rparr>) = (source_map p)(i \<mapsto> td_SourceID (dr_Download rec))"
  "source_map (p\<lparr>tp_downloads := (tp_downloads p)(i := None)\<rparr>) = (source_map p)(i := None)"
  by (simp_all add: source_map_def fun_eq_iff)

definition jobs_view where
  "jobs_view p = (tp_slots p, tp_maxSlots p, tp_active p, tp_streams p, tp_pendingDownloads p, tp_activeDownloads p, source_map p)"

abbreviation same_jobs where
  "same_jobs v p \<equiv> jobs_view p = v"

lemma view_on_world [preserving]: "preserves (same_jobs v) (on_world act)"
  by (auto simp: preserves_def on_world_def case_prod_beta Let_def jobs_view_def source_map_def)

lemma view_now [preserving]: "(\<And>t. preserves (same_jobs v) (k t)) \<Longrightarrow> preserves (same_jobs v) (now_E k)"
  unfolding now_E_def by (rule preserves_readE) (auto simp: jobs_view_def source_map_def time_Now_def)

lemma view_persist [preserving]: "preserves (same_jobs v) (persistDownloadLocked env rec)" "preserves (same_jobs v) (persist_quietly env rec)"
  unfolding persist_quietly_def persistDownloadLocked_def Let_def by (intro preserving)+

lemma view_marker [preserving]: "preserves (same_jobs v) (sourceMarkerExists h m)" "preserves (same_jobs v) (setSourceMarker h m b)"
  "preserves (same_jobs v) (validateSourceID h)"
  unfolding sourceMarkerExists_def setSourceMarker_def validateSourceID_def Let_def by (intro preserving)+

text \<open>A record may be replaced by one of the same source.\<close>

definition known_source where
  "known_source v i h \<longleftrightarrow> (case v of (_, _, _, _, _, _, src) \<Rightarrow> src i = Some h)"

lemma preserves_download:
  assumes "\<And>s. same_jobs v s \<Longrightarrow> preserves (same_jobs v) (a s)"
    and "\<And>s rec. same_jobs v s \<Longrightarrow> known_source v i (td_SourceID (dr_Download rec)) \<Longrightarrow> preserves (same_jobs v) (k s rec)"
  shows "preserves (same_jobs v) (with_state (\<lambda>s. case tp_downloads s i of None \<Rightarrow> a s | Some rec \<Rightarrow> k s rec))"
proof (rule preserves_with_state)
  fix s0 assume v: "same_jobs v s0"
  show "preserves (same_jobs v) (case tp_downloads s0 i of None \<Rightarrow> a s0 | Some rec \<Rightarrow> k s0 rec)"
  proof (cases "tp_downloads s0 i")
    case (Some rec)
    with v have "known_source v i (td_SourceID (dr_Download rec))" by (auto simp: known_source_def jobs_view_def source_map_def)
    with Some v assms(2) show ?thesis by simp
  qed (use v assms(1) in simp)
qed

lemma view_set:
  assumes "known_source v i (td_SourceID (dr_Download rec))"
    "\<And>s. tp_slots (f s) = tp_slots s \<and> tp_maxSlots (f s) = tp_maxSlots s \<and> tp_active (f s) = tp_active s \<and> tp_streams (f s) = tp_streams s
      \<and> tp_pendingDownloads (f s) = tp_pendingDownloads s \<and> tp_activeDownloads (f s) = tp_activeDownloads s
      \<and> tp_downloads (f s) = (tp_downloads s)(i \<mapsto> rec)"
  shows "preserves (same_jobs v) (modify f)"
  using assms by (intro preserves_modify) (auto simp: jobs_view_def known_source_def source_map_def fun_eq_iff)

lemma source_of_changed [simp]:
  "(\<And>d. td_SourceID (f d) = td_SourceID d) \<Longrightarrow> td_SourceID (dr_Download (with_download f rec)) = td_SourceID (dr_Download rec)"
  "td_SourceID (dr_Download (evicted_record now rec)) = td_SourceID (dr_Download rec)"
  by (simp_all add: with_download_def evicted_record_def)

lemma view_evicted [preserving]: "preserves (same_jobs v) (markDownloadEvicted env key)"
  unfolding markDownloadEvicted_def Let_def by (intro preserving preserves_download view_set) simp_all

lemma view_failed [preserving]: "preserves (same_jobs v) (markDownloadFailed env i e)"
  unfolding markDownloadFailed_def Let_def by (intro preserving preserves_download view_set) simp_all

lemma view_Evict [preserving]: "preserves (same_jobs v) (torrent_Evict env keys n)"
proof -
  have "preserves (same_jobs v) (torrent_evict_loop env n dropped freed cs)" for dropped freed cs
  proof (induction cs arbitrary: dropped freed)
    case (Cons c cs)
    show ?case unfolding torrent_evict_loop.simps
      by (intro preserving preserves_modify Cons)
        (auto simp: jobs_view_def source_map_def drop_once_def dropTorrent_def fun_eq_iff)
  qed (simp add: preserving)
  then show ?thesis unfolding torrent_Evict_def by (intro preserving)
qed

lemma view_ReadCatalog [preserving]: "preserves (same_jobs v) (ReadCatalog env contents)"
proof -
  have fold: "jobs_view (fold f xs s) = jobs_view s" if "\<And>x s. jobs_view (f x s) = jobs_view s" for f and xs :: "catalogFile list" and s
    using that by (induction xs arbitrary: s) auto
  have "jobs_view (register_audio te h art f s) = jobs_view s" "jobs_view (register_picture h f s) = jobs_view s" for te h art f s
    by (simp_all add: register_audio_def register_picture_def registerTrack_def registerCacheFile_def registerArtwork_def Let_def
      jobs_view_def source_map_def fun_eq_iff split: option.split)
  then show ?thesis unfolding ReadCatalog_def Let_def by (intro preserving preserves_modify) (simp_all add: fold)
qed

lemma view_sources [preserving]: "preserves (same_jobs v) (setSourcePaused i b)" "preserves (same_jobs v) (PinSource i b)"
  unfolding setSourcePaused_def PinSource_def
  by ((intro preserving preserves_modify)?; simp add: jobs_view_def split: option.split)+

lemma view_client [preserving]: "preserves (same_jobs v) ensureClient" "preserves (same_jobs v) (attach_torrent eng h)"
  "preserves (same_jobs v) (load_info env h)"
  unfolding ensureClient_def attach_torrent_def load_info_def
  by (intro preserving preserves_modify; simp add: attach_def jobs_view_def split: option.split)+

lemma view_open [preserving]: "preserves (same_jobs v) (open_file env eng ref)" "preserves (same_jobs v) (resume_file env eng rec)"
  "preserves (same_jobs v) (Resolve_ref i ref)"
  unfolding open_file_def resume_file_def Resolve_ref_def Let_def
  by (intro preserving preserves_modify; simp add: registerTrack_def jobs_view_def)+

lemma view_TrackDownloads [preserving]: "preserves (same_jobs v) (TrackDownloads env bytes ids)"
proof -
  have a: "preserves (same_jobs v) (refresh_active env i rec b)" "preserves (same_jobs v) (refresh_cached env i rec)"
    if "known_source v i (td_SourceID (dr_Download rec))" for i rec b
    unfolding refresh_active_def refresh_cached_def Let_def
    by (intro preserving view_set; use that in simp)+
  have "preserves (same_jobs v) (list_downloads env bytes ids)"
  proof (induction ids)
    case (Cons i ids)
    then show ?case unfolding list_downloads.simps by (intro preserving preserves_download a)
  qed (simp add: preserving)
  then show ?thesis unfolding TrackDownloads_def by (intro preserving)
qed

subsection \<open>What scheduling changes\<close>

lemma wp_nowI: "(\<And>t w. wp (k t) Q (s\<lparr>tp_world := w\<rparr>)) \<Longrightarrow> wp (now_E k) Q s"
  by (simp add: now_E_def wp_def readE_def time_Now_def Let_def case_prod_beta)

lemma wp_persistI: "(\<And>s'. jobs_view s' = jobs_view s \<Longrightarrow> Q (Inr ()) s') \<Longrightarrow> wp (persist_quietly env rec) Q s"
proof (rule wpI)
  fix r s' assume Q: "\<And>s'. jobs_view s' = jobs_view s \<Longrightarrow> Q (Inr ()) s'" and run: "persist_quietly env rec s = (r, s')"
  have "r = Inr ()" using persist_quietly_ok [of env rec s] run by simp
  moreover have "jobs_view s' = jobs_view s" using preservesD [OF view_persist(2) refl run] .
  ultimately show "Q r s'" using Q by simp
qed

lemma wp_persist_bindI:
  "(\<And>s'. jobs_view s' = jobs_view s \<Longrightarrow> wp (k ()) Q s') \<Longrightarrow> wp (bindE (persist_quietly env rec) k) Q s"
  unfolding wp_bindE by (rule wp_persistI) simp

lemma begin_record_sel:
  "td_ID (dr_Download (begin_record a n t st rec)) = td_ID (dr_Download rec)"
  "td_SourceID (dr_Download (begin_record a n t st rec)) = td_SourceID (dr_Download rec)"
  by (simp_all add: begin_record_def with_download_def)

lemma begin_wp:
  "wp (beginTrackDownloadLocked env rec f b) (\<lambda>r p'. \<exists>started. r = Inr started \<and>
     jobs_view p' = (tp_slots p, tp_maxSlots p, tp_active p, tp_streams p, tp_pendingDownloads p,
       (if started then (tp_activeDownloads p)(td_ID (dr_Download rec) \<mapsto> ef_number f) else tp_activeDownloads p),
       (source_map p)(td_ID (dr_Download rec) \<mapsto> td_SourceID (dr_Download rec)))) p"
  (is "wp _ ?Q p")
  unfolding beginTrackDownloadLocked_def
proof (rule wp_nowI)
  fix t w
  let ?p = "p\<lparr>tp_world := w\<rparr>" and ?a = "min b (ef_Length f)"
  define r1 where "r1 = begin_record ?a (ef_Length f) t DownloadStateCached rec"
  define r2 where "r2 = begin_record ?a (ef_Length f) t DownloadStateDownloading rec"
  have v1: "jobs_view (set_download r1 ?p) = (tp_slots p, tp_maxSlots p, tp_active p, tp_streams p, tp_pendingDownloads p,
      tp_activeDownloads p, (source_map p)(td_ID (dr_Download rec) \<mapsto> td_SourceID (dr_Download rec)))"
    using source_map_update(14) [of ?p "td_ID (dr_Download rec)" r1]
    by (simp add: jobs_view_def set_download_def r1_def begin_record_sel)
  define p2 where "p2 = (set_download r2 (?p\<lparr>tp_completed := tp_completed ?p - {ref_Key (dr_Source rec)}\<rparr>))"
  have v2: "jobs_view (p2\<lparr>tp_activeDownloads := (tp_activeDownloads p2)(td_ID (dr_Download rec) \<mapsto> ef_number f)\<rparr>)
      = (tp_slots p, tp_maxSlots p, tp_active p, tp_streams p, tp_pendingDownloads p,
      (tp_activeDownloads p)(td_ID (dr_Download rec) \<mapsto> ef_number f), (source_map p)(td_ID (dr_Download rec) \<mapsto> td_SourceID (dr_Download rec)))"
    using source_map_update(14) [of "?p\<lparr>tp_completed := tp_completed ?p - {ref_Key (dr_Source rec)}\<rparr>" "td_ID (dr_Download rec)" r2]
    by (simp add: jobs_view_def p2_def set_download_def r2_def begin_record_sel)
  show "wp (let arrived = ?a in if ef_Length f \<le> arrived
       then let rec' = begin_record arrived (ef_Length f) t DownloadStateCached rec
            in bindE (modify (set_download rec')) (\<lambda>_. bindE (persist_quietly env rec') (\<lambda>_. ret False))
       else let rec' = begin_record arrived (ef_Length f) t DownloadStateDownloading rec
            in bindE (modify (\<lambda>s. s\<lparr>tp_completed := tp_completed s - {ref_Key (dr_Source rec)}\<rparr>)) (\<lambda>_.
               bindE (modify (set_download rec')) (\<lambda>_.
               bindE (modify (\<lambda>s. s\<lparr>tp_activeDownloads := (tp_activeDownloads s)(td_ID (dr_Download rec) \<mapsto> ef_number f)\<rparr>)) (\<lambda>_.
               bindE (persist_quietly env rec') (\<lambda>_. ret True))))) ?Q ?p"
    unfolding Let_def wp_if wp_bindE [of "modify _"] wp_modify sum.case r1_def [symmetric] r2_def [symmetric] p2_def [symmetric]
  proof (split if_split, intro conjI impI)
    show "wp (bindE (persist_quietly env r1) (\<lambda>_. ret False)) ?Q (set_download r1 ?p)"
      by (rule wp_persist_bindI) (auto simp: wp_ret v1)
    show "wp (bindE (persist_quietly env r2) (\<lambda>_. ret True)) ?Q
       (p2\<lparr>tp_activeDownloads := (tp_activeDownloads p2)(td_ID (dr_Download rec) \<mapsto> ef_number f)\<rparr>)"
      by (rule wp_persist_bindI) (auto simp: wp_ret v2)
  qed
qed

definition bump :: "string \<Rightarrow> (string \<Rightarrow> int) \<Rightarrow> string \<Rightarrow> int" where
  "bump h counts = counts(h := counts h + 1)"

lemma decrement_bump: "0 \<le> counts h \<Longrightarrow> decrementCount h (bump h counts) = counts"
  by (auto simp: decrementCount_def bump_def)

text \<open>The effect of scheduling the download \<open>i\<close> of the source \<open>h\<close>.\<close>

definition scheduled :: "torrent_state \<Rightarrow> string \<Rightarrow> string \<Rightarrow> nat \<Rightarrow> schedule_outcome option \<Rightarrow> torrent_state \<Rightarrow> bool" where
  "scheduled p i h n outcome p' \<longleftrightarrow> (case outcome of
     None \<Rightarrow> jobs_view p' = jobs_view p
   | Some out \<Rightarrow> tp_activeDownloads p i = None \<and> tp_pendingDownloads p i = None \<and> (case out of
       Started \<Rightarrow> tp_slots p < tp_maxSlots p \<and> jobs_view p' = (tp_slots p + 1, tp_maxSlots p, bump h (tp_active p), tp_streams p,
         tp_pendingDownloads p, (tp_activeDownloads p)(i \<mapsto> n), (source_map p)(i \<mapsto> h))
     | Queued rec \<Rightarrow> td_ID (dr_Download rec) = i \<and> td_SourceID (dr_Download rec) = h
         \<and> jobs_view p' = (tp_slots p, tp_maxSlots p, bump h (tp_active p), tp_streams p,
         (tp_pendingDownloads p)(i \<mapsto> n), tp_activeDownloads p, (source_map p)(i \<mapsto> h))
     | NotNeeded \<Rightarrow> jobs_view p' = (tp_slots p, tp_maxSlots p, decrementCount h (bump h (tp_active p)), tp_streams p,
         tp_pendingDownloads p, tp_activeDownloads p, (source_map p)(i \<mapsto> h))))"

lemma view_eq:
  "jobs_view p' = (a, b, c, d, e, g, k) \<longleftrightarrow> tp_slots p' = a \<and> tp_maxSlots p' = b \<and> tp_active p' = c \<and> tp_streams p' = d
     \<and> tp_pendingDownloads p' = e \<and> tp_activeDownloads p' = g \<and> source_map p' = k"
  by (auto simp: jobs_view_def)

lemma schedule_wp:
  assumes i: "i = td_ID (dr_Download rec)" and h: "h = td_SourceID (dr_Download rec)"
    and free: "tp_activeDownloads p i = None" "tp_pendingDownloads p i = None"
  shows "wp (scheduleTrackDownloadLocked env rec f b) (\<lambda>r p'. \<exists>out. r = Inr out \<and> scheduled p i h (ef_number f) (Some out) p') p"
    (is "wp _ ?Q p")
  unfolding scheduleTrackDownloadLocked_def Let_def i [symmetric] h [symmetric]
proof (rule wp_nowI, unfold wp_bindE [of "modify _"] wp_modify sum.case wp_with_state)
  fix t w
  define p1 where "p1 = retain t h (ref_Key (dr_Source rec)) (p\<lparr>tp_world := w\<rparr>)"
  have v1: "tp_slots p1 = tp_slots p" "tp_maxSlots p1 = tp_maxSlots p" "tp_active p1 = bump h (tp_active p)" "tp_streams p1 = tp_streams p"
    "tp_pendingDownloads p1 = tp_pendingDownloads p" "tp_activeDownloads p1 = tp_activeDownloads p" "source_map p1 = source_map p"
    by (simp_all add: p1_def retain_def bump_def)
  show "wp (if tp_slots p1 < tp_maxSlots p1 then
         bindE (modify take_slot) (\<lambda>_.
         bindE (beginTrackDownloadLocked env rec f b) (\<lambda>started.
           if started then ret Started
           else bindE (modify give_slot) (\<lambda>_. bindE (modify (release h)) (\<lambda>_. ret NotNeeded))))
       else now_E (\<lambda>now.
         bindE (modify (\<lambda>s. s\<lparr>tp_downloads := (tp_downloads s)(i \<mapsto>
             with_download (\<lambda>d. d\<lparr>td_State := DownloadStateWaiting, td_Error := None, td_UpdatedAt := now\<rparr>) rec),
             tp_pendingDownloads := (tp_pendingDownloads s)(i \<mapsto> ef_number f)\<rparr>)) (\<lambda>_.
           bindE (persist_quietly env (with_download (\<lambda>d. d\<lparr>td_State := DownloadStateWaiting, td_Error := None, td_UpdatedAt := now\<rparr>) rec))
             (\<lambda>_. ret (Queued (with_download (\<lambda>d. d\<lparr>td_State := DownloadStateWaiting, td_Error := None, td_UpdatedAt := now\<rparr>) rec)))))) ?Q p1"
  proof (cases "tp_slots p1 < tp_maxSlots p1")
    case True
    have "wp (bindE (beginTrackDownloadLocked env rec f b) (\<lambda>started.
           if started then ret Started
           else bindE (modify give_slot) (\<lambda>_. bindE (modify (release h)) (\<lambda>_. ret NotNeeded)))) ?Q (take_slot p1)"
      unfolding wp_bindE [of "beginTrackDownloadLocked _ _ _ _"]
    proof (rule wp_mono [OF begin_wp], goal_cases)
      case (1 r p2)
      from 1 [folded i h] obtain started where r: "r = Inr started" and
        v2: "jobs_view p2 = (tp_slots (take_slot p1), tp_maxSlots (take_slot p1), tp_active (take_slot p1), tp_streams (take_slot p1),
          tp_pendingDownloads (take_slot p1), if started then (tp_activeDownloads (take_slot p1))(i \<mapsto> ef_number f) else tp_activeDownloads (take_slot p1),
          (source_map (take_slot p1))(i \<mapsto> h))" by blast
      show ?case
      proof (cases started)
        case True
        with v2 \<open>tp_slots p1 < tp_maxSlots p1\<close> free have "scheduled p i h (ef_number f) (Some Started) p2"
          by (simp add: scheduled_def view_eq v1 take_slot_def)
        with True show ?thesis unfolding r sum.case by (simp add: wp_ret)
      next
        case False
        with v2 free have "scheduled p i h (ef_number f) (Some NotNeeded) (release h (give_slot p2))"
          by (simp add: scheduled_def view_eq v1 take_slot_def give_slot_def release_def)
        with False show ?thesis unfolding r sum.case by (simp add: wp_simps)
      qed
    qed
    then show ?thesis unfolding if_P [OF True] wp_bindE [of "modify take_slot"] wp_modify sum.case .
  next
    case False
    have "wp (now_E (\<lambda>now.
         bindE (modify (\<lambda>s. s\<lparr>tp_downloads := (tp_downloads s)(i \<mapsto>
             with_download (\<lambda>d. d\<lparr>td_State := DownloadStateWaiting, td_Error := None, td_UpdatedAt := now\<rparr>) rec),
             tp_pendingDownloads := (tp_pendingDownloads s)(i \<mapsto> ef_number f)\<rparr>)) (\<lambda>_.
           bindE (persist_quietly env (with_download (\<lambda>d. d\<lparr>td_State := DownloadStateWaiting, td_Error := None, td_UpdatedAt := now\<rparr>) rec))
             (\<lambda>_. ret (Queued (with_download (\<lambda>d. d\<lparr>td_State := DownloadStateWaiting, td_Error := None, td_UpdatedAt := now\<rparr>) rec)))))) ?Q p1"
    proof (rule wp_nowI, unfold wp_bindE [of "modify _"] wp_modify sum.case, rule wp_persist_bindI, unfold wp_ret, goal_cases)
      case (1 t w p2)
      let ?rec = "with_download (\<lambda>d. d\<lparr>td_State := DownloadStateWaiting, td_Error := None, td_UpdatedAt := t\<rparr>) rec"
      have r: "td_ID (dr_Download ?rec) = i" "td_SourceID (dr_Download ?rec) = h" by (simp_all add: i h with_download_def)
      have "jobs_view p2 = (tp_slots p, tp_maxSlots p, bump h (tp_active p), tp_streams p,
         (tp_pendingDownloads p)(i \<mapsto> ef_number f), tp_activeDownloads p, (source_map p)(i \<mapsto> h))"
        unfolding 1 using source_map_update(14) [of "p1\<lparr>tp_world := w\<rparr>" i ?rec] r(2) by (simp add: view_eq v1)
      with r free show ?case by (auto simp: scheduled_def)
    qed
    then show ?thesis unfolding if_not_P [OF False] .
  qed
qed

lemma schedule_unless_busy_run:
  assumes "schedule_unless_busy env rec f b p = (r, p')"
  shows "\<exists>outcome. r = Inr outcome \<and> scheduled p (td_ID (dr_Download rec)) (td_SourceID (dr_Download rec)) (ef_number f) outcome p'"
proof (cases "tp_activeDownloads p (td_ID (dr_Download rec)) \<noteq> None \<or> tp_pendingDownloads p (td_ID (dr_Download rec)) \<noteq> None")
  case True
  with assms show ?thesis by (auto simp: schedule_unless_busy_def with_state_def ret_def scheduled_def)
next
  case False
  obtain r1 p1 where run: "scheduleTrackDownloadLocked env rec f b p = (r1, p1)" by fastforce
  from False wpD [OF schedule_wp [OF refl refl] run] obtain out where "r1 = Inr out"
    "scheduled p (td_ID (dr_Download rec)) (td_SourceID (dr_Download rec)) (ef_number f) (Some out) p1" by auto
  with False assms run show ?thesis by (auto simp: schedule_unless_busy_def with_state_def bindE_def ret_def)
qed

lemma scheduled_cong: "jobs_view q = jobs_view p \<Longrightarrow> scheduled q i h n outcome p' = scheduled p i h n outcome p'"
proof -
  assume eq: "jobs_view q = jobs_view p"
  then have c: "tp_slots q = tp_slots p" "tp_maxSlots q = tp_maxSlots p" "tp_active q = tp_active p" "tp_streams q = tp_streams p"
    "tp_pendingDownloads q = tp_pendingDownloads p" "tp_activeDownloads q = tp_activeDownloads p" "source_map q = source_map p"
    by (simp_all add: jobs_view_def)
  show ?thesis unfolding scheduled_def c eq ..
qed

lemma queue_run:
  assumes "queueTrackDownload env ref h path f b0 b p = (r, p')"
  shows "\<exists>outcome. r = Inr outcome \<and> scheduled p (download_id env ref) h (ef_number f) outcome p'"
proof -
  obtain r1 p1 where t: "track_of_key env (ref_Key ref) h path (ef_Length f) p = (r1, p1)" by fastforce
  have "preserves (same_jobs v) (track_of_key env (ref_Key ref) h path (ef_Length f))" for v
    unfolding track_of_key_def Let_def by (intro preserving preserves_modify) (simp add: registerTrack_def jobs_view_def)
  from preservesD [OF this refl t] have v1: "jobs_view p1 = jobs_view p" .
  obtain trackID where r1: "r1 = Inr trackID" using t
    by (auto simp: track_of_key_def with_state_def ret_def bindE_def modify_def Let_def split: if_splits)
  obtain now w where now: "time_Now (tp_world p1) = (now, w)" by fastforce
  let ?q = "p1\<lparr>tp_world := w\<rparr>"
  let ?rec = "merge_existing ?q (new_record env ref h path f b0 trackID now)"
  have run: "schedule_unless_busy env ?rec f b ?q = (r, p')"
    using assms t r1 now by (simp add: queueTrackDownload_def bindE_def now_E_def readE_def with_state_def)
  have "td_ID (dr_Download ?rec) = download_id env ref" "td_SourceID (dr_Download ?rec) = h"
    by (simp_all add: merge_existing_def new_record_def with_download_def split: option.split)
  moreover have "jobs_view ?q = jobs_view p" using v1 by (simp add: jobs_view_def)
  ultimately show ?thesis using schedule_unless_busy_run [OF run] unfolding scheduled_cong [OF \<open>jobs_view ?q = jobs_view p\<close>] by metis
qed

lemma wait_granted_run:
  assumes run: "wait_granted env rec f b p = (r, p')" and i: "i = td_ID (dr_Download rec)" and h: "h = td_SourceID (dr_Download rec)"
    and known: "source_map p i = Some h" "tp_pendingDownloads p i = Some (ef_number f)"
  shows "\<exists>started. r = Inr started \<and> jobs_view p' =
    (if started then (tp_slots p, tp_maxSlots p, tp_active p, tp_streams p, (tp_pendingDownloads p)(i := None),
       (tp_activeDownloads p)(i \<mapsto> ef_number f), source_map p)
     else (tp_slots p - 1, tp_maxSlots p, decrementCount h (tp_active p), tp_streams p, (tp_pendingDownloads p)(i := None),
       tp_activeDownloads p, source_map p))"
proof -
  let ?q = "p\<lparr>tp_pendingDownloads := (tp_pendingDownloads p)(i := None)\<rparr>"
  obtain r1 p1 where b: "beginTrackDownloadLocked env rec f b ?q = (r1, p1)" by fastforce
  from wpD [OF begin_wp b, folded i h] obtain started where r1: "r1 = Inr started" and
    v: "jobs_view p1 = (tp_slots ?q, tp_maxSlots ?q, tp_active ?q, tp_streams ?q, tp_pendingDownloads ?q,
      if started then (tp_activeDownloads ?q)(i \<mapsto> ef_number f) else tp_activeDownloads ?q, (source_map ?q)(i \<mapsto> h))" by blast
  have ex: "tp_downloads p i \<noteq> None" using known(1) by (auto simp: source_map_def)
  have src: "(source_map p)(i \<mapsto> h) = source_map p" using known(1) by (simp add: fun_upd_idem)
  have r: "(r, p') = (if started then (Inr True, p1) else (Inr False, release h (give_slot p1)))"
    using run ex known(2) b r1 unfolding wait_granted_def Let_def i [symmetric] h [symmetric]
    by (auto simp: with_state_def bindE_def modify_def ret_def split: if_splits)
  show ?thesis
  proof (cases started)
    case True
    with r v src show ?thesis by (auto simp: view_eq)
  next
    case False
    with r v src show ?thesis by (auto simp: view_eq release_def give_slot_def)
  qed
qed

lemma poll_view: "preserves (same_jobs v) (monitor_poll env i f b)"
  unfolding monitor_poll_def Let_def by (intro preserving preserves_download view_set) simp_all

lemma poll_gone_run: "monitor_poll env i f b p = (Inr Gone, p') \<Longrightarrow> source_map p i = None"
  by (cases "tp_downloads p i") (auto simp: monitor_poll_def with_state_def source_map_def now_E_def readE_def Let_def modify_iff ret_def
    split: if_splits prod.splits)

lemma cleanup_run:
  assumes "monitor_cleanup i p = (r, p')"
  shows "r = Inr (case source_map p i of None \<Rightarrow> '''' | Some h \<Rightarrow> h)"
    "jobs_view p' = (tp_slots p, tp_maxSlots p, tp_active p, tp_streams p, tp_pendingDownloads p, (tp_activeDownloads p)(i := None), source_map p)"
  using assms by (auto simp: monitor_cleanup_def with_state_def bindE_def modify_def ret_def source_map_def view_eq split: option.split)

lemma notify_run:
  assumes "notifyCompleted handler ref path p = (r, p')"
  shows "case r of Inr (Some (k, _)) \<Rightarrow> jobs_view p' = (tp_slots p, tp_maxSlots p, bump k (tp_active p), tp_streams p,
      tp_pendingDownloads p, tp_activeDownloads p, source_map p)
    | _ \<Rightarrow> jobs_view p' = jobs_view p"
  using assms
  by (auto simp: notifyCompleted_def with_state_def ret_def bindE_def modify_def now_E_def readE_def time_Now_def retain_def bump_def
    jobs_view_def Let_def split: sum.splits prod.splits if_splits)

lemma register_run:
  assumes "resume_register env rec p = (r, p')"
  shows "jobs_view p' = jobs_view p \<or> source_map p (td_ID (dr_Download rec)) = None
    \<and> jobs_view p' = (tp_slots p, tp_maxSlots p, tp_active p, tp_streams p, tp_pendingDownloads p, tp_activeDownloads p,
        (source_map p)(td_ID (dr_Download rec) \<mapsto> td_SourceID (dr_Download rec)))"
proof -
  have "wp (resume_register env rec) (\<lambda>_ p'. jobs_view p' = jobs_view p \<or> source_map p (td_ID (dr_Download rec)) = None
    \<and> jobs_view p' = (tp_slots p, tp_maxSlots p, tp_active p, tp_streams p, tp_pendingDownloads p, tp_activeDownloads p,
        (source_map p)(td_ID (dr_Download rec) \<mapsto> td_SourceID (dr_Download rec)))) p" (is "wp _ ?Q p")
  proof (cases "tp_downloads p (td_ID (dr_Download rec))")
    case None
    have v: "jobs_view (set_download rec p) = (tp_slots p, tp_maxSlots p, tp_active p, tp_streams p, tp_pendingDownloads p, tp_activeDownloads p,
        (source_map p)(td_ID (dr_Download rec) \<mapsto> td_SourceID (dr_Download rec)))" by (simp add: view_eq set_download_def)
    have n: "source_map p (td_ID (dr_Download rec)) = None" using None by (simp add: source_map_def)
    have "wp (persist_quietly env rec) (\<lambda>r s'. case r of Inl e \<Rightarrow> ?Q (Inl e) s' | Inr x \<Rightarrow>
        wp (if td_TrackID (dr_Download rec) \<noteq> '''' then modify (registerTrack (ref_Key (dr_Source rec)) (td_TrackID (dr_Download rec)))
          else ret ()) ?Q s') (set_download rec p)"
    proof (rule wp_persistI)
      fix s' assume "jobs_view s' = jobs_view (set_download rec p)"
      then have v': "jobs_view s' = (tp_slots p, tp_maxSlots p, tp_active p, tp_streams p, tp_pendingDownloads p, tp_activeDownloads p,
        (source_map p)(td_ID (dr_Download rec) \<mapsto> td_SourceID (dr_Download rec)))" using v by simp
      have "jobs_view (registerTrack k t s') = jobs_view s'" for k t by (simp add: jobs_view_def registerTrack_def)
      with v' n show "case Inr () of Inl e \<Rightarrow> ?Q (Inl e) s' | Inr x \<Rightarrow>
        wp (if td_TrackID (dr_Download rec) \<noteq> '''' then modify (registerTrack (ref_Key (dr_Source rec)) (td_TrackID (dr_Download rec)))
          else ret ()) ?Q s'" by (simp add: wp_simps)
    qed
    with None show ?thesis by (simp add: resume_register_def wp_with_state wp_bindE wp_modify)
  next
    case (Some old)
    then show ?thesis by (simp add: resume_register_def wp_simps registerTrack_def jobs_view_def)
  qed
  from wpD [OF this assms] show ?thesis .
qed

text \<open>Removing a source forgets at most the jobs of this source, and nothing while it is in use.\<close>

definition forgotten :: "string \<Rightarrow> torrent_state \<Rightarrow> torrent_state \<Rightarrow> bool" where
  "forgotten h p p' \<longleftrightarrow> tp_slots p' = tp_slots p \<and> tp_maxSlots p' = tp_maxSlots p \<and> tp_active p' = tp_active p \<and> tp_streams p' = tp_streams p
     \<and> tp_pendingDownloads p' = tp_pendingDownloads p
     \<and> (\<forall>i. tp_activeDownloads p' i = tp_activeDownloads p i \<and> source_map p' i = source_map p i
          \<or> source_map p i = Some h \<and> tp_activeDownloads p' i = None \<and> source_map p' i = None)"

lemma forgotten_on_world [preserving]: "preserves (forgotten h p) (on_world act)"
  by (auto simp: preserves_def on_world_def case_prod_beta Let_def forgotten_def)

lemma forgotten_downloads: "preserves (forgotten h p) (removeDownloadsForSource h ids)"
proof (induction ids)
  case (Cons i ids)
  show ?case unfolding removeDownloadsForSource.simps
  proof (rule preserves_with_state)
    fix s0 assume f: "forgotten h p s0"
    show "preserves (forgotten h p) (case tp_downloads s0 i of None \<Rightarrow> removeDownloadsForSource h ids
      | Some rec \<Rightarrow> if td_SourceID (dr_Download rec) \<noteq> h then removeDownloadsForSource h ids
        else bindE (modify (\<lambda>s. s\<lparr>tp_downloads := (tp_downloads s)(i := None), tp_activeDownloads := (tp_activeDownloads s)(i := None)\<rparr>)) (\<lambda>_.
          tryE (on_world (os_Remove (downloadRecordPath s0 i))) (\<lambda>r. case r of
            Inl err \<Rightarrow> if err = os_ErrNotExist then removeDownloadsForSource h ids else fail (Wrap ''remove torrent download job'' err)
          | Inr _ \<Rightarrow> removeDownloadsForSource h ids)))"
    proof (cases "tp_downloads s0 i")
      case (Some rec)
      have "preserves (forgotten h p) (modify (\<lambda>s. s\<lparr>tp_downloads := (tp_downloads s)(i := None), tp_activeDownloads := (tp_activeDownloads s)(i := None)\<rparr>))"
        if "td_SourceID (dr_Download rec) = h"
      proof (rule preserves_modify)
        fix s assume g: "forgotten h p s"
        have "source_map s0 i = Some h" using Some that by (simp add: source_map_def)
        with f have "source_map p i = Some h" by (metis forgotten_def option.distinct(1))
        with g show "forgotten h p (s\<lparr>tp_downloads := (tp_downloads s)(i := None), tp_activeDownloads := (tp_activeDownloads s)(i := None)\<rparr>)"
          by (auto simp: forgotten_def)
      qed
      then show ?thesis unfolding Some option.case by (intro preserving Cons) simp
    qed (simp add: Cons)
  qed
qed (simp add: preserving)

lemma forgotten_refl: "jobs_view p' = jobs_view p \<Longrightarrow> forgotten h p p'"
  by (simp add: forgotten_def jobs_view_def)

lemma forgotten_view: "forgotten h p q \<Longrightarrow> jobs_view q' = jobs_view q \<Longrightarrow> forgotten h p q'"
  by (simp add: forgotten_def jobs_view_def)

lemma remove_run:
  assumes "torrent_RemoveSource ids h d p = (r, p')"
  shows "jobs_view p' = jobs_view p \<or> \<not> tp_active p h > 0 \<and> forgotten h p p'"
proof -
  obtain r1 p1 where v: "validateSourceID h p = (r1, p1)" by fastforce
  have e1: "jobs_view p1 = jobs_view p" by (rule preservesD [OF view_marker(3) refl v])
  obtain r2 p2 where c: "on_world ctx_Err p1 = (r2, p2)" by fastforce
  have e2: "jobs_view p2 = jobs_view p" using preservesD [OF view_on_world refl c] e1 by simp
  show ?thesis
  proof (cases "r1 = Inr () \<and> r2 = Inr () \<and> \<not> tp_active p2 h > 0")
    case False
    then have "jobs_view p' = jobs_view p1 \<or> jobs_view p' = jobs_view p2"
      using assms v c by (cases r1; cases r2) (auto simp: torrent_RemoveSource_def bindE_def with_state_def fail_def)
    with e1 e2 show ?thesis by auto
  next
    case True
    have "preserves (forgotten h p) (bindE (modify (dropTorrent h)) (\<lambda>_.
        tryE (on_world (os_Remove (filepath_Join [tp_metadataRoot p2, h @ ''.torrent'']))) (\<lambda>r. case r of
          Inl err \<Rightarrow> if err = os_ErrNotExist then fail ErrNotFound else fail (Wrap ''remove torrent metadata'' err)
        | Inr _ \<Rightarrow>
            bindE (remove_marker h ''paused'') (\<lambda>_.
            bindE (remove_marker h ''pinned'') (\<lambda>_.
            bindE (removeDownloadsForSource h ids) (\<lambda>_.
              if d then wrapE ''remove torrent cache data'' (on_world (os_RemoveAll (filepath_Join [tp_dataRoot p2, h])))
              else ret ()))))))"
      unfolding remove_marker_def
      by (intro preserving preserves_modify forgotten_downloads) (simp add: forgotten_def dropTorrent_def)
    moreover have "forgotten h p p2" by (rule forgotten_refl [OF e2])
    moreover from True e2 have "\<not> tp_active p h > 0" by (simp add: jobs_view_def)
    ultimately show ?thesis
      using assms v c True by (auto simp: torrent_RemoveSource_def bindE_def [of "validateSourceID _"] bindE_def [of "on_world ctx_Err"] with_state_def
        dest: preservesD)
  qed
qed

section \<open>Invariant\<close>

text \<open>What a goroutine holds: a slot, a use of a source, a stream, the pending or the active entry of a job.\<close>

fun holds_slot :: "goroutine \<Rightarrow> bool" where
  "holds_slot (Granted _ _) = True"
| "holds_slot (Monitoring _ _) = True"
| "holds_slot (Notifying _ _ _) = True"
| "holds_slot (Cleaning _) = True"
| "holds_slot (Releasing _) = True"
| "holds_slot Returning = True"
| "holds_slot (Pruning (Some g)) = holds_slot g"
| "holds_slot _ = False"

fun uses :: "(string \<Rightarrow> string option) \<Rightarrow> goroutine \<Rightarrow> string option" where
  "uses src (Streaming h _ _) = Some h"
| "uses src (Waiting rec _) = Some (td_SourceID (dr_Download rec))"
| "uses src (Granted rec _) = Some (td_SourceID (dr_Download rec))"
| "uses src (Stopping h) = Some h"
| "uses src (Monitoring i _) = src i"
| "uses src (Notifying i _ _) = src i"
| "uses src (Cleaning i) = src i"
| "uses src (Releasing h) = Some h"
| "uses src (Handling h) = Some h"
| "uses src (Pruning (Some g)) = uses src g"
| "uses src _ = None"

fun streams_of :: "string \<Rightarrow> goroutine \<Rightarrow> bool" where
  "streams_of h (Streaming k _ _) = (k = h)"
| "streams_of h (Pruning (Some g)) = streams_of h g"
| "streams_of h _ = False"

fun pending_of :: "string \<Rightarrow> goroutine \<Rightarrow> bool" where
  "pending_of i (Waiting rec _) = (td_ID (dr_Download rec) = i)"
| "pending_of i (Granted rec _) = (td_ID (dr_Download rec) = i)"
| "pending_of i (Pruning (Some g)) = pending_of i g"
| "pending_of i _ = False"

fun active_of :: "string \<Rightarrow> goroutine \<Rightarrow> bool" where
  "active_of i (Monitoring j _) = (j = i)"
| "active_of i (Notifying j _ _) = (j = i)"
| "active_of i (Cleaning j) = (j = i)"
| "active_of i (Pruning (Some g)) = active_of i g"
| "active_of i _ = False"

fun recorded :: "torrent_state \<Rightarrow> goroutine \<Rightarrow> bool" where
  "recorded p (Waiting rec f) = (source_map p (td_ID (dr_Download rec)) = Some (td_SourceID (dr_Download rec))
     \<and> tp_pendingDownloads p (td_ID (dr_Download rec)) = Some (ef_number f))"
| "recorded p (Granted rec f) = (source_map p (td_ID (dr_Download rec)) = Some (td_SourceID (dr_Download rec))
     \<and> tp_pendingDownloads p (td_ID (dr_Download rec)) = Some (ef_number f))"
| "recorded p (Monitoring i _) = (source_map p i \<noteq> None)"
| "recorded p (Notifying i _ _) = (source_map p i \<noteq> None)"
| "recorded p (Cleaning i) = (source_map p i \<noteq> None)"
| "recorded p (Pruning (Some g)) = recorded p g"
| "recorded p _ = True"

definition downloads_inv :: "torrent_state \<Rightarrow> goroutine list \<Rightarrow> bool" where
  "downloads_inv p ths \<longleftrightarrow> tp_slots p = tally holds_slot ths \<and> tp_slots p \<le> tp_maxSlots p
     \<and> (\<forall>h. tp_active p h = int (tally (\<lambda>g. uses (source_map p) g = Some h) ths))
     \<and> (\<forall>h. tp_streams p h = int (tally (streams_of h) ths))
     \<and> (\<forall>i. tally (pending_of i) ths = (if tp_pendingDownloads p i = None then 0 else 1))
     \<and> (\<forall>i. tally (active_of i) ths = (if tp_activeDownloads p i = None then 0 else 1))
     \<and> (\<forall>i. tp_pendingDownloads p i = None \<or> tp_activeDownloads p i = None)
     \<and> (\<forall>g \<in> set ths. recorded p g)"

lemma recorded_cong: "source_map p' = source_map p \<Longrightarrow> tp_pendingDownloads p' = tp_pendingDownloads p \<Longrightarrow> recorded p' g = recorded p g"
  by (induction p g rule: recorded.induct) auto

lemma inv_view: "jobs_view p' = jobs_view p \<Longrightarrow> downloads_inv p' ths = downloads_inv p ths"
proof -
  assume eq: "jobs_view p' = jobs_view p"
  then have c: "tp_slots p' = tp_slots p" "tp_maxSlots p' = tp_maxSlots p" "tp_active p' = tp_active p" "tp_streams p' = tp_streams p"
    "tp_pendingDownloads p' = tp_pendingDownloads p" "tp_activeDownloads p' = tp_activeDownloads p" "source_map p' = source_map p"
    by (simp_all add: jobs_view_def)
  have "recorded p' g = recorded p g" for g by (rule recorded_cong) (simp_all add: c)
  then show ?thesis by (simp add: downloads_inv_def c)
qed

text \<open>Goroutines that hold nothing.\<close>

definition idle :: "goroutine \<Rightarrow> bool" where
  "idle g \<longleftrightarrow> \<not> holds_slot g \<and> (\<forall>src. uses src g = None) \<and> (\<forall>h. \<not> streams_of h g) \<and> (\<forall>i. \<not> pending_of i g) \<and> (\<forall>i. \<not> active_of i g)
     \<and> (\<forall>p. recorded p g)"

lemma idle_simps [simp]: "idle (Opening ref h path f)" "idle (Opened h ref path)" "idle (Resuming rec f)" "idle Resumed" "idle (Pruning None)"
  "idle (Pruning (Some g)) = idle g"
  by (simp_all add: idle_def)

lemma inv_idle: "idle g \<Longrightarrow> downloads_inv p (xs @ g # ys) = downloads_inv p (xs @ ys)"
  by (auto simp: idle_def downloads_inv_def)

lemma inv_swap: "mset ths = mset ths' \<Longrightarrow> downloads_inv p ths = downloads_inv p ths'"
proof -
  assume eq: "mset ths = mset ths'"
  have "tally P ths = tally P ths'" for P unfolding tally_def by (metis eq mset_filter size_mset)
  with mset_eq_setD [OF eq] show ?thesis by (simp add: downloads_inv_def)
qed

lemma uses_update: "\<not> active_of i g \<Longrightarrow> uses (src(i := x)) g = uses src g"
  by (induction src g rule: uses.induct) auto

lemma recorded_update:
  "recorded p g \<Longrightarrow> \<not> active_of i g \<Longrightarrow> \<not> pending_of i g \<Longrightarrow> (\<And>j. j \<noteq> i \<Longrightarrow> source_map p' j = source_map p j) \<Longrightarrow>
   (\<And>j. j \<noteq> i \<Longrightarrow> tp_pendingDownloads p' j = tp_pendingDownloads p j) \<Longrightarrow> recorded p' g"
  by (induction p g rule: recorded.induct) auto

text \<open>The clauses of the invariant, for a provider whose fields are known.\<close>

lemma invI:
  assumes "jobs_view p = (n, m, act, str, pend, job, src)" "n = tally holds_slot ths" "n \<le> m"
    "\<And>h. act h = int (tally (\<lambda>g. uses src g = Some h) ths)" "\<And>h. str h = int (tally (streams_of h) ths)"
    "\<And>i. tally (pending_of i) ths = (if pend i = None then 0 else 1)"
    "\<And>i. tally (active_of i) ths = (if job i = None then 0 else 1)"
    "\<And>i. pend i = None \<or> job i = None" "\<And>g. g \<in> set ths \<Longrightarrow> recorded p g"
  shows "downloads_inv p ths"
  using assms by (simp add: downloads_inv_def jobs_view_def)

lemma invD:
  assumes "downloads_inv p ths"
  shows "tp_slots p = tally holds_slot ths" "tp_slots p \<le> tp_maxSlots p"
    "tp_active p h = int (tally (\<lambda>g. uses (source_map p) g = Some h) ths)" "tp_streams p h = int (tally (streams_of h) ths)"
    "tally (pending_of i) ths = (if tp_pendingDownloads p i = None then 0 else 1)"
    "tally (active_of i) ths = (if tp_activeDownloads p i = None then 0 else 1)"
    "tp_pendingDownloads p i = None \<or> tp_activeDownloads p i = None" "g \<in> set ths \<Longrightarrow> recorded p g"
  using assms by (simp_all add: downloads_inv_def)

lemma no_job:
  assumes "downloads_inv p ths" "tp_activeDownloads p i = None" "tp_pendingDownloads p i = None" "g \<in> set ths"
  shows "\<not> active_of i g" "\<not> pending_of i g"
  using invD(5,6) [OF assms(1), of i] assms by (auto simp: tally_zero)

lemma scheduled_inv:
  assumes inv: "downloads_inv p ths" and sch: "scheduled p i h (ef_number f) outcome p'" and g: "idle g"
  shows "downloads_inv p' (after_schedule over i f g outcome @ ths)"
proof (cases outcome)
  case None
  with sch have "jobs_view p' = jobs_view p" by (simp add: scheduled_def)
  from inv_view [OF this] inv None inv_idle [OF g, of p' "[]" ths] show ?thesis by simp
next
  case (Some out)
  with sch have free: "tp_activeDownloads p i = None" "tp_pendingDownloads p i = None" by (simp_all add: scheduled_def)
  note nj = no_job [OF inv free]
  have uses: "tally (\<lambda>g. uses ((source_map p)(i \<mapsto> h)) g = Some k) ths = tally (\<lambda>g. uses (source_map p) g = Some k) ths" for k
    by (rule tally_cong) (simp add: uses_update nj)
  have pos: "0 \<le> tp_active p h" using invD(3) [OF inv] by simp
  show ?thesis
  proof (cases out)
    case Started
    with sch Some have v: "jobs_view p' = (tp_slots p + 1, tp_maxSlots p, bump h (tp_active p), tp_streams p,
         tp_pendingDownloads p, (tp_activeDownloads p)(i \<mapsto> ef_number f), (source_map p)(i \<mapsto> h))" and lt: "tp_slots p < tp_maxSlots p"
      by (simp_all add: scheduled_def)
    have rec: "recorded p' x" if "x \<in> set ths" for x
      by (rule recorded_update [OF invD(8) [OF inv that] nj [OF that]]) (use v in \<open>simp_all add: view_eq\<close>)
    have "downloads_inv p' (Monitoring i f # ths)"
    proof (rule invI [OF v], goal_cases)
      case (3 k) then show ?case using invD(3) [OF inv, of k] invD(3) [OF inv, of h] by (simp add: uses bump_def)
    next
      case (6 j) then show ?case using invD(6) [OF inv, of j] by (auto simp: free)
    next
      case (7 j) then show ?case using invD(7) [OF inv, of j] free by simp
    next
      case (8 x) then show ?case using rec v by (auto simp: view_eq)
    qed (use invD(1,2,4,5) [OF inv] lt in simp_all)
    with inv_idle [OF g, of p' "[]" "Monitoring i f # ths"] show ?thesis unfolding Some Started by simp
  next
    case (Queued rec)
    with sch Some have v: "jobs_view p' = (tp_slots p, tp_maxSlots p, bump h (tp_active p), tp_streams p,
         (tp_pendingDownloads p)(i \<mapsto> ef_number f), tp_activeDownloads p, (source_map p)(i \<mapsto> h))"
      and rec: "td_ID (dr_Download rec) = i" "td_SourceID (dr_Download rec) = h" by (simp_all add: scheduled_def)
    have rc: "recorded p' x" if "x \<in> set ths" for x
      by (rule recorded_update [OF invD(8) [OF inv that] nj [OF that]]) (use v in \<open>simp_all add: view_eq\<close>)
    have "downloads_inv p' (Waiting rec f # ths)"
    proof (rule invI [OF v], goal_cases)
      case (3 k) then show ?case using invD(3) [OF inv, of k] invD(3) [OF inv, of h] by (simp add: uses bump_def rec)
    next
      case (5 j) then show ?case using invD(5) [OF inv, of j] by (auto simp: free rec)
    next
      case (7 j) then show ?case using invD(7) [OF inv, of j] free by simp
    next
      case (8 x) then show ?case using rc v by (auto simp: view_eq rec)
    qed (use invD(1,2,4,6) [OF inv] in simp_all)
    with inv_idle [OF g, of p' "[]" "Waiting rec f # ths"] show ?thesis unfolding Some Queued by simp
  next
    case NotNeeded
    with sch Some pos have v: "jobs_view p' = (tp_slots p, tp_maxSlots p, tp_active p, tp_streams p,
         tp_pendingDownloads p, tp_activeDownloads p, (source_map p)(i \<mapsto> h))" by (simp add: scheduled_def decrement_bump)
    have rc: "recorded p' x" if "x \<in> set ths" for x
      by (rule recorded_update [OF invD(8) [OF inv that] nj [OF that]]) (use v in \<open>simp_all add: view_eq\<close>)
    have "downloads_inv p' ths"
    proof (rule invI [OF v], goal_cases)
      case (3 k) then show ?case using invD(3) [OF inv, of k] by (simp add: uses)
    next
      case (7 j) then show ?case by (rule invD(7) [OF inv])
    next
      case (8 x) then show ?case by (rule rc)
    qed (use invD(1,2,4,5,6) [OF inv] in simp_all)
    with g inv_idle [of g p' "[]" ths] inv_idle [of "Pruning (Some g)" p' "[]" ths] show ?thesis
      unfolding Some NotNeeded by (simp add: after_release_def)
  qed
qed

text \<open>Goroutines that only use a source.\<close>

definition user :: "string \<Rightarrow> goroutine \<Rightarrow> bool" where
  "user h g \<longleftrightarrow> \<not> holds_slot g \<and> (\<forall>src. uses src g = Some h) \<and> (\<forall>h. \<not> streams_of h g) \<and> (\<forall>i. \<not> pending_of i g) \<and> (\<forall>i. \<not> active_of i g)
     \<and> (\<forall>p. recorded p g)"

lemma user_simps [simp]: "user h (Stopping h)" "user h (Handling h)"
  by (simp_all add: user_def)

lemma decrement_pos: "0 < counts h \<Longrightarrow> decrementCount h counts = counts(h := counts h - 1)"
  by (auto simp: decrementCount_def)

lemma recorded_same:
  assumes "downloads_inv p ths" "source_map p' = source_map p" "tp_pendingDownloads p' = tp_pendingDownloads p" "g \<in> set ths"
  shows "recorded p' g"
  using invD(8) [OF assms(1,4)] recorded_cong [OF assms(2,3)] by simp

lemma inv_add_user:
  assumes inv: "downloads_inv p ths" and g: "user k g" and v: "jobs_view p' = (tp_slots p, tp_maxSlots p, bump k (tp_active p), tp_streams p,
      tp_pendingDownloads p, tp_activeDownloads p, source_map p)"
  shows "downloads_inv p' (g # ths)"
proof (rule invI [OF v], goal_cases)
  case (3 h) then show ?case using invD(3) [OF inv, of h] g by (auto simp: bump_def user_def)
next
  case (7 i) then show ?case by (rule invD(7) [OF inv])
next
  case (8 x) then show ?case using recorded_same [OF inv] v g by (auto simp: view_eq user_def)
qed (use invD(1,2,4,5,6) [OF inv] g in \<open>simp_all add: user_def\<close>)

lemma inv_drop_user:
  assumes inv: "downloads_inv p (g # ths)" and g: "user k g" and v: "jobs_view p' = (tp_slots p, tp_maxSlots p, decrementCount k (tp_active p),
      tp_streams p, tp_pendingDownloads p, tp_activeDownloads p, source_map p)"
  shows "downloads_inv p' ths"
proof (rule invI [OF v], goal_cases)
  case (3 h) then show ?case using invD(3) [OF inv, of h] invD(3) [OF inv, of k] g by (auto simp: decrementCount_def user_def)
next
  case (7 i) then show ?case by (rule invD(7) [OF inv])
next
  case (8 x) then show ?case using recorded_same [OF inv] v by (auto simp: view_eq)
qed (use invD(1,2,4,5,6) [OF inv] g in \<open>simp_all add: user_def\<close>)

lemma release_view: "jobs_view (release h p) = (tp_slots p, tp_maxSlots p, decrementCount h (tp_active p), tp_streams p,
    tp_pendingDownloads p, tp_activeDownloads p, source_map p)"
  by (simp add: view_eq release_def)

lemma inv_released: "downloads_inv p ths \<Longrightarrow> downloads_inv p (after_release over [] @ ths)"
  using inv_idle [of "Pruning None" p "[]" ths] by (simp add: after_release_def)

lemma inv_stream:
  assumes inv: "downloads_inv p ths"
  shows "downloads_inv (retainStream now h key p) (Streaming h ref path # ths)"
proof -
  let ?p = "retainStream now h key p"
  have v: "jobs_view ?p = (tp_slots p, tp_maxSlots p, bump h (tp_active p), bump h (tp_streams p), tp_pendingDownloads p, tp_activeDownloads p, source_map p)"
    by (simp add: view_eq retainStream_def bump_def)
  show ?thesis
  proof (rule invI [OF v], goal_cases)
    case (3 k) then show ?case using invD(3) [OF inv, of k] by (auto simp: bump_def)
  next
    case (4 k) then show ?case using invD(4) [OF inv, of k] by (auto simp: bump_def)
  next
    case (7 i) then show ?case by (rule invD(7) [OF inv])
  next
    case (8 x) then show ?case using recorded_same [OF inv] v by (auto simp: view_eq)
  qed (use invD(1,2,5,6) [OF inv] in simp_all)
qed

lemma inv_close:
  assumes inv: "downloads_inv p (Streaming h ref path # ths)"
  shows "downloads_inv (releaseStream h p) ths"
proof -
  have v: "jobs_view (releaseStream h p) = (tp_slots p, tp_maxSlots p, decrementCount h (tp_active p), decrementCount h (tp_streams p),
      tp_pendingDownloads p, tp_activeDownloads p, source_map p)" by (simp add: view_eq releaseStream_def)
  show ?thesis
  proof (rule invI [OF v], goal_cases)
    case (3 k) then show ?case using invD(3) [OF inv, of k] invD(3) [OF inv, of h] by (auto simp: decrementCount_def)
  next
    case (4 k) then show ?case using invD(4) [OF inv, of k] invD(4) [OF inv, of h] by (auto simp: decrementCount_def)
  next
    case (7 i) then show ?case by (rule invD(7) [OF inv])
  next
    case (8 x) then show ?case using recorded_same [OF inv] v by (auto simp: view_eq)
  qed (use invD(1,2,5,6) [OF inv] in simp_all)
qed

lemma inv_grant:
  assumes inv: "downloads_inv p (Waiting rec f # ths)" and lt: "tp_slots p < tp_maxSlots p"
  shows "downloads_inv (take_slot p) (Granted rec f # ths)"
proof -
  have v: "jobs_view (take_slot p) = (tp_slots p + 1, tp_maxSlots p, tp_active p, tp_streams p,
      tp_pendingDownloads p, tp_activeDownloads p, source_map p)" by (simp add: view_eq take_slot_def)
  show ?thesis
  proof (rule invI [OF v], goal_cases)
    case (7 i) then show ?case by (rule invD(7) [OF inv])
  next
    case (8 x)
    have "recorded p (Waiting rec f)" by (rule invD(8) [OF inv]) simp
    with 8 have "recorded p x" using invD(8) [OF inv, of x] by auto
    then show ?case using recorded_cong [of "take_slot p" p x] v by (simp add: view_eq)
  qed (use invD(1,3,4,5,6) [OF inv] lt in simp_all)
qed

lemma inv_give_up:
  assumes inv: "downloads_inv p (Waiting rec f # ths)"
  shows "downloads_inv (wait_cancelled rec p) (Stopping (td_SourceID (dr_Download rec)) # ths)"
proof -
  let ?i = "td_ID (dr_Download rec)"
  have v: "jobs_view (wait_cancelled rec p) = (tp_slots p, tp_maxSlots p, tp_active p, tp_streams p,
      (tp_pendingDownloads p)(?i := None), tp_activeDownloads p, source_map p)" by (simp add: view_eq wait_cancelled_def)
  have none: "tally (pending_of ?i) ths = 0" using invD(5) [OF inv, of ?i] by (simp split: if_splits)
  have job: "tp_activeDownloads p ?i = None" using invD(5) [OF inv, of ?i] invD(7) [OF inv, of ?i] by (simp split: if_splits)
  show ?thesis
  proof (rule invI [OF v], goal_cases)
    case (5 j) then show ?case using invD(5) [OF inv, of j] none by auto
  next
    case (7 j) then show ?case using invD(7) [OF inv, of j] by auto
  next
    case (8 x)
    show ?case
    proof (cases "x \<in> set ths")
      case True
      then have "recorded p x" "\<not> pending_of ?i x" using invD(8) [OF inv] none by (auto simp: tally_zero)
      moreover have "\<not> active_of ?i x" using invD(6) [OF inv, of ?i] job True by (auto simp: tally_zero)
      ultimately show ?thesis using v by (intro recorded_update [of p x ?i "wait_cancelled rec p"]) (simp_all add: view_eq)
    qed (use 8 in simp)
  qed (use invD(1,2,3,4,6) [OF inv] in simp_all)
qed

lemma inv_wait_started:
  assumes inv: "downloads_inv p (Granted rec f # ths)" and i: "i = td_ID (dr_Download rec)"
    and v: "jobs_view p' = (tp_slots p, tp_maxSlots p, tp_active p, tp_streams p, (tp_pendingDownloads p)(i := None),
       (tp_activeDownloads p)(i \<mapsto> ef_number f), source_map p)"
  shows "downloads_inv p' (Monitoring i f # ths)"
proof -
  have r: "source_map p i = Some (td_SourceID (dr_Download rec))" "tp_pendingDownloads p i = Some (ef_number f)"
    using invD(8) [OF inv, of "Granted rec f"] by (simp_all add: i)
  have job: "tp_activeDownloads p i = None" using invD(7) [OF inv, of i] r(2) by simp
  have none: "tally (pending_of i) ths = 0" using invD(5) [OF inv, of i] r(2) by (simp add: i)
  have act: "tally (active_of i) ths = 0" using invD(6) [OF inv, of i] job by simp
  show ?thesis
  proof (rule invI [OF v], goal_cases)
    case (3 h) then show ?case using invD(3) [OF inv, of h] r(1) by simp
  next
    case (5 j) then show ?case using invD(5) [OF inv, of j] none by (auto simp: i)
  next
    case (6 j) then show ?case using invD(6) [OF inv, of j] act by auto
  next
    case (7 j) then show ?case using invD(7) [OF inv, of j] by auto
  next
    case (8 x)
    show ?case
    proof (cases "x \<in> set ths")
      case True
      then have "recorded p x" "\<not> pending_of i x" "\<not> active_of i x" using invD(8) [OF inv] none act by (auto simp: tally_zero)
      then show ?thesis using v by (intro recorded_update [of p x i p']) (simp_all add: view_eq)
    qed (use 8 v r in \<open>simp add: view_eq\<close>)
  qed (use invD(1,2,4) [OF inv] in simp_all)
qed

lemma inv_wait_rejected:
  assumes inv: "downloads_inv p (Granted rec f # ths)" and i: "i = td_ID (dr_Download rec)"
    and v: "jobs_view p' = (tp_slots p - 1, tp_maxSlots p, decrementCount (td_SourceID (dr_Download rec)) (tp_active p), tp_streams p,
       (tp_pendingDownloads p)(i := None), tp_activeDownloads p, source_map p)"
  shows "downloads_inv p' ths"
proof -
  let ?h = "td_SourceID (dr_Download rec)"
  have r: "tp_pendingDownloads p i = Some (ef_number f)"
    using invD(8) [OF inv, of "Granted rec f"] by (simp_all add: i)
  have job: "tp_activeDownloads p i = None" using invD(7) [OF inv, of i] r by simp
  have none: "tally (pending_of i) ths = 0" using invD(5) [OF inv, of i] r by (simp add: i)
  have act: "tally (active_of i) ths = 0" using invD(6) [OF inv, of i] job by simp
  show ?thesis
  proof (rule invI [OF v], goal_cases)
    case (3 h) then show ?case using invD(3) [OF inv, of h] invD(3) [OF inv, of ?h] by (auto simp: decrementCount_def)
  next
    case (5 j) then show ?case using invD(5) [OF inv, of j] none by (auto simp: i)
  next
    case (7 j) then show ?case using invD(7) [OF inv, of j] by auto
  next
    case (8 x)
    then have "recorded p x" "\<not> pending_of i x" "\<not> active_of i x" using invD(8) [OF inv] none act by (auto simp: tally_zero)
    then show ?case using v by (intro recorded_update [of p x i p']) (simp_all add: view_eq)
  qed (use invD(1,2,4,6) [OF inv] in simp_all)
qed

lemma inv_alike:
  assumes inv: "downloads_inv p (g # ths)" and v: "jobs_view p' = jobs_view p"
    and "holds_slot g' = holds_slot g" "\<And>src. uses src g' = uses src g" "\<And>h. streams_of h g' = streams_of h g"
      "\<And>i. pending_of i g' = pending_of i g" "\<And>i. active_of i g' = active_of i g" "recorded p g \<Longrightarrow> recorded p g'"
  shows "downloads_inv p' (g' # ths)"
proof -
  have "downloads_inv p (g' # ths)" using inv assms(3-) by (simp add: downloads_inv_def)
  then show ?thesis unfolding inv_view [OF v] .
qed

lemma inv_clean:
  assumes inv: "downloads_inv p (Cleaning i # ths)" and h: "source_map p i = Some h"
    and v: "jobs_view p' = (tp_slots p, tp_maxSlots p, tp_active p, tp_streams p, tp_pendingDownloads p, (tp_activeDownloads p)(i := None), source_map p)"
  shows "downloads_inv p' (Releasing h # ths)"
proof (rule invI [OF v], goal_cases)
  case (3 k) then show ?case using invD(3) [OF inv, of k] h by simp
next
  case (6 j) then show ?case using invD(6) [OF inv, of j] by (simp split: if_splits)
next
  case (7 j) then show ?case using invD(7) [OF inv, of j] by auto
next
  case (8 x) then show ?case using recorded_same [OF inv] v by (auto simp: view_eq)
qed (use invD(1,2,4,5) [OF inv] in simp_all)

lemma inv_release_slot:
  assumes inv: "downloads_inv p (Releasing h # ths)"
  shows "downloads_inv (release h p) (Returning # ths)"
proof (rule invI [OF release_view], goal_cases)
  case (3 k) then show ?case using invD(3) [OF inv, of k] invD(3) [OF inv, of h] by (auto simp: decrementCount_def)
next
  case (7 j) then show ?case by (rule invD(7) [OF inv])
next
  case (8 x) then show ?case using recorded_same [OF inv, of "release h p"] release_view [of h p] by (auto simp: view_eq)
qed (use invD(1,2,4,5,6) [OF inv] in simp_all)

lemma inv_return:
  assumes inv: "downloads_inv p (Returning # ths)"
  shows "downloads_inv (give_slot p) ths"
proof -
  have v: "jobs_view (give_slot p) = (tp_slots p - 1, tp_maxSlots p, tp_active p, tp_streams p, tp_pendingDownloads p, tp_activeDownloads p, source_map p)"
    by (simp add: view_eq give_slot_def)
  show ?thesis
  proof (rule invI [OF v], goal_cases)
    case (7 j) then show ?case by (rule invD(7) [OF inv])
  next
    case (8 x) then show ?case using recorded_same [OF inv, of "give_slot p"] v by (auto simp: view_eq)
  qed (use invD(1,2,3,4,5,6) [OF inv] in simp_all)
qed

lemma thread_step_inv:
  assumes step: "thread_step env c p g p' gs" and inv: "downloads_inv p (g # ths)"
  shows "downloads_inv p' (gs @ ths)"
  using step inv
proof cases
  case (queue ref h path f b0 b outcome over)
  have "downloads_inv p ths" using inv inv_idle [of g p "[]" ths] queue by simp
  moreover obtain out where "Inr outcome = (Inr out :: schedule_outcome option result)" "scheduled p (download_id env ref) h (ef_number f) out p'"
    using queue_run [OF queue(3)] by blast
  ultimately show ?thesis unfolding queue by (intro scheduled_inv) auto
next
  case (stream h ref path now)
  then show ?thesis using inv inv_idle [of g p "[]" ths] inv_stream by simp
next
  case (read_all handler ref path h)
  then show ?thesis using inv notify_run [OF read_all(3)] inv_view [of p' p] by simp
next
  case (read_all_new handler ref path k x h)
  then have "downloads_inv p' (Handling k # Streaming h ref path # ths)"
    using inv notify_run [OF read_all_new(3)] by (intro inv_add_user [of p "Streaming h ref path # ths"]) auto
  then show ?thesis using read_all_new inv_swap [of "Handling k # Streaming h ref path # ths" "Streaming h ref path # Handling k # ths" p'] by simp
next
  case (close h ref path over)
  then show ?thesis using inv inv_close inv_released by simp
next
  case (resume rec f b outcome over)
  have "downloads_inv p ths" using inv inv_idle [of g p "[]" ths] resume by simp
  moreover obtain out where "Inr outcome = (Inr out :: schedule_outcome option result)"
    "scheduled p (td_ID (dr_Download rec)) (td_SourceID (dr_Download rec)) (ef_number f) out p'"
    using schedule_unless_busy_run [OF resume(3)] by blast
  ultimately show ?thesis unfolding resume by (intro scheduled_inv) auto
next
  case resumed
  then show ?thesis using inv inv_idle [of g p "[]" ths] by simp
next
  case (grant rec f)
  then show ?thesis using inv inv_grant by simp
next
  case (give_up rec f)
  then show ?thesis using inv inv_give_up by simp
next
  case (stop h over)
  have "downloads_inv (release h p) ths" by (rule inv_drop_user [OF _ _ release_view]) (use inv stop in auto)
  then show ?thesis using stop inv_released by simp
next
  case (wait_started rec f b)
  have k: "source_map p (td_ID (dr_Download rec)) = Some (td_SourceID (dr_Download rec))"
    "tp_pendingDownloads p (td_ID (dr_Download rec)) = Some (ef_number f)" using invD(8) [OF inv, of g] wait_started by simp_all
  note v = wait_granted_run [OF wait_started(3) refl refl k]
  show ?thesis using inv_wait_started [OF _ refl, of p rec f ths p'] inv wait_started v by (elim exE conjE) simp
next
  case (wait_rejected rec f b over)
  have k: "source_map p (td_ID (dr_Download rec)) = Some (td_SourceID (dr_Download rec))"
    "tp_pendingDownloads p (td_ID (dr_Download rec)) = Some (ef_number f)" using invD(8) [OF inv, of g] wait_rejected by simp_all
  note v = wait_granted_run [OF wait_rejected(3) refl refl k]
  have "downloads_inv p' ths" using inv_wait_rejected [OF _ refl, of p rec f ths p'] inv wait_rejected v by (elim exE conjE) simp
  then show ?thesis using wait_rejected inv_released by simp
next
  case (poll i f b)
  then show ?thesis using inv inv_view [OF preservesD [OF poll_view refl poll(3)]] by simp
next
  case (poll_cancelled i f b)
  show ?thesis unfolding poll_cancelled
    using inv_alike [OF inv preservesD [OF poll_view refl poll_cancelled(4)], of "Cleaning i"] poll_cancelled by simp
next
  case (poll_gone i f b)
  then show ?thesis using poll_gone_run [OF poll_gone(3)] invD(8) [OF inv, of g] by simp
next
  case (poll_finished i f b rec)
  show ?thesis unfolding poll_finished
    using inv_alike [OF inv preservesD [OF poll_view refl poll_finished(3)], of "Notifying i (dr_Source rec) (dr_LogicalPath rec)"] poll_finished by simp
next
  case (notify handler ref path i)
  have "jobs_view p' = jobs_view p" using notify_run [OF notify(3)] by simp
  from inv_alike [OF inv this, of "Cleaning i"] show ?thesis using notify by simp
next
  case (notify_new handler ref path k x i)
  have "downloads_inv p (Cleaning i # ths)" using inv_alike [OF inv refl, of "Cleaning i"] notify_new by simp
  then have "downloads_inv p' (Handling k # Cleaning i # ths)"
    using notify_run [OF notify_new(3)] by (intro inv_add_user [of p "Cleaning i # ths"]) auto
  then show ?thesis using notify_new inv_swap [of "Handling k # Cleaning i # ths" "Cleaning i # Handling k # ths" p'] by simp
next
  case (clean i h)
  obtain k where k: "source_map p i = Some k" using invD(8) [OF inv, of g] clean by auto
  then have "h = k" using cleanup_run(1) [OF clean(3)] by simp
  with k show ?thesis using inv_clean [OF _ _ cleanup_run(2) [OF clean(3)]] inv clean by simp
next
  case (released h over)
  have r: "downloads_inv (release h p) (Returning # ths)" using inv released inv_release_slot by simp
  have "downloads_inv (release h p) (Pruning (Some Returning) # ths)" using inv_alike [OF r refl, of "Pruning (Some Returning)"] by simp
  with r released show ?thesis by (simp add: after_release_def)
next
  case return
  then show ?thesis using inv inv_return by simp
next
  case (complete h over)
  have "downloads_inv (release h p) ths" by (rule inv_drop_user [OF _ _ release_view]) (use inv complete in auto)
  then show ?thesis using complete inv_released by simp
qed

lemma uses_cong: "(\<And>i. active_of i g \<Longrightarrow> src' i = src i) \<Longrightarrow> uses src' g = uses src g"
  by (induction src g rule: uses.induct) auto

lemma recorded_jobs:
  "recorded p g \<Longrightarrow> (\<And>i. active_of i g \<or> pending_of i g \<Longrightarrow> source_map p' i = source_map p i) \<Longrightarrow>
   tp_pendingDownloads p' = tp_pendingDownloads p \<Longrightarrow> recorded p' g"
  by (induction p g rule: recorded.induct) auto

lemma job_source: "recorded p g \<Longrightarrow> active_of i g \<or> pending_of i g \<Longrightarrow> source_map p i \<noteq> None \<and> uses (source_map p) g = source_map p i"
  by (induction p g rule: recorded.induct) auto

text \<open>Records that belong to no goroutine may come and go.\<close>

lemma inv_sources:
  assumes inv: "downloads_inv p ths"
    and v: "jobs_view p' = (tp_slots p, tp_maxSlots p, tp_active p, tp_streams p, tp_pendingDownloads p, tp_activeDownloads p, source_map p')"
    and src: "\<And>i g. g \<in> set ths \<Longrightarrow> active_of i g \<or> pending_of i g \<Longrightarrow> source_map p' i = source_map p i"
  shows "downloads_inv p' ths"
proof (rule invI [OF v], goal_cases)
  case (3 h)
  have "tally (\<lambda>g. uses (source_map p') g = Some h) ths = tally (\<lambda>g. uses (source_map p) g = Some h) ths"
    by (rule tally_cong) (metis uses_cong src)
  then show ?case using invD(3) [OF inv, of h] by simp
next
  case (7 j) then show ?case by (rule invD(7) [OF inv])
next
  case (8 g)
  then show ?case using recorded_jobs [OF invD(8) [OF inv 8]] src v by (simp add: view_eq)
qed (use invD(1,2,4,5,6) [OF inv] in simp_all)

lemma inv_register:
  assumes "downloads_inv p ths" "resume_register env rec p = (r, p')"
  shows "downloads_inv p' ths"
  using register_run [OF assms(2)]
proof
  assume "jobs_view p' = jobs_view p"
  from inv_view [OF this] assms(1) show ?thesis by simp
next
  assume "source_map p (td_ID (dr_Download rec)) = None
    \<and> jobs_view p' = (tp_slots p, tp_maxSlots p, tp_active p, tp_streams p, tp_pendingDownloads p, tp_activeDownloads p,
        (source_map p)(td_ID (dr_Download rec) \<mapsto> td_SourceID (dr_Download rec)))"
  then have n: "source_map p (td_ID (dr_Download rec)) = None"
    and s: "source_map p' = (source_map p)(td_ID (dr_Download rec) \<mapsto> td_SourceID (dr_Download rec))"
    and v: "jobs_view p' = (tp_slots p, tp_maxSlots p, tp_active p, tp_streams p, tp_pendingDownloads p, tp_activeDownloads p, source_map p')"
    by (simp_all add: view_eq)
  show ?thesis
  proof (rule inv_sources [OF assms(1) v])
    fix i g assume "g \<in> set ths" "active_of i g \<or> pending_of i g"
    with job_source [OF invD(8) [OF assms(1) this(1)] this(2)] n show "source_map p' i = source_map p i" unfolding s by auto
  qed
qed

lemma inv_forgotten:
  assumes inv: "downloads_inv p ths" and f: "forgotten h p p'" and idle: "\<not> tp_active p h > 0"
  shows "downloads_inv p' ths"
proof -
  have none: "uses (source_map p) g \<noteq> Some h" if "g \<in> set ths" for g
    using that idle invD(3) [OF inv, of h] by (auto simp: tally_zero)
  have no: "\<not> (active_of i g \<or> pending_of i g)" if "g \<in> set ths" "source_map p i = Some h" for i g
    using none [OF that(1)] job_source [OF invD(8) [OF inv that(1)], of i] that(2) by auto
  have job: "tp_activeDownloads p i = None" if "source_map p i = Some h" for i
  proof -
    have "tally (active_of i) ths = 0" using no [OF _ that] by (simp add: tally_zero)
    with invD(6) [OF inv, of i] show ?thesis by (simp split: if_splits)
  qed
  have each: "tp_activeDownloads p' i = tp_activeDownloads p i \<and> source_map p' i = source_map p i
      \<or> source_map p i = Some h \<and> tp_activeDownloads p' i = None \<and> source_map p' i = None" for i using f by (simp add: forgotten_def)
  have act: "tp_activeDownloads p' = tp_activeDownloads p"
  proof
    show "tp_activeDownloads p' i = tp_activeDownloads p i" for i using each [of i] job [of i] by auto
  qed
  have v: "jobs_view p' = (tp_slots p, tp_maxSlots p, tp_active p, tp_streams p, tp_pendingDownloads p, tp_activeDownloads p, source_map p')"
    using f act by (simp add: view_eq forgotten_def)
  show ?thesis
  proof (rule inv_sources [OF inv v])
    fix i g assume "g \<in> set ths" "active_of i g \<or> pending_of i g"
    with no [of g i] each [of i] show "source_map p' i = source_map p i" by auto
  qed
qed

lemma same_view_inv:
  "preserves (same_jobs (jobs_view p)) act \<Longrightarrow> act p = (r, p') \<Longrightarrow> downloads_inv p ths \<Longrightarrow> downloads_inv p' ths"
  using preservesD [of "same_jobs (jobs_view p)" act p r p'] inv_view by blast

lemma download_step_inv:
  assumes "download_step env s s'" "downloads_inv (ds_provider s) (ds_threads s)"
  shows "downloads_inv (ds_provider s') (ds_threads s')"
  using assms
proof cases
  case (thread xs g ys p gs)
  have "downloads_inv (ds_provider s) (g # xs @ ys)" using assms(2) thread inv_swap [of "xs @ g # ys" "g # xs @ ys"] by simp
  from thread_step_inv [OF thread(3) this] show ?thesis using thread inv_swap [of "gs @ xs @ ys" "xs @ gs @ ys"] by simp
next
  case (prune xs k ys keys n r p)
  have inv: "downloads_inv p (Pruning k # xs @ ys)"
    using same_view_inv [OF view_Evict prune(4) assms(2)] prune inv_swap [of "xs @ Pruning k # ys" "Pruning k # xs @ ys"] by simp
  show ?thesis
  proof (cases k)
    case None
    with inv inv_idle [of "Pruning None" p "[]" "xs @ ys"] prune show ?thesis by simp
  next
    case (Some g)
    with inv_alike [OF inv refl, of g] prune inv_swap [of "g # xs @ ys" "xs @ g # ys"] show ?thesis by simp
  qed
next
  case (open_ok eng ref h path f p)
  with same_view_inv [OF view_open(1) open_ok(3) assms(2)] inv_idle [of "Opening ref h path f" p "ds_threads s" "[]"] show ?thesis by simp
next
  case (resuming eng rec f p)
  with same_view_inv [OF view_open(2) resuming(3) assms(2)] inv_idle [of "Resuming rec f" p "ds_threads s" "[]"] show ?thesis by simp
next
  case (resume_failed eng rec e p r p')
  with same_view_inv [OF view_failed resume_failed(4) same_view_inv [OF view_open(2) resume_failed(3) assms(2)]] show ?thesis by simp
next
  case (register rec r p)
  with inv_register [OF assms(2)] show ?thesis by simp
next
  case (removed ids i d r p)
  from remove_run [OF removed(3)] show ?thesis
  proof
    assume "jobs_view p = jobs_view (ds_provider s)"
    from inv_view [OF this] assms(2) removed show ?thesis by simp
  next
    assume "\<not> tp_active (ds_provider s) i > 0 \<and> forgotten i (ds_provider s) p"
    with inv_forgotten [OF assms(2)] removed show ?thesis by auto
  qed
next
  case cancel
  have "jobs_view ((ds_provider s)\<lparr>tp_closing := True\<rparr>) = jobs_view (ds_provider s)" by (simp add: jobs_view_def)
  from inv_view [OF this] assms(2) cancel show ?thesis by simp
qed (simp_all, (erule same_view_inv [rotated], rule assms(2), rule preserving)+)

end
