(* ===== verification/TorrentUse.thy ===== *)
theory TorrentUse
  imports TorrentDownloads
begin

text \<open>
  What the goroutines of the torrent provider promise: the invariant of \<open>TorrentDownloads\<close> in every
  reachable state, the protection of sources in use, and the deadlock of \<open>open\<close> with the
  handler of cache changes.
\<close>

lemma start_inv: "downloads_inv (NewStreaming m d n w) []"
  by (simp add: downloads_inv_def NewStreaming_def source_map_def)

lemma reachable_inv: "download_reachable env s \<Longrightarrow> downloads_inv (ds_provider s) (ds_threads s)"
proof (induction rule: download_reachable.induct)
  case (start m d n w)
  then show ?case by (simp add: idle_system_def start_inv)
next
  case (step s s')
  then show ?case by (blast intro: download_step_inv)
qed

lemma one_goroutine:
  assumes "downloads_inv p ths"
  shows "tally (\<lambda>g. active_of i g \<or> pending_of i g) ths \<le> 1"
proof -
  have "tally (\<lambda>g. active_of i g \<or> pending_of i g) ths \<le> tally (active_of i) ths + tally (pending_of i) ths"
    by (induction ths) auto
  also have "\<dots> \<le> 1" using invD(5,6,7) [OF assms, of i] by (auto split: if_splits)
  finally show ?thesis .
qed

text \<open>
  C32: downloads are counted exactly. In every reachable state, in whatever order the goroutines run and
  whatever fails, the goroutines that hold a download slot are as many as the provider counts and at
  most the configured number; for every source the number of uses is that of the goroutines that stream,
  download or wait for it, and the number of streams is exact; a job has at most one goroutine, and it
  has one that waits or transfers exactly if it is registered so.
\<close>

theorem download_invariant:
  assumes "download_reachable env s"
  shows "tally holds_slot (ds_threads s) = tp_slots (ds_provider s)
    \<and> tally holds_slot (ds_threads s) \<le> tp_maxSlots (ds_provider s)
    \<and> (\<forall>h. tp_active (ds_provider s) h = int (tally (\<lambda>g. uses (source_map (ds_provider s)) g = Some h) (ds_threads s)))
    \<and> (\<forall>h. tp_streams (ds_provider s) h = int (tally (streams_of h) (ds_threads s)))
    \<and> (\<forall>i. tally (\<lambda>g. active_of i g \<or> pending_of i g) (ds_threads s) \<le> 1)
    \<and> (\<forall>i. tp_pendingDownloads (ds_provider s) i \<noteq> None \<longleftrightarrow> (\<exists>g \<in> set (ds_threads s). pending_of i g))
    \<and> (\<forall>i. tp_activeDownloads (ds_provider s) i \<noteq> None \<longleftrightarrow> (\<exists>g \<in> set (ds_threads s). active_of i g))"
proof -
  note inv = reachable_inv [OF assms]
  have "tp_pendingDownloads (ds_provider s) i \<noteq> None \<longleftrightarrow> (\<exists>g \<in> set (ds_threads s). pending_of i g)"
    "tp_activeDownloads (ds_provider s) i \<noteq> None \<longleftrightarrow> (\<exists>g \<in> set (ds_threads s). active_of i g)" for i
    using invD(5,6) [OF inv, of i] tally_zero [of "pending_of i" "ds_threads s"] tally_zero [of "active_of i" "ds_threads s"]
    by (auto split: if_splits)
  then show ?thesis using invD(1-4) [OF inv] one_goroutine [OF inv] by simp
qed

lemma blobs_validate: "validateSourceID h p = (r, p') \<Longrightarrow> w_blobs (tp_world p') = w_blobs (tp_world p)"
  by (auto simp: validateSourceID_def with_state_def fail_def tryE_def on_world_def os_Stat_def os_call_def ret_def
    split: if_splits sum.splits option.splits prod.splits)


section \<open>A deadlock\<close>

lemma begin_complete: "ef_Length f \<le> b \<Longrightarrow> fst (beginTrackDownloadLocked env rec f b p) = Inr False"
proof -
  have "fst (bindE (modify (set_download r)) (\<lambda>_. bindE (persist_quietly env r) (\<lambda>_. ret False)) q) = Inr False" for r q
    using persist_quietly_ok [of env r "set_download r q"]
    by (cases "persist_quietly env r (set_download r q)") (simp add: bindE_def modify_def ret_def)
  then show "ef_Length f \<le> b \<Longrightarrow> ?thesis"
    by (simp add: beginTrackDownloadLocked_def now_E_def readE_def min_def Let_def split: prod.split)
qed

lemma schedule_complete:
  assumes "ef_Length f \<le> b" "tp_slots p < tp_maxSlots p"
  shows "fst (scheduleTrackDownloadLocked env rec f b p) = Inr NotNeeded"
proof -
  obtain now w where t: "time_Now (tp_world p) = (now, w)" by fastforce
  define q where "q = retain now (td_SourceID (dr_Download rec)) (ref_Key (dr_Source rec)) (p\<lparr>tp_world := w\<rparr>)"
  have q: "tp_slots q < tp_maxSlots q" using assms(2) by (simp add: q_def retain_def)
  obtain p2 where b: "beginTrackDownloadLocked env rec f b (take_slot q) = (Inr False, p2)"
    using begin_complete [OF assms(1), of env rec "take_slot q"] by (metis prod.collapse)
  show ?thesis
    by (simp add: scheduleTrackDownloadLocked_def Let_def now_E_def readE_def t bindE_def modify_def with_state_def q_def [symmetric] q b ret_def)
qed

lemma queue_complete:
  assumes "ef_Length f \<le> b" "tp_slots p < tp_maxSlots p" "tp_activeDownloads p (download_id env ref) = None"
    "tp_pendingDownloads p (download_id env ref) = None"
  shows "fst (queueTrackDownload env ref h path f b0 b p) = Inr (Some NotNeeded)"
proof -
  obtain r1 p1 where t: "track_of_key env (ref_Key ref) h path (ef_Length f) p = (r1, p1)" by fastforce
  have p1: "tp_slots p1 = tp_slots p" "tp_maxSlots p1 = tp_maxSlots p" "tp_activeDownloads p1 = tp_activeDownloads p"
    "tp_pendingDownloads p1 = tp_pendingDownloads p" and r1: "\<exists>trackID. r1 = Inr trackID"
    using t by (auto simp: track_of_key_def with_state_def ret_def bindE_def modify_def registerTrack_def Let_def split: if_splits)
  then obtain trackID where r1: "r1 = Inr trackID" by blast
  obtain now w where now: "time_Now (tp_world p1) = (now, w)" by fastforce
  define q where "q = p1\<lparr>tp_world := w\<rparr>"
  let ?rec = "merge_existing q (new_record env ref h path f b0 trackID now)"
  have id: "td_ID (dr_Download ?rec) = download_id env ref"
    by (simp add: merge_existing_def new_record_def with_download_def split: option.split)
  have q: "tp_slots q < tp_maxSlots q" "tp_activeDownloads q (download_id env ref) = None" "tp_pendingDownloads q (download_id env ref) = None"
    using assms(2-) p1 by (simp_all add: q_def)
  obtain p2 where s: "scheduleTrackDownloadLocked env ?rec f b q = (Inr NotNeeded, p2)"
    using schedule_complete [OF assms(1) q(1), of env ?rec] by (metis prod.collapse)
  have "fst (schedule_unless_busy env ?rec f b q) = Inr (Some NotNeeded)"
    by (simp add: schedule_unless_busy_def with_state_def id q s bindE_def ret_def)
  then show ?thesis by (simp add: queueTrackDownload_def bindE_def t r1 now_E_def readE_def now with_state_def q_def)
qed

lemma blocked_step:
  assumes "download_step env s s'" "Pruning (Some g) \<in> set (ds_threads s)" "reading g"
  shows "Pruning (Some g) \<in> set (ds_threads s')"
proof -
  have no_write: "\<not> may_write s" using assms(2,3) by (force simp: may_write_def list_ex_iff)
  have no_step: "\<not> thread_step env c p (Pruning k) p' gs" for c p k p' gs by (auto elim: thread_step.cases)
  from assms(1) show ?thesis
  proof cases
    case (thread xs x ys p gs)
    then have "x \<noteq> Pruning (Some g)" using no_step by auto
    with thread assms(2) show ?thesis by auto
  qed (use assms(2) no_write in auto)
qed

text \<open>
  C40: opening a file that is complete in the cache can block the provider for ever. \<open>open\<close> holds the
  read lock of \<open>operation\<close> while \<open>queueTrackDownload\<close> finds the file complete and releases the source; the handler
  that \<open>release\<close> calls prunes the cache and, if the cache is over its capacity, waits for the write lock in
  \<open>Evict\<close>. In every state that can open the file, with a slot free and no job for it, a few steps lead
  to a state from which this goroutine never goes on, no request ever gets the read lock again, and nothing
  is evicted or removed any more.
\<close>

theorem open_deadlocks:
  assumes "may_read s" and opened: "open_file env eng ref (ds_provider s) = (Inr (h, path, f), p)"
    and "tp_slots p < tp_maxSlots p" "tp_activeDownloads p (download_id env ref) = None" "tp_pendingDownloads p (download_id env ref) = None"
  shows "\<exists>s'. (download_step env)\<^sup>*\<^sup>* s s' \<and> (\<forall>s''. (download_step env)\<^sup>*\<^sup>* s' s'' \<longrightarrow>
    Pruning (Some (Opened h ref path)) \<in> set (ds_threads s'') \<and> \<not> may_read s'' \<and> \<not> may_write s'')"
proof -
  let ?g = "Pruning (Some (Opened h ref path))"
  let ?s1 = "s\<lparr>ds_provider := p, ds_threads := ds_threads s @ [Opening ref h path f]\<rparr>"
  have s1: "download_step env s ?s1" by (rule download_step.open_ok [OF assms(1) opened])
  have "fst (queueTrackDownload env ref h path f 0 (ef_Length f) p) = Inr (Some NotNeeded)"
    by (rule queue_complete [OF order_refl assms(3-)])
  then obtain p2 where q: "queueTrackDownload env ref h path f 0 (ef_Length f) p = (Inr (Some NotNeeded), p2)"
    by (metis prod.collapse)
  have "thread_step env (ds_cancelled ?s1) (ds_provider ?s1) (Opening ref h path f) p2
      (after_schedule True (download_id env ref) f (Opened h ref path) (Some NotNeeded))"
    by (rule thread_step.queue) (use q in simp)
  then have t: "thread_step env (ds_cancelled ?s1) (ds_provider ?s1) (Opening ref h path f) p2 [?g]" by (simp add: after_release_def)
  let ?s2 = "?s1\<lparr>ds_provider := p2, ds_threads := ds_threads s @ [?g] @ []\<rparr>"
  have s2: "download_step env ?s1 ?s2" by (rule download_step.thread [OF _ t]) simp
  have "?g \<in> set (ds_threads s'')" if "(download_step env)\<^sup>*\<^sup>* ?s2 s''" for s''
    using that by (induction rule: rtranclp_induct) (auto intro: blocked_step)
  moreover have "\<not> may_read s'' \<and> \<not> may_write s''" if "?g \<in> set (ds_threads s'')" for s''
    using that by (force simp: may_read_def may_write_def list_ex_iff)
  moreover have "(download_step env)\<^sup>*\<^sup>* s ?s2" using s1 s2 by (meson r_into_rtranclp rtranclp_trans)
  ultimately show ?thesis by blast
qed

section \<open>An example\<close>

definition demo_meta_path :: string where
  "demo_meta_path = filepath_Join [''/m'', demo_hash @ ''.torrent'']"

definition demo_seed_world :: world where
  "demo_seed_world = empty_world\<lparr>w_blobs := [(demo_meta_path, ''t'', 1)]\<rparr>"

definition demo_seed :: torrent_state where
  "demo_seed = NewStreaming ''/m'' ''/d'' 3 demo_seed_world"

definition demo_song :: engine_file where
  "demo_song = \<lparr>ef_number = 0, ef_Path = ''music/a.mp3'', ef_Length = 3\<rparr>"

definition demo_song_ref :: SourceRef where
  "demo_song_ref = \<lparr>ref_Provider = TorrentName, ref_Key = demo_hash @ ''/music/a.mp3''\<rparr>"

lemma fileExists_missing: "w_faults w = [] \<Longrightarrow> map_of (w_blobs w) p = None \<Longrightarrow> fileExists p w = (Inr False, w)"
  by (simp add: fileExists_def tryE_def os_Stat_def os_call_def no_faults ret_def)

lemma demo_m_path:
  assumes "plain_element x"
  shows "filepath_Join [''/m'', x] = ''/m/'' @ x"
proof -
  have "clean_root ''/m''" "path_elements ''/m'' = [''m'']"
    by (simp_all add: clean_root_def path_elements_def plain_element_def IsAbs_def HasPrefix_def)
  with legacy_path [of "''/m''" "[x]"] assms show ?thesis by simp
qed

lemma demo_meta: "demo_meta_path = ''/m/'' @ demo_hash @ ''.torrent''"
  "filepath_Join [''/m'', demo_hash @ ''.paused''] = ''/m/'' @ demo_hash @ ''.paused''"
proof -
  have "plain_element (demo_hash @ ''.torrent'')" "plain_element (demo_hash @ ''.paused'')"
    using demo_hash_ok(3) by (auto simp: plain_element_def append_eq_Cons_conv)
  from this [THEN demo_m_path] show "demo_meta_path = ''/m/'' @ demo_hash @ ''.torrent''"
    "filepath_Join [''/m'', demo_hash @ ''.paused''] = ''/m/'' @ demo_hash @ ''.paused''" by (simp_all add: demo_meta_path_def)
qed

lemma demo_seed_files:
  "w_faults demo_seed_world = []" "map_of (w_blobs demo_seed_world) (''/d'' @ x) = None"
  "map_of (w_blobs demo_seed_world) (filepath_Join [''/m'', demo_hash @ ''.paused'']) = None"
  "map_of (w_blobs demo_seed_world) demo_meta_path = Some (''t'', 1)"
  by (simp_all add: demo_seed_world_def empty_world_def demo_meta)

lemma demo_cached_song:
  "cachePath ''/d'' demo_hash ''music/a.mp3'' = ''/d'' @ ''/'' @ demo_hash @ ''/music/a.mp3''"
  "filepath_Join [''/d'', ''music/a.mp3''] = ''/d'' @ ''/music/a.mp3''"
  "filepath_Join [''/d'', demo_hash, legacyVerificationMarker] = ''/d'' @ ''/a'' @ replicate 39 (CHR ''a'') @ ''/'' @ legacyVerificationMarker"
proof -
  show "cachePath ''/d'' demo_hash ''music/a.mp3'' = ''/d'' @ ''/'' @ demo_hash @ ''/music/a.mp3''"
    using cachePath_plain [OF demo_root(1) hash_plain [OF demo_hash_ok(1,2)], of "[''music'', ''a.mp3'']"]
    by (simp add: demo_root plain_element_def)
  show "filepath_Join [''/d'', ''music/a.mp3''] = ''/d'' @ ''/music/a.mp3''"
    by (simp add: filepath_Join_def Clean_def IsAbs_def HasPrefix_def clean_elements_def clean_push_def)
  show "filepath_Join [''/d'', demo_hash, legacyVerificationMarker] = ''/d'' @ ''/a'' @ replicate 39 (CHR ''a'') @ ''/'' @ legacyVerificationMarker"
    using escape_paths(3) by simp
qed

lemma demo_legacy:
  "migrateLegacyData ''/d'' demo_hash \<lparr>ti_BestName = ''music'', ti_Files = [([''a.mp3''], 3)]\<rparr> demo_seed_world = (Inr (), demo_seed_world)"
  "prepareLegacyData ''/d'' demo_hash \<lparr>ti_BestName = ''music'', ti_Files = [([''a.mp3''], 3)]\<rparr> demo_seed_world = (Inr (), demo_seed_world)"
  "reconcileCacheData ''/d'' demo_hash \<lparr>ti_BestName = ''music'', ti_Files = [([''a.mp3''], 3)]\<rparr> demo_seed_world = (Inr (), demo_seed_world)"
proof -
  have ex: "fileExists (''/d'' @ x) demo_seed_world = (Inr False, demo_seed_world)" for x
    by (rule fileExists_missing [OF demo_seed_files(1,2)])
  note ex' = ex [of "''/'' @ demo_hash @ ''/music/a.mp3''", simplified] ex [of "''/'' @ demo_hash @ ''/music/a.mp3.part''", simplified]
    ex [of "''/music/a.mp3''", simplified] ex [of "''/music/a.mp3.part''", simplified]
    ex [of "''/a'' @ replicate 39 (CHR ''a'') @ ''/'' @ legacyVerificationMarker", simplified]
  show "migrateLegacyData ''/d'' demo_hash \<lparr>ti_BestName = ''music'', ti_Files = [([''a.mp3''], 3)]\<rparr> demo_seed_world = (Inr (), demo_seed_world)"
    by (simp add: migrateLegacyData_def demo_trim_names demo_safe_path bindE_def liftR_def ret_def migrateLegacyFileLocked_def
      demo_cached_song Let_def ex')
  show "prepareLegacyData ''/d'' demo_hash \<lparr>ti_BestName = ''music'', ti_Files = [([''a.mp3''], 3)]\<rparr> demo_seed_world = (Inr (), demo_seed_world)"
    by (simp add: prepareLegacyData_def bindE_def ret_def demo_cached_song Let_def ex')
  show "reconcileCacheData ''/d'' demo_hash \<lparr>ti_BestName = ''music'', ti_Files = [([''a.mp3''], 3)]\<rparr> demo_seed_world = (Inr (), demo_seed_world)"
    by (simp add: reconcileCacheData_def demo_trim_names demo_safe_path bindE_def liftR_def ret_def reconcile_file_def
      demo_cached_song Let_def ex')
qed

lemma demo_parse: "parseSourceKey (ref_Key demo_song_ref) = Inr (demo_hash, ''music/a.mp3'')"
  using parse_source_key [OF demo_hash_ok(1,2), of "[''music'', ''a.mp3'']"]
  by (simp add: demo_song_ref_def source_key_def plain_element_def)

lemma demo_open:
  "\<exists>p. open_file (demo_torrent_env ''music'') (\<lambda>_. Inr [demo_song]) demo_song_ref demo_seed = (Inr (demo_hash, ''music/a.mp3'', demo_song), p)
    \<and> jobs_view p = jobs_view demo_seed"
proof -
  let ?env = "demo_torrent_env ''music''" and ?w = demo_seed_world
  have p: "sourceMarkerExists demo_hash ''paused'' demo_seed = (Inr False, demo_seed)"
    using fileExists_missing [OF demo_seed_files(1,3)]
    by (simp add: sourceMarkerExists_def with_state_def sourceMarkerPath_def demo_seed_def NewStreaming_def on_world_def)
  let ?q = "demo_seed\<lparr>tp_client := Some Map.empty\<rparr>"
  have e: "ensureClient demo_seed = (Inr (), ?q)"
    by (simp add: ensureClient_def with_state_def demo_seed_def NewStreaming_def bindE_def wrapE_def on_world_def os_MkdirAll_def file_step_def
      os_call_def no_faults [OF demo_seed_files(1)] modify_def)
  have l: "load_info ?env demo_hash ?q = (Inr \<lparr>ti_BestName = ''music'', ti_Files = [([''a.mp3''], 3)]\<rparr>, ?q)"
    using demo_seed_files(4)
    by (simp add: load_info_def with_state_def tryE_def on_world_def demo_seed_def NewStreaming_def os_Open_def os_call_def
      no_faults [OF demo_seed_files(1)] demo_meta_path_def [symmetric] bindE_def wrapE_def liftR_def demo_torrent_env_def)
  have a: "attach_torrent (\<lambda>_. Inr [demo_song]) demo_hash ?q = (Inr [demo_song], attach demo_hash ?q)"
    by (simp add: attach_torrent_def bindE_def wrapE_def liftR_def modify_def on_world_def ctx_Err_def attach_def demo_seed_def NewStreaming_def
      no_faults [OF demo_seed_files(1)] ret_def)
  have x: "fileExists (cachePath ''/d'' demo_hash ''music/a.mp3'' @ ''.part'') ?w = (Inr False, ?w)"
    using fileExists_missing [OF demo_seed_files(1,2), of "''/'' @ demo_hash @ ''/music/a.mp3.part''"] by (simp add: demo_cached_song)
  have sel: "tp_dataRoot ?q = ''/d''" "tp_world ?q = ?w" "?q\<lparr>tp_world := ?w\<rparr> = ?q"
    "tp_world (attach demo_hash ?q) = ?w" "(attach demo_hash ?q)\<lparr>tp_world := ?w\<rparr> = attach demo_hash ?q"
    by (simp_all add: demo_seed_def NewStreaming_def attach_def)
  have song: "ef_Path demo_song = ''music/a.mp3''" by (simp add: demo_song_def)
  have "open_file ?env (\<lambda>_. Inr [demo_song]) demo_song_ref demo_seed = (Inr (demo_hash, ''music/a.mp3'', demo_song), attach demo_hash ?q)"
    by (simp add: open_file_def demo_parse liftR_def bindE_def p e l with_state_def wrapE_def on_world_def sel demo_legacy a x ret_def song)
  moreover have "jobs_view (attach demo_hash ?q) = jobs_view demo_seed" by (simp add: attach_def jobs_view_def)
  ultimately show ?thesis by blast
qed

lemma demo_view: "jobs_view demo_seed = (0, 3, \<lambda>_. 0, \<lambda>_. 0, Map.empty, Map.empty, Map.empty)"
  by (simp add: jobs_view_def demo_seed_def NewStreaming_def source_map_def fun_eq_iff)

theorem open_deadlocks_witness:
  "\<exists>s'. (download_step (demo_torrent_env ''music''))\<^sup>*\<^sup>* (idle_system demo_seed) s' \<and> \<not> may_read s' \<and> \<not> may_write s'"
proof -
  let ?env = "demo_torrent_env ''music''"
  obtain p where o: "open_file ?env (\<lambda>_. Inr [demo_song]) demo_song_ref (ds_provider (idle_system demo_seed))
      = (Inr (demo_hash, ''music/a.mp3'', demo_song), p)" "jobs_view p = jobs_view demo_seed"
    using demo_open by (auto simp: idle_system_def)
  have r: "may_read (idle_system demo_seed)" by (simp add: may_read_def idle_system_def)
  have "tp_slots p < tp_maxSlots p" "tp_activeDownloads p i = None" "tp_pendingDownloads p i = None" for i
    using o(2) unfolding demo_view by (simp_all add: view_eq)
  from open_deadlocks [OF r o(1) this] show ?thesis by blast
qed

text \<open>A stream under way: the file is opened and the reader handed out.\<close>

lemma demo_streaming:
  "\<exists>s path. download_reachable (demo_torrent_env ''music'') s \<and> Streaming demo_hash demo_song_ref path \<in> set (ds_threads s)"
proof -
  let ?env = "demo_torrent_env ''music''" and ?s = "idle_system demo_seed"
  obtain p where o: "open_file ?env (\<lambda>_. Inr [demo_song]) demo_song_ref (ds_provider ?s)
      = (Inr (demo_hash, ''music/a.mp3'', demo_song), p)" using demo_open by (auto simp: idle_system_def)
  have r0: "download_reachable ?env ?s" unfolding demo_seed_def by (rule download_reachable.start)
  let ?s1 = "?s\<lparr>ds_provider := p, ds_threads := ds_threads ?s @ [Opening demo_song_ref demo_hash ''music/a.mp3'' demo_song]\<rparr>"
  have r1: "download_reachable ?env ?s1"
    by (rule download_reachable.step [OF r0 download_step.open_ok [OF _ o]]) (simp add: may_read_def idle_system_def)
  obtain out p2 where q: "queueTrackDownload ?env demo_song_ref demo_hash ''music/a.mp3'' demo_song 0 0 p = (Inr out, p2)"
    using queue_run by (metis prod.collapse)
  let ?gs = "after_schedule False (download_id ?env demo_song_ref) demo_song (Opened demo_hash demo_song_ref ''music/a.mp3'') out"
  have t2: "thread_step ?env (ds_cancelled ?s1) (ds_provider ?s1) (Opening demo_song_ref demo_hash ''music/a.mp3'' demo_song) p2 ?gs"
    by (rule thread_step.queue) (use q in simp)
  let ?s2 = "?s1\<lparr>ds_provider := p2, ds_threads := [] @ ?gs @ []\<rparr>"
  have r2: "download_reachable ?env ?s2"
    by (rule download_reachable.step [OF r1 download_step.thread [OF _ t2]]) (simp add: idle_system_def)
  obtain gs where gs: "?gs = Opened demo_hash demo_song_ref ''music/a.mp3'' # gs"
  proof (cases out)
    case (Some o1)
    then show ?thesis using that by (cases o1) (auto simp: after_release_def)
  qed (use that in simp)
  have t3: "thread_step ?env (ds_cancelled ?s2) (ds_provider ?s2) (Opened demo_hash demo_song_ref ''music/a.mp3'')
      (retainStream 0 demo_hash (ref_Key demo_song_ref) (ds_provider ?s2)) [Streaming demo_hash demo_song_ref ''music/a.mp3'']"
    by (rule thread_step.stream)
  have "ds_threads ?s2 = [] @ Opened demo_hash demo_song_ref ''music/a.mp3'' # gs" using gs by simp
  from download_reachable.step [OF r2 download_step.thread [OF this t3]] show ?thesis
    by (intro exI conjI) auto
qed

theorem download_invariant_witness:
  "\<exists>s. download_reachable (demo_torrent_env ''music'') s \<and> tp_streams (ds_provider s) demo_hash > 0 \<and> tp_active (ds_provider s) demo_hash > 0"
proof -
  obtain s path where s: "download_reachable (demo_torrent_env ''music'') s" "Streaming demo_hash demo_song_ref path \<in> set (ds_threads s)"
    using demo_streaming by blast
  have "0 < tally (streams_of demo_hash) (ds_threads s)" by (rule tally_pos [OF s(2)]) simp
  moreover have "0 < tally (\<lambda>g. uses (source_map (ds_provider s)) g = Some demo_hash) (ds_threads s)" by (rule tally_pos [OF s(2)]) simp
  ultimately show ?thesis using download_invariant [OF s(1)] s(1) by (intro exI [of _ s]) simp
qed


end
