(* ===== verification/BoundedReader.thy ===== *)
theory BoundedReader
  imports TorrentUse
begin

text \<open>
  \<open>boundedReader\<close> of \<open>adapters/providers/torrent/provider.go\<close>: the reader handed out for a file of a torrent. It
  hides what the last piece shares with the next file and reports when a client has read the whole
  file in order. The reader of the engine is a parameter.
\<close>

text \<open>The engine's reader at a position: what a read with a buffer of some size gives, and where a seek leads.\<close>

record file_reader =
  fr_Read :: "int \<Rightarrow> nat \<Rightarrow> string \<times> go_error option"
  fr_Seek :: "int \<Rightarrow> int \<Rightarrow> int \<Rightarrow> int result"

text \<open>\<open>br_inner\<close> is the position of the embedded reader, \<open>br_closed\<close> says whether \<open>closeOnce\<close> has run.\<close>

record boundedReader =
  br_inner :: int
  br_position :: int
  br_length :: int
  br_readStarted :: bool
  br_contiguous :: bool
  br_completed :: bool
  br_closed :: bool

definition new_boundedReader :: "int \<Rightarrow> boundedReader" where
  "new_boundedReader len = \<lparr>br_inner = 0, br_position = 0, br_length = len, br_readStarted = False, br_contiguous = True,
     br_completed = False, br_closed = False\<rparr>"

text \<open>The result of \<open>Read\<close>, whether \<open>onComplete\<close> was called, and the reader after it.\<close>

definition bounded_Read :: "file_reader \<Rightarrow> nat \<Rightarrow> boundedReader \<Rightarrow> (string \<times> go_error option) \<times> bool \<times> boundedReader" where
  "bounded_Read fr n r =
    (if br_position r \<ge> br_length r then (('''', Some ErrEOF), False, r)
     else let remaining = br_length r - br_position r;
              buffer = (if int n > remaining then nat remaining else n);
              (data, err) = fr_Read fr (br_inner r) buffer;
              r1 = r\<lparr>br_readStarted := br_readStarted r \<or> data \<noteq> '''', br_position := br_position r + int (length data),
                     br_inner := br_inner r + int (length data)\<rparr>;
              complete = (br_position r1 \<ge> br_length r1 \<and> br_contiguous r1 \<and> \<not> br_completed r1);
              r2 = (if complete then r1\<lparr>br_completed := True\<rparr> else r1)
          in ((data, if err = None \<and> br_position r2 \<ge> br_length r2 then Some ErrEOF else err), complete, r2))"

definition bounded_Seek :: "file_reader \<Rightarrow> int \<Rightarrow> int \<Rightarrow> boundedReader \<Rightarrow> int result \<times> boundedReader" where
  "bounded_Seek fr offset whence r =
    (case fr_Seek fr (br_inner r) offset whence of
       Inl err \<Rightarrow> (Inl err, r)
     | Inr position \<Rightarrow> (Inr position, r\<lparr>br_inner := position, br_position := position,
         br_contiguous := (if \<not> br_readStarted r then position = 0
                           else if position \<noteq> br_position r then False else br_contiguous r)\<rparr>))"

text \<open>Whether \<open>onClose\<close> is called.\<close>

definition bounded_Close :: "boundedReader \<Rightarrow> bool \<times> boundedReader" where
  "bounded_Close r = (\<not> br_closed r, r\<lparr>br_closed := True\<rparr>)"

section \<open>A client\<close>

datatype reader_call = Read nat | Seek int int | Close

datatype reader_event = Delivered int string | Complete | Closed

fun reader_run :: "file_reader \<Rightarrow> reader_call list \<Rightarrow> boundedReader \<Rightarrow> reader_event list" where
  "reader_run fr [] r = []"
| "reader_run fr (Read n # cs) r =
    (let ((data, _), complete, r') = bounded_Read fr n r
     in Delivered (br_position r) data # (if complete then [Complete] else []) @ reader_run fr cs r')"
| "reader_run fr (Seek offset whence # cs) r = reader_run fr cs (snd (bounded_Seek fr offset whence r))"
| "reader_run fr (Close # cs) r =
    (let (first, r') = bounded_Close r in (if first then [Closed] else []) @ reader_run fr cs r')"

fun delivered :: "reader_event list \<Rightarrow> string" where
  "delivered [] = ''''"
| "delivered (Delivered _ data # es) = data @ delivered es"
| "delivered (_ # es) = delivered es"

text \<open>The engine's reader reads the bytes \<open>content\<close>, which may go on after the file.\<close>

definition reads :: "string \<Rightarrow> file_reader \<Rightarrow> bool" where
  "reads content fr \<longleftrightarrow> (\<forall>p n. 0 \<le> p \<longrightarrow> (let data = fst (fr_Read fr p n)
       in length data \<le> n \<and> data = take (length data) (drop (nat p) content)))
     \<and> (\<forall>p offset whence q. fr_Seek fr p offset whence = Inr q \<longrightarrow> 0 \<le> q)"

text \<open>A reader that has read in order has delivered the bytes before its position.\<close>

definition in_order :: "string \<Rightarrow> string \<Rightarrow> boundedReader \<Rightarrow> bool" where
  "in_order content past r \<longleftrightarrow> br_inner r = br_position r \<and> 0 \<le> br_position r
     \<and> (\<not> br_readStarted r \<longrightarrow> past = '''' \<and> (br_contiguous r \<longleftrightarrow> br_position r = 0))
     \<and> (br_contiguous r \<longrightarrow> past = take (nat (br_position r)) content \<and> int (length past) = br_position r)"

lemma in_order_new: "in_order content '''' (new_boundedReader len)"
  by (simp add: in_order_def new_boundedReader_def)

lemma Seek_in_order:
  assumes "in_order content past r" "reads content fr"
  shows "in_order content past (snd (bounded_Seek fr offset whence r))"
proof (cases "fr_Seek fr (br_inner r) offset whence")
  case (Inl e)
  with assms(1) show ?thesis by (simp add: bounded_Seek_def)
next
  case (Inr q)
  with assms(2) have "0 \<le> q" unfolding reads_def by blast
  with assms(1) Inr show ?thesis by (auto simp: in_order_def bounded_Seek_def)
qed

lemma Read_run:
  assumes io: "in_order content past r" and fr: "reads content fr" and run: "bounded_Read fr n r = ((data, err), complete, r')"
  shows "in_order content (past @ data) r'" "data \<noteq> '''' \<longrightarrow> br_position r + int (length data) \<le> br_length r"
    "data = take (length data) (drop (nat (br_position r)) content)" "length data \<le> n" "br_length r' = br_length r"
    "complete \<longrightarrow> past @ data = take (nat (br_length r)) content \<and> int (length (past @ data)) = br_length r \<and> \<not> br_completed r"
    "br_completed r' \<longleftrightarrow> br_completed r \<or> complete" "br_closed r' = br_closed r"
proof -
  show "br_length r' = br_length r" "br_completed r' \<longleftrightarrow> br_completed r \<or> complete" "br_closed r' = br_closed r"
    using run by (auto simp: bounded_Read_def Let_def split: if_splits prod.splits)
  let ?b = "if int n > br_length r - br_position r then nat (br_length r - br_position r) else n"
  let ?p = "nat (br_position r)"
  have "in_order content (past @ data) r' \<and> (data \<noteq> '''' \<longrightarrow> br_position r + int (length data) \<le> br_length r)
    \<and> data = take (length data) (drop ?p content) \<and> length data \<le> n
    \<and> (complete \<longrightarrow> past @ data = take (nat (br_length r)) content \<and> int (length (past @ data)) = br_length r \<and> \<not> br_completed r)"
  proof (cases "br_position r \<ge> br_length r")
    case True
    with run have "data = ''''" "\<not> complete" "r' = r" by (auto simp: bounded_Read_def)
    with io show ?thesis by simp
  next
    case False
    have pos: "0 \<le> br_position r" "br_inner r = br_position r" using io by (simp_all add: in_order_def)
    have d: "data = fst (fr_Read fr (br_position r) ?b)"
      using run False pos by (auto simp: bounded_Read_def Let_def split: prod.splits)
    with fr pos have len: "length data \<le> ?b" and data: "data = take (length data) (drop ?p content)"
      unfolding reads_def Let_def by blast+
    have lim: "br_position r + int (length data) \<le> br_length r" "length data \<le> n" using len False by (auto split: if_splits)
    obtain data' err' where fr': "fr_Read fr (br_position r) ?b = (data', err')" by fastforce
    have [simp]: "data' = data" using d fr' by simp
    note run' = run [unfolded bounded_Read_def Let_def if_not_P [OF False] pos(2) fr' prod.case]
    have r': "br_inner r' = br_position r + int (length data)" "br_position r' = br_position r + int (length data)"
      "br_readStarted r' \<longleftrightarrow> br_readStarted r \<or> data \<noteq> ''''" "br_contiguous r' = br_contiguous r"
      "complete \<longleftrightarrow> br_position r + int (length data) \<ge> br_length r \<and> br_contiguous r \<and> \<not> br_completed r"
      using run' by (auto split: if_splits)
    have more: "past @ data = take (nat (br_position r + int (length data))) content" "int (length (past @ data)) = br_position r + int (length data)"
      if "br_contiguous r"
    proof -
      from that io have past: "past = take ?p content" "int (length past) = br_position r" by (auto simp: in_order_def)
      then have "past @ data = take (?p + length data) content" using data by (metis take_add)
      then show "past @ data = take (nat (br_position r + int (length data))) content" using pos by (simp add: nat_add_distrib)
      show "int (length (past @ data)) = br_position r + int (length data)" using past(2) by (simp del: of_nat_eq_iff)
    qed
    have "in_order content (past @ data) r'"
      using io more pos unfolding in_order_def r' by auto
    moreover have "complete \<longrightarrow> past @ data = take (nat (br_length r)) content \<and> int (length (past @ data)) = br_length r \<and> \<not> br_completed r"
    proof
      assume complete
      with r'(5) lim have "br_contiguous r" "br_position r + int (length data) = br_length r" "\<not> br_completed r" by auto
      with more show "past @ data = take (nat (br_length r)) content \<and> int (length (past @ data)) = br_length r \<and> \<not> br_completed r" by simp
    qed
    ultimately show ?thesis using lim data by blast
  qed
  then show "in_order content (past @ data) r'" "data \<noteq> '''' \<longrightarrow> br_position r + int (length data) \<le> br_length r"
    "data = take (length data) (drop ?p content)" "length data \<le> n"
    "complete \<longrightarrow> past @ data = take (nat (br_length r)) content \<and> int (length (past @ data)) = br_length r \<and> \<not> br_completed r" by blast+
qed

lemma Close_in_order: "in_order content past (snd (bounded_Close r)) = in_order content past r"
  by (simp add: in_order_def bounded_Close_def)

lemma delivered_append: "delivered (xs @ ys) = delivered xs @ delivered ys"
  by (induction xs rule: delivered.induct) simp_all

lemma Seek_sel:
  "br_length (snd (bounded_Seek fr offset whence r)) = br_length r" "br_completed (snd (bounded_Seek fr offset whence r)) = br_completed r"
  "br_closed (snd (bounded_Seek fr offset whence r)) = br_closed r"
  by (simp_all add: bounded_Seek_def split: sum.split)

definition whole :: "string \<Rightarrow> int \<Rightarrow> string \<Rightarrow> bool" where
  "whole content len d \<longleftrightarrow> d = take (nat len) content \<and> int (length d) = len"

text \<open>The events of a reader that has delivered \<open>past\<close>.\<close>

definition events_ok :: "string \<Rightarrow> int \<Rightarrow> string \<Rightarrow> bool \<Rightarrow> bool \<Rightarrow> reader_event list \<Rightarrow> bool" where
  "events_ok content len past fin shut es \<longleftrightarrow>
     (\<forall>p data. Delivered p data \<in> set es \<longrightarrow> (data \<noteq> '''' \<longrightarrow> p + int (length data) \<le> len) \<and> data = take (length data) (drop (nat p) content))
     \<and> (\<forall>xs ys. es = xs @ Complete # ys \<longrightarrow> whole content len (past @ delivered xs)
          \<and> \<not> fin \<and> Complete \<notin> set xs \<and> Complete \<notin> set ys)
     \<and> length (filter (\<lambda>e. e = Closed) es) \<le> (if shut then 0 else 1)"

lemma events_Delivered:
  assumes "events_ok content len (past @ data) fin shut es" "data \<noteq> '''' \<longrightarrow> p + int (length data) \<le> len"
    "data = take (length data) (drop (nat p) content)"
  shows "events_ok content len past fin shut (Delivered p data # es)"
proof -
  have "whole content len (past @ delivered xs)
          \<and> \<not> fin \<and> Complete \<notin> set xs \<and> Complete \<notin> set ys" if "Delivered p data # es = xs @ Complete # ys" for xs ys
  proof -
    from that obtain zs where xs: "xs = Delivered p data # zs" "es = zs @ Complete # ys" by (cases xs) auto
    with assms(1) have "whole content len ((past @ data) @ delivered zs)
      \<and> \<not> fin \<and> Complete \<notin> set zs \<and> Complete \<notin> set ys" unfolding events_ok_def by blast
    then show ?thesis unfolding xs by simp
  qed
  then show ?thesis using assms unfolding events_ok_def by auto
qed

lemma events_Complete:
  assumes "events_ok content len past True shut es" "whole content len past" "\<not> fin"
  shows "events_ok content len past fin shut (Complete # es)"
proof -
  have no: "Complete \<notin> set es" using assms(1) unfolding events_ok_def by (metis split_list)
  have "whole content len (past @ delivered xs)
          \<and> \<not> fin \<and> Complete \<notin> set xs \<and> Complete \<notin> set ys" if "Complete # es = xs @ Complete # ys" for xs ys
  proof (cases xs)
    case Nil
    with that assms no show ?thesis by auto
  next
    case (Cons x zs)
    with that no show ?thesis by auto
  qed
  then show ?thesis using assms(1) unfolding events_ok_def by auto
qed

lemma events_Closed:
  assumes "events_ok content len past fin True es" "\<not> shut"
  shows "events_ok content len past fin shut (Closed # es)"
proof -
  have "whole content len (past @ delivered xs)
          \<and> \<not> fin \<and> Complete \<notin> set xs \<and> Complete \<notin> set ys" if "Closed # es = xs @ Complete # ys" for xs ys
  proof -
    from that obtain zs where xs: "xs = Closed # zs" "es = zs @ Complete # ys" by (cases xs) auto
    with assms(1) have "whole content len (past @ delivered zs)
      \<and> \<not> fin \<and> Complete \<notin> set zs \<and> Complete \<notin> set ys" unfolding events_ok_def by blast
    then show ?thesis unfolding xs by simp
  qed
  then show ?thesis using assms unfolding events_ok_def by auto
qed

lemma reader_run_ok:
  assumes "reads content fr"
  shows "in_order content past r \<Longrightarrow> events_ok content (br_length r) past (br_completed r) (br_closed r) (reader_run fr cs r)"
proof (induction cs arbitrary: r past)
  case Nil
  then show ?case by (simp add: events_ok_def)
next
  case (Cons c cs)
  show ?case
  proof (cases c)
    case (Read n)
    obtain data err complete r' where run: "bounded_Read fr n r = ((data, err), complete, r')" by (metis prod.collapse)
    note R = Read_run [OF Cons.prems assms run]
    have rest: "events_ok content (br_length r) (past @ data) (br_completed r \<or> complete) (br_closed r) (reader_run fr cs r')"
      using Cons.IH [OF R(1)] R(5,7,8) by simp
    have "events_ok content (br_length r) (past @ data) (br_completed r) (br_closed r) ((if complete then [Complete] else []) @ reader_run fr cs r')"
    proof (cases complete)
      case True
      with R(6) have "whole content (br_length r) (past @ data)" "\<not> br_completed r" unfolding whole_def by blast+
      with rest True events_Complete show ?thesis by simp
    qed (use rest in simp)
    from events_Delivered [OF this R(2,3)] show ?thesis unfolding Read by (simp add: run)
  next
    case (Seek offset whence)
    then show ?thesis using Cons.IH [OF Seek_in_order [OF Cons.prems assms, of offset whence]] by (simp add: Seek_sel)
  next
    case Close
    have rest: "events_ok content (br_length r) past (br_completed r) True (reader_run fr cs (snd (bounded_Close r)))"
      using Cons.IH [of past "snd (bounded_Close r)"] Cons.prems by (simp add: Close_in_order) (simp add: bounded_Close_def)
    show ?thesis
    proof (cases "br_closed r")
      case True
      with rest Close show ?thesis by (simp add: bounded_Close_def)
    next
      case False
      from events_Closed [OF rest] this Close show ?thesis by (simp add: bounded_Close_def)
    qed
  qed
qed

text \<open>
  C34: the reader of a file of a torrent. Whatever sequence of reads, seeks and closes a client makes, every byte
  it gets is the byte of the file at that position and none lies behind the end of the file, even where the
  engine would read on. Completion is reported at most once, and only when the bytes delivered up to then are
  the whole file in order; the end of the stream is reported at most once.
\<close>

theorem bounded_reader_spec:
  assumes "reads content fr" "es = reader_run fr cs (new_boundedReader len)"
  shows "(\<forall>p data. Delivered p data \<in> set es \<longrightarrow> (data \<noteq> '''' \<longrightarrow> p + int (length data) \<le> len)
        \<and> data = take (length data) (drop (nat p) content))
    \<and> (\<forall>xs ys. es = xs @ Complete # ys \<longrightarrow> delivered xs = take (nat len) content \<and> int (length (delivered xs)) = len
        \<and> Complete \<notin> set xs \<and> Complete \<notin> set ys)
    \<and> length (filter (\<lambda>e. e = Closed) es) \<le> 1"
proof -
  have "events_ok content len '''' False False es"
    using reader_run_ok [OF assms(1) in_order_new, of len cs] assms(2) by (simp add: new_boundedReader_def)
  then show ?thesis unfolding events_ok_def whole_def append_Nil if_False conj_assoc by blast
qed

definition demo_reader :: file_reader where
  "demo_reader = \<lparr>fr_Read = (\<lambda>p n. (take n (drop (nat p) ''abcde''), None)),
     fr_Seek = (\<lambda>p offset whence. if offset < 0 then Inl (Errorf ''negative position'') else Inr offset)\<rparr>"

theorem bounded_reader_spec_witness:
  "\<exists>xs ys. reader_run demo_reader [Seek 3 0, Seek 0 0, Read 2, Read 9, Read 1, Close] (new_boundedReader 3) = xs @ Complete # ys
    \<and> delivered xs = ''abc'' \<and> Complete \<notin> set ys"
proof -
  define cs where "cs = [Seek 3 0, Seek 0 0, Read 2, Read 9, Read 1, Close]"
  define xs where "xs = [Delivered 0 ''ab'', Delivered 2 ''c'']"
  define ys where "ys = [Delivered 3 '''', Closed]"
  have r: "reads ''abcde'' demo_reader"
    by (auto simp: reads_def demo_reader_def Let_def min_def split: if_splits)
  have es: "reader_run demo_reader cs (new_boundedReader 3) = xs @ Complete # ys"
    by (simp add: cs_def xs_def ys_def new_boundedReader_def bounded_Seek_def bounded_Read_def bounded_Close_def demo_reader_def Let_def
      numeral_eq_Suc)
  from bounded_reader_spec [OF r refl, of cs 3] es have "delivered xs = take (nat 3) ''abcde'' \<and> Complete \<notin> set ys" by metis
  with es show ?thesis unfolding cs_def by (intro exI [of _ xs] exI [of _ ys]) simp
qed

end
