(* ===== verification/SoulseekFiles.thy ===== *)
theory SoulseekFiles
  imports TorrentProvider
begin

text \<open>
  The pure half of the Soulseek provider, \<open>adapters/providers/soulseek\<close>: references to remote files and the
  paths they are downloaded to (\<open>download.go\<close>), the states of a transfer, the errors of the slskd
  service, and the search results (\<open>slskd.go\<close>). The JSON codec is a parameter; base64 is
  defined.
\<close>

section \<open>Package encoding/base64\<close>

definition base64url_value :: "char \<Rightarrow> nat option" where
  "base64url_value c =
    (let b = byte c in
     if 65 \<le> b \<and> b \<le> 90 then Some (b - 65)
     else if 97 \<le> b \<and> b \<le> 122 then Some (b - 71)
     else if 48 \<le> b \<and> b \<le> 57 then Some (b + 4)
     else if c = CHR ''-'' then Some 62 else if c = CHR ''_'' then Some 63 else None)"

fun decode_quads :: "nat list \<Rightarrow> string option" where
  "decode_quads [] = Some []"
| "decode_quads [a] = None"
| "decode_quads [a, b] = Some [char_of (a * 4 + b div 16)]"
| "decode_quads [a, b, c] = Some [char_of (a * 4 + b div 16), char_of (b mod 16 * 16 + c div 4)]"
| "decode_quads (a # b # c # d # rest) =
    map_option (\<lambda>s. char_of (a * 4 + b div 16) # char_of (b mod 16 * 16 + c div 4) # char_of (c mod 4 * 64 + d) # s)
      (decode_quads rest)"

text \<open>\<open>base64.RawURLEncoding.DecodeString\<close>: line breaks are skipped.\<close>

definition RawURLDecoding :: "string \<Rightarrow> string option" where
  "RawURLDecoding s = Option.bind (those (map base64url_value (filter (\<lambda>c. byte c \<noteq> 10 \<and> byte c \<noteq> 13) s))) decode_quads"

lemma base64url_value_char [simp]: "n < 64 \<Longrightarrow> base64url_value (base64url_char n) = Some n"
  unfolding base64url_value_def base64url_char_def byte_def by (auto simp: Let_def)

lemma base64url_char_byte [simp]: "n < 64 \<Longrightarrow> byte (base64url_char n) \<noteq> 10" "n < 64 \<Longrightarrow> byte (base64url_char n) \<noteq> 13"
  unfolding base64url_char_def byte_def by auto

lemma byte_quads:
  "byte a div 4 < 64" "byte a mod 4 * 16 < 64" "byte a mod 4 * 16 + byte b div 16 < 64"
  "byte b mod 16 * 4 < 64" "byte b mod 16 * 4 + byte c div 64 < 64" "byte c mod 64 < 64"
  using byte_less [of a] byte_less [of b] byte_less [of c] by auto

lemma char_of_byte [simp]: "char_of (byte c) = c"
  by (simp add: byte_def)

lemma byte_halves [simp]:
  "byte b div 16 div 16 = 0" "byte b div 16 mod 16 = byte b div 16" "byte c div 64 div 4 = 0" "byte c div 64 mod 4 = byte c div 64"
proof -
  have "byte b div 16 < 16" "byte c div 64 < 4" by (simp_all add: less_mult_imp_div_less)
  then show "byte b div 16 div 16 = 0" "byte b div 16 mod 16 = byte b div 16" "byte c div 64 div 4 = 0"
    "byte c div 64 mod 4 = byte c div 64" by simp_all
qed

lemma RawURLDecoding_Encoding [simp]: "RawURLDecoding (RawURLEncoding s) = Some s"
proof (induction s rule: RawURLEncoding.induct)
  case (4 a b c rest)
  then obtain vs where "those (map base64url_value (filter (\<lambda>c. byte c \<noteq> 10 \<and> byte c \<noteq> 13) (RawURLEncoding rest))) = Some vs"
    "decode_quads vs = Some rest"
    by (auto simp: RawURLDecoding_def bind_eq_Some_conv)
  then show ?case by (simp add: RawURLDecoding_def byte_quads)
qed (simp_all add: RawURLDecoding_def byte_quads)

section \<open>Remote files\<close>

definition SoulseekName :: string where "SoulseekName = ''soulseek''"

record remoteFileRef =
  rf_Peer :: string
  rf_Path :: string
  rf_Size :: int

record persistedDownloadJob =
  pj_Download :: TrackDownload
  pj_Key :: string
  pj_TrackID :: string
  pj_Remote :: remoteFileRef
  pj_BatchID :: string
  pj_TransferID :: string
  pj_RetryCount :: int

record soulseek_env =
  se_text :: text_env
  se_Marshal :: "remoteFileRef \<Rightarrow> string"
  se_Unmarshal :: "string \<Rightarrow> remoteFileRef result"
  se_MarshalJob :: "persistedDownloadJob \<Rightarrow> string"
  se_UnmarshalJob :: "string \<Rightarrow> persistedDownloadJob result"

definition encodeRef :: "soulseek_env \<Rightarrow> remoteFileRef \<Rightarrow> string" where
  "encodeRef env r = RawURLEncoding (se_Marshal env r)"

definition decodeRemoteFileRef :: "soulseek_env \<Rightarrow> string \<Rightarrow> remoteFileRef result" where
  "decodeRemoteFileRef env key =
    (case RawURLDecoding key of
       None \<Rightarrow> Inl (Errorf ''decode Soulseek source reference'')
     | Some encoded \<Rightarrow>
         (case se_Unmarshal env encoded of
            Inl err \<Rightarrow> Inl (Wrap ''decode Soulseek source reference'' err)
          | Inr r \<Rightarrow>
              let remote = r\<lparr>rf_Peer := TrimSpace (rf_Peer r), rf_Path := TrimSpace (rf_Path r)\<rparr>
              in if rf_Peer remote = '''' \<or> rf_Path remote = '''' \<or> rf_Size remote \<le> 0
                 then Inl (Errorf ''invalid Soulseek source reference'') else Inr remote))"

subsection \<open>Where they are stored\<close>

abbreviation backslash :: char where "backslash \<equiv> CHR 0x5C"

definition path_separator :: "nat \<Rightarrow> bool" where
  "path_separator r \<longleftrightarrow> r = 47 \<or> r = 92"

definition separator_char :: "char \<Rightarrow> bool" where
  "separator_char c \<longleftrightarrow> c = slash \<or> c = backslash"

definition sanitizedPathSegment :: "string \<Rightarrow> string" where
  "sanitizedPathSegment value0 =
    (let value = map (\<lambda>c. if c = CHR 0x00 \<or> c = slash \<or> c = backslash then CHR ''_'' else c) value0
     in if value = ''.'' \<or> value = ''..'' then ''_'' else value)"

definition sanitizedFilename :: "string \<Rightarrow> string" where
  "sanitizedFilename path =
    (let parts = FieldsFunc path path_separator
     in if parts = [] then ''audio'' else sanitizedPathSegment (last parts))"

text \<open>What \<open>driveRootPattern\<close>, \<open>uncRootPattern\<close> and \<open>soulseekQtRootPattern\<close> match at the front is dropped.\<close>

definition drop_separator :: "string \<Rightarrow> string" where
  "drop_separator s = (case s of c # rest \<Rightarrow> if separator_char c then rest else s | [] \<Rightarrow> [])"

definition is_letter :: "char \<Rightarrow> bool" where
  "is_letter c \<longleftrightarrow> 65 \<le> byte c \<and> byte c \<le> 90 \<or> 97 \<le> byte c \<and> byte c \<le> 122"

fun strip_drive :: "string \<Rightarrow> string" where
  "strip_drive (c # d # rest) = (if is_letter c \<and> d = CHR '':'' then drop_separator rest else c # d # rest)"
| "strip_drive s = s"

fun strip_unc :: "string \<Rightarrow> string" where
  "strip_unc (a # b # c # rest) =
    (if separator_char a \<and> separator_char b \<and> \<not> separator_char c
     then drop_separator (dropWhile (\<lambda>x. \<not> separator_char x) rest) else a # b # c # rest)"
| "strip_unc s = s"

definition strip_share :: "string \<Rightarrow> string" where
  "strip_share s =
    (if HasPrefix s ''@@'' \<and> length (takeWhile (\<lambda>c. is_letter c \<or> is_digit c) (drop 2 s)) \<ge> 5
     then drop_separator (dropWhile (\<lambda>c. is_letter c \<or> is_digit c) (drop 2 s)) else s)"

definition sanitizedRemoteDirectory :: "string \<Rightarrow> string" where
  "sanitizedRemoteDirectory path =
    (let p = strip_share (strip_unc (strip_drive (map (\<lambda>c. if c = backslash then slash else c) path)));
         parts = FieldsFunc p path_separator
     in if length parts \<le> 1 then '''' else filepath_Join (map sanitizedPathSegment (butlast parts)))"

definition finalPath_of :: "string \<Rightarrow> string \<Rightarrow> remoteFileRef \<Rightarrow> string" where
  "finalPath_of downloadsDir trackID remote = filepath_Join [downloadsDir, trackID, sanitizedFilename (rf_Path remote)]"

definition incompletePath_of :: "string \<Rightarrow> remoteFileRef \<Rightarrow> string" where
  "incompletePath_of incompleteDir remote =
    filepath_Join [incompleteDir, sanitizedPathSegment (rf_Peer remote), sanitizedRemoteDirectory (rf_Path remote),
      sanitizedFilename (rf_Path remote)]"

text \<open>\<open>resolve\<close> makes up an identifier for a file that has none.\<close>

definition resolve_trackID :: "soulseek_env \<Rightarrow> string \<Rightarrow> remoteFileRef \<Rightarrow> string" where
  "resolve_trackID env trackID remote =
    (if TrimSpace trackID = ''''
     then StableID (se_text env) SoulseekName [rf_Peer remote, rf_Path remote, Itoa (rf_Size remote)] else trackID)"

section \<open>States of a transfer\<close>

record slskdDownloadTransfer =
  sdt_ID :: string
  sdt_Filename :: string
  sdt_State :: string
  sdt_BytesTransferred :: int
  sdt_Exception :: string

definition stateContains :: "unicode_tables \<Rightarrow> string \<Rightarrow> string \<Rightarrow> bool" where
  "stateContains uc state flag =
    list_ex (\<lambda>v. EqualFold uc (TrimSpace v) flag) (FieldsFunc state (\<lambda>r. r = 44 \<or> r = 124))"

definition transferSucceeded :: "unicode_tables \<Rightarrow> string \<Rightarrow> bool" where
  "transferSucceeded uc state \<longleftrightarrow> stateContains uc state ''Completed'' \<and> stateContains uc state ''Succeeded''"

definition transferFailed :: "unicode_tables \<Rightarrow> string \<Rightarrow> bool" where
  "transferFailed uc state \<longleftrightarrow> stateContains uc state ''Completed''
     \<and> list_ex (stateContains uc state) [''Errored'', ''Rejected'', ''Cancelled'', ''TimedOut'', ''Aborted'']"

definition retryableTransferFailure :: "unicode_tables \<Rightarrow> slskdDownloadTransfer \<Rightarrow> bool" where
  "retryableTransferFailure uc transfer =
    (if stateContains uc (sdt_State transfer) ''TimedOut'' \<or> stateContains uc (sdt_State transfer) ''Aborted'' then True
     else if \<not> stateContains uc (sdt_State transfer) ''Errored'' then False
     else list_ex (Contains (ToLower uc (sdt_Exception transfer)))
       [''timeout'', ''timed out'', ''disconnect'', ''temporarily unavailable'', ''connection reset''])"

section \<open>Requests to slskd\<close>

text \<open>What comes back of a request: a failure of the transport with its message, or a status, the
  message of the body and the body decoded. A body that is cut off fails with a message and, if the
  context ended, its cause.\<close>

datatype context_cause = NoCause | Canceled | DeadlineExceeded

datatype 'a http_response =
    NoResponse string
  | Response int string "(string \<times> context_cause) + 'a"

datatype slskd_error =
    SlskdHTTPError int string
  | SlskdUnavailable string
  | SlskdBody string context_cause

definition doJSON :: "'a http_response \<Rightarrow> slskd_error + 'a" where
  "doJSON response =
    (case response of
       NoResponse message \<Rightarrow> Inl (SlskdUnavailable message)
     | Response status message body \<Rightarrow>
         if status = 401 \<or> status = 403 then Inl (SlskdUnavailable ''slskd rejected the API key'')
         else if status < 200 \<or> status \<ge> 300 then Inl (SlskdHTTPError status (TrimSpace message))
         else (case body of Inl (m, cause) \<Rightarrow> Inl (SlskdBody m cause) | Inr x \<Rightarrow> Inr x))"

definition isSlskdHTTPStatus :: "slskd_error \<Rightarrow> int \<Rightarrow> bool" where
  "isSlskdHTTPStatus err status = (case err of SlskdHTTPError code _ \<Rightarrow> code = status | _ \<Rightarrow> False)"

definition temporarySlskdError :: "unicode_tables \<Rightarrow> slskd_error \<Rightarrow> bool" where
  "temporarySlskdError uc err =
    (case err of
       SlskdHTTPError code _ \<Rightarrow> code = 429 \<or> code \<ge> 500
     | SlskdUnavailable message \<Rightarrow>
         list_ex (Contains (ToLower uc message)) [''timeout'', ''timed out'', ''connection reset'', ''connection refused'']
     | SlskdBody message cause \<Rightarrow>
         (case cause of
            Canceled \<Rightarrow> False | DeadlineExceeded \<Rightarrow> True
          | NoCause \<Rightarrow> list_ex (Contains (ToLower uc message))
              [''timeout'', ''timed out'', ''connection reset'', ''connection refused'']))"

definition peerBusyRetryAttempts :: nat where "peerBusyRetryAttempts = 4"

text \<open>The attempts of \<open>doPeerJSON\<close>, with the peer's gate in hand: \<open>wait n\<close> tells whether the context ended while
  waiting after attempt \<open>n\<close>.\<close>

fun peer_attempts :: "nat \<Rightarrow> (nat \<Rightarrow> 'a http_response) \<Rightarrow> (nat \<Rightarrow> bool) \<Rightarrow> nat \<Rightarrow> slskd_error + 'a" where
  "peer_attempts 0 answer ended k = Inl (SlskdHTTPError 429 [])"
| "peer_attempts (Suc n) answer ended k =
    (case doJSON (answer k) of
       Inr x \<Rightarrow> Inr x
     | Inl err \<Rightarrow>
         if \<not> isSlskdHTTPStatus err 429 then Inl err
         else if n = 0 then Inl err
         else if ended k then Inl (SlskdUnavailable ''wait to retry slskd peer operation'')
         else peer_attempts n answer ended (Suc k))"

definition doPeerJSON :: "(nat \<Rightarrow> 'a http_response) \<Rightarrow> (nat \<Rightarrow> bool) \<Rightarrow> slskd_error + 'a" where
  "doPeerJSON answer ended = peer_attempts peerBusyRetryAttempts answer ended 0"

section \<open>Downloads stay in their directories\<close>

lemma split_on_Join_concat: "xs \<noteq> [] \<Longrightarrow> split_on c (strings_Join xs [c]) = concat (map (split_on c) xs)"
proof (induction xs)
  case (Cons a xs)
  then show ?case by (cases xs) (simp_all add: split_on_sep)
qed simp

lemma Join_elements:
  assumes "clean_root root" "filter (\<lambda>c. c \<noteq> '''') (concat (map (split_on slash) es)) = rel" "list_all plain_element rel"
  shows "filepath_Join (root # es) = slash # strings_Join (path_elements root @ rel) ''/''"
proof -
  from assms(1) have abs: "IsAbs root" and pe: "list_all plain_element (path_elements root)"
    by (auto simp: clean_root_def)
  have ne: "root \<noteq> ''''" using abs by (auto simp: IsAbs_def HasPrefix_def)
  have abs': "IsAbs (strings_Join (root # es) ''/'')"
    using abs by (cases es; cases root) (auto simp: IsAbs_def HasPrefix_def)
  have parts: "filter (\<lambda>c. c \<noteq> '''') (concat (map (split_on slash) (root # es))) = path_elements root @ rel"
    using assms(2) by (simp add: path_elements_def)
  have "foldl (clean_push True) [] (concat (map (split_on slash) (root # es))) = rev (path_elements root @ rel)"
    using foldl_clean_plain [of "path_elements root @ rel" True "[]"] pe assms(3)
    by (simp only: parts flip: foldl_clean_filter [of True "[]" "concat _"]) simp
  then show ?thesis using ne abs' by (simp add: filepath_Join_def Clean_def clean_elements_def split_on_Join_concat)
qed

lemma below_elements:
  assumes "clean_root root" "list_all plain_element (filter (\<lambda>c. c \<noteq> '''') (concat (map (split_on slash) es)))"
  shows "below root (filepath_Join (root # es))"
  unfolding Join_elements [OF assms(1) refl assms(2)] by (rule below_Join [OF assms])

lemma plain_sanitized: "v \<noteq> '''' \<Longrightarrow> plain_element (sanitizedPathSegment v)"
  by (auto simp: sanitizedPathSegment_def plain_element_def Let_def)

lemma fields_nonempty: "x \<in> set (fields_go sep cur ps) \<Longrightarrow> x \<noteq> ''''"
  by (induction sep cur ps rule: fields_go.induct) (auto split: if_splits)

lemma FieldsFunc_nonempty: "x \<in> set (FieldsFunc s sep) \<Longrightarrow> x \<noteq> ''''"
  unfolding FieldsFunc_def by (rule fields_nonempty)

lemma plain_sanitizedFilename: "plain_element (sanitizedFilename path)"
  using FieldsFunc_nonempty [OF last_in_set, of path path_separator] plain_sanitized
  by (auto simp: sanitizedFilename_def plain_element_def Let_def)

lemma sanitizedRemoteDirectory_elements:
  "list_all plain_element (filter (\<lambda>c. c \<noteq> '''') (split_on slash (sanitizedRemoteDirectory path)))"
proof -
  define p where "p = strip_share (strip_unc (strip_drive (map (\<lambda>c. if c = backslash then slash else c) path)))"
  define rel where "rel = map sanitizedPathSegment (butlast (FieldsFunc p path_separator))"
  show ?thesis
  proof (cases "length (FieldsFunc p path_separator) \<le> 1")
    case True
    then have "sanitizedRemoteDirectory path = ''''" by (simp add: sanitizedRemoteDirectory_def p_def Let_def)
    then show ?thesis by simp
  next
    case False
    have plain: "list_all plain_element rel"
      by (auto simp: rel_def list_all_iff intro!: plain_sanitized dest!: in_set_butlastD FieldsFunc_nonempty)
    have ne: "rel \<noteq> []" using False by (cases "FieldsFunc p path_separator") (auto simp: rel_def)
    have dw: "dropWhile (\<lambda>e. e = '''') rel = rel" using plain ne by (cases rel) (auto simp: plain_element_def)
    have "sanitizedRemoteDirectory path = filepath_Join rel"
      using False by (simp add: sanitizedRemoteDirectory_def p_def rel_def Let_def)
    also have "\<dots> = strings_Join rel ''/''" using Clean_plain_Join [OF ne plain] ne by (simp add: filepath_Join_def dw)
    finally have "split_on slash (sanitizedRemoteDirectory path) = rel"
      using split_on_Join [OF ne, of slash] plain_no_slash [OF plain] by simp
    then show ?thesis using plain by (simp add: filter_plain)
  qed
qed

lemma base64url_no_slash: "slash \<notin> set (RawURLEncoding s)"
proof -
  have "slash \<noteq> base64url_char n" for n
  proof (cases "n < 64")
    case True
    then have "byte (base64url_char n) \<noteq> 47" by (simp only: byte_base64url_char) auto
    moreover have "byte slash = 47" by (simp add: byte_def)
    ultimately show ?thesis by metis
  qed (simp add: base64url_char_def)
  then show ?thesis by (induction s rule: RawURLEncoding.induct) simp_all
qed

text \<open>
  C37: wherever a peer says its file is, the download goes below the two directories of the provider.
  For every source key that is accepted, the final path lies below the downloads directory and the
  incomplete one below its own, provided that the identifier of the track is a plain name or blank.
\<close>

theorem soulseek_paths_below:
  assumes "clean_root downloadsDir" "clean_root incompleteDir" "decodeRemoteFileRef env key = Inr remote"
    "TrimSpace trackID = '''' \<or> plain_element trackID"
  shows "below downloadsDir (finalPath_of downloadsDir (resolve_trackID env trackID remote) remote)
    \<and> below incompleteDir (incompletePath_of incompleteDir remote)"
proof
  have id: "plain_element (resolve_trackID env trackID remote)"
    using assms(4) base64url_no_slash
    by (auto simp: resolve_trackID_def StableID_def SoulseekName_def plain_element_def Let_def TrimSpace_Nil_iff)
  show "below downloadsDir (finalPath_of downloadsDir (resolve_trackID env trackID remote) remote)"
    unfolding finalPath_of_def using id plain_sanitizedFilename [of "rf_Path remote"]
    by (intro below_elements assms) (auto simp: plain_element_def)
  have "rf_Peer remote \<noteq> ''''"
    using assms(3) by (auto simp: decodeRemoteFileRef_def Let_def split: option.splits sum.splits if_splits)
  then show "below incompleteDir (incompletePath_of incompleteDir remote)"
    unfolding incompletePath_of_def
    using plain_sanitized [of "rf_Peer remote"] plain_sanitizedFilename [of "rf_Path remote"] sanitizedRemoteDirectory_elements [of "rf_Path remote"]
    by (intro below_elements assms) (auto simp: plain_element_def)
qed

theorem soulseek_paths_below_witness:
  "below ''/dl'' (finalPath_of ''/dl'' ''track_x'' \<lparr>rf_Peer = ''..'', rf_Path = ''C:'' @ [backslash] @ ''..'' @ [backslash] @ ''..'', rf_Size = 7\<rparr>)"
proof -
  define r where "r = \<lparr>rf_Peer = ''..'', rf_Path = ''C:'' @ [backslash] @ ''..'' @ [backslash] @ ''..'', rf_Size = 7\<rparr>"
  define env :: soulseek_env where
    "env = \<lparr>se_text = \<lparr>unicode = ascii_tables, sha256 = id, NFKC = id, CaseFold = id\<rparr>, se_Marshal = (\<lambda>_. ''x''), se_Unmarshal = (\<lambda>_. Inr r),
      se_MarshalJob = (\<lambda>_. ''''), se_UnmarshalJob = (\<lambda>_. Inl ErrEOF)\<rparr>"
  have "TrimSpace (rf_Peer r) = ''..''" "TrimSpace (rf_Path r) = rf_Path r" "TrimSpace ''track_x'' \<noteq> ''''" by (simp_all add: r_def go_eval)
  then have d: "decodeRemoteFileRef env (RawURLEncoding ''x'') = Inr r" "resolve_trackID env ''track_x'' r = ''track_x''"
    by (simp_all add: decodeRemoteFileRef_def env_def r_def resolve_trackID_def del: RawURLEncoding.simps)
  have roots: "clean_root ''/dl''" "clean_root ''/part''" "plain_element ''track_x''" 
    by (simp_all add: clean_root_def path_elements_def plain_element_def IsAbs_def HasPrefix_def)
  show ?thesis using soulseek_paths_below [OF roots(1,2) d(1) disjI2 [OF roots(3)]] d(2) by (simp add: r_def)
qed

end
