(* ===== verification/SoulseekSearch.thy ===== *)
theory SoulseekSearch
  imports SoulseekFiles
begin

text \<open>
  Searching and browsing of the Soulseek provider, \<open>adapters/providers/soulseek/slskd.go\<close>: how the answers of
  the slskd service become sources of tracks. What the service answers is an argument.
\<close>

section \<open>Answers of the service\<close>

record slskdFile =
  sf_Filename :: string
  sf_Extension :: string
  sf_Size :: int
  sf_Length :: "int option"
  sf_BitRate :: "int option"

record slskdSearchResponse =
  sr_Username :: string
  sr_Files :: "slskdFile list"
  sr_LockedFiles :: "slskdFile list"
  sr_HasFreeUploadSlot :: bool
  sr_QueueLength :: int
  sr_UploadSpeed :: int

record slskdSearch =
  ss_ID :: string
  ss_IsComplete :: bool
  ss_Responses :: "slskdSearchResponse list"

record slskdDirectory =
  sd_Name :: string
  sd_Files :: "slskdFile list"

definition fileExtension :: "unicode_tables \<Rightarrow> slskdFile \<Rightarrow> string" where
  "fileExtension uc f =
    (let extension = ToLower uc (TrimPrefix (TrimSpace (sf_Extension f)) ''.'')
     in if extension = '''' then TrimPrefix (ToLower uc (filepath_Ext (sf_Filename f))) ''.'' else extension)"

text \<open>\<open>provisionalArtistAlbum\<close> of this package.\<close>

definition remote_ArtistAlbum :: "string \<Rightarrow> string \<times> string" where
  "remote_ArtistAlbum displayPath =
    (let parts = FieldsFunc displayPath path_separator; n = length parts;
         album = (if n \<ge> 2 \<and> TrimSpace (parts ! (n - 2)) \<noteq> '''' then TrimSpace (parts ! (n - 2)) else ''Unknown Album'');
         artist = (if n \<ge> 3 \<and> TrimSpace (parts ! (n - 3)) \<noteq> '''' then TrimSpace (parts ! (n - 3)) else ''Unknown Artist'')
     in (artist, album))"

definition display_path :: "string \<Rightarrow> string" where
  "display_path filename = map (\<lambda>c. if c = backslash then slash else c) filename"

definition remote_title :: "string \<Rightarrow> string" where
  "remote_title displayPath = TrimSuffix (path_Base displayPath) (filepath_Ext displayPath)"

definition positive :: "int option \<Rightarrow> int" where
  "positive v = (case v of Some n \<Rightarrow> if n > 0 then n else 0 | None \<Rightarrow> 0)"

definition file_ref :: "string \<Rightarrow> slskdFile \<Rightarrow> remoteFileRef" where
  "file_ref peer f = \<lparr>rf_Peer = peer, rf_Path = sf_Filename f, rf_Size = sf_Size f\<rparr>"

definition remote_track :: "text_env \<Rightarrow> string \<Rightarrow> slskdFile \<Rightarrow> Format \<Rightarrow> string \<Rightarrow> string \<Rightarrow> Track" where
  "remote_track env peer f format artist album = zero_track\<lparr>
     track_ID := StableID env SoulseekName [peer, sf_Filename f, Itoa (sf_Size f)],
     track_Title := remote_title (display_path (sf_Filename f)),
     track_Artist := artist, track_ArtistID := CanonicalArtistID env artist, track_Album := album,
     track_AlbumID := CanonicalAlbumID env artist album, track_AlbumArtist := artist,
     track_AlbumArtistID := CanonicalArtistID env artist, track_Size := sf_Size f,
     track_Suffix := fmt_Suffix format, track_ContentType := fmt_ContentType format,
     track_Duration := i64 (positive (sf_Length f) * second), track_BitRate := positive (sf_BitRate f)\<rparr>"

section \<open>Search results\<close>

definition search_result ::
  "soulseek_env \<Rightarrow> time \<Rightarrow> slskdSearchResponse \<Rightarrow> slskdFile \<times> bool \<Rightarrow> TrackSource option" where
  "search_result env now response candidate =
    (let f = fst candidate; uc = unicode (se_text env) in
     case ByExtension uc (fileExtension uc f) of
       None \<Rightarrow> None
     | Some format \<Rightarrow>
         if TrimSpace (sf_Filename f) = '''' then None
         else let (artist, album) = remote_ArtistAlbum (display_path (sf_Filename f)) in
           Some \<lparr>ts_Track = remote_track (se_text env) (sr_Username response) f format artist album,
             ts_Ref = \<lparr>ref_Provider = SoulseekName, ref_Key = encodeRef env (file_ref (sr_Username response) f)\<rparr>,
             ts_DisplayPath = display_path (sf_Filename f),
             ts_Availability = \<lparr>av_Peer = sr_Username response, av_UploadSpeed = sr_UploadSpeed response,
               av_QueueLength = sr_QueueLength response, av_FreeUploadSlot = sr_HasFreeUploadSlot response,
               av_RequiresApproval = snd candidate\<rparr>,
             ts_DiscoveredAt = now\<rparr>)"

definition response_files :: "slskdSearchResponse \<Rightarrow> (slskdFile \<times> bool) list" where
  "response_files response = map (\<lambda>f. (f, False)) (sr_Files response) @ map (\<lambda>f. (f, True)) (sr_LockedFiles response)"

text \<open>The inner loop returns as soon as there are enough results.\<close>

fun map_results ::
  "soulseek_env \<Rightarrow> time \<Rightarrow> int \<Rightarrow> (slskdSearchResponse \<times> slskdFile \<times> bool) list \<Rightarrow> TrackSource list \<Rightarrow> TrackSource list" where
  "map_results env now limit [] results = results"
| "map_results env now limit ((response, candidate) # rest) results =
    (case search_result env now response candidate of
       None \<Rightarrow> map_results env now limit rest results
     | Some r \<Rightarrow>
         if int (length (results @ [r])) \<ge> limit then results @ [r]
         else map_results env now limit rest (results @ [r]))"

definition mapSearchResults :: "soulseek_env \<Rightarrow> time \<Rightarrow> slskdSearchResponse list \<Rightarrow> int \<Rightarrow> TrackSource list" where
  "mapSearchResults env now responses limit =
    map_results env now limit (concat (map (\<lambda>r. map (Pair r) (response_files r)) responses)) []"

definition searchFallbackTerm :: "unicode_tables \<Rightarrow> string \<Rightarrow> string" where
  "searchFallbackTerm uc query =
    (case Fields (ToLower uc query) of
       [] \<Rightarrow> '''' | [_] \<Rightarrow> ''''
     | t # ts \<Rightarrow> foldl (\<lambda>longest term. if length (runes_of term) > length (runes_of longest) then term else longest) t ts)"

definition matches_terms :: "unicode_tables \<Rightarrow> string \<Rightarrow> TrackSource \<Rightarrow> bool" where
  "matches_terms uc query r =
    (let haystack = ToLower uc (strings_Join [track_Artist (ts_Track r), track_Album (ts_Track r), track_Title (ts_Track r),
       ts_DisplayPath r] '' '')
     in list_all (Contains haystack) (Fields (ToLower uc query)))"

definition filterSearchResults :: "unicode_tables \<Rightarrow> TrackSource list \<Rightarrow> string \<Rightarrow> int \<Rightarrow> TrackSource list" where
  "filterSearchResults uc results query limit = take (nat limit) (filter (matches_terms uc query) results)"

definition searchStartRetryAttempts :: nat where "searchStartRetryAttempts = 3"
definition searchMaxLimit :: int where "searchMaxLimit = 200"

text \<open>The service during one search: what it answers to the attempts to start it, whether the context ends
  while waiting after an attempt, and the answers to the polls, each with what woke the loop after it. The
  deadline has passed when there are no more.\<close>

datatype wake = Tick | Deadline | ContextDone

record search_script =
  sx_start :: "nat \<Rightarrow> slskdSearch http_response"
  sx_ended :: "nat \<Rightarrow> bool"
  sx_polls :: "(slskdSearch http_response \<times> wake) list"
  sx_now :: time

fun start_attempts :: "unicode_tables \<Rightarrow> nat \<Rightarrow> search_script \<Rightarrow> nat \<Rightarrow> slskd_error + slskdSearch" where
  "start_attempts uc 0 sx k = Inl (SlskdUnavailable '''')"
| "start_attempts uc (Suc n) sx k =
    (case doJSON (sx_start sx k) of
       Inr search \<Rightarrow> Inr search
     | Inl err \<Rightarrow>
         if \<not> temporarySlskdError uc err \<or> n = 0 then Inl err
         else if sx_ended sx k then Inl (SlskdBody ''context'' Canceled)
         else start_attempts uc n sx (Suc k))"

definition startSearch :: "unicode_tables \<Rightarrow> search_script \<Rightarrow> slskd_error + slskdSearch" where
  "startSearch uc sx = start_attempts uc searchStartRetryAttempts sx 0"

fun poll_search :: "(slskdSearch \<Rightarrow> 'r) \<Rightarrow> slskdSearch \<Rightarrow> (slskdSearch http_response \<times> wake) list \<Rightarrow> slskd_error + 'r" where
  "poll_search finish search [] = Inr (finish search)"
| "poll_search finish search ((answer, wake) # polls) =
    (if ss_IsComplete search then Inr (finish search)
     else case doJSON answer of
       Inl err \<Rightarrow> Inl err
     | Inr search' \<Rightarrow>
         if ss_IsComplete search' then Inr (finish search')
         else case wake of
           ContextDone \<Rightarrow> Inl (SlskdBody ''context'' Canceled)
         | Deadline \<Rightarrow> Inr (finish search')
         | Tick \<Rightarrow> poll_search finish search' polls)"

definition searchOnce :: "soulseek_env \<Rightarrow> search_script \<Rightarrow> int \<Rightarrow> slskd_error + TrackSource list" where
  "searchOnce env sx limit =
    (case startSearch (unicode (se_text env)) sx of
       Inl err \<Rightarrow> Inl err
     | Inr search \<Rightarrow>
         if ss_ID search = '''' then Inl (SlskdBody ''start slskd search: response did not include an id'' NoCause)
         else poll_search (\<lambda>s. mapSearchResults env (sx_now sx) (ss_Responses s) limit) search (sx_polls sx))"

definition query_limit :: "int \<Rightarrow> int" where
  "query_limit limit = (let l = (if limit \<le> 0 then 50 else limit) in if l > searchMaxLimit then searchMaxLimit else l)"

text \<open>\<open>service text limit\<close> is how the service behaves during a search for this text.\<close>

definition soulseek_Search ::
  "soulseek_env \<Rightarrow> (string \<Rightarrow> int \<Rightarrow> search_script) \<Rightarrow> SearchQuery \<Rightarrow> slskd_error + TrackSource list" where
  "soulseek_Search env service query =
    (let uc = unicode (se_text env); words = TrimSpace (sq_Text query); limit = query_limit (sq_Limit query) in
     if length (runes_of words) < 3 \<or> length (runes_of words) > 200
     then Inl (SlskdBody ''search query must contain between 3 and 200 characters'' NoCause)
     else case searchOnce env (service words limit) limit of
       Inl err \<Rightarrow> Inl err
     | Inr results \<Rightarrow>
         if results \<noteq> [] then Inr results
         else let fallback = searchFallbackTerm uc words in
           if fallback = '''' then Inr results
           else let fallbackLimit = min (max (limit * 4) 50) searchMaxLimit in
             case searchOnce env (service fallback fallbackLimit) fallbackLimit of
               Inl err \<Rightarrow> Inl err
             | Inr fallbackResults \<Rightarrow> Inr (filterSearchResults uc fallbackResults words limit))"

section \<open>Browsing\<close>

definition remoteDirectory :: "string \<Rightarrow> string" where
  "remoteDirectory path =
    (let t = TrimSpace path; tail = takeWhile (\<lambda>c. \<not> separator_char c) (rev t); index = length t - length tail - 1
     in if length tail = length t \<or> index = 0 then '''' else take index path)"

definition Trim_slashes :: "string \<Rightarrow> string" where
  "Trim_slashes s = rev (dropWhile (\<lambda>c. c = slash) (rev (dropWhile (\<lambda>c. c = slash) s)))"

definition normalize_directory :: "string \<Rightarrow> string" where
  "normalize_directory value = Trim_slashes (display_path (TrimSpace value))"

definition filesForDirectory :: "slskdDirectory list \<Rightarrow> string \<Rightarrow> slskdFile list" where
  "filesForDirectory dirs requested =
    (case List.find (\<lambda>d. normalize_directory (sd_Name d) = normalize_directory requested) dirs of
       Some d \<Rightarrow> sd_Files d
     | None \<Rightarrow> (case dirs of [d] \<Rightarrow> sd_Files d | _ \<Rightarrow> []))"

definition provisionalTrackNumber :: "string \<Rightarrow> int" where
  "provisionalTrackNumber title =
    (let digits = takeWhile is_digit (take 3 (TrimSpace title))
     in if digits = '''' then 0 else case Atoi digits of Some n \<Rightarrow> n | None \<Rightarrow> 0)"

definition artworkExtensions :: "string list" where
  "artworkExtensions = [''gif'', ''jpeg'', ''jpg'', ''png'']"

definition maxRemoteArtworkSize :: int where "maxRemoteArtworkSize = 32 * 2 ^ 20"
definition remoteArtworkPrefix :: string where "remoteArtworkPrefix = ''soulseek_art_''"

definition is_remote_artwork :: "unicode_tables \<Rightarrow> slskdFile \<Rightarrow> bool" where
  "is_remote_artwork uc f \<longleftrightarrow> fileExtension uc f \<in> set artworkExtensions \<and> 0 < sf_Size f \<and> sf_Size f \<le> maxRemoteArtworkSize"

definition artwork_rank :: "unicode_tables \<Rightarrow> slskdFile \<Rightarrow> nat" where
  "artwork_rank uc f =
    (let base = ToLower uc (TrimSuffix (path_Base (display_path (sf_Filename f))) (filepath_Ext (sf_Filename f)))
     in if base = ''cover'' then 0 else if base = ''folder'' then 1 else if base = ''front'' then 2
        else if base = ''album'' then 3 else 10)"

definition remoteCoverID :: "soulseek_env \<Rightarrow> string \<Rightarrow> slskdFile list \<Rightarrow> string" where
  "remoteCoverID env peer files =
    (let uc = unicode (se_text env);
         best = foldl (\<lambda>best f. if \<not> is_remote_artwork uc f then best
           else case best of None \<Rightarrow> Some f | Some b \<Rightarrow> if artwork_rank uc f < artwork_rank uc b then Some f else Some b) None files
     in case best of None \<Rightarrow> '''' | Some f \<Rightarrow> remoteArtworkPrefix @ encodeRef env (file_ref peer f))"

definition collection_track ::
  "soulseek_env \<Rightarrow> time \<Rightarrow> TrackSource \<Rightarrow> string \<Rightarrow> string \<Rightarrow> string \<Rightarrow> string \<Rightarrow> slskdFile \<Rightarrow> TrackSource option" where
  "collection_track env now anchor peer artist album coverID f =
    (let uc = unicode (se_text env) in
     case ByExtension uc (fileExtension uc f) of
       None \<Rightarrow> None
     | Some format \<Rightarrow>
         if TrimSpace (sf_Filename f) = '''' \<or> sf_Size f \<le> 0 then None
         else let track0 = (remote_track (se_text env) peer f format artist album)\<lparr>track_CoverArtID := coverID\<rparr>;
                  track = track0\<lparr>track_TrackNumber := provisionalTrackNumber (track_Title track0)\<rparr>
              in Some \<lparr>ts_Track = track\<lparr>track_ID := CanonicalTrackID (se_text env) track\<rparr>,
                   ts_Ref = \<lparr>ref_Provider = SoulseekName, ref_Key = encodeRef env (file_ref peer f)\<rparr>,
                   ts_DisplayPath = display_path (sf_Filename f), ts_Availability = ts_Availability anchor,
                   ts_DiscoveredAt = now\<rparr>)"

definition collection_lt :: "unicode_tables \<Rightarrow> TrackSource \<Rightarrow> TrackSource \<Rightarrow> bool" where
  "collection_lt uc a b =
    (let l = track_TrackNumber (ts_Track a); r = track_TrackNumber (ts_Track b) in
     if l > 0 \<and> r > 0 \<and> l \<noteq> r then l < r
     else ToLower uc (ts_DisplayPath a) < ToLower uc (ts_DisplayPath b))"

definition collection_of :: "soulseek_env \<Rightarrow> time \<Rightarrow> TrackSource \<Rightarrow> remoteFileRef \<Rightarrow> slskdFile list \<Rightarrow> SourceCollection" where
  "collection_of env now anchor remote files =
    (let (artist, album) = remote_ArtistAlbum (rf_Path remote);
         coverID = remoteCoverID env (rf_Peer remote) files;
         tracks = List.map_filter (collection_track env now anchor (rf_Peer remote) artist album coverID) files
     in \<lparr>sc_Name = album, sc_Artist = artist, sc_CoverArtID = coverID,
          sc_Tracks = SliceStable (collection_lt (unicode (se_text env))) tracks\<rparr>)"

text \<open>\<open>browse peer directory\<close> is what \<open>doPeerJSON\<close> makes of the service's answers.\<close>

definition BrowseCollection ::
  "soulseek_env \<Rightarrow> (string \<Rightarrow> string \<Rightarrow> slskd_error + slskdDirectory list) \<Rightarrow> time \<Rightarrow> TrackSource \<Rightarrow> SourceCollection result" where
  "BrowseCollection env browse now anchor =
    (if ref_Provider (ts_Ref anchor) \<noteq> SoulseekName then Inl (Errorf ''unexpected provider'')
     else if av_RequiresApproval (ts_Availability anchor)
     then Inl (Wrap ''remote directory requires peer approval'' ErrSourceUnavailable)
     else case decodeRemoteFileRef env (ref_Key (ts_Ref anchor)) of
       Inl err \<Rightarrow> Inl err
     | Inr remote \<Rightarrow>
         let directory = remoteDirectory (rf_Path remote) in
         if directory = '''' then Inl (Errorf ''Soulseek result does not belong to a directory'')
         else case browse (rf_Peer remote) directory of
           Inl _ \<Rightarrow> Inl (Errorf ''browse Soulseek directory'')
         | Inr dirs \<Rightarrow>
             let files = filesForDirectory dirs directory in
             if files = [] then Inl (Errorf ''Soulseek directory is empty or no longer available'')
             else Inr (collection_of env now anchor remote files))"

section \<open>Every result is a file that was offered\<close>

definition answered :: "search_script \<Rightarrow> slskdSearch \<Rightarrow> bool" where
  "answered sx s \<longleftrightarrow> (\<exists>k. doJSON (sx_start sx k) = Inr s) \<or> (\<exists>p \<in> set (sx_polls sx). doJSON (fst p) = Inr s)"

definition offered :: "search_script \<Rightarrow> string \<Rightarrow> slskdFile \<Rightarrow> bool \<Rightarrow> bool" where
  "offered sx peer f locked \<longleftrightarrow> (\<exists>s response. answered sx s \<and> response \<in> set (ss_Responses s)
     \<and> peer = sr_Username response \<and> (f, locked) \<in> set (response_files response))"

definition result_of :: "soulseek_env \<Rightarrow> string \<Rightarrow> slskdFile \<Rightarrow> bool \<Rightarrow> TrackSource \<Rightarrow> bool" where
  "result_of env peer f locked r \<longleftrightarrow> ts_Ref r = \<lparr>ref_Provider = SoulseekName, ref_Key = encodeRef env (file_ref peer f)\<rparr>
     \<and> av_Peer (ts_Availability r) = peer \<and> av_RequiresApproval (ts_Availability r) = locked
     \<and> track_Size (ts_Track r) = sf_Size f
     \<and> (\<exists>format. ByExtension (unicode (se_text env)) (fileExtension (unicode (se_text env)) f) = Some format
          \<and> track_Suffix (ts_Track r) = fmt_Suffix format \<and> track_ContentType (ts_Track r) = fmt_ContentType format)"

lemma search_result_of:
  "search_result env now response (f, locked) = Some r \<Longrightarrow> result_of env (sr_Username response) f locked r"
  by (auto simp: search_result_def result_of_def remote_track_def Let_def split: option.splits if_splits prod.splits)

lemma map_results_length:
  "int (length results) < limit \<Longrightarrow> int (length (map_results env now limit cs results)) \<le> limit"
  by (induction env now limit cs results rule: map_results.induct) (auto split: option.splits)

lemma map_results_from:
  "r \<in> set (map_results env now limit cs results) \<Longrightarrow>
   r \<in> set results \<or> (\<exists>c \<in> set cs. search_result env now (fst c) (snd c) = Some r)"
  by (induction env now limit cs results rule: map_results.induct) (auto split: option.splits if_splits)

lemma mapSearchResults_offered:
  assumes "r \<in> set (mapSearchResults env now (ss_Responses s) limit)" "answered sx s"
  shows "\<exists>peer f locked. offered sx peer f locked \<and> result_of env peer f locked r"
proof -
  obtain response c where "response \<in> set (ss_Responses s)" "c \<in> set (response_files response)"
    "search_result env now response c = Some r"
    using map_results_from [OF assms(1) [unfolded mapSearchResults_def]] by auto
  then show ?thesis using search_result_of [of env now response "fst c" "snd c" r] assms(2)
    unfolding offered_def by (metis prod.collapse)
qed

lemma start_answered: "start_attempts uc n sx k = Inr s \<Longrightarrow> answered sx s"
  by (induction uc n sx k rule: start_attempts.induct) (auto simp: answered_def split: sum.splits if_splits)

lemma poll_answered:
  assumes "poll_search fin s polls = Inr r" "answered sx s" "set polls \<subseteq> set (sx_polls sx)"
  shows "\<exists>s'. r = fin s' \<and> answered sx s'"
  using assms
proof (induction fin s polls rule: poll_search.induct)
  case (2 fin search answer wake polls)
  have "answered sx s'" if "doJSON answer = Inr s'" for s'
    using that 2(4) unfolding answered_def by force
  with 2 show ?case by (auto split: if_splits sum.splits wake.splits)
qed auto

lemma searchOnce_results:
  assumes "searchOnce env sx limit = Inr results"
  shows "limit > 0 \<Longrightarrow> int (length results) \<le> limit"
    and "r \<in> set results \<Longrightarrow> \<exists>peer f locked. offered sx peer f locked \<and> result_of env peer f locked r"
proof -
  from assms obtain search where "startSearch (unicode (se_text env)) sx = Inr search"
    and poll: "poll_search (\<lambda>s. mapSearchResults env (sx_now sx) (ss_Responses s) limit) search (sx_polls sx) = Inr results"
    by (auto simp: searchOnce_def split: sum.splits if_splits)
  then obtain s where s: "results = mapSearchResults env (sx_now sx) (ss_Responses s) limit" "answered sx s"
    using poll_answered [OF poll] start_answered unfolding startSearch_def by blast
  show "limit > 0 \<Longrightarrow> int (length results) \<le> limit"
    using map_results_length [of "[]"] unfolding s(1) mapSearchResults_def by simp
  show "r \<in> set results \<Longrightarrow> \<exists>peer f locked. offered sx peer f locked \<and> result_of env peer f locked r"
    using mapSearchResults_offered [OF _ s(2)] unfolding s(1) by blast
qed

lemma query_limit_bounds: "0 < query_limit limit \<and> query_limit limit \<le> 200"
  by (simp add: query_limit_def searchMaxLimit_def Let_def)

text \<open>The key of a result leads back to its file, if the codec keeps the reference and the service's names
  have no spaces around them.\<close>

lemma decode_encode:
  assumes "se_Unmarshal env (se_Marshal env (file_ref peer f)) = Inr (file_ref peer f)"
    "TrimSpace peer = peer" "peer \<noteq> ''''" "TrimSpace (sf_Filename f) = sf_Filename f" "sf_Filename f \<noteq> ''''" "sf_Size f > 0"
  shows "decodeRemoteFileRef env (encodeRef env (file_ref peer f)) = Inr (file_ref peer f)"
  using assms by (simp add: decodeRemoteFileRef_def encodeRef_def file_ref_def)

lemma Search_cases:
  assumes "soulseek_Search env service query = Inr results"
  obtains (direct) "searchOnce env (service (TrimSpace (sq_Text query)) (query_limit (sq_Limit query))) (query_limit (sq_Limit query)) = Inr results"
      "results \<noteq> []"
    | (none) "results = []"
    | (fallback) words limit rs where "searchOnce env (service words limit) limit = Inr rs"
        "results = filterSearchResults (unicode (se_text env)) rs (TrimSpace (sq_Text query)) (query_limit (sq_Limit query))"
  using assms unfolding soulseek_Search_def Let_def using direct none fallback by (simp split: if_splits sum.splits)

lemma filterSearchResults_in:
  "r \<in> set (filterSearchResults uc rs words limit) \<Longrightarrow> r \<in> set rs \<and> matches_terms uc words r"
  unfolding filterSearchResults_def by (auto dest!: in_set_takeD)


definition demo_file :: slskdFile where
  "demo_file = \<lparr>sf_Filename = ''music'' @ [backslash] @ ''song.mp3'', sf_Extension = ''mp3'', sf_Size = 9, sf_Length = Some 3, sf_BitRate = None\<rparr>"

definition demo_answer :: slskdSearch where
  "demo_answer = \<lparr>ss_ID = ''1'', ss_IsComplete = True, ss_Responses = [\<lparr>sr_Username = ''bob'', sr_Files = [demo_file],
     sr_LockedFiles = [], sr_HasFreeUploadSlot = True, sr_QueueLength = 0, sr_UploadSpeed = 5\<rparr>]\<rparr>"

definition demo_service :: "string \<Rightarrow> int \<Rightarrow> search_script" where
  "demo_service words limit = \<lparr>sx_start = (\<lambda>_. Response 200 '''' (Inr demo_answer)), sx_ended = (\<lambda>_. False), sx_polls = [], sx_now = 1\<rparr>"

definition demo_codec :: soulseek_env where
  "demo_codec = \<lparr>se_text = \<lparr>unicode = ascii_tables, sha256 = id, NFKC = id, CaseFold = id\<rparr>,
     se_Marshal = (\<lambda>_. ''{}''), se_Unmarshal = (\<lambda>_. Inr (file_ref ''bob'' demo_file)),
     se_MarshalJob = (\<lambda>_. ''''), se_UnmarshalJob = (\<lambda>_. Inl ErrEOF)\<rparr>"

lemma demo_searchOnce:
  "searchOnce demo_codec (demo_service words limit) limit = Inr (mapSearchResults demo_codec 1 (ss_Responses demo_answer) limit)"
  by (simp add: searchOnce_def startSearch_def searchStartRetryAttempts_def eval_nat_numeral demo_service_def doJSON_def
      demo_answer_def)

lemma demo_format:
  "fileExtension ascii_tables demo_file = ''mp3''" "ByExtension ascii_tables ''mp3'' = Some (fmt ''mp3'' ''audio/mpeg'')"
  "TrimSpace (sf_Filename demo_file) \<noteq> ''''"
  by (simp_all add: fileExtension_def demo_file_def go_eval TrimPrefix_def HasPrefix_def ByExtension_def supported_def)

lemma demo_mapped: "\<exists>r. mapSearchResults demo_codec 1 (ss_Responses demo_answer) limit = [r]"
proof -
  obtain artist album where aa: "remote_ArtistAlbum (display_path (sf_Filename demo_file)) = (artist, album)" by fastforce
  have "\<exists>r. search_result demo_codec 1 response (demo_file, False) = Some r" for response
    unfolding search_result_def Let_def by (simp add: demo_codec_def demo_format aa)
  then show ?thesis by (auto simp: mapSearchResults_def demo_answer_def response_files_def split: option.splits)
qed


section \<open>Collections\<close>

text \<open>Every track of a collection is a file of the peer's directory with a size, under its canonical identifier.\<close>

lemma BrowseCollection_Inr:
  assumes "BrowseCollection env browse now anchor = Inr c"
  obtains remote dirs where "decodeRemoteFileRef env (ref_Key (ts_Ref anchor)) = Inr remote"
    "browse (rf_Peer remote) (remoteDirectory (rf_Path remote)) = Inr dirs"
    "c = collection_of env now anchor remote (filesForDirectory dirs (remoteDirectory (rf_Path remote)))"
  using assms unfolding BrowseCollection_def Let_def using that by (simp split: if_splits sum.splits)

lemma collection_track_Some:
  assumes "collection_track env now anchor peer artist album coverID f = Some t"
  shows "sf_Size f > 0" "ts_Ref t = \<lparr>ref_Provider = SoulseekName, ref_Key = encodeRef env (file_ref peer f)\<rparr>"
    "track_Album (ts_Track t) = album" "track_Artist (ts_Track t) = artist" "track_CoverArtID (ts_Track t) = coverID"
  using assms unfolding collection_track_def Let_def remote_track_def by (auto split: option.splits if_splits)

lemma BrowseCollection_tracks:
  assumes "BrowseCollection env browse now anchor = Inr c" "t \<in> set (sc_Tracks c)"
  obtains remote dirs f where "decodeRemoteFileRef env (ref_Key (ts_Ref anchor)) = Inr remote"
    "browse (rf_Peer remote) (remoteDirectory (rf_Path remote)) = Inr dirs"
    "f \<in> set (filesForDirectory dirs (remoteDirectory (rf_Path remote)))" "sf_Size f > 0"
    "ts_Ref t = \<lparr>ref_Provider = SoulseekName, ref_Key = encodeRef env (file_ref (rf_Peer remote) f)\<rparr>"
    "track_Album (ts_Track t) = sc_Name c" "track_Artist (ts_Track t) = sc_Artist c" "track_CoverArtID (ts_Track t) = sc_CoverArtID c"
proof -
  obtain remote dirs where d: "decodeRemoteFileRef env (ref_Key (ts_Ref anchor)) = Inr remote"
    "browse (rf_Peer remote) (remoteDirectory (rf_Path remote)) = Inr dirs"
    "c = collection_of env now anchor remote (filesForDirectory dirs (remoteDirectory (rf_Path remote)))"
    using assms(1) by (rule BrowseCollection_Inr)
  define files where "files = filesForDirectory dirs (remoteDirectory (rf_Path remote))"
  obtain artist album where aa: "remote_ArtistAlbum (rf_Path remote) = (artist, album)" by fastforce
  have c: "sc_Name c = album" "sc_Artist c = artist" "sc_CoverArtID c = remoteCoverID env (rf_Peer remote) files"
    "set (sc_Tracks c) = set (List.map_filter (collection_track env now anchor (rf_Peer remote) artist album (sc_CoverArtID c)) files)"
    by (simp_all add: d(3) collection_of_def aa files_def Let_def)
  from assms(2) obtain f where f: "f \<in> set files"
    "collection_track env now anchor (rf_Peer remote) artist album (sc_CoverArtID c) f = Some t"
    unfolding c(4) by (auto simp: map_filter_def)
  show thesis
    using that [OF d(1,2) f(1) [unfolded files_def]] collection_track_Some [OF f(2)] by (simp add: c(1,2))
qed

text \<open>The comparison by which a collection is sorted is no order: a file without a number stands between
  two numbered files by path that stand the other way round by number.\<close>

definition numbered :: "int \<Rightarrow> string \<Rightarrow> TrackSource" where
  "numbered n path = \<lparr>ts_Track = zero_track\<lparr>track_TrackNumber := n\<rparr>, ts_Ref = \<lparr>ref_Provider = SoulseekName, ref_Key = ''''\<rparr>,
     ts_DisplayPath = path, ts_Availability = zero_availability, ts_DiscoveredAt = 0\<rparr>"

lemma collection_lt_cycle:
  "collection_lt ascii_tables (numbered 2 ''a'') (numbered 0 ''m'') \<and> collection_lt ascii_tables (numbered 0 ''m'') (numbered 1 ''z'')
   \<and> collection_lt ascii_tables (numbered 1 ''z'') (numbered 2 ''a'')"
  by (simp add: collection_lt_def numbered_def go_eval less_char_def)

end
