(* ===== verification/SoulseekDownloads.thy ===== *)
theory SoulseekDownloads
  imports SoulseekFiles
begin

text \<open>
  The downloads of the Soulseek provider, \<open>adapters/providers/soulseek/download.go\<close>, \<open>monitoring.go\<close> and
  \<open>persistence.go\<close>. Jobs are objects on a heap: \<open>jobs\<close> and \<open>records\<close> point to them, and the goroutines
  that work on a job hold a pointer of their own. The critical sections are functions on the
  coordinator; the goroutines are the steps of a transition system. What slskd answers and when the clock is
  read is arbitrary.
\<close>

section \<open>State\<close>

text \<open>\<open>jb_finished\<close> stands for the closed channel \<open>done\<close> too, \<open>jb_cancel\<close> tells whether a cancel function is set and
  \<open>jb_cancelled\<close> whether it was called.\<close>

record downloadJob =
  jb_key :: string
  jb_trackID :: string
  jb_remote :: remoteFileRef
  jb_batchID :: string
  jb_transferID :: string
  jb_finalPath :: string
  jb_incompletePath :: string
  jb_ready :: bool
  jb_download :: TrackDownload
  jb_err :: "go_error option"
  jb_finished :: bool
  jb_monitoring :: bool
  jb_cancel :: bool
  jb_cancelled :: bool
  jb_slotHeld :: bool
  jb_retryCount :: int

record downloadCoordinator =
  dc_downloadsDir :: string
  dc_incompleteDir :: string
  dc_stateDir :: string
  dc_heap :: "nat \<Rightarrow> downloadJob"
  dc_next :: nat
  dc_jobs :: "string \<rightharpoonup> nat"
  dc_records :: "string \<rightharpoonup> nat"
  dc_active :: "string \<Rightarrow> int"
  dc_limit :: int
  dc_slots :: int
  dc_world :: world

definition on_disk :: "(world, 'a) action \<Rightarrow> (downloadCoordinator, 'a) action" where
  "on_disk act s = (let (r, w) = act (dc_world s) in (r, s\<lparr>dc_world := w\<rparr>))"

definition change_job :: "nat \<Rightarrow> (downloadJob \<Rightarrow> downloadJob) \<Rightarrow> downloadCoordinator \<Rightarrow> downloadCoordinator" where
  "change_job n f s = s\<lparr>dc_heap := (dc_heap s)(n := f (dc_heap s n))\<rparr>"

definition with_td :: "(TrackDownload \<Rightarrow> TrackDownload) \<Rightarrow> downloadJob \<Rightarrow> downloadJob" where
  "with_td f j = j\<lparr>jb_download := f (jb_download j)\<rparr>"

definition job_id :: "soulseek_env \<Rightarrow> string \<Rightarrow> string" where
  "job_id env key = StableID (se_text env) ''download'' [SoulseekName, key]"

subsection \<open>downloadGate\<close>

definition gate_take :: "downloadCoordinator \<Rightarrow> downloadCoordinator" where
  "gate_take s = s\<lparr>dc_slots := dc_slots s + 1\<rparr>"

definition gate_release :: "downloadCoordinator \<Rightarrow> downloadCoordinator" where
  "gate_release s = (if dc_slots s > 0 then s\<lparr>dc_slots := dc_slots s - 1\<rparr> else s)"

subsection \<open>persistence.go\<close>

definition persisted :: "downloadJob \<Rightarrow> persistedDownloadJob" where
  "persisted j = \<lparr>pj_Download = jb_download j, pj_Key = jb_key j, pj_TrackID = jb_trackID j, pj_Remote = jb_remote j,
     pj_BatchID = jb_batchID j, pj_TransferID = jb_transferID j, pj_RetryCount = jb_retryCount j\<rparr>"

definition recordPath :: "downloadCoordinator \<Rightarrow> string \<Rightarrow> string" where
  "recordPath s i = filepath_Join [dc_stateDir s, TrimSpace i @ ''.json'']"

definition persistJob :: "soulseek_env \<Rightarrow> nat \<Rightarrow> (downloadCoordinator, unit) action" where
  "persistJob env n = with_state (\<lambda>s.
    let rec = persisted (dc_heap s n); path = recordPath s (td_ID (pj_Download rec)); tmp = path @ ''.tmp'' in
    bindE (wrapE ''write Soulseek download job'' (on_disk (os_WriteFile tmp (se_MarshalJob env rec)))) (\<lambda>_.
      wrapE ''commit Soulseek download job'' (on_disk (os_Rename tmp path))))"

definition readPersistedJob :: "soulseek_env \<Rightarrow> string \<Rightarrow> (world, persistedDownloadJob) action" where
  "readPersistedJob env path =
    bindE (wrapE ''read Soulseek download job'' (os_Open path)) (\<lambda>(contents, _).
    bindE (wrapE ''decode Soulseek download job'' (liftR (se_UnmarshalJob env contents))) (\<lambda>rec.
      if td_ID (pj_Download rec) \<noteq> job_id env (pj_Key rec) \<or> td_Provider (pj_Download rec) \<noteq> SoulseekName
         \<or> td_TrackID (pj_Download rec) \<noteq> pj_TrackID rec \<or> TrimSpace (pj_TrackID rec) = ''''
         \<or> rf_Peer (pj_Remote rec) = '''' \<or> rf_Path (pj_Remote rec) = '''' \<or> rf_Size (pj_Remote rec) \<le> 0
         \<or> TrimSpace (pj_Key rec) = ''''
      then fail (Errorf ''invalid Soulseek download job'')
      else case decodeRemoteFileRef env (pj_Key rec) of
        Inl _ \<Rightarrow> fail (Errorf ''invalid Soulseek source in job'')
      | Inr decoded \<Rightarrow> if decoded \<noteq> pj_Remote rec then fail (Errorf ''invalid Soulseek source in job'') else ret rec))"

definition restored :: "downloadCoordinator \<Rightarrow> persistedDownloadJob \<Rightarrow> downloadJob" where
  "restored s rec = \<lparr>jb_key = pj_Key rec, jb_trackID = pj_TrackID rec, jb_remote = pj_Remote rec,
     jb_batchID = pj_BatchID rec, jb_transferID = pj_TransferID rec,
     jb_finalPath = finalPath_of (dc_downloadsDir s) (pj_TrackID rec) (pj_Remote rec),
     jb_incompletePath = incompletePath_of (dc_incompleteDir s) (pj_Remote rec),
     jb_ready = False, jb_download = pj_Download rec, jb_err = None, jb_finished = False, jb_monitoring = False,
     jb_cancel = False, jb_cancelled = False, jb_slotHeld = False, jb_retryCount = pj_RetryCount rec\<rparr>"

definition settled :: "(TrackDownload \<Rightarrow> TrackDownload) \<Rightarrow> downloadJob \<Rightarrow> downloadJob" where
  "settled f j = (with_td f j)\<lparr>jb_finished := True, jb_ready := True\<rparr>"

definition restoreJob :: "persistedDownloadJob \<Rightarrow> (downloadCoordinator, downloadJob) action" where
  "restoreJob rec = with_state (\<lambda>s.
    let job = restored s rec; state = td_State (pj_Download rec) in
    tryE (on_disk (os_Stat (jb_finalPath job))) (\<lambda>r. case r of
      Inr info \<Rightarrow>
        if (case info of Some (contents, _) \<Rightarrow> int (length contents) \<noteq> rf_Size (pj_Remote rec) | None \<Rightarrow> True)
        then ret (settled (\<lambda>d. d\<lparr>td_State := DownloadStateEvicted, td_CompletedBytes := 0, td_Error := None\<rparr>) job)
        else ret (settled (\<lambda>d. d\<lparr>td_State := DownloadStateCached, td_CompletedBytes := rf_Size (pj_Remote rec), td_Error := None\<rparr>) job)
    | Inl err \<Rightarrow>
        if err \<noteq> os_ErrNotExist then fail (Wrap ''inspect cached file'' err)
        else if state = DownloadStateWaiting \<and> pj_BatchID rec = '''' then ret job
        else if state = DownloadStateQueued \<or> state = DownloadStateDownloading then
          (if pj_BatchID rec = '''' \<or> pj_TransferID rec = ''''
           then ret (settled (\<lambda>d. d\<lparr>td_State := DownloadStateFailed,
                  td_Error := Some (Errorf ''active Soulseek job is missing slskd transfer identifiers'')\<rparr>) job)
           else ret (job\<lparr>jb_ready := True\<rparr>))
        else ret (settled (\<lambda>d. if state = DownloadStateCached then d\<lparr>td_State := DownloadStateEvicted, td_CompletedBytes := 0\<rparr> else d) job)))"

definition add_job :: "soulseek_env \<Rightarrow> downloadJob \<Rightarrow> downloadCoordinator \<Rightarrow> downloadCoordinator" where
  "add_job env job s = s\<lparr>dc_heap := (dc_heap s)(dc_next s := job), dc_next := dc_next s + 1,
     dc_records := (dc_records s)(td_ID (jb_download job) \<mapsto> dc_next s),
     dc_jobs := (if jb_finished job then dc_jobs s else (dc_jobs s)(jb_key job \<mapsto> dc_next s))\<rparr>"

fun load_loop :: "soulseek_env \<Rightarrow> (string \<times> bool) list \<Rightarrow> (downloadCoordinator, go_error list) action" where
  "load_loop env [] = ret []"
| "load_loop env ((name, isDir) # entries) =
    (if isDir \<or> filepath_Ext name \<noteq> ''.json'' then load_loop env entries
     else with_state (\<lambda>s.
       tryE (on_disk (readPersistedJob env (filepath_Join [dc_stateDir s, name]))) (\<lambda>r. case r of
         Inl err \<Rightarrow> bindE (load_loop env entries) (\<lambda>errs. ret (err # errs))
       | Inr rec \<Rightarrow> tryE (restoreJob rec) (\<lambda>r. case r of
           Inl err \<Rightarrow> bindE (load_loop env entries) (\<lambda>errs. ret (Wrap ''restore Soulseek download job'' err # errs))
         | Inr job \<Rightarrow> bindE (modify (add_job env job)) (\<lambda>_. with_state (\<lambda>s'.
             tryE (persistJob env (dc_next s' - 1)) (\<lambda>r. case r of
               Inl err \<Rightarrow> bindE (load_loop env entries) (\<lambda>errs. ret (err # errs))
             | Inr _ \<Rightarrow> load_loop env entries)))))))"

definition loadRecords :: "soulseek_env \<Rightarrow> (downloadCoordinator, go_error list) action" where
  "loadRecords env = with_state (\<lambda>s. tryE (on_disk (os_ReadDir (dc_stateDir s))) (\<lambda>r. case r of
     Inl err \<Rightarrow> ret [Wrap ''read Soulseek download jobs'' err]
   | Inr entries \<Rightarrow> load_loop env entries))"

definition zero_job :: downloadJob where
  "zero_job = \<lparr>jb_key = '''', jb_trackID = '''', jb_remote = \<lparr>rf_Peer = '''', rf_Path = '''', rf_Size = 0\<rparr>, jb_batchID = '''',
     jb_transferID = '''', jb_finalPath = '''', jb_incompletePath = '''', jb_ready = False,
     jb_download = \<lparr>td_ID = '''', td_Provider = '''', td_SourceID = '''', td_TrackID = '''', td_Name = '''',
       td_State = DownloadStateWaiting, td_CompletedBytes = 0, td_TotalBytes = 0, td_Error = None, td_StartedAt = 0, td_UpdatedAt = 0\<rparr>,
     jb_err = None, jb_finished = False, jb_monitoring = False, jb_cancel = False, jb_cancelled = False, jb_slotHeld = False,
     jb_retryCount = 0\<rparr>"

text \<open>\<open>newDownloadCoordinator\<close> after the directories were created.\<close>

definition empty_coordinator :: "string \<Rightarrow> string \<Rightarrow> int \<Rightarrow> world \<Rightarrow> downloadCoordinator" where
  "empty_coordinator downloadsDir incompleteDir maxActive w =
    \<lparr>dc_downloadsDir = downloadsDir, dc_incompleteDir = incompleteDir, dc_stateDir = filepath_Join [path_Dir downloadsDir, ''jobs''],
     dc_heap = (\<lambda>_. zero_job), dc_next = 0, dc_jobs = Map.empty, dc_records = Map.empty, dc_active = (\<lambda>_. 0),
     dc_limit = maxActive, dc_slots = 0, dc_world = w\<rparr>"

definition newDownloadCoordinator :: "soulseek_env \<Rightarrow> string \<Rightarrow> string \<Rightarrow> int \<Rightarrow> world \<Rightarrow> downloadCoordinator" where
  "newDownloadCoordinator env downloadsDir incompleteDir maxActive w =
    snd (loadRecords env (empty_coordinator downloadsDir incompleteDir maxActive w))"

section \<open>Critical sections\<close>

text \<open>\<open>ensureDownload\<close> for a key without a job.\<close>

definition new_job :: "soulseek_env \<Rightarrow> downloadCoordinator \<Rightarrow> time \<Rightarrow> string \<Rightarrow> string \<Rightarrow> string \<Rightarrow> remoteFileRef \<Rightarrow> downloadJob" where
  "new_job env s now key trackID name remote = zero_job\<lparr>jb_key := key, jb_trackID := trackID, jb_remote := remote,
     jb_finalPath := filepath_Join [dc_downloadsDir s, trackID, name],
     jb_incompletePath := filepath_Join [dc_incompleteDir s, sanitizedPathSegment (rf_Peer remote),
       sanitizedRemoteDirectory (rf_Path remote), name],
     jb_download := \<lparr>td_ID = job_id env key, td_Provider = SoulseekName, td_SourceID = rf_Peer remote, td_TrackID = trackID,
       td_Name = name, td_State = DownloadStateWaiting, td_CompletedBytes = 0, td_TotalBytes = rf_Size remote, td_Error = None,
       td_StartedAt = now, td_UpdatedAt = now\<rparr>\<rparr>"

text \<open>The head of \<open>startEnqueue\<close>, and what its goroutine does with a slot.\<close>

definition begin_enqueue :: "nat \<Rightarrow> downloadCoordinator \<Rightarrow> downloadCoordinator" where
  "begin_enqueue n = change_job n (\<lambda>j. j\<lparr>jb_cancel := True\<rparr>)"

definition hold_slot :: "time \<Rightarrow> nat \<Rightarrow> downloadCoordinator \<Rightarrow> downloadCoordinator" where
  "hold_slot now n = change_job n (\<lambda>j. (with_td (\<lambda>d. d\<lparr>td_State := DownloadStateQueued, td_UpdatedAt := now\<rparr>) j)\<lparr>jb_slotHeld := True\<rparr>)"

text \<open>\<open>enqueueWithRetry\<close> before and after it waits.\<close>

definition retry_later :: "time \<Rightarrow> nat \<Rightarrow> downloadCoordinator \<Rightarrow> downloadCoordinator" where
  "retry_later now n = change_job n (with_td (\<lambda>d. d\<lparr>td_State := DownloadStateWaiting,
     td_Error := Some (Errorf ''temporary source error''), td_UpdatedAt := now\<rparr>))"

definition requeue :: "time \<Rightarrow> nat \<Rightarrow> downloadCoordinator \<Rightarrow> downloadCoordinator" where
  "requeue now n = change_job n (with_td (\<lambda>d. d\<lparr>td_State := DownloadStateQueued, td_Error := None, td_UpdatedAt := now\<rparr>))"

record slskdDownloadBatchResponse =
  br_BatchID :: string
  br_Transfers :: "slskdDownloadTransfer list"
  br_Failures :: "string list"

text \<open>\<open>enqueue\<close>: what it makes of the answer, and what it stores.\<close>

definition enqueue_reply :: "slskd_error + slskdDownloadBatchResponse \<Rightarrow> slskd_error + string \<times> string" where
  "enqueue_reply reply =
    (case reply of
       Inl err \<Rightarrow> Inl err
     | Inr response \<Rightarrow>
         if br_BatchID response = '''' \<or> br_Transfers response = [] then
           Inl (SlskdBody (case br_Failures response of
             m # _ \<Rightarrow> if TrimSpace m \<noteq> '''' then m else ''slskd did not enqueue the file''
           | [] \<Rightarrow> ''slskd did not enqueue the file'') NoCause)
         else Inr (br_BatchID response, sdt_ID (hd (br_Transfers response))))"

definition enqueued :: "time \<Rightarrow> string \<times> string \<Rightarrow> nat \<Rightarrow> downloadCoordinator \<Rightarrow> downloadCoordinator" where
  "enqueued now ids n = change_job n (\<lambda>j. (with_td (\<lambda>d. d\<lparr>td_State := DownloadStateQueued, td_Error := None, td_UpdatedAt := now\<rparr>) j)
     \<lparr>jb_batchID := fst ids, jb_transferID := snd ids\<rparr>)"

definition beginMonitoring :: "nat \<Rightarrow> downloadCoordinator \<Rightarrow> bool \<times> downloadCoordinator" where
  "beginMonitoring n s = (if jb_finished (dc_heap s n) \<or> jb_monitoring (dc_heap s n) then (False, s)
     else (True, change_job n (\<lambda>j. j\<lparr>jb_monitoring := True\<rparr>) s))"

definition endMonitoring :: "nat \<Rightarrow> downloadCoordinator \<Rightarrow> downloadCoordinator" where
  "endMonitoring n = change_job n (\<lambda>j. j\<lparr>jb_monitoring := False\<rparr>)"

definition markEnqueued :: "nat \<Rightarrow> downloadCoordinator \<Rightarrow> downloadCoordinator" where
  "markEnqueued n = change_job n (\<lambda>j. j\<lparr>jb_ready := True\<rparr>)"

text \<open>\<open>updateTransfer\<close>: the job and whether it changed.\<close>

definition transferred :: "unicode_tables \<Rightarrow> slskdDownloadTransfer \<Rightarrow> downloadJob \<Rightarrow> downloadJob" where
  "transferred uc transfer j =
    (let state = (if stateContains uc (sdt_State transfer) ''InProgress'' then DownloadStateDownloading
                  else if stateContains uc (sdt_State transfer) ''Queued'' \<or> stateContains uc (sdt_State transfer) ''Requested''
                    \<or> stateContains uc (sdt_State transfer) ''Initializing'' then DownloadStateQueued
                  else td_State (jb_download j))
     in (with_td (\<lambda>d. d\<lparr>td_CompletedBytes := min (sdt_BytesTransferred transfer) (td_TotalBytes d), td_State := state\<rparr>) j)
          \<lparr>jb_transferID := (if sdt_ID transfer \<noteq> '''' then sdt_ID transfer else jb_transferID j)\<rparr>)"

definition updateTransfer :: "unicode_tables \<Rightarrow> time \<Rightarrow> slskdDownloadTransfer \<Rightarrow> nat \<Rightarrow> downloadCoordinator \<Rightarrow> bool \<times> downloadCoordinator" where
  "updateTransfer uc now transfer n s =
    (let j = dc_heap s n; j' = transferred uc transfer j;
         changed = (jb_transferID j \<noteq> jb_transferID j' \<or> td_CompletedBytes (jb_download j) \<noteq> td_CompletedBytes (jb_download j')
           \<or> td_State (jb_download j) \<noteq> td_State (jb_download j'))
     in if jb_finished j then (False, s)
        else (changed, change_job n (\<lambda>_. if changed then with_td (\<lambda>d. d\<lparr>td_UpdatedAt := now\<rparr>) j' else j') s))"

definition prepareAutomaticRetry :: "int \<Rightarrow> time \<Rightarrow> nat \<Rightarrow> downloadCoordinator \<Rightarrow> bool \<times> downloadCoordinator" where
  "prepareAutomaticRetry limit now n s =
    (if jb_finished (dc_heap s n) \<or> jb_retryCount (dc_heap s n) \<ge> limit - 1 then (False, s)
     else (True, change_job n (\<lambda>j. (with_td (\<lambda>d. d\<lparr>td_State := DownloadStateWaiting,
             td_Error := Some (Errorf ''temporary transfer failure; retrying''), td_UpdatedAt := now\<rparr>) j)
           \<lparr>jb_retryCount := jb_retryCount j + 1, jb_batchID := '''', jb_transferID := ''''\<rparr>) s))"

text \<open>\<open>finishJob\<close>: the section under the lock of the job, whose result is whether the slot is to be released,
  and the rest.\<close>

definition finish_mark :: "DownloadState \<Rightarrow> go_error option \<Rightarrow> time \<Rightarrow> nat \<Rightarrow> downloadCoordinator \<Rightarrow> bool \<times> downloadCoordinator" where
  "finish_mark state err now n s =
    (jb_slotHeld (dc_heap s n), change_job n (\<lambda>j. (with_td (\<lambda>d. d\<lparr>td_State := state, td_UpdatedAt := now,
        td_CompletedBytes := (if state = DownloadStateCached then td_TotalBytes d else td_CompletedBytes d),
        td_Error := (if state = DownloadStateCached then None else if err \<noteq> None then err else td_Error d)\<rparr>) j)
      \<lparr>jb_finished := True, jb_err := err, jb_cancelled := jb_cancelled j \<or> jb_cancel j, jb_cancel := False, jb_slotHeld := False\<rparr>) s)"

definition finish_release :: "bool \<Rightarrow> nat \<Rightarrow> downloadCoordinator \<Rightarrow> downloadCoordinator" where
  "finish_release releaseSlot n s = markEnqueued n (if releaseSlot then gate_release s else s)"

definition removeJob :: "nat \<Rightarrow> downloadCoordinator \<Rightarrow> downloadCoordinator" where
  "removeJob n s = (if dc_jobs s (jb_key (dc_heap s n)) = Some n
     then s\<lparr>dc_jobs := (dc_jobs s)(jb_key (dc_heap s n) := None)\<rparr> else s)"

definition finish_remove :: "soulseek_env \<Rightarrow> nat \<Rightarrow> downloadCoordinator \<Rightarrow> downloadCoordinator" where
  "finish_remove env n s = removeJob n (snd (persistJob env n s))"

definition finishJob :: "soulseek_env \<Rightarrow> DownloadState \<Rightarrow> go_error option \<Rightarrow> time \<Rightarrow> nat \<Rightarrow> downloadCoordinator \<Rightarrow> downloadCoordinator" where
  "finishJob env state err now n s =
    (if jb_finished (dc_heap s n) then s
     else let (releaseSlot, s') = finish_mark state err now n s in finish_remove env n (finish_release releaseSlot n s'))"

subsection \<open>Readers\<close>

definition beginRead :: "string \<Rightarrow> downloadCoordinator \<Rightarrow> downloadCoordinator" where
  "beginRead key s = s\<lparr>dc_active := (dc_active s)(key := dc_active s key + 1)\<rparr>"

definition endRead :: "string \<Rightarrow> downloadCoordinator \<Rightarrow> downloadCoordinator" where
  "endRead key s = s\<lparr>dc_active := (dc_active s)(key := (if dc_active s key \<le> 1 then 0 else dc_active s key - 1))\<rparr>"

definition rememberCached ::
  "soulseek_env \<Rightarrow> time \<Rightarrow> string \<Rightarrow> string \<Rightarrow> string \<Rightarrow> remoteFileRef \<Rightarrow> time \<Rightarrow> downloadCoordinator \<Rightarrow> downloadCoordinator" where
  "rememberCached env now key trackID name remote modTime s =
    (case dc_records s (job_id env key) of
       Some n \<Rightarrow> snd (persistJob env n (change_job n (with_td (\<lambda>d. d\<lparr>td_State := DownloadStateCached,
           td_CompletedBytes := rf_Size remote, td_TotalBytes := rf_Size remote, td_Error := None, td_UpdatedAt := now\<rparr>)) s))
     | None \<Rightarrow>
         let job = (new_job env s modTime key trackID name remote)\<lparr>jb_incompletePath := '''', jb_finished := True, jb_ready := True\<rparr>;
             job' = with_td (\<lambda>d. d\<lparr>td_State := DownloadStateCached, td_CompletedBytes := rf_Size remote\<rparr>) job
         in snd (persistJob env (dc_next s) (add_job env job' s)))"

text \<open>The part of \<open>resolve\<close> under \<open>cacheMu\<close>: an error, or whether the cached file was opened.\<close>

definition resolve_cached ::
  "soulseek_env \<Rightarrow> time \<Rightarrow> string \<Rightarrow> string \<Rightarrow> remoteFileRef \<Rightarrow> (downloadCoordinator, bool) action" where
  "resolve_cached env now key trackID remote = with_state (\<lambda>s.
    let finalPath = finalPath_of (dc_downloadsDir s) trackID remote in
    tryE (on_disk (os_Stat finalPath)) (\<lambda>r. case r of
      Inr None \<Rightarrow> fail (Errorf ''cached Soulseek file has the wrong size'')
    | Inr (Some (contents, modTime)) \<Rightarrow>
        if int (length contents) \<noteq> rf_Size remote then fail (Errorf ''cached Soulseek file has the wrong size'')
        else bindE (wrapE ''open cached Soulseek file'' (on_disk (os_Open finalPath))) (\<lambda>_.
          bindE (modify (\<lambda>s. beginRead key (rememberCached env now key trackID (sanitizedFilename (rf_Path remote)) remote modTime s))) (\<lambda>_. ret True))
    | Inl err \<Rightarrow>
        if err \<noteq> os_ErrNotExist then fail (Wrap ''inspect cached Soulseek file'' err)
        else bindE (modify (beginRead key)) (\<lambda>_. ret False)))"

section \<open>monitoring.go\<close>

definition snapshot :: "soulseek_env \<Rightarrow> time \<Rightarrow> nat \<Rightarrow> (downloadCoordinator, TrackDownload \<times> bool) action" where
  "snapshot env now n = with_state (\<lambda>s.
    let j = dc_heap s n in
    if td_State (jb_download j) \<noteq> DownloadStateCached then ret (jb_download j, False)
    else tryE (on_disk (os_Stat (jb_finalPath j))) (\<lambda>r.
      if r = Inl os_ErrNotExist then
        (let f = with_td (\<lambda>d. d\<lparr>td_State := DownloadStateEvicted, td_CompletedBytes := 0, td_UpdatedAt := now\<rparr>)
         in bindE (modify (change_job n f)) (\<lambda>_. ret (jb_download (f j), True)))
      else ret (jb_download j, False)))"

fun list_jobs :: "soulseek_env \<Rightarrow> (nat \<Rightarrow> time) \<Rightarrow> nat list \<Rightarrow> (downloadCoordinator, TrackDownload list) action" where
  "list_jobs env now [] = ret []"
| "list_jobs env now (n # ns) =
    bindE (on_disk ctx_Err) (\<lambda>_.
    bindE (snapshot env (now n) n) (\<lambda>(d, changed).
    bindE (if changed then persistJob env n else ret ()) (\<lambda>_.
    bindE (list_jobs env now ns) (\<lambda>rest. ret (d # rest)))))"

definition soulseek_TrackDownloads :: "soulseek_env \<Rightarrow> (nat \<Rightarrow> time) \<Rightarrow> nat list \<Rightarrow> (downloadCoordinator, TrackDownload list) action" where
  "soulseek_TrackDownloads env now ns = bindE (list_jobs env now ns) (\<lambda>ds. ret (SliceStable (\<lambda>a b.
     if td_StartedAt a = td_StartedAt b then td_Name a < td_Name b else td_StartedAt a > td_StartedAt b) ds))"

definition markEvicted :: "soulseek_env \<Rightarrow> time \<Rightarrow> nat \<Rightarrow> (downloadCoordinator, unit) action" where
  "markEvicted env now n =
    bindE (modify (change_job n (with_td (\<lambda>d. d\<lparr>td_State := DownloadStateEvicted, td_CompletedBytes := 0, td_Error := None, td_UpdatedAt := now\<rparr>))))
      (\<lambda>_. wrapE ''persist evicted Soulseek download'' (persistJob env n))"

text \<open>\<open>pinned\<close> is what \<open>isTrackPinned\<close> answers: False for every track as long as no checker is set.\<close>

definition isTrackPinned :: "(string \<Rightarrow> bool) option \<Rightarrow> string \<Rightarrow> bool" where
  "isTrackPinned checker trackID = (case checker of None \<Rightarrow> False | Some pinned \<Rightarrow> pinned trackID)"

definition soulseek_evictable :: "(string \<Rightarrow> bool) option \<Rightarrow> downloadCoordinator \<Rightarrow> nat \<Rightarrow> bool" where
  "soulseek_evictable checker s n \<longleftrightarrow> td_State (jb_download (dc_heap s n)) = DownloadStateCached
     \<and> dc_active s (jb_key (dc_heap s n)) = 0 \<and> \<not> isTrackPinned checker (jb_trackID (dc_heap s n))"

text \<open>\<open>ns\<close> are the candidates in order; a directory that is left empty disappears.\<close>

fun soulseek_evict_loop :: "soulseek_env \<Rightarrow> (nat \<Rightarrow> time) \<Rightarrow> int \<Rightarrow> nat list \<Rightarrow> int \<Rightarrow> (downloadCoordinator, int \<times> go_error option) action" where
  "soulseek_evict_loop env now need [] freed = ret (freed, None)"
| "soulseek_evict_loop env now need (n # ns) freed = with_state (\<lambda>s.
    let path = jb_finalPath (dc_heap s n) in
    tryE (on_disk ctx_Err) (\<lambda>r. case r of Inl err \<Rightarrow> ret (freed, Some err) | Inr _ \<Rightarrow>
    tryE (on_disk (os_Stat path)) (\<lambda>r. case r of
      Inl err \<Rightarrow>
        if err = os_ErrNotExist then
          tryE (markEvicted env (now n) n) (\<lambda>r. case r of
            Inl err \<Rightarrow> ret (freed, Some err) | Inr _ \<Rightarrow> soulseek_evict_loop env now need ns freed)
        else ret (freed, Some (Wrap ''inspect cached Soulseek file for eviction'' err))
    | Inr info \<Rightarrow>
        let len = (case info of Some (contents, _) \<Rightarrow> int (length contents) | None \<Rightarrow> 0) in
        tryE (on_disk (os_Remove path)) (\<lambda>r. case r of
          Inl err \<Rightarrow> ret (freed, Some (Wrap ''evict cached Soulseek file'' err))
        | Inr _ \<Rightarrow> tryE (markEvicted env (now n) n) (\<lambda>r. case r of
            Inl err \<Rightarrow> ret (freed + len, Some err)
          | Inr _ \<Rightarrow> if freed + len \<ge> need then ret (freed + len, None)
                     else soulseek_evict_loop env now need ns (freed + len))))))"

definition soulseek_Evict ::
  "soulseek_env \<Rightarrow> (string \<Rightarrow> bool) option \<Rightarrow> (nat \<Rightarrow> time) \<Rightarrow> nat list \<Rightarrow> int \<Rightarrow> (downloadCoordinator, int \<times> go_error option) action" where
  "soulseek_Evict env checker now ns need =
    (if need \<le> 0 then ret (0, None)
     else with_state (\<lambda>s. soulseek_evict_loop env now need
       (SliceStable (\<lambda>a b. td_UpdatedAt (jb_download (dc_heap s a)) < td_UpdatedAt (jb_download (dc_heap s b)))
         (filter (soulseek_evictable checker s) ns)) 0))"

section \<open>Goroutines\<close>

text \<open>
  Who works on a job: the goroutine of \<open>startEnqueue\<close> (or the request that created the job), the monitor, or a
  request to cancel it.
\<close>

datatype part = Worker | Monitor | Client

text \<open>
  The points at which a goroutine can be interrupted, with the number of its job. \<open>Saving\<close> and \<open>Rearming\<close> write the
  job to disk and go on, \<open>Noting\<close> does so whatever comes of it. \<open>Finishing\<close>, \<open>Releasing\<close> and \<open>Removing\<close> are in \<open>finishJob\<close>.
  \<open>Resolving\<close>, \<open>Awaiting\<close> and \<open>Reading\<close> are requests for a file; \<open>Resuming\<close> has the jobs that \<open>resume\<close> has still to start.
\<close>

datatype sthread =
    Resuming "nat list"
  | Creating nat
  | Acquiring nat
  | Acquired nat
  | Noting nat sthread
  | Posting nat part nat
  | Posted nat part nat
  | Backoff nat part nat
  | Enqueued nat
  | Watching nat nat
  | Polling nat nat
  | Saving nat slskdDownloadTransfer
  | Judging nat slskdDownloadTransfer
  | Fetching nat
  | Rearming nat
  | Finishing nat DownloadState "go_error option" part
  | Releasing nat bool part
  | Removing nat part
  | Leaving nat
  | Cancelling nat
  | Resolving string string remoteFileRef
  | Awaiting string nat
  | Reading string

record soulseek_sys =
  sy_state :: downloadCoordinator
  sy_threads :: "sthread list"
  sy_closing :: bool
  sy_resumed :: nat

fun after_finish :: "nat \<Rightarrow> part \<Rightarrow> sthread list" where
  "after_finish n Monitor = [Leaving n]"
| "after_finish n _ = []"

fun after_enqueue :: "nat \<Rightarrow> part \<Rightarrow> sthread" where
  "after_enqueue n Monitor = Watching n 0"
| "after_enqueue n _ = Enqueued n"

definition slskd_failure :: "go_error option" where
  "slskd_failure = Some (Errorf ''slskd'')"

text \<open>One step of a goroutine: the coordinator after it, and what the goroutine becomes, with those it starts.
  The message of a failed write may look like a temporary error too.\<close>

inductive sthread_step ::
  "soulseek_env \<Rightarrow> nat \<Rightarrow> bool \<Rightarrow> downloadCoordinator \<Rightarrow> sthread \<Rightarrow> downloadCoordinator \<Rightarrow> sthread list \<Rightarrow> bool"
  for env :: soulseek_env and attempts :: nat and closing :: bool and s :: downloadCoordinator
where
  create: "persistJob env n s = (Inr (), s') \<Longrightarrow> sthread_step env attempts closing s (Creating n) (begin_enqueue n s') [Acquiring n]"
| create_failed: "persistJob env n s = (Inl e, s') \<Longrightarrow>
    sthread_step env attempts closing s (Creating n) s' [Finishing n DownloadStateFailed (Some e) Worker]"
| acquire: "dc_slots s < dc_limit s \<Longrightarrow> sthread_step env attempts closing s (Acquiring n) (gate_take s) [Acquired n]"
| acquire_ended: "closing \<or> jb_cancelled (dc_heap s n) \<Longrightarrow> sthread_step env attempts closing s (Acquiring n) s []"
| acquired: "\<not> jb_finished (dc_heap s n) \<Longrightarrow>
    sthread_step env attempts closing s (Acquired n) (hold_slot now n s) [Noting n (Posting n Worker 1)]"
| acquired_late: "jb_finished (dc_heap s n) \<Longrightarrow> sthread_step env attempts closing s (Acquired n) (gate_release s) []"
| noted: "persistJob env n s = (r, s') \<Longrightarrow> sthread_step env attempts closing s (Noting n g) s' [g]"
| post: "enqueue_reply (doPeerJSON answer ended) = Inr ids \<Longrightarrow>
    sthread_step env attempts closing s (Posting n p k) (enqueued now ids n s) [Posted n p k]"
| post_failed: "enqueue_reply (doPeerJSON answer ended) = Inl e \<Longrightarrow> \<not> temporarySlskdError (unicode (se_text env)) e \<or> k \<ge> attempts \<Longrightarrow>
    sthread_step env attempts closing s (Posting n p k) s [Finishing n DownloadStateFailed slskd_failure p]"
| post_again: "enqueue_reply (doPeerJSON answer ended) = Inl e \<Longrightarrow> temporarySlskdError (unicode (se_text env)) e \<Longrightarrow> k < attempts \<Longrightarrow>
    sthread_step env attempts closing s (Posting n p k) (retry_later now n s) [Noting n (Backoff n p k)]"
| posted: "persistJob env n s = (Inr (), s') \<Longrightarrow> sthread_step env attempts closing s (Posted n p k) s' [after_enqueue n p]"
| posted_failed: "persistJob env n s = (Inl e, s') \<Longrightarrow>
    sthread_step env attempts closing s (Posted n p k) s' [Finishing n DownloadStateFailed (Some e) p]"
| posted_again: "persistJob env n s = (Inl e, s') \<Longrightarrow> k < attempts \<Longrightarrow>
    sthread_step env attempts closing s (Posted n p k) (retry_later now n s') [Noting n (Backoff n p k)]"
| backoff: "sthread_step env attempts closing s (Backoff n p k) (requeue now n s) [Posting n p (Suc k)]"
| backoff_ended: "closing \<or> p = Worker \<and> jb_cancelled (dc_heap s n) \<Longrightarrow>
    sthread_step env attempts closing s (Backoff n p k) s [Finishing n DownloadStateFailed (Some ErrCanceled) p]"
| monitor: "beginMonitoring n (markEnqueued n s) = (started, s') \<Longrightarrow>
    sthread_step env attempts closing s (Enqueued n) s' (if started then [Watching n 0] else [])"
| watch_over: "jb_finished (dc_heap s n) \<Longrightarrow> sthread_step env attempts closing s (Watching n k) s [Leaving n]"
| watch: "\<not> jb_finished (dc_heap s n) \<Longrightarrow> sthread_step env attempts closing s (Watching n k) s [Polling n k]"
| poll_error: "doJSON (answer :: slskdDownloadTransfer list http_response) = Inl e \<Longrightarrow> Suc k < 5 \<Longrightarrow>
    sthread_step env attempts closing s (Polling n k) s [if closing \<and> stop then Leaving n else Watching n (Suc k)]"
| poll_gone: "doJSON (answer :: slskdDownloadTransfer list http_response) = Inl e \<Longrightarrow> Suc k \<ge> 5 \<Longrightarrow>
    sthread_step env attempts closing s (Polling n k) s [Finishing n DownloadStateFailed slskd_failure Monitor]"
| poll_empty: "doJSON answer = Inr ([] :: slskdDownloadTransfer list) \<Longrightarrow>
    sthread_step env attempts closing s (Polling n k) s [Finishing n DownloadStateFailed slskd_failure Monitor]"
| poll: "doJSON answer = Inr (transfer # rest) \<Longrightarrow> updateTransfer (unicode (se_text env)) now transfer n s = (changed, s') \<Longrightarrow>
    sthread_step env attempts closing s (Polling n k) s' [if changed \<and> due then Saving n transfer else Judging n transfer]"
| saved: "persistJob env n s = (Inr (), s') \<Longrightarrow> sthread_step env attempts closing s (Saving n transfer) s' [Judging n transfer]"
| not_saved: "persistJob env n s = (Inl e, s') \<Longrightarrow>
    sthread_step env attempts closing s (Saving n transfer) s' [Finishing n DownloadStateFailed (Some e) Monitor]"
| judge_done: "transferSucceeded (unicode (se_text env)) (sdt_State transfer) \<Longrightarrow>
    sthread_step env attempts closing s (Judging n transfer) s [Fetching n]"
| judge_again: "\<not> transferSucceeded (unicode (se_text env)) (sdt_State transfer) \<Longrightarrow> transferFailed (unicode (se_text env)) (sdt_State transfer) \<Longrightarrow>
    retryableTransferFailure (unicode (se_text env)) transfer \<Longrightarrow> prepareAutomaticRetry (int attempts) now n s = (True, s') \<Longrightarrow>
    sthread_step env attempts closing s (Judging n transfer) s' [Rearming n]"
| judge_failed: "\<not> transferSucceeded (unicode (se_text env)) (sdt_State transfer) \<Longrightarrow> transferFailed (unicode (se_text env)) (sdt_State transfer) \<Longrightarrow>
    \<not> retryableTransferFailure (unicode (se_text env)) transfer \<or> \<not> fst (prepareAutomaticRetry (int attempts) now n s) \<Longrightarrow>
    sthread_step env attempts closing s (Judging n transfer) s [Finishing n
      (if stateContains (unicode (se_text env)) (sdt_State transfer) ''Cancelled'' then DownloadStateCancelled else DownloadStateFailed) slskd_failure Monitor]"
| judge_open: "\<not> transferSucceeded (unicode (se_text env)) (sdt_State transfer) \<Longrightarrow> \<not> transferFailed (unicode (se_text env)) (sdt_State transfer) \<Longrightarrow>
    sthread_step env attempts closing s (Judging n transfer) s [if closing \<and> stop then Leaving n else Watching n 0]"
| fetched: "on_disk (os_Stat (jb_finalPath (dc_heap s n))) s = (Inr info, s') \<Longrightarrow>
    sthread_step env attempts closing s (Fetching n) s' [Finishing n DownloadStateCached None Monitor]"
| fetch: "on_disk (os_Stat (jb_finalPath (dc_heap s n))) s = (Inl e, s') \<Longrightarrow> e = os_ErrNotExist \<Longrightarrow>
    sthread_step env attempts closing s (Fetching n) s' [Fetching n]"
| fetch_failed: "on_disk (os_Stat (jb_finalPath (dc_heap s n))) s = (Inl e, s') \<Longrightarrow>
    sthread_step env attempts closing s (Fetching n) s' [Finishing n DownloadStateFailed (Some e) Monitor]"
| rearmed: "persistJob env n s = (Inr (), s') \<Longrightarrow> sthread_step env attempts closing s (Rearming n) s' [Posting n Monitor 1]"
| not_rearmed: "persistJob env n s = (Inl e, s') \<Longrightarrow>
    sthread_step env attempts closing s (Rearming n) s' [Finishing n DownloadStateFailed (Some e) Monitor]"
| finished: "jb_finished (dc_heap s n) \<Longrightarrow> sthread_step env attempts closing s (Finishing n st e p) s (after_finish n p)"
| finish: "\<not> jb_finished (dc_heap s n) \<Longrightarrow> finish_mark st e now n s = (b, s') \<Longrightarrow>
    sthread_step env attempts closing s (Finishing n st e p) s' [Releasing n b p]"
| release: "sthread_step env attempts closing s (Releasing n b p) (finish_release b n s) [Removing n p]"
| remove: "sthread_step env attempts closing s (Removing n p) (finish_remove env n s) (after_finish n p)"
| leave: "sthread_step env attempts closing s (Leaving n) (endMonitoring n s) []"
| cancelled: "doJSON answer = Inr () \<Longrightarrow>
    sthread_step env attempts closing s (Cancelling n) s [Finishing n DownloadStateCancelled (Some (Errorf ''Soulseek download cancelled'')) Client]"
| not_cancelled: "doJSON (answer :: unit http_response) = Inl e \<Longrightarrow> sthread_step env attempts closing s (Cancelling n) s []"
| join: "dc_jobs s key = Some n \<Longrightarrow> sthread_step env attempts closing s (Resolving key trackID remote) s [Awaiting key n]"
| open_new: "dc_jobs s key = None \<Longrightarrow> sthread_step env attempts closing s (Resolving key trackID remote)
    (add_job env (new_job env s now key trackID (sanitizedFilename (rf_Path remote)) remote) s) [Awaiting key (dc_next s), Creating (dc_next s)]"
| await: "jb_ready (dc_heap s n) \<Longrightarrow> jb_err (dc_heap s n) = None \<Longrightarrow> sthread_step env attempts closing s (Awaiting key n) s [Reading key]"
| await_failed: "sthread_step env attempts closing s (Awaiting key n) (endRead key s) []"
| close_reader: "sthread_step env attempts closing s (Reading key) (endRead key s) []"
| resume_waiting: "td_State (jb_download (dc_heap s n)) = DownloadStateWaiting \<Longrightarrow> jb_batchID (dc_heap s n) = '''' \<Longrightarrow>
    sthread_step env attempts closing s (Resuming (n # ns)) (begin_enqueue n s) [Resuming ns, Acquiring n]"
| resume_broken: "td_State (jb_download (dc_heap s n)) \<noteq> DownloadStateWaiting \<Longrightarrow> jb_batchID (dc_heap s n) = '''' \<Longrightarrow>
    sthread_step env attempts closing s (Resuming (n # ns)) s
      [Resuming ns, Finishing n DownloadStateFailed (Some (Errorf ''resume Soulseek download: missing slskd batch ID'')) Worker]"
| resume_done: "sthread_step env attempts closing s (Resuming []) s []"
| resume_stopped: "closing \<Longrightarrow> sthread_step env attempts closing s (Resuming ns) s []"

definition active_state :: "DownloadState \<Rightarrow> bool" where
  "active_state st \<longleftrightarrow> st \<in> {DownloadStateWaiting, DownloadStateQueued, DownloadStateDownloading}"

definition retryable_state :: "DownloadState \<Rightarrow> bool" where
  "retryable_state st \<longleftrightarrow> st \<in> {DownloadStateFailed, DownloadStateCancelled, DownloadStateEvicted}"

text \<open>Requests come once \<open>resume\<close> has returned (\<open>app.go\<close>); before, it looks at the files of all records (\<open>notified\<close>). Handlers that
  are told of completed files are not modelled.\<close>

definition serving :: "soulseek_sys \<Rightarrow> bool" where
  "serving y \<longleftrightarrow> (\<forall>ns. Resuming ns \<notin> set (sy_threads y))"

text \<open>\<open>cancel\<close> for a transfer that slskd does not know yet: the context is cancelled, then the job is finished.\<close>

definition cancel_now :: "nat \<Rightarrow> downloadCoordinator \<Rightarrow> downloadCoordinator" where
  "cancel_now n = change_job n (\<lambda>j. j\<lparr>jb_cancelled := jb_cancelled j \<or> jb_cancel j\<rparr>)"

definition unknown_to_slskd :: "downloadJob \<Rightarrow> bool" where
  "unknown_to_slskd j \<longleftrightarrow> rf_Peer (jb_remote j) = '''' \<or> jb_transferID j = ''''"

definition resume_monitor :: "nat \<Rightarrow> downloadCoordinator \<Rightarrow> bool \<times> downloadCoordinator" where
  "resume_monitor n s = beginMonitoring n (change_job n (\<lambda>j. j\<lparr>jb_slotHeld := True\<rparr>) (gate_take s))"

inductive soulseek_step :: "soulseek_env \<Rightarrow> nat \<Rightarrow> soulseek_sys \<Rightarrow> soulseek_sys \<Rightarrow> bool" for env :: soulseek_env and attempts :: nat where
  thread: "sy_threads y = xs @ g # ys \<Longrightarrow> sthread_step env attempts (sy_closing y) (sy_state y) g s gs \<Longrightarrow>
    soulseek_step env attempts y (y\<lparr>sy_state := s, sy_threads := xs @ gs @ ys\<rparr>)"
| resume_active: "sy_threads y = xs @ Resuming (n # ns) # ys \<Longrightarrow> jb_batchID (dc_heap (sy_state y) n) \<noteq> '''' \<Longrightarrow>
    resume_monitor n (sy_state y) = (started, s) \<Longrightarrow>
    soulseek_step env attempts y (y\<lparr>sy_state := s, sy_threads := xs @ (Resuming ns # (if started then [Watching n 0] else [])) @ ys,
      sy_resumed := sy_resumed y + 1\<rparr>)"
| open_cached: "serving y \<Longrightarrow> resolve_cached env now key trackID remote (sy_state y) = (Inr True, s) \<Longrightarrow>
    soulseek_step env attempts y (y\<lparr>sy_state := s, sy_threads := sy_threads y @ [Reading key]\<rparr>)"
| open_missing: "serving y \<Longrightarrow> resolve_cached env now key trackID remote (sy_state y) = (Inr False, s) \<Longrightarrow>
    soulseek_step env attempts y (y\<lparr>sy_state := s, sy_threads := sy_threads y @ [Resolving key trackID remote]\<rparr>)"
| open_failed: "serving y \<Longrightarrow> resolve_cached env now key trackID remote (sy_state y) = (Inl e, s) \<Longrightarrow>
    soulseek_step env attempts y (y\<lparr>sy_state := s\<rparr>)"
| cancel: "serving y \<Longrightarrow> dc_records (sy_state y) i = Some n \<Longrightarrow> active_state (td_State (jb_download (dc_heap (sy_state y) n))) \<Longrightarrow>
    unknown_to_slskd (dc_heap (sy_state y) n) \<Longrightarrow>
    soulseek_step env attempts y (y\<lparr>sy_state := cancel_now n (sy_state y), sy_threads := sy_threads y @
      [Finishing n DownloadStateCancelled (Some (Errorf ''Soulseek download cancelled'')) Client]\<rparr>)"
| cancel_transfer: "serving y \<Longrightarrow> dc_records (sy_state y) i = Some n \<Longrightarrow> active_state (td_State (jb_download (dc_heap (sy_state y) n))) \<Longrightarrow>
    \<not> unknown_to_slskd (dc_heap (sy_state y) n) \<Longrightarrow>
    soulseek_step env attempts y (y\<lparr>sy_threads := sy_threads y @ [Cancelling n]\<rparr>)"
| retry: "serving y \<Longrightarrow> dc_records (sy_state y) i = Some n \<Longrightarrow> j = dc_heap (sy_state y) n \<Longrightarrow> retryable_state (td_State (jb_download j)) \<Longrightarrow>
    dc_jobs (sy_state y) (jb_key j) = None \<Longrightarrow>
    soulseek_step env attempts y (y\<lparr>sy_state := add_job env
        (new_job env (sy_state y) now (jb_key j) (jb_trackID j) (td_Name (jb_download j)) (jb_remote j)) (sy_state y),
      sy_threads := sy_threads y @ [Creating (dc_next (sy_state y))]\<rparr>)"
| listed: "serving y \<Longrightarrow> soulseek_TrackDownloads env nows ns (sy_state y) = (r, s) \<Longrightarrow> soulseek_step env attempts y (y\<lparr>sy_state := s\<rparr>)"
| notified: "\<not> serving y \<Longrightarrow> snapshot env now n (sy_state y) = (r, s) \<Longrightarrow> soulseek_step env attempts y (y\<lparr>sy_state := s\<rparr>)"
| evicted: "set ns \<subseteq> {n. n < dc_next (sy_state y)} \<Longrightarrow> soulseek_Evict env checker nows ns need (sy_state y) = (r, s) \<Longrightarrow>
    soulseek_step env attempts y (y\<lparr>sy_state := s\<rparr>)"
| closing: "soulseek_step env attempts y (y\<lparr>sy_closing := True\<rparr>)"

text \<open>The coordinator is loaded, then \<open>resume\<close> collects the jobs that are left in any order.\<close>

inductive soulseek_reachable :: "soulseek_env \<Rightarrow> nat \<Rightarrow> soulseek_sys \<Rightarrow> bool" for env :: soulseek_env and attempts :: nat where
  start: "s = newDownloadCoordinator env downloadsDir incompleteDir maxActive w \<Longrightarrow> set ns = ran (dc_jobs s) \<Longrightarrow> distinct ns \<Longrightarrow>
    soulseek_reachable env attempts \<lparr>sy_state = s, sy_threads = [Resuming ns], sy_closing = False, sy_resumed = 0\<rparr>"
| step: "soulseek_reachable env attempts y \<Longrightarrow> soulseek_step env attempts y y' \<Longrightarrow> soulseek_reachable env attempts y'"

end
