(* ===== verification/SoulseekUse.thy ===== *)
theory SoulseekUse
  imports SoulseekDownloads
begin

text \<open>
  What the goroutines of the Soulseek downloads keep: slots are counted exactly, a job that is not finished
  has somebody who works on it, and a finished job gives its key free.
\<close>

section \<open>Roles of the goroutines\<close>

fun works :: "nat \<Rightarrow> sthread \<Rightarrow> bool" where
  "works n (Resuming ns) = (n \<in> set ns)"
| "works n (Creating m) = (n = m)"
| "works n (Acquiring m) = (n = m)"
| "works n (Acquired m) = (n = m)"
| "works n (Noting m g) = works n g"
| "works n (Posting m p k) = (n = m)"
| "works n (Posted m p k) = (n = m)"
| "works n (Backoff m p k) = (n = m)"
| "works n (Enqueued m) = (n = m)"
| "works n (Watching m k) = (n = m)"
| "works n (Polling m k) = (n = m)"
| "works n (Saving m t) = (n = m)"
| "works n (Judging m t) = (n = m)"
| "works n (Fetching m) = (n = m)"
| "works n (Rearming m) = (n = m)"
| "works n (Finishing m st e p) = (n = m \<and> p \<noteq> Client)"
| "works n (Releasing m b p) = (n = m \<and> p \<noteq> Client)"
| "works n (Removing m p) = (n = m \<and> p \<noteq> Client)"
| "works n (Leaving m) = (n = m)"
| "works n _ = False"

fun monitors :: "nat \<Rightarrow> sthread \<Rightarrow> bool" where
  "monitors n (Noting m g) = monitors n g"
| "monitors n (Posting m p k) = (n = m \<and> p = Monitor)"
| "monitors n (Posted m p k) = (n = m \<and> p = Monitor)"
| "monitors n (Backoff m p k) = (n = m \<and> p = Monitor)"
| "monitors n (Watching m k) = (n = m)"
| "monitors n (Polling m k) = (n = m)"
| "monitors n (Saving m t) = (n = m)"
| "monitors n (Judging m t) = (n = m)"
| "monitors n (Fetching m) = (n = m)"
| "monitors n (Rearming m) = (n = m)"
| "monitors n (Finishing m st e p) = (n = m \<and> p = Monitor)"
| "monitors n (Releasing m b p) = (n = m \<and> p = Monitor)"
| "monitors n (Removing m p) = (n = m \<and> p = Monitor)"
| "monitors n (Leaving m) = (n = m)"
| "monitors n _ = False"

text \<open>Goroutines that hold a slot which no job holds, that are about to remove a finished job, and requests that are
  about to finish a job.\<close>

fun holds_gate :: "sthread \<Rightarrow> bool" where
  "holds_gate (Acquired m) = True"
| "holds_gate (Releasing m b p) = b"
| "holds_gate _ = False"

fun removes :: "nat \<Rightarrow> sthread \<Rightarrow> bool" where
  "removes n (Releasing m b p) = (n = m)"
| "removes n (Removing m p) = (n = m)"
| "removes n _ = False"

fun ends_job :: "nat \<Rightarrow> sthread \<Rightarrow> bool" where
  "ends_job n (Finishing m st e p) = (n = m \<and> p = Client)"
| "ends_job n _ = False"

fun client :: "sthread \<Rightarrow> bool" where
  "client (Finishing m st e p) = (p = Client)"
| "client (Releasing m b p) = (p = Client)"
| "client (Removing m p) = (p = Client)"
| "client (Cancelling m) = True"
| "client _ = False"

fun aims :: "nat \<Rightarrow> sthread \<Rightarrow> bool" where
  "aims n (Finishing m st e p) = (n = m)"
| "aims n (Releasing m b p) = (n = m)"
| "aims n (Removing m p) = (n = m)"
| "aims n (Cancelling m) = (n = m)"
| "aims n _ = False"

fun early :: "nat \<Rightarrow> sthread \<Rightarrow> bool" where
  "early n (Creating m) = (n = m)"
| "early n (Acquiring m) = (n = m)"
| "early n (Acquired m) = (n = m)"
| "early n _ = False"

fun reads_key :: "string \<Rightarrow> sthread \<Rightarrow> bool" where
  "reads_key k (Resolving key t r) = (k = key)"
| "reads_key k (Awaiting key n) = (k = key)"
| "reads_key k (Reading key) = (k = key)"
| "reads_key k _ = False"

fun proper :: "sthread \<Rightarrow> bool" where
  "proper (Posting m p k) = (p \<noteq> Client)"
| "proper (Posted m p k) = (p \<noteq> Client)"
| "proper (Backoff m p k) = (p \<noteq> Client)"
| "proper (Noting m (Posting n p k)) = (p \<noteq> Client)"
| "proper (Noting m (Backoff n p k)) = (p \<noteq> Client)"
| "proper (Noting m g) = False"
| "proper _ = True"

section \<open>The invariant\<close>

abbreviation fin :: "downloadCoordinator \<Rightarrow> nat \<Rightarrow> bool" where "fin s n \<equiv> jb_finished (dc_heap s n)"
abbreviation slot :: "downloadCoordinator \<Rightarrow> nat \<Rightarrow> bool" where "slot s n \<equiv> jb_slotHeld (dc_heap s n)"
abbreviation job_key :: "downloadCoordinator \<Rightarrow> nat \<Rightarrow> string" where "job_key s n \<equiv> jb_key (dc_heap s n)"

definition held :: "downloadCoordinator \<Rightarrow> nat set" where
  "held s = {n. n < dc_next s \<and> slot s n}"

definition fresh_job :: "downloadCoordinator \<Rightarrow> nat \<Rightarrow> bool" where
  "fresh_job s n \<longleftrightarrow> \<not> fin s n \<and> \<not> slot s n \<and> \<not> jb_monitoring (dc_heap s n) \<and> \<not> jb_cancelled (dc_heap s n)"

text \<open>What holds of one goroutine.\<close>

definition thread_ok :: "bool \<Rightarrow> downloadCoordinator \<Rightarrow> sthread \<Rightarrow> bool" where
  "thread_ok c s g \<longleftrightarrow> proper g \<and> (\<forall>n. works n g \<longrightarrow> n < dc_next s \<and> (fin s n \<or> dc_jobs s (job_key s n) = Some n))
     \<and> (\<forall>n. early n g \<longrightarrow> \<not> slot s n) \<and> (\<forall>n. aims n g \<longrightarrow> n < dc_next s) \<and> (\<forall>n. removes n g \<longrightarrow> fin s n) \<and> (\<forall>n. g = Leaving n \<longrightarrow> c \<or> fin s n)
     \<and> (\<forall>ns. g = Resuming ns \<longrightarrow> distinct ns \<and> (\<forall>n \<in> set ns. fresh_job s n))"

definition soulseek_inv :: "bool \<Rightarrow> nat \<Rightarrow> downloadCoordinator \<Rightarrow> sthread list \<Rightarrow> bool" where
  "soulseek_inv c R s ths \<longleftrightarrow>
     dc_slots s = int (card (held s)) + int (tally holds_gate ths) \<and> dc_slots s \<le> max 0 (dc_limit s) + int R
     \<and> (\<forall>n < dc_next s. slot s n \<longrightarrow> \<not> fin s n \<and> dc_jobs s (job_key s n) = Some n)
     \<and> (\<forall>k n. dc_jobs s k = Some n \<longrightarrow> n < dc_next s \<and> job_key s n = k \<and> (fin s n \<longrightarrow> (\<exists>g \<in> set ths. removes n g))
          \<and> (\<not> fin s n \<longrightarrow> c \<or> (\<exists>g \<in> set ths. works n g \<or> ends_job n g)))
     \<and> (\<forall>n. tally (works n) ths \<le> 1)
     \<and> (\<forall>n < dc_next s. jb_monitoring (dc_heap s n) \<longrightarrow> (\<exists>g \<in> set ths. monitors n g))
     \<and> (\<forall>n < dc_next s. jb_cancelled (dc_heap s n) \<longrightarrow> fin s n \<or> (\<exists>g \<in> set ths. ends_job n g))
     \<and> (\<forall>k. dc_active s k = int (tally (reads_key k) ths))
     \<and> (\<forall>g \<in> set ths. thread_ok c s g)
     \<and> ((\<exists>ns. Resuming ns \<in> set ths) \<longrightarrow> (\<forall>g \<in> set ths. \<not> client g))
     \<and> (\<forall>i n. dc_records s i = Some n \<longrightarrow> n < dc_next s)"

lemma sinvI:
  assumes "dc_slots s = int (card (held s)) + int (tally holds_gate ths)" "dc_slots s \<le> max 0 (dc_limit s) + int R"
    "\<And>n. n < dc_next s \<Longrightarrow> slot s n \<Longrightarrow> \<not> fin s n \<and> dc_jobs s (job_key s n) = Some n"
    "\<And>k n. dc_jobs s k = Some n \<Longrightarrow> n < dc_next s \<and> job_key s n = k"
    "\<And>k n. dc_jobs s k = Some n \<Longrightarrow> fin s n \<Longrightarrow> \<exists>g \<in> set ths. removes n g"
    "\<And>k n. dc_jobs s k = Some n \<Longrightarrow> \<not> fin s n \<Longrightarrow> c \<or> (\<exists>g \<in> set ths. works n g \<or> ends_job n g)"
    "\<And>n. tally (works n) ths \<le> 1"
    "\<And>n. n < dc_next s \<Longrightarrow> jb_monitoring (dc_heap s n) \<Longrightarrow> \<exists>g \<in> set ths. monitors n g"
    "\<And>n. n < dc_next s \<Longrightarrow> jb_cancelled (dc_heap s n) \<Longrightarrow> fin s n \<or> (\<exists>g \<in> set ths. ends_job n g)"
    "\<And>k. dc_active s k = int (tally (reads_key k) ths)"
    "\<And>g. g \<in> set ths \<Longrightarrow> thread_ok c s g"
    "\<And>ns g. Resuming ns \<in> set ths \<Longrightarrow> g \<in> set ths \<Longrightarrow> \<not> client g"
    "\<And>i n. dc_records s i = Some n \<Longrightarrow> n < dc_next s"
  shows "soulseek_inv c R s ths"
  using assms unfolding soulseek_inv_def by blast

lemma sinvD:
  assumes "soulseek_inv c R s ths"
  shows "dc_slots s = int (card (held s)) + int (tally holds_gate ths)" "dc_slots s \<le> max 0 (dc_limit s) + int R"
    "\<And>n. n < dc_next s \<Longrightarrow> slot s n \<Longrightarrow> \<not> fin s n \<and> dc_jobs s (job_key s n) = Some n"
    "\<And>k n. dc_jobs s k = Some n \<Longrightarrow> n < dc_next s \<and> job_key s n = k"
    "\<And>k n. dc_jobs s k = Some n \<Longrightarrow> fin s n \<Longrightarrow> \<exists>g \<in> set ths. removes n g"
    "\<And>k n. dc_jobs s k = Some n \<Longrightarrow> \<not> fin s n \<Longrightarrow> c \<or> (\<exists>g \<in> set ths. works n g \<or> ends_job n g)"
    "\<And>n. tally (works n) ths \<le> 1"
    "\<And>n. n < dc_next s \<Longrightarrow> jb_monitoring (dc_heap s n) \<Longrightarrow> \<exists>g \<in> set ths. monitors n g"
    "\<And>n. n < dc_next s \<Longrightarrow> jb_cancelled (dc_heap s n) \<Longrightarrow> fin s n \<or> (\<exists>g \<in> set ths. ends_job n g)"
    "\<And>k. dc_active s k = int (tally (reads_key k) ths)"
    "\<And>g. g \<in> set ths \<Longrightarrow> thread_ok c s g"
    "\<And>ns g. Resuming ns \<in> set ths \<Longrightarrow> g \<in> set ths \<Longrightarrow> \<not> client g"
    "\<And>i n. dc_records s i = Some n \<Longrightarrow> n < dc_next s"
  using assms unfolding soulseek_inv_def by blast+

section \<open>What an operation leaves alone\<close>

text \<open>The part of the coordinator that the invariant depends on.\<close>

definition job_view :: "downloadJob \<Rightarrow> string \<times> bool \<times> bool \<times> bool \<times> bool" where
  "job_view j = (jb_key j, jb_finished j, jb_slotHeld j, jb_monitoring j, jb_cancelled j)"

definition coord_view where
  "coord_view s = (\<lambda>n. job_view (dc_heap s n), dc_next s, dc_jobs s, dc_records s, dc_active s, dc_limit s, dc_slots s)"

abbreviation same_view where "same_view v \<equiv> \<lambda>s. coord_view s = v"

lemma coord_viewD:
  assumes "coord_view s' = coord_view s"
  shows "job_key s' n = job_key s n" "fin s' n = fin s n" "slot s' n = slot s n" "jb_monitoring (dc_heap s' n) = jb_monitoring (dc_heap s n)"
    "jb_cancelled (dc_heap s' n) = jb_cancelled (dc_heap s n)" "dc_next s' = dc_next s" "dc_jobs s' = dc_jobs s"
    "dc_records s' = dc_records s" "dc_active s' = dc_active s" "dc_limit s' = dc_limit s" "dc_slots s' = dc_slots s"
  using assms [unfolded coord_view_def prod.inject, THEN conjunct1, THEN fun_cong, of n] assms
  by (simp_all add: coord_view_def job_view_def)

lemma sinv_view:
  assumes "coord_view s' = coord_view s"
  shows "soulseek_inv c R s' ths = soulseek_inv c R s ths"
  by (simp add: soulseek_inv_def thread_ok_def held_def fresh_job_def coord_viewD [OF assms])

text \<open>A goroutine that is replaced by others; \<open>hs\<close> are the remaining ones. A duty may be dropped once there is no need for it.\<close>

definition takes_over :: "bool \<Rightarrow> downloadCoordinator \<Rightarrow> sthread list \<Rightarrow> sthread \<Rightarrow> sthread list \<Rightarrow> bool" where
  "takes_over c s hs g gs \<longleftrightarrow> (\<forall>n. tally (works n) gs \<le> tally (works n) [g])
     \<and> (\<forall>n. works n g \<longrightarrow> list_ex (works n) gs \<or> fin s n \<or> c \<or> list_ex (ends_job n) hs)
     \<and> (\<forall>n. removes n g \<longrightarrow> list_ex (removes n) gs \<or> dc_jobs s (job_key s n) \<noteq> Some n)
     \<and> (\<forall>n. ends_job n g \<longrightarrow> list_ex (ends_job n) gs \<or> fin s n)
     \<and> (\<forall>n. monitors n g \<longrightarrow> list_ex (monitors n) gs \<or> \<not> jb_monitoring (dc_heap s n))
     \<and> (list_ex client gs \<longrightarrow> client g) \<and> ((\<exists>ns. Resuming ns \<in> set gs) \<longrightarrow> (\<exists>ns. g = Resuming ns))
     \<and> list_all (thread_ok c s) gs"

lemma takes_overD:
  assumes "takes_over c s hs g gs"
  shows "tally (works n) gs \<le> tally (works n) [g]"
    "works n g \<Longrightarrow> list_ex (works n) gs \<or> fin s n \<or> c \<or> list_ex (ends_job n) hs"
    "removes n g \<Longrightarrow> list_ex (removes n) gs \<or> dc_jobs s (job_key s n) \<noteq> Some n"
    "ends_job n g \<Longrightarrow> list_ex (ends_job n) gs \<or> fin s n"
    "monitors n g \<Longrightarrow> list_ex (monitors n) gs \<or> \<not> jb_monitoring (dc_heap s n)"
    "h \<in> set gs \<Longrightarrow> client h \<Longrightarrow> client g" "Resuming ns \<in> set gs \<Longrightarrow> \<exists>ns. g = Resuming ns"
    "h \<in> set gs \<Longrightarrow> thread_ok c s h"
  using assms unfolding takes_over_def list_ex_iff list_all_iff by blast+

lemma thread_ok_counters [simp]:
  "thread_ok c (s\<lparr>dc_slots := x\<rparr>) g = thread_ok c s g" "thread_ok c (s\<lparr>dc_active := a\<rparr>) g = thread_ok c s g"
  by (simp_all add: thread_ok_def fresh_job_def)

lemma inv_replace:
  assumes inv: "soulseek_inv c R s (xs @ g # ys)" and gs: "takes_over c s (xs @ ys) g gs"
    and slots: "x = dc_slots s + int (tally holds_gate gs) - int (tally holds_gate [g])" "x \<le> max 0 (dc_limit s) + int R"
    and active: "\<And>k. a k = dc_active s k + int (tally (reads_key k) gs) - int (tally (reads_key k) [g])"
  shows "soulseek_inv c R (s\<lparr>dc_slots := x, dc_active := a\<rparr>) (xs @ gs @ ys)"
proof -
  have ex: "(\<exists>h \<in> set (xs @ gs @ ys). P h) \<or> P g \<and> \<not> list_ex P gs" if "\<exists>h \<in> set (xs @ g # ys). P h" for P
    using that by (auto simp: list_ex_iff)
  note gsD = takes_overD [OF gs]
  show ?thesis
  proof (rule sinvI, goal_cases)
    case 1
    then show ?case using sinvD(1) [OF inv] slots(1) by (simp add: held_def)
  next
    case (4 k n)
    then show ?case using sinvD(4) [OF inv] by simp
  next
    case (5 k n)
    then have jn: "dc_jobs s k = Some n" "fin s n" by simp_all
    then have "job_key s n = k" using sinvD(4) [OF inv] by blast
    then show ?case using ex [OF sinvD(5) [OF inv jn]] gsD(3) [of n] jn(1) by blast
  next
    case (6 k n)
    then have jn: "dc_jobs s k = Some n" "\<not> fin s n" by simp_all
    have "list_ex (ends_job n) (xs @ ys) \<Longrightarrow> \<exists>h \<in> set (xs @ gs @ ys). ends_job n h" by (auto simp: list_ex_iff)
    then show ?case using sinvD(6) [OF inv jn] ex [of "works n"] ex [of "ends_job n"] gsD(2,4) [of n] jn(2) by blast
  next
    case (7 n)
    then show ?case using sinvD(7) [OF inv, of n] gsD(1) [of n] by (simp split: if_splits)
  next
    case (8 n)
    then have "n < dc_next s" "jb_monitoring (dc_heap s n)" by simp_all
    then show ?case using ex [OF sinvD(8) [OF inv]] gsD(5) [of n] by blast
  next
    case (9 n)
    then have "n < dc_next s" "jb_cancelled (dc_heap s n)" by simp_all
    then have "fin s n \<or> (\<exists>g \<in> set (xs @ gs @ ys). ends_job n g)"
      using sinvD(9) [OF inv, of n] ex [of "ends_job n"] gsD(4) [of n] by blast
    then show ?case by simp
  next
    case (10 k)
    then show ?case using sinvD(10) [OF inv, of k] active [of k] by simp
  next
    case (11 h)
    then show ?case using sinvD(11) [OF inv, of h] gsD(8) [of h] by auto
  next
    case (12 ns h)
    have "\<exists>ns. Resuming ns \<in> set (xs @ g # ys)" using 12(1) gsD(7) by auto
    then have no: "\<not> client h" if "h \<in> set (xs @ g # ys)" for h using sinvD(12) [OF inv] that by blast
    then show ?case using gsD(6) [of h] 12(2) by auto
  qed (use slots(2) sinvD(3,13) [OF inv] in simp_all)
qed

text \<open>The common case: slots and readers stay.\<close>

lemma inv_step:
  assumes "soulseek_inv c R s (xs @ g # ys)" "takes_over c s (xs @ ys) g gs"
    "tally holds_gate gs = tally holds_gate [g]" "\<And>k. tally (reads_key k) gs = tally (reads_key k) [g]"
  shows "soulseek_inv c R s (xs @ gs @ ys)"
  using inv_replace [OF assms(1,2), of "dc_slots s" "dc_active s"] sinvD(2) [OF assms(1)] assms(3,4) by simp

text \<open>The only goroutine that works on a job.\<close>

lemma worker_unique:
  assumes "soulseek_inv c R s (xs @ g # ys)" "works n g" "h \<in> set (xs @ ys)"
  shows "\<not> works n h"
proof -
  have "tally (works n) xs + tally (works n) ys = 0" using sinvD(7) [OF assms(1), of n] assms(2) by simp
  then show ?thesis using assms(3) tally_zero [of "works n" "xs @ ys"] by (simp del: tally_zero)
qed

lemma worker_same:
  assumes inv: "soulseek_inv c R s ths" and "g \<in> set ths" "h \<in> set ths" "works n g" "works n h"
  shows "g = h"
proof (rule ccontr)
  assume "g \<noteq> h"
  obtain xs ys where ths: "ths = xs @ g # ys" using assms(2) by (auto dest: split_list)
  then have "h \<in> set (xs @ ys)" using assms(3) \<open>g \<noteq> h\<close> by auto
  with worker_unique [OF inv [unfolded ths] assms(4)] assms(5) show False by blast
qed

lemma monitors_works: "monitors n g \<Longrightarrow> works n g"
  by (induction n g rule: monitors.induct) auto

lemma early_works: "early n g \<Longrightarrow> works n g"
  by (cases g) auto

lemma works_less: "soulseek_inv c R s ths \<Longrightarrow> g \<in> set ths \<Longrightarrow> works n g \<Longrightarrow> n < dc_next s"
  using sinvD(11) [of c R s ths g] by (simp add: thread_ok_def)

section \<open>Changes of one job\<close>

lemma change_job_sel [simp]:
  "dc_heap (change_job n f s) m = (if m = n then f (dc_heap s n) else dc_heap s m)" "dc_next (change_job n f s) = dc_next s"
  "dc_jobs (change_job n f s) = dc_jobs s" "dc_active (change_job n f s) = dc_active s" "dc_limit (change_job n f s) = dc_limit s"
  "dc_slots (change_job n f s) = dc_slots s" "dc_records (change_job n f s) = dc_records s"
  by (simp_all add: change_job_def)

lemma change_job_view: "job_view (f (dc_heap s n)) = job_view (dc_heap s n) \<Longrightarrow> coord_view (change_job n f s) = coord_view s"
  by (auto simp: coord_view_def)

lemma with_td_view [simp]: "job_view (with_td f j) = job_view j"
  by (simp add: job_view_def with_td_def)

lemma thread_ok_update:
  assumes "thread_ok c s g" "jb_key (f (dc_heap s n)) = job_key s n" "fin s n \<Longrightarrow> jb_finished (f (dc_heap s n))"
    "early n g \<Longrightarrow> \<not> jb_slotHeld (f (dc_heap s n))" "\<And>ns. g = Resuming ns \<Longrightarrow> n \<in> set ns \<Longrightarrow> fresh_job (change_job n f s) n"
  shows "thread_ok c (change_job n f s) g"
  using assms by (auto simp: thread_ok_def fresh_job_def)

text \<open>\<open>beginMonitoring\<close> and \<open>endMonitoring\<close> once the goroutine is there or before it is gone.\<close>

lemma inv_monitoring:
  assumes inv: "soulseek_inv c R s ths" and b: "b \<Longrightarrow> \<exists>g \<in> set ths. monitors n g"
  shows "soulseek_inv c R (change_job n (\<lambda>j. j\<lparr>jb_monitoring := b\<rparr>) s) ths"
proof (rule sinvI, goal_cases)
  case 1
  have "held (change_job n (\<lambda>j. j\<lparr>jb_monitoring := b\<rparr>) s) = held s" by (auto simp: held_def split: if_splits)
  then show ?case using sinvD(1) [OF inv] by simp
next
  case (11 g)
  show ?case
  proof (rule thread_ok_update [OF sinvD(11) [OF inv 11]])
    fix ns assume g: "g = Resuming ns" "n \<in> set ns"
    then have "fresh_job s n" using sinvD(11) [OF inv 11] by (simp add: thread_ok_def)
    moreover have "\<not> b"
    proof
      assume b
      then obtain h where "h \<in> set ths" "monitors n h" using b by blast
      then have "h = g" using worker_same [OF inv _ 11, of h n] monitors_works g by simp
      then show False using \<open>monitors n h\<close> g by simp
    qed
    ultimately show "fresh_job (change_job n (\<lambda>j. j\<lparr>jb_monitoring := b\<rparr>) s) n" by (simp add: fresh_job_def)
  qed (use sinvD(11) [OF inv 11] in \<open>auto simp: thread_ok_def\<close>)
next
  case (8 m)
  then show ?case using sinvD(8) [OF inv, of m] b by (cases "m = n") auto
next
  case (9 m)
  then show ?case using sinvD(9) [OF inv, of m] by (auto split: if_splits)
qed (use sinvD [OF inv] in \<open>auto split: if_splits\<close>)

lemma inv_cancelling:
  assumes inv: "soulseek_inv c R s ths" and e: "\<exists>g \<in> set ths. ends_job n g"
  shows "soulseek_inv c R (change_job n (\<lambda>j. j\<lparr>jb_cancelled := b j\<rparr>) s) ths"
proof (rule sinvI, goal_cases)
  case 1
  have "held (change_job n (\<lambda>j. j\<lparr>jb_cancelled := b j\<rparr>) s) = held s" by (auto simp: held_def split: if_splits)
  then show ?case using sinvD(1) [OF inv] by simp
next
  case (11 g)
  obtain h where "h \<in> set ths" "ends_job n h" using e by blast
  moreover have "ends_job n h \<Longrightarrow> client h" by (cases h) auto
  ultimately have "\<And>ns. g \<noteq> Resuming ns" using sinvD(12) [OF inv, of _ h] 11 by blast
  then show ?case
    by (intro thread_ok_update [OF sinvD(11) [OF inv 11]]) (use sinvD(11) [OF inv 11] in \<open>auto simp: thread_ok_def\<close>)
next
  case (9 m)
  then show ?case using sinvD(9) [OF inv, of m] e by (auto split: if_splits)
qed (use sinvD [OF inv] in \<open>auto split: if_splits\<close>)

lemma removeJob_sel [simp]:
  "dc_heap (removeJob n s) = dc_heap s" "dc_next (removeJob n s) = dc_next s" "dc_active (removeJob n s) = dc_active s"
  "dc_limit (removeJob n s) = dc_limit s" "dc_slots (removeJob n s) = dc_slots s" "dc_records (removeJob n s) = dc_records s"
  by (simp_all add: removeJob_def)

lemma removeJob_jobs: "dc_jobs (removeJob n s) k = Some m \<longleftrightarrow> dc_jobs s k = Some m \<and> \<not> (k = job_key s n \<and> m = n)"
  by (auto simp: removeJob_def)

lemma inv_removed:
  assumes inv: "soulseek_inv c R s ths" and f: "fin s n"
  shows "soulseek_inv c R (removeJob n s) ths \<and> dc_jobs (removeJob n s) (job_key s n) \<noteq> Some n"
proof
  show "soulseek_inv c R (removeJob n s) ths"
  proof (rule sinvI, goal_cases)
    case 1
    then show ?case using sinvD(1) [OF inv] by (simp add: held_def)
  next
    case (3 m)
    then show ?case using sinvD(3) [OF inv, of m] f by (auto simp: removeJob_jobs)
  next
    case (11 g)
    then show ?case using sinvD(11) [OF inv 11] f unfolding thread_ok_def fresh_job_def by (auto simp: removeJob_jobs)
  next
    case (6 k m)
    then have "dc_jobs s k = Some m" "\<not> fin s m" by (simp_all add: removeJob_jobs)
    then show ?case by (rule sinvD(6) [OF inv])
  qed (use sinvD(2,4,5,7-10,12,13) [OF inv] in \<open>auto simp: removeJob_jobs\<close>)
  show "dc_jobs (removeJob n s) (job_key s n) \<noteq> Some n" by (simp add: removeJob_jobs)
qed

lemma inv_closing:
  assumes inv: "soulseek_inv c R s ths"
  shows "soulseek_inv True R s ths"
proof (rule sinvI, goal_cases)
  case (11 g)
  then show ?case using sinvD(11) [OF inv 11] by (auto simp: thread_ok_def)
qed (use sinvD [OF inv] in auto)

section \<open>Steps that change the duties\<close>

text \<open>A goroutine that does nothing but work on one job.\<close>

definition plain_work :: "nat \<Rightarrow> sthread \<Rightarrow> bool" where
  "plain_work n g \<longleftrightarrow> (\<forall>m. works m g = (m = n)) \<and> \<not> holds_gate g \<and> (\<forall>m. \<not> removes m g) \<and> (\<forall>m. \<not> ends_job m g) \<and> \<not> client g
     \<and> (\<forall>k. \<not> reads_key k g) \<and> proper g \<and> (\<forall>m. g \<noteq> Leaving m) \<and> (\<forall>ns. g \<noteq> Resuming ns)"

lemma plain_work_simps [simp]:
  "plain_work n (Creating n)" "plain_work n (Acquiring n)" "plain_work n (Noting m (Posting n p k)) = (p \<noteq> Client)"
  "plain_work n (Noting m (Backoff n p k)) = (p \<noteq> Client)"
  "plain_work n (Posting n p k) = (p \<noteq> Client)" "plain_work n (Posted n p k) = (p \<noteq> Client)" "plain_work n (Backoff n p k) = (p \<noteq> Client)"
  "plain_work n (Enqueued n)" "plain_work n (Watching n k)" "plain_work n (Polling n k)" "plain_work n (Saving n t)"
  "plain_work n (Judging n t)" "plain_work n (Fetching n)" "plain_work n (Rearming n)"
  "plain_work n (Finishing n st e p) = (p \<noteq> Client)"
  by (auto simp: plain_work_def)

lemma plain_workD:
  assumes "plain_work n g"
  shows "works m g = (m = n)" "\<not> holds_gate g" "\<not> removes m g" "\<not> ends_job m g" "\<not> client g" "\<not> reads_key k g" "proper g" "g \<noteq> Leaving m"
    "g \<noteq> Resuming ns" "monitors m g \<Longrightarrow> m = n" "early m g \<Longrightarrow> m = n" "aims m g \<Longrightarrow> m = n"
proof -
  note d = assms [unfolded plain_work_def]
  show w: "works m g = (m = n)" for m using d by blast
  show "\<not> holds_gate g" "\<not> removes m g" "\<not> ends_job m g" "\<not> client g" "\<not> reads_key k g" "proper g" "g \<noteq> Leaving m" "g \<noteq> Resuming ns"
    using d by blast+
  show "monitors m g \<Longrightarrow> m = n" using monitors_works w by blast
  show "early m g \<Longrightarrow> m = n" using early_works w by blast
  show "aims m g \<Longrightarrow> m = n" using w [of m] d by (cases g) auto
qed

lemma plain_thread_ok:
  assumes "thread_ok c s g" "works n g" "plain_work n g'" "early n g' \<Longrightarrow> \<not> slot s n"
  shows "thread_ok c s g'"
proof -
  have "n < dc_next s \<and> (fin s n \<or> dc_jobs s (job_key s n) = Some n)" using assms(1,2) by (simp add: thread_ok_def)
  then show ?thesis unfolding thread_ok_def
    using assms(4) by (auto simp: plain_workD(1-9) [OF assms(3)] dest: plain_workD(11,12) [OF assms(3)])
qed

text \<open>From one point of the work to another.\<close>

lemma inv_work:
  assumes inv: "soulseek_inv c R s (xs @ g # ys)" and g: "plain_work n g" and g': "plain_work n g'" and "monitors n g \<Longrightarrow> monitors n g'"
    "early n g' \<Longrightarrow> early n g"
  shows "soulseek_inv c R s (xs @ [g'] @ ys)"
proof (rule inv_step [OF inv])
  have ok: "thread_ok c s g" using sinvD(11) [OF inv] by simp
  have "early n g' \<Longrightarrow> \<not> slot s n" using ok assms(5) by (simp add: thread_ok_def)
  then have "thread_ok c s g'" using plain_thread_ok [OF ok _ g'] plain_workD(1) [OF g] by simp
  then show "takes_over c s (xs @ ys) g [g']"
    unfolding takes_over_def using assms(4)
    by (auto simp: plain_workD(1-9) [OF g] plain_workD(1-9) [OF g'] dest: plain_workD(10) [OF g])
qed (simp_all add: plain_workD(1-9) [OF g] plain_workD(1-9) [OF g'])

lemma finite_held [simp]: "finite (held s)"
  by (simp add: held_def)

text \<open>A goroutine that waited for a slot hands it to its job.\<close>

lemma inv_hold:
  assumes inv: "soulseek_inv c R s (xs @ Acquired n # ys)" and "\<not> fin s n"
    and f: "job_view (f (dc_heap s n)) = job_view (dc_heap s n\<lparr>jb_slotHeld := True\<rparr>)"
    and g': "plain_work n g'" "\<not> early n g'"
  shows "soulseek_inv c R (change_job n f s) (xs @ [g'] @ ys)"
proof -
  let ?s = "change_job n f s"
  have ok: "thread_ok c s (Acquired n)" using sinvD(11) [OF inv] by simp
  then have n: "n < dc_next s" "\<not> slot s n" "dc_jobs s (job_key s n) = Some n" using assms(2) by (auto simp: thread_ok_def)
  have v: "jb_key (f (dc_heap s n)) = job_key s n" "\<not> jb_finished (f (dc_heap s n))" "jb_slotHeld (f (dc_heap s n))"
    "jb_monitoring (f (dc_heap s n)) = jb_monitoring (dc_heap s n)" "jb_cancelled (f (dc_heap s n)) = jb_cancelled (dc_heap s n)"
    using f assms(2) by (simp_all add: job_view_def)
  have "held ?s = insert n (held s)" "n \<notin> held s" using n v by (auto simp: held_def)
  then have card: "card (held ?s) = card (held s) + 1" by simp
  note gD = plain_workD [OF g'(1)]
  show ?thesis
  proof (rule sinvI, goal_cases)
    case 1
    then show ?case using sinvD(1) [OF inv] card gD(2) by simp
  next
    case 2
    then show ?case using sinvD(2) [OF inv] by simp
  next
    case (3 m)
    then show ?case using sinvD(3) [OF inv, of m] v n(3) by (simp split: if_splits)
  next
    case (4 k m)
    then show ?case using sinvD(4) [OF inv, of k m] v(1) by auto
  next
    case (5 k m)
    then have jm: "dc_jobs s k = Some m" "fin s m" using v by (simp_all split: if_splits)
    then show ?case using sinvD(5) [OF inv jm] by auto
  next
    case (6 k m)
    then have jm: "dc_jobs s k = Some m" "\<not> fin s m" using v assms(2) by (simp_all split: if_splits)
    then show ?case using sinvD(6) [OF inv jm] gD(1) by auto
  next
    case (7 m)
    then show ?case using sinvD(7) [OF inv, of m] gD(1) by simp
  next
    case (8 m)
    then have jm: "m < dc_next s" "jb_monitoring (dc_heap s m)" using v by (simp_all split: if_splits)
    then show ?case using sinvD(8) [OF inv jm] by auto
  next
    case (9 m)
    then have jm: "m < dc_next s" "jb_cancelled (dc_heap s m)" using v by (simp_all split: if_splits)
    then show ?case using sinvD(9) [OF inv jm] v assms(2) by auto
  next
    case (10 k)
    then show ?case using sinvD(10) [OF inv, of k] gD(6) by simp
  next
    case (11 h)
    show ?case
    proof (cases "h = g'")
      case True
      have "thread_ok c s g'" using plain_thread_ok [OF ok _ g'(1)] g'(2) by simp
      then show ?thesis unfolding True using v assms(2) g'(2) gD(9) by (intro thread_ok_update) auto
    next
      case False
      then have h: "h \<in> set (xs @ ys)" using 11 by auto
      then have nw: "\<not> works n h" using worker_unique [OF inv, of n h] by simp
      moreover have "thread_ok c s h" using sinvD(11) [OF inv, of h] h by auto
      moreover have "\<not> early n h" using nw early_works by blast
      ultimately show ?thesis using v assms(2) by (intro thread_ok_update) auto
    qed
  next
    case (12 ns h)
    then show ?case using sinvD(12) [OF inv, of ns] gD(5,9) by auto
  next
    case (13 i m)
    then show ?case using sinvD(13) [OF inv, of i m] by simp
  qed
qed

text \<open>\<open>finishJob\<close>, its section under the lock of the job.\<close>

lemma inv_finish:
  assumes inv: "soulseek_inv c R s (xs @ Finishing n st e p # ys)" and nf: "\<not> fin s n"
    and v: "jb_key (f (dc_heap s n)) = job_key s n" "jb_finished (f (dc_heap s n))" "\<not> jb_slotHeld (f (dc_heap s n))"
      "jb_monitoring (f (dc_heap s n)) = jb_monitoring (dc_heap s n)"
  shows "soulseek_inv c R (change_job n f s) (xs @ [Releasing n (slot s n) p] @ ys)"
proof -
  let ?s = "change_job n f s"
  have ok: "thread_ok c s (Finishing n st e p)" using sinvD(11) [OF inv] by simp
  then have n: "n < dc_next s" by (simp add: thread_ok_def)
  have held: "held ?s = held s - {n}" using v(3) by (auto simp: held_def split: if_splits)
  have card: "card (held s) = card (held ?s) + (if slot s n then 1 else 0)"
  proof (cases "slot s n")
    case True
    then have "n \<in> held s" using n by (simp add: held_def)
    then show ?thesis using True card_Suc_Diff1 [of "held s" n] by (simp add: held)
  next
    case False
    then have "n \<notin> held s" by (simp add: held_def)
    then show ?thesis using False by (simp add: held)
  qed
  have res: "False" if "Resuming ns \<in> set (xs @ ys)" "n \<in> set ns" for ns
  proof (cases "p = Client")
    case True
    then show ?thesis using sinvD(12) [OF inv, of ns "Finishing n st e p"] that(1) by auto
  next
    case False
    then show ?thesis using worker_unique [OF inv, of n "Resuming ns"] that by simp
  qed
  show ?thesis
  proof (rule sinvI, goal_cases)
    case 1
    then show ?case using sinvD(1) [OF inv] card by simp
  next
    case 2
    then show ?case using sinvD(2) [OF inv] by simp
  next
    case (3 m)
    then show ?case using sinvD(3) [OF inv, of m] v by (simp split: if_splits)
  next
    case (4 k m)
    then show ?case using sinvD(4) [OF inv, of k m] v(1) by auto
  next
    case (5 k m)
    then have "m = n \<or> dc_jobs s k = Some m \<and> fin s m" by (simp split: if_splits)
    then show ?case using sinvD(5) [OF inv, of k m] by auto
  next
    case (6 k m)
    then have jm: "dc_jobs s k = Some m" "\<not> fin s m" "m \<noteq> n" using v(2) by (simp_all split: if_splits)
    then show ?case using sinvD(6) [OF inv jm(1,2)] by auto
  next
    case (7 m)
    then show ?case using sinvD(7) [OF inv, of m] by simp
  next
    case (8 m)
    then have jm: "m < dc_next s" "jb_monitoring (dc_heap s m)" using v(4) by (simp_all split: if_splits)
    then show ?case using sinvD(8) [OF inv jm] by auto
  next
    case (9 m)
    then have "m = n \<or> m \<noteq> n \<and> m < dc_next s \<and> jb_cancelled (dc_heap s m)" by (simp split: if_splits)
    then show ?case using sinvD(9) [OF inv, of m] v(2) by auto
  next
    case (10 k)
    then show ?case using sinvD(10) [OF inv, of k] by simp
  next
    case (11 h)
    show ?case
    proof (cases "h \<in> set (xs @ ys)")
      case True
      have "thread_ok c s h" using sinvD(11) [OF inv, of h] True by auto
      then show ?thesis using v res True by (intro thread_ok_update) auto
    next
      case False
      then have "h = Releasing n (slot s n) p" using 11 by auto
      then show ?thesis using v n by (simp add: thread_ok_def)
    qed
  next
    case (12 ns h)
    then have "Resuming ns \<in> set (xs @ Finishing n st e p # ys)" by auto
    then have "p \<noteq> Client" "\<And>h. h \<in> set (xs @ ys) \<Longrightarrow> \<not> client h" using sinvD(12) [OF inv] by (metis client.simps(1) in_set_conv_decomp, auto)
    then show ?case using 12(2) by auto
  next
    case (13 i m)
    then show ?case using sinvD(13) [OF inv, of i m] by simp
  qed
qed

text \<open>A new job with the goroutine that creates it, and a record of a file that is already there.\<close>

lemma add_job_sel [simp]:
  "dc_heap (add_job env job s) m = (if m = dc_next s then job else dc_heap s m)" "dc_next (add_job env job s) = dc_next s + 1"
  "dc_active (add_job env job s) = dc_active s" "dc_limit (add_job env job s) = dc_limit s" "dc_slots (add_job env job s) = dc_slots s"
  "dc_jobs (add_job env job s) = (if jb_finished job then dc_jobs s else (dc_jobs s)(jb_key job \<mapsto> dc_next s))"
  "dc_records (add_job env job s) = (dc_records s)(td_ID (jb_download job) \<mapsto> dc_next s)"
  by (simp_all add: add_job_def)

lemma held_add_job: "\<not> jb_slotHeld job \<Longrightarrow> held (add_job env job s) = held s"
  by (auto simp: held_def)

lemma thread_ok_add_job:
  assumes "thread_ok c s g" "jb_finished job \<or> dc_jobs s (jb_key job) = None"
  shows "thread_ok c (add_job env job s) g"
proof -
  have w: "n < dc_next s" if "works n g \<or> early n g \<or> aims n g \<or> removes n g \<or> g = Leaving n" for n
    using that assms(1) early_works [of n g] by (cases g) (auto simp: thread_ok_def)
  have r: "fresh_job (add_job env job s) n = fresh_job s n" if "g = Resuming ns" "n \<in> set ns" for n ns
    using w [of n] that by (simp add: fresh_job_def)
  show ?thesis unfolding thread_ok_def
  proof (intro conjI allI impI, goal_cases)
    case (2 n)
    then show ?case using w [of n] by simp
  next
    case (3 n)
    then show ?case using w [of n] assms by (auto simp: thread_ok_def)
  next
    case (5 n)
    then show ?case using w [of n] by simp
  next
    case (9 ns)
    then show ?case using r [OF 9] assms(1) by (auto simp: thread_ok_def)
  qed (use assms(1) w in \<open>auto simp: thread_ok_def\<close>)
qed

lemma inv_new:
  assumes inv: "soulseek_inv c R s (xs @ ys)" and free: "dc_jobs s (jb_key job) = None"
    and j: "\<not> jb_finished job" "\<not> jb_slotHeld job" "\<not> jb_monitoring job" "\<not> jb_cancelled job"
  shows "soulseek_inv c R (add_job env job s) (xs @ [Creating (dc_next s)] @ ys)"
proof (rule sinvI, goal_cases)
  case 1
  then show ?case using sinvD(1) [OF inv] by (simp add: held_add_job j)
next
  case 2
  then show ?case using sinvD(2) [OF inv] by simp
next
  case (3 n)
  then show ?case using sinvD(3) [OF inv, of n] j free by (auto split: if_splits)
next
  case (4 k n)
  then show ?case using sinvD(4) [OF inv, of k n] j by (auto split: if_splits)
next
  case (5 k n)
  then have kn: "dc_jobs s k = Some n" "fin s n" using j sinvD(4) [OF inv, of k n] by (auto split: if_splits)
  show ?case using sinvD(5) [OF inv kn] by auto
next
  case (6 k n)
  then have kn: "n = dc_next s \<or> dc_jobs s k = Some n \<and> \<not> fin s n" using j by (auto split: if_splits)
  then show ?case using sinvD(6) [OF inv, of k n] by auto
next
  case (7 n)
  have "tally (works (dc_next s)) (xs @ ys) = 0"
    unfolding tally_zero using works_less [OF inv, of _ "dc_next s"] by blast
  then show ?case using sinvD(7) [OF inv, of n] by simp
next
  case (8 n)
  then have "n < dc_next s" "jb_monitoring (dc_heap s n)" using j by (auto split: if_splits)
  from sinvD(8) [OF inv this] show ?case by auto
next
  case (9 n)
  then have n: "n < dc_next s" "jb_cancelled (dc_heap s n)" using j by (auto split: if_splits)
  from sinvD(9) [OF inv this] n show ?case by auto
next
  case (10 k)
  then show ?case using sinvD(10) [OF inv, of k] by simp
next
  case (11 g)
  then consider "g \<in> set (xs @ ys)" | "g = Creating (dc_next s)" by auto
  then show ?case
  proof cases
    case 1
    then show ?thesis using sinvD(11) [OF inv 1] free by (intro thread_ok_add_job) auto
  qed (use j in \<open>simp add: thread_ok_def\<close>)
next
  case (12 ns g)
  then show ?case using sinvD(12) [OF inv, of ns] by auto
next
  case (13 i n)
  then show ?case using sinvD(13) [OF inv, of i n] by (auto split: if_splits)
qed

lemma inv_record:
  assumes inv: "soulseek_inv c R s ths" and j: "jb_finished job" "\<not> jb_slotHeld job" "\<not> jb_monitoring job"
  shows "soulseek_inv c R (add_job env job s) ths"
proof (rule sinvI, goal_cases)
  case 1
  then show ?case using sinvD(1) [OF inv] by (simp add: held_add_job j)
next
  case (3 n)
  then show ?case using sinvD(3) [OF inv, of n] j by (simp split: if_splits)
next
  case (4 k n)
  then show ?case using sinvD(4) [OF inv, of k n] j by (auto split: if_splits)
next
  case (5 k n)
  then have kn: "dc_jobs s k = Some n" "fin s n" using j sinvD(4) [OF inv, of k n] by (auto split: if_splits)
  show ?case using sinvD(5) [OF inv kn] by auto
next
  case (6 k n)
  then have kn: "dc_jobs s k = Some n" "\<not> fin s n" using j by (auto split: if_splits)
  show ?case by (rule sinvD(6) [OF inv kn])
next
  case (8 n)
  then have "n < dc_next s" "jb_monitoring (dc_heap s n)" using j by (auto split: if_splits)
  from sinvD(8) [OF inv this] show ?case .
next
  case (9 n)
  then show ?case using sinvD(9) [OF inv, of n] j by (auto split: if_splits)
next
  case (11 g)
  then show ?case using sinvD(11) [OF inv 11] j by (intro thread_ok_add_job) auto
next
  case (13 i n)
  then show ?case using sinvD(13) [OF inv, of i n] by (auto split: if_splits)
qed (use sinvD(2,7,10,12) [OF inv] in auto)

section \<open>Operations that do not touch the duties\<close>

lemma preserves_on_disk [preserving]: "preserves (same_view v) (on_disk act)"
  by (rule preservesI) (auto simp: on_disk_def coord_view_def split: prod.splits)

lemma preserves_change_job [preserving]:
  "(\<And>j. job_view (f j) = job_view j) \<Longrightarrow> preserves (same_view v) (modify (change_job n f))"
  by (rule preservesI) (auto simp: modify_def change_job_view)

lemma view_persistJob [preserving]: "preserves (same_view v) (persistJob env n)"
  unfolding persistJob_def Let_def by (intro preserving)

lemma persist_view: "persistJob env n s = (r, s') \<Longrightarrow> coord_view s' = coord_view s"
  using preservesD [OF view_persistJob [of "coord_view s"] refl] .

lemma disk_view: "on_disk act s = (r, s') \<Longrightarrow> coord_view s' = coord_view s"
  using preservesD [OF preserves_on_disk [of "coord_view s"] refl] .

lemma section_views:
  "coord_view (begin_enqueue n s) = coord_view s" "coord_view (retry_later now n s) = coord_view s" "coord_view (requeue now n s) = coord_view s"
  "coord_view (enqueued now ids n s) = coord_view s" "coord_view (markEnqueued n s) = coord_view s"
  unfolding begin_enqueue_def retry_later_def requeue_def enqueued_def markEnqueued_def
  by (intro change_job_view; simp add: job_view_def with_td_def)+

lemma updateTransfer_view: "updateTransfer uc now tr n s = (b, s') \<Longrightarrow> coord_view s' = coord_view s"
  by (auto simp: updateTransfer_def Let_def transferred_def job_view_def with_td_def intro!: change_job_view split: if_splits)

lemma prepareAutomaticRetry_view: "prepareAutomaticRetry limit now n s = (b, s') \<Longrightarrow> coord_view s' = coord_view s"
  by (auto simp: prepareAutomaticRetry_def job_view_def with_td_def intro!: change_job_view split: if_splits)

lemma view_snapshot [preserving]: "preserves (same_view v) (snapshot env now n)"
  unfolding snapshot_def Let_def by (intro preserving conjI impI) (auto intro!: preserving split: if_splits)

lemma view_list_jobs [preserving]: "preserves (same_view v) (list_jobs env now ns)"
  by (induction ns) (auto intro!: preserving split: prod.splits)

lemma view_soulseek_TrackDownloads: "preserves (same_view v) (soulseek_TrackDownloads env now ns)"
  unfolding soulseek_TrackDownloads_def by (intro preserving)

lemma view_markEvicted [preserving]: "preserves (same_view v) (markEvicted env now n)"
  unfolding markEvicted_def by (intro preserving) simp

lemma view_evict_loop [preserving]: "preserves (same_view v) (soulseek_evict_loop env now need ns freed)"
  by (induction env now need ns freed rule: soulseek_evict_loop.induct) (auto intro!: preserving simp: Let_def split: sum.splits)

lemma view_soulseek_Evict: "preserves (same_view v) (soulseek_Evict env checker now ns need)"
  unfolding soulseek_Evict_def by (auto intro!: preserving)

section \<open>Every step keeps the invariant\<close>

lemma inv_work_view:
  assumes "soulseek_inv c R s (xs @ g # ys)" "coord_view s' = coord_view s" "plain_work n g" "plain_work n g'"
    "monitors n g \<Longrightarrow> monitors n g'" "early n g' \<Longrightarrow> early n g"
  shows "soulseek_inv c R s' (xs @ [g'] @ ys)"
  using inv_work [OF assms(1,3-6)] sinv_view [OF assms(2)] by blast

text \<open>A goroutine ends, or goes on as one that has no duties.\<close>

lemma inv_end:
  assumes inv: "soulseek_inv c R s (xs @ g # ys)"
    and "\<And>n. works n g \<Longrightarrow> fin s n \<or> c \<or> list_ex (ends_job n) (xs @ ys)" "\<And>n. \<not> removes n g" "\<And>n. ends_job n g \<Longrightarrow> fin s n"
    "\<And>n. monitors n g \<Longrightarrow> \<not> jb_monitoring (dc_heap s n)" "\<not> holds_gate g" "\<And>k. \<not> reads_key k g"
  shows "soulseek_inv c R s (xs @ [] @ ys)"
  by (rule inv_step [OF inv]) (use assms(2-) in \<open>auto simp: takes_over_def\<close>)

lemma inv_acquire_ended:
  assumes inv: "soulseek_inv c R s (xs @ Acquiring n # ys)" and "c \<or> jb_cancelled (dc_heap s n)"
  shows "soulseek_inv c R s (xs @ [] @ ys)"
proof (rule inv_end [OF inv], goal_cases)
  case (1 m)
  then have m: "m = n" by simp
  show ?case
  proof (cases c)
    case False
    then have "jb_cancelled (dc_heap s n)" using assms(2) by simp
    then have "fin s n \<or> (\<exists>g \<in> set (xs @ Acquiring n # ys). ends_job n g)"
      using sinvD(9) [OF inv works_less [OF inv, of "Acquiring n"]] by simp
    then show ?thesis using m by (auto simp: list_ex_iff)
  qed simp
qed simp_all

lemma inv_acquire:
  assumes inv: "soulseek_inv c R s (xs @ Acquiring n # ys)" and "dc_slots s < dc_limit s"
  shows "soulseek_inv c R (gate_take s) (xs @ [Acquired n] @ ys)"
proof -
  have ok: "thread_ok c s (Acquiring n)" using sinvD(11) [OF inv] by simp
  have "soulseek_inv c R (s\<lparr>dc_slots := dc_slots s + 1, dc_active := dc_active s\<rparr>) (xs @ [Acquired n] @ ys)"
    by (rule inv_replace [OF inv]) (use assms(2) ok in \<open>auto simp: takes_over_def thread_ok_def\<close>)
  then show ?thesis by (simp add: gate_take_def)
qed

lemma gate_held_pos:
  assumes inv: "soulseek_inv c R s (xs @ g # ys)" and "holds_gate g"
  shows "gate_release s = s\<lparr>dc_slots := dc_slots s - 1\<rparr>"
  using sinvD(1) [OF inv] assms(2) by (simp add: gate_release_def)

lemma inv_acquired_late:
  assumes inv: "soulseek_inv c R s (xs @ Acquired n # ys)" and "fin s n"
  shows "soulseek_inv c R (gate_release s) (xs @ [] @ ys)"
proof -
  have "soulseek_inv c R (s\<lparr>dc_slots := dc_slots s - 1, dc_active := dc_active s\<rparr>) (xs @ [] @ ys)"
    by (rule inv_replace [OF inv]) (use assms(2) sinvD(2) [OF inv] in \<open>auto simp: takes_over_def\<close>)
  then show ?thesis using gate_held_pos [OF inv] by simp
qed

lemma inv_enqueued:
  assumes inv: "soulseek_inv c R s (xs @ Enqueued n # ys)" and run: "beginMonitoring n (markEnqueued n s) = (started, s')"
  shows "soulseek_inv c R s' (xs @ (if started then [Watching n 0] else []) @ ys)"
proof -
  let ?m = "markEnqueued n s"
  have inv': "soulseek_inv c R ?m (xs @ Enqueued n # ys)" using sinv_view section_views(5) inv by blast
  show ?thesis
  proof (cases started)
    case True
    then have s': "s' = change_job n (\<lambda>j. j\<lparr>jb_monitoring := True\<rparr>) ?m" using run by (simp add: beginMonitoring_def split: if_splits)
    have "soulseek_inv c R ?m (xs @ [Watching n 0] @ ys)" by (rule inv_work [OF inv', where n = n]) auto
    then show ?thesis using inv_monitoring [of c R ?m _ True n] True unfolding s' by simp
  next
    case False
    then have s': "s' = ?m" "fin ?m n \<or> jb_monitoring (dc_heap ?m n)" using run by (auto simp: beginMonitoring_def split: if_splits)
    have "fin ?m n"
    proof (rule ccontr)
      assume "\<not> fin ?m n"
      then obtain g where "g \<in> set (xs @ Enqueued n # ys)" "monitors n g"
        using s'(2) sinvD(8) [OF inv' works_less [OF inv', of "Enqueued n"]] by auto
      then show False using worker_unique [OF inv', of n g] monitors_works [of n g] by auto
    qed
    then show ?thesis unfolding s' using False inv_end [OF inv'] by auto
  qed
qed

lemma inv_skip_finish:
  assumes inv: "soulseek_inv c R s (xs @ Finishing n st e p # ys)" and "fin s n"
  shows "soulseek_inv c R s (xs @ after_finish n p @ ys)"
proof (rule inv_step [OF inv])
  have "n < dc_next s" using sinvD(11) [OF inv, of "Finishing n st e p"] by (simp add: thread_ok_def)
  then show "takes_over c s (xs @ ys) (Finishing n st e p) (after_finish n p)"
    using assms(2) by (cases p) (auto simp: takes_over_def thread_ok_def)
qed (cases p; simp)+

lemma inv_release:
  assumes inv: "soulseek_inv c R s (xs @ Releasing n b p # ys)"
  shows "soulseek_inv c R (finish_release b n s) (xs @ [Removing n p] @ ys)"
proof -
  have ok: "thread_ok c s (Releasing n b p)" using sinvD(11) [OF inv] by simp
  have "soulseek_inv c R (s\<lparr>dc_slots := dc_slots s - (if b then 1 else 0), dc_active := dc_active s\<rparr>) (xs @ [Removing n p] @ ys)"
    by (rule inv_replace [OF inv]) (use ok sinvD(2) [OF inv] in \<open>auto simp: takes_over_def thread_ok_def\<close>)
  then have "soulseek_inv c R (if b then gate_release s else s) (xs @ [Removing n p] @ ys)"
    using gate_held_pos [OF inv] by (cases b) simp_all
  then show ?thesis unfolding finish_release_def using sinv_view section_views(5) by blast
qed

lemma inv_remove:
  assumes inv: "soulseek_inv c R s (xs @ Removing n p # ys)"
  shows "soulseek_inv c R (finish_remove env n s) (xs @ after_finish n p @ ys)"
proof -
  obtain r s1 where run: "persistJob env n s = (r, s1)" by fastforce
  have inv1: "soulseek_inv c R s1 (xs @ Removing n p # ys)" using sinv_view [OF persist_view [OF run]] inv by blast
  have ok: "thread_ok c s1 (Removing n p)" using sinvD(11) [OF inv1] by simp
  then have f: "fin s1 n" "n < dc_next s1" by (simp_all add: thread_ok_def)
  note inv2 = inv_removed [OF inv1 f(1)]
  have "soulseek_inv c R (removeJob n s1) (xs @ after_finish n p @ ys)"
  proof (rule inv_step [OF conjunct1 [OF inv2]])
    show "takes_over c (removeJob n s1) (xs @ ys) (Removing n p) (after_finish n p)"
      using f inv2 by (cases p) (auto simp: takes_over_def thread_ok_def)
  qed (cases p; simp)+
  then show ?thesis by (simp add: finish_remove_def run)
qed

lemma inv_leave:
  assumes inv: "soulseek_inv c R s (xs @ Leaving n # ys)"
  shows "soulseek_inv c R (endMonitoring n s) (xs @ [] @ ys)"
proof -
  have inv1: "soulseek_inv c R (endMonitoring n s) (xs @ Leaving n # ys)"
    unfolding endMonitoring_def by (rule inv_monitoring [OF inv]) simp
  have "thread_ok c (endMonitoring n s) (Leaving n)" using sinvD(11) [OF inv1] by simp
  then show ?thesis by (intro inv_end [OF inv1]) (auto simp: thread_ok_def endMonitoring_def)
qed

lemma inv_end_read:
  assumes inv: "soulseek_inv c R s (xs @ g # ys)" and g: "g = Awaiting key n \<or> g = Reading key"
  shows "soulseek_inv c R (endRead key s) (xs @ [] @ ys)"
proof -
  have a: "dc_active s key \<ge> 1" using sinvD(10) [OF inv, of key] g by auto
  have "soulseek_inv c R (s\<lparr>dc_slots := dc_slots s, dc_active := (dc_active s)(key := dc_active s key - 1)\<rparr>) (xs @ [] @ ys)"
    by (rule inv_replace [OF inv]) (use g sinvD(2) [OF inv] in \<open>auto simp: takes_over_def\<close>)
  moreover have "(if dc_active s key \<le> 1 then 0 else dc_active s key - 1) = dc_active s key - 1" using a by simp
  ultimately show ?thesis by (simp add: endRead_def)
qed

lemma inv_begin_read:
  assumes inv: "soulseek_inv c R s ths" and g: "g = Resolving key t r \<or> g = Reading key"
  shows "soulseek_inv c R (beginRead key s) (ths @ [g])"
proof (rule sinvI, goal_cases)
  case 1
  then show ?case using sinvD(1) [OF inv] g by (auto simp: held_def beginRead_def)
next
  case (7 n)
  then show ?case using sinvD(7) [OF inv, of n] g by auto
next
  case (10 k)
  then show ?case using sinvD(10) [OF inv, of k] g by (auto simp: beginRead_def)
next
  case (11 h)
  then show ?case using sinvD(11) [OF inv, of h] g by (auto simp: thread_ok_def fresh_job_def beginRead_def)
next
  case (12 ns h)
  then show ?case using sinvD(12) [OF inv, of ns h] g by auto
next
  case (6 k n)
  then have "dc_jobs s k = Some n" "\<not> fin s n" by (simp_all add: beginRead_def)
  from sinvD(6) [OF inv this] show ?case by auto
next
  case (9 n)
  then have "n < dc_next s" "jb_cancelled (dc_heap s n)" by (simp_all add: beginRead_def)
  from sinvD(9) [OF inv this] show ?case by (auto simp: beginRead_def)
qed (use sinvD(2,3,4,5,8,13) [OF inv] in \<open>auto simp: beginRead_def\<close>)

lemma inv_noted:
  assumes inv: "soulseek_inv c R s (xs @ Noting n g # ys)" and run: "persistJob env n s = (r, s')"
  shows "soulseek_inv c R s' (xs @ [g] @ ys)"
proof -
  have "proper (Noting n g)" using sinvD(11) [OF inv, of "Noting n g"] by (simp add: thread_ok_def)
  then consider m p k where "g = Posting m p k" "p \<noteq> Client" | m p k where "g = Backoff m p k" "p \<noteq> Client"
    by (cases g) auto
  then show ?thesis
  proof cases
    case (1 m p k)
    show ?thesis by (rule inv_work_view [OF inv persist_view [OF run], where n = m]) (use 1 in auto)
  next
    case (2 m p k)
    show ?thesis by (rule inv_work_view [OF inv persist_view [OF run], where n = m]) (use 2 in auto)
  qed
qed

lemma inv_open_new:
  assumes inv: "soulseek_inv c R s (xs @ Resolving key t r # ys)" and free: "dc_jobs s key = None"
  shows "soulseek_inv c R (add_job env (new_job env s now key t name r) s) (xs @ [Awaiting key n, Creating (dc_next s)] @ ys)"
proof -
  have "soulseek_inv c R s (xs @ [Awaiting key n] @ ys)"
    by (rule inv_step [OF inv]) (auto simp: takes_over_def thread_ok_def)
  then have i: "soulseek_inv c R s ((xs @ [Awaiting key n]) @ ys)" by simp
  have "soulseek_inv c R (add_job env (new_job env s now key t name r) s) ((xs @ [Awaiting key n]) @ [Creating (dc_next s)] @ ys)"
    by (rule inv_new [OF i]) (use free in \<open>simp_all add: new_job_def zero_job_def\<close>)
  then show ?thesis by simp
qed

text \<open>\<open>resume\<close> starts the goroutine of a job.\<close>

lemma inv_resume:
  assumes inv: "soulseek_inv c R s (xs @ Resuming (n # ns) # ys)" and g: "plain_work n g"
  shows "soulseek_inv c R s (xs @ [Resuming ns, g] @ ys)"
proof (rule inv_step [OF inv])
  have ok: "thread_ok c s (Resuming (n # ns))" using sinvD(11) [OF inv] by simp
  then have n: "n \<notin> set ns" "fresh_job s n" by (auto simp: thread_ok_def)
  have okg: "thread_ok c s g" using plain_thread_ok [OF ok _ g] n(2) by (simp add: fresh_job_def)
  have okr: "thread_ok c s (Resuming ns)" using ok by (auto simp: thread_ok_def)
  show "takes_over c s (xs @ ys) (Resuming (n # ns)) [Resuming ns, g]"
    unfolding takes_over_def using n(1) okg okr by (auto simp: plain_workD(1-9) [OF g])
qed (simp_all add: plain_workD(1-9) [OF g])

lemma inv_resume_active:
  assumes inv: "soulseek_inv c R s (xs @ Resuming (n # ns) # ys)" and run: "resume_monitor n s = (started, s')"
  shows "soulseek_inv c (R + 1) s' (xs @ (Resuming ns # (if started then [Watching n 0] else [])) @ ys)"
proof -
  have ok: "thread_ok c s (Resuming (n # ns))" using sinvD(11) [OF inv] by simp
  then have n: "n \<notin> set ns" "fresh_job s n" "n < dc_next s" "dc_jobs s (job_key s n) = Some n"
    by (auto simp: thread_ok_def fresh_job_def)
  have R: "soulseek_inv c (R + 1) s (xs @ Resuming (n # ns) # ys)"
    by (rule sinvI) (use sinvD [OF inv] in auto)
  have "soulseek_inv c (R + 1) (s\<lparr>dc_slots := dc_slots s + 1, dc_active := dc_active s\<rparr>) (xs @ [Resuming ns, Acquired n] @ ys)"
    by (rule inv_replace [OF R]) (use ok n sinvD(2) [OF inv] in \<open>auto simp: takes_over_def thread_ok_def fresh_job_def\<close>)
  then have 1: "soulseek_inv c (R + 1) (gate_take s) ((xs @ [Resuming ns]) @ Acquired n # ys)" by (simp add: gate_take_def)
  let ?h = "change_job n (\<lambda>j. j\<lparr>jb_slotHeld := True\<rparr>) (gate_take s)"
  have 2: "soulseek_inv c (R + 1) ?h ((xs @ [Resuming ns]) @ [Watching n 0] @ ys)"
    by (rule inv_hold [OF 1]) (use n(2) in \<open>simp_all add: gate_take_def fresh_job_def job_view_def\<close>)
  have s': "started" "s' = change_job n (\<lambda>j. j\<lparr>jb_monitoring := True\<rparr>) ?h"
    using run n(2) by (auto simp: resume_monitor_def beginMonitoring_def gate_take_def fresh_job_def split: if_splits)
  show ?thesis using inv_monitoring [OF 2, of True n] s' by simp
qed

text \<open>One step of a goroutine.\<close>

lemmas work_views = persist_view disk_view updateTransfer_view prepareAutomaticRetry_view

fun job_of :: "sthread \<Rightarrow> nat" where
  "job_of (Creating n) = n"
| "job_of (Noting m g) = job_of g"
| "job_of (Posting n p k) = n"
| "job_of (Posted n p k) = n"
| "job_of (Backoff n p k) = n"
| "job_of (Polling n k) = n"
| "job_of (Watching n k) = n"
| "job_of (Saving n t) = n"
| "job_of (Judging n t) = n"
| "job_of (Fetching n) = n"
| "job_of (Rearming n) = n"
| "job_of _ = 0"

lemma inv_go:
  assumes "soulseek_inv c R s (xs @ g # ys)" "coord_view s' = coord_view s" "gs = [hd gs]"
    "plain_work (job_of g) g" "plain_work (job_of g) (hd gs)" "monitors (job_of g) g \<Longrightarrow> monitors (job_of g) (hd gs)"
    "early (job_of g) (hd gs) \<Longrightarrow> early (job_of g) g"
  shows "soulseek_inv c R s' (xs @ gs @ ys)"
  using inv_work_view [OF assms(1,2,4-7)] assms(3) by simp

lemma sthread_step_inv:
  assumes "sthread_step env attempts c s g s' gs" "soulseek_inv c R s (xs @ g # ys)"
  shows "soulseek_inv c R s' (xs @ gs @ ys)"
proof -
  have pr: "proper g" using sinvD(11) [OF assms(2), of g] by (simp add: thread_ok_def)
  from assms(1) show ?thesis
  proof (cases rule: sthread_step.cases)
    case (acquire n)
    then show ?thesis using inv_acquire assms(2) by simp
  next
    case (acquire_ended n)
    then show ?thesis using inv_acquire_ended assms(2) by simp
  next
    case (acquired n now)
    then show ?thesis using inv_hold [of c R s xs n ys] assms(2) unfolding hold_slot_def
      by (simp add: job_view_def with_td_def)
  next
    case (acquired_late n)
    then show ?thesis using inv_acquired_late assms(2) by simp
  next
    case (noted n r g1)
    then show ?thesis using inv_noted assms(2) by simp
  next
    case (monitor n started)
    then show ?thesis using inv_enqueued assms(2) by simp
  next
    case (finished n st e p)
    then show ?thesis using inv_skip_finish assms(2) by simp
  next
    case (finish n st e now b p)
    have inv: "soulseek_inv c R s (xs @ Finishing n st e p # ys)" using assms(2) finish(1) by simp
    have "s' = snd (finish_mark st e now n s)" "b = slot s n" using finish(4) by (auto simp: finish_mark_def)
    then show ?thesis unfolding finish(2) finish_mark_def snd_conv
      by (simp only:) (rule inv_finish [OF inv finish(3)], simp_all add: with_td_def)
  next
    case (release n b p)
    then show ?thesis using inv_release assms(2) by simp
  next
    case (remove n p)
    then show ?thesis using inv_remove assms(2) by simp
  next
    case (leave n)
    then show ?thesis using inv_leave assms(2) by simp
  next
    case (open_new key trackID remote now)
    then show ?thesis using inv_open_new assms(2) by simp
  next
    case (await_failed key n)
    then show ?thesis using inv_end_read assms(2) by simp
  next
    case (close_reader key)
    then show ?thesis using inv_end_read assms(2) by simp
  next
    case (resume_waiting n ns)
    have "soulseek_inv c R s (xs @ gs @ ys)"
      unfolding resume_waiting(3) by (rule inv_resume) (use assms(2) resume_waiting in simp, rule plain_work_simps)
    then show ?thesis unfolding resume_waiting(2) sinv_view [OF section_views(1)] .
  next
    case (resume_broken n ns)
    show ?thesis unfolding resume_broken(3) by (rule inv_resume) (use assms(2) resume_broken in simp, simp)
  next
    case resume_done
    have "soulseek_inv c R s (xs @ [] @ ys)" by (rule inv_end [OF assms(2)]) (use resume_done in simp_all)
    then show ?thesis using resume_done by simp
  next
    case (resume_stopped ns)
    have "soulseek_inv c R s (xs @ [] @ ys)" by (rule inv_end [OF assms(2)]) (use resume_stopped in simp_all)
    then show ?thesis using resume_stopped by simp
  next
    case (watch_over n k)
    then show ?thesis using sinvD(11) [OF assms(2), of g] inv_step [OF assms(2), of gs] by (simp add: takes_over_def thread_ok_def)
  next
    case (posted n p k)
    then show ?thesis using pr by (intro inv_go [OF assms(2)]) (cases p; auto dest: work_views)+
  next
    case (poll_error answer e k n stop)
    show ?thesis
    proof (cases "c \<and> stop")
      case True
      then show ?thesis using poll_error sinvD(11) [OF assms(2), of g] inv_step [OF assms(2), of gs] by (simp add: takes_over_def thread_ok_def)
    next
      case False
      then show ?thesis by (intro inv_go [OF assms(2)]) (use poll_error in auto)
    qed
  next
    case (judge_open transfer n stop)
    show ?thesis
    proof (cases "c \<and> stop")
      case True
      then show ?thesis using judge_open sinvD(11) [OF assms(2), of g] inv_step [OF assms(2), of gs] by (simp add: takes_over_def thread_ok_def)
    next
      case False
      then show ?thesis by (intro inv_go [OF assms(2)]) (use judge_open in auto)
    qed
  next
    case (cancelled answer n)
    then show ?thesis using sinvD(11) [OF assms(2), of g] inv_step [OF assms(2), of gs] by (simp add: takes_over_def thread_ok_def)
  next
    case (not_cancelled answer e n)
    have "soulseek_inv c R s (xs @ [] @ ys)" by (rule inv_end [OF assms(2)]) (use not_cancelled in simp_all)
    then show ?thesis using not_cancelled by simp
  next
    case (join key n trackID remote)
    then show ?thesis using inv_step [OF assms(2), of gs] by (simp add: takes_over_def thread_ok_def)
  next
    case (await n key)
    then show ?thesis using inv_step [OF assms(2), of gs] by (simp add: takes_over_def thread_ok_def)
  qed (rule inv_go [OF assms(2)]; use pr in \<open>auto dest: work_views simp: section_views split: if_splits\<close>)+
qed

section \<open>Requests\<close>

text \<open>A request to cancel a job joins the goroutines.\<close>

lemma inv_append:
  assumes inv: "soulseek_inv c R s ths" and g: "\<And>n. \<not> works n g" "\<not> holds_gate g" "\<And>k. \<not> reads_key k g" "\<And>ns. g \<noteq> Resuming ns" "thread_ok c s g"
    and "\<And>ns. Resuming ns \<notin> set ths"
  shows "soulseek_inv c R s (ths @ [g])"
proof (rule sinvI, goal_cases)
  case (6 k n)
  then show ?case using sinvD(6) [OF inv 6] by auto
next
  case (9 n)
  then show ?case using sinvD(9) [OF inv 9] by auto
next
  case (12 ns h)
  then show ?case using g(4) [of ns] assms(7) [of ns] by auto
qed (use sinvD(1-5,7,8,10,11,13) [OF inv] g(1-3,5) in auto)

lemma inv_rememberCached:
  assumes inv: "soulseek_inv c R s ths"
  shows "soulseek_inv c R (rememberCached env now key trackID name remote modTime s) ths"
proof (cases "dc_records s (job_id env key)")
  case None
  let ?job = "with_td (\<lambda>d. d\<lparr>td_State := DownloadStateCached, td_CompletedBytes := rf_Size remote\<rparr>)
    ((new_job env s modTime key trackID name remote)\<lparr>jb_incompletePath := '''', jb_finished := True, jb_ready := True\<rparr>)"
  obtain r s' where run: "persistJob env (dc_next s) (add_job env ?job s) = (r, s')" by fastforce
  have "soulseek_inv c R (add_job env ?job s) ths"
    by (rule inv_record [OF inv]) (simp_all add: with_td_def new_job_def zero_job_def)
  then show ?thesis using sinv_view [OF persist_view [OF run]] run None by (simp add: rememberCached_def Let_def)
next
  case (Some n)
  let ?s = "change_job n (with_td (\<lambda>d. d\<lparr>td_State := DownloadStateCached,
    td_CompletedBytes := rf_Size remote, td_TotalBytes := rf_Size remote, td_Error := None, td_UpdatedAt := now\<rparr>)) s"
  obtain r s' where run: "persistJob env n ?s = (r, s')" by fastforce
  have "soulseek_inv c R ?s ths" using sinv_view [OF change_job_view] inv by simp
  then show ?thesis using sinv_view [OF persist_view [OF run]] run Some by (simp add: rememberCached_def)
qed

lemma resolve_cached_cases:
  assumes "resolve_cached env now key trackID remote s = (r, s')"
  obtains e where "r = Inl e" "coord_view s' = coord_view s"
    | s1 modTime where "r = Inr True" "coord_view s1 = coord_view s"
        "s' = beginRead key (rememberCached env now key trackID (sanitizedFilename (rf_Path remote)) remote modTime s1)"
    | s1 where "r = Inr False" "coord_view s1 = coord_view s" "s' = beginRead key s1"
proof -
  let ?path = "finalPath_of (dc_downloadsDir s) trackID remote"
  obtain r1 s1 where r1: "on_disk (os_Stat ?path) s = (r1, s1)" by fastforce
  obtain r2 s2 where r2: "on_disk (os_Open ?path) s1 = (r2, s2)" by fastforce
  have v: "coord_view s1 = coord_view s" "coord_view s2 = coord_view s" using disk_view [OF r1] disk_view [OF r2] by simp_all
  show thesis
  proof (cases r1)
    case (Inl e)
    then show ?thesis using assms r1 v that
      by (auto simp: resolve_cached_def Let_def with_state_def tryE_def bindE_def fail_def ret_def modify_def split: if_splits)
  next
    case (Inr info)
    then show ?thesis using assms r1 r2 v that
      by (cases r2; cases info) (auto simp: resolve_cached_def Let_def with_state_def tryE_def bindE_def wrapE_def fail_def ret_def modify_def split: if_splits)
  qed
qed

lemma inv_resolve_cached:
  assumes inv: "soulseek_inv c R s ths" and run: "resolve_cached env now key trackID remote s = (r, s')"
  shows "soulseek_inv c R s' (ths @ (case r of Inl e \<Rightarrow> [] | Inr True \<Rightarrow> [Reading key] | Inr False \<Rightarrow> [Resolving key trackID remote]))"
  using run
proof (cases rule: resolve_cached_cases)
  case (1 e)
  then show ?thesis using sinv_view [OF 1(2)] inv by simp
next
  case (2 s1 modTime)
  have "soulseek_inv c R s1 ths" using sinv_view [OF 2(2)] inv by simp
  from inv_begin_read [OF inv_rememberCached [OF this], of "Reading key" key] show ?thesis unfolding 2(1,3) by simp
next
  case (3 s1)
  have "soulseek_inv c R s1 ths" using sinv_view [OF 3(2)] inv by simp
  from inv_begin_read [OF this, of "Resolving key trackID remote" key] show ?thesis unfolding 3(1,3) by simp
qed

abbreviation soulseek_sys_inv :: "soulseek_sys \<Rightarrow> bool" where
  "soulseek_sys_inv y \<equiv> soulseek_inv (sy_closing y) (sy_resumed y) (sy_state y) (sy_threads y)"

lemma soulseek_step_inv:
  assumes "soulseek_step env attempts y y'" "soulseek_sys_inv y"
  shows "soulseek_sys_inv y'"
  using assms(1)
proof (cases rule: soulseek_step.cases)
  case (thread xs g ys s gs)
  then show ?thesis using sthread_step_inv [OF thread(3)] assms(2) by simp
next
  case (resume_active xs n ns ys started s)
  then show ?thesis using inv_resume_active [of _ _ _ xs n ns ys, OF _ resume_active(4)] assms(2) by simp
next
  case (open_cached now key trackID remote s)
  then show ?thesis using inv_resolve_cached [OF assms(2) open_cached(3)] by simp
next
  case (open_missing now key trackID remote s)
  then show ?thesis using inv_resolve_cached [OF assms(2) open_missing(3)] by simp
next
  case (open_failed now key trackID remote e s)
  then show ?thesis using inv_resolve_cached [OF assms(2) open_failed(3)] by simp
next
  case (cancel i n)
  let ?g = "Finishing n DownloadStateCancelled (Some (Errorf ''Soulseek download cancelled'')) Client"
  have "soulseek_sys_inv (y\<lparr>sy_threads := sy_threads y @ [?g]\<rparr>)"
    using inv_append [OF assms(2), of ?g] cancel(2) sinvD(13) [OF assms(2) cancel(3)] by (simp add: serving_def thread_ok_def)
  then show ?thesis using inv_cancelling [of _ _ _ "sy_threads y @ [?g]" n] cancel(1) by (simp add: cancel_now_def)
next
  case (cancel_transfer i n)
  then show ?thesis using inv_append [OF assms(2), of "Cancelling n"] sinvD(13) [OF assms(2) cancel_transfer(3)]
    by (simp add: serving_def thread_ok_def)
next
  case (retry i n j now)
  let ?job = "new_job env (sy_state y) now (jb_key j) (jb_trackID j) (td_Name (jb_download j)) (jb_remote j)"
  have "soulseek_inv (sy_closing y) (sy_resumed y) (add_job env ?job (sy_state y)) (sy_threads y @ [Creating (dc_next (sy_state y))] @ [])"
    by (rule inv_new) (use assms(2) retry in \<open>simp_all add: new_job_def zero_job_def\<close>)
  then show ?thesis using retry(1) by simp
next
  case (listed nows ns r s)
  then show ?thesis using sinv_view [OF preservesD [OF view_soulseek_TrackDownloads refl listed(3)]] assms(2) by simp
next
  case (notified now n r s)
  then show ?thesis using sinv_view [OF preservesD [OF view_snapshot refl notified(3)]] assms(2) by simp
next
  case (evicted ns checker nows need r s)
  then show ?thesis using sinv_view [OF preservesD [OF view_soulseek_Evict refl evicted(3)]] assms(2) by simp
next
  case closing
  then show ?thesis using inv_closing [OF assms(2)] by simp
qed

section \<open>The coordinator at the start\<close>

definition idle_job :: "downloadJob \<Rightarrow> bool" where
  "idle_job j \<longleftrightarrow> \<not> jb_slotHeld j \<and> \<not> jb_monitoring j \<and> \<not> jb_cancelled j"

definition loaded :: "downloadCoordinator \<Rightarrow> bool" where
  "loaded s \<longleftrightarrow> dc_slots s = 0 \<and> (\<forall>n. idle_job (dc_heap s n)) \<and> (\<forall>k. dc_active s k = 0)
     \<and> (\<forall>k n. dc_jobs s k = Some n \<longrightarrow> n < dc_next s \<and> job_key s n = k \<and> \<not> fin s n) \<and> (\<forall>i n. dc_records s i = Some n \<longrightarrow> n < dc_next s)"

lemma loaded_view: "coord_view s' = coord_view s \<Longrightarrow> loaded s' = loaded s"
  by (simp add: loaded_def idle_job_def coord_viewD [of s' s])

lemma preserves_loaded:
  assumes "\<And>v. preserves (same_view v) m"
  shows "preserves loaded m"
proof (rule preservesI)
  fix s r s' assume "loaded s" "m s = (r, s')"
  then show "loaded s'" using loaded_view [OF preservesD [OF assms refl]] by blast
qed

lemma loaded_add_job: "loaded s \<Longrightarrow> idle_job job \<Longrightarrow> loaded (add_job env job s)"
  by (auto simp: loaded_def idle_job_def less_Suc_eq split: if_splits)

lemma view_restoreJob: "preserves (same_view v) (restoreJob rec)"
  unfolding restoreJob_def Let_def by (auto intro!: preserving split: sum.splits)

lemma restoreJob_idle: "restoreJob rec s = (Inr job, s') \<Longrightarrow> idle_job job"
  by (auto simp: restoreJob_def Let_def with_state_def tryE_def fail_def ret_def restored_def settled_def with_td_def idle_job_def
      split: prod.splits sum.splits if_splits option.splits)

lemma loaded_restored:
  assumes "\<And>e. preserves loaded (k (Inl e))" "\<And>job. idle_job job \<Longrightarrow> preserves loaded (k (Inr job))"
  shows "preserves loaded (tryE (restoreJob rec) k)"
proof (rule preservesI)
  fix s r s' assume s: "loaded s" and run: "tryE (restoreJob rec) k s = (r, s')"
  obtain r1 s1 where r1: "restoreJob rec s = (r1, s1)" by fastforce
  have "loaded s1" using preservesD [OF preserves_loaded [OF view_restoreJob] s r1] .
  moreover have "k r1 s1 = (r, s')" using run r1 by (simp add: tryE_def)
  ultimately show "loaded s'"
    using preservesD [OF assms(1)] preservesD [OF assms(2) [OF restoreJob_idle]] r1 by (cases r1) blast+
qed

lemma preserves_add_job: "idle_job job \<Longrightarrow> preserves loaded (modify (add_job env job))"
  by (rule preservesI) (auto simp: modify_def loaded_add_job)

lemma preserves_load_loop: "preserves loaded (load_loop env entries)"
proof (induction entries)
  case (Cons entry entries)
  obtain name isDir where [simp]: "entry = (name, isDir)" by fastforce
  note steps = preserves_loaded [OF preserves_on_disk] preserves_loaded [OF view_persistJob] preserves_add_job Cons
  have one: "preserves loaded (tryE (restoreJob rec) (\<lambda>r. case r of
           Inl err \<Rightarrow> bindE (load_loop env entries) (\<lambda>errs. ret (Wrap ''restore Soulseek download job'' err # errs))
         | Inr job \<Rightarrow> bindE (modify (add_job env job)) (\<lambda>_. with_state (\<lambda>s'.
             tryE (persistJob env (dc_next s' - 1)) (\<lambda>r. case r of
               Inl err \<Rightarrow> bindE (load_loop env entries) (\<lambda>errs. ret (err # errs))
             | Inr _ \<Rightarrow> load_loop env entries)))))" for rec
    by (rule loaded_restored) (auto intro!: preserving steps split: sum.splits)
  show ?case by (auto intro!: one preserving steps simp del: One_nat_def)
qed (simp add: preserving)

lemma loaded_newDownloadCoordinator: "loaded (newDownloadCoordinator env downloadsDir incompleteDir maxActive w)"
proof -
  let ?e = "empty_coordinator downloadsDir incompleteDir maxActive w"
  have "preserves loaded (loadRecords env)"
    unfolding loadRecords_def by (auto intro!: preserving preserves_loaded [OF preserves_on_disk] preserves_load_loop split: sum.splits)
  moreover have "loaded ?e" by (simp add: loaded_def empty_coordinator_def zero_job_def idle_job_def)
  ultimately show ?thesis unfolding newDownloadCoordinator_def using preservesD [of loaded _ ?e] by (metis prod.collapse)
qed

lemma loaded_inv:
  assumes "loaded s" "set ns = ran (dc_jobs s)" "distinct ns"
  shows "soulseek_inv False 0 s [Resuming ns]"
proof -
  note l = assms(1) [unfolded loaded_def idle_job_def]
  have "held s = {}" using l by (simp add: held_def)
  moreover have "n < dc_next s \<and> fresh_job s n \<and> dc_jobs s (job_key s n) = Some n" if "n \<in> set ns" for n
    using that l by (auto simp: assms(2) ran_def fresh_job_def)
  moreover have "n \<in> set ns" if "dc_jobs s k = Some n" for k n using that by (auto simp: assms(2) ran_def)
  ultimately show ?thesis using l assms(3) by (intro sinvI) (auto simp: thread_ok_def)
qed

lemma soulseek_reachable_inv: "soulseek_reachable env attempts y \<Longrightarrow> soulseek_sys_inv y"
proof (induction rule: soulseek_reachable.induct)
  case (start s downloadsDir incompleteDir maxActive w ns)
  then show ?case using loaded_inv loaded_newDownloadCoordinator by simp
next
  case (step y y')
  then show ?case using soulseek_step_inv by blast
qed

text \<open>All that is left are requests that wait for a file or read one.\<close>

fun at_rest :: "sthread \<Rightarrow> bool" where
  "at_rest (Awaiting key n) = True"
| "at_rest (Reading key) = True"
| "at_rest _ = False"

lemma at_restD: "at_rest g \<Longrightarrow> \<not> works n g \<and> \<not> ends_job n g \<and> \<not> removes n g \<and> \<not> holds_gate g \<and> \<not> monitors n g"
  by (cases g) auto

lemma rest_is_free:
  assumes inv: "soulseek_inv False R s ths" and rest: "\<And>g. g \<in> set ths \<Longrightarrow> at_rest g"
  shows "dc_slots s = 0" "dc_jobs s = Map.empty"
proof -
  show none: "dc_jobs s = Map.empty"
  proof (rule ext, rule ccontr)
    fix k assume "dc_jobs s k \<noteq> None"
    then obtain n where n: "dc_jobs s k = Some n" by blast
    show False using sinvD(5,6) [OF inv n] rest at_restD by blast
  qed
  then have "held s = {}" using sinvD(3) [OF inv] by (auto simp: held_def)
  moreover have "tally holds_gate ths = 0" unfolding tally_zero using rest at_restD by blast
  ultimately show "dc_slots s = 0" using sinvD(1) [OF inv] by simp
qed

end
