(* ===== verification/SoulseekRuns.thy ===== *)
theory SoulseekRuns
  imports SoulseekUse
begin

text \<open>
  What follows for the Soulseek downloads: the invariant of every reachable state, what eviction removes, and
  a download that is cancelled during an automatic retry.
\<close>

section \<open>Every reachable state\<close>

text \<open>C35: In every state that the goroutines and requests of the Soulseek downloads can reach, the gate counts exactly the
  jobs that hold a slot and the goroutines that carry one, and never more than the limit and the transfers resumed at the start;
  no two goroutines work on one job; a registered job is found under its key and, while it is not finished and the
  coordinator is not closing, somebody works on it or is about to finish it; once it is finished, somebody is about to remove it;
  the readers of a file are counted exactly; and when only readers are left, every slot is free and no job is registered.\<close>

theorem soulseek_download_invariant:
  assumes "soulseek_reachable env attempts y"
  shows "dc_slots (sy_state y) = int (card {n. n < dc_next (sy_state y) \<and> jb_slotHeld (dc_heap (sy_state y) n)}) + int (tally holds_gate (sy_threads y))
    \<and> dc_slots (sy_state y) \<le> max 0 (dc_limit (sy_state y)) + int (sy_resumed y)
    \<and> (\<forall>n. tally (works n) (sy_threads y) \<le> 1)
    \<and> (\<forall>k n. dc_jobs (sy_state y) k = Some n \<longrightarrow> jb_key (dc_heap (sy_state y) n) = k
         \<and> (if jb_finished (dc_heap (sy_state y) n) then \<exists>g \<in> set (sy_threads y). removes n g
            else sy_closing y \<or> (\<exists>g \<in> set (sy_threads y). works n g \<or> ends_job n g)))
    \<and> (\<forall>k. dc_active (sy_state y) k = int (tally (reads_key k) (sy_threads y)))
    \<and> (\<not> sy_closing y \<and> (\<forall>g \<in> set (sy_threads y). at_rest g) \<longrightarrow> dc_slots (sy_state y) = 0 \<and> dc_jobs (sy_state y) = Map.empty)"
proof -
  note inv = soulseek_reachable_inv [OF assms]
  show ?thesis using sinvD(1,2,4-7,10) [OF inv] rest_is_free [of "sy_resumed y" "sy_state y" "sy_threads y"] inv
    by (auto simp: held_def)
qed

section \<open>A download cancelled during an automatic retry\<close>

text \<open>A step of the last goroutine.\<close>

lemma last_step:
  assumes "sy_threads y = xs @ [g]" "sthread_step env attempts (sy_closing y) (sy_state y) g s gs"
  shows "soulseek_step env attempts y (y\<lparr>sy_state := s, sy_threads := xs @ gs\<rparr>)"
  using soulseek_step.thread [of y xs g "[]" env attempts s gs] assms by simp

lemma finish_remove_view: "coord_view (finish_remove env n s) = coord_view (removeJob n s)"
proof -
  obtain r s' where run: "persistJob env n s = (r, s')" by fastforce
  note v = coord_viewD [OF persist_view [OF run]]
  show ?thesis by (simp add: finish_remove_def run coord_view_def removeJob_def v job_view_def)
qed

lemma client_finishes:
  assumes y: "sy_threads y = xs @ [Finishing n st e Client]" and nf: "\<not> fin (sy_state y) n"
  shows "\<exists>s. (soulseek_step env attempts)\<^sup>*\<^sup>* y (y\<lparr>sy_state := s, sy_threads := xs\<rparr>) \<and> fin s n \<and> dc_jobs s (job_key s n) \<noteq> Some n
    \<and> job_key s n = job_key (sy_state y) n"
proof -
  obtain b s1 where m: "finish_mark st e 0 n (sy_state y) = (b, s1)" by fastforce
  let ?s2 = "finish_release b n s1" and ?s3 = "finish_remove env n (finish_release b n s1)"
  let ?y1 = "y\<lparr>sy_state := s1, sy_threads := xs @ [Releasing n b Client]\<rparr>"
  let ?y2 = "?y1\<lparr>sy_state := ?s2, sy_threads := xs @ [Removing n Client]\<rparr>"
  let ?y3 = "?y2\<lparr>sy_state := ?s3, sy_threads := xs @ []\<rparr>"
  have "soulseek_step env attempts y ?y1" by (rule last_step [OF y]) (rule sthread_step.finish [OF nf m])
  moreover have "soulseek_step env attempts ?y1 ?y2" by (rule last_step) (simp, simp, rule sthread_step.release)
  moreover have "soulseek_step env attempts ?y2 ?y3"
    by (rule last_step) (use sthread_step.remove [where p = Client] in simp_all)
  ultimately have "(soulseek_step env attempts)\<^sup>*\<^sup>* y ?y3" by (meson rtranclp.rtrancl_into_rtrancl rtranclp.rtrancl_refl)
  moreover have "fin s1 n" "job_key s1 n = job_key (sy_state y) n" using m by (auto simp: finish_mark_def with_td_def)
  then have "fin ?s2 n" "job_key ?s2 n = job_key (sy_state y) n"
    by (simp_all add: finish_release_def markEnqueued_def gate_release_def)
  then have "fin ?s3 n" "job_key ?s3 n = job_key (sy_state y) n" "dc_jobs ?s3 (job_key (sy_state y) n) \<noteq> Some n"
    using coord_viewD(1,2) [OF finish_remove_view [of env n ?s2], of n] coord_viewD(7) [OF finish_remove_view [of env n ?s2]] by (simp_all add: removeJob_jobs)
  ultimately show ?thesis by auto
qed

text \<open>C39: The automatic retry of the monitor enqueues a failed transfer under the context of the coordinator and stores what
  comes back without looking whether the job was finished meanwhile. A cancel during it is lost: the job is finished
  and no longer registered, nobody but the monitor works on it, yet its state is Queued, which no later
  finishing of the job changes and for which a retry is refused.\<close>

theorem soulseek_cancel_lost:
  assumes y: "sy_threads y = xs @ Posting n Monitor k # ys" "serving y"
    and job: "dc_records (sy_state y) i = Some n" "\<not> jb_finished (dc_heap (sy_state y) n)" "jb_transferID (dc_heap (sy_state y) n) = ''''"
      "active_state (td_State (jb_download (dc_heap (sy_state y) n)))"
    and reply: "enqueue_reply (doPeerJSON answer ended) = Inr ids"
  shows "\<exists>y'. (soulseek_step env attempts)\<^sup>*\<^sup>* y y' \<and> sy_threads y' = xs @ Posted n Monitor k # ys
    \<and> jb_finished (dc_heap (sy_state y') n) \<and> dc_jobs (sy_state y') (jb_key (dc_heap (sy_state y') n)) \<noteq> Some n
    \<and> td_State (jb_download (dc_heap (sy_state y') n)) = DownloadStateQueued
    \<and> (\<forall>st e now. finishJob env st e now n (sy_state y') = sy_state y')
    \<and> \<not> retryable_state (td_State (jb_download (dc_heap (sy_state y') n)))"
proof -
  let ?g = "Finishing n DownloadStateCancelled (Some (Errorf ''Soulseek download cancelled'')) Client"
  let ?y1 = "y\<lparr>sy_state := cancel_now n (sy_state y), sy_threads := sy_threads y @ [?g]\<rparr>"
  have 1: "soulseek_step env attempts y ?y1"
    by (rule soulseek_step.cancel [OF y(2) job(1,4)]) (simp add: unknown_to_slskd_def job(3))
  have nf: "\<not> fin (sy_state ?y1) n" using job(2) by (simp add: cancel_now_def)
  obtain s where s: "(soulseek_step env attempts)\<^sup>*\<^sup>* ?y1 (?y1\<lparr>sy_state := s, sy_threads := sy_threads y\<rparr>)" "fin s n"
      "dc_jobs s (job_key s n) \<noteq> Some n"
    using client_finishes [OF _ nf, of "sy_threads y" DownloadStateCancelled "Some (Errorf ''Soulseek download cancelled'')" env attempts] by auto
  let ?y2 = "?y1\<lparr>sy_state := s, sy_threads := sy_threads y\<rparr>"
  let ?y3 = "?y2\<lparr>sy_state := enqueued 0 ids n s, sy_threads := xs @ [Posted n Monitor k] @ ys\<rparr>"
  have "soulseek_step env attempts ?y2 ?y3"
    by (rule soulseek_step.thread [where g = "Posting n Monitor k"]) (use y sthread_step.post [OF reply] in simp_all)
  then have "(soulseek_step env attempts)\<^sup>*\<^sup>* y ?y3" using 1 s(1) by (meson converse_rtranclp_into_rtranclp rtranclp.rtrancl_into_rtrancl)
  then show ?thesis using s(2,3)
    by (intro exI [of _ ?y3]) (simp add: enqueued_def with_td_def finishJob_def retryable_state_def)
qed

section \<open>Eviction\<close>

text \<open>What eviction of the jobs \<open>C\<close> keeps of the state \<open>s\<close>: the other jobs, where the files are, and every file that neither
  belongs to a job of \<open>C\<close> nor is the record of one.\<close>

definition record_file :: "downloadCoordinator \<Rightarrow> nat \<Rightarrow> string \<Rightarrow> bool" where
  "record_file s n p \<longleftrightarrow> p = recordPath s (td_ID (jb_download (dc_heap s n))) \<or> p = recordPath s (td_ID (jb_download (dc_heap s n))) @ ''.tmp''"

definition kept :: "downloadCoordinator \<Rightarrow> nat set \<Rightarrow> downloadCoordinator \<Rightarrow> bool" where
  "kept s C s1 \<longleftrightarrow> dc_stateDir s1 = dc_stateDir s \<and> (\<forall>n. n \<notin> C \<longrightarrow> dc_heap s1 n = dc_heap s n)
     \<and> (\<forall>n. jb_finalPath (dc_heap s1 n) = jb_finalPath (dc_heap s n) \<and> td_ID (jb_download (dc_heap s1 n)) = td_ID (jb_download (dc_heap s n)))
     \<and> (\<forall>p. (\<forall>n \<in> C. p \<noteq> jb_finalPath (dc_heap s n) \<and> \<not> record_file s n p) \<longrightarrow> map_of (w_blobs (dc_world s1)) p = map_of (w_blobs (dc_world s)) p)"

lemma kept_record_file:
  "kept s C s1 \<Longrightarrow> record_file s n (recordPath s1 (td_ID (jb_download (dc_heap s1 n)))) \<and> record_file s n (recordPath s1 (td_ID (jb_download (dc_heap s1 n))) @ ''.tmp'')"
  by (auto simp: kept_def record_file_def recordPath_def)

text \<open>An action on the disk that leaves all files alone but one.\<close>

definition touches :: "string set \<Rightarrow> (world, 'a) action \<Rightarrow> bool" where
  "touches P act \<longleftrightarrow> (\<forall>w p. p \<notin> P \<longrightarrow> map_of (w_blobs (snd (act w))) p = map_of (w_blobs w) p)"

lemma blobs_spend_fault [simp]: "w_blobs (spend_fault w) = w_blobs w"
  by (simp add: spend_fault_def)

lemma touches_os:
  "touches P (os_Stat p)" "touches P ctx_Err" "p \<in> P \<Longrightarrow> touches P (os_Remove p)" "p \<in> P \<Longrightarrow> touches P (os_WriteFile p c)"
  "p \<in> P \<Longrightarrow> q \<in> P \<Longrightarrow> touches P (os_Rename p q)"
  by (auto simp: touches_def os_Stat_def ctx_Err_def os_Remove_def os_WriteFile_def os_Rename_def os_call_def time_Now_def
      map_of_upsert map_of_filter_neq split: option.splits)

lemma kept_on_disk:
  assumes "touches {p. \<exists>n \<in> C. p = jb_finalPath (dc_heap s n) \<or> record_file s n p} act"
  shows "preserves (kept s C) (on_disk act)"
proof (rule preservesI)
  fix s1 r s' assume k: "kept s C s1" and run: "on_disk act s1 = (r, s')"
  have s': "s' = s1\<lparr>dc_world := snd (act (dc_world s1))\<rparr>" using run by (auto simp: on_disk_def split: prod.splits)
  show "kept s C s'" using k assms unfolding kept_def touches_def s' by auto
qed

lemma kept_persistJob:
  assumes "n \<in> C"
  shows "preserves (kept s C) (persistJob env n)"
  unfolding persistJob_def
proof (rule preserves_with_state, goal_cases)
  case (1 s1)
  note r = kept_record_file [OF 1, of n]
  show ?case
    unfolding Let_def by (intro preserves_bindE preserves_wrapE kept_on_disk touches_os(4,5)) (use r assms in \<open>auto simp: persisted_def\<close>)
qed

lemma kept_change_job: "n \<in> C \<Longrightarrow> (\<And>d. td_ID (f d) = td_ID d) \<Longrightarrow> preserves (kept s C) (modify (change_job n (with_td f)))"
  by (rule preservesI) (auto simp: modify_def kept_def change_job_def with_td_def)

lemma kept_markEvicted: "n \<in> C \<Longrightarrow> preserves (kept s C) (markEvicted env now n)"
  unfolding markEvicted_def by (intro preserving kept_change_job kept_persistJob) simp_all

lemma kept_evict_loop:
  "set ns \<subseteq> C \<Longrightarrow> preserves (kept s C) (soulseek_evict_loop env now need ns freed)"
proof (induction ns arbitrary: freed)
  case (Cons n ns)
  show ?case
    unfolding soulseek_evict_loop.simps
  proof (rule preserves_with_state, goal_cases)
    case (1 s1)
    then have path: "jb_finalPath (dc_heap s1 n) = jb_finalPath (dc_heap s n)" by (simp add: kept_def)
    have n: "n \<in> C" "set ns \<subseteq> C" using Cons.prems by auto
    note steps = kept_markEvicted [OF n(1)] Cons.IH [OF n(2)] kept_on_disk [OF touches_os(1)] kept_on_disk [OF touches_os(2)]
    have rm: "preserves (kept s C) (on_disk (os_Remove (jb_finalPath (dc_heap s n))))"
      by (rule kept_on_disk [OF touches_os(3)]) (use n(1) in blast)
    show ?case unfolding path Let_def by (intro preserving steps rm)
  qed
qed (simp add: preserving)

text \<open>A job that was marked stays marked; without an error the loop frees enough or marks every candidate.\<close>

abbreviation is_evicted :: "nat \<Rightarrow> downloadCoordinator \<Rightarrow> bool" where
  "is_evicted n s \<equiv> td_State (jb_download (dc_heap s n)) = DownloadStateEvicted"

lemma heap_on_disk: "on_disk act s = (r, s') \<Longrightarrow> dc_heap s' = dc_heap s"
  by (auto simp: on_disk_def split: prod.splits)

lemma evicted_on_disk: "preserves (is_evicted m) (on_disk act)"
  by (rule preservesI) (simp add: heap_on_disk)

lemma evicted_persistJob: "preserves (is_evicted m) (persistJob env n)"
  unfolding persistJob_def Let_def by (intro preserving evicted_on_disk)

lemma evicted_markEvicted: "preserves (is_evicted m) (markEvicted env now n)"
  unfolding markEvicted_def
  by (intro preserving evicted_persistJob preservesI) (auto simp: modify_def with_td_def)

lemma evicted_evict_loop: "preserves (is_evicted m) (soulseek_evict_loop env now need ns freed)"
  by (induction ns arbitrary: freed) (auto intro!: preserving evicted_on_disk evicted_markEvicted simp: Let_def)

lemma wp_markEvicted: "wp (markEvicted env now n) (\<lambda>r s'. is_evicted n s') s"
proof (rule wpI)
  fix r s' assume run: "markEvicted env now n s = (r, s')"
  let ?s = "change_job n (with_td (\<lambda>d. d\<lparr>td_State := DownloadStateEvicted, td_CompletedBytes := 0, td_Error := None, td_UpdatedAt := now\<rparr>)) s"
  have "wrapE ''persist evicted Soulseek download'' (persistJob env n) ?s = (r, s')"
    using run by (simp add: markEvicted_def bindE_def modify_def)
  then show "is_evicted n s'"
    using preservesD [OF preserves_wrapE [OF evicted_persistJob [of n env n]], of ?s] by (simp add: with_td_def)
qed

lemma evict_loop_complete:
  "wp (soulseek_evict_loop env now need ns freed)
     (\<lambda>r s'. \<exists>f e. r = Inr (f, e) \<and> freed \<le> f \<and> (e = None \<longrightarrow> need \<le> f \<or> (\<forall>n \<in> set ns. is_evicted n s'))) s"
proof (induction ns arbitrary: freed s)
  case (Cons n ns)
  have rest: "\<exists>g e. r = Inr (g, e) \<and> freed \<le> g \<and> (e = None \<longrightarrow> need \<le> g \<or> is_evicted n s' \<and> (\<forall>n \<in> set ns. is_evicted n s'))"
    if run: "soulseek_evict_loop env now need ns f s1 = (r, s')" and mark: "markEvicted env (now n) n s0 = (u, s1)" and "freed \<le> f"
    for f s0 s1 u r s'
  proof -
    have "is_evicted n s'" using preservesD [OF evicted_evict_loop wpD [OF wp_markEvicted mark] run] .
    then show ?thesis using wpD [OF Cons.IH run] that(3) by auto
  qed
  have len: "0 \<le> (case info of Some (contents :: string, _ :: int) \<Rightarrow> int (length contents) | None \<Rightarrow> 0)" for info
    by (auto split: option.splits)
  show ?case
    unfolding soulseek_evict_loop.simps wp_simps Let_def
    by (intro wpI) (auto simp: wp_simps len split: sum.splits intro!: wpI intro: rest)
qed (simp add: wp_simps)


section \<open>A run\<close>

definition demo_soulseek_env :: soulseek_env where
  "demo_soulseek_env = \<lparr>se_text = \<lparr>unicode = ascii_tables, sha256 = id, NFKC = id, CaseFold = id\<rparr>, se_Marshal = (\<lambda>_. ''x''),
     se_Unmarshal = (\<lambda>_. Inl ErrEOF), se_MarshalJob = (\<lambda>_. ''{}''), se_UnmarshalJob = (\<lambda>_. Inl ErrEOF)\<rparr>"

text \<open>A disk that holds nothing but the record of the job can store it.\<close>

definition healthy :: "nat \<Rightarrow> downloadCoordinator \<Rightarrow> bool" where
  "healthy n s \<longleftrightarrow> w_faults (dc_world s) = [] \<and> (\<forall>f \<in> set (w_blobs (dc_world s)). fst f = recordPath s (td_ID (jb_download (dc_heap s n))))"

lemma os_call_healthy: "w_faults w = [] \<Longrightarrow> os_call f w = f w"
  by (cases w) (simp add: os_call_def next_fault_def spend_fault_def)

lemma healthy_persist:
  assumes "healthy n s"
  shows "\<exists>w. persistJob env n s = (Inr (), s\<lparr>dc_world := w\<rparr>) \<and> healthy n (s\<lparr>dc_world := w\<rparr>)"
proof -
  let ?p = "recordPath s (td_ID (jb_download (dc_heap s n)))" and ?w = "dc_world s"
  let ?c = "se_MarshalJob env (persisted (dc_heap s n))"
  define w1 where "w1 = snd (os_WriteFile (?p @ ''.tmp'') ?c ?w)"
  define w2 where "w2 = snd (os_Rename (?p @ ''.tmp'') ?p w1)"
  have h: "w_faults ?w = []" "fst ` set (w_blobs ?w) \<subseteq> {?p}" using assms by (auto simp: healthy_def)
  have "\<not> is_dir ?w (?p @ ''.tmp'')" using h(2) by (fastforce simp: is_dir_def list_ex_iff HasPrefix_def dest: arg_cong [of _ _ length])
  then have w1: "os_WriteFile (?p @ ''.tmp'') ?c ?w = (Inr (), w1)" "w_faults w1 = []"
      "fst ` set (w_blobs w1) \<subseteq> {?p, ?p @ ''.tmp''}" "map_of (w_blobs w1) (?p @ ''.tmp'') \<noteq> None"
    using h by (auto simp: w1_def os_WriteFile_def os_call_healthy time_Now_def map_of_upsert simp del: map_of_eq_None_iff)
  have dir: "\<not> is_dir w1 ?p" using w1(3) by (fastforce simp: is_dir_def list_ex_iff HasPrefix_def)
  have "fst ` set (filter (\<lambda>f. fst f \<noteq> ?p @ ''.tmp'') (w_blobs w1)) \<subseteq> {?p}" using w1(3) by auto
  moreover obtain fl where "map_of (w_blobs w1) (?p @ ''.tmp'') = Some fl" using w1(4) by blast
  ultimately have w2: "os_Rename (?p @ ''.tmp'') ?p w1 = (Inr (), w2)" "w_faults w2 = []" "fst ` set (w_blobs w2) \<subseteq> {?p}"
    using w1(2) dir by (simp_all add: w2_def os_Rename_def os_call_healthy del: set_filter)
  show ?thesis using w1(1) w2
    by (intro exI [of _ w2]) (auto simp: persistJob_def with_state_def Let_def persisted_def bindE_def wrapE_def on_disk_def healthy_def recordPath_def)
qed

text \<open>A system with a request that waits for the file of job 0 and a goroutine at \<open>g\<close>.\<close>

definition demo_sys :: "downloadCoordinator \<Rightarrow> sthread \<Rightarrow> soulseek_sys" where
  "demo_sys s g = \<lparr>sy_state = s, sy_threads = [Awaiting ''k'' 0, g], sy_closing = False, sy_resumed = 0\<rparr>"

abbreviation demo_id :: string where "demo_id \<equiv> job_id demo_soulseek_env ''k''"

definition demo_ok :: "downloadCoordinator \<Rightarrow> bool" where
  "demo_ok s \<longleftrightarrow> healthy 0 s \<and> \<not> fin s 0 \<and> dc_records s demo_id = Some 0 \<and> dc_limit s = 2"

abbreviation demo_at :: "(downloadCoordinator \<Rightarrow> bool) \<Rightarrow> sthread \<Rightarrow> bool" where
  "demo_at P g \<equiv> \<exists>s. soulseek_reachable demo_soulseek_env 3 (demo_sys s g) \<and> demo_ok s \<and> P s"

lemma demo_go:
  assumes "demo_at P g" "\<And>s. demo_ok s \<Longrightarrow> P s \<Longrightarrow> \<exists>s'. sthread_step demo_soulseek_env 3 False s g s' [g'] \<and> demo_ok s' \<and> Q s'"
  shows "demo_at Q g'"
proof -
  obtain s where s: "soulseek_reachable demo_soulseek_env 3 (demo_sys s g)" "demo_ok s" "P s" using assms(1) by blast
  obtain s' where s': "sthread_step demo_soulseek_env 3 False s g s' [g']" "demo_ok s'" "Q s'" using assms(2) [OF s(2,3)] by blast
  have "soulseek_step demo_soulseek_env 3 (demo_sys s g) (demo_sys s' g')"
    using last_step [of "demo_sys s g" "[Awaiting ''k'' 0]" g demo_soulseek_env 3 s' "[g']"] s'(1) by (simp add: demo_sys_def)
  then show ?thesis using soulseek_reachable.step [OF s(1)] s'(2,3) by blast
qed

lemma demo_persist:
  assumes "demo_ok s"
  obtains w where "persistJob env 0 s = (Inr (), s\<lparr>dc_world := w\<rparr>)" "demo_ok (s\<lparr>dc_world := w\<rparr>)"
  using healthy_persist [of 0 s env] assms by (auto simp: demo_ok_def)

lemma demo_change:
  assumes "demo_ok s" "jb_finished (f (dc_heap s 0)) = jb_finished (dc_heap s 0)" "td_ID (jb_download (f (dc_heap s 0))) = td_ID (jb_download (dc_heap s 0))"
  shows "demo_ok (change_job 0 f s)"
  using assms by (simp add: demo_ok_def healthy_def change_job_def recordPath_def)

lemma demo_gate: "demo_ok (gate_take s) = demo_ok s" "dc_heap (gate_take s) = dc_heap s"
  by (simp_all add: demo_ok_def healthy_def gate_take_def recordPath_def)

lemma demo_okD: "demo_ok s \<Longrightarrow> \<not> fin s 0 \<and> dc_limit s = 2"
  by (simp add: demo_ok_def)

lemmas demo_sections = begin_enqueue_def hold_slot_def enqueued_def markEnqueued_def gate_take_def with_td_def

text \<open>The answer of slskd to a batch, and a transfer that failed for a while.\<close>

definition demo_reply :: "nat \<Rightarrow> slskdDownloadBatchResponse http_response" where
  "demo_reply _ = Response 200 '''' (Inr \<lparr>br_BatchID = ''b'', br_Transfers = [\<lparr>sdt_ID = ''t'', sdt_Filename = '''', sdt_State = '''',
     sdt_BytesTransferred = 0, sdt_Exception = ''''\<rparr>], br_Failures = []\<rparr>)"

lemma demo_enqueue: "enqueue_reply (doPeerJSON demo_reply (\<lambda>_. False)) = Inr (''b'', ''t'')"
  by (simp add: enqueue_reply_def doPeerJSON_def peerBusyRetryAttempts_def eval_nat_numeral doJSON_def demo_reply_def)

definition demo_transfer :: slskdDownloadTransfer where
  "demo_transfer = \<lparr>sdt_ID = ''t'', sdt_Filename = '''', sdt_State = ''Completed, TimedOut'', sdt_BytesTransferred = 0, sdt_Exception = ''''\<rparr>"

lemma demo_transfer_state:
  "\<not> transferSucceeded ascii_tables (sdt_State demo_transfer)" "transferFailed ascii_tables (sdt_State demo_transfer)"
  "retryableTransferFailure ascii_tables demo_transfer"
  by (simp_all add: demo_transfer_def transferSucceeded_def transferFailed_def retryableTransferFailure_def stateContains_def EqualFold_def go_eval)

lemma demo_started:
  "soulseek_reachable demo_soulseek_env 3
     \<lparr>sy_state = empty_coordinator ''/d'' ''/i'' 2 empty_world, sy_threads = [], sy_closing = False, sy_resumed = 0\<rparr>"
proof -
  let ?s = "empty_coordinator ''/d'' ''/i'' 2 empty_world" and ?y = "\<lambda>s ths. \<lparr>sy_state = s, sy_threads = ths, sy_closing = False, sy_resumed = 0\<rparr>"
  have "spend_fault empty_world = empty_world" by (simp add: spend_fault_def empty_world_def)
  then have new: "newDownloadCoordinator demo_soulseek_env ''/d'' ''/i'' 2 empty_world = ?s"
    by (simp add: newDownloadCoordinator_def loadRecords_def with_state_def tryE_def on_disk_def os_ReadDir_def os_call_def next_fault_def
        is_dir_def empty_world_def ret_def empty_coordinator_def)
  have "soulseek_reachable demo_soulseek_env 3 (?y ?s [Resuming []])"
    by (rule soulseek_reachable.start [OF new [symmetric]]) (simp_all add: empty_coordinator_def)
  moreover have "soulseek_step demo_soulseek_env 3 (?y ?s [Resuming []]) (?y ?s [])"
    using last_step [of "?y ?s [Resuming []]" "[]" "Resuming []" demo_soulseek_env 3 ?s "[]"] sthread_step.resume_done by simp
  ultimately show ?thesis using soulseek_reachable.step by blast
qed

text \<open>From the request for a file that is not there to the job.\<close>

lemma demo_created: "demo_at (\<lambda>s. dc_slots s = 0 \<and> \<not> jb_monitoring (dc_heap s 0) \<and> jb_retryCount (dc_heap s 0) = 0) (Creating 0)"
proof -
  let ?e = "empty_coordinator ''/d'' ''/i'' 2 empty_world" and ?r = "\<lparr>rf_Peer = ''p'', rf_Path = ''a'', rf_Size = 7\<rparr>"
  let ?y = "\<lambda>s ths. \<lparr>sy_state = s, sy_threads = ths, sy_closing = False, sy_resumed = 0\<rparr>"
  let ?s = "beginRead ''k'' ?e"
  have "spend_fault empty_world = empty_world" by (simp add: spend_fault_def empty_world_def)
  then have "resolve_cached demo_soulseek_env 0 ''k'' ''t'' ?r ?e = (Inr False, ?s)"
    by (simp add: resolve_cached_def with_state_def Let_def tryE_def on_disk_def os_Stat_def os_call_def next_fault_def is_dir_def empty_world_def
        bindE_def modify_def ret_def empty_coordinator_def)
  then have "soulseek_step demo_soulseek_env 3 (?y ?e []) (?y ?s [Resolving ''k'' ''t'' ?r])"
    using soulseek_step.open_missing [of "?y ?e []" demo_soulseek_env 0 "''k''" "''t''" ?r ?s 3] by (simp add: serving_def)
  then have r: "soulseek_reachable demo_soulseek_env 3 (?y ?s [Resolving ''k'' ''t'' ?r])"
    by (rule soulseek_reachable.step [OF demo_started])
  let ?job = "new_job demo_soulseek_env ?s 0 ''k'' ''t'' (sanitizedFilename (rf_Path ?r)) ?r"
  let ?s' = "add_job demo_soulseek_env ?job ?s"
  have empty: "dc_next ?s = 0" "dc_jobs ?s ''k'' = None" by (simp_all add: beginRead_def empty_coordinator_def)
  have "sthread_step demo_soulseek_env 3 False ?s (Resolving ''k'' ''t'' ?r) ?s' [Awaiting ''k'' 0, Creating 0]"
    using sthread_step.open_new [OF empty(2), of demo_soulseek_env 3 False "''t''" ?r 0] empty(1) by simp
  then have "soulseek_step demo_soulseek_env 3 (?y ?s [Resolving ''k'' ''t'' ?r]) (demo_sys ?s' (Creating 0))"
    using last_step [of "?y ?s [Resolving ''k'' ''t'' ?r]" "[]" "Resolving ''k'' ''t'' ?r" demo_soulseek_env 3 ?s'] by (simp add: demo_sys_def)
  with r have "soulseek_reachable demo_soulseek_env 3 (demo_sys ?s' (Creating 0))" by (rule soulseek_reachable.step)
  moreover have "demo_ok ?s'" "dc_slots ?s' = 0" "\<not> jb_monitoring (dc_heap ?s' 0)" "jb_retryCount (dc_heap ?s' 0) = 0"
    by (simp_all add: demo_ok_def healthy_def beginRead_def new_job_def zero_job_def empty_coordinator_def add_job_def empty_world_def)
  ultimately show ?thesis by blast
qed

lemma demo_monitor: "demo_ok s \<Longrightarrow> \<not> jb_monitoring (dc_heap s 0) \<Longrightarrow>
    beginMonitoring 0 (markEnqueued 0 s) = (True, change_job 0 (\<lambda>j. j\<lparr>jb_monitoring := True\<rparr>) (markEnqueued 0 s))"
  using demo_okD [of s] by (simp add: beginMonitoring_def markEnqueued_def)

text \<open>The job gets a slot, its file is queued and watched.\<close>

lemma demo_watched: "demo_at (\<lambda>s. jb_retryCount (dc_heap s 0) = 0) (Watching 0 0)"
proof -
  let ?P = "\<lambda>s. \<not> jb_monitoring (dc_heap s 0) \<and> jb_retryCount (dc_heap s 0) = 0"
  have run1: "demo_at (\<lambda>s. dc_slots s = 0 \<and> ?P s) (Acquiring 0)"
    by (rule demo_go [OF demo_created], rule demo_persist [where env = demo_soulseek_env], assumption,
      intro exI conjI, rule sthread_step.create, assumption) (auto intro!: demo_change simp: begin_enqueue_def)
  have run2: "demo_at ?P (Acquired 0)"
    by (rule demo_go [OF run1], intro exI conjI, rule sthread_step.acquire) (auto simp: demo_gate dest: demo_okD)
  have run3: "demo_at ?P (Noting 0 (Posting 0 Worker 1))"
    by (rule demo_go [OF run2], intro exI conjI, rule sthread_step.acquired) (auto intro!: demo_change simp: hold_slot_def with_td_def dest: demo_okD)
  have run4: "demo_at ?P (Posting 0 Worker 1)"
    by (rule demo_go [OF run3], rule demo_persist [where env = demo_soulseek_env], assumption,
      intro exI conjI, rule sthread_step.noted, assumption) auto
  have run5: "demo_at ?P (Posted 0 Worker 1)"
    by (rule demo_go [OF run4], intro exI conjI, rule sthread_step.post [OF demo_enqueue]) (auto intro!: demo_change simp: enqueued_def with_td_def)
  have run6: "demo_at ?P (Enqueued 0)"
    by (rule demo_go [OF run5], rule demo_persist [where env = demo_soulseek_env], assumption,
      intro exI conjI, rule sthread_step.posted [where p = Worker, unfolded after_enqueue.simps], assumption) auto
  show ?thesis
    by (rule demo_go [OF run6], intro exI conjI,
      rule sthread_step.monitor [where started = True, unfolded if_True, OF demo_monitor])
      (auto intro!: demo_change simp: markEnqueued_def)
qed

text \<open>The transfer fails and is retried.\<close>

lemma demo_retrying: "demo_at (\<lambda>s. jb_transferID (dc_heap s 0) = '''' \<and> active_state (td_State (jb_download (dc_heap s 0)))) (Posting 0 Monitor 1)"
proof -
  let ?P = "\<lambda>s. jb_transferID (dc_heap s 0) = '''' \<and> active_state (td_State (jb_download (dc_heap s 0)))"
  let ?Q = "\<lambda>s. jb_retryCount (dc_heap s 0) = 0"
  have run7: "demo_at ?Q (Polling 0 0)"
    by (rule demo_go [OF demo_watched], intro exI conjI, rule sthread_step.watch) (auto simp: demo_ok_def)
  then have run8: "demo_at ?Q (Judging 0 demo_transfer)"
  proof (rule demo_go)
    fix s assume s: "demo_ok s" "?Q s"
    have answer: "doJSON (Response 200 '''' (Inr [demo_transfer])) = Inr [demo_transfer]" by (simp add: doJSON_def)
    obtain b s' where u: "updateTransfer (unicode (se_text demo_soulseek_env)) 0 demo_transfer 0 s = (b, s')" by fastforce
    have "demo_ok s'" "?Q s'" using u s by (auto simp: updateTransfer_def Let_def transferred_def with_td_def intro!: demo_change split: if_splits)
    then show "\<exists>s'. sthread_step demo_soulseek_env 3 False s (Polling 0 0) s' [Judging 0 demo_transfer] \<and> demo_ok s' \<and> ?Q s'"
      using sthread_step.poll [OF answer u, where due = False] by auto
  qed
  then have run9: "demo_at ?P (Rearming 0)"
  proof (rule demo_go)
    fix s assume s: "demo_ok s" "?Q s"
    obtain s' where u: "prepareAutomaticRetry (int 3) 0 0 s = (True, s')" using s demo_okD [OF s(1)] by (auto simp: prepareAutomaticRetry_def)
    then have "demo_ok s'" "?P s'"
      using s(1) by (auto simp: prepareAutomaticRetry_def with_td_def active_state_def intro!: demo_change split: if_splits)
    then show "\<exists>s'. sthread_step demo_soulseek_env 3 False s (Judging 0 demo_transfer) s' [Rearming 0] \<and> demo_ok s' \<and> ?P s'"
      using sthread_step.judge_again [OF _ _ _ u, where transfer = demo_transfer and env = demo_soulseek_env and closing = False] demo_transfer_state by (auto simp: demo_soulseek_env_def)
  qed
  show ?thesis
    by (rule demo_go [OF run9], rule demo_persist [where env = demo_soulseek_env], assumption,
      intro exI conjI, rule sthread_step.rearmed, assumption) (auto)
qed

theorem soulseek_download_invariant_witness:
  "\<exists>s. soulseek_reachable demo_soulseek_env 3 (demo_sys s (Posting 0 Monitor 1)) \<and> dc_active s ''k'' = 1 \<and> dc_slots s \<le> 2"
proof -
  obtain s where s: "soulseek_reachable demo_soulseek_env 3 (demo_sys s (Posting 0 Monitor 1))" "demo_ok s" using demo_retrying by blast
  from soulseek_download_invariant [OF s(1)] s show ?thesis by (intro exI [of _ s]) (simp add: demo_sys_def demo_ok_def)
qed

theorem soulseek_cancel_lost_witness:
  "\<exists>y. soulseek_reachable demo_soulseek_env 3 y \<and> jb_finished (dc_heap (sy_state y) 0)
    \<and> td_State (jb_download (dc_heap (sy_state y) 0)) = DownloadStateQueued"
proof -
  obtain s where s: "soulseek_reachable demo_soulseek_env 3 (demo_sys s (Posting 0 Monitor 1))" "demo_ok s"
      "jb_transferID (dc_heap s 0) = ''''" "active_state (td_State (jb_download (dc_heap s 0)))" using demo_retrying by blast
  have "\<exists>y. (soulseek_step demo_soulseek_env 3)\<^sup>*\<^sup>* (demo_sys s (Posting 0 Monitor 1)) y \<and> jb_finished (dc_heap (sy_state y) 0)
      \<and> td_State (jb_download (dc_heap (sy_state y) 0)) = DownloadStateQueued"
    using soulseek_cancel_lost [where y = "demo_sys s (Posting 0 Monitor 1)" and xs = "[Awaiting ''k'' 0]" and n = 0 and k = 1 and ys = "[]" and i = demo_id
        and env = demo_soulseek_env and attempts = 3, OF _ _ _ _ _ _ demo_enqueue] s(2-)
    by (auto simp: demo_sys_def serving_def demo_ok_def)
  then obtain y where y: "(soulseek_step demo_soulseek_env 3)\<^sup>*\<^sup>* (demo_sys s (Posting 0 Monitor 1)) y" "jb_finished (dc_heap (sy_state y) 0)"
      "td_State (jb_download (dc_heap (sy_state y) 0)) = DownloadStateQueued" by blast
  from y(1) s(1) have "soulseek_reachable demo_soulseek_env 3 y" by (induction rule: rtranclp_induct) (auto intro: soulseek_reachable.step)
  with y(2,3) show ?thesis by blast
qed

text \<open>Two cached files, the first of a pinned track.\<close>

definition demo_soulseek_cache :: downloadCoordinator where
  "demo_soulseek_cache = (empty_coordinator ''/d/l'' ''/i'' 2 (empty_world\<lparr>w_blobs := [(''/d/a'', ''song'', 0), (''/d/b'', ''other'', 0)]\<rparr>))
     \<lparr>dc_heap := (\<lambda>n. zero_job\<lparr>jb_finalPath := (if n = 0 then ''/d/a'' else ''/d/b''), jb_trackID := (if n = 0 then ''pin'' else ''t''),
       jb_finished := True, jb_download := (jb_download zero_job)\<lparr>td_State := DownloadStateCached\<rparr>\<rparr>), dc_next := 2\<rparr>"


end
