(* ===== verification/Spec2Isabelle.thy ===== *)
theory Spec2Isabelle
  imports PlayQueues Annotations AuthLimiter Transfers LibraryCache BoundedReader SoulseekSearch SoulseekRuns
begin

text \<open>
  Peerphonic: a verification development of its Go backend (\<open>src/backend\<close>).

  \<^bold>\<open>The program.\<close> Peerphonic serves a music library over the OpenSubsonic protocol and an API of its own.
  Media come from providers (a local directory, torrents, a Soulseek client); a scanner and the
  discovery service fill a SQL catalog; services on top of the catalog keep users, playlists,
  play queues, annotations, settings and a bounded cache of media files. A service sees its store
  through an interface of \<open>core/ports\<close>; the stores are SQL statements in \<open>adapters/storage/sqlite\<close>.

  \<^bold>\<open>How it is modelled.\<close> A call that may fail is an action (\<open>GoPrelude\<close>): a function from the world to a
  result and the world after it, also after an error. The world (\<open>World\<close>) holds one list of rows per
  table, the files, a clock that gives any readings, and a schedule of faults: every SQL statement and
  file operation consults it, so that a theorem about all worlds covers every pattern of failures. A
  transaction restores the tables when its body or its commit fails. Integers that can overflow are wrapped
  at 64 bits (\<open>i64\<close>). Strings are byte lists; UTF-8 decoding and the functions of package \<open>strings\<close> are
  defined. Text order of times in SQL is the order of their RFC 3339 text, as in the database.
  Code that is not in the repository is a parameter: SHA-256, bcrypt and AES-GCM, Unicode tables and
  normalization, the tag reader, peers. What a theorem needs of them is among its hypotheses.
  Concurrent parts are transition systems whose steps are the critical sections of the code. All loops
  are structural recursions, so no fuel is used.

  \<^bold>\<open>Theories.\<close> Each component has its records and operations in the order of the code, named as there
  (\<open>UserService_DeleteUser\<close> is the method \<open>DeleteUser\<close>, \<open>sqlite_Track\<close> the store's \<open>Track\<close>); a locale states
  what a service relies on, its lemmas are proved there, and an interpretation discharges the laws for the
  SQL store.

  \<^item> \<open>GoPrelude\<close>: errors, actions and their postconditions (\<open>wp\<close>), integers, times, strings, sorting.
  \<^item> \<open>Domain\<close> (\<open>core/domain\<close>): records, permissions, canonical identifiers. Identifiers coincide exactly for
    the same identity, if the hash has no collision.
  \<^item> \<open>World\<close>: tables, transactions, faults, RFC 3339 texts.
  \<^item> \<open>Users\<close> (\<open>core/services/users.go\<close>, \<open>sqlite/users.go\<close>, \<open>adapters/auth/credentials.go\<close>): every call refines an
    abstract step relation on accounts; an administrator remains; nobody escalates; accounts authenticate.
  \<^item> \<open>Filesystem\<close> (\<open>adapters/blob/filesystem/store.go\<close>, the paths of \<open>providers/local\<close>): keys stay below the root.
  \<^item> \<open>MediaCache\<close> (\<open>core/services/media_cache.go\<close>, \<open>sqlite/cache.go\<close>): capacity, pins, eviction, repair.
  \<^item> \<open>Catalog\<close> (\<open>sqlite/catalog.go\<close>, \<open>catalog_management.go\<close>, \<open>source_writer.go\<close>): keys and foreign keys are kept by
    every operation; replacement of a provider's tracks, aliases, paging.
  \<^item> \<open>TrackLists\<close>, \<open>Playlists\<close>, \<open>PlayQueues\<close> (\<open>core/services/playlists.go\<close>, \<open>playqueue.go\<close> and their stores): ordered
    lists of tracks; playlists of others are out of reach; a saved queue is read back.
  \<^item> \<open>Annotations\<close> (\<open>core/services/annotations.go\<close> and its store): stars, ratings and plays refine a pure update.
  \<^item> \<open>AuthLimiter\<close> (\<open>observability/auth_limit.go\<close>): only offenders are rejected, and they are admitted again.
  \<^item> \<open>Streaming\<close> (\<open>core/services/streaming.go\<close>, \<open>audioformat\<close>, \<open>providers/local\<close>): the source of best provider order
    is opened.
  \<^item> \<open>Transfers\<close> (\<open>core/services/settings.go\<close>, \<open>cache_status.go\<close>, \<open>downloads.go\<close>, the limits of the torrent provider):
    limits are set in the store and the engine or in neither.
  \<^item> \<open>ScanManager\<close> (\<open>scanner/manager.go\<close>, \<open>group.go\<close>): one scan at a time, exact history.
  \<^item> \<open>Scanner\<close> (\<open>scanner/scanner.go\<close>): a scan makes the local files of the catalog those of the disk; tracks
    are well formed; compilations do not depend on map order.
  \<^item> \<open>Discovery\<close> (\<open>core/services/discovery.go\<close>): results, alternatives and adding them to the catalog.
  \<^item> \<open>LibraryCache\<close> (\<open>core/services/library_cache.go\<close>, \<open>sqlite/track_pins.go\<close>): pins, prefetching and its end.
  \<^item> \<open>MagnetImports\<close> (\<open>scanner/torrents/magnet_importer.go\<close>): jobs, their goroutines and their resumption.
  \<^item> \<open>TorrentCatalog\<close>, \<open>TorrentProvider\<close>, \<open>TorrentEviction\<close> (\<open>providers/torrent/provider.go\<close>): the tracks and keys of a
    torrent, the provider's maps, cache files and their migration; eviction frees enough and touches no pinned or
    busy torrent.
  \<^item> \<open>TorrentScanner\<close> (\<open>scanner/torrents\<close>, \<open>scanner/enricher.go\<close>): the torrent directory, the importer of torrent
    files and the enrichment of completed tracks.
  \<^item> \<open>TorrentDownloads\<close>, \<open>TorrentUse\<close> (\<open>providers/torrent/downloads.go\<close>, \<open>open\<close>): streams, downloads, their slots and
    their goroutines as a transition system; uses are counted exactly, what is in use is protected.
  \<^item> \<open>BoundedReader\<close> (\<open>boundedReader\<close> of \<open>provider.go\<close>): a client sees the bytes of one file only.
  \<^item> \<open>SoulseekFiles\<close>, \<open>SoulseekSearch\<close> (\<open>providers/soulseek/slskd.go\<close>, the names in \<open>download.go\<close>): requests to slskd and their
    retries, search, albums; whatever a peer calls its files, downloads stay in their directories.
  \<^item> \<open>SoulseekDownloads\<close>, \<open>SoulseekUse\<close>, \<open>SoulseekRuns\<close> (\<open>providers/soulseek/download.go\<close>, \<open>monitoring.go\<close>,
    \<open>persistence.go\<close>): jobs as objects on a heap, their goroutines and the requests as a transition system; slots and readers are
    counted exactly, no job is left behind, eviction spares what is pinned or read.

  \<^bold>\<open>Deviations of the code\<close> that the theorems show: the cache evicts by the text order of times
  (\<open>Prune_evicts_newer\<close>), which also loses the preference of alternative sources (\<open>alternatives_order_lost\<close>); a
  rescan drops former identifiers (\<open>rescan_drops_track_aliases\<close>); artist aliases can form a cycle
  (\<open>artist_alias_cycle\<close>); queues and annotations do not follow former identifiers
  (\<open>PlayQueueService_alias_restarts\<close>, \<open>SetStarred_alias_missed\<close>); a late failure lifts a block
  (\<open>limiter_late_failure_unblocks\<close>); an import that is requested again in the wrong moment is stuck
  (\<open>magnet_import_stuck\<close>); the name of a torrent can lead out of the cache directory (\<open>torrent_name_escapes\<close>); opening
  a cached file of a torrent while the cache is too full blocks the provider (\<open>open_deadlocks\<close>); a Soulseek download
  that is cancelled during an automatic retry is reported as queued for ever (\<open>soulseek_cancel_lost\<close>); the order of the
  tracks of a Soulseek album is none (\<open>collection_lt_cycle\<close>).

  \<^bold>\<open>Bounds.\<close> Cancellation of contexts is modelled where the code tests it. The sequence of readings of a
  directory walk, of \<open>rand\<close> and of the clock is arbitrary. Message arguments of errors are not kept; no branch
  of the program looks at them. Response bodies and log lines are not modelled.

  \<^bold>\<open>Not modelled.\<close> The torrent engine (its files, what they contain and how much has arrived are
  parameters) and what only asks it (usage, transfers, metadata of magnet links); slskd, whose answers are
  arbitrary, the artwork it fetches and the reader of a file that is still growing; transcoding and image extraction, which run third-party programs; tag
  reading, HTTP handlers, metrics, configuration, backup and the migrations of old databases.
\<close>

end
